(* ===== verification/JSPrelude.thy ===== *)
theory JSPrelude
  imports Main "HOL-Library.Sublist" "HOL-Library.Multiset"
begin

text \<open>
  The vocabulary shared by every component: JavaScript strings and values, the string
  operations of the standard library that the source calls, and three interfaces that several
  components share (a key-value store, an event sink, a state machine with an invariant), with
  the lemmas that clients of these interfaces need.

  A JavaScript string is the list of its UTF-16 code units. ASCII literals are written
  \<open>js ''...''\<close>; other literals are lists of code units. Numbers are
  \<open>int\<close>: every number that the modelled code computes with is an integer.
\<close>

named_theorems js_simps \<open>characteristic equations of the JavaScript operations\<close>

section \<open>Strings\<close>

type_synonym jstr = "nat list"

definition js :: "string \<Rightarrow> jstr" where
  "js s = map of_char s"

abbreviation cu :: "char \<Rightarrow> nat" where
  "cu c \<equiv> of_char c"

lemma js_simps_list [simp]:
  "js [] = []" "js (c # s) = of_char c # js s"
  by (simp_all add: js_def)

text \<open>White space and line terminators, as \<open>String.prototype.trim\<close> and \<open>\s\<close> see them.\<close>

definition js_ws :: "nat \<Rightarrow> bool" where
  "js_ws c \<longleftrightarrow> c \<in> {9, 10, 11, 12, 13, 32, 0xA0, 0x1680, 0x2028, 0x2029, 0x202F, 0x205F, 0x3000, 0xFEFF}
     \<or> 0x2000 \<le> c \<and> c \<le> 0x200A"

text \<open>The code units that \<open>.\<close> of a regular expression does not match.\<close>

definition js_line_end :: "nat \<Rightarrow> bool" where
  "js_line_end c \<longleftrightarrow> c \<in> {10, 13, 0x2028, 0x2029}"

definition trim_end :: "jstr \<Rightarrow> jstr" where
  "trim_end s = rev (dropWhile js_ws (rev s))"

definition js_trim :: "jstr \<Rightarrow> jstr" where
  "js_trim s = trim_end (dropWhile js_ws s)"

definition starts_with :: "'a list \<Rightarrow> 'a list \<Rightarrow> bool" where
  "starts_with p s \<longleftrightarrow> take (length p) s = p"

fun contains_sub :: "'a list \<Rightarrow> 'a list \<Rightarrow> bool" where
  "contains_sub p [] = (p = [])"
| "contains_sub p (x # xs) = (starts_with p (x # xs) \<or> contains_sub p xs)"

text \<open>\<open>s.split(c)\<close> for a one-unit separator, and \<open>xs.join(sep)\<close>.\<close>

fun split_on :: "'a \<Rightarrow> 'a list \<Rightarrow> 'a list list" where
  "split_on c [] = [[]]"
| "split_on c (x # xs) =
     (if x = c then [] # split_on c xs
      else (case split_on c xs of [] \<Rightarrow> [[x]] | y # ys \<Rightarrow> (x # y) # ys))"

fun join_with :: "'a list \<Rightarrow> 'a list list \<Rightarrow> 'a list" where
  "join_with sep [] = []"
| "join_with sep [x] = x"
| "join_with sep (x # y # ys) = x @ sep @ join_with sep (y # ys)"

text \<open>\<open>s.replace(p, r)\<close> for a string pattern: the first occurrence is replaced.\<close>

fun replace_first :: "'a list \<Rightarrow> 'a list \<Rightarrow> 'a list \<Rightarrow> 'a list" where
  "replace_first p r [] = (if p = [] then r else [])"
| "replace_first p r (x # xs) =
     (if starts_with p (x # xs) then r @ drop (length p) (x # xs) else x # replace_first p r xs)"

definition ascii :: "jstr \<Rightarrow> bool" where
  "ascii s \<longleftrightarrow> list_all (\<lambda>c. c < 128) s"

definition ascii_lower :: "nat \<Rightarrow> nat" where
  "ascii_lower c = (if 65 \<le> c \<and> c \<le> 90 then c + 32 else c)"

text \<open>Decimal notation, as \<open>String(n)\<close> writes an integer.\<close>

fun digits_rev :: "nat \<Rightarrow> jstr" where
  "digits_rev n = (if n < 10 then [48 + n] else (48 + n mod 10) # digits_rev (n div 10))"

declare digits_rev.simps [simp del]

definition nat_str :: "nat \<Rightarrow> jstr" where
  "nat_str n = rev (digits_rev n)"

definition num_str :: "int \<Rightarrow> jstr" where
  "num_str i = (if i < 0 then 45 # nat_str (nat (- i)) else nat_str (nat i))"

subsection \<open>Lemmas on strings\<close>

lemma starts_with_append: "starts_with p (p @ s)"
  by (simp add: starts_with_def)

lemma starts_with_prefix [js_simps]: "starts_with p s \<longleftrightarrow> prefix p s"
  unfolding starts_with_def
  by (metis append_eq_conv_conj append_take_drop_id prefix_def)

lemma contains_sub_sublist: "contains_sub p s \<longleftrightarrow> sublist p s"
  by (induction s) (auto simp: starts_with_prefix sublist_Cons_right)

lemma split_on_not_Nil [simp]: "split_on c s \<noteq> []"
  by (induction s) (auto split: list.splits)

lemma split_on_free: "c \<notin> set s \<Longrightarrow> split_on c s = [s]"
  by (induction s) auto

lemma split_on_append:
  "c \<notin> set s \<Longrightarrow> split_on c (s @ c # t) = s # split_on c t"
  by (induction s) auto

lemma join_with_Cons: "ys \<noteq> [] \<Longrightarrow> join_with sep (x # ys) = x @ sep @ join_with sep ys"
  by (cases ys) auto

lemma join_split_on [simp]: "join_with [c] (split_on c s) = s"
proof (induction s)
  case (Cons x s)
  obtain y ys where sp: "split_on c s = y # ys"
    by (cases "split_on c s") auto
  then show ?case
    using Cons by (cases ys) auto
qed simp

lemma split_on_join:
  "\<lbrakk>xs \<noteq> []; \<forall>x \<in> set xs. c \<notin> set x\<rbrakk> \<Longrightarrow> split_on c (join_with [c] xs) = xs"
  by (induction "[c]" xs rule: join_with.induct)
    (auto simp: split_on_free split_on_append)

lemma split_on_elem_free: "x \<in> set (split_on c s) \<Longrightarrow> c \<notin> set x"
  by (induction s arbitrary: x) (auto split: if_splits list.splits)

lemma join_with_append:
  "xs \<noteq> [] \<Longrightarrow> ys \<noteq> [] \<Longrightarrow> join_with sep (xs @ ys) = join_with sep xs @ sep @ join_with sep ys"
  by (induction sep xs rule: join_with.induct) (auto simp: join_with_Cons)

lemma in_set_tlD: "x \<in> set (tl xs) \<Longrightarrow> x \<in> set xs"
  by (cases xs) auto

lemma upt_append_le: "i \<le> j \<Longrightarrow> j \<le> k \<Longrightarrow> [i ..< j] @ [j ..< k] = [i ..< k]"
  by (metis le_Suc_ex upt_add_eq_append)

lemma dropWhile_id: "(s \<noteq> [] \<longrightarrow> \<not> P (hd s)) \<Longrightarrow> dropWhile P s = s"
  by (cases s) auto

lemma js_trim_id:
  "\<lbrakk>s \<noteq> [] \<Longrightarrow> \<not> js_ws (hd s); s \<noteq> [] \<Longrightarrow> \<not> js_ws (last s)\<rbrakk> \<Longrightarrow> js_trim s = s"
  by (simp add: js_trim_def trim_end_def dropWhile_id hd_rev)

lemma js_trim_blank: "list_all js_ws s \<Longrightarrow> js_trim s = []"
  by (metis dropWhile.simps(1) dropWhile_eq_Nil_conv js_trim_def list_all_iff rev.simps(1) trim_end_def)

lemma trim_end_hd: "s \<noteq> [] \<Longrightarrow> \<not> js_ws (hd s) \<Longrightarrow> trim_end s \<noteq> [] \<and> hd (trim_end s) = hd s"
proof -
  assume s: "s \<noteq> []" and h: "\<not> js_ws (hd s)"
  have "\<not> (\<forall>x \<in> set (rev s). js_ws x)"
    using s h by (metis hd_in_set set_rev)
  then have ne: "trim_end s \<noteq> []"
    by (simp add: trim_end_def dropWhile_eq_Nil_conv)
  have "prefix (trim_end s) s"
    unfolding trim_end_def
    by (metis rev_rev_ident suffix_dropWhile suffix_to_prefix)
  then obtain r where "s = trim_end s @ r"
    by (auto simp: prefix_def)
  with ne show ?thesis
    by (metis hd_append2)
qed

lemma trim_end_idem: "trim_end (trim_end s) = trim_end s"
  by (simp add: trim_end_def)

lemma js_trim_idem: "js_trim (js_trim s) = js_trim s"
proof (cases "dropWhile js_ws s = []")
  case True
  have "js_trim s = []" unfolding js_trim_def True by (simp add: trim_end_def)
  moreover have "js_trim [] = []" by (simp add: js_trim_def trim_end_def)
  ultimately show ?thesis by simp
next
  case False
  then have "\<not> js_ws (hd (dropWhile js_ws s))" by (rule hd_dropWhile)
  then have "dropWhile js_ws (trim_end (dropWhile js_ws s)) = trim_end (dropWhile js_ws s)"
    using trim_end_hd [OF False] by (intro dropWhile_id) simp
  then show ?thesis by (simp add: js_trim_def trim_end_idem)
qed

lemma digits_rev_digits: "d \<in> set (digits_rev n) \<Longrightarrow> 48 \<le> d \<and> d \<le> 57"
proof (induction n rule: digits_rev.induct)
  case (1 n)
  then show ?case
    by (cases "n < 10") (auto simp: digits_rev.simps [of n])
qed

lemma digits_rev_inj: "digits_rev m = digits_rev n \<Longrightarrow> m = n"
proof (induction m arbitrary: n rule: digits_rev.induct)
  case (1 m)
  have ne: "digits_rev k \<noteq> []" for k by (subst digits_rev.simps) simp
  show ?case
  proof (cases "m < 10")
    case True
    with "1.prems" ne ne [symmetric] show ?thesis
      by (cases "n < 10") (auto simp: digits_rev.simps [of m] digits_rev.simps [of n])
  next
    case m: False
    show ?thesis
    proof (cases "n < 10")
      case True
      with m "1.prems" ne ne [symmetric] show ?thesis
        by (auto simp: digits_rev.simps [of m] digits_rev.simps [of n])
    next
      case False
      with m "1.prems" have "m mod 10 = n mod 10" "digits_rev (m div 10) = digits_rev (n div 10)"
        by (auto simp: digits_rev.simps [of m] digits_rev.simps [of n])
      with "1.IH" [OF m] have "m mod 10 = n mod 10" "m div 10 = n div 10" by auto
      then show ?thesis by (metis mult_div_mod_eq)
    qed
  qed
qed

lemma nat_str_inj: "nat_str m = nat_str n \<Longrightarrow> m = n"
  by (auto simp: nat_str_def dest: digits_rev_inj)

lemma num_str_inj: "num_str i = num_str j \<Longrightarrow> i = j"
proof -
  assume eq: "num_str i = num_str j"
  have no_minus: "45 \<notin> set (nat_str n)" for n
    using digits_rev_digits by (fastforce simp: nat_str_def)
  show "i = j"
    using eq no_minus
    by (auto simp: num_str_def split: if_splits dest: nat_str_inj)
      (metis list.set_intros(1))+
qed

section \<open>Answers\<close>

text \<open>
  How a promise settles: it rejects with an error, given by its text, or resolves to a value;
  and the statuses for which a \<open>Response\<close> is \<open>ok\<close>.
\<close>

datatype 'a reply = Rejects jstr | Resolves 'a

definition http_ok :: "int \<Rightarrow> bool" where
  "http_ok st \<longleftrightarrow> 200 \<le> st \<and> st \<le> 299"

section \<open>Values\<close>

datatype jval = JUndef | JNull | JBool bool | JNum int | JStr jstr | JArr "jval list"
  | JObj "(jstr \<times> jval) list"

fun truthy :: "jval \<Rightarrow> bool" where
  "truthy JUndef = False"
| "truthy JNull = False"
| "truthy (JBool b) = b"
| "truthy (JNum n) = (n \<noteq> 0)"
| "truthy (JStr s) = (s \<noteq> [])"
| "truthy (JArr _) = True"
| "truthy (JObj _) = True"

text \<open>The truth value of a JSON value in Python: an empty list or dictionary is false.\<close>

fun py_truthy :: "jval \<Rightarrow> bool" where
  "py_truthy (JArr xs) = (xs \<noteq> [])"
| "py_truthy (JObj kvs) = (kvs \<noteq> [])"
| "py_truthy v = truthy v"

text \<open>\<open>str.isspace\<close> of one character, and \<open>str.strip\<close>.\<close>

definition py_space :: "nat \<Rightarrow> bool" where
  "py_space x \<longleftrightarrow> 9 \<le> x \<and> x \<le> 13 \<or> 28 \<le> x \<and> x \<le> 32
     \<or> x \<in> {0x85, 0xA0, 0x1680, 0x2028, 0x2029, 0x202F, 0x205F, 0x3000} \<or> 0x2000 \<le> x \<and> x \<le> 0x200A"

definition py_strip :: "jstr \<Rightarrow> jstr" where
  "py_strip s = rev (dropWhile py_space (rev (dropWhile py_space s)))"

text \<open>\<open>a || b\<close>, and reading a property of an object (absent: undefined).\<close>

definition jor :: "jval \<Rightarrow> jval \<Rightarrow> jval" where
  "jor a b = (if truthy a then a else b)"

fun jget :: "jstr \<Rightarrow> jval \<Rightarrow> jval" where
  "jget k (JObj kvs) = (case map_of kvs k of None \<Rightarrow> JUndef | Some v \<Rightarrow> v)"
| "jget k _ = JUndef"

definition jopt :: "jval option \<Rightarrow> jval" where
  "jopt v = (case v of None \<Rightarrow> JNull | Some x \<Rightarrow> x)"

section \<open>Interfaces\<close>

text \<open>
  State machines with an invariant. The runs of a machine are the folds of its steps. A
  guarded machine keeps its invariant as long as each step is one that \<open>ok\<close>
  allows in its state; an \<open>inv_machine\<close> keeps it along every run.
\<close>

fun run_ok :: "('op \<Rightarrow> 's \<Rightarrow> 's) \<Rightarrow> ('op \<Rightarrow> 's \<Rightarrow> bool) \<Rightarrow> 'op list \<Rightarrow> 's \<Rightarrow> bool" where
  "run_ok step ok [] s = True"
| "run_ok step ok (op # ops) s = (ok op s \<and> run_ok step ok ops (step op s))"

locale guarded_machine =
  fixes step :: "'op \<Rightarrow> 's \<Rightarrow> 's"
    and inv :: "'s \<Rightarrow> bool"
    and ok :: "'op \<Rightarrow> 's \<Rightarrow> bool"
  assumes step_inv_ok: "inv s \<Longrightarrow> ok op s \<Longrightarrow> inv (step op s)"
begin

lemma run_inv_ok: "inv s \<Longrightarrow> run_ok step ok ops s \<Longrightarrow> inv (fold step ops s)"
  by (induction ops arbitrary: s) (auto intro: step_inv_ok)

end

locale inv_machine =
  fixes step :: "'op \<Rightarrow> 's \<Rightarrow> 's"
    and inv :: "'s \<Rightarrow> bool"
  assumes step_inv: "inv s \<Longrightarrow> inv (step op s)"

sublocale inv_machine \<subseteq> unguarded: guarded_machine step inv "\<lambda>_ _. True"
  by unfold_locales (rule step_inv)

context inv_machine
begin

lemma all_ok: "run_ok step (\<lambda>_ _. True) ops s"
  by (induction ops arbitrary: s) auto

lemma run_inv: "inv s \<Longrightarrow> inv (fold step ops s)"
  by (rule unguarded.run_inv_ok [OF _ all_ok])

end

text \<open>
  An event sink: putting an event appends it to the sink's abstract contents. The clients emit
  lists of events.
\<close>

locale fifo_sink =
  fixes put :: "'e \<Rightarrow> 's \<Rightarrow> 's"
    and contents :: "'s \<Rightarrow> 'e list"
    and inv :: "'s \<Rightarrow> bool"
  assumes put_contents: "inv s \<Longrightarrow> contents (put e s) = contents s @ [e]"
    and put_inv: "inv s \<Longrightarrow> inv (put e s)"
begin

lemma put_all_contents: "inv s \<Longrightarrow> contents (fold put es s) = contents s @ es"
  by (induction es arbitrary: s) (auto simp: put_contents put_inv)

lemma put_all_inv: "inv s \<Longrightarrow> inv (fold put es s)"
  by (induction es arbitrary: s) (auto intro: put_inv)

end

text \<open>
  A buffer that hands its elements on in order: each allowed step appends what it produces and
  releases a prefix of the contents. \<open>released\<close> collects what a run releases.
\<close>

fun released :: "('op \<Rightarrow> 's \<Rightarrow> 's) \<Rightarrow> ('op \<Rightarrow> 's \<Rightarrow> 'e list) \<Rightarrow> 'op list \<Rightarrow> 's \<Rightarrow> 'e list" where
  "released step out [] s = []"
| "released step out (op # ops) s = out op s @ released step out ops (step op s)"

locale fifo_machine = guarded_machine step inv ok
  for step :: "'op \<Rightarrow> 's \<Rightarrow> 's" and inv :: "'s \<Rightarrow> bool" and ok :: "'op \<Rightarrow> 's \<Rightarrow> bool" +
  fixes contents :: "'s \<Rightarrow> 'e list"
    and produced :: "'op \<Rightarrow> 's \<Rightarrow> 'e list"
    and out :: "'op \<Rightarrow> 's \<Rightarrow> 'e list"
  assumes step_fifo:
    "inv s \<Longrightarrow> ok op s \<Longrightarrow> out op s @ contents (step op s) = contents s @ produced op s"
begin

lemma run_fifo:
  "inv s \<Longrightarrow> run_ok step ok ops s \<Longrightarrow>
    released step out ops s @ contents (fold step ops s)
      = contents s @ released step produced ops s"
proof (induction ops arbitrary: s)
  case (Cons op ops)
  then have "released step out ops (step op s) @ contents (fold step ops (step op s))
      = contents (step op s) @ released step produced ops (step op s)"
    by (auto intro: step_inv_ok)
  moreover have "out op s @ contents (step op s) = contents s @ produced op s"
    using Cons.prems by (auto intro: step_fifo)
  ultimately show ?case by (metis append.assoc fold_simps(2) released.simps(2))
qed simp

end

text \<open>
  A key-value store whose writes may be refused: a write that is accepted is what later reads
  of the key return, and nothing else changes.
\<close>

locale kv_store =
  fixes get :: "'s \<Rightarrow> 'k \<Rightarrow> 'v option"
    and put :: "'k \<Rightarrow> 'v \<Rightarrow> 's \<Rightarrow> 's option"
  assumes get_put: "put k v s = Some t \<Longrightarrow> get t k' = (if k' = k then Some v else get s k')"
begin

lemma get_put_same: "put k v s = Some t \<Longrightarrow> get t k = Some v"
  by (simp add: get_put)

lemma get_put_other: "put k v s = Some t \<Longrightarrow> k' \<noteq> k \<Longrightarrow> get t k' = get s k'"
  by (simp add: get_put)

lemma get_put_put:
  "\<lbrakk>put k v s = Some t; put k' v' t = Some u; k \<noteq> k'\<rbrakk> \<Longrightarrow> get u k = Some v \<and> get u k' = Some v'"
  by (simp add: get_put)

end

lemma list_all_rev [simp]: "list_all P (rev xs) = list_all P xs"
  by (simp add: list_all_iff)

end
