(* ===== verification/ProctorEvents.thy ===== *)
theory ProctorEvents
  imports JSPrelude
begin

text \<open>
  The event buffer of the in-exam runtime (\<open>web/static/js/proctor.js\<close>, lines 34
  to 149): per-session URLs, \<open>queueEvent\<close>, the delayed and the immediate flush,
  the heartbeat and the flush on page unload.

  \<open>flushEvents\<close> is asynchronous. Its code up to the first \<open>await\<close> is
  \<open>flushEvents\<close>, and the point where it is suspended is the field
  \<open>flush_k\<close>, which keeps its local \<open>batch\<close>. What the network answers
  is an input of the machine (\<open>ev_op\<close>), so every interleaving of page events,
  timers and answers is a list of operations. \<open>posts\<close> and \<open>beacons\<close>
  record the requests that leave the page.
\<close>

section \<open>Session URLs\<close>

record boot =
  boot_urls :: "jstr \<rightharpoonup> jstr"

definition prop_of :: "(jstr \<rightharpoonup> jstr) \<Rightarrow> jstr \<Rightarrow> jstr option" where
  "prop_of m k = (case m k of None \<Rightarrow> None | Some u \<Rightarrow> if u = [] then None else Some u)"

definition tokenKey :: "int \<Rightarrow> jstr" where
  "tokenKey sid = js ''proctor:'' @ num_str sid"

definition urlFor :: "boot \<Rightarrow> int option \<Rightarrow> jstr \<Rightarrow> jstr option" where
  "urlFor B sid key =
     (case prop_of (boot_urls B) key of
        Some u \<Rightarrow> Some u
      | None \<Rightarrow>
          (case (prop_of (boot_urls B) (key @ js ''_template''), sid) of
             (Some tmpl, Some n) \<Rightarrow> Some (replace_first (js ''{sid}'') (num_str n) tmpl)
           | _ \<Rightarrow> None))"

text \<open>A missing URL becomes the string \<open>null\<close> where it is used as a string.\<close>

definition url_text :: "jstr option \<Rightarrow> jstr" where
  "url_text u = (case u of None \<Rightarrow> js ''null'' | Some x \<Rightarrow> x)"

section \<open>State\<close>

datatype severity = SevInfo | SevWarning | SevViolation

record pevent =
  event_type :: jstr
  ev_severity :: severity
  ev_detail :: jval
  client_ts :: int

datatype flush_state = FlushIdle | AwaitFetch "pevent list" | AwaitJson "pevent list"

record evbuf =
  eventQueue :: "pevent list"
  flushing :: bool
  flushTimer :: bool \<comment> \<open>\<open>flushTimer != null\<close>\<close>
  flush_k :: flush_state
  lastHeartbeatMs :: int
  posts :: "(jstr \<times> pevent list) list"
  beacons :: "(jstr \<times> pevent list) list"

definition evbuf_init :: evbuf where
  "evbuf_init = \<lparr>eventQueue = [], flushing = False, flushTimer = False, flush_k = FlushIdle,
     lastHeartbeatMs = 0, posts = [], beacons = []\<rparr>"

section \<open>Operations\<close>

definition scheduleFlush :: "'a evbuf_scheme \<Rightarrow> 'a evbuf_scheme" where
  "scheduleFlush s = (if flushTimer s then s else s\<lparr>flushTimer := True\<rparr>)"

definition flushEvents :: "jstr option \<Rightarrow> 'a evbuf_scheme \<Rightarrow> 'a evbuf_scheme" where
  "flushEvents url s =
     (let s1 = s\<lparr>flushTimer := False\<rparr>
      in if flushing s1 \<or> eventQueue s1 = [] then s1
         else let batch = eventQueue s1
              in s1\<lparr>flushing := True, eventQueue := [], flush_k := AwaitFetch batch,
                    posts := posts s1 @ [(url_text url, batch)]\<rparr>)"

definition mk_event :: "jstr \<Rightarrow> severity option \<Rightarrow> jval option \<Rightarrow> int \<Rightarrow> pevent" where
  "mk_event type sev detail now =
     \<lparr>event_type = type,
      ev_severity = (case sev of None \<Rightarrow> SevInfo | Some v \<Rightarrow> v),
      ev_detail = (let d = jopt detail in if truthy d then d else JNull),
      client_ts = now\<rparr>"

definition put_event :: "jstr option \<Rightarrow> pevent \<Rightarrow> 'a evbuf_scheme \<Rightarrow> 'a evbuf_scheme" where
  "put_event url e s =
     (let s1 = s\<lparr>eventQueue := eventQueue s @ [e]\<rparr>
      in if ev_severity e = SevViolation then flushEvents url s1 else scheduleFlush s1)"

definition queueEvent ::
  "jstr option \<Rightarrow> int \<Rightarrow> jstr \<Rightarrow> severity option \<Rightarrow> jval option \<Rightarrow> 'a evbuf_scheme \<Rightarrow> 'a evbuf_scheme"
where
  "queueEvent url now type sev detail s = put_event url (mk_event type sev detail now) s"

text \<open>The \<open>finally\<close> block, and the ways a suspended flush goes on.\<close>

definition flush_finally :: "'a evbuf_scheme \<Rightarrow> 'a evbuf_scheme" where
  "flush_finally s =
     (let s1 = s\<lparr>flushing := False, flush_k := FlushIdle\<rparr>
      in if eventQueue s1 \<noteq> [] then scheduleFlush s1 else s1)"

definition flush_requeue :: "pevent list \<Rightarrow> 'a evbuf_scheme \<Rightarrow> 'a evbuf_scheme" where
  "flush_requeue batch s = flush_finally (s\<lparr>eventQueue := batch @ eventQueue s\<rparr>)"

definition sendHeartbeat :: "jstr option \<Rightarrow> int \<Rightarrow> 'a evbuf_scheme \<Rightarrow> 'a evbuf_scheme" where
  "sendHeartbeat url now s =
     flushEvents url
       (queueEvent url now (js ''heartbeat'') (Some SevInfo) None (s\<lparr>lastHeartbeatMs := now\<rparr>))"

text \<open>
  \<open>has_beacon\<close>: the browser offers \<open>navigator.sendBeacon\<close>.
\<close>

definition page_hide :: "bool \<Rightarrow> jstr option \<Rightarrow> int \<Rightarrow> 'a evbuf_scheme \<Rightarrow> 'a evbuf_scheme" where
  "page_hide has_beacon url now s =
     (let s1 = queueEvent url now (js ''pagehide'') (Some SevInfo) None s
      in if eventQueue s1 \<noteq> [] \<and> has_beacon
         then s1\<lparr>beacons := beacons s1 @ [(url_text url @ js ''?via=beacon'', eventQueue s1)],
                 eventQueue := []\<rparr>
         else s1)"

text \<open>
  The inputs of the buffer. \<open>JsonOk\<close> carries the answer's counters, which go to
  the caller's \<open>updateTabSwitchUi\<close>; \<open>JsonBad\<close> is a body that is not
  an object with these properties. An answer to a request that is not pending, or a timer that
  is not armed, does nothing.
\<close>

datatype ev_op =
    QueueEv jstr "severity option" "jval option" int
  | TimerFires
  | Heartbeat int
  | RespOk
  | RespBad
  | NetFail
  | JsonOk jval jval int
  | JsonBad
  | PageHide bool int

fun ev_step ::
  "(int \<Rightarrow> jval \<Rightarrow> jval \<Rightarrow> 'a evbuf_scheme \<Rightarrow> 'a evbuf_scheme) \<Rightarrow> jstr option \<Rightarrow> ev_op \<Rightarrow>
     'a evbuf_scheme \<Rightarrow> 'a evbuf_scheme"
where
  "ev_step ui url (QueueEv t sev d now) s = queueEvent url now t sev d s"
| "ev_step ui url TimerFires s = (if flushTimer s then flushEvents url s else s)"
| "ev_step ui url (Heartbeat now) s = sendHeartbeat url now s"
| "ev_step ui url RespOk s =
     (case flush_k s of AwaitFetch b \<Rightarrow> s\<lparr>flush_k := AwaitJson b\<rparr> | _ \<Rightarrow> s)"
| "ev_step ui url RespBad s =
     (case flush_k s of AwaitFetch b \<Rightarrow> flush_requeue b s | _ \<Rightarrow> s)"
| "ev_step ui url NetFail s =
     (case flush_k s of AwaitFetch b \<Rightarrow> flush_requeue b s | _ \<Rightarrow> s)"
| "ev_step ui url (JsonOk c v now) s =
     (case flush_k s of AwaitJson b \<Rightarrow> flush_finally (ui now c v s) | _ \<Rightarrow> s)"
| "ev_step ui url JsonBad s =
     (case flush_k s of AwaitJson b \<Rightarrow> flush_requeue b s | _ \<Rightarrow> s)"
| "ev_step ui url (PageHide hb now) s = page_hide hb url now s"

section \<open>Abstract contents\<close>

text \<open>
  The abstract buffer: the batch of a suspended flush, followed by the queue.
  \<open>ev_made\<close> is what a step creates, \<open>ev_acked\<close> what it takes out
  because the server confirmed it, and \<open>ev_beaconed\<close> what it hands to the unload
  beacon.
\<close>

fun in_flight :: "flush_state \<Rightarrow> pevent list" where
  "in_flight FlushIdle = []"
| "in_flight (AwaitFetch b) = b"
| "in_flight (AwaitJson b) = b"

definition ev_contents :: "'a evbuf_scheme \<Rightarrow> pevent list" where
  "ev_contents s = in_flight (flush_k s) @ eventQueue s"

fun ev_made :: "ev_op \<Rightarrow> pevent list" where
  "ev_made (QueueEv t sev d now) = [mk_event t sev d now]"
| "ev_made (Heartbeat now) = [mk_event (js ''heartbeat'') (Some SevInfo) None now]"
| "ev_made (PageHide hb now) = [mk_event (js ''pagehide'') (Some SevInfo) None now]"
| "ev_made _ = []"

fun ev_acked :: "ev_op \<Rightarrow> 'a evbuf_scheme \<Rightarrow> pevent list" where
  "ev_acked (JsonOk c v now) s = (case flush_k s of AwaitJson b \<Rightarrow> b | _ \<Rightarrow> [])"
| "ev_acked _ s = []"

fun ev_beaconed :: "ev_op \<Rightarrow> 'a evbuf_scheme \<Rightarrow> pevent list" where
  "ev_beaconed (PageHide hb now) s =
     (if hb then eventQueue s @ [mk_event (js ''pagehide'') (Some SevInfo) None now] else [])"
| "ev_beaconed _ s = []"

fun is_pagehide :: "ev_op \<Rightarrow> bool" where
  "is_pagehide (PageHide hb now) = hb"
| "is_pagehide _ = False"

text \<open>
  The invariant: the flag \<open>flushing\<close> says whether a flush is suspended, and
  queued events always have a flush or a timer that will look at them.
\<close>

definition ev_inv :: "'a evbuf_scheme \<Rightarrow> bool" where
  "ev_inv s \<longleftrightarrow> (flushing s \<longleftrightarrow> flush_k s \<noteq> FlushIdle)
     \<and> (eventQueue s \<noteq> [] \<longrightarrow> flushing s \<or> flushTimer s)"

text \<open>A callback that leaves the buffer alone, as \<open>updateTabSwitchUi\<close> does.\<close>

definition ui_frame ::
  "(int \<Rightarrow> jval \<Rightarrow> jval \<Rightarrow> 'a evbuf_scheme \<Rightarrow> 'a evbuf_scheme) \<Rightarrow> bool"
where
  "ui_frame ui \<longleftrightarrow> (\<forall>n c v s. eventQueue (ui n c v s) = eventQueue s
     \<and> flushing (ui n c v s) = flushing s
     \<and> flushTimer (ui n c v s) = flushTimer s \<and> flush_k (ui n c v s) = flush_k s
     \<and> posts (ui n c v s) = posts s \<and> beacons (ui n c v s) = beacons s)"

section \<open>Lemmas\<close>

named_theorems ev_defs \<open>definitions of the buffer's operations\<close>

lemmas [ev_defs] = flushEvents_def scheduleFlush_def put_event_def queueEvent_def
  flush_finally_def flush_requeue_def sendHeartbeat_def page_hide_def ev_inv_def ev_contents_def
  Let_def

lemma ev_inv_init: "ev_inv evbuf_init"
  by (simp add: ev_inv_def evbuf_init_def)

lemma flushEvents_inv: "ev_inv s \<Longrightarrow> ev_inv (flushEvents url s)"
  by (auto simp: ev_defs)

lemma flushEvents_contents: "ev_inv s \<Longrightarrow> ev_contents (flushEvents url s) = ev_contents s"
  by (auto simp: ev_defs)

lemma put_event_inv: "ev_inv s \<Longrightarrow> ev_inv (put_event url e s)"
  by (auto simp: ev_defs)

lemma put_event_contents: "ev_inv s \<Longrightarrow> ev_contents (put_event url e s) = ev_contents s @ [e]"
  by (auto simp: ev_defs)

text \<open>The buffer is an event sink, for every URL the page posts to.\<close>

interpretation evq: fifo_sink "put_event url" ev_contents ev_inv
  by unfold_locales (rule put_event_contents put_event_inv, assumption)+

lemma flush_finally_inv: "ev_inv (flush_finally s)"
  by (auto simp: ev_defs)

lemma flush_requeue_inv: "ev_inv (flush_requeue b s)"
  by (simp add: flush_requeue_def flush_finally_inv)

lemma flush_finally_contents: "ev_contents (flush_finally s) = eventQueue s"
  by (auto simp: ev_defs)

lemma flush_requeue_contents: "ev_contents (flush_requeue b s) = b @ eventQueue s"
  by (simp add: flush_requeue_def flush_finally_contents)

lemma suspended_contents:
  "flush_k s = AwaitFetch b \<Longrightarrow> ev_contents s = b @ eventQueue s"
  "flush_k s = AwaitJson b \<Longrightarrow> ev_contents s = b @ eventQueue s"
  by (simp_all add: ev_contents_def)

lemma sendHeartbeat_inv: "ev_inv s \<Longrightarrow> ev_inv (sendHeartbeat url now s)"
  unfolding sendHeartbeat_def queueEvent_def
  by (intro flushEvents_inv put_event_inv) (auto simp: ev_inv_def)

lemma sendHeartbeat_contents:
  assumes "ev_inv s"
  shows "ev_contents (sendHeartbeat url now s) = ev_contents s @ ev_made (Heartbeat now)"
proof -
  let ?s1 = "s\<lparr>lastHeartbeatMs := now\<rparr>"
  have inv1: "ev_inv ?s1" and c1: "ev_contents ?s1 = ev_contents s"
    using assms by (auto simp: ev_inv_def ev_contents_def)
  show ?thesis
    unfolding sendHeartbeat_def queueEvent_def
    by (simp add: flushEvents_contents put_event_inv put_event_contents inv1 c1)
qed

lemma page_hide_inv: "ev_inv s \<Longrightarrow> ev_inv (page_hide hb url now s)"
  using put_event_inv [of s url] by (auto simp: page_hide_def queueEvent_def Let_def ev_inv_def)

lemma queued_info_keeps:
  "eventQueue (put_event url (mk_event t (Some SevInfo) d now) s)
     = eventQueue s @ [mk_event t (Some SevInfo) d now]
   \<and> flush_k (put_event url (mk_event t (Some SevInfo) d now) s) = flush_k s"
  by (simp add: put_event_def mk_event_def scheduleFlush_def Let_def)

lemma page_hide_contents:
  "ev_inv s \<Longrightarrow> ev_contents (page_hide hb url now s) @ ev_beaconed (PageHide hb now) s
     = ev_contents s @ ev_made (PageHide hb now)"
  by (simp add: page_hide_def queueEvent_def ev_contents_def queued_info_keeps Let_def)

lemma ev_step_inv: "ui_frame ui \<Longrightarrow> ev_inv s \<Longrightarrow> ev_inv (ev_step ui url op s)"
proof (cases op)
  case RespOk
  then show "ev_inv s \<Longrightarrow> ?thesis" by (auto simp: ev_inv_def split: flush_state.split)
qed (auto simp: queueEvent_def put_event_inv flushEvents_inv sendHeartbeat_inv page_hide_inv
      flush_finally_inv flush_requeue_inv split: flush_state.split)

lemma ev_step_contents:
  assumes ui: "ui_frame ui" and inv: "ev_inv s" and op: "\<not> is_pagehide op"
  shows "ev_acked op s @ ev_contents (ev_step ui url op s) = ev_contents s @ ev_made op"
proof (cases op)
  case (PageHide hb now)
  then show ?thesis using page_hide_contents [OF inv, of hb url now] op by simp
next
  case (JsonOk c v now)
  then show ?thesis
    using ui by (auto simp: ui_frame_def flush_finally_contents [unfolded ev_contents_def]
        ev_contents_def split: flush_state.split)
next
  case RespOk
  then show ?thesis by (auto simp: ev_contents_def split: flush_state.split)
qed (use inv in \<open>auto simp: queueEvent_def put_event_contents flushEvents_contents
      sendHeartbeat_contents [simplified] flush_requeue_contents suspended_contents
      split: flush_state.split\<close>)

text \<open>While a flush is suspended, nothing is posted.\<close>

lemma flushEvents_suspended [simp]:
  "flushing s \<Longrightarrow> posts (flushEvents url s) = posts s"
  "flushing s \<Longrightarrow> flushing (flushEvents url s)"
  by (simp_all add: flushEvents_def Let_def)

lemma put_event_suspended [simp]:
  "flushing s \<Longrightarrow> posts (put_event url e s) = posts s"
  "flushing s \<Longrightarrow> flushing (put_event url e s)"
  by (simp_all add: put_event_def scheduleFlush_def Let_def)

lemma sendHeartbeat_suspended [simp]:
  "flushing s \<Longrightarrow> posts (sendHeartbeat url now s) = posts s"
  "flushing s \<Longrightarrow> flushing (sendHeartbeat url now s)"
  by (simp_all add: sendHeartbeat_def queueEvent_def)

lemma flush_finally_posts [simp]: "posts (flush_finally s) = posts s"
  by (simp add: flush_finally_def scheduleFlush_def Let_def)

end
