(* ===== verification/ProctorMonitor.thy ===== *)
theory ProctorMonitor
  imports ProctorEvents
begin

text \<open>
  What the in-exam runtime watches (\<open>web/static/js/proctor.js\<close>, lines 321 to
  541): tab visibility, window focus (by events and by polling), key combinations, pastes,
  full screen, and the overlay that gates the page. The state extends the event buffer's,
  since every handler reports through \<open>queueEvent\<close>.
\<close>

section \<open>Configuration and state\<close>

record proctor_cfg =
  record_camera :: bool
  record_screen :: bool
  require_camera :: bool
  require_screen :: bool
  require_mic :: bool
  fullscreen_required :: bool
  max_tab_switches :: "int option"

datatype overlay_reason =
  FullscreenRequired | ScreenStopped | CameraStopped | OverLimit | GestureNeeded

record overlay_view =
  ov_icon :: jstr
  ov_title :: jstr
  ov_body :: jstr
  ov_button :: jstr
  ov_action :: overlay_reason
  ov_disabled :: bool
  ov_visible :: bool

text \<open>
  \<open>statusText\<close> is \<open>None\<close> until the status chip is installed,
  \<open>overlay\<close> until the overlay element exists.
\<close>

record monitor = evbuf +
  tabSwitchCount :: int
  violationCount :: int
  lastWarnAt :: int
  statusText :: "jstr option"
  lastHadFocus :: bool
  overlay :: "overlay_view option"

section \<open>The overlay\<close>

definition over_limit_body :: "int option \<Rightarrow> int \<Rightarrow> jstr" where
  "over_limit_body mx n =
     [0x672C, 0x573A, 0x6BD4, 0x8D5B, 0x8981, 0x6C42, 0x5207, 0x5C4F, 0x4E0D, 0x8D85, 0x8FC7, 32]
       @ (case mx of None \<Rightarrow> js ''null'' | Some m \<Rightarrow> num_str m)
     @ [32, 0x6B21, 44, 0x4F60, 0x76EE, 0x524D, 0x5DF2, 0x5207, 0x5C4F, 32] @ num_str n
     @ [32, 0x6B21, 0x3002, 0x8BF7, 0x56DE, 0x5230, 0x8003, 0x8BD5, 0x9875, 0x9762, 44, 0x7EE7,
       0x7EED, 0x5207, 0x5C4F, 0x5C06, 0x88AB, 0x8BB0, 0x5F55, 0x4E3A, 0x8FDD, 0x89C4, 0x3002]"

fun overlay_cfg :: "proctor_cfg \<Rightarrow> int \<Rightarrow> overlay_reason \<Rightarrow> overlay_view" where
  "overlay_cfg C n FullscreenRequired =
     \<lparr>ov_icon = [0xD83D, 0xDDA5, 0xFE0F],
      ov_title = [0x8BF7, 0x4FDD, 0x6301, 0x5168, 0x5C4F],
      ov_body = [0x672C, 0x573A, 0x6BD4, 0x8D5B, 0x8981, 0x6C42, 0x5168, 0x7A0B, 0x5168, 0x5C4F,
        0x3002, 0x70B9, 0x51FB, 0x4E0B, 0x65B9, 0x6309, 0x94AE, 0x91CD, 0x65B0, 0x8FDB, 0x5165,
          0x5168, 0x5C4F, 0x3002],
      ov_button = [0x91CD, 0x65B0, 0x8FDB, 0x5165, 0x5168, 0x5C4F],
      ov_action = FullscreenRequired, ov_disabled = False, ov_visible = True\<rparr>"
| "overlay_cfg C n ScreenStopped =
     \<lparr>ov_icon = [0xD83D, 0xDED1],
      ov_title = [0x5C4F, 0x5E55, 0x5171, 0x4EAB, 0x5DF2, 0x7ED3, 0x675F],
      ov_body = [0x4F60, 0x505C, 0x6B62, 0x4E86, 0x5C4F, 0x5E55, 0x5171, 0x4EAB, 0x3002, 0x8BF7,
        0x70B9, 0x51FB, 0x6309, 0x94AE, 0x91CD, 0x65B0, 0x5F00, 0x59CB, 44, 0x5426, 0x5219, 0x5F55,
          0x50CF, 0x8BB0, 0x5F55, 0x5C06, 0x4E2D, 0x65AD, 44, 0x672C, 0x573A, 0x6BD4, 0x8D5B,
            0x53EF, 0x80FD, 0x88AB, 0x5224, 0x5B9A, 0x8FDD, 0x89C4, 0x3002],
      ov_button = [0x91CD, 0x65B0, 0x5F00, 0x59CB, 0x5C4F, 0x5E55, 0x5171, 0x4EAB],
      ov_action = ScreenStopped, ov_disabled = False, ov_visible = True\<rparr>"
| "overlay_cfg C n CameraStopped =
     \<lparr>ov_icon = [0xD83D, 0xDCF7],
      ov_title = [0x6444, 0x50CF, 0x5934, 0x5DF2, 0x65AD, 0x5F00],
      ov_body = [0x672C, 0x573A, 0x6BD4, 0x8D5B, 0x8981, 0x6C42, 0x6444, 0x50CF, 0x5934, 0x6301,
        0x7EED, 0x53EF, 0x7528, 0x3002, 0x8BF7, 0x91CD, 0x65B0, 0x63A5, 0x597D, 0x6444, 0x50CF,
          0x5934, 47, 0x91CD, 0x65B0, 0x6388, 0x6743, 44, 0x7136, 0x540E, 0x56DE, 0x5230, 0x76D1,
            0x8003, 0x8BBE, 0x7F6E, 0x9875, 0x7EE7, 0x7EED, 0x8003, 0x8BD5, 0x3002],
      ov_button = [0x56DE, 0x5230, 0x76D1, 0x8003, 0x8BBE, 0x7F6E],
      ov_action = CameraStopped, ov_disabled = False, ov_visible = True\<rparr>"
| "overlay_cfg C n OverLimit =
     \<lparr>ov_icon = [0x26A0, 0xFE0F],
      ov_title = [0x5207, 0x5C4F, 0x6B21, 0x6570, 0x8D85, 0x51FA, 0x9650, 0x5236],
      ov_body = over_limit_body (max_tab_switches C) n,
      ov_button = [0x6211, 0x77E5, 0x9053, 0x4E86],
      ov_action = OverLimit, ov_disabled = False, ov_visible = True\<rparr>"
| "overlay_cfg C n GestureNeeded =
     \<lparr>ov_icon = [0xD83C, 0xDFA5],
      ov_title = [0x51C6, 0x5907, 0x5F00, 0x59CB, 0x8003, 0x8BD5],
      ov_body = [0x672C, 0x573A, 0x6BD4, 0x8D5B, 0x542F, 0x7528, 0x76D1, 0x8003, 0x3002, 0x70B9,
        0x51FB, 0x4E0B, 0x65B9, 0x6309, 0x94AE, 0x6388, 0x6743, 0x6444, 0x50CF, 0x5934, 0x548C,
          0x5C4F, 0x5E55, 0x5171, 0x4EAB, 44, 0x6388, 0x6743, 0x540E, 0x6BD4, 0x8D5B, 0x4F1A,
            0x7ACB, 0x5373, 0x5F00, 0x59CB, 0x3002],
      ov_button = [0x5F00, 0x59CB, 0x8003, 0x8BD5],
      ov_action = GestureNeeded, ov_disabled = False, ov_visible = True\<rparr>"

definition showOverlay ::
  "proctor_cfg \<Rightarrow> overlay_reason \<Rightarrow> 'a monitor_scheme \<Rightarrow> 'a monitor_scheme"
where
  "showOverlay C reason s = s\<lparr>overlay := Some (overlay_cfg C (tabSwitchCount s) reason)\<rparr>"

definition hide_overlay :: "'a monitor_scheme \<Rightarrow> 'a monitor_scheme" where
  "hide_overlay s = s\<lparr>overlay := map_option (\<lambda>v. v\<lparr>ov_visible := False\<rparr>) (overlay s)\<rparr>"

section \<open>The switch counter\<close>

text \<open>\<open>typeof x === 'number'\<close> keeps the old count unless the server sent a number.\<close>

definition server_count :: "jval \<Rightarrow> int \<Rightarrow> int" where
  "server_count v old = (case v of JNum n \<Rightarrow> n | _ \<Rightarrow> old)"

definition status_text :: "proctor_cfg \<Rightarrow> int \<Rightarrow> int \<Rightarrow> jstr" where
  "status_text C n v =
     [0x5207, 0x5C4F, 0x6B21, 0x6570, 32] @ num_str n
     @ (case max_tab_switches C of None \<Rightarrow> [] | Some m \<Rightarrow> js ''/''
       @ num_str m)
     @ (js ''   '' @ [0x8FDD, 0x89C4, 32]) @ num_str v"

definition updateTabSwitchUi ::
  "proctor_cfg \<Rightarrow> int \<Rightarrow> jval \<Rightarrow> jval \<Rightarrow> 'a monitor_scheme \<Rightarrow> 'a monitor_scheme"
where
  "updateTabSwitchUi C now serverCount serverViolations s =
     (let s1 = s\<lparr>tabSwitchCount := server_count serverCount (tabSwitchCount s)\<rparr>;
          s2 = s1\<lparr>violationCount := server_count serverViolations (violationCount s1)\<rparr>;
          s3 = s2\<lparr>statusText := map_option
                 (\<lambda>_. status_text C (tabSwitchCount s2) (violationCount s2)) (statusText s2)\<rparr>
      in case max_tab_switches C of
           None \<Rightarrow> s3
         | Some m \<Rightarrow>
             if tabSwitchCount s3 > m \<and> now - lastWarnAt s3 > 8000
             then showOverlay C OverLimit (s3\<lparr>lastWarnAt := now\<rparr>)
             else s3)"

section \<open>Handlers\<close>

definition report :: "jstr option \<Rightarrow> int \<Rightarrow> string \<Rightarrow> severity \<Rightarrow> 'a evbuf_scheme \<Rightarrow> 'a evbuf_scheme" where
  "report url now type sev s = queueEvent url now (js type) (Some sev) None s"

text \<open>Two listeners of the same event, in the order in which they are registered.\<close>

definition on_visibilitychange_heartbeat ::
  "jstr option \<Rightarrow> int \<Rightarrow> bool \<Rightarrow> 'a evbuf_scheme \<Rightarrow> 'a evbuf_scheme"
where
  "on_visibilitychange_heartbeat url now hidden s = (if hidden then sendHeartbeat url now s else s)"

definition on_visibilitychange_report ::
  "jstr option \<Rightarrow> int \<Rightarrow> bool \<Rightarrow> 'a evbuf_scheme \<Rightarrow> 'a evbuf_scheme"
where
  "on_visibilitychange_report url now hidden s =
     (if hidden then report url now ''visibility_hidden'' SevViolation s
      else report url now ''visibility_visible'' SevInfo s)"

definition on_visibilitychange ::
  "jstr option \<Rightarrow> int \<Rightarrow> bool \<Rightarrow> 'a evbuf_scheme \<Rightarrow> 'a evbuf_scheme"
where
  "on_visibilitychange url now hidden s =
     on_visibilitychange_report url now hidden (on_visibilitychange_heartbeat url now hidden s)"

definition on_blur :: "jstr option \<Rightarrow> int \<Rightarrow> 'a evbuf_scheme \<Rightarrow> 'a evbuf_scheme" where
  "on_blur url now s = report url now ''window_blur'' SevViolation s"

definition on_focus :: "jstr option \<Rightarrow> int \<Rightarrow> 'a evbuf_scheme \<Rightarrow> 'a evbuf_scheme" where
  "on_focus url now s = report url now ''window_focus'' SevInfo s"

definition focus_poll :: "jstr option \<Rightarrow> int \<Rightarrow> bool \<Rightarrow> 'a monitor_scheme \<Rightarrow> 'a monitor_scheme" where
  "focus_poll url t has_focus s =
     (if has_focus \<noteq> lastHadFocus s
      then (if \<not> has_focus then report url t ''window_blur'' SevViolation s
            else report url t ''window_focus'' SevInfo s)\<lparr>lastHadFocus := has_focus\<rparr>
      else s)"

text \<open>
  The key handler returns the new state and whether it suppressed the browser's default.
  \<open>lower\<close> is \<open>toLowerCase\<close>, which the source takes from the standard
  library.
\<close>

definition on_keydown ::
  "(jstr \<Rightarrow> jstr) \<Rightarrow> jstr option \<Rightarrow> int \<Rightarrow> bool \<Rightarrow> bool \<Rightarrow> jstr \<Rightarrow> 'a evbuf_scheme
     \<Rightarrow> 'a evbuf_scheme \<times> bool"
where
  "on_keydown lower url now ctrl meta key s =
     (if \<not> (ctrl \<or> meta) then (s, False)
      else let k = lower key
           in if k \<in> {js ''s'', js ''p'', js ''u'', js ''c'', js ''v''}
              then (queueEvent url now (js ''key_combo'') (Some SevInfo)
                      (Some (JObj [(js ''combo'',
                         JStr ((if ctrl then js ''ctrl+'' else js ''meta+'') @ k))])) s,
                    k \<in> {js ''s'', js ''p'', js ''u''})
              else (s, False))"

definition on_paste :: "jstr option \<Rightarrow> int \<Rightarrow> jstr \<Rightarrow> 'a evbuf_scheme \<Rightarrow> 'a evbuf_scheme" where
  "on_paste url now txt s =
     (if txt = [] then s
      else queueEvent url now (js ''paste_detected'') (Some SevInfo)
             (Some (JObj [(js ''length'', JNum (int (length txt))),
                          (js ''preview'', JStr (take 200 txt))])) s)"

definition on_fullscreenchange ::
  "proctor_cfg \<Rightarrow> jstr option \<Rightarrow> int \<Rightarrow> bool \<Rightarrow> 'a monitor_scheme \<Rightarrow> 'a monitor_scheme"
where
  "on_fullscreenchange C url now inFs s =
     (let s1 = report url now (if inFs then ''fullscreen_enter'' else ''fullscreen_exit'')
                 (if inFs then SevInfo else SevViolation) s
      in if \<not> inFs \<and> fullscreen_required C then showOverlay C FullscreenRequired s1 else s1)"

definition monitor_init :: "bool \<Rightarrow> int \<Rightarrow> int \<Rightarrow> monitor" where
  "monitor_init focused tabs viols =
     \<lparr>eventQueue = [], flushing = False, flushTimer = False, flush_k = FlushIdle,
      lastHeartbeatMs = 0, posts = [], beacons = [],
      tabSwitchCount = tabs, violationCount = viols, lastWarnAt = 0, statusText = None,
      lastHadFocus = focused, overlay = None\<rparr>"

text \<open>The status chip, installed when the page starts.\<close>

definition installStatusChip :: "proctor_cfg \<Rightarrow> int \<Rightarrow> 'a monitor_scheme \<Rightarrow> 'a monitor_scheme" where
  "installStatusChip C now s = updateTabSwitchUi C now JUndef JUndef (s\<lparr>statusText := Some []\<rparr>)"

definition proctor_page_init :: "proctor_cfg \<Rightarrow> int \<Rightarrow> 'a monitor_scheme \<Rightarrow> 'a monitor_scheme" where
  "proctor_page_init C now s = showOverlay C GestureNeeded (installStatusChip C now s)"

section \<open>The monitor as a machine\<close>

datatype mon_op =
    Buffer ev_op
  | Visibility bool int
  | Blur int
  | Focus int
  | FocusPoll bool int
  | Keydown bool bool jstr int
  | Paste jstr int
  | FullscreenChange bool int

fun mon_step ::
  "proctor_cfg \<Rightarrow> (jstr \<Rightarrow> jstr) \<Rightarrow> jstr option \<Rightarrow> mon_op \<Rightarrow> 'a monitor_scheme \<Rightarrow> 'a monitor_scheme"
where
  "mon_step C lower url (Buffer op) s = ev_step (updateTabSwitchUi C) url op s"
| "mon_step C lower url (Visibility hidden now) s = on_visibilitychange url now hidden s"
| "mon_step C lower url (Blur now) s = on_blur url now s"
| "mon_step C lower url (Focus now) s = on_focus url now s"
| "mon_step C lower url (FocusPoll f now) s = focus_poll url now f s"
| "mon_step C lower url (Keydown ctrl meta key now) s =
     fst (on_keydown lower url now ctrl meta key s)"
| "mon_step C lower url (Paste txt now) s = on_paste url now txt s"
| "mon_step C lower url (FullscreenChange inFs now) s = on_fullscreenchange C url now inFs s"

text \<open>What a step reports, what it takes out as confirmed, and which steps beacon.\<close>

definition plain_event :: "string \<Rightarrow> severity \<Rightarrow> int \<Rightarrow> pevent" where
  "plain_event t sev now = mk_event (js t) (Some sev) None now"

definition combo_keys :: "jstr set" where
  "combo_keys = {js ''s'', js ''p'', js ''u'', js ''c'', js ''v''}"

fun mon_made :: "(jstr \<Rightarrow> jstr) \<Rightarrow> mon_op \<Rightarrow> 'a monitor_scheme \<Rightarrow> pevent list" where
  "mon_made lower (Buffer op) s = ev_made op"
| "mon_made lower (Visibility hidden now) s =
     (if hidden then [plain_event ''heartbeat'' SevInfo now,
                      plain_event ''visibility_hidden'' SevViolation now]
      else [plain_event ''visibility_visible'' SevInfo now])"
| "mon_made lower (Blur now) s = [plain_event ''window_blur'' SevViolation now]"
| "mon_made lower (Focus now) s = [plain_event ''window_focus'' SevInfo now]"
| "mon_made lower (FocusPoll f now) s =
     (if f = lastHadFocus s then []
      else if f then [plain_event ''window_focus'' SevInfo now]
      else [plain_event ''window_blur'' SevViolation now])"
| "mon_made lower (Keydown ctrl meta key now) s =
     (if (ctrl \<or> meta) \<and> lower key \<in> combo_keys
      then [mk_event (js ''key_combo'') (Some SevInfo)
              (Some (JObj [(js ''combo'',
                 JStr ((if ctrl then js ''ctrl+'' else js ''meta+'') @ lower key))])) now]
      else [])"
| "mon_made lower (Paste txt now) s =
     (if txt = [] then []
      else [mk_event (js ''paste_detected'') (Some SevInfo)
              (Some (JObj [(js ''length'', JNum (int (length txt))),
                           (js ''preview'', JStr (take 200 txt))])) now])"
| "mon_made lower (FullscreenChange inFs now) s =
     [plain_event (if inFs then ''fullscreen_enter'' else ''fullscreen_exit'')
        (if inFs then SevInfo else SevViolation) now]"

fun mon_acked :: "mon_op \<Rightarrow> 'a monitor_scheme \<Rightarrow> pevent list" where
  "mon_acked (Buffer op) s = ev_acked op s"
| "mon_acked _ s = []"

fun no_beacon :: "mon_op \<Rightarrow> 'a monitor_scheme \<Rightarrow> bool" where
  "no_beacon (Buffer op) s = (\<not> is_pagehide op)"
| "no_beacon _ s = True"

section \<open>Lemmas\<close>

text \<open>The monitor's own fields are invisible to the buffer.\<close>

lemma ev_frame [simp]:
  fixes s :: "'a monitor_scheme"
  shows "ev_inv (s\<lparr>overlay := x\<rparr>) = ev_inv s" "ev_contents (s\<lparr>overlay := x\<rparr>) = ev_contents s"
    "ev_inv (s\<lparr>lastHadFocus := b\<rparr>) = ev_inv s" "ev_contents (s\<lparr>lastHadFocus := b\<rparr>) = ev_contents s"
  by (simp_all add: ev_inv_def ev_contents_def)

lemma updateTabSwitchUi_frame [simp]:
  "eventQueue (updateTabSwitchUi C now c v s) = eventQueue s"
  "flushing (updateTabSwitchUi C now c v s) = flushing s"
  "flushTimer (updateTabSwitchUi C now c v s) = flushTimer s"
  "flush_k (updateTabSwitchUi C now c v s) = flush_k s"
  "posts (updateTabSwitchUi C now c v s) = posts s"
  "beacons (updateTabSwitchUi C now c v s) = beacons s"
  by (simp_all add: updateTabSwitchUi_def showOverlay_def Let_def split: option.split)

lemma ui_frame_updateTabSwitchUi: "ui_frame (updateTabSwitchUi C)"
  by (simp add: ui_frame_def)

lemma report_inv [simp]: "ev_inv s \<Longrightarrow> ev_inv (report url now t sev s)"
  by (simp add: report_def queueEvent_def put_event_inv)

lemma report_contents [simp]:
  "ev_inv s \<Longrightarrow> ev_contents (report url now t sev s) = ev_contents s @ [plain_event t sev now]"
  by (simp add: report_def queueEvent_def put_event_contents plain_event_def)

lemma sendHeartbeat_plain [simp]:
  "ev_inv s \<Longrightarrow> ev_contents (sendHeartbeat url now s)
     = ev_contents s @ [plain_event ''heartbeat'' SevInfo now]"
  by (simp add: sendHeartbeat_contents plain_event_def)

lemmas handler_defs = on_visibilitychange_def on_visibilitychange_heartbeat_def
  on_visibilitychange_report_def on_blur_def on_focus_def focus_poll_def on_keydown_def
  on_paste_def on_fullscreenchange_def showOverlay_def Let_def

lemma mon_step_inv: "ev_inv s \<Longrightarrow> ev_inv (mon_step C lower url op s)"
  by (cases op) (auto simp: handler_defs queueEvent_def put_event_inv sendHeartbeat_inv
      ev_step_inv ui_frame_updateTabSwitchUi)

lemma mon_step_contents:
  "ev_inv s \<Longrightarrow> no_beacon op s \<Longrightarrow>
    mon_acked op s @ ev_contents (mon_step C lower url op s) = ev_contents s @ mon_made lower op s"
  by (cases op) (auto simp: handler_defs queueEvent_def put_event_contents sendHeartbeat_inv
      combo_keys_def ev_step_contents ui_frame_updateTabSwitchUi)

interpretation monm: inv_machine "mon_step C lower url" ev_inv
  by unfold_locales (rule mon_step_inv)

interpretation mon: fifo_machine "mon_step C lower url" ev_inv no_beacon ev_contents
    "mon_made lower" mon_acked
  by unfold_locales (auto intro: mon_step_inv mon_step_contents)

lemma monitor_init_inv [simp]: "ev_inv (monitor_init f t v)"
  by (simp add: ev_inv_def monitor_init_def)

lemma monitor_init_contents [simp]: "ev_contents (monitor_init f t v) = []"
  by (simp add: ev_contents_def monitor_init_def)

section \<open>Delivery\<close>

definition demo_cfg :: proctor_cfg where
  "demo_cfg = \<lparr>record_camera = True, record_screen = True, require_camera = True,
     require_screen = True, require_mic = False, fullscreen_required = True,
     max_tab_switches = Some 3\<rparr>"

text \<open>
  C5: whatever the page does and however the network answers, no reported event is lost, and
  confirmed events come out in the order in which they were reported: along every run without
  an unload beacon, the confirmed events followed by what is still buffered (the batch of a
  suspended flush, then the queue) are exactly the reported events, in order.
\<close>

theorem monitor_events_in_order:
  assumes "run_ok (mon_step C lower url) no_beacon ops (monitor_init f t v)"
  shows "released (mon_step C lower url) mon_acked ops (monitor_init f t v)
           @ ev_contents (fold (mon_step C lower url) ops (monitor_init f t v))
         = released (mon_step C lower url) (mon_made lower) ops (monitor_init f t v)"
  using mon.run_fifo [OF monitor_init_inv assms] by simp

theorem monitor_events_in_order_witness:
  "released (mon_step demo_cfg (map ascii_lower) None) mon_acked
     [Blur 5, Focus 6, Buffer NetFail, Buffer TimerFires, Buffer RespOk,
      Buffer (JsonOk (JNum 1) (JNum 1) 7)] (monitor_init True 0 0)
   @ ev_contents (fold (mon_step demo_cfg (map ascii_lower) None)
     [Blur 5, Focus 6, Buffer NetFail, Buffer TimerFires, Buffer RespOk,
      Buffer (JsonOk (JNum 1) (JNum 1) 7)] (monitor_init True 0 0))
   = [plain_event ''window_blur'' SevViolation 5, plain_event ''window_focus'' SevInfo 6]"
  by (subst monitor_events_in_order) simp_all

text \<open>
  Queued events are never stranded. In every reachable state the queue is empty, or a
  flush is suspended (which re-arms the timer when it ends), or the flush timer is armed; and
  the flag \<open>flushing\<close> is set exactly while a flush is suspended.
\<close>

lemma monitor_no_lost_wakeup:
  "let s = fold (mon_step C lower url) ops (monitor_init f t v)
   in (eventQueue s = [] \<or> flushing s \<or> flushTimer s) \<and> flushing s = (flush_k s \<noteq> FlushIdle)"
  using monm.run_inv [OF monitor_init_inv] unfolding Let_def ev_inv_def by blast

text \<open>
  C26: the buffer drains. From every reachable state, one answered flush, one timer and one
  more answered flush leave nothing behind, whatever state the buffer was in.
\<close>

theorem monitor_drains:
  "ev_contents (fold (mon_step C lower url)
      (map Buffer [RespOk, JsonOk c1 v1 n1, TimerFires, RespOk, JsonOk c2 v2 n2])
      (fold (mon_step C lower url) ops (monitor_init f t v))) = []"
proof -
  let ?s = "fold (mon_step C lower url) ops (monitor_init f t v)"
  have inv: "ev_inv ?s" by (rule monm.run_inv) simp
  show ?thesis
    using inv by (cases "flush_k ?s")
      (auto simp: ev_inv_def ev_contents_def flush_finally_def flushEvents_def scheduleFlush_def
        Let_def)
qed

text \<open>
  A violation is posted at once. When no flush is suspended, reporting a violation sends
  one request whose body is everything queued so far followed by the violation itself.
\<close>

lemma violation_posted_immediately:
  assumes "\<not> flushing s"
  shows "posts (report url now ty SevViolation s)
         = posts s @ [(url_text url, eventQueue s @ [plain_event ty SevViolation now])]"
  using assms
  by (simp add: report_def queueEvent_def put_event_def plain_event_def mk_event_def
      flushEvents_def Let_def)

lemma violation_posted_immediately_witness:
  "posts (report (Some (js ''/e'')) 9 ''window_blur'' SevViolation evbuf_init)
   = [(js ''/e'', [plain_event ''window_blur'' SevViolation 9])]"
  using violation_posted_immediately [of evbuf_init "Some (js ''/e'')" 9 "''window_blur''"]
  by (simp add: evbuf_init_def url_text_def)

text \<open>
  At most one flush request is in flight. While a flush is suspended no step of the page, of a
  timer or of the network posts another request.
\<close>

lemma single_flush_in_flight:
  assumes "flushing s"
  shows "posts (mon_step C lower url op s) = posts s"
proof (cases op)
  case (Buffer bop)
  then show ?thesis
    using assms by (cases bop) (auto simp: queueEvent_def flush_requeue_def page_hide_def Let_def
        split: flush_state.split)
qed (use assms in \<open>auto simp: handler_defs report_def queueEvent_def\<close>)

lemma single_flush_in_flight_witness:
  "posts (mon_step demo_cfg (map ascii_lower) None (Blur 2)
      (on_blur None 1 (monitor_init True 0 0)))
   = [(js ''null'', [plain_event ''window_blur'' SevViolation 1])]"
  by (subst single_flush_in_flight)
    (simp_all add: on_blur_def report_def queueEvent_def put_event_def flushEvents_def
      monitor_init_def plain_event_def mk_event_def url_text_def Let_def)

text \<open>
  Beacons: with the unload beacon the order can change (a suspended batch may be queued again
  behind a beacon that is already sent), but every event still has exactly one fate: the step
  confirms it, beacons it, or keeps it.
\<close>

fun mon_beaconed :: "mon_op \<Rightarrow> 'a monitor_scheme \<Rightarrow> pevent list" where
  "mon_beaconed (Buffer op) s = ev_beaconed op s"
| "mon_beaconed _ s = []"

lemma no_beacon_beaconed: "no_beacon op s \<Longrightarrow> mon_beaconed op s = []"
  by (cases op; cases "case op of Buffer b \<Rightarrow> b | _ \<Rightarrow> RespOk") auto

lemma beacon_op: "\<not> no_beacon op s \<Longrightarrow> \<exists>hb now. op = Buffer (PageHide hb now)"
  by (cases op; cases "case op of Buffer b \<Rightarrow> b | _ \<Rightarrow> RespOk") auto

lemma mon_step_mset:
  assumes "ev_inv s"
  shows "mset (mon_acked op s) + mset (mon_beaconed op s)
           + mset (ev_contents (mon_step C lower url op s))
         = mset (ev_contents s) + mset (mon_made lower op s)"
proof (cases "no_beacon op s")
  case True
  from arg_cong [where f = mset, OF mon_step_contents [OF assms True]] no_beacon_beaconed [OF True]
  show ?thesis by simp
next
  case False
  then obtain hb now where op: "op = Buffer (PageHide hb now)"
    using beacon_op by blast
  from arg_cong [where f = mset, OF page_hide_contents [OF assms, of hb url now]] op
  show ?thesis by (simp add: union_commute)
qed

text \<open>
  Every reported event has exactly one fate, unload included: along any run, the events
  confirmed, the events handed to the unload beacon and the events still buffered are together
  the reported events, each as often as it was reported.
\<close>

lemma monitor_events_conserved:
  "mset (released (mon_step C lower url) mon_acked ops (monitor_init f t v))
     + mset (released (mon_step C lower url) mon_beaconed ops (monitor_init f t v))
     + mset (ev_contents (fold (mon_step C lower url) ops (monitor_init f t v)))
   = mset (released (mon_step C lower url) (mon_made lower) ops (monitor_init f t v))"
proof -
  have "mset (released (mon_step C lower url) mon_acked ops s)
     + mset (released (mon_step C lower url) mon_beaconed ops s)
     + mset (ev_contents (fold (mon_step C lower url) ops s))
   = mset (ev_contents s) + mset (released (mon_step C lower url) (mon_made lower) ops s)"
    if "ev_inv s" for s :: monitor
    using that
  proof (induction ops arbitrary: s)
    case (Cons op ops)
    let ?s' = "mon_step C lower url op s"
    let ?R = "\<lambda>out. mset (released (mon_step C lower url) out ops ?s')"
    have "mset (mon_acked op s) + ?R mon_acked + (mset (mon_beaconed op s) + ?R mon_beaconed)
        + mset (ev_contents (fold (mon_step C lower url) ops ?s'))
      = mset (mon_acked op s) + mset (mon_beaconed op s) + (?R mon_acked + ?R mon_beaconed
        + mset (ev_contents (fold (mon_step C lower url) ops ?s')))"
      by (simp only: ac_simps)
    also have "\<dots> = mset (mon_acked op s) + mset (mon_beaconed op s) + mset (ev_contents ?s')
        + ?R (mon_made lower)"
      using Cons.IH [OF mon_step_inv [OF Cons.prems], of C lower url op] by (simp add: add.assoc)
    also have "\<dots> = mset (ev_contents s) + mset (mon_made lower op s) + ?R (mon_made lower)"
      by (simp only: mon_step_mset [OF Cons.prems])
    finally show ?case by (simp add: add.assoc)
  qed simp
  from this [OF monitor_init_inv] show ?thesis by simp
qed

text \<open>
  Delivery is at least once, not exactly once. If the server has accepted a batch but its
  answer is not the expected JSON, the batch goes back to the front of the queue, and the next
  flush posts the same events a second time.
\<close>

lemma accepted_batch_posted_again:
  assumes "flush_k s = AwaitFetch b" and "b \<noteq> []"
  shows "posts (fold (mon_step C lower url) (map Buffer [RespOk, JsonBad, TimerFires]) s)
         = posts s @ [(url_text url, b @ eventQueue s)]"
  using assms
  by (simp add: flush_requeue_def flush_finally_def scheduleFlush_def flushEvents_def Let_def)

lemma accepted_batch_posted_again_witness:
  "posts (fold (mon_step demo_cfg (map ascii_lower) None) (map Buffer [RespOk, JsonBad, TimerFires])
     (on_blur None 1 (monitor_init True 0 0)))
   = [(js ''null'', [plain_event ''window_blur'' SevViolation 1]),
      (js ''null'', [plain_event ''window_blur'' SevViolation 1])]"
  by (subst accepted_batch_posted_again [where b = "[plain_event ''window_blur'' SevViolation 1]"])
    (simp_all add: on_blur_def report_def queueEvent_def put_event_def flushEvents_def
      monitor_init_def plain_event_def mk_event_def url_text_def Let_def)

section \<open>What counts as a violation\<close>

text \<open>
  Key combinations are informational. A key press never posts a request and never reports a
  violation: it reports nothing, or one \<open>key_combo\<close> event of severity info; and
  the browser's default is suppressed exactly for Ctrl or Meta with S, P or U, not with C or
  V.
\<close>

lemma keydown_informational:
  assumes "ev_inv s"
  shows "let (s', suppressed) = on_keydown lower url now ctrl meta key s
         in posts s' = posts s
            \<and> (ev_contents s' = ev_contents s
               \<or> (\<exists>d. ev_contents s' = ev_contents s @ [mk_event (js ''key_combo'') (Some SevInfo) d now]))
            \<and> (suppressed \<longleftrightarrow> (ctrl \<or> meta) \<and> lower key \<in> {js ''s'', js ''p'', js ''u''})"
proof -
  have info: "posts (put_event url (mk_event ty (Some SevInfo) d n) r) = posts r"
    for ty d n and r :: "'b evbuf_scheme"
    by (simp add: put_event_def mk_event_def scheduleFlush_def Let_def)
  show ?thesis
    using assms by (auto simp: on_keydown_def queueEvent_def info put_event_contents Let_def)
qed

lemma keydown_informational_witness:
  "on_keydown (map ascii_lower) None 4 True False (js ''V'') evbuf_init
     = (queueEvent None 4 (js ''key_combo'') (Some SevInfo)
          (Some (JObj [(js ''combo'', JStr (js ''ctrl+v''))])) evbuf_init, False)
   \<and> posts (fst (on_keydown (map ascii_lower) None 4 True False (js ''V'') evbuf_init)) = []"
  using keydown_informational [OF ev_inv_init, of "map ascii_lower" None 4 True False "js ''V''"]
  by (simp add: on_keydown_def ascii_lower_def evbuf_init_def Let_def)

text \<open>
  One loss of focus can be reported twice. When the window loses focus the browser fires
  \<open>blur\<close>, and the focus poll, which keeps its own idea of the focus and is not
  told of the event, reports the same loss again: two \<open>window_blur\<close> violations,
  each counted by the server.
\<close>

lemma blur_reported_twice:
  assumes "ev_inv s" and "lastHadFocus s"
  shows "ev_contents (focus_poll url t2 False (on_blur url t1 s))
         = ev_contents s @ [plain_event ''window_blur'' SevViolation t1,
                            plain_event ''window_blur'' SevViolation t2]"
proof -
  have "lastHadFocus (on_blur url t1 s)"
    using assms(2)
    by (simp add: on_blur_def report_def queueEvent_def put_event_def flushEvents_def
        scheduleFlush_def Let_def)
  then show ?thesis
    using assms(1) by (simp add: focus_poll_def on_blur_def)
qed

lemma blur_reported_twice_witness:
  "ev_contents (focus_poll None 20 False (on_blur None 10 (monitor_init True 0 0)))
   = [plain_event ''window_blur'' SevViolation 10, plain_event ''window_blur'' SevViolation 20]"
proof -
  have "lastHadFocus (monitor_init True 0 0)" by (simp add: monitor_init_def)
  from blur_reported_twice [OF monitor_init_inv this] show ?thesis by simp
qed

section \<open>The over-limit warning\<close>

text \<open>The times at which a sequence of counter updates opens the warning.\<close>

fun warn_times ::
  "proctor_cfg \<Rightarrow> (int \<times> jval \<times> jval) list \<Rightarrow> 'a monitor_scheme \<Rightarrow> int list"
where
  "warn_times C [] s = []"
| "warn_times C ((now, c, v) # us) s =
     (let s' = updateTabSwitchUi C now c v s
      in (if lastWarnAt s' \<noteq> lastWarnAt s then [now] else []) @ warn_times C us s')"

lemma updateTabSwitchUi_warns:
  "lastWarnAt (updateTabSwitchUi C now c v s) = lastWarnAt s
   \<or> lastWarnAt (updateTabSwitchUi C now c v s) = now \<and> now > lastWarnAt s + 8000"
  by (auto simp: updateTabSwitchUi_def showOverlay_def Let_def split: option.split)

lemma warn_times_after: "t \<in> set (warn_times C us s) \<Longrightarrow> lastWarnAt s + 8000 < t"
proof (induction C us s rule: warn_times.induct)
  case (2 C now c v us s)
  then show ?case
    using updateTabSwitchUi_warns [of C now c v s] by (fastforce simp: Let_def split: if_splits)
qed simp

text \<open>
  The over-limit warning is rate limited: whatever counts the server sends and whenever, the
  warning opens at times that are more than eight seconds apart.
\<close>

lemma over_limit_warning_rate:
  "sorted_wrt (\<lambda>a b. a + 8000 < b) (warn_times C us s)"
proof (induction C us s rule: warn_times.induct)
  case (2 C now c v us s)
  then show ?case
    using updateTabSwitchUi_warns [of C now c v s] warn_times_after by (fastforce simp: Let_def)
qed simp

end
