(* ===== verification/ProctorUploader.thy ===== *)
theory ProctorUploader
  imports ProctorEvents
begin

text \<open>
  The chunk uploader of the in-exam runtime (\<open>web/static/js/proctor.js\<close>, lines
  151 to 231, \<open>makeUploader\<close>): a bounded buffer of recorded chunks, and the
  asynchronous \<open>drain\<close> loop that posts them one at a time with retries and
  exponential backoff.

  The two places where \<open>drain\<close> is suspended (the \<open>await\<close> of an
  attempt, which holds the item it is sending, and the \<open>await\<close> of the backoff
  timer) are the field \<open>drain_k\<close>. JavaScript holds the item by reference: the
  suspended item and its entry in \<open>pending\<close>, while it is there, are one object.
  Items are identified by their sequence number, and an update of the suspended item is
  written to the entry as well (\<open>set_item\<close>).
\<close>

section \<open>State\<close>

record chunk =
  chunk_id :: nat
  chunk_size :: nat

record item =
  item_blob :: chunk
  attempt :: nat
  mySeq :: nat
  lastError :: "jstr option"

datatype drain_state = DrainIdle | AwaitAttempt item | AwaitBackoff nat

text \<open>What an attempt reads when it starts: the upload URL, the session and its token.\<close>

record up_env =
  proctor_url :: jstr
  up_sid :: int
  up_token :: jstr

record up_request =
  rq_url :: jstr
  rq_auth :: jstr
  rq_seq :: nat

record uploader =
  up_kind :: jstr
  seq :: nat
  pending :: "item list"
  working :: bool
  drain_k :: drain_state
  requests :: "up_request list"
  warnings :: "(jstr \<times> severity \<times> jval) list" \<comment> \<open>the calls of \<open>queueEvent\<close>\<close>

definition RETRY_BUFFER_MAX :: nat where
  "RETRY_BUFFER_MAX = 16"

definition MAX_ATTEMPTS :: nat where
  "MAX_ATTEMPTS = 4"

definition up_init :: "jstr \<Rightarrow> uploader" where
  "up_init kind = \<lparr>up_kind = kind, seq = 0, pending = [], working = False,
    drain_k = DrainIdle,
     requests = [], warnings = []\<rparr>"

text \<open>\<open>PROCTOR_URL\<close>: the configured URL without one trailing slash.\<close>

definition strip_slash :: "jstr \<Rightarrow> jstr" where
  "strip_slash u = (if u \<noteq> [] \<and> last u = cu (CHR ''/'') then butlast u else u)"

section \<open>Operations\<close>

definition attempt_request :: "up_env \<Rightarrow> uploader \<Rightarrow> item \<Rightarrow> up_request" where
  "attempt_request E u it =
     \<lparr>rq_url = proctor_url E @ js ''/chunk/'' @ num_str (up_sid E) @ js ''/'' @ up_kind u
               @ js ''/'' @ nat_str (mySeq it),
      rq_auth = js ''Bearer '' @ up_token E,
      rq_seq = mySeq it\<rparr>"

text \<open>The head of the \<open>while\<close> loop: stop,
  or start an attempt on the first pending item.\<close>

definition drain_loop :: "up_env \<Rightarrow> uploader \<Rightarrow> uploader" where
  "drain_loop E u =
     (case pending u of
        [] \<Rightarrow> u\<lparr>working := False, drain_k := DrainIdle\<rparr>
      | it # _ \<Rightarrow> u\<lparr>drain_k := AwaitAttempt it, requests := requests u
        @ [attempt_request E u it]\<rparr>)"

definition drain :: "up_env \<Rightarrow> uploader \<Rightarrow> uploader" where
  "drain E u = (if working u then u else drain_loop E (u\<lparr>working := True\<rparr>))"

text \<open>\<open>pending.shift()\<close>, and the write to a shared item.\<close>

definition shift :: "uploader \<Rightarrow> uploader" where
  "shift u = u\<lparr>pending := tl (pending u)\<rparr>"

definition set_item :: "item \<Rightarrow> item list \<Rightarrow> item list" where
  "set_item it = map (\<lambda>x. if mySeq x = mySeq it then it else x)"

definition drop_message :: "item \<Rightarrow> jstr" where
  "drop_message it =
     [0x5F55, 0x50CF, 0x5207, 0x7247, 0x91CD, 0x8BD5, 32] @ nat_str MAX_ATTEMPTS @ ([32, 0x6B21,
       0x540E, 0x4E22, 0x5F03] @ js '': '')
     @ (case lastError it of None \<Rightarrow> [] | Some e \<Rightarrow> e)"

definition warn_dropped :: "uploader \<Rightarrow> item \<Rightarrow> jstr \<times> severity \<times> jval" where
  "warn_dropped u it =
     (js ''client_warning'', SevWarning,
      JObj [(js ''kind'', JStr (up_kind u)), (js ''dropped_seq'', JNum (int (mySeq it))),
            (js ''message'', JStr (drop_message it))])"

definition warn_full :: "uploader \<Rightarrow> jstr \<times> severity \<times> jval" where
  "warn_full u =
     (js ''client_warning'', SevWarning,
      JObj [(js ''kind'', JStr (up_kind u)),
            (js ''message'', JStr [0x4E0A, 0x4F20, 0x7F13, 0x51B2, 0x533A, 0x6EE1, 44, 0x4E22,
              0x5F03, 0x6700, 0x65E7, 0x5207, 0x7247])])"

text \<open>After a successful attempt; after a failed one; after the backoff.\<close>

definition attempt_ok :: "up_env \<Rightarrow> uploader \<Rightarrow> uploader" where
  "attempt_ok E u = drain_loop E (shift u)"

definition attempt_failed :: "up_env \<Rightarrow> item \<Rightarrow> jstr \<Rightarrow> uploader \<Rightarrow> uploader" where
  "attempt_failed E it err u =
     (let it' = it\<lparr>lastError := Some err, attempt := attempt it + 1\<rparr>;
          u1 = u\<lparr>pending := set_item it' (pending u)\<rparr>
      in if attempt it' \<ge> MAX_ATTEMPTS
         then drain_loop E (shift (u1\<lparr>warnings := warnings u1
           @ [warn_dropped u1 it']\<rparr>))
         else u1\<lparr>drain_k := AwaitBackoff (1000 * 2 ^ (attempt it' - 1))\<rparr>)"

text \<open>The function that \<open>makeUploader\<close> returns: room for the chunk, the chunk, and \<open>drain\<close>.\<close>

definition make_room :: "uploader \<Rightarrow> uploader" where
  "make_room u =
     (if length (pending u) \<ge> RETRY_BUFFER_MAX
      then (shift u)\<lparr>warnings := warnings u @ [warn_full u]\<rparr> else u)"

definition push_chunk :: "chunk \<Rightarrow> uploader \<Rightarrow> uploader" where
  "push_chunk b u =
     u\<lparr>pending := pending u @ [\<lparr>item_blob = b, attempt = 0, mySeq = seq u, lastError = None\<rparr>],
       seq := seq u + 1\<rparr>"

definition upload :: "up_env \<Rightarrow> chunk option \<Rightarrow> uploader \<Rightarrow> uploader" where
  "upload E blob u =
     (if proctor_url E = [] then u
      else case blob of
        None \<Rightarrow> u
      | Some b \<Rightarrow> if chunk_size b = 0 then u else drain E (push_chunk b (make_room u)))"

datatype up_op = Chunk "chunk option" | AttemptOk | AttemptFail jstr | BackoffDone

fun up_step :: "up_env \<times> up_op \<Rightarrow> uploader \<Rightarrow> uploader" where
  "up_step (E, Chunk b) u = upload E b u"
| "up_step (E,
  AttemptOk) u = (case drain_k u of AwaitAttempt it \<Rightarrow> attempt_ok E u | _ \<Rightarrow> u)"
| "up_step (E, AttemptFail err) u =
     (case drain_k u of AwaitAttempt it \<Rightarrow> attempt_failed E it err u | _ \<Rightarrow> u)"
| "up_step (E,
  BackoffDone) u = (case drain_k u of AwaitBackoff d \<Rightarrow> drain_loop E u | _ \<Rightarrow> u)"

section \<open>Invariant\<close>

text \<open>
  The buffer is bounded, its items are in sequence order with fewer than
  \<open>MAX_ATTEMPTS\<close> attempts, the loop is suspended exactly while
  \<open>working\<close>, and the item of a suspended attempt is either the first pending item
  or one that the full buffer has already thrown out.
\<close>

definition up_inv :: "uploader \<Rightarrow> bool" where
  "up_inv u \<longleftrightarrow> length (pending u) \<le> RETRY_BUFFER_MAX
     \<and> sorted_wrt (<) (map mySeq (pending u))
     \<and> (\<forall>x \<in> set (pending u). mySeq x < seq u \<and> attempt x < MAX_ATTEMPTS)
     \<and> (working u \<longleftrightarrow> drain_k u \<noteq> DrainIdle)
     \<and> (\<not> working u \<longrightarrow> pending u = [])
     \<and> (case drain_k u of
          AwaitAttempt it \<Rightarrow> attempt it < MAX_ATTEMPTS \<and> pending u \<noteq> []
            \<and> (it = hd (pending u) \<or> mySeq it < mySeq (hd (pending u)))
        | AwaitBackoff d \<Rightarrow> pending u \<noteq> [] \<and> d \<in> {1000, 2000, 4000}
        | DrainIdle \<Rightarrow> True)"

section \<open>The invariant is kept\<close>

lemma max_values [simp]: "RETRY_BUFFER_MAX = 16" "MAX_ATTEMPTS = 4"
  by (simp_all add: RETRY_BUFFER_MAX_def MAX_ATTEMPTS_def)

definition up_core :: "uploader \<Rightarrow> bool" where
  "up_core u \<longleftrightarrow> length (pending u) \<le> 16 \<and> sorted_wrt (<) (map mySeq (pending u))
     \<and> (\<forall>x \<in> set (pending u). mySeq x < seq u \<and> attempt x < 4)"

lemma up_inv_core: "up_inv u \<Longrightarrow> up_core u"
  by (simp add: up_inv_def up_core_def)

lemma up_core_cong:
  "pending u' = pending u \<Longrightarrow> seq u' = seq u \<Longrightarrow> up_core u' = up_core u"
  by (simp add: up_core_def)

lemma up_core_simps [simp]:
  "up_core (u\<lparr>working := w\<rparr>) = up_core u" "up_core (u\<lparr>drain_k := k\<rparr>) = up_core u"
  "up_core (u\<lparr>warnings := ws\<rparr>) = up_core u" "up_core (u\<lparr>requests := rs\<rparr>) = up_core u"
  by (simp_all add: up_core_def)

lemma up_core_shift: "up_core u \<Longrightarrow> up_core (shift u)"
  by (cases "pending u") (auto simp: up_core_def shift_def)

lemma set_item_seqs [simp]: "map mySeq (set_item it xs) = map mySeq xs"
  by (auto simp: set_item_def)

lemma set_item_Nil [simp]: "set_item it xs = [] \<longleftrightarrow> xs = []"
  by (simp add: set_item_def)

lemma length_set_item [simp]: "length (set_item it xs) = length xs"
  by (simp add: set_item_def)

lemma hd_set_item: "xs \<noteq> [] \<Longrightarrow>
    hd (set_item it xs) = (if mySeq (hd xs) = mySeq it then it else hd xs)"
  by (cases xs) (auto simp: set_item_def)

lemma up_core_set_item:
  "up_core u \<Longrightarrow> attempt it < 4 \<Longrightarrow> up_core (u\<lparr>pending := set_item it (pending u)\<rparr>)"
  by (auto simp: up_core_def) (auto simp: set_item_def split: if_splits)

lemma drain_loop_inv: "up_core u \<Longrightarrow> working u \<Longrightarrow> up_inv (drain_loop E u)"
  by (auto simp: drain_loop_def up_core_def up_inv_def split: list.split)

lemma attempt_ok_inv: "up_inv u \<Longrightarrow> drain_k u = AwaitAttempt it \<Longrightarrow> up_inv (attempt_ok E u)"
  unfolding attempt_ok_def
  by (intro drain_loop_inv up_core_shift up_inv_core) (auto simp: up_inv_def shift_def)

text \<open>The update of the suspended item reaches its entry, and only that.\<close>

lemma set_item_head:
  assumes "up_core u" "pending u = it0 # rest" "mySeq it = mySeq it0"
  shows "set_item it (pending u) = it # rest"
  using assms by (auto simp: up_core_def set_item_def intro!: map_idI)

lemma set_item_gone:
  assumes "up_core u" "pending u \<noteq> []" "mySeq it < mySeq (hd (pending u))"
  shows "set_item it (pending u) = pending u"
proof -
  obtain x xs where p: "pending u = x # xs" using assms(2) by (cases "pending u") auto
  have "mySeq y \<noteq> mySeq it" if "y \<in> set (pending u)" for y
    using assms that p by (fastforce simp: up_core_def)
  then show ?thesis by (auto simp: set_item_def intro!: map_idI)
qed

lemma attempt_failed_core:
  assumes inv: "up_inv u" and k: "drain_k u = AwaitAttempt it" and it': "mySeq it' = mySeq it"
  shows "up_core (shift (u\<lparr>pending := set_item it' (pending u)\<rparr>))" (is "up_core (shift ?u1)")
proof -
  have core: "up_core u" and ne: "pending u \<noteq> []"
    and pos: "it = hd (pending u) \<or> mySeq it < mySeq (hd (pending u))"
    using inv k by (auto simp: up_inv_def up_core_def)
  have "tl (pending ?u1) = tl (pending u)"
  proof (cases "it = hd (pending u)")
    case True
    then obtain rest where p: "pending u = it # rest" using ne by (cases "pending u") auto
    from set_item_head [OF core p it'] p show ?thesis by simp
  next
    case False
    with pos it' show ?thesis using set_item_gone [OF core ne, of it'] by simp
  qed
  then show ?thesis using up_core_shift [OF core] by (simp add: up_core_def shift_def)
qed

lemma attempt_failed_inv:
  assumes inv: "up_inv u" and k: "drain_k u = AwaitAttempt it"
  shows "up_inv (attempt_failed E it err u)"
proof -
  let ?it' = "it\<lparr>lastError := Some err, attempt := attempt it + 1\<rparr>"
  let ?u1 = "u\<lparr>pending := set_item ?it' (pending u)\<rparr>"
  have w: "working u" and ne: "pending u \<noteq> []" and at: "attempt it < 4"
    using inv k by (auto simp: up_inv_def)
  show ?thesis
  proof (cases "attempt ?it' \<ge> 4")
    case True
    have "up_core (shift ?u1)" by (rule attempt_failed_core [OF inv k]) simp
    then show ?thesis using True w
      by (auto simp: attempt_failed_def Let_def intro!: drain_loop_inv)
        (simp_all add: shift_def up_core_def)
  next
    case False
    then have "attempt it \<in> {0, 1, 2}" by auto
    then show ?thesis using False up_core_set_item [OF up_inv_core [OF inv], of ?it'] w ne
      by (auto simp: attempt_failed_def Let_def up_inv_def up_core_def)
  qed
qed

lemma make_room_core: "up_core u \<Longrightarrow> up_core (make_room u) \<and> length (pending (make_room u)) < 16"
  using up_core_shift [of u] by (auto simp: make_room_def up_core_def shift_def)

lemma push_chunk_core: "up_core u \<Longrightarrow> length (pending u) < 16 \<Longrightarrow> up_core (push_chunk b u)"
  by (auto simp: up_core_def push_chunk_def sorted_wrt_append)

lemma make_room_inv: "up_inv u \<Longrightarrow> up_inv (make_room u) \<and> length (pending (make_room u)) < 16"
proof -
  assume inv: "up_inv u"
  note room = make_room_core [OF up_inv_core [OF inv]]
  show ?thesis
  proof (cases "length (pending u) \<ge> 16")
    case True
    obtain x y rest where p: "pending u = x # y # rest"
      using True by (cases "pending u" rule: remdups_adj.cases) auto
    then have "mySeq x < mySeq y" using inv by (simp add: up_inv_def)
    then show ?thesis using inv room p True
      by (auto simp: up_inv_def up_core_def make_room_def shift_def split: drain_state.splits)
  next
    case False
    then show ?thesis using inv by (simp add: make_room_def)
  qed
qed

lemma push_chunk_inv:
  "up_inv u \<Longrightarrow> length (pending u) < 16 \<Longrightarrow> up_inv (drain E (push_chunk b u))"
proof (cases "working u")
  case True
  moreover assume inv: "up_inv u" and room: "length (pending u) < 16"
  moreover have "up_core (push_chunk b u)" by (rule push_chunk_core [OF up_inv_core [OF inv] room])
  ultimately show ?thesis
    by (auto simp: drain_def push_chunk_def up_inv_def up_core_def split: drain_state.splits)
next
  case False
  assume inv: "up_inv u" and room: "length (pending u) < 16"
  have "up_core (push_chunk b u)" by (rule push_chunk_core [OF up_inv_core [OF inv] room])
  with False show ?thesis
    by (auto simp: drain_def intro!: drain_loop_inv) (simp add: push_chunk_def)
qed

lemma upload_inv: "up_inv u \<Longrightarrow> up_inv (upload E b u)"
  using make_room_inv push_chunk_inv by (auto simp: upload_def split: option.split)

lemma up_step_inv: "up_inv u \<Longrightarrow> up_inv (up_step op u)"
proof (induction op u rule: up_step.induct)
  case (4 E u)
  then show ?case
    by (auto simp: up_inv_core up_inv_def [of u] intro!: drain_loop_inv split: drain_state.split)
qed (auto simp: upload_inv attempt_ok_inv attempt_failed_inv split: drain_state.split)

lemma up_init_inv [simp]: "up_inv (up_init kind)"
  by (simp add: up_inv_def up_init_def)

interpretation upm: inv_machine up_step up_inv
  by unfold_locales (rule up_step_inv)

section \<open>Attempts\<close>

text \<open>
  How often a sequence number was posted, and how that count follows the
  \<open>attempt\<close> counters.
\<close>

definition sent_count :: "uploader \<Rightarrow> nat \<Rightarrow> nat" where
  "sent_count u n = length (filter (\<lambda>r. rq_seq r = n) (requests u))"

definition under_way :: "uploader \<Rightarrow> nat \<Rightarrow> nat" where
  "under_way u n = (case drain_k u of AwaitAttempt it \<Rightarrow> if mySeq it = n then 1 else 0 | _ \<Rightarrow> 0)"

definition sent_inv :: "uploader \<Rightarrow> bool" where
  "sent_inv u \<longleftrightarrow> (\<forall>n. sent_count u n \<le> 4) \<and> (\<forall>n \<ge> seq u. sent_count u n = 0)
     \<and> (\<forall>x \<in> set (pending u). sent_count u (mySeq x) = attempt x + under_way u (mySeq x))"

lemma sent_count_cong [simp]:
  "sent_count (u\<lparr>pending := p\<rparr>) n = sent_count u n" "sent_count (u\<lparr>seq := k\<rparr>) n = sent_count u n"
  "sent_count (u\<lparr>working := w\<rparr>) n = sent_count u n" "sent_count (u\<lparr>drain_k := d\<rparr>) n = sent_count u n"
  "sent_count (u\<lparr>warnings := ws\<rparr>) n = sent_count u n" "sent_count (shift u) n = sent_count u n"
  by (simp_all add: sent_count_def shift_def)

lemma drain_loop_sent:
  assumes core: "up_core u"
    and cnt: "\<forall>n. sent_count u n \<le> 4" "\<forall>n \<ge> seq u. sent_count u n = 0"
    and pend: "\<forall>x \<in> set (pending u). sent_count u (mySeq x) = attempt x"
  shows "sent_inv (drain_loop E u)"
proof (cases "pending u")
  case Nil
  then show ?thesis using cnt by (simp add: drain_loop_def sent_inv_def)
next
  case (Cons it rest)
  have c: "sent_count (drain_loop E u) n = sent_count u n + (if n = mySeq it then 1 else 0)" for n
    by (simp add: drain_loop_def Cons sent_count_def attempt_request_def)
  have k: "under_way (drain_loop E u) n = (if mySeq it = n then 1 else 0)" for n
    by (simp add: drain_loop_def Cons under_way_def)
  have p: "pending (drain_loop E u) = pending u" "seq (drain_loop E u) = seq u"
    by (simp_all add: drain_loop_def Cons)
  have it: "sent_count u (mySeq it) = attempt it" "attempt it < 4" "mySeq it < seq u"
    using pend core Cons by (auto simp: up_core_def)
  show ?thesis unfolding sent_inv_def c k p
    using cnt pend it by auto
qed

lemma under_way_other:
  assumes "up_inv u" "drain_k u = AwaitAttempt it" "x \<in> set (tl (pending u))"
  shows "mySeq it < mySeq x"
proof -
  obtain y ys where p: "pending u = y # ys" using assms(3) by (cases "pending u") auto
  with assms show ?thesis by (fastforce simp: up_inv_def)
qed

lemma attempt_ok_sent:
  assumes "up_inv u" "sent_inv u" "drain_k u = AwaitAttempt it"
  shows "sent_inv (attempt_ok E u)"
  unfolding attempt_ok_def
proof (rule drain_loop_sent)
  show "up_core (shift u)" by (rule up_core_shift [OF up_inv_core [OF assms(1)]])
  show "\<forall>x \<in> set (pending (shift u)). sent_count (shift u) (mySeq x) = attempt x"
  proof
    fix x assume x: "x \<in> set (pending (shift u))"
    then have "mySeq it < mySeq x" and "x \<in> set (pending u)"
      using under_way_other [OF assms(1,3)] by (auto simp: shift_def dest: in_set_tlD)
    then show "sent_count (shift u) (mySeq x) = attempt x"
      using assms(2,3) by (auto simp: sent_inv_def under_way_def)
  qed
qed (use assms(2) in \<open>auto simp: sent_inv_def shift_def\<close>)

lemma attempt_failed_sent:
  assumes inv: "up_inv u" and sent: "sent_inv u" and k: "drain_k u = AwaitAttempt it"
  shows "sent_inv (attempt_failed E it err u)"
proof -
  let ?it' = "it\<lparr>lastError := Some err, attempt := attempt it + 1\<rparr>"
  let ?u1 = "u\<lparr>pending := set_item ?it' (pending u)\<rparr>"
  have core: "up_core u" and ne: "pending u \<noteq> []"
    and pos: "it = hd (pending u) \<or> mySeq it < mySeq (hd (pending u))"
    using inv k by (auto simp: up_inv_def up_core_def)
  have cnt: "\<forall>n. sent_count u n \<le> 4" "\<forall>n \<ge> seq u. sent_count u n = 0"
    using sent by (auto simp: sent_inv_def)
  have p1: "sent_count u (mySeq x) = attempt x" if "x \<in> set (pending ?u1)" for x
  proof -
    from that obtain y where y: "y \<in> set (pending u)" "x = (if mySeq y = mySeq it then ?it' else y)"
      by (auto simp: set_item_def)
    have "y = it" if "mySeq y = mySeq it"
    proof -
      obtain z zs where z: "pending u = z # zs" using ne by (cases "pending u") auto
      from that y(1) core pos z show ?thesis by (fastforce simp: up_core_def)
    qed
    with y sent k show ?thesis by (auto simp: sent_inv_def under_way_def)
  qed
  show ?thesis
  proof (cases "attempt ?it' \<ge> 4")
    case True
    let ?u2 = "?u1\<lparr>warnings := warnings ?u1 @ [warn_dropped ?u1 ?it']\<rparr>"
    have "up_core (shift ?u1)" by (rule attempt_failed_core [OF inv k]) simp
    then have "up_core (shift ?u2)" by (simp add: shift_def up_core_def)
    then have "sent_inv (drain_loop E (shift ?u2))"
      by (rule drain_loop_sent) (use cnt p1 in \<open>auto simp: shift_def dest: in_set_tlD\<close>)
    then show ?thesis using True by (simp add: attempt_failed_def Let_def)
  next
    case False
    then show ?thesis using cnt p1
      by (auto simp: attempt_failed_def Let_def sent_inv_def under_way_def)
  qed
qed

lemma upload_sent:
  assumes inv: "up_inv u" and sent: "sent_inv u"
  shows "sent_inv (upload E b u)"
proof -
  have room: "sent_inv (make_room u)"
    using sent by (auto simp: make_room_def sent_inv_def under_way_def shift_def sent_count_def
        dest: in_set_tlD)
  have inv': "up_inv (make_room u)" and len: "length (pending (make_room u)) < 16"
    using make_room_inv [OF inv] by auto
  have push: "sent_inv (drain E (push_chunk c r))"
    if r: "up_inv r" "sent_inv r" "length (pending r) < 16" for c r
  proof (cases "working r")
    case True
    have "under_way r (seq r) = 0"
      using r(1) by (cases "pending r") (auto simp: under_way_def up_inv_def split: drain_state.splits)
    with True r(2) show ?thesis
      by (auto simp: drain_def push_chunk_def sent_inv_def under_way_def sent_count_def
          split: drain_state.splits)
  next
    case False
    then have "pending r = []" "drain_k r = DrainIdle" using r(1) by (auto simp: up_inv_def)
    with r have "sent_inv (drain_loop E ((push_chunk c r)\<lparr>working := True\<rparr>))"
      by (intro drain_loop_sent) (auto simp: push_chunk_def sent_inv_def up_core_def)
    with False show ?thesis by (simp add: drain_def push_chunk_def)
  qed
  show ?thesis
    using push [OF inv' room len] sent by (auto simp: upload_def split: option.split)
qed

lemma up_step_sent: "up_inv u \<Longrightarrow> sent_inv u \<Longrightarrow> sent_inv (up_step op u)"
proof (induction op u rule: up_step.induct)
  case (4 E u)
  then show ?case
    by (auto simp: sent_inv_def [of u] under_way_def up_inv_core intro!: drain_loop_sent
        split: drain_state.split)
qed (auto simp: upload_sent attempt_ok_sent attempt_failed_sent split: drain_state.split)

interpretation upsent: inv_machine up_step "\<lambda>u. up_inv u \<and> sent_inv u"
  by unfold_locales (auto intro: up_step_inv up_step_sent)

lemma up_init_sent [simp]: "sent_inv (up_init kind)"
  by (simp add: sent_inv_def up_init_def sent_count_def)

text \<open>
  The upload buffer is bounded and ordered. Along every run (chunks arriving, attempts
  succeeding or failing, backoff timers), at most 16 chunks wait, in strictly increasing
  sequence order; each has been attempted fewer than four times; \<open>working\<close> is set
  exactly while the loop is suspended, and chunks wait only while it is; and the loop only
  ever waits one, two or four seconds.
\<close>

lemma uploader_bounded:
  "let u = fold up_step ops (up_init kind)
   in length (pending u) \<le> RETRY_BUFFER_MAX
      \<and> sorted_wrt (<) (map mySeq (pending u))
      \<and> list_all (\<lambda>x. mySeq x < seq u \<and> attempt x < MAX_ATTEMPTS) (pending u)
      \<and> working u = (drain_k u \<noteq> DrainIdle)
      \<and> (working u \<or> pending u = [])
      \<and> (case drain_k u of AwaitBackoff d \<Rightarrow> d \<in> {1000, 2000, 4000} | _ \<Rightarrow> True)"
proof -
  have "up_inv (fold up_step ops (up_init kind))" by (rule upm.run_inv) simp
  then show ?thesis
    by (auto simp: up_inv_def list_all_iff Let_def split: drain_state.splits)
qed

text \<open>
  No chunk is posted more than four times, whatever fails and whatever the full buffer
  throws out while an attempt is under way.
\<close>

lemma uploader_attempts_bounded:
  "length (filter (\<lambda>r. rq_seq r = n) (requests (fold up_step ops (up_init kind)))) \<le> MAX_ATTEMPTS"
proof -
  have "sent_inv (fold up_step ops (up_init kind))"
    using upsent.run_inv [of "up_init kind" ops] by simp
  then show ?thesis by (simp add: sent_inv_def sent_count_def)
qed

section \<open>The fate of a chunk\<close>

text \<open>
  What a step takes out of the buffer, as the uploader itself accounts for it: the chunk whose
  attempt succeeded, the chunk that is given up with a warning that names it, or the oldest
  chunk when the buffer is full (its warning names no chunk).
\<close>

datatype fate = Uploaded nat | GivenUp nat | Evicted nat

fun fate_seq :: "fate \<Rightarrow> nat" where
  "fate_seq (Uploaded n) = n"
| "fate_seq (GivenUp n) = n"
| "fate_seq (Evicted n) = n"

definition accepts :: "up_env \<Rightarrow> chunk option \<Rightarrow> bool" where
  "accepts E b \<longleftrightarrow> proctor_url E \<noteq> [] \<and> (case b of None \<Rightarrow> False | Some c \<Rightarrow> chunk_size c \<noteq> 0)"

fun fates :: "up_env \<times> up_op \<Rightarrow> uploader \<Rightarrow> fate list" where
  "fates (E, Chunk b) u =
     (if accepts E b \<and> length (pending u) \<ge> 16 then [Evicted (mySeq (hd (pending u)))] else [])"
| "fates (E, AttemptOk) u = (case drain_k u of AwaitAttempt it \<Rightarrow> [Uploaded (mySeq it)] | _ \<Rightarrow> [])"
| "fates (E, AttemptFail err) u =
     (case drain_k u of
        AwaitAttempt it \<Rightarrow> if attempt it + 1 \<ge> 4 then [GivenUp (mySeq it)] else []
      | _ \<Rightarrow> [])"
| "fates (E, BackoffDone) u = []"

fun accepted :: "up_env \<times> up_op \<Rightarrow> uploader \<Rightarrow> nat list" where
  "accepted (E, Chunk b) u = (if accepts E b then [seq u] else [])"
| "accepted _ u = []"

text \<open>The buffer does not overflow in this step; the suspended attempt is on the first item.\<close>

fun has_room :: "up_env \<times> up_op \<Rightarrow> uploader \<Rightarrow> bool" where
  "has_room (E, Chunk b) u = (\<not> accepts E b \<or> length (pending u) < 16)"
| "has_room _ u = True"

definition head_sent :: "uploader \<Rightarrow> bool" where
  "head_sent u \<longleftrightarrow> (case drain_k u of AwaitAttempt it \<Rightarrow> it = hd (pending u) | _ \<Rightarrow> True)"

lemma drain_loop_head [simp]: "head_sent (drain_loop E u)"
  by (simp add: drain_loop_def head_sent_def split: list.split)

lemma drain_loop_pending [simp]: "pending (drain_loop E u) = pending u"
  by (simp add: drain_loop_def split: list.split)

lemma drain_pending [simp]: "pending (drain E u) = pending u"
  by (simp add: drain_def)

lemma accepts_upload:
  "upload E b u = (case b of
     Some c \<Rightarrow> if accepts E b then drain E (push_chunk c (make_room u)) else u | None \<Rightarrow> u)"
  by (auto simp: upload_def accepts_def split: option.split)

lemma head_sent_step:
  assumes "up_inv u" "head_sent u" "has_room op u"
  shows "head_sent (up_step op u)"
proof (cases op)
  case (Pair E k)
  show ?thesis
  proof (cases k)
    case (Chunk b)
    show ?thesis
    proof (cases "accepts E b")
      case True
      then have room: "make_room u = u" using assms(3) Pair Chunk by (simp add: make_room_def)
      show ?thesis
      proof (cases "working u")
        case True
        then show ?thesis using assms(1,2) Pair Chunk room
          by (auto simp: accepts_upload drain_def push_chunk_def head_sent_def up_inv_def
              split: option.split drain_state.splits)
      next
        case False
        then show ?thesis using assms(2) Pair Chunk room
          by (auto simp: accepts_upload drain_def push_chunk_def split: option.split)
      qed
    next
      case False
      then show ?thesis using assms(2) Pair Chunk by (auto simp: accepts_upload split: option.split)
    qed
  next
    case (AttemptFail err)
    then show ?thesis using assms(2) Pair
      by (auto simp: attempt_failed_def Let_def split: drain_state.split)
        (simp_all add: head_sent_def)
  qed (use assms(2) Pair in \<open>auto simp: attempt_ok_def split: drain_state.split\<close>)
qed

text \<open>Every step appends what it accepts and takes its fates off the front.\<close>

lemma step_seqs:
  assumes inv: "up_inv u" and hd: "head_sent u" and room: "has_room op u"
  shows "map fate_seq (fates op u) @ map mySeq (pending (up_step op u))
         = map mySeq (pending u) @ accepted op u"
proof -
  have sh: "mySeq it # map mySeq (tl (pending u)) = map mySeq (pending u)"
    if "drain_k u = AwaitAttempt it" for it
    using that inv hd by (cases "pending u") (auto simp: up_inv_def head_sent_def)
  have set: "map mySeq (tl (set_item it' xs)) = map mySeq (tl xs)" for it' xs
    by (metis map_tl set_item_seqs)
  show ?thesis
    using room sh
    by (induction op u rule: up_step.induct)
      (auto simp: accepts_upload accepts_def make_room_def push_chunk_def attempt_ok_def
        attempt_failed_def shift_def set Let_def split: drain_state.split option.split)
qed

interpretation upq: fifo_machine up_step "\<lambda>u. up_inv u \<and> head_sent u" has_room
    "\<lambda>u. map mySeq (pending u)" accepted "\<lambda>op u. map fate_seq (fates op u)"
  by unfold_locales (auto intro: up_step_inv head_sent_step step_seqs)

lemma drain_loop_seq [simp]: "seq (drain_loop E u) = seq u"
  by (simp add: drain_loop_def split: list.split)

lemma accepted_step:
  "accepted op u = [seq u ..< seq (up_step op u)] \<and> seq u \<le> seq (up_step op u)"
  by (induction op u rule: up_step.induct)
    (auto simp: accepts_upload accepts_def drain_def make_room_def push_chunk_def attempt_ok_def
      attempt_failed_def shift_def Let_def split: drain_state.split option.split)

lemma accepted_run:
  "released up_step accepted ops u = [seq u ..< seq (fold up_step ops u)]
   \<and> seq u \<le> seq (fold up_step ops u)"
proof (induction ops arbitrary: u)
  case (Cons op ops)
  have "seq (up_step op u) \<le> seq (fold up_step ops (up_step op u))"
    using Cons.IH by blast
  then show ?case
    using accepted_step [of op u] Cons.IH [of "up_step op u"] by (simp add: upt_append_le)
qed simp


definition demo_env :: up_env where
  "demo_env = \<lparr>proctor_url = js ''https://p'', up_sid = 7, up_token = js ''tok''\<rparr>"

definition demo_chunk :: "nat \<Rightarrow> up_op" where
  "demo_chunk i = Chunk (Some \<lparr>chunk_id = i, chunk_size = 10\<rparr>)"

definition demo_ops :: "(up_env \<times> up_op) list" where
  "demo_ops = map (Pair demo_env)
     [demo_chunk 1, demo_chunk 2, AttemptFail (js ''x''), BackoffDone, AttemptOk, demo_chunk 3]"

lemma demo_ops_room: "run_ok up_step has_room demo_ops (up_init (js ''camera''))"
  by code_simp


section \<open>Overflow\<close>

text \<open>
  An overflow during an attempt loses a chunk that was never sent. If the buffer is full
  and the first chunk's attempt is under way, a new chunk evicts that first chunk from the
  buffer; when the attempt then succeeds, \<open>pending.shift()\<close> removes the chunk
  after it, for which no request was made and no warning naming it is queued.
\<close>

lemma overflow_loses_unsent_chunk:
  assumes "up_inv u" and "drain_k u = AwaitAttempt it" and "pending u = it # lost # next # rest"
    and "length (pending u) = RETRY_BUFFER_MAX" and "accepts E b"
  shows "let u' = fold up_step [(E, Chunk b), (E, AttemptOk)] u
         in map mySeq (pending u') = map mySeq (next # rest) @ [seq u]
            \<and> map rq_seq (requests u') = map rq_seq (requests u) @ [mySeq next]
            \<and> warnings u' = warnings u @ [warn_full u]
            \<and> mySeq lost \<noteq> mySeq next"
proof -
  have w: "working u" and ne: "mySeq lost < mySeq next"
    using assms(1-3) by (auto simp: up_inv_def)
  obtain c where b: "b = Some c" using assms(5) by (cases b) (auto simp: accepts_def)
  show ?thesis
    using assms w ne b
    by (auto simp: accepts_upload make_room_def shift_def push_chunk_def drain_def attempt_ok_def
        drain_loop_def attempt_request_def Let_def)
qed

lemma full_buffer:
  defines "u \<equiv> fold up_step (map (\<lambda>i. (demo_env, demo_chunk i)) [0 ..< 16]) (up_init (js ''camera''))"
  shows "map mySeq (pending u) = [0 ..< 16]" "requests u \<noteq> [] \<and> map rq_seq (requests u) = [0]"
    "seq u = 16" "drain_k u = AwaitAttempt (hd (pending u))"
  unfolding u_def by code_simp+

lemma overflow_loses_unsent_chunk_witness:
  "let u = fold up_step (map (\<lambda>i. (demo_env, demo_chunk i)) [0 ..< 16]) (up_init (js ''camera''));
       u' = fold up_step [(demo_env, demo_chunk 16), (demo_env, AttemptOk)] u
   in map mySeq (pending u') = [2 ..< 17] \<and> map rq_seq (requests u') = [0, 2]
      \<and> warnings u' = warnings u @ [warn_full u]"
proof -
  define u where
    "u = fold up_step (map (\<lambda>i. (demo_env, demo_chunk i)) [0 ..< 16]) (up_init (js ''camera''))"
  note full = full_buffer [folded u_def]
  have inv: "up_inv u" unfolding u_def by (rule upm.run_inv) simp
  have len: "length (pending u) = 16" using arg_cong [OF full(1), of length] by simp
  obtain a lost nxt rest where p: "pending u = a # lost # nxt # rest"
    using len by (cases "pending u" rule: remdups_adj.cases; cases "tl (tl (pending u))") auto
  have seqs: "mySeq a = 0" "mySeq lost = 1" "mySeq nxt = 2" "map mySeq rest = [3 ..< 16]"
    using full(1) p by (simp_all add: upt_rec)
  have acc: "accepts demo_env (Some \<lparr>chunk_id = 16, chunk_size = 10\<rparr>)"
    by (simp add: accepts_def demo_env_def)
  have "drain_k u = AwaitAttempt a" using full(4) p by simp
  from overflow_loses_unsent_chunk [OF inv this p _ acc] len full p seqs
  show ?thesis
    unfolding u_def [symmetric] by (simp add: demo_chunk_def Let_def upt_rec)
qed

section \<open>Progress\<close>

text \<open>
  The loop ends. \<open>up_answer ok\<close> is whatever the loop is waiting for: the answer
  of the attempt under way (success or failure), or the backoff timer. The measure counts the
  answers that can still be needed: each attempt that is left costs at most two, and an
  attempt on an evicted chunk at most two more.
\<close>

definition up_answer :: "up_env \<times> bool \<Rightarrow> uploader \<Rightarrow> uploader" where
  "up_answer Eo u = (case Eo of (E, ok) \<Rightarrow>
     (case drain_k u of
        DrainIdle \<Rightarrow> u
      | AwaitAttempt it \<Rightarrow> up_step (E, if ok then AttemptOk else AttemptFail (js ''HTTP 500'')) u
      | AwaitBackoff d \<Rightarrow> up_step (E, BackoffDone) u))"

definition left_over :: "item list \<Rightarrow> nat" where
  "left_over xs = sum_list (map (\<lambda>x. 2 * (4 - attempt x)) xs)"

definition up_measure :: "uploader \<Rightarrow> nat" where
  "up_measure u = left_over (pending u) +
     (case drain_k u of DrainIdle \<Rightarrow> 0 | AwaitBackoff d \<Rightarrow> 1
      | AwaitAttempt it \<Rightarrow> if it = hd (pending u) then 0 else 2)"

lemma left_over_Cons [simp]: "left_over (x # xs) = 2 * (4 - attempt x) + left_over xs"
  by (simp add: left_over_def)

lemma drain_loop_measure: "up_measure (drain_loop E u) = left_over (pending u)"
  by (simp add: drain_loop_def up_measure_def split: list.split)

lemma up_answer_inv: "up_inv u \<Longrightarrow> up_inv (up_answer Eo u)"
  by (auto simp: up_answer_def simp del: up_step.simps intro: up_step_inv
      split: prod.split drain_state.split)

interpretation upa: inv_machine up_answer up_inv
  by unfold_locales (rule up_answer_inv)

lemma up_answer_decreases:
  assumes inv: "up_inv u" and busy: "drain_k u \<noteq> DrainIdle"
  shows "up_measure (up_answer (E, ok) u) < up_measure u"
proof -
  obtain x xs where p: "pending u = x # xs" and x4: "attempt x < 4"
    using inv busy by (cases "pending u") (auto simp: up_inv_def split: drain_state.splits)
  show ?thesis
  proof (cases "drain_k u")
    case (AwaitAttempt it)
    let ?it' = "\<lambda>err. it\<lparr>lastError := Some err, attempt := attempt it + 1\<rparr>"
    have i4: "attempt it < 4" using inv AwaitAttempt by (simp add: up_inv_def)
    have set: "set_item (?it' err) (x # xs) = (if it = x then ?it' err # xs else x # xs)" for err
    proof (cases "it = x")
      case True
      then show ?thesis using set_item_head [OF up_inv_core [OF inv] p, of "?it' err"] p by simp
    next
      case False
      then have "mySeq it < mySeq (hd (pending u))"
        using inv AwaitAttempt p by (auto simp: up_inv_def)
      then show ?thesis using set_item_gone [OF up_inv_core [OF inv], of "?it' err"] p False by simp
    qed
    show ?thesis
      using p x4 i4 AwaitAttempt set
      by (auto simp: up_answer_def attempt_ok_def attempt_failed_def drain_loop_measure shift_def
          Let_def) (auto simp: up_measure_def)
  next
    case (AwaitBackoff d)
    then show ?thesis using p by (simp add: up_answer_def drain_loop_measure) (simp add: up_measure_def)
  qed (use busy in simp)
qed

lemma up_answers_stop:
  "up_inv u \<Longrightarrow> up_measure u \<le> length as \<Longrightarrow> drain_k (fold up_answer as u) = DrainIdle"
proof (induction as arbitrary: u)
  case Nil
  then show ?case using up_answer_decreases [of u] by fastforce
next
  case (Cons a as)
  obtain E ok where a: "a = (E, ok)" by (cases a)
  show ?case
  proof (cases "drain_k u = DrainIdle")
    case True
    have idle: "fold up_answer bs u = u" for bs
      using True by (induction bs) (auto simp: up_answer_def split: prod.split)
    from idle [of "a # as"] True show ?thesis by simp
  next
    case False
    then show ?thesis
      using Cons.IH [OF up_answer_inv [OF Cons.prems(1)], of a] Cons.prems(2)
        up_answer_decreases [OF Cons.prems(1) False, of E ok] a
      by simp
  qed
qed

lemma left_over_bound: "left_over xs \<le> 8 * length xs"
  by (induction xs) (auto simp: left_over_def)

text \<open>
  C25: the drain loop terminates. From every reachable state, after at most 130 answers
  (successes and failures in any order, and the backoff timers between them) the loop has
  stopped and nothing is waiting, so \<open>working\<close> never stays set with an idle loop.
\<close>

theorem uploader_drains:
  assumes "130 \<le> length as"
  shows "let u = fold up_answer as (fold up_step ops (up_init kind))
         in pending u = [] \<and> \<not> working u"
proof -
  let ?u = "fold up_step ops (up_init kind)"
  have inv: "up_inv ?u" by (rule upm.run_inv) simp
  have "length (pending ?u) \<le> 16" using inv by (simp add: up_inv_def)
  then have "up_measure ?u \<le> 130"
    using left_over_bound [of "pending ?u"] by (auto simp: up_measure_def split: drain_state.split)
  with assms have "drain_k (fold up_answer as ?u) = DrainIdle"
    by (intro up_answers_stop [OF inv]) simp
  moreover have "up_inv (fold up_answer as ?u)" by (rule upa.run_inv [OF inv])
  ultimately show ?thesis by (simp add: up_inv_def Let_def)
qed

theorem uploader_drains_witness:
  "let u = fold up_answer (replicate 130 (demo_env, False))
             (fold up_step demo_ops (up_init (js ''camera'')))
   in pending u = [] \<and> \<not> working u"
  by (rule uploader_drains) simp

end
