(* ===== verification/EnvCheck.thy ===== *)
theory EnvCheck
  imports JSPrelude
begin

text \<open>
  The pre-flight check for virtual machines, remote desktops and extra displays
  (\<open>web/static/js/proctor-envcheck.js\<close>). What the browser answers (the WebGL
  context, the screen) is an argument; \<open>lower\<close> is the standard library's
  \<open>toLowerCase\<close>. Every call on the WebGL context may throw, so its answers are of
  type \<open>call\<close>.
\<close>

datatype 'a call = Throws | Returns 'a

datatype env_severity = Block | Warn

section \<open>Patterns\<close>

definition PATTERNS :: "(jstr \<times> jstr \<times> env_severity) list" where
  "PATTERNS =
    [(js ''vmware'', js ''VMware'', Block),
     (js ''virtualbox'', js ''VirtualBox'', Block),
     (js ''vbox'', js ''VirtualBox'', Block),
     (js ''parallels'', js ''Parallels'', Block),
     (js ''qemu'', js ''QEMU'', Block),
     (js ''microsoft basic render'', (js ''Microsoft Basic Renderer ('' @ [0x8F6F, 0x4EF6, 0x6E32,
       0x67D3] @ js '' / RDP)''), Block),
     (js ''microsoft remote display'', (js ''Microsoft Remote Display Adapter ('' @ [0x8FDC,
       0x7A0B, 0x684C, 0x9762, 41]), Block),
     (js ''hyper-v'', js ''Hyper-V'', Block),
     (js ''llvmpipe'', (js ''llvmpipe ('' @ [0x8F6F, 0x4EF6, 0x6E32, 0x67D3, 41]), Block),
     (js ''swiftshader'', (js ''Google SwiftShader ('' @ [0x8F6F, 0x4EF6, 0x6E32, 0x67D3, 41]),
       Block),
     (js ''mesa offscreen'', (js ''Mesa Offscreen ('' @ [0x8F6F, 0x4EF6, 0x6E32, 0x67D3, 41]),
       Block),
     (js ''software rasterizer'', [0x8F6F, 0x4EF6, 0x5149, 0x6805, 0x5316, 0x5668], Block),
     (js ''citrix'', js ''Citrix Virtual Display'', Block),
     (js ''vnc'', js ''VNC'', Block),
     (js ''nomachine'', js ''NoMachine'', Block),
     (js ''xen'', (js ''Xen '' @ [0x865A, 0x62DF, 0x673A]), Block),
     (js ''headlesschrome'', js ''Headless Chrome'', Block)]"

section \<open>Probes\<close>

record webgl_probe =
  renderer :: "jstr option"
  vendor :: "jstr option"
  gl_version :: "jstr option"
  extensions :: "jstr list option"
  gl_error :: "jstr option"

text \<open>
  A WebGL context: whether the debug extension exists, its two parameters, the version and the
  list of extensions (which may be missing).
\<close>

record gl_context =
  gl_debug_ext :: "bool call"
  gl_renderer_param :: "jstr option call"
  gl_vendor_param :: "jstr option call"
  gl_version_param :: "jstr option call"
  gl_extensions :: "jstr list option call"

text \<open>\<open>v || null\<close> for a string.\<close>

definition or_null :: "jstr option \<Rightarrow> jstr option" where
  "or_null v = (case v of None \<Rightarrow> None | Some s \<Rightarrow> if s = [] then None else Some s)"

definition probe_empty :: webgl_probe where
  "probe_empty = \<lparr>renderer = None, vendor = None, gl_version = None, extensions = None,
     gl_error = None\<rparr>"

definition probe_tail :: "gl_context \<Rightarrow> webgl_probe \<Rightarrow> webgl_probe" where
  "probe_tail g out =
     (case gl_version_param g of
        Throws \<Rightarrow> out
      | Returns v \<Rightarrow>
          let out1 = out\<lparr>gl_version := or_null v\<rparr>
          in (case gl_extensions g of
                Throws \<Rightarrow> out1
              | Returns exts \<Rightarrow>
                  out1\<lparr>extensions := Some (take 8 (case exts of None \<Rightarrow> [] | Some xs \<Rightarrow> xs))\<rparr>))"

definition probeWebGL :: "gl_context option \<Rightarrow> webgl_probe" where
  "probeWebGL ctx =
     (case ctx of
        None \<Rightarrow> probe_empty\<lparr>gl_error := Some (js ''no webgl'')\<rparr>
      | Some g \<Rightarrow>
          (case gl_debug_ext g of
             Throws \<Rightarrow> probe_empty
           | Returns False \<Rightarrow> probe_tail g probe_empty
           | Returns True \<Rightarrow>
               (case gl_renderer_param g of
                  Throws \<Rightarrow> probe_empty
                | Returns r \<Rightarrow>
                    let out1 = probe_empty\<lparr>renderer := or_null r\<rparr>
                    in (case gl_vendor_param g of
                          Throws \<Rightarrow> out1
                        | Returns w \<Rightarrow> probe_tail g (out1\<lparr>vendor := or_null w\<rparr>)))))"

text \<open>The rest of the probe: recorded for the log; only \<open>is_extended\<close> is acted on.\<close>

record misc_probe =
  user_agent :: jstr
  platform :: jstr
  cores :: int
  memory_gb :: "int option"
  screen_w :: int
  screen_h :: int
  color_depth :: int
  is_extended :: bool
  has_touch :: bool

record browser_screen =
  bs_user_agent :: jstr
  bs_platform :: jstr
  bs_cores :: int
  bs_memory :: "int option"
  bs_w :: int
  bs_h :: int
  bs_color_depth :: int
  bs_is_extended :: "bool option"
  bs_touch :: bool

definition probeMisc :: "browser_screen \<Rightarrow> misc_probe" where
  "probeMisc b = \<lparr>user_agent = bs_user_agent b, platform = bs_platform b, cores = bs_cores b,
     memory_gb = (case bs_memory b of Some n \<Rightarrow> if n = 0 then None else Some n | None \<Rightarrow> None),
     screen_w = bs_w b, screen_h = bs_h b, color_depth = bs_color_depth b,
     is_extended = (case bs_is_extended b of Some x \<Rightarrow> x | None \<Rightarrow> False),
     has_touch = bs_touch b\<rparr>"

section \<open>Classification\<close>

record reason =
  rs_source :: jstr
  rs_label :: jstr
  rs_matched :: "jstr option"
  rs_severity :: env_severity

datatype confidence = Clean | Low | Medium | High

record verdict =
  blocked :: bool
  vd_confidence :: confidence
  reasons :: "reason list"

fun match_patterns ::
  "jstr \<Rightarrow> (jstr \<times> jstr \<times> env_severity) list \<Rightarrow> reason list \<times> bool \<Rightarrow> reason list \<times> bool"
where
  "match_patterns hay [] acc = acc"
| "match_patterns hay ((needle, label, sev) # ps) (rs, block) =
     (if contains_sub needle hay
      then match_patterns hay ps
             (rs @ [\<lparr>rs_source = js ''webgl'', rs_label = label, rs_matched = Some needle,
                     rs_severity = sev\<rparr>], block \<or> sev = Block)
      else match_patterns hay ps (rs, block))"

definition no_gpu_reason :: reason where
  "no_gpu_reason =
     \<lparr>rs_source = js ''webgl'',
      rs_label = ([0x672A, 0x80FD, 0x8BFB, 0x53D6, 0x663E, 0x5361, 0x4FE1, 0x606F, 40, 0x53EF,
        0x80FD, 0x4E3A, 0x865A, 0x62DF, 0x673A] @ js '' / '' @ [0x8FDC, 0x7A0B, 0x684C, 0x9762]
          @ js '' / '' @ [0x6D4F, 0x89C8, 0x5668, 0x5F02, 0x5E38, 41]),
      rs_matched = None, rs_severity = Block\<rparr>"

definition extended_reason :: reason where
  "extended_reason =
     \<lparr>rs_source = js ''multi-monitor'',
      rs_label = [0x68C0, 0x6D4B, 0x5230, 0x591A, 0x4E2A, 0x663E, 0x793A, 0x5668, 47, 0x6269,
        0x5C55, 0x5C4F, 0x3002, 0x8003, 0x8BD5, 0x671F, 0x95F4, 0x53EA, 0x5141, 0x8BB8, 0x4F7F,
          0x7528, 0x5355, 0x4E2A, 0x663E, 0x793A, 0x5668, 44, 0x8BF7, 0x62D4, 0x6389, 0x526F,
            0x5C4F, 0x540E, 0x91CD, 0x8BD5, 0x3002],
      rs_matched = None, rs_severity = Block\<rparr>"

definition confidence_of :: "bool \<Rightarrow> reason list \<Rightarrow> confidence" where
  "confidence_of block rs =
     (if block then (if length rs \<ge> 2 then High else Medium)
      else if length rs > 0 then Low else Clean)"

definition text_of :: "jstr option \<Rightarrow> jstr" where
  "text_of v = (case v of None \<Rightarrow> [] | Some s \<Rightarrow> s)"

definition hay_of :: "(jstr \<Rightarrow> jstr) \<Rightarrow> webgl_probe \<Rightarrow> jstr" where
  "hay_of lower p = lower (text_of (renderer p) @ js '' '' @ text_of (vendor p))"

definition classify :: "(jstr \<Rightarrow> jstr) \<Rightarrow> webgl_probe \<Rightarrow> misc_probe \<Rightarrow> verdict" where
  "classify lower p m =
     (let (rs1, b1) = match_patterns (hay_of lower p) PATTERNS ([], False);
          (rs2, b2) = (if text_of (renderer p) = [] \<and> text_of (vendor p) = []
                       then (rs1 @ [no_gpu_reason], True) else (rs1, b1));
          (rs3, b3) = (if is_extended m then (rs2 @ [extended_reason], True) else (rs2, b2))
      in \<lparr>blocked = b3, vd_confidence = confidence_of b3 rs3, reasons = rs3\<rparr>)"

definition run_envcheck ::
  "(jstr \<Rightarrow> jstr) \<Rightarrow> gl_context option \<Rightarrow> browser_screen \<Rightarrow> verdict \<times> webgl_probe \<times> misc_probe"
where
  "run_envcheck lower ctx b =
     (let p = probeWebGL ctx; m = probeMisc b in (classify lower p m, p, m))"

section \<open>Lemmas\<close>

definition matches :: "jstr \<Rightarrow> (jstr \<times> jstr \<times> env_severity) list" where
  "matches hay = filter (\<lambda>(needle, _, _). sublist needle hay) PATTERNS"

definition pattern_reason :: "jstr \<times> jstr \<times> env_severity \<Rightarrow> reason" where
  "pattern_reason p = (case p of (needle, label, sev) \<Rightarrow>
     \<lparr>rs_source = js ''webgl'', rs_label = label, rs_matched = Some needle,
       rs_severity = sev\<rparr>)"

lemma match_patterns_eq:
  "match_patterns hay ps (rs, b) =
     (rs @ map pattern_reason (filter (\<lambda>(n, _, _). sublist n hay) ps),
      b \<or> (\<exists>(n, l, v) \<in> set ps. sublist n hay \<and> v = Block))"
  by (induction ps arbitrary: rs b) (auto simp: contains_sub_sublist pattern_reason_def)

lemma patterns_block: "(n, l, v) \<in> set PATTERNS \<Longrightarrow> v = Block"
  by (auto simp: PATTERNS_def)

lemma match_PATTERNS:
  "match_patterns hay PATTERNS ([], False) = (map pattern_reason (matches hay),
    matches hay \<noteq> [])"
  by (auto simp: match_patterns_eq matches_def filter_empty_conv dest: patterns_block)

definition no_gpu :: "webgl_probe \<Rightarrow> bool" where
  "no_gpu p \<longleftrightarrow> text_of (renderer p) = [] \<and> text_of (vendor p) = []"

lemma classify_eq:
  "classify lower p m =
     (let rs = map pattern_reason (matches (hay_of lower p))
       @ (if no_gpu p then [no_gpu_reason] else [])
               @ (if is_extended m then [extended_reason] else [])
      in \<lparr>blocked = (rs \<noteq> []), vd_confidence = confidence_of (rs \<noteq> []) rs,
        reasons = rs\<rparr>)"
  by (auto simp: classify_def match_PATTERNS no_gpu_def Let_def)

section \<open>Properties\<close>

text \<open>
  The verdict is exact. Entry is refused exactly when some needle of the pattern table
  occurs in the lower-cased renderer and vendor strings, or neither string could be read, or a
  second display is attached; and the reasons are, in order, one per matching pattern with
  that pattern's label, then the missing GPU, then the second display.
\<close>

lemma envcheck_verdict:
  "blocked (classify lower p m) =
     ((\<exists>(needle, label, sev) \<in> set PATTERNS. sublist needle (hay_of lower p))
      \<or> text_of (renderer p) = [] \<and> text_of (vendor p) = [] \<or> is_extended m)
   \<and> reasons (classify lower p m) =
     map pattern_reason (matches (hay_of lower p))
     @ (if text_of (renderer p) = [] \<and> text_of (vendor p) = [] then [no_gpu_reason] else [])
     @ (if is_extended m then [extended_reason] else [])"
  by (auto simp: classify_eq no_gpu_def matches_def filter_empty_conv Let_def)

text \<open>
  There is no warning level. Whatever the probes return, the confidence is clean exactly when
  there is no reason, medium for one reason and high for two or more; it is never low, because
  every pattern blocks.
\<close>

lemma envcheck_confidence:
  "vd_confidence (classify lower p m) =
     (case reasons (classify lower p m) of [] \<Rightarrow> Clean | [_] \<Rightarrow> Medium | _ \<Rightarrow> High)
   \<and> blocked (classify lower p m) = (reasons (classify lower p m) \<noteq> [])
   \<and> vd_confidence (classify lower p m) \<noteq> Low"
  by (auto simp: classify_eq confidence_of_def Let_def split: list.split)

text \<open>
  A browser that hides its GPU cannot enter. If the debug extension is missing, or asking for
  it throws, or there is no WebGL at all, the check refuses entry whatever the machine is.
\<close>

lemma envcheck_needs_debug_info:
  assumes "case ctx of None \<Rightarrow> True | Some g \<Rightarrow> gl_debug_ext g \<noteq> Returns True"
  shows "blocked (fst (run_envcheck lower ctx b))
         \<and> no_gpu_reason \<in> set (reasons (fst (run_envcheck lower ctx b)))"
proof -
  have "no_gpu (probeWebGL ctx)"
    using assms by (auto simp: no_gpu_def probeWebGL_def probe_tail_def probe_empty_def text_of_def
        Let_def split: option.split call.split bool.split)
  then show ?thesis by (auto simp: run_envcheck_def classify_eq Let_def)
qed

definition demo_screen :: browser_screen where
  "demo_screen = \<lparr>bs_user_agent = js ''UA'', bs_platform = js ''Linux'', bs_cores = 8,
     bs_memory = Some 8, bs_w = 1920, bs_h = 1080, bs_color_depth = 24,
     bs_is_extended = None, bs_touch = False\<rparr>"

lemma envcheck_needs_debug_info_witness:
  "blocked (fst (run_envcheck (map ascii_lower)
     (Some \<lparr>gl_debug_ext = Returns False, gl_renderer_param = Throws,
       gl_vendor_param = Throws,
            gl_version_param = Returns (Some (js ''WebGL 1.0'')),
              gl_extensions = Returns None\<rparr>)
     demo_screen))"
  using envcheck_needs_debug_info [of "Some \<lparr>gl_debug_ext = Returns False,
      gl_renderer_param = Throws, gl_vendor_param = Throws,
      gl_version_param = Returns (Some (js ''WebGL 1.0'')), gl_extensions = Returns None\<rparr>"
      "map ascii_lower" demo_screen]
  by simp

end
