(* ===== verification/ProctorSession.thy ===== *)
theory ProctorSession
  imports ProctorMonitor EnvCheck
begin

text \<open>
  Entering the exam and losing a device (\<open>web/static/js/proctor.js\<close>, lines 233 to
  319 and 543 to 728): the recorders, \<open>ensureSession\<close>,
  \<open>bootMediaAndEnterExam\<close>, \<open>reconnectStreams\<close> and the handlers of
  ended tracks.

  These functions are asynchronous; what they await (the environment check, the server, the
  device prompts, the constructor of the recorders) is an input, and a run of one of them is
  one step, which its own guard \<open>reconnecting\<close> justifies for
  \<open>reconnectStreams\<close>. An action returns the message of a throw, if any, the new
  state and the effects in order.
\<close>

section \<open>State and effects\<close>

record media_stream =
  ms_id :: nat
  ms_tracks :: "(jstr \<times> bool) list" \<comment> \<open>the kind of each track and whether it is live\<close>

record session =
  ss_id :: "int option"
  ss_token :: "jstr option"
  ss_store :: "jstr \<rightharpoonup> jstr"
  cameraStream :: "media_stream option"
  screenStream :: "media_stream option"
  recorders :: "jstr list"
  reconnecting :: bool

datatype page_effect =
    Report jstr severity jval
  | Overlay overlay_reason
  | PostSession
  | AskCamera bool bool
  | AskScreen
  | StopRecorder jstr
  | StartRecorder jstr jstr
  | PublishLiveKit
  | ReplaceTracks
  | EnterFullscreen
  | ShowPreview
  | OpenSignaling
  | StartSnapshots
  | Fingerprint

type_synonym act = "session \<Rightarrow> jstr option \<times> session \<times> page_effect list"

definition skip :: act where "skip s = (None, s, [])"
definition throw :: "jstr \<Rightarrow> act" where "throw m s = (Some m, s, [])"
definition emit :: "page_effect \<Rightarrow> act" where "emit e s = (None, s, [e])"
definition modify :: "(session \<Rightarrow> session) \<Rightarrow> act" where "modify f s = (None,
  f s, [])"

definition seq :: "act \<Rightarrow> act \<Rightarrow> act" where
  "seq f g s =
     (case f s of
        (Some m, s1, es) \<Rightarrow> (Some m, s1, es)
      | (None, s1, es) \<Rightarrow> (case g s1 of (r, s2, fs) \<Rightarrow> (r, s2, es @ fs)))"

fun steps :: "act list \<Rightarrow> act" where
  "steps [] = skip"
| "steps (f # fs) = seq f (steps fs)"

definition only_if :: "bool \<Rightarrow> act \<Rightarrow> act" where
  "only_if b f = (if b then f else skip)"

definition try_catch :: "act \<Rightarrow> (jstr \<Rightarrow> act) \<Rightarrow> act" where
  "try_catch f h s =
     (case f s of
        (None, s1, es) \<Rightarrow> (None, s1, es)
      | (Some m, s1, es) \<Rightarrow> (case h m s1 of (r, s2, fs) \<Rightarrow> (r, s2, es @ fs)))"

definition with_finally :: "act \<Rightarrow> act \<Rightarrow> act" where
  "with_finally f g s =
     (case f s of (r, s1, es) \<Rightarrow>
        (case g s1 of (q, s2,
          fs) \<Rightarrow> ((case q of None \<Rightarrow> r | Some m \<Rightarrow> Some m), s2,
            es @ fs)))"

text \<open>A step that reads the state.\<close>

definition reading :: "(session \<Rightarrow> act) \<Rightarrow> act" where
  "reading f s = f s s"

lemmas act_defs = skip_def throw_def emit_def modify_def seq_def only_if_def try_catch_def with_finally_def
  reading_def

section \<open>Inputs\<close>

text \<open>The server's answer to the session request: status, text, and the parsed body.\<close>

record session_answer =
  sa_status :: int
  sa_text :: jstr
  sa_json :: "(int \<times> jstr) reply"

text \<open>
  The environment: the check (absent, throwing, or its verdict), the server, the two prompts,
  whether constructing each recorder throws, the supported recorder types, an open live peer,
  and the values of global names.
\<close>

record page_env =
  pe_check :: "verdict reply option"
  pe_server :: "session_answer reply"
  pe_camera :: "media_stream reply"
  pe_screen :: "media_stream reply"
  pe_camera_rec :: "jstr option"
  pe_screen_rec :: "jstr option"
  pe_supported :: "jstr \<Rightarrow> bool"
  pe_peer_open :: bool
  pe_globals :: "jstr \<rightharpoonup> jstr"

section \<open>Recorders\<close>

definition pickMime :: "(jstr \<Rightarrow> bool) \<Rightarrow> jstr list \<Rightarrow> jstr" where
  "pickMime supported ms = (case find supported ms of None \<Rightarrow> [] | Some m \<Rightarrow> m)"

definition CAM_MIMES :: "jstr list" where
  "CAM_MIMES = [(js ''video/webm;codecs=vp9,opus''), (js ''video/webm;codecs=vp8,opus''),
    (js ''video/webm'')]"

definition SCR_MIMES :: "jstr list" where
  "SCR_MIMES = [(js ''video/webm;codecs=vp9''), (js ''video/webm;codecs=vp8''),
    (js ''video/webm'')]"

definition start_recorder :: "jstr option \<Rightarrow> jstr \<Rightarrow> jstr \<Rightarrow> act" where
  "start_recorder ctor kind mime =
     (case ctor of
        Some m \<Rightarrow> throw m
      | None \<Rightarrow> seq (emit (StartRecorder kind mime)) (modify (\<lambda>s. s\<lparr>recorders := recorders s @ [kind]\<rparr>)))"

definition startRecorders ::
  "proctor_cfg \<Rightarrow> page_env \<Rightarrow> media_stream option \<Rightarrow> media_stream option \<Rightarrow> act"
where
  "startRecorders C E cam scr =
     steps [only_if (cam \<noteq> None \<and> record_camera C)
              (start_recorder (pe_camera_rec E) (js ''camera'') (pickMime (pe_supported E) CAM_MIMES)),
            only_if (scr \<noteq> None \<and> record_screen C)
              (start_recorder (pe_screen_rec E) (js ''screen'') (pickMime (pe_supported E) SCR_MIMES))]"

section \<open>Session\<close>

definition env_failed :: "jstr list \<Rightarrow> jstr" where
  "env_failed labels = [0x73AF, 0x5883, 0x68C0, 0x6D4B, 0x672A, 0x901A, 0x8FC7, 58]
    @ join_with (js ''; '') labels
     @ [32, 0x2014, 32, 0x8BF7, 0x5728, 0x7269, 0x7406, 0x673A, 40, 0x975E, 0x865A, 0x62DF, 0x673A,
       47, 0x8FDC, 0x7A0B, 0x684C, 0x9762, 41, 0x4E0A, 0x53C2, 0x52A0, 0x8003, 0x8BD5]"

definition check_env :: "verdict reply option \<Rightarrow> act" where
  "check_env chk =
     (case chk of
        None \<Rightarrow> skip
      | Some (Rejects m) \<Rightarrow> throw (env_failed [([0x73AF, 0x5883, 0x68C0, 0x6D4B, 0x5F02,
        0x5E38] @ js '': '') @ m])
      | Some (Resolves v) \<Rightarrow> if blocked v then throw (env_failed (map rs_label (reasons v))) else skip)"

definition adopt_session :: "int \<Rightarrow> jstr \<Rightarrow> act" where
  "adopt_session sid tok =
     modify (\<lambda>s. s\<lparr>ss_id := Some sid, ss_token := Some tok,
                   ss_store := (ss_store s)(tokenKey sid \<mapsto> tok)\<rparr>)"

definition create_session :: "session_answer reply \<Rightarrow> act" where
  "create_session a =
     seq (emit PostSession)
       (case a of
          Rejects m \<Rightarrow> throw m
        | Resolves r \<Rightarrow>
            if \<not> http_ok (sa_status r)
            then throw (([0x521B, 0x5EFA, 0x76D1, 0x8003, 0x4F1A, 0x8BDD, 0x5931, 0x8D25]
              @ js '': HTTP '') @ num_str (sa_status r) @ [32] @ take 200 (sa_text r))
            else (case sa_json r of Rejects m \<Rightarrow> throw m | Resolves (sid,
              tok) \<Rightarrow> adopt_session sid tok))"

definition ensureSession :: "page_env \<Rightarrow> act" where
  "ensureSession E =
     reading (\<lambda>s. if ss_id s \<noteq> None \<and> ss_token s \<noteq> None \<and> ss_token s \<noteq> Some [] then skip
                  else seq (check_env (pe_check E)) (create_session (pe_server E)))"

section \<open>Entering the exam\<close>

definition wantsCamera :: "proctor_cfg \<Rightarrow> bool" where
  "wantsCamera C = (require_camera C \<or> record_camera C)"

definition wantsScreen :: "proctor_cfg \<Rightarrow> bool" where
  "wantsScreen C = (require_screen C \<or> record_screen C)"

definition ask_camera :: "bool \<Rightarrow> bool \<Rightarrow> media_stream reply \<Rightarrow> act" where
  "ask_camera video audio a =
     seq (emit (AskCamera video audio))
       (case a of Rejects m \<Rightarrow> throw m | Resolves st \<Rightarrow> modify (\<lambda>s. s\<lparr>cameraStream := Some st\<rparr>))"

definition ask_screen :: "media_stream reply \<Rightarrow> act" where
  "ask_screen a =
     seq (emit AskScreen)
       (case a of Rejects m \<Rightarrow> throw m | Resolves st \<Rightarrow> modify (\<lambda>s. s\<lparr>screenStream := Some st\<rparr>))"

definition has_video :: "media_stream option \<Rightarrow> bool" where
  "has_video st = (case st of None \<Rightarrow> False | Some m \<Rightarrow> list_ex (\<lambda>t. fst t = (js ''video'')) (ms_tracks m))"

definition bootMediaAndEnterExam :: "proctor_cfg \<Rightarrow> page_env \<Rightarrow> act" where
  "bootMediaAndEnterExam C E =
     steps [ensureSession E,
            only_if (wantsCamera C \<or> require_mic C)
              (ask_camera (wantsCamera C) (require_mic C) (pe_camera E)),
            only_if (wantsScreen C) (ask_screen (pe_screen E)),
            reading (\<lambda>s. startRecorders C E (cameraStream s) (screenStream s)),
            emit PublishLiveKit,
            only_if (fullscreen_required C) (emit EnterFullscreen),
            reading (\<lambda>s. only_if (has_video (cameraStream s)) (emit ShowPreview)),
            emit OpenSignaling, emit StartSnapshots, emit Fingerprint]"

section \<open>Losing a device\<close>

definition client_error :: "(jstr \<times> jval) list \<Rightarrow> act" where
  "client_error kvs = emit (Report (js ''client_error'') SevViolation (JObj kvs))"

text \<open>
  The name \<open>TOKEN_KEY\<close> is declared nowhere in the script, so it is looked up
  among the globals; a missing one is a \<open>ReferenceError\<close>.
\<close>

definition store_token_key :: "page_env \<Rightarrow> jstr \<Rightarrow> act" where
  "store_token_key E tok =
     (case pe_globals E (js ''TOKEN_KEY'') of
        None \<Rightarrow> throw (js ''TOKEN_KEY is not defined'')
      | Some k \<Rightarrow> modify (\<lambda>s. s\<lparr>ss_store := (ss_store s)(k \<mapsto> tok)\<rparr>))"

definition refresh_session :: "page_env \<Rightarrow> act" where
  "refresh_session E =
     seq (emit PostSession)
       (case pe_server E of
          Rejects m \<Rightarrow> throw m
        | Resolves r \<Rightarrow>
            if \<not> http_ok (sa_status r) then throw ((js ''HTTP '') @ num_str (sa_status r))
            else (case sa_json r of
                    Rejects m \<Rightarrow> throw m
                  | Resolves (sid, tok) \<Rightarrow>
                      seq (modify (\<lambda>s. s\<lparr>ss_token := Some tok\<rparr>)) (store_token_key E tok)))"

definition stop_recorders :: act where
  "stop_recorders =
     reading (\<lambda>s. seq (steps (map (\<lambda>k. emit (StopRecorder k)) (recorders s)))
                      (modify (\<lambda>s. s\<lparr>recorders := []\<rparr>)))"

definition reacquire_camera :: "proctor_cfg \<Rightarrow> page_env \<Rightarrow> act" where
  "reacquire_camera C E =
     seq (modify (\<lambda>s. s\<lparr>cameraStream := None\<rparr>))
       (only_if (require_camera C \<or> record_camera C)
          (try_catch (ask_camera (require_camera C) (require_mic C) (pe_camera E))
             (\<lambda>m. client_error [((js ''kind''), JStr (js ''camera'')),
                                ((js ''message''), JStr ((js ''reacquire failed: '') @ m))])))"

definition reacquire_screen :: "proctor_cfg \<Rightarrow> page_env \<Rightarrow> act" where
  "reacquire_screen C E =
     seq (modify (\<lambda>s. s\<lparr>screenStream := None\<rparr>))
       (only_if (require_screen C \<or> record_screen C)
          (try_catch (ask_screen (pe_screen E))
             (\<lambda>m. client_error [((js ''kind''), JStr (js ''screen'')),
                                ((js ''message''), JStr ((js ''reacquire failed: '') @ m))])))"

definition reconnect_body :: "proctor_cfg \<Rightarrow> page_env \<Rightarrow> bool \<Rightarrow> bool \<Rightarrow> act" where
  "reconnect_body C E needScreen needCamera =
     steps [refresh_session E,
            stop_recorders,
            only_if needCamera (reacquire_camera C E),
            only_if needScreen (reacquire_screen C E),
            reading (\<lambda>s. startRecorders C E (cameraStream s) (screenStream s)),
            emit PublishLiveKit,
            only_if (pe_peer_open E) (emit ReplaceTracks)]"

definition reconnectStreams :: "proctor_cfg \<Rightarrow> page_env \<Rightarrow> bool \<Rightarrow> bool \<Rightarrow> act" where
  "reconnectStreams C E needScreen needCamera =
     reading (\<lambda>s. if reconnecting s then skip
       else seq (modify (\<lambda>s. s\<lparr>reconnecting := True\<rparr>))
              (with_finally
                 (try_catch (reconnect_body C E needScreen needCamera)
                    (\<lambda>m. client_error [((js ''message''),
                      JStr ((js ''reconnect failed: '') @ m))]))
                 (modify (\<lambda>s. s\<lparr>reconnecting := False\<rparr>))))"

definition rebootScreen :: "proctor_cfg \<Rightarrow> page_env \<Rightarrow> act" where
  "rebootScreen C E = reconnectStreams C E True False"

text \<open>
  The listeners for the end of a track of the stream that \<open>startRecorders\<close> was
  given. The check after the reconnection reads that parameter, not the page's stream.
\<close>

definition screen_track_ended :: act where
  "screen_track_ended =
     seq (emit (Report (js ''screen_share_stopped'') SevViolation JNull)) (emit (Overlay ScreenStopped))"

definition live_video :: "media_stream option \<Rightarrow> bool" where
  "live_video st =
     (case st of None \<Rightarrow> False | Some m \<Rightarrow> list_ex (\<lambda>t. fst t = (js ''video'') \<and> snd t) (ms_tracks m))"

definition camera_track_ended ::
  "proctor_cfg \<Rightarrow> page_env \<Rightarrow> media_stream option \<Rightarrow> jstr \<Rightarrow> act"
where
  "camera_track_ended C E param kind =
     steps [emit (Report (if kind = (js ''audio'') then (js ''mic_track_ended'') else (js ''camera_track_ended''))
                    SevWarning JNull),
            reconnectStreams C E False True,
            only_if (\<not> live_video param \<and> require_camera C) (emit (Overlay CameraStopped))]"

section \<open>Properties\<close>

definition outcome_of :: "'a \<times> 'b \<times> 'c \<Rightarrow> 'a" where "outcome_of r = fst r"
definition state_of :: "'a \<times> 'b \<times> 'c \<Rightarrow> 'b" where "state_of r = fst (snd r)"
definition effects_of :: "'a \<times> 'b \<times> 'c \<Rightarrow> 'c" where "effects_of r = snd (snd r)"

lemmas result_defs = outcome_of_def state_of_def effects_of_def

text \<open>The outcome, state and effects of each combinator.\<close>

lemma seq_results:
  "outcome_of (seq f g s) = (if outcome_of (f s) = None then outcome_of (g (state_of (f s)))
                             else outcome_of (f s))"
  "state_of (seq f g s) = (if outcome_of (f s) = None then state_of (g (state_of (f s)))
                           else state_of (f s))"
  "effects_of (seq f g s) = (if outcome_of (f s) = None
                             then effects_of (f s) @ effects_of (g (state_of (f s)))
                             else effects_of (f s))"
  by (auto simp: seq_def result_defs split: prod.split option.split)

lemma leaf_results:
  "outcome_of (skip s) = None" "state_of (skip s) = s" "effects_of (skip s) = []"
  "outcome_of (throw m s) = Some m" "state_of (throw m s) = s" "effects_of (throw m s) = []"
  "outcome_of (emit e s) = None" "state_of (emit e s) = s" "effects_of (emit e s) = [e]"
  "outcome_of (modify h s) = None" "state_of (modify h s) = h s" "effects_of (modify h s) = []"
  by (simp_all add: result_defs act_defs)

lemmas act_results = seq_results leaf_results

text \<open>Actions that never throw, and actions whose effects all satisfy a predicate.\<close>

definition total_act :: "act \<Rightarrow> bool" where
  "total_act f \<longleftrightarrow> (\<forall>s. outcome_of (f s) = None)"

definition emits :: "(page_effect \<Rightarrow> bool) \<Rightarrow> act \<Rightarrow> bool" where
  "emits P f \<longleftrightarrow> (\<forall>s. list_all P (effects_of (f s)))"

lemma total_actD: "total_act f \<Longrightarrow> outcome_of (f s) = None"
  by (simp add: total_act_def)

lemma emitsD: "emits P f \<Longrightarrow> e \<in> set (effects_of (f s)) \<Longrightarrow> P e"
  by (auto simp: emits_def list_all_iff)

named_theorems act_rules \<open>compositional rules for actions\<close>

lemma emits_leaf [act_rules]: "emits P skip" "emits P (throw m)" "emits P (modify h)"
  by (simp_all add: emits_def act_results)

lemma emits_emit [act_rules]: "P e \<Longrightarrow> emits P (emit e)"
  by (simp add: emits_def act_results)

lemma emits_seq [act_rules]: "emits P f \<Longrightarrow> emits P g \<Longrightarrow> emits P (seq f g)"
  by (simp add: emits_def act_results)

lemma emits_steps [act_rules]: "list_all (emits P) fs \<Longrightarrow> emits P (steps fs)"
  by (induction fs) (simp_all add: act_rules)

lemma emits_only_if [act_rules]: "(b \<Longrightarrow> emits P f) \<Longrightarrow> emits P (only_if b f)"
  by (simp add: only_if_def act_rules)

lemma emits_reading [act_rules]: "(\<And>s. emits P (f s)) \<Longrightarrow> emits P (reading f)"
  by (simp add: emits_def reading_def)

lemma emits_try [act_rules]: "emits P f \<Longrightarrow> (\<And>m. emits P (h m)) \<Longrightarrow> emits P (try_catch f h)"
  by (auto simp: emits_def try_catch_def result_defs split: prod.split option.split)
     (metis list_all_append fst_conv snd_conv)+

lemma emits_finally [act_rules]: "emits P f \<Longrightarrow> emits P g \<Longrightarrow> emits P (with_finally f g)"
  by (auto simp: emits_def with_finally_def result_defs split: prod.split option.split)
     (metis list_all_append fst_conv snd_conv)+

lemma total_leaf [act_rules]: "total_act skip" "total_act (emit e)" "total_act (modify h)"
  by (simp_all add: total_act_def act_results)

lemma total_seq [act_rules]: "total_act f \<Longrightarrow> total_act g \<Longrightarrow> total_act (seq f g)"
  by (simp add: total_act_def act_results)

lemma total_reading [act_rules]: "(\<And>s. total_act (f s)) \<Longrightarrow> total_act (reading f)"
  by (simp add: total_act_def reading_def)

lemma total_try [act_rules]: "(\<And>m. total_act (h m)) \<Longrightarrow> total_act (try_catch f h)"
  by (auto simp: total_act_def try_catch_def outcome_of_def split: prod.split option.split)
     (metis fst_conv)

lemma total_finally [act_rules]: "total_act f \<Longrightarrow> total_act g \<Longrightarrow> total_act (with_finally f g)"
  by (simp add: total_act_def with_finally_def outcome_of_def split: prod.split option.split)
     (metis fst_conv option.distinct(1))

lemma total_reconnect: "total_act (reconnectStreams C E sc ca)"
  unfolding reconnectStreams_def client_error_def
  by (auto intro!: act_rules split: if_splits)

fun not_overlay :: "page_effect \<Rightarrow> bool" where
  "not_overlay (Overlay _) = False"
| "not_overlay _ = True"

lemma recorders_no_overlay [act_rules]: "emits not_overlay (startRecorders C E cam scr)"
  unfolding startRecorders_def start_recorder_def
  by (auto intro!: act_rules split: option.splits)

lemma ask_no_overlay [act_rules]:
  "emits not_overlay (ask_camera v a r)" "emits not_overlay (ask_screen r)"
  unfolding ask_camera_def ask_screen_def by (auto intro!: act_rules split: reply.splits)

lemma client_error_no_overlay [act_rules]: "emits not_overlay (client_error kvs)"
  unfolding client_error_def by (auto intro!: act_rules)

lemma reacquire_no_overlay [act_rules]:
  "emits not_overlay (reacquire_camera C E)" "emits not_overlay (reacquire_screen C E)"
  unfolding reacquire_camera_def reacquire_screen_def by (auto intro!: act_rules)

lemma refresh_no_overlay [act_rules]: "emits not_overlay (refresh_session E)"
  unfolding refresh_session_def store_token_key_def
  by (auto intro!: act_rules split: reply.splits option.splits)

lemma stop_no_overlay [act_rules]: "emits not_overlay stop_recorders"
  unfolding stop_recorders_def by (auto intro!: act_rules simp: list_all_iff)

lemma reconnect_no_overlay: "emits not_overlay (reconnectStreams C E sc ca)"
  unfolding reconnectStreams_def reconnect_body_def by (auto intro!: act_rules)

lemma refresh_fails:
  assumes "pe_globals E (js ''TOKEN_KEY'') = None"
  shows "\<exists>m t. refresh_session E s = (Some m, s\<lparr>ss_token := t\<rparr>,
    [PostSession])"
proof -
  have "\<exists>t. s = s\<lparr>ss_token := t\<rparr>" by (rule exI [of _ "ss_token s"]) simp
  then show ?thesis
    using assms
    by (auto simp: refresh_session_def store_token_key_def act_defs split: reply.split)
qed

text \<open>
  Reconnecting never reconnects. As long as no script defines a global
  \<open>TOKEN_KEY\<close>, whatever the server and the devices answer, a reconnection asks
  for no device, stops and starts no recorder and keeps the ended streams; it ends by
  reporting the violation \<open>client_error\<close>, and the token that the server may have
  rotated is not stored for a reload.
\<close>

lemma reconnect_never_succeeds:
  assumes "pe_globals E (js ''TOKEN_KEY'') = None" and "\<not> reconnecting s"
  shows "\<exists>m. effects_of (reconnectStreams C E needScreen needCamera s)
        = [PostSession, Report (js ''client_error'') SevViolation (JObj [((js ''message''),
          JStr ((js ''reconnect failed: '') @ m))])]
     \<and> cameraStream (state_of (reconnectStreams C E needScreen needCamera s)) = cameraStream s
     \<and> screenStream (state_of (reconnectStreams C E needScreen needCamera s)) = screenStream s
     \<and> recorders (state_of (reconnectStreams C E needScreen needCamera s)) = recorders s
     \<and> ss_store (state_of (reconnectStreams C E needScreen needCamera s)) = ss_store s
     \<and> \<not> reconnecting (state_of (reconnectStreams C E needScreen needCamera s))"
proof -
  obtain m t where "refresh_session E (s\<lparr>reconnecting := True\<rparr>)
      = (Some m, s\<lparr>reconnecting := True, ss_token := t\<rparr>, [PostSession])"
    using refresh_fails [OF assms(1)] by (metis session.update_convs(2))
  then have "reconnectStreams C E needScreen needCamera s
      = (None, s\<lparr>reconnecting := False, ss_token := t\<rparr>,
         [PostSession, Report (js ''client_error'') SevViolation (JObj [((js ''message''),
           JStr ((js ''reconnect failed: '') @ m))])])"
    using assms(2)
    by (simp add: reconnectStreams_def reconnect_body_def client_error_def act_defs del: js_simps_list)
  then show ?thesis by (simp add: result_defs del: js_simps_list)
qed

lemma camera_overlay_iff:
  "Overlay CameraStopped \<in> set (effects_of (camera_track_ended C E param kind s))
     \<longleftrightarrow> require_camera C \<and> \<not> live_video param"
proof -
  have "Overlay CameraStopped \<notin> set (effects_of (reconnectStreams C E False True t))" for t
    using emitsD [OF reconnect_no_overlay] by fastforce
  then show ?thesis
    by (auto simp: camera_track_ended_def act_results only_if_def total_actD [OF total_reconnect])
qed

text \<open>
  An environment in which the reconnection works: the server rotates the token and the camera
  can be opened.
\<close>

definition good_answer :: "int \<Rightarrow> jstr \<Rightarrow> session_answer reply" where
  "good_answer sid tok = Resolves \<lparr>sa_status = 200, sa_text = [], sa_json = Resolves (sid,
    tok)\<rparr>"

definition good_env :: "media_stream \<Rightarrow> media_stream \<Rightarrow> page_env" where
  "good_env cam scr = \<lparr>pe_check = None, pe_server = good_answer 7 [116],
    pe_camera = Resolves cam,
     pe_screen = Resolves scr, pe_camera_rec = None, pe_screen_rec = None,
     pe_supported = (\<lambda>m. True), pe_peer_open = False,
       pe_globals = [(js ''TOKEN_KEY'') \<mapsto> [107]]\<rparr>"

definition live_stream :: "nat \<Rightarrow> media_stream" where
  "live_stream i = \<lparr>ms_id = i, ms_tracks = [((js ''video''), True)]\<rparr>"

definition fresh_session :: session where
  "fresh_session = \<lparr>ss_id = None, ss_token = None, ss_store = (\<lambda>_. None),
    cameraStream = None,
     screenStream = None, recorders = [], reconnecting = False\<rparr>"

lemma good_reconnect:
  "cameraStream (state_of (camera_track_ended C (good_env (live_stream 1) (live_stream 2)) param kind
      fresh_session)) = (if require_camera C \<or> record_camera C then Some (live_stream 1) else None)"
  by (simp add: camera_track_ended_def reconnectStreams_def reconnect_body_def refresh_session_def
      store_token_key_def stop_recorders_def reacquire_camera_def reacquire_screen_def ask_camera_def
      startRecorders_def start_recorder_def good_env_def good_answer_def http_ok_def fresh_session_def
      act_defs result_defs del: js_simps_list)

lemma demo_cfg_live:
  "live_video (if require_camera demo_cfg \<or> record_camera demo_cfg then Some (live_stream i) else None)"
  by (simp add: demo_cfg_def live_video_def live_stream_def)

text \<open>
  The overlay of a lost camera does not depend on the reconnection. When a camera or
  microphone track ends, the page ends up behind the overlay \<open>camera-stopped\<close>
  exactly if the contest requires the camera and the stream the recorders were started with
  has no live video track, whatever the reconnection obtained; so a student whose new camera
  works is locked out too.
\<close>

lemma camera_overlay_ignores_reconnect:
  "(Overlay CameraStopped \<in> set (effects_of (camera_track_ended C E param kind s))
      \<longleftrightarrow> require_camera C \<and> \<not> live_video param)
   \<and> (\<exists>E s. live_video (cameraStream (state_of (camera_track_ended demo_cfg E param kind s))))"
  by (rule conjI [OF camera_overlay_iff])
     (intro exI, subst good_reconnect, rule demo_cfg_live)

lemma reconnect_never_succeeds_witness:
  "recorders (state_of (reconnectStreams demo_cfg
      (good_env (live_stream 1) (live_stream 2)\<lparr>pe_globals := (\<lambda>_. None)\<rparr>) True True
      (fresh_session\<lparr>recorders := [(js ''camera'')]\<rparr>))) = [(js ''camera'')]"
  using reconnect_never_succeeds [of "good_env (live_stream 1) (live_stream 2)\<lparr>pe_globals := (\<lambda>_. None)\<rparr>"
      "fresh_session\<lparr>recorders := [(js ''camera'')]\<rparr>" demo_cfg True True]
  by (simp add: fresh_session_def good_env_def del: js_simps_list)

text \<open>
  What the page asks of the environment and what the server must have answered for an entry.
\<close>

definition refused :: "page_env \<Rightarrow> bool" where
  "refused E \<longleftrightarrow> (case pe_check E of None \<Rightarrow> False | Some (Rejects _) \<Rightarrow> True | Some (Resolves v) \<Rightarrow> blocked v)"

definition no_session :: "session \<Rightarrow> bool" where
  "no_session s \<longleftrightarrow> ss_id s = None \<or> ss_token s = None \<or> ss_token s = Some []"

lemma check_env_outcome: "outcome_of (check_env chk s) = None \<longleftrightarrow>
    (case chk of None \<Rightarrow> True | Some (Rejects _) \<Rightarrow> False | Some (Resolves v) \<Rightarrow> \<not> blocked v)"
  by (simp add: check_env_def act_results split: option.split reply.split)

lemma check_env_quiet [simp]: "state_of (check_env chk s) = s" "effects_of (check_env chk s) = []"
  by (simp_all add: check_env_def act_results split: option.split reply.split)

lemma check_env_refused: "outcome_of (check_env (pe_check E) s) = None \<longleftrightarrow> \<not> refused E"
  by (simp add: check_env_outcome refused_def split: option.split reply.split)

lemma create_session_ok:
  assumes "outcome_of (create_session a s) = None"
  obtains sid tok where "state_of (create_session a s)
      = s\<lparr>ss_id := Some sid, ss_token := Some tok,
        ss_store := (ss_store s)(tokenKey sid \<mapsto> tok)\<rparr>"
  using assms
  by (auto simp: create_session_def adopt_session_def act_results split: reply.splits if_splits)

lemma ensure_none: "no_session s \<Longrightarrow>
    ensureSession E s = seq (check_env (pe_check E)) (create_session (pe_server E)) s"
  by (auto simp: ensureSession_def reading_def no_session_def)

lemma boot_refused:
  assumes "no_session s" "refused E"
  shows "effects_of (bootMediaAndEnterExam C E s) = []"
    and "state_of (bootMediaAndEnterExam C E s) = s"
    and "outcome_of (bootMediaAndEnterExam C E s) \<noteq> None"
  using assms by (simp_all add: bootMediaAndEnterExam_def act_results ensure_none check_env_refused)

text \<open>How the later actions change the session, field by field.\<close>

lemma ask_camera_ok:
  assumes "outcome_of (ask_camera v a r s) = None"
  shows "\<exists>st. r = Resolves st \<and> state_of (ask_camera v a r s) = s\<lparr>cameraStream := Some st\<rparr>"
  using assms by (auto simp: ask_camera_def act_results split: reply.splits)

lemma ask_screen_ok:
  assumes "outcome_of (ask_screen r s) = None"
  shows "\<exists>st. r = Resolves st \<and> state_of (ask_screen r s) = s\<lparr>screenStream := Some st\<rparr>"
  using assms by (auto simp: ask_screen_def act_results split: reply.splits)

lemma start_recorder_ok:
  "outcome_of (start_recorder c k m s) = None \<Longrightarrow>
     state_of (start_recorder c k m s) = s\<lparr>recorders := recorders s @ [k]\<rparr>"
  by (auto simp: start_recorder_def act_results split: option.splits)

lemma startRecorders_ok:
  assumes "outcome_of (startRecorders C E cam scr s) = None"
  shows "state_of (startRecorders C E cam scr s) = s\<lparr>recorders := recorders s
      @ (if cam \<noteq> None \<and> record_camera C then [(js ''camera'')] else [])
      @ (if scr \<noteq> None \<and> record_screen C then [(js ''screen'')] else [])\<rparr>"
  using assms
  by (auto simp: startRecorders_def act_results only_if_def start_recorder_ok split: if_splits
      simp del: js_simps_list)

lemma quiet_state:
  "state_of (only_if b (emit e) s) = s" "outcome_of (only_if b (emit e) s) = None"
  by (simp_all add: only_if_def act_results)

lemma entry_devices:
  assumes "outcome_of (seq (only_if (wantsCamera C \<or> require_mic C) (ask_camera v a rc))
             (seq (only_if (wantsScreen C) (ask_screen rs)) g) s) = None"
  obtains cam scr where
    "state_of (seq (only_if (wantsCamera C \<or> require_mic C) (ask_camera v a rc))
             (seq (only_if (wantsScreen C) (ask_screen rs)) g) s)
       = state_of (g (s\<lparr>cameraStream := cam, screenStream := scr\<rparr>))"
    "outcome_of (g (s\<lparr>cameraStream := cam, screenStream := scr\<rparr>)) = None"
    "wantsCamera C \<or> require_mic C \<longrightarrow> cam \<noteq> None" "wantsScreen C \<longrightarrow> scr \<noteq> None"
proof -
  let ?f = "only_if (wantsCamera C \<or> require_mic C) (ask_camera v a rc)"
  let ?h = "only_if (wantsScreen C) (ask_screen rs)"
  have f: "outcome_of (?f s) = None" and h: "outcome_of (?h (state_of (?f s))) = None"
    and g: "outcome_of (g (state_of (?h (state_of (?f s))))) = None"
    using assms by (auto simp: act_results split: if_splits)
  have "\<exists>cam. state_of (?f s) = s\<lparr>cameraStream := cam\<rparr> \<and> (wantsCamera C \<or> require_mic C \<longrightarrow> cam \<noteq> None)"
  proof (cases "wantsCamera C \<or> require_mic C")
    case True
    then have "outcome_of (ask_camera v a rc s) = None" using f by (simp add: only_if_def)
    from ask_camera_ok [OF this] True show ?thesis by (auto simp: only_if_def)
  next
    case False
    then show ?thesis by (intro exI [of _ "cameraStream s"]) (simp add: only_if_def act_results)
  qed
  then obtain cam where cam: "state_of (?f s) = s\<lparr>cameraStream := cam\<rparr>"
    "wantsCamera C \<or> require_mic C \<longrightarrow> cam \<noteq> None" by blast
  let ?s1 = "s\<lparr>cameraStream := cam\<rparr>"
  have "\<exists>scr. state_of (?h ?s1) = ?s1\<lparr>screenStream := scr\<rparr> \<and> (wantsScreen C \<longrightarrow> scr \<noteq> None)"
  proof (cases "wantsScreen C")
    case True
    then have "outcome_of (ask_screen rs ?s1) = None" using h cam(1) by (simp add: only_if_def)
    from ask_screen_ok [OF this] True show ?thesis by (auto simp: only_if_def)
  next
    case False
    then show ?thesis by (intro exI [of _ "screenStream ?s1"]) (simp add: only_if_def act_results)
  qed
  then obtain scr where "state_of (?h ?s1) = ?s1\<lparr>screenStream := scr\<rparr>" "wantsScreen C \<longrightarrow> scr \<noteq> None"
    by blast
  then show ?thesis using that [of scr cam] cam f h g by (simp add: act_results)
qed

definition entry_tail :: "proctor_cfg \<Rightarrow> page_env \<Rightarrow> act" where
  "entry_tail C E =
     seq (reading (\<lambda>s. startRecorders C E (cameraStream s) (screenStream s)))
       (steps [emit PublishLiveKit,
               only_if (fullscreen_required C) (emit EnterFullscreen),
               reading (\<lambda>s. only_if (has_video (cameraStream s)) (emit ShowPreview)),
               emit OpenSignaling, emit StartSnapshots, emit Fingerprint])"

lemma boot_split: "bootMediaAndEnterExam C E = seq (ensureSession E)
    (seq (only_if (wantsCamera C \<or> require_mic C) (ask_camera (wantsCamera C) (require_mic C) (pe_camera E)))
      (seq (only_if (wantsScreen C) (ask_screen (pe_screen E))) (entry_tail C E)))"
  by (simp add: bootMediaAndEnterExam_def entry_tail_def)

lemma entry_tail_ok:
  assumes "outcome_of (entry_tail C E s) = None"
  shows "state_of (entry_tail C E s) = s\<lparr>recorders := recorders s
      @ (if cameraStream s \<noteq> None \<and> record_camera C then [(js ''camera'')] else [])
      @ (if screenStream s \<noteq> None \<and> record_screen C then [(js ''screen'')] else [])\<rparr>"
proof -
  have ok: "outcome_of (startRecorders C E (cameraStream s) (screenStream s) s) = None"
    using assms by (auto simp: entry_tail_def act_results reading_def split: if_splits)
  show ?thesis
    unfolding startRecorders_ok [OF ok, symmetric]
    by (simp add: entry_tail_def act_results reading_def quiet_state ok)
qed

text \<open>
  C23: nobody enters the exam unrecorded. If the environment check refuses the machine or
  throws, entry fails before the session is requested and before any device is asked for. If
  the entry succeeds, the check passed, the session's token is stored for a reload, the camera
  and the screen are there if the contest wants them, and a recorder runs for everything it
  records.
\<close>

theorem exam_entry_recorded:
  assumes "no_session s" and r_def: "r = bootMediaAndEnterExam C E s"
  shows "(refused E \<longrightarrow> outcome_of r \<noteq> None \<and> effects_of r = [] \<and> state_of r = s)
     \<and> (outcome_of r = None \<longrightarrow> \<not> refused E
          \<and> (\<exists>sid tok. ss_id (state_of r) = Some sid \<and> ss_token (state_of r) = Some tok
                \<and> ss_store (state_of r) (tokenKey sid) = Some tok)
          \<and> (wantsCamera C \<longrightarrow> cameraStream (state_of r) \<noteq> None)
          \<and> (wantsScreen C \<longrightarrow> screenStream (state_of r) \<noteq> None)
          \<and> recorders (state_of r) = recorders s
            @ (if record_camera C then [(js ''camera'')] else [])
                                          @ (if record_screen C then [(js ''screen'')] else []))"
proof (intro conjI impI)
  assume "refused E"
  then show "outcome_of r \<noteq> None" "effects_of r = []" "state_of r = s"
    using boot_refused assms by blast+
next
  assume ok: "outcome_of r = None"
  let ?p = "state_of (ensureSession E s)"
  have e: "outcome_of (ensureSession E s) = None"
    using ok by (simp add: r_def boot_split act_results split: if_splits)
  then show "\<not> refused E"
    using assms(1) by (auto simp: ensure_none act_results check_env_refused split: if_splits)
  have c: "outcome_of (create_session (pe_server E) s) = None"
    and q: "?p = state_of (create_session (pe_server E) s)"
    using e assms(1) by (auto simp: ensure_none act_results split: if_splits)
  from create_session_ok [OF c] obtain sid tok where p: "?p
      = s\<lparr>ss_id := Some sid, ss_token := Some tok,
        ss_store := (ss_store s)(tokenKey sid \<mapsto> tok)\<rparr>"
    unfolding q by blast
  let ?rest = "seq (only_if (wantsCamera C \<or> require_mic C)
        (ask_camera (wantsCamera C) (require_mic C) (pe_camera E)))
      (seq (only_if (wantsScreen C) (ask_screen (pe_screen E))) (entry_tail C E))"
  have rest: "state_of r = state_of (?rest ?p)" "outcome_of (?rest ?p) = None"
    using ok e unfolding r_def boot_split by (simp_all add: seq_results [of "ensureSession E"])
  obtain cam scr where cs: "state_of r = state_of (entry_tail C E (?p\<lparr>cameraStream := cam,
    screenStream := scr\<rparr>))"
    "outcome_of (entry_tail C E (?p\<lparr>cameraStream := cam,
      screenStream := scr\<rparr>)) = None"
    "wantsCamera C \<or> require_mic C \<longrightarrow> cam \<noteq> None" "wantsScreen C \<longrightarrow> scr \<noteq> None"
    unfolding rest(1) using entry_devices [OF rest(2)] by blast
  note fin = cs(1) [unfolded entry_tail_ok [OF cs(2)], unfolded p]
  show "\<exists>sid tok. ss_id (state_of r) = Some sid \<and> ss_token (state_of r) = Some tok
      \<and> ss_store (state_of r) (tokenKey sid) = Some tok"
    "wantsCamera C \<Longrightarrow> cameraStream (state_of r) \<noteq> None"
    "wantsScreen C \<Longrightarrow> screenStream (state_of r) \<noteq> None"
    "recorders (state_of r) = recorders s @ (if record_camera C then [(js ''camera'')] else [])
                                          @ (if record_screen C then [(js ''screen'')] else [])"
    using cs(3,4) by (auto simp: fin wantsCamera_def wantsScreen_def simp del: js_simps_list)
qed

theorem exam_entry_recorded_witness:
  "recorders (state_of (bootMediaAndEnterExam demo_cfg (good_env (live_stream 1) (live_stream 2))
      fresh_session)) = [(js ''camera''), (js ''screen'')]
   \<and> outcome_of (bootMediaAndEnterExam demo_cfg
      (good_env (live_stream 1) (live_stream 2)\<lparr>pe_check := Some (Rejects [])\<rparr>) fresh_session) \<noteq> None"
proof -
  have n: "no_session fresh_session" by (simp add: no_session_def fresh_session_def)
  have ok: "outcome_of (bootMediaAndEnterExam demo_cfg (good_env (live_stream 1) (live_stream 2))
      fresh_session) = None"
    by (simp add: boot_split entry_tail_def ensureSession_def check_env_def create_session_def
        adopt_session_def good_env_def good_answer_def http_ok_def ask_camera_def ask_screen_def
        startRecorders_def start_recorder_def act_results reading_def only_if_def demo_cfg_def
        fresh_session_def del: js_simps_list)
  have "recorders (state_of (bootMediaAndEnterExam demo_cfg (good_env (live_stream 1) (live_stream 2))
      fresh_session)) = [(js ''camera''), (js ''screen'')]"
    using exam_entry_recorded [OF n refl, of "good_env (live_stream 1) (live_stream 2)" demo_cfg] ok
    by (simp add: demo_cfg_def fresh_session_def del: js_simps_list)
  moreover have "outcome_of (bootMediaAndEnterExam demo_cfg
      (good_env (live_stream 1) (live_stream 2)\<lparr>pe_check := Some (Rejects [])\<rparr>) fresh_session) \<noteq> None"
    using exam_entry_recorded [OF n refl, of
        "good_env (live_stream 1) (live_stream 2)\<lparr>pe_check := Some (Rejects [])\<rparr>" demo_cfg]
    by (simp add: refused_def)
  ultimately show ?thesis by blast
qed

end
