(* ===== verification/ClangdWorker.thy ===== *)
theory ClangdWorker
  imports JSPrelude
begin

text \<open>
  The worker that runs clangd in the browser
  (\<open>web/static/lib/clangd/clangd-worker.js\<close>): the byte scanner that cuts clangd's
  output into JSON objects, the standard input that feeds it the framed messages of the
  editor, the download loop and the boot sequence.

  \<open>JSON.parse\<close>, \<open>TextDecoder\<close> and \<open>TextEncoder\<close> are
  arguments where a definition needs them; clangd itself (\<open>clangd.js\<close>,
  \<open>clangd.wasm\<close>) is represented by what it answers.
\<close>

section \<open>The JSON scanner\<close>

definition QUOT :: nat where "QUOT = 34"
definition LBRACE :: nat where "LBRACE = 123"
definition RBRACE :: nat where "RBRACE = 125"
definition BACKSLASH :: nat where "BACKSLASH = 92"

lemmas byte_defs [simp] = QUOT_def LBRACE_def RBRACE_def BACKSLASH_def

record json_stream =
  inJson :: bool
  rawText :: "nat list"
  unbalancedBraces :: int
  inString :: bool
  inEscape :: int

definition json_stream_init :: json_stream where
  "json_stream_init = \<lparr>inJson = False, rawText = [], unbalancedBraces = 0, inString = False,
     inEscape = 0\<rparr>"

text \<open>\<open>JsonStream.insert\<close>: the new state and, when an object is complete, its bytes.\<close>

definition insert_in_string :: "nat \<Rightarrow> json_stream \<Rightarrow> json_stream" where
  "insert_in_string c s =
     (if inEscape s \<noteq> 0
      then (let s1 = (if c = 75 then s\<lparr>inEscape := inEscape s + 4\<rparr> else s)
            in s1\<lparr>inEscape := inEscape s1 - 1\<rparr>)
      else if c = BACKSLASH then s\<lparr>inEscape := 1\<rparr>
      else if c = QUOT then s\<lparr>inString := False\<rparr>
      else s)"

definition insert_outside :: "nat \<Rightarrow> json_stream \<Rightarrow> json_stream \<times> nat list option" where
  "insert_outside c s =
     (if c = LBRACE then (s\<lparr>unbalancedBraces := unbalancedBraces s + 1\<rparr>, None)
      else if c = RBRACE
      then (let s1 = s\<lparr>unbalancedBraces := unbalancedBraces s - 1\<rparr>
            in if unbalancedBraces s1 = 0 then (s1\<lparr>inJson := False\<rparr>, Some (rawText s1))
               else (s1, None))
      else if c = QUOT then (s\<lparr>inString := True\<rparr>, None)
      else (s, None))"

definition json_insert :: "nat \<Rightarrow> json_stream \<Rightarrow> json_stream \<times> nat list option" where
  "json_insert c s =
     (let s1 = (if \<not> inJson s \<and> c = LBRACE then s\<lparr>inJson := True, rawText := []\<rparr> else s)
      in if \<not> inJson s1 then (s1, None)
         else let s2 = s1\<lparr>rawText := rawText s1 @ [c]\<rparr>
              in if inString s2 then (insert_in_string c s2, None) else insert_outside c s2)"

text \<open>The objects that a stream of bytes yields, and the state that is left.\<close>

fun json_feed ::
  "(nat \<Rightarrow> json_stream \<Rightarrow> json_stream \<times> nat list option) \<Rightarrow> nat list \<Rightarrow> json_stream
     \<Rightarrow> json_stream \<times> nat list list"
where
  "json_feed ins [] s = (s, [])"
| "json_feed ins (c # cs) s =
     (let (s1, r) = ins c s; (s2, rs) = json_feed ins cs s1
      in (s2, (case r of None \<Rightarrow> rs | Some x \<Rightarrow> x # rs)))"

text \<open>\<open>stdout\<close>: a complete object is decoded, parsed and posted; a parse error is swallowed.\<close>

definition worker_stdout ::
  "(nat list \<Rightarrow> jstr) \<Rightarrow> (jstr \<Rightarrow> jval option) \<Rightarrow> nat \<Rightarrow> json_stream \<Rightarrow> json_stream \<times> jval list"
where
  "worker_stdout decode parse c s =
     (let (s1, r) = json_insert c s
      in (s1, (case r of None \<Rightarrow> []
               | Some bytes \<Rightarrow> (case parse (decode bytes) of None \<Rightarrow> [] | Some v \<Rightarrow> [v]))))"

section \<open>Well-formed output\<close>

text \<open>
  What clangd writes: objects, as far as braces and strings go. Between objects there may be
  anything without an opening brace (the headers). \<open>SEsc c\<close> is a backslash and
  \<open>c\<close>; JSON has no escape \<open>\K\<close>.
\<close>

datatype schar = SPlain nat | SEsc nat

datatype piece = Plain nat | Quoted "schar list" | Obj "piece list"

fun schar_ok :: "schar \<Rightarrow> bool" where
  "schar_ok (SPlain c) = (c \<noteq> 34 \<and> c \<noteq> 92)"
| "schar_ok (SEsc c) = (c \<noteq> 75)"

fun schar_bytes :: "schar \<Rightarrow> nat list" where
  "schar_bytes (SPlain c) = [c]"
| "schar_bytes (SEsc c) = [92, c]"

fun piece_ok :: "piece \<Rightarrow> bool" where
  "piece_ok (Plain c) = (c \<noteq> 34 \<and> c \<noteq> 123 \<and> c \<noteq> 125)"
| "piece_ok (Quoted cs) = list_all schar_ok cs"
| "piece_ok (Obj ps) = list_all piece_ok ps"

fun piece_bytes :: "piece \<Rightarrow> nat list" where
  "piece_bytes (Plain c) = [c]"
| "piece_bytes (Quoted cs) = [34] @ concat (map schar_bytes cs) @ [34]"
| "piece_bytes (Obj ps) = [123] @ concat (map piece_bytes ps) @ [125]"

lemma json_feed_append:
  "json_feed ins (xs @ ys) s =
     (let (s1, r1) = json_feed ins xs s; (s2, r2) = json_feed ins ys s1 in (s2, r1 @ r2))"
  by (induction xs arbitrary: s) (auto simp: Let_def split: prod.splits option.splits)

text \<open>Inside an object: the scanner keeps the bytes and nothing else changes.\<close>

abbreviation inside :: "nat list \<Rightarrow> int \<Rightarrow> json_stream" where
  "inside raw n \<equiv> \<lparr>inJson = True, rawText = raw, unbalancedBraces = n, inString = False,
     inEscape = 0\<rparr>"

abbreviation in_str :: "nat list \<Rightarrow> int \<Rightarrow> json_stream" where
  "in_str raw n \<equiv> \<lparr>inJson = True, rawText = raw, unbalancedBraces = n, inString = True,
     inEscape = 0\<rparr>"

lemmas insert_defs = json_insert_def insert_in_string_def insert_outside_def Let_def

lemma feed_schar:
  "schar_ok c \<Longrightarrow> json_feed json_insert (schar_bytes c) (in_str raw n)
     = (in_str (raw @ schar_bytes c) n, [])"
  by (cases c) (auto simp: insert_defs)

lemma feed_schars:
  "list_all schar_ok cs \<Longrightarrow> json_feed json_insert (concat (map schar_bytes cs)) (in_str raw n)
     = (in_str (raw @ concat (map schar_bytes cs)) n, [])"
  by (induction cs arbitrary: raw) (auto simp: json_feed_append feed_schar)

lemma feed_quoted:
  assumes "list_all schar_ok cs"
  shows "json_feed json_insert (piece_bytes (Quoted cs)) (inside raw n)
     = (inside (raw @ piece_bytes (Quoted cs)) n, [])"
proof -
  have "json_feed json_insert [34] (inside raw n) = (in_str (raw @ [34]) n, [])"
    and "json_feed json_insert [34] (in_str r n) = (inside (r @ [34]) n, [])" for r
    by (simp_all add: insert_defs)
  with feed_schars [OF assms] show ?thesis
    by (simp only: piece_bytes.simps json_feed_append) simp
qed

definition keeps_inside :: "nat list \<Rightarrow> bool" where
  "keeps_inside bs \<longleftrightarrow>
     (\<forall>raw n. 0 < n \<longrightarrow> json_feed json_insert bs (inside raw n) = (inside (raw @ bs) n, []))"

lemma keeps_inside_concat:
  "list_all keeps_inside bss \<Longrightarrow> keeps_inside (concat bss)"
  by (induction bss) (auto simp: keeps_inside_def json_feed_append)

lemma feed_brace:
  "json_feed json_insert [123] (inside raw n) = (inside (raw @ [123]) (n + 1), [])"
  "0 < n \<Longrightarrow> json_feed json_insert [125] (inside raw (n + 1)) = (inside (raw @ [125]) n, [])"
  by (simp_all add: insert_defs)

lemma keeps_inside_piece: "piece_ok p \<Longrightarrow> keeps_inside (piece_bytes p)"
proof (induction p)
  case (Plain c)
  then show ?case by (simp add: keeps_inside_def insert_defs)
next
  case (Quoted cs)
  then show ?case using feed_quoted by (simp add: keeps_inside_def)
next
  case (Obj ps)
  then have "keeps_inside (concat (map piece_bytes ps))"
    by (intro keeps_inside_concat) (auto simp: list_all_iff)
  then have body: "json_feed json_insert (concat (map piece_bytes ps)) (inside r (n + 1))
      = (inside (r @ concat (map piece_bytes ps)) (n + 1), [])" if "0 < n" for r n
    using that by (simp add: keeps_inside_def)
  show ?case
    unfolding keeps_inside_def
    by (intro allI impI, simp only: piece_bytes.simps json_feed_append feed_brace body Let_def
        prod.case) simp
qed

text \<open>A whole object, and what the scanner does between objects.\<close>

abbreviation idle :: "nat list \<Rightarrow> json_stream" where
  "idle raw \<equiv> \<lparr>inJson = False, rawText = raw, unbalancedBraces = 0, inString = False,
     inEscape = 0\<rparr>"

lemma feed_noise:
  "123 \<notin> set bs \<Longrightarrow> json_feed json_insert bs (idle raw) = (idle raw, [])"
  by (induction bs) (auto simp: insert_defs)

lemma feed_object:
  assumes "list_all piece_ok ps"
  shows "json_feed json_insert (piece_bytes (Obj ps)) (idle raw)
     = (idle (piece_bytes (Obj ps)), [piece_bytes (Obj ps)])"
proof -
  have "keeps_inside (concat (map piece_bytes ps))"
    using assms by (intro keeps_inside_concat) (auto simp: list_all_iff keeps_inside_piece)
  moreover have "json_feed json_insert [123] (idle raw) = (inside [123] 1, [])"
    and "json_feed json_insert [125] (inside r 1) = (idle (r @ [125]), [r @ [125]])" for r
    by (simp_all add: insert_defs)
  ultimately show ?thesis
    by (simp only: piece_bytes.simps json_feed_append keeps_inside_def Let_def split_conv) simp
qed

text \<open>A stream: headers and objects in turn, and a trailing piece of header.\<close>

definition stream_bytes :: "(nat list \<times> piece list) list \<Rightarrow> nat list" where
  "stream_bytes ms = concat (map (\<lambda>(hdr, ps). hdr @ piece_bytes (Obj ps)) ms)"

definition stream_ok :: "(nat list \<times> piece list) list \<Rightarrow> bool" where
  "stream_ok ms \<longleftrightarrow> list_all (\<lambda>(hdr, ps). 123 \<notin> set hdr \<and> list_all piece_ok ps) ms"

lemma feed_stream:
  "stream_ok ms \<Longrightarrow> \<exists>raw'. json_feed json_insert (stream_bytes ms) (idle raw)
     = (idle raw', map (\<lambda>(hdr, ps). piece_bytes (Obj ps)) ms)"
proof (induction ms arbitrary: raw)
  case (Cons m ms)
  obtain hdr ps where m: "m = (hdr, ps)" by (cases m)
  from Cons.prems m have "123 \<notin> set hdr" "list_all piece_ok ps" "stream_ok ms"
    by (auto simp: stream_ok_def)
  moreover from Cons.IH [OF this(3)] obtain raw' where
    "json_feed json_insert (stream_bytes ms) (idle (piece_bytes (Obj ps)))
       = (idle raw', map (\<lambda>(hdr, ps). piece_bytes (Obj ps)) ms)"
    by blast
  moreover have "stream_bytes (m # ms) = hdr @ piece_bytes (Obj ps) @ stream_bytes ms"
    by (simp add: stream_bytes_def m)
  ultimately show ?case
    by (simp add: json_feed_append feed_noise feed_object m del: piece_bytes.simps)
qed (simp add: stream_bytes_def)

text \<open>
  C9: framing round trip. If clangd writes any sequence of headers (anything without an
  opening brace) and JSON objects, nested and with braces, quotes and escapes inside strings,
  the scanner yields exactly the bytes of these objects, in order, and is ready for the next
  one.
\<close>

theorem json_stream_roundtrip:
  assumes "stream_ok ms" and "123 \<notin> set trailer"
  shows "snd (json_feed json_insert (stream_bytes ms @ trailer) json_stream_init)
           = map (\<lambda>(hdr, ps). piece_bytes (Obj ps)) ms
         \<and> \<not> inJson (fst (json_feed json_insert (stream_bytes ms @ trailer) json_stream_init))"
proof -
  obtain raw' where "json_feed json_insert (stream_bytes ms) (idle [])
      = (idle raw', map (\<lambda>(hdr, ps). piece_bytes (Obj ps)) ms)"
    using feed_stream [OF assms(1)] by blast
  then show ?thesis
    by (simp add: json_stream_init_def json_feed_append feed_noise assms(2))
qed

definition demo_stream :: "(nat list \<times> piece list) list" where
  "demo_stream = [(js ''Content-Length: 9'', [Quoted [SPlain 125, SEsc 34], Plain 58, Obj []]),
                  ([13, 10], [Quoted [SEsc 117, SPlain 48, SPlain 48, SPlain 55, SPlain 66]])]"

theorem json_stream_roundtrip_witness:
  "snd (json_feed json_insert (stream_bytes demo_stream @ [13, 10]) json_stream_init)
   = [[123, 34, 125, 92, 34, 34, 58, 123, 125, 125],
      [123, 34, 92, 117, 48, 48, 55, 66, 34, 125]]"
proof -
  have "stream_ok demo_stream" "123 \<notin> set [13, 10 :: nat]"
    by (simp_all add: stream_ok_def demo_stream_def)
  from json_stream_roundtrip [OF this] show ?thesis by (simp add: demo_stream_def)
qed

section \<open>The escape length\<close>

text \<open>
  \<open>insert\<close> compares an escaped byte with 75, which is \<open>K\<close>, not
  \<open>u\<close> (0x75). The scanner that skips exactly one byte after a backslash is
  \<open>json_insert1\<close>; the two differ on \<open>\K\<close> only.
\<close>

definition insert_in_string1 :: "nat \<Rightarrow> json_stream \<Rightarrow> json_stream" where
  "insert_in_string1 c s =
     (if inEscape s \<noteq> 0 then s\<lparr>inEscape := inEscape s - 1\<rparr>
      else if c = BACKSLASH then s\<lparr>inEscape := 1\<rparr>
      else if c = QUOT then s\<lparr>inString := False\<rparr>
      else s)"

definition json_insert1 :: "nat \<Rightarrow> json_stream \<Rightarrow> json_stream \<times> nat list option" where
  "json_insert1 c s =
     (let s1 = (if \<not> inJson s \<and> c = LBRACE then s\<lparr>inJson := True, rawText := []\<rparr> else s)
      in if \<not> inJson s1 then (s1, None)
         else let s2 = s1\<lparr>rawText := rawText s1 @ [c]\<rparr>
              in if inString s2 then (insert_in_string1 c s2, None) else insert_outside c s2)"

lemma insert_step_eq:
  assumes "inEscape s \<in> {0, 1}" and "inEscape s = 1 \<Longrightarrow> c \<noteq> 75"
  shows "json_insert c s = json_insert1 c s"
  using assms by (auto simp: json_insert_def json_insert1_def insert_in_string_def
      insert_in_string1_def Let_def)

lemma insert1_escape:
  assumes "inEscape s \<in> {0, 1}"
  shows "inEscape (fst (json_insert1 c s)) \<in> {0, 1}"
    and "inEscape (fst (json_insert1 c s)) = 1 \<Longrightarrow> c = 92 \<or> inEscape s = 1 \<and> \<not> (inJson s \<and> inString s)"
  using assms by (auto simp: json_insert1_def insert_in_string1_def insert_outside_def Let_def
      split: if_splits)

definition esc_inv :: "json_stream \<Rightarrow> bool" where
  "esc_inv s \<longleftrightarrow> inEscape s \<in> {0, 1} \<and> (inEscape s = 1 \<longrightarrow> inJson s \<and> inString s)"

lemma esc_inv_step: "esc_inv s \<Longrightarrow> esc_inv (fst (json_insert1 c s))"
  by (auto simp: esc_inv_def json_insert1_def insert_in_string1_def insert_outside_def Let_def)

lemma feed_eq1:
  "\<lbrakk>esc_inv s; \<not> sublist [92, 75] bs; inEscape s = 1 \<longrightarrow> bs = [] \<or> hd bs \<noteq> 75\<rbrakk>
     \<Longrightarrow> json_feed json_insert bs s = json_feed json_insert1 bs s"
proof (induction bs arbitrary: s)
  case (Cons c bs)
  have eq: "json_insert c s = json_insert1 c s"
    using Cons.prems by (intro insert_step_eq) (auto simp: esc_inv_def)
  have "inEscape (fst (json_insert1 c s)) = 1 \<longrightarrow> bs = [] \<or> hd bs \<noteq> 75"
  proof
    assume "inEscape (fst (json_insert1 c s)) = 1"
    then have "c = 92"
      using insert1_escape(2) [of s c] Cons.prems(1) by (auto simp: esc_inv_def)
    then show "bs = [] \<or> hd bs \<noteq> 75"
      using Cons.prems(2) by (cases bs) (auto simp: sublist_Cons_right)
  qed
  moreover have "\<not> sublist [92, 75] bs"
    using Cons.prems(2) by (simp add: sublist_Cons_right)
  ultimately have "json_feed json_insert bs (fst (json_insert1 c s))
      = json_feed json_insert1 bs (fst (json_insert1 c s))"
    using Cons.IH esc_inv_step [OF Cons.prems(1)] by blast
  then show ?case by (cases "json_insert1 c s") (simp add: eq)
qed simp

text \<open>
  The wrong escape code is harmless on JSON. On every byte stream in which no backslash is
  followed by \<open>K\<close>, which is no JSON escape, the scanner behaves exactly as the
  one that skips one byte after a backslash; and with \<open>\K\<close> it does not: it
  swallows the closing quote.
\<close>

lemma json_escape_equivalence:
  assumes "\<not> sublist [92, 75] bs"
  shows "json_feed json_insert bs json_stream_init = json_feed json_insert1 bs json_stream_init"
  using assms by (intro feed_eq1) (auto simp: json_stream_init_def esc_inv_def)

lemma json_escape_equivalence_witness:
  "json_feed json_insert [123, 34, 92, 117, 48, 48, 55, 66, 34, 125] json_stream_init
     = json_feed json_insert1 [123, 34, 92, 117, 48, 48, 55, 66, 34, 125] json_stream_init
   \<and> snd (json_feed json_insert [123, 34, 92, 75, 34, 125] json_stream_init)
     \<noteq> snd (json_feed json_insert1 [123, 34, 92, 75, 34, 125] json_stream_init)"
proof
  show "json_feed json_insert [123, 34, 92, 117, 48, 48, 55, 66, 34, 125] json_stream_init
     = json_feed json_insert1 [123, 34, 92, 117, 48, 48, 55, 66, 34, 125] json_stream_init"
    by (rule json_escape_equivalence) (simp add: sublist_Cons_right prefix_def)
qed (simp add: insert_defs json_insert1_def insert_in_string1_def json_stream_init_def)

section \<open>Standard input\<close>

text \<open>
  \<open>TextEncoder.encode\<close>: UTF-8 of the code points of a string of UTF-16 code units
  (a lone surrogate becomes U+FFFD).
\<close>

fun utf16_points :: "jstr \<Rightarrow> nat list" where
  "utf16_points [] = []"
| "utf16_points [c] = [if 0xD800 \<le> c \<and> c \<le> 0xDFFF then 0xFFFD else c]"
| "utf16_points (c # d # r) =
     (if 0xD800 \<le> c \<and> c \<le> 0xDBFF \<and> 0xDC00 \<le> d \<and> d \<le> 0xDFFF
      then (0x10000 + (c - 0xD800) * 0x400 + (d - 0xDC00)) # utf16_points r
      else (if 0xD800 \<le> c \<and> c \<le> 0xDFFF then 0xFFFD else c) # utf16_points (d # r))"

definition utf8_point :: "nat \<Rightarrow> nat list" where
  "utf8_point p =
     (if p < 0x80 then [p]
      else if p < 0x800 then [0xC0 + p div 0x40, 0x80 + p mod 0x40]
      else if p < 0x10000 then [0xE0 + p div 0x1000, 0x80 + p div 0x40 mod 0x40, 0x80 + p mod 0x40]
      else [0xF0 + p div 0x40000, 0x80 + p div 0x1000 mod 0x40, 0x80 + p div 0x40 mod 0x40,
            0x80 + p mod 0x40])"

definition text_encode :: "jstr \<Rightarrow> nat list" where
  "text_encode s = concat (map utf8_point (utf16_points s))"

lemma text_encode_ascii: "ascii s \<Longrightarrow> text_encode s = s"
proof -
  assume a: "ascii s"
  then have "utf16_points s = s"
    by (induction s rule: utf16_points.induct) (auto simp: ascii_def)
  moreover have "concat (map utf8_point s) = s"
    using a by (induction s) (auto simp: ascii_def utf8_point_def)
  ultimately show ?thesis by (simp add: text_encode_def)
qed

text \<open>The pieces of clangd's standard input, and the bytes of the piece being read.\<close>

record stdin_state =
  stdinChunks :: "jstr list"
  currentStdinChunk :: "nat option list" \<comment> \<open>\<open>None\<close> is the \<open>null\<close> that ends a piece\<close>

definition stdin_init :: stdin_state where
  "stdin_init = \<lparr>stdinChunks = [], currentStdinChunk = []\<rparr>"

definition worker_stdin :: "stdin_state \<Rightarrow> nat option \<times> stdin_state" where
  "worker_stdin s =
     (case currentStdinChunk s of
        b # bs \<Rightarrow> (b, s\<lparr>currentStdinChunk := bs\<rparr>)
      | [] \<Rightarrow>
          (case stdinChunks s of
             [] \<Rightarrow> (None, s)
           | next # rest \<Rightarrow>
               let cur = map Some (text_encode next) @ [None]
               in (hd cur, s\<lparr>stdinChunks := rest, currentStdinChunk := tl cur\<rparr>)))"

text \<open>\<open>stdinReady\<close> waits exactly when no piece is queued.\<close>

definition stdin_waits :: "stdin_state \<Rightarrow> bool" where
  "stdin_waits s \<longleftrightarrow> stdinChunks s = []"

section \<open>Framing a message for clangd\<close>

definition hex_digit :: "nat \<Rightarrow> nat" where
  "hex_digit n = (if n < 10 then 48 + n else 87 + n)"

definition hex4 :: "nat \<Rightarrow> jstr" where
  "hex4 c = [hex_digit (c div 0x1000 mod 16), hex_digit (c div 0x100 mod 16),
             hex_digit (c div 16 mod 16), hex_digit (c mod 16)]"

definition escape_unit :: "nat \<Rightarrow> jstr" where
  "escape_unit c = (if 0x7F \<le> c then [92, 117] @ hex4 c else [c])"

definition escape_body :: "jstr \<Rightarrow> jstr" where
  "escape_body s = concat (map escape_unit s)"

definition frame_chunks :: "jstr \<Rightarrow> jstr list" where
  "frame_chunks text =
     (let body = escape_body text
      in [js ''Content-Length: '' @ nat_str (length body) @ [13, 10], [13, 10], body])"

text \<open>
  \<open>self.onmessage\<close>: control messages (anything with a truthy \<open>type\<close>)
  and what is no object are ignored. \<open>stringify\<close> is
  \<open>JSON.stringify\<close>.
\<close>

definition is_rpc :: "jval \<Rightarrow> bool" where
  "is_rpc d = (case d of JObj _ \<Rightarrow> \<not> truthy (jget (js ''type'') d) | JArr _ \<Rightarrow> True | _ \<Rightarrow> False)"

definition worker_onmessage :: "(jval \<Rightarrow> jstr) \<Rightarrow> jval \<Rightarrow> stdin_state \<Rightarrow> stdin_state" where
  "worker_onmessage stringify d s =
     (if is_rpc d then s\<lparr>stdinChunks := stdinChunks s @ frame_chunks (stringify d)\<rparr> else s)"

subsection \<open>What clangd reads\<close>

definition stdin_bytes :: "stdin_state \<Rightarrow> nat list" where
  "stdin_bytes s = map the (filter (\<lambda>b. b \<noteq> None) (currentStdinChunk s))
     @ concat (map text_encode (stdinChunks s))"

datatype stdin_op = ReadByte | Message jval

fun stdin_step :: "(jval \<Rightarrow> jstr) \<Rightarrow> stdin_op \<Rightarrow> stdin_state \<Rightarrow> stdin_state" where
  "stdin_step str ReadByte s = snd (worker_stdin s)"
| "stdin_step str (Message d) s = worker_onmessage str d s"

fun stdin_read :: "stdin_op \<Rightarrow> stdin_state \<Rightarrow> nat list" where
  "stdin_read ReadByte s = (case fst (worker_stdin s) of None \<Rightarrow> [] | Some b \<Rightarrow> [b])"
| "stdin_read (Message d) s = []"

fun stdin_framed :: "(jval \<Rightarrow> jstr) \<Rightarrow> stdin_op \<Rightarrow> stdin_state \<Rightarrow> nat list" where
  "stdin_framed str ReadByte s = []"
| "stdin_framed str (Message d) s =
     (if is_rpc d then concat (map text_encode (frame_chunks (str d))) else [])"

lemma worker_stdin_bytes:
  "stdin_read ReadByte s @ stdin_bytes (snd (worker_stdin s)) = stdin_bytes s"
proof (cases "currentStdinChunk s")
  case Nil
  then show ?thesis
    by (cases "stdinChunks s"; cases "text_encode (hd (stdinChunks s))")
      (auto simp: worker_stdin_def stdin_bytes_def Let_def comp_def)
next
  case (Cons b bs)
  then show ?thesis by (cases b) (auto simp: worker_stdin_def stdin_bytes_def)
qed

interpretation stdinq: fifo_machine "stdin_step str" "\<lambda>_. True" "\<lambda>_ _. True" stdin_bytes
    "stdin_framed str" stdin_read
proof unfold_locales
  fix s :: stdin_state and op
  show "stdin_read op s @ stdin_bytes (stdin_step str op s) = stdin_bytes s @ stdin_framed str op s"
    by (cases op) (use worker_stdin_bytes in \<open>auto simp: worker_onmessage_def stdin_bytes_def\<close>)
qed simp

lemma run_ok_True: "run_ok step (\<lambda>_ _. True) ops s"
  by (induction ops arbitrary: s) auto

text \<open>
  Clangd reads exactly what was framed. However reads and messages interleave, the bytes
  that clangd has read followed by the bytes still queued are the encodings of the framed
  messages in order: no byte is lost, repeated or reordered, and the \<open>null\<close> marks
  carry none.
\<close>

lemma stdin_bytes_in_order:
  "released (stdin_step str) stdin_read ops stdin_init
     @ stdin_bytes (fold (stdin_step str) ops stdin_init)
   = released (stdin_step str) (stdin_framed str) ops stdin_init"
  using stdinq.run_fifo [OF TrueI run_ok_True, of str ops stdin_init]
  by (simp add: stdin_init_def stdin_bytes_def)

lemma hex_digit_ascii: "n < 16 \<Longrightarrow> hex_digit n < 128"
  by (simp add: hex_digit_def)

lemma hex4_ascii: "ascii (hex4 c)"
  unfolding hex4_def ascii_def list.pred_inject by (intro conjI hex_digit_ascii mod_less_divisor) simp_all

lemma escape_unit_ascii: "ascii (escape_unit c)"
  using hex4_ascii by (simp add: escape_unit_def ascii_def)

lemma escape_body_ascii: "ascii (escape_body s)"
  using escape_unit_ascii by (auto simp: escape_body_def ascii_def list_all_iff)

lemma nat_str_ascii: "ascii (nat_str n)"
  using digits_rev_digits by (fastforce simp: nat_str_def ascii_def list_all_iff)

text \<open>
  The announced length is right. For every message text, the framed message is ASCII, so its
  bytes are \<open>Content-Length: n\<close>, a blank line and a body of exactly
  \<open>n\<close> bytes.
\<close>

lemma frame_length_exact:
  "concat (map text_encode (frame_chunks text))
     = js ''Content-Length: '' @ nat_str (length (text_encode (escape_body text)))
       @ [13, 10, 13, 10] @ text_encode (escape_body text)"
proof -
  have "ascii (js ''Content-Length: '' @ nat_str n @ [13, 10])" for n
    using nat_str_ascii by (simp add: ascii_def)
  moreover have "ascii [13, 10]" by (simp add: ascii_def)
  ultimately show ?thesis
    using escape_body_ascii [of "text"]
    by (simp add: frame_chunks_def text_encode_ascii Let_def)
qed

subsection \<open>The escapes mean the same text\<close>

definition hex_value :: "nat \<Rightarrow> nat" where
  "hex_value d = (if 48 \<le> d \<and> d \<le> 57 then d - 48 else if 97 \<le> d \<and> d \<le> 102 then d - 87
     else if 65 \<le> d \<and> d \<le> 70 then d - 55 else 0)"

text \<open>Reading the \<open>\u\<close> escapes of a JSON text; other escapes stay as they are.\<close>

fun unescape_u :: "jstr \<Rightarrow> jstr" where
  "unescape_u (c # r) =
     (if c \<noteq> 92 then c # unescape_u r
      else case r of
        [] \<Rightarrow> [92]
      | e # r1 \<Rightarrow>
          (if e \<noteq> 117 then 92 # e # unescape_u r1
           else case r1 of
             h1 # h2 # h3 # h4 # r2 \<Rightarrow>
               (hex_value h1 * 0x1000 + hex_value h2 * 0x100 + hex_value h3 * 16 + hex_value h4)
                 # unescape_u r2
           | _ \<Rightarrow> 92 # 117 # r1))"
| "unescape_u [] = []"

text \<open>
  The shape of escapes in what \<open>JSON.stringify\<close> returns: a backslash is followed
  by an ASCII character, and \<open>\u\<close> by four.
\<close>

fun escapes_ok :: "jstr \<Rightarrow> bool" where
  "escapes_ok (c # r) =
     (if c \<noteq> 92 then c < 0x10000 \<and> escapes_ok r
      else case r of
        [] \<Rightarrow> False
      | e # r1 \<Rightarrow>
          (if e \<noteq> 117 then e < 0x7F \<and> escapes_ok r1
           else case r1 of
             h1 # h2 # h3 # h4 # r2 \<Rightarrow>
               h1 < 0x7F \<and> h2 < 0x7F \<and> h3 < 0x7F \<and> h4 < 0x7F \<and> escapes_ok r2
           | _ \<Rightarrow> False))"
| "escapes_ok [] = True"

lemma hex_value_digit: "n < 16 \<Longrightarrow> hex_value (hex_digit n) = n"
  by (auto simp: hex_value_def hex_digit_def)

lemma hex4_value:
  assumes "c < 0x10000"
  shows "hex_value (hex_digit (c div 0x1000 mod 16)) * 0x1000
    + hex_value (hex_digit (c div 0x100 mod 16)) * 0x100
    + hex_value (hex_digit (c div 16 mod 16)) * 16 + hex_value (hex_digit (c mod 16)) = c"
proof -
  have "c div 256 = c div 16 div 16" "c div 4096 = c div 16 div 16 div 16"
    by (simp_all add: div_mult2_eq [symmetric])
  moreover have "x div 16 * 16 + x mod 16 = x" for x :: nat by (rule div_mult_mod_eq)
  from this [of c] this [of "c div 16"] this [of "c div 16 div 16"]
  have "c div 16 div 16 div 16 * 4096 + c div 16 div 16 mod 16 * 256 + c div 16 mod 16 * 16
      + c mod 16 = c"
    by linarith
  ultimately show ?thesis using assms by (simp add: hex_value_digit)
qed

lemma unescape_escape_unit: "c < 0x10000 \<Longrightarrow> c \<noteq> 92 \<Longrightarrow>
    unescape_u (escape_unit c @ t) = c # unescape_u t"
  using hex4_value [of c] by (simp add: escape_unit_def hex4_def)

text \<open>
  Escaping loses nothing. For every text with the escapes of
  \<open>JSON.stringify\<close>, replacing each code unit from 0x7F to 0xFFFF by its
  \<open>\u\<close> escape gives a JSON text that reads as the same text.
\<close>

lemma escape_body_roundtrip:
  assumes "escapes_ok s"
  shows "unescape_u (escape_body s) = unescape_u s"
  using assms
proof (induction s rule: escapes_ok.induct)
  case (1 c r)
  show ?case
  proof (cases "c = 92")
    case False
    then show ?thesis
      using 1 by (simp add: escape_body_def unescape_escape_unit)
  next
    case True
    with "1.prems" obtain e r1 where r: "r = e # r1" by (cases r) auto
    show ?thesis
    proof (cases "e = 117")
      case False
      then show ?thesis
        using 1 r True by (simp add: escape_body_def escape_unit_def)
    next
      case e: True
      with "1.prems" True r obtain h1 h2 h3 h4 r2 where r1: "r1 = h1 # h2 # h3 # h4 # r2"
        by (auto split: list.splits)
      then show ?thesis
        using 1 r e True by (simp add: escape_body_def escape_unit_def)
    qed
  qed
qed (simp add: escape_body_def)

lemma escape_body_roundtrip_witness:
  "unescape_u (escape_body [34, 0x4F60, 92, 34, 34]) = [34, 0x4F60, 92, 34, 34]
   \<and> escape_body [34, 0x4F60, 92, 34, 34]
     = [34, 92, 117, 52, 102, 54, 48, 92, 34, 34]"
  using escape_body_roundtrip [of "[34, 0x4F60, 92, 34, 34]"]
  by (simp add: escape_body_def escape_unit_def hex4_def hex_digit_def)

section \<open>The workspace clangd sees\<close>

definition WORKSPACE_PATH :: jstr where
  "WORKSPACE_PATH = js ''/home/web_user''"

definition FILE_PATH :: jstr where
  "FILE_PATH = js ''/home/web_user/main.cpp''"

definition FLAGS :: "jstr list" where
  "FLAGS = map js
    [''-xc++'',
     ''-std=gnu++17'',
     ''-Wall'',
     ''--target=wasm32-wasi'',
     ''-isystem/usr/include/c++/v1'',
     ''-isystem/usr/include/wasm32-wasi/c++/v1'',
     ''-isystem/usr/include'',
     ''-isystem/usr/include/wasm32-wasi'',
     ''-I/shim'',
     ''-include'',
     ''/shim/prologue.h'']"

definition STD_HEADERS :: "jstr list" where
  "STD_HEADERS = map js
    [''algorithm'', ''any'', ''array'', ''atomic'', ''bitset'', ''charconv'',
     ''chrono'', ''cmath'', ''complex'', ''condition_variable'', ''deque'',
     ''exception'', ''execution'', ''filesystem'', ''forward_list'',
     ''fstream'', ''functional'', ''future'', ''initializer_list'',
     ''iomanip'', ''ios'', ''iosfwd'', ''iostream'', ''istream'', ''iterator'',
     ''limits'', ''list'', ''locale'', ''map'', ''memory'', ''memory_resource'',
     ''mutex'', ''new'', ''numeric'', ''optional'', ''ostream'', ''queue'',
     ''random'', ''ratio'', ''regex'', ''scoped_allocator'', ''set'',
     ''shared_mutex'', ''sstream'', ''stack'', ''stdexcept'', ''streambuf'',
     ''string'', ''string_view'', ''system_error'', ''thread'', ''tuple'',
     ''type_traits'', ''typeindex'', ''typeinfo'', ''unordered_map'',
     ''unordered_set'', ''utility'', ''valarray'', ''variant'', ''vector'',
     ''cassert'', ''cctype'', ''cerrno'', ''cfenv'', ''cfloat'', ''cinttypes'',
     ''climits'', ''clocale'', ''csetjmp'', ''csignal'', ''cstdarg'',
     ''cstddef'', ''cstdint'', ''cstdio'', ''cstdlib'', ''cstring'',
     ''ctime'', ''cuchar'', ''cwchar'', ''cwctype'']"

definition shim_include :: "jstr \<Rightarrow> jstr" where
  "shim_include h = js ''#if __has_include(<'' @ h @ js ''>)'' @ [10] @ js ''#include <'' @ h @ js ''>''
     @ [10] @ js ''#endif''"

definition STDCXX_SHIM :: jstr where
  "STDCXX_SHIM = js ''#pragma once'' @ [10] @ join_with [10] (map shim_include STD_HEADERS) @ [10]"

definition prologue_lines :: "jstr list" where
  "prologue_lines =
    [js ''#include <bits/stdc++.h>'',
     js ''using namespace std;'',
     [],
     js ''// ---- LeetCode helper types (mirrors LC'' @ [39] @ js ''s implicit prelude) ----'',
     js ''#ifndef TESUTOHIME_LC_PRELUDE'',
     js ''#define TESUTOHIME_LC_PRELUDE'',
     [],
     js ''struct ListNode {'',
     js ''    int val;'',
     js ''    ListNode *next;'',
     js ''    ListNode() : val(0), next(nullptr) {}'',
     js ''    ListNode(int x) : val(x), next(nullptr) {}'',
     js ''    ListNode(int x, ListNode *next) : val(x), next(next) {}'',
     js ''};'',
     [],
     js ''struct TreeNode {'',
     js ''    int val;'',
     js ''    TreeNode *left;'',
     js ''    TreeNode *right;'',
     js ''    TreeNode() : val(0), left(nullptr), right(nullptr) {}'',
     js ''    TreeNode(int x) : val(x), left(nullptr), right(nullptr) {}'',
     js ''    TreeNode(int x, TreeNode *left_, TreeNode *right_)'',
     js ''        : val(x), left(left_), right(right_) {}'',
     js ''};'',
     [],
     js ''// LC reuses class name '' @ [96] @ js ''Node'' @ [96] @ js '' across multiple problem shapes'',
     js ''// (graph / random-pointer linked list / N-ary tree /'',
     js ''// level-next pointer). We define the graph flavour by default'',
     js ''// since it'' @ [39] @ js ''s the most common Hot-100 occurrence (#133 Clone'',
     js ''// Graph). Problems that need a different shape can shadow this'',
     js ''// with their own struct inside the .cpp file.'',
     js ''class Node {'',
     js ''public:'',
     js ''    int val;'',
     js ''    std::vector<Node*> neighbors;'',
     js ''    Node* next;'',
     js ''    Node* random;'',
     js ''    Node* left;'',
     js ''    Node* right;'',
     js ''    std::vector<Node*> children;'',
     js ''    Node() : val(0), next(nullptr), random(nullptr),'',
     js ''             left(nullptr), right(nullptr) {}'',
     js ''    Node(int _val) : val(_val), next(nullptr), random(nullptr),'',
     js ''             left(nullptr), right(nullptr) {}'',
     js ''    Node(int _val, std::vector<Node*> _neighbors)'',
     js ''        : val(_val), neighbors(_neighbors), next(nullptr),'',
     js ''          random(nullptr), left(nullptr), right(nullptr) {}'',
     js ''};'',
     [],
     js ''#endif  // TESUTOHIME_LC_PRELUDE'']"

definition PROLOGUE :: jstr where
  "PROLOGUE = concat (map (\<lambda>l. l @ [10]) prologue_lines)"

text \<open>
  The files written before clangd starts, in order. \<open>stringify\<close> is
  \<open>JSON.stringify\<close>.
\<close>

definition clangd_config :: jval where
  "clangd_config =
     JObj [(js ''CompileFlags'', JObj [(js ''Add'', JArr (map JStr FLAGS))]),
           (js ''Diagnostics'', JObj [(js ''UnusedIncludes'', JStr (js ''None'')),
                                     (js ''MissingIncludes'', JStr (js ''None''))])]"

definition workspace_files :: "(jval \<Rightarrow> jstr) \<Rightarrow> (jstr \<times> jstr) list" where
  "workspace_files stringify =
     [(FILE_PATH, []),
      (WORKSPACE_PATH @ js ''/.clangd'', stringify clangd_config),
      (js ''/shim/bits/stdc++.h'', STDCXX_SHIM),
      (js ''/shim/prologue.h'', PROLOGUE)]"

section \<open>Boot\<close>

datatype worker_msg = Progress nat nat | Stage jstr | Ready | Error jstr

text \<open>
  The download loop. A read returns a piece of the given length, or no value; it ends with
  \<open>done\<close>. \<open>full\<close> is the announced length, 0 when unknown.
\<close>

fun download :: "nat \<Rightarrow> nat \<Rightarrow> nat option list \<Rightarrow> worker_msg list" where
  "download full received [] = []"
| "download full received (None # rs) = download full received rs"
| "download full received (Some n # rs) =
     Progress (received + n) full # download full (received + n) rs"

datatype 'a answer = Fails jstr | Gives 'a

text \<open>
  What the browser and clangd's loader answer: the status of the download, its announced size
  and pieces, and whether the last read reports the end or rejects; whether
  \<open>clangd.js\<close> exports a factory; whether the module has the exports; and whether
  the first two files can be written and the main loop starts.
\<close>

record boot_answers =
  ba_fetch :: "nat answer"
  ba_size :: nat
  ba_reads :: "nat option list"
  ba_read_end :: "unit answer"
  ba_factory :: "bool answer"
  ba_module :: "bool answer"
  ba_files :: "unit answer"
  ba_main :: "unit answer"

definition stage_msg :: "string \<Rightarrow> worker_msg" where
  "stage_msg s = Stage (js s)"

text \<open>\<open>thrown\<close> turns a thrown message into what the \<open>catch\<close> block reports.\<close>

definition boot_main :: "(jstr \<Rightarrow> jstr) \<Rightarrow> boot_answers \<Rightarrow> worker_msg list" where
  "boot_main thrown a =
     stage_msg ''starting clangd''
     # (case ba_main a of Fails e \<Rightarrow> [Error (thrown e)] | Gives _ \<Rightarrow> [Ready])"

definition boot_files :: "(jstr \<Rightarrow> jstr) \<Rightarrow> boot_answers \<Rightarrow> worker_msg list" where
  "boot_files thrown a =
     stage_msg ''preparing workspace''
     # (case ba_files a of Fails e \<Rightarrow> [Error (thrown e)] | Gives _ \<Rightarrow> boot_main thrown a)"

definition boot_module :: "(jstr \<Rightarrow> jstr) \<Rightarrow> boot_answers \<Rightarrow> worker_msg list" where
  "boot_module thrown a =
     stage_msg ''instantiating wasm''
     # (case ba_module a of
          Fails e \<Rightarrow> [Error (thrown e)]
        | Gives ok \<Rightarrow> if \<not> ok then [Error (thrown (js ''clangd module missing FS/callMain exports''))]
                     else boot_files thrown a)"

definition boot_factory :: "(jstr \<Rightarrow> jstr) \<Rightarrow> boot_answers \<Rightarrow> worker_msg list" where
  "boot_factory thrown a =
     stage_msg ''importing clangd.js''
     # (case ba_factory a of
          Fails e \<Rightarrow> [Error (thrown e)]
        | Gives ok \<Rightarrow> if \<not> ok then [Error (thrown (js ''clangd.js did not export a module factory''))]
                     else boot_module thrown a)"

definition worker_boot :: "(jstr \<Rightarrow> jstr) \<Rightarrow> boot_answers \<Rightarrow> worker_msg list" where
  "worker_boot thrown a =
     stage_msg ''worker started'' # stage_msg ''fetching clangd.wasm''
     # (case ba_fetch a of
          Fails e \<Rightarrow> [Error (thrown e)]
        | Gives st \<Rightarrow>
            if \<not> (200 \<le> st \<and> st \<le> 299)
            then [Error (thrown (js ''clangd.wasm fetch failed: HTTP '' @ nat_str st))]
            else download (ba_size a) 0 (ba_reads a)
                 @ (case ba_read_end a of
                      Fails e \<Rightarrow> [Error (thrown e)] | Gives _ \<Rightarrow> boot_factory thrown a))"

definition boot_succeeds :: "boot_answers \<Rightarrow> bool" where
  "boot_succeeds a \<longleftrightarrow>
     (case ba_fetch a of Gives st \<Rightarrow> 200 \<le> st \<and> st \<le> 299 | _ \<Rightarrow> False)
     \<and> (case ba_read_end a of Gives _ \<Rightarrow> True | _ \<Rightarrow> False)
     \<and> ba_factory a = Gives True \<and> ba_module a = Gives True
     \<and> (case ba_files a of Gives _ \<Rightarrow> True | _ \<Rightarrow> False)
     \<and> (case ba_main a of Gives _ \<Rightarrow> True | _ \<Rightarrow> False)"

fun is_final :: "worker_msg \<Rightarrow> bool" where
  "is_final Ready = True"
| "is_final (Error _) = True"
| "is_final _ = False"

lemma download_not_final: "m \<in> set (download full n rs) \<Longrightarrow> \<not> is_final m"
  by (induction full n rs rule: download.induct) auto

lemma filter_download [simp]: "filter is_final (download full n rs) = []"
  by (auto simp: filter_empty_conv dest: download_not_final)

lemma stage_not_final [simp]: "\<not> is_final (stage_msg s)"
  by (simp add: stage_msg_def)

definition one_outcome :: "worker_msg list \<Rightarrow> bool \<Rightarrow> bool" where
  "one_outcome ms ok \<longleftrightarrow> ms \<noteq> [] \<and> filter is_final ms = [last ms] \<and> (last ms = Ready) = ok"

lemma one_outcome_intros [simp]:
  "one_outcome [Error e] False" "one_outcome [Ready] True"
  "one_outcome ms ok \<Longrightarrow> one_outcome (stage_msg s # ms) ok"
  "one_outcome ms ok \<Longrightarrow> one_outcome (download full n rs @ ms) ok"
  by (auto simp: one_outcome_def)

text \<open>The bytes that the progress messages report.\<close>

fun progress_values :: "worker_msg list \<Rightarrow> nat list" where
  "progress_values [] = []"
| "progress_values (Progress v t # ms) = v # progress_values ms"
| "progress_values (_ # ms) = progress_values ms"

lemma progress_download:
  "progress_values (download full n rs) = map (\<lambda>k. n + sum_list (take k [r. Some r \<leftarrow> rs]))
     [1 ..< Suc (length [r. Some r \<leftarrow> rs])]"
proof (induction full n rs rule: download.induct)
  case (3 full received n rs)
  have "[1 ..< Suc (Suc m)] = 1 # map Suc [1 ..< Suc m]" for m
    by (simp add: upt_conv_Cons map_Suc_upt del: upt_Suc)
  then show ?case using 3 by (simp add: comp_def add.assoc del: upt_Suc)
qed simp_all

text \<open>
  The boot sequence has one outcome and it comes last. Whatever the browser and the
  loader answer, the worker posts exactly one of ready and error, as its last message; it is
  ready exactly when the download succeeded to its end, the factory and the module's exports
  are there, and the workspace and the main loop did not throw.
\<close>

lemma worker_boot_outcome:
  "filter is_final (worker_boot thrown a) = [last (worker_boot thrown a)]
   \<and> (last (worker_boot thrown a) = Ready) = boot_succeeds a"
proof -
  have main: "one_outcome (boot_main thrown a) (case ba_main a of Gives _ \<Rightarrow> True | _ \<Rightarrow> False)"
    by (simp add: boot_main_def split: answer.split)
  have files: "one_outcome (boot_files thrown a)
      ((case ba_files a of Gives _ \<Rightarrow> True | _ \<Rightarrow> False)
       \<and> (case ba_main a of Gives _ \<Rightarrow> True | _ \<Rightarrow> False))"
    using main by (simp add: boot_files_def split: answer.split)
  have factory: "one_outcome (boot_factory thrown a) (ba_factory a = Gives True
      \<and> ba_module a = Gives True \<and> (case ba_files a of Gives _ \<Rightarrow> True | _ \<Rightarrow> False)
      \<and> (case ba_main a of Gives _ \<Rightarrow> True | _ \<Rightarrow> False))"
    using files by (simp add: boot_factory_def boot_module_def split: answer.split)
  have "one_outcome (worker_boot thrown a) (boot_succeeds a)"
  proof (cases "ba_fetch a")
    case (Gives st)
    then show ?thesis using factory
      by (cases "200 \<le> st \<and> st \<le> 299"; cases "ba_read_end a")
        (auto simp: worker_boot_def boot_succeeds_def simp del: js_simps_list de_Morgan_conj not_le)
  qed (simp add: worker_boot_def boot_succeeds_def)
  then show ?thesis by (simp add: one_outcome_def)
qed

section \<open>Errors outside the boot\<close>

text \<open>
  A thrown value: its properties \<open>stack\<close> and \<open>message\<close> if it has
  them, and its text. Empty properties count as absent.
\<close>

record thrown_value =
  tv_stack :: "jstr option"
  tv_message :: "jstr option"
  tv_text :: jstr

definition nonempty :: "jstr option \<Rightarrow> jstr option" where
  "nonempty x = (if x = Some [] then None else x)"

definition or_else :: "jstr option \<Rightarrow> jstr \<Rightarrow> jstr" where
  "or_else x d = (case nonempty x of Some t \<Rightarrow> t | None \<Rightarrow> d)"

text \<open>What the boot's \<open>catch\<close> block and the two listeners report.\<close>

definition thrown_text :: "thrown_value \<Rightarrow> jstr" where
  "thrown_text v = or_else (tv_stack v) (or_else (tv_message v) (tv_text v))"

definition worker_error_event :: "thrown_value \<Rightarrow> worker_msg" where
  "worker_error_event v = Error (js ''worker error: '' @ or_else (tv_message v) (tv_text v))"

definition worker_rejection :: "thrown_value \<Rightarrow> worker_msg" where
  "worker_rejection v = Error (js ''worker rejection: '' @ thrown_text v)"

lemma thrown_text_stack: "tv_stack v = Some (c # t) \<Longrightarrow> thrown_text v = c # t"
  by (simp add: thrown_text_def or_else_def nonempty_def)

end
