(* ===== verification/IdeStore.thy ===== *)
theory IdeStore
  imports JSPrelude
begin

text \<open>
  The saved code of the problem IDE (\<open>web/static/js/problem_ide.js\<close>, lines 27 to
  37 and 275 to 353): the keys in \<open>localStorage\<close>, the starter of a language, and
  loading and saving the code.

  Storage may refuse writes (quota), or every access (blocked by the browser).
\<close>

section \<open>Storage\<close>

record storage =
  sto_map :: "jstr \<Rightarrow> jstr option"
  sto_usable :: bool
  sto_accepts :: "jstr \<Rightarrow> jstr \<Rightarrow> bool"

text \<open>\<open>getItem\<close>; the code treats a throw as an absent key.\<close>

definition sto_get :: "storage \<Rightarrow> jstr \<Rightarrow> jstr option" where
  "sto_get s k = (if sto_usable s then sto_map s k else None)"

text \<open>\<open>setItem\<close>; \<open>None\<close> is a throw.\<close>

definition sto_put :: "jstr \<Rightarrow> jstr \<Rightarrow> storage \<Rightarrow> storage option" where
  "sto_put k v s =
     (if sto_usable s \<and> sto_accepts s k v then Some (s\<lparr>sto_map := (sto_map s)(k := Some v)\<rparr>)
      else None)"

interpretation sto: kv_store sto_get sto_put
  by unfold_locales (auto simp: sto_get_def sto_put_def split: if_splits)

text \<open>\<open>try { setItem(k, v) } catch (e) {}\<close>,
  and two writes under one \<open>try\<close>.\<close>

definition try_put :: "jstr \<Rightarrow> jstr \<Rightarrow> storage \<Rightarrow> storage" where
  "try_put k v s = (case sto_put k v s of None \<Rightarrow> s | Some t \<Rightarrow> t)"

definition try_put2 :: "jstr \<Rightarrow> jstr \<Rightarrow> jstr \<Rightarrow> jstr \<Rightarrow> storage \<Rightarrow> storage" where
  "try_put2 k v k' v' s =
     (case sto_put k v s of None \<Rightarrow> s | Some t \<Rightarrow> try_put k' v' t)"

section \<open>Starters\<close>

record ide_config =
  problemId :: jstr
  starterCode :: "(jstr \<times> jstr) list"

definition TEMPLATES :: "(jstr \<times> jstr) list" where
  "TEMPLATES =
    [((js ''cpp''), (js ''#include <bits/stdc++.h>'' @ [10] @ js ''using namespace std;'' @ [10,
      10] @ js ''int main() {'' @ [10] @ js ''    '' @ [10] @ js ''    return 0;'' @ [10, 125,
        10])),
     ((js ''python''), []),
     ((js ''verilog''), (js ''module answer();'' @ [10, 10] @ js ''endmodule'' @ [10])),
     ((js ''git''), [])]"

definition MONACO_LANG :: "(jstr \<times> jstr) list" where
  "MONACO_LANG =
    [((js ''cpp''), (js ''cpp'')), ((js ''python''), (js ''python'')), ((js ''verilog''),
      (js ''systemverilog'')),
     ((js ''git''), (js ''plaintext''))]"

definition monaco_lang :: "jstr \<Rightarrow> jstr" where
  "monaco_lang lang = (case map_of MONACO_LANG lang of None \<Rightarrow> (js ''plaintext'') | Some m \<Rightarrow> m)"

definition storageKey :: "ide_config \<Rightarrow> jstr \<Rightarrow> jstr" where
  "storageKey cf lang = (js ''ide_code_'') @ problemId cf @ (js ''_'') @ lang"

definition seedKey :: "ide_config \<Rightarrow> jstr \<Rightarrow> jstr" where
  "seedKey cf lang = (js ''ide_seed_'') @ problemId cf @ (js ''_'') @ lang"

definition currentStarter :: "ide_config \<Rightarrow> jstr \<Rightarrow> jstr" where
  "currentStarter cf lang =
     (case map_of (starterCode cf) lang of
        Some t \<Rightarrow> t
      | None \<Rightarrow> (case map_of TEMPLATES lang of Some t \<Rightarrow> t | None \<Rightarrow> []))"

definition STALE_MARKERS :: "jstr list" where
  "STALE_MARKERS =
    [(js ''// --- TesutoHime LeetCode prelude (auto-generated) ---''),
     (js ''# --- TesutoHime LeetCode prelude (auto-generated) ---'')]"

definition looksStaleAutoGenerated :: "jstr \<Rightarrow> bool" where
  "looksStaleAutoGenerated s \<longleftrightarrow> s \<noteq> [] \<and> list_ex (\<lambda>m. contains_sub m s) STALE_MARKERS"

section \<open>Loading and saving\<close>

definition write_starter :: "ide_config \<Rightarrow> jstr \<Rightarrow> storage \<Rightarrow> storage" where
  "write_starter cf lang =
     try_put2 (storageKey cf lang) (currentStarter cf lang) (seedKey cf lang) (currentStarter cf lang)"

definition loadCode :: "ide_config \<Rightarrow> jstr \<Rightarrow> storage \<Rightarrow> jstr \<times> storage" where
  "loadCode cf lang s =
     (let saved = sto_get s (storageKey cf lang);
          seed = sto_get s (seedKey cf lang);
          starter = currentStarter cf lang
      in case saved of
           None \<Rightarrow> (starter, write_starter cf lang s)
         | Some code \<Rightarrow>
             if code = [] then (starter, write_starter cf lang s)
             else if looksStaleAutoGenerated code then (starter, write_starter cf lang s)
             else if seed = Some code \<and> Some starter \<noteq> seed
             then (starter, write_starter cf lang s)
             else (code, s))"

text \<open>\<open>saveCode\<close>: nothing happens before the editor exists.\<close>

definition saveCode :: "ide_config \<Rightarrow> jstr \<Rightarrow> jstr option \<Rightarrow> storage \<Rightarrow> storage" where
  "saveCode cf lang ed s =
     (case ed of None \<Rightarrow> s | Some code \<Rightarrow> try_put (storageKey cf lang) code s)"

section \<open>Lemmas\<close>

lemma storageKey_seedKey [simp]: "storageKey cf l \<noteq> seedKey cf l'" "seedKey cf l' \<noteq> storageKey cf l"
  by (auto simp: storageKey_def seedKey_def)

lemma storageKey_inj [simp]: "storageKey cf l = storageKey cf l' \<longleftrightarrow> l = l'"
  and seedKey_inj [simp]: "seedKey cf l = seedKey cf l' \<longleftrightarrow> l = l'"
  by (auto simp: storageKey_def seedKey_def)

text \<open>The keys of a language, and what leaves them alone.\<close>

definition lang_view :: "ide_config \<Rightarrow> jstr \<Rightarrow> storage \<Rightarrow> jstr option \<times> jstr option" where
  "lang_view cf l s = (sto_get s (storageKey cf l), sto_get s (seedKey cf l))"

lemma loadCode_view:
  "fst (loadCode cf l s) = fst (loadCode cf l t)" if "lang_view cf l s = lang_view cf l t"
  using that by (simp add: loadCode_def lang_view_def Let_def split: option.split)

lemma try_put_get: "sto_get (try_put k v s) k' = (if k' = k \<and> sto_put k v s \<noteq> None then Some v else sto_get s k')"
  by (auto simp: try_put_def sto.get_put_same sto.get_put_other split: option.split)

lemma try_put2_get_other: "k' \<noteq> k \<Longrightarrow> k' \<noteq> k2 \<Longrightarrow> sto_get (try_put2 k v k2 v2 s) k' = sto_get s k'"
  by (auto simp: try_put2_def try_put_get split: option.split dest: sto.get_put_other)

lemma saveCode_view_other: "l' \<noteq> l \<Longrightarrow> lang_view cf l' (saveCode cf l ed s) = lang_view cf l' s"
  by (auto simp: lang_view_def saveCode_def try_put_get split: option.split)

lemma loadCode_view_other: "l' \<noteq> l \<Longrightarrow> lang_view cf l' (snd (loadCode cf l s)) = lang_view cf l' s"
  by (auto simp: lang_view_def loadCode_def Let_def write_starter_def try_put2_get_other
      split: option.split)

definition accepting :: "storage \<Rightarrow> bool" where
  "accepting s \<longleftrightarrow> sto_usable s \<and> (\<forall>k v. sto_accepts s k v)"

lemma accepting_put: "accepting s \<Longrightarrow> sto_put k v s = Some (s\<lparr>sto_map := (sto_map s)(k := Some v)\<rparr>)"
  by (simp add: accepting_def sto_put_def)

lemma try_put_env [simp]:
  "sto_usable (try_put k v s) = sto_usable s" "sto_accepts (try_put k v s) = sto_accepts s"
  by (auto simp: try_put_def sto_put_def)

lemma env_loadCode [simp]:
  "accepting (snd (loadCode cf l s)) = accepting s"
  "accepting (saveCode cf l ed s) = accepting s"
  by (auto simp: accepting_def loadCode_def Let_def write_starter_def try_put2_def sto_put_def
      saveCode_def split: option.split)

lemma saveCode_view:
  "accepting s \<Longrightarrow> lang_view cf l (saveCode cf l (Some t) s) = (Some t,
    sto_get s (seedKey cf l))"
  by (auto simp: lang_view_def saveCode_def try_put_get accepting_put)

text \<open>What loading returns and leaves, by cases.\<close>

definition refreshes :: "ide_config \<Rightarrow> jstr \<Rightarrow> storage \<Rightarrow> bool" where
  "refreshes cf l s =
     (case lang_view cf l s of
        (None, _) \<Rightarrow> True
      | (Some code, seed) \<Rightarrow> code = [] \<or> looksStaleAutoGenerated code
          \<or> seed = Some code \<and> code \<noteq> currentStarter cf l)"

lemma loadCode_cases:
  "loadCode cf l s =
     (if refreshes cf l s then (currentStarter cf l, write_starter cf l s)
      else (the (sto_get s (storageKey cf l)), s))"
  by (auto simp: loadCode_def refreshes_def lang_view_def Let_def split: option.split)

section \<open>Properties\<close>

text \<open>
  A student's edits survive loading, also in a storage that refuses writes.
\<close>

lemma loadCode_preserves:
  "lang_view cf l s = (Some code,
    seed) \<Longrightarrow> code \<noteq> [] \<Longrightarrow> \<not> looksStaleAutoGenerated code \<Longrightarrow>
     seed \<noteq> Some code \<or> code = currentStarter cf l \<Longrightarrow> loadCode cf l s = (code, s)"
  by (auto simp: loadCode_cases refreshes_def lang_view_def)

lemma write_starter_view:
  "accepting s \<Longrightarrow> lang_view cf l (write_starter cf l s)
     = (Some (currentStarter cf l), Some (currentStarter cf l))"
  by (auto simp: lang_view_def write_starter_def try_put2_def try_put_def accepting_put
      sto_get_def accepting_def sto_put_def)

text \<open>A storage that holds no keys and takes every write.\<close>

definition empty_storage :: storage where
  "empty_storage = \<lparr>sto_map = \<lambda>_. None, sto_usable = True,
    sto_accepts = \<lambda>_ _. True\<rparr>"

text \<open>
  Loading settles. If storage accepts writes and the starter itself carries no marker, then
  after one load a second load returns the same code and changes nothing, so the editor shows
  the same text after every reload that follows no edit.
\<close>

lemma loadCode_settles:
  assumes "accepting s" and "\<not> looksStaleAutoGenerated (currentStarter cf l)"
  shows "fst (loadCode cf l (snd (loadCode cf l s))) = fst (loadCode cf l s)
    \<and> lang_view cf l (snd (loadCode cf l (snd (loadCode cf l s))))
      = lang_view cf l (snd (loadCode cf l s))"
proof (cases "refreshes cf l s")
  case True
  have "fst (loadCode cf l (write_starter cf l s)) = currentStarter cf l"
    using assms write_starter_view [OF assms(1), of cf l]
    by (auto simp: loadCode_cases refreshes_def lang_view_def)
  moreover have "accepting (write_starter cf l s)"
    using env_loadCode(1) [of cf l s] assms(1) True by (simp add: loadCode_cases)
  ultimately show ?thesis
    using True write_starter_view [of s cf l] write_starter_view [of "write_starter cf l s" cf l]
      assms(1)
    by (auto simp: loadCode_cases [of cf l s] loadCode_cases [of cf l "write_starter cf l s"])
next
  case False
  then show ?thesis by (simp add: loadCode_cases)
qed

definition demo_config :: ide_config where
  "demo_config = \<lparr>problemId = (js ''1001''), starterCode = [((js ''cpp''),
    (js ''class Solution {};''))]\<rparr>"

lemma loadCode_settles_witness:
  "fst (loadCode demo_config (js ''cpp'') (snd (loadCode demo_config (js ''cpp'') empty_storage)))
   = (js ''class Solution {};'')"
proof -
  have "accepting empty_storage" by (simp add: accepting_def empty_storage_def)
  moreover have "\<not> looksStaleAutoGenerated (currentStarter demo_config ((js ''cpp'')))" by code_simp
  moreover have "fst (loadCode demo_config ((js ''cpp'')) empty_storage) = (js ''class Solution {};'')"
    by code_simp
  ultimately show ?thesis using loadCode_settles [of empty_storage demo_config "(js ''cpp'')"] by simp
qed

end
