(* ===== verification/LspConvert.thy ===== *)
theory LspConvert
  imports JSPrelude
begin

text \<open>
  Conversions between the Language Server Protocol and the Monaco editor
  (\<open>web/static/js/lsp-monaco.js\<close>, lines 59 to 71 and 162 to 296): positions and
  ranges, documentation as Markdown, completion items, hover and signature help.

  Messages of the language server are JSON values where the code inspects their shape, and
  records where it reads fixed fields. A \<open>TypeError\<close> is the left of a sum.
\<close>

section \<open>Positions and ranges\<close>

record monaco_pos =
  lineNumber :: int
  column :: int

record lsp_position =
  lp_line :: int
  lp_character :: int

record lsp_range =
  lr_start :: lsp_position
  lr_end :: lsp_position

record monaco_range =
  startLineNumber :: int
  startColumn :: int
  endLineNumber :: int
  endColumn :: int

definition lspPos :: "monaco_pos \<Rightarrow> lsp_position" where
  "lspPos p = \<lparr>lp_line = lineNumber p - 1, lp_character = column p - 1\<rparr>"

definition monacoRange :: "lsp_range \<Rightarrow> monaco_range" where
  "monacoRange r =
     \<lparr>startLineNumber = lp_line (lr_start r) + 1, startColumn = lp_character (lr_start r) + 1,
      endLineNumber = lp_line (lr_end r) + 1, endColumn = lp_character (lr_end r) + 1\<rparr>"

text \<open>The range between two editor positions, seen from the server and back.\<close>

definition range_between :: "monaco_pos \<Rightarrow> monaco_pos \<Rightarrow> monaco_range" where
  "range_between p q = \<lparr>startLineNumber = lineNumber p, startColumn = column p,
     endLineNumber = lineNumber q, endColumn = column q\<rparr>"

lemma position_roundtrip:
  "monacoRange \<lparr>lr_start = lspPos p, lr_end = lspPos q\<rparr> = range_between p q"
  by (simp add: monacoRange_def lspPos_def range_between_def)

section \<open>Enumerations\<close>

datatype completion_kind =
    CText | CMethod | CFunction | CConstructor | CField | CVariable | CClass | CInterface
  | CModule | CProperty | CUnit | CValue | CEnum | CKeyword | CSnippet | CColor | CFile
  | CReference | CFolder | CEnumMember | CConstant | CStruct | CEvent | COperator | CTypeParameter

definition KIND :: "int \<Rightarrow> completion_kind option" where
  "KIND = map_of
     [(1, CText), (2, CMethod), (3, CFunction), (4, CConstructor), (5, CField),
      (6, CVariable), (7, CClass), (8, CInterface), (9, CModule), (10, CProperty),
      (11, CUnit), (12, CValue), (13, CEnum), (14, CKeyword), (15, CSnippet),
      (16, CColor), (17, CFile), (18, CReference), (19, CFolder),
      (20, CEnumMember), (21, CConstant), (22, CStruct), (23, CEvent),
      (24, COperator), (25, CTypeParameter)]"

datatype marker_severity = MError | MWarning | MInfo | MHint

definition SEVERITY :: "int \<Rightarrow> marker_severity option" where
  "SEVERITY = map_of [(1, MError), (2, MWarning), (3, MInfo), (4, MHint)]"

section \<open>Documentation\<close>

text \<open>\<open>String(v)\<close>, and what \<open>join\<close> makes of an element.\<close>

fun to_text :: "jval \<Rightarrow> jstr" and elem_text :: "jval \<Rightarrow> jstr" where
  "to_text JUndef = js ''undefined''"
| "to_text JNull = js ''null''"
| "to_text (JBool b) = (if b then js ''true'' else js ''false'')"
| "to_text (JNum n) = num_str n"
| "to_text (JStr s) = s"
| "to_text (JArr vs) = join_with (js '','') (map elem_text vs)"
| "to_text (JObj _) = js ''[object Object]''"
| "elem_text JUndef = []"
| "elem_text JNull = []"
| "elem_text (JBool b) = (if b then js ''true'' else js ''false'')"
| "elem_text (JNum n) = num_str n"
| "elem_text (JStr s) = s"
| "elem_text (JArr vs) = join_with (js '','') (map elem_text vs)"
| "elem_text (JObj _) = js ''[object Object]''"

datatype js_error = TypeError

text \<open>
  \<open>asMarkdown\<close> returns undefined (\<open>None\<close>) or an object with a
  \<open>value\<close>. On an array it reads \<open>.value\<close> of the result for each
  element, which is a \<open>TypeError\<close> where that is undefined.
\<close>

fun collect_values :: "(js_error + jval option) list \<Rightarrow> js_error + jval list" where
  "collect_values [] = Inr []"
| "collect_values (r # rs) =
     (case r of
        Inl e \<Rightarrow> Inl e
      | Inr None \<Rightarrow> Inl TypeError
      | Inr (Some v) \<Rightarrow> (case collect_values rs of Inl e \<Rightarrow> Inl e | Inr vs \<Rightarrow> Inr (v # vs)))"

definition fence :: jstr where "fence = js ''```''"

fun asMarkdown :: "jval \<Rightarrow> js_error + jval option" where
  "asMarkdown JUndef = Inr None"
| "asMarkdown JNull = Inr None"
| "asMarkdown (JStr s) = Inr (Some (JStr s))"
| "asMarkdown (JArr vs) =
     (case collect_values (map asMarkdown vs) of
        Inl e \<Rightarrow> Inl e
      | Inr xs \<Rightarrow> Inr (Some (JStr (join_with [10, 10] (map elem_text xs)))))"
| "asMarkdown (JObj kvs) =
     (let v = JObj kvs; val = jget (js ''value'') v; lang = jget (js ''language'') v
      in if truthy (jget (js ''kind'') v) \<or> val \<noteq> JUndef then Inr (Some (jor val (JStr [])))
         else if truthy lang
         then Inr (Some (JStr (fence @ to_text lang @ [10] @ to_text val @ [10] @ fence)))
         else Inr (Some (JStr (to_text v))))"
| "asMarkdown (JBool b) = Inr (Some (JStr (to_text (JBool b))))"
| "asMarkdown (JNum n) = Inr (Some (JStr (to_text (JNum n))))"

section \<open>Completion items\<close>

record lsp_edit =
  ed_newText :: jstr
  ed_range :: "lsp_range option"
  ed_replace :: "lsp_range option"
  ed_insert :: "lsp_range option"

record lsp_item =
  li_label :: jstr
  li_kind :: int
  li_detail :: "jstr option"
  li_sortText :: "jstr option"
  li_filterText :: "jstr option"
  li_insertText :: "jstr option"
  li_textEdit :: "lsp_edit option"
  li_insertTextFormat :: int
  li_documentation :: jval
  li_additional :: "(lsp_range \<times> jstr) list option"
  li_command :: "jval option"

record monaco_item =
  mi_label :: jstr
  mi_kind :: completion_kind
  mi_detail :: "jstr option"
  mi_sortText :: "jstr option"
  mi_filterText :: "jstr option"
  mi_insertText :: jstr
  mi_range :: monaco_range
  mi_snippet :: bool
  mi_documentation :: "jval option"
  mi_additional :: "(monaco_range \<times> jstr) list option"
  mi_command :: "jval option"
  mi_lsp :: lsp_item

text \<open>\<open>a || b || c\<close> on optional values.\<close>

definition first_some :: "'a option \<Rightarrow> 'a option \<Rightarrow> 'a option" where
  "first_some a b = (case a of None \<Rightarrow> b | Some x \<Rightarrow> Some x)"

definition item_base :: "lsp_item \<Rightarrow> monaco_range \<Rightarrow> monaco_item" where
  "item_base it dr =
     \<lparr>mi_label = dropWhile js_ws (li_label it),
      mi_kind = (case KIND (li_kind it) of None \<Rightarrow> CText | Some k \<Rightarrow> k),
      mi_detail = li_detail it, mi_sortText = li_sortText it, mi_filterText = li_filterText it,
      mi_insertText = (case li_insertText it of
         None \<Rightarrow> li_label it | Some t \<Rightarrow> if t = [] then li_label it else t),
      mi_range = dr, mi_snippet = False, mi_documentation = None, mi_additional = None,
      mi_command = None, mi_lsp = it\<rparr>"

definition item_edit :: "lsp_item \<Rightarrow> monaco_item \<Rightarrow> monaco_item" where
  "item_edit it m =
     (case li_textEdit it of
        None \<Rightarrow> m
      | Some e \<Rightarrow>
          let m1 = m\<lparr>mi_insertText := ed_newText e\<rparr>
          in (case first_some (ed_range e) (first_some (ed_replace e) (ed_insert e)) of
                None \<Rightarrow> m1
              | Some r \<Rightarrow> m1\<lparr>mi_range := monacoRange r\<rparr>))"

definition toMonacoCompletion :: "lsp_item \<Rightarrow> monaco_range \<Rightarrow> js_error + monaco_item" where
  "toMonacoCompletion it dr =
     (let m = item_edit it (item_base it dr);
          m1 = (if li_insertTextFormat it = 2 then m\<lparr>mi_snippet := True\<rparr> else m);
          m2 = m1\<lparr>mi_additional := map_option (map (\<lambda>(r, t). (monacoRange r, t))) (li_additional it),
                  mi_command := li_command it\<rparr>
      in if truthy (li_documentation it)
         then (case asMarkdown (li_documentation it) of
                 Inl e \<Rightarrow> Inl e
               | Inr d \<Rightarrow> Inr (m2\<lparr>mi_documentation := d\<rparr>))
         else Inr m2)"

text \<open>The answer to a completion request; any throw ends in the empty list.\<close>

fun convert_items :: "lsp_item list \<Rightarrow> monaco_range \<Rightarrow> js_error + monaco_item list" where
  "convert_items [] dr = Inr []"
| "convert_items (it # its) dr =
     (case toMonacoCompletion it dr of
        Inl e \<Rightarrow> Inl e
      | Inr m \<Rightarrow> (case convert_items its dr of Inl e \<Rightarrow> Inl e | Inr ms \<Rightarrow> Inr (m # ms)))"

datatype completion_answer =
  NoAnswer | ItemArray "lsp_item list" | ItemList bool "lsp_item list option"

definition completion_result ::
  "completion_answer option \<Rightarrow> monaco_range \<Rightarrow> bool \<times> monaco_item list"
where
  "completion_result r dr =
     (case r of
        None \<Rightarrow> (False, [])
      | Some NoAnswer \<Rightarrow> (False, [])
      | Some (ItemArray its) \<Rightarrow>
          (case convert_items its dr of Inl e \<Rightarrow> (False, []) | Inr ms \<Rightarrow> (False, ms))
      | Some (ItemList incomplete its) \<Rightarrow>
          (case convert_items (case its of None \<Rightarrow> [] | Some xs \<Rightarrow> xs) dr of
             Inl e \<Rightarrow> (False, []) | Inr ms \<Rightarrow> (incomplete, ms)))"

section \<open>Hover and signature help\<close>

definition hover_result :: "(jval \<times> lsp_range option) option \<Rightarrow> (jval \<times> monaco_range option) option" where
  "hover_result r =
     (case r of
        None \<Rightarrow> None
      | Some (contents, rng) \<Rightarrow>
          if \<not> truthy contents then None
          else (case asMarkdown contents of
                  Inl e \<Rightarrow> None
                | Inr None \<Rightarrow> None
                | Inr (Some md) \<Rightarrow>
                    if \<not> truthy md then None else Some (md, map_option monacoRange rng)))"

record lsp_param =
  pm_label :: jval
  pm_documentation :: jval

record lsp_signature =
  sg_label :: jstr
  sg_documentation :: jval
  sg_parameters :: "lsp_param list option"

definition sig_doc :: "jval \<Rightarrow> js_error + jval option" where
  "sig_doc d = (if truthy d then asMarkdown d else Inr None)"

fun map_results :: "('a \<Rightarrow> js_error + 'b) \<Rightarrow> 'a list \<Rightarrow> js_error + 'b list" where
  "map_results f [] = Inr []"
| "map_results f (x # xs) =
     (case f x of
        Inl e \<Rightarrow> Inl e
      | Inr y \<Rightarrow> (case map_results f xs of Inl e \<Rightarrow> Inl e | Inr ys \<Rightarrow> Inr (y # ys)))"

definition convert_param :: "lsp_param \<Rightarrow> js_error + (jval \<times> jval option)" where
  "convert_param p =
     (case sig_doc (pm_documentation p) of Inl e \<Rightarrow> Inl e | Inr d \<Rightarrow> Inr (pm_label p, d))"

definition convert_signature ::
  "lsp_signature \<Rightarrow> js_error + (jstr \<times> jval option \<times> (jval \<times> jval option) list)"
where
  "convert_signature s =
     (case sig_doc (sg_documentation s) of
        Inl e \<Rightarrow> Inl e
      | Inr d \<Rightarrow>
          (case map_results convert_param (case sg_parameters s of None \<Rightarrow> [] | Some ps \<Rightarrow> ps) of
             Inl e \<Rightarrow> Inl e
           | Inr ps \<Rightarrow> Inr (sg_label s, d, ps)))"

definition signature_result ::
  "(lsp_signature list option \<times> int \<times> int) option
     \<Rightarrow> ((jstr \<times> jval option \<times> (jval \<times> jval option) list) list \<times> int \<times> int) option"
where
  "signature_result r =
     (case r of
        None \<Rightarrow> None
      | Some (sigs, act, par) \<Rightarrow>
          (case sigs of
             None \<Rightarrow> None
           | Some [] \<Rightarrow> None
           | Some ss \<Rightarrow>
               (case map_results convert_signature ss of
                  Inl e \<Rightarrow> None
                | Inr xs \<Rightarrow> Some (xs, act, par))))"

section \<open>Properties\<close>

text \<open>A text edit of an item, as the range the editor will replace.\<close>

lemma toMonacoCompletion_range:
  assumes "toMonacoCompletion it dr = Inr m"
  shows "mi_range m = (case li_textEdit it of None \<Rightarrow> dr | Some e \<Rightarrow>
      (case first_some (ed_range e) (first_some (ed_replace e) (ed_insert e)) of
         None \<Rightarrow> dr | Some r \<Rightarrow> monacoRange r))"
    and "mi_lsp m = it"
  using assms
  by (auto simp: toMonacoCompletion_def item_edit_def item_base_def Let_def
      split: option.splits if_splits sum.splits)

lemma convert_items_lsp: "convert_items its dr = Inr ms \<Longrightarrow> map mi_lsp ms = its"
  by (induction its arbitrary: ms) (auto split: sum.splits dest: toMonacoCompletion_range(2))

text \<open>
  Completion items survive conversion. When the language server's items convert, there is one
  suggestion per item, in the server's order, each carrying its own item (which the later
  resolve request sends back), and each replaces the range of its text edit if it has one and
  the word under the cursor otherwise.
\<close>

lemma completion_items_converted:
  assumes "convert_items its dr = Inr ms"
  shows "map mi_lsp ms = its
    \<and> map mi_range ms = map (\<lambda>it. case li_textEdit it of None \<Rightarrow> dr | Some e \<Rightarrow>
        (case first_some (ed_range e) (first_some (ed_replace e) (ed_insert e)) of
           None \<Rightarrow> dr | Some r \<Rightarrow> monacoRange r)) its"
  using assms
proof (induction its arbitrary: ms)
  case (Cons it its)
  then obtain m ms' where m: "toMonacoCompletion it dr = Inr m"
    and ms: "convert_items its dr = Inr ms'" "ms = m # ms'"
    by (auto split: sum.splits)
  then show ?case using Cons.IH toMonacoCompletion_range [OF m] by simp
qed simp

definition demo_item :: lsp_item where
  "demo_item = \<lparr>li_label = js '' push'', li_kind = 2, li_detail = None, li_sortText = None,
     li_filterText = None, li_insertText = None,
     li_textEdit = Some \<lparr>ed_newText = js ''push($0)'',
       ed_range = Some \<lparr>lr_start = \<lparr>lp_line = 3, lp_character = 4\<rparr>,
                       lr_end = \<lparr>lp_line = 3, lp_character = 6\<rparr>\<rparr>,
       ed_replace = None, ed_insert = None\<rparr>,
     li_insertTextFormat = 2, li_documentation = JStr (js ''doc''), li_additional = None,
     li_command = None\<rparr>"

definition demo_range :: monaco_range where
  "demo_range = \<lparr>startLineNumber = 4, startColumn = 1, endLineNumber = 4, endColumn = 7\<rparr>"

lemma completion_items_converted_witness:
  "\<exists>ms. convert_items [demo_item] demo_range = Inr ms \<and> map mi_lsp ms = [demo_item]
     \<and> map mi_range ms
       = [\<lparr>startLineNumber = 4, startColumn = 5, endLineNumber = 4, endColumn = 7\<rparr>]"
proof -
  obtain ms where ms: "convert_items [demo_item] demo_range = Inr ms"
    by (simp add: toMonacoCompletion_def demo_item_def Let_def)
  from completion_items_converted [OF ms] ms show ?thesis
    by (auto simp: demo_item_def first_some_def monacoRange_def)
qed

text \<open>
  A marked string loses its code fence. For a value with a language and a text, which is how
  servers mark code, the conversion takes the earlier branch (any value that is defined) and
  returns the bare text; the branch that fences code is reached only when there is no text,
  and then it fences the word undefined.
\<close>

lemma marked_string_not_fenced:
  "asMarkdown (JObj [(js ''language'', JStr l), (js ''value'', JStr t)]) = Inr (Some (JStr t))
   \<and> asMarkdown (JObj [(js ''language'', JStr (c # l))])
     = Inr (Some (JStr (fence @ (c # l) @ [10] @ js ''undefined'' @ [10] @ fence)))"
  by (simp add: jor_def Let_def)

end
