(* ===== verification/LspClient.thy ===== *)
theory LspClient
  imports LspConvert
begin

text \<open>
  The language client of the editor (\<open>web/static/js/lsp-monaco.js\<close>): JSON-RPC
  over the worker, document synchronisation, diagnostics, the editor's requests and the boot
  of clangd and pyright. A step takes one event (a call of the editor, a message of the
  worker, a timer) and returns the new client with its effects in order; the continuation of a
  promise runs in the step that settles it.
\<close>

section \<open>Data\<close>

datatype server_kind = Clangd | Pyright

text \<open>
  The options, and what the environment has: workers, cross-origin isolation, and whether
  registering the providers or the ready callback throws (and with what message).
\<close>

record lsp_opts =
  o_name :: jstr
  o_server :: server_kind
  o_language :: jstr
  o_doc_uri :: jstr
  o_root_uri :: jstr
  o_init_options :: jval
  o_has_worker :: bool
  o_isolated :: bool
  o_ready_throws :: "jstr option"

datatype trigger_ctx = Invoked | TriggerChar jstr

datatype rpc_request =
    ReqInitialize jstr jstr jval
  | ReqCompletion jstr lsp_position trigger_ctx
  | ReqResolve lsp_item
  | ReqHover jstr lsp_position
  | ReqSignature jstr lsp_position

datatype rpc_note =
    NoteInitialized
  | NoteDidOpen jstr jstr int jstr
  | NoteDidChange jstr int jstr
  | NoteDidClose jstr

datatype out_msg = Note rpc_note | Req nat rpc_request | Ack jval | BootForeground

text \<open>What a pending request will do with its result.\<close>

datatype waiting =
    WInit | WCompletion monaco_range | WResolve monaco_item | WHover | WSignature

datatype lsp_answer =
    AInit
  | ACompletion "bool \<times> monaco_item list"
  | AResolve monaco_item
  | AHover "(jval \<times> monaco_range option) option"
  | ASignature "((jstr \<times> jval option \<times> (jval \<times> jval option) list) list \<times> int \<times> int) option"

record marker =
  mk_severity :: marker_severity
  mk_message :: jstr
  mk_source :: jstr
  mk_range :: monaco_range

datatype lsp_effect =
    Send out_msg | Markers "marker list" | OnReady | OnError jstr | OnProgress int int
  | Providers | Settle nat lsp_answer | Immediate lsp_answer | Diag jstr | NewBackground jstr

record client =
  worker :: bool
  bgWorkers :: nat
  ready :: bool
  opened :: bool
  nextId :: nat
  pending :: "(nat \<times> waiting) list"
  docVersion :: int
  lastSentText :: "jstr option"
  diagModel :: "bool option" \<comment> \<open>the model of the markers,
    and whether it is disposed\<close>
  bootTimer :: bool

definition client_init :: client where
  "client_init = \<lparr>worker = False, bgWorkers = 0, ready = False, opened = False, nextId = 1,
     pending = [], docVersion = 0, lastSentText = None, diagModel = None, bootTimer = False\<rparr>"

text \<open>
  The result of a request, as each continuation reads it, and the messages of the worker. An
  absent property is \<open>JUndef\<close>.
\<close>

record rpc_result =
  rv_completion :: "completion_answer option"
  rv_resolve :: "(jval \<times> jstr option) option"
  rv_hover :: "(jval \<times> lsp_range option) option"
  rv_signature :: "(lsp_signature list option \<times> int \<times> int) option"

record lsp_diag =
  dg_severity :: int
  dg_message :: jstr
  dg_source :: "jstr option"
  dg_range :: lsp_range

record rpc_msg =
  m_id :: jval
  m_method :: jval
  m_error :: jval
  m_result :: rpc_result
  m_uri :: jstr
  m_diagnostics :: "lsp_diag list option"

datatype control =
    CtlProgress int int | CtlStage jstr | CtlReady | CtlError jstr | CtlAborted | CtlNewWorker

datatype worker_data = Nothing | Control control | Rpc rpc_msg

type_synonym outcome = "client \<times> lsp_effect list"

section \<open>JSON-RPC\<close>

definition rpc_send :: "out_msg \<Rightarrow> client \<Rightarrow> lsp_effect list" where
  "rpc_send m c = (if worker c then [Send m] else [])"

definition notify :: "rpc_note \<Rightarrow> client \<Rightarrow> outcome" where
  "notify n c = (c, rpc_send (Note n) c)"

definition rpc_call :: "rpc_request \<Rightarrow> waiting \<Rightarrow> client \<Rightarrow> outcome" where
  "rpc_call r w c =
     (c\<lparr>nextId := nextId c + 1, pending := pending c @ [(nextId c, w)]\<rparr>,
      rpc_send (Req (nextId c) r) c)"

text \<open>Running one operation after another.\<close>

definition andThen :: "outcome \<Rightarrow> (client \<Rightarrow> outcome) \<Rightarrow> outcome" where
  "andThen r f = (case r of (c, es) \<Rightarrow> case f c of (c', es') \<Rightarrow> (c', es
    @ es'))"

definition emit :: "lsp_effect list \<Rightarrow> client \<Rightarrow> outcome" where
  "emit es c = (c, es)"

section \<open>Diagnostics\<close>

definition to_marker :: "lsp_opts \<Rightarrow> lsp_diag \<Rightarrow> marker" where
  "to_marker o1 d =
     \<lparr>mk_severity = (case SEVERITY (dg_severity d) of None \<Rightarrow> MError | Some v \<Rightarrow> v),
      mk_message = dg_message d,
      mk_source = (case dg_source d of None \<Rightarrow> o_name o1 | Some t \<Rightarrow> if t = [] then o_name o1 else t),
      mk_range = monacoRange (dg_range d)\<rparr>"

definition applyDiagnostics :: "lsp_opts \<Rightarrow> jstr \<Rightarrow> lsp_diag list option \<Rightarrow> client \<Rightarrow> lsp_effect list" where
  "applyDiagnostics o1 uri ds c =
     (if diagModel c \<noteq> Some False then []
      else if uri \<noteq> o_doc_uri o1 then []
      else [Markers (map (to_marker o1) (case ds of None \<Rightarrow> [] | Some xs \<Rightarrow> xs))])"

definition clearDiagnostics :: "client \<Rightarrow> lsp_effect list" where
  "clearDiagnostics c = (if diagModel c = Some False then [Markers []] else [])"

section \<open>Document synchronisation\<close>

definition didChange :: "lsp_opts \<Rightarrow> jstr \<Rightarrow> client \<Rightarrow> outcome" where
  "didChange o1 t c =
     (if \<not> ready c \<or> \<not> opened c then (c, [])
      else if Some t = lastSentText c then (c, [])
      else notify (NoteDidChange (o_doc_uri o1) (docVersion c + 1) t)
             (c\<lparr>lastSentText := Some t, docVersion := docVersion c + 1\<rparr>))"

definition didOpen :: "lsp_opts \<Rightarrow> jstr \<Rightarrow> client \<Rightarrow> outcome" where
  "didOpen o1 t c =
     (if \<not> ready c then (c, [])
      else if opened c then didChange o1 t c
      else notify (NoteDidOpen (o_doc_uri o1) (o_language o1) 1 t)
             (c\<lparr>opened := True, docVersion := 1, lastSentText := Some t\<rparr>))"

definition didClose :: "lsp_opts \<Rightarrow> client \<Rightarrow> outcome" where
  "didClose o1 c =
     (if \<not> ready c \<or> \<not> opened c then (c, [])
      else andThen (notify (NoteDidClose (o_doc_uri o1))
                      (c\<lparr>opened := False, lastSentText := None\<rparr>))
             (\<lambda>c. (c, clearDiagnostics c)))"

section \<open>The editor's requests\<close>

text \<open>A request, or the answer that is returned at once.\<close>

definition completion_ctx :: "jstr option \<Rightarrow> trigger_ctx" where
  "completion_ctx trig = (case trig of None \<Rightarrow> Invoked | Some ch \<Rightarrow> TriggerChar ch)"

definition default_range :: "monaco_pos \<Rightarrow> int \<Rightarrow> int \<Rightarrow> monaco_range" where
  "default_range p w1 w2 = \<lparr>startLineNumber = lineNumber p, startColumn = w1,
     endLineNumber = lineNumber p, endColumn = w2\<rparr>"

definition provideCompletion ::
  "lsp_opts \<Rightarrow> jstr \<Rightarrow> monaco_pos \<Rightarrow> int \<times> int \<Rightarrow> jstr option \<Rightarrow> client
     \<Rightarrow> outcome \<times> lsp_answer option"
where
  "provideCompletion o1 doc p wd trig c =
     (if \<not> ready c \<or> \<not> opened c then ((c, []), Some (ACompletion (False, [])))
      else (andThen (didChange o1 doc c)
              (rpc_call (ReqCompletion (o_doc_uri o1) (lspPos p) (completion_ctx trig))
                 (WCompletion (default_range p (fst wd) (snd wd)))), None))"

definition resolveCompletion :: "monaco_item \<Rightarrow> bool \<Rightarrow> client \<Rightarrow> outcome \<times> lsp_answer option" where
  "resolveCompletion it has_lsp c =
     (if \<not> ready c \<or> \<not> has_lsp then ((c, []), Some (AResolve it))
      else (rpc_call (ReqResolve (mi_lsp it)) (WResolve it) c, None))"

definition provideHover ::
  "lsp_opts \<Rightarrow> jstr \<Rightarrow> monaco_pos \<Rightarrow> client \<Rightarrow> outcome \<times> lsp_answer option"
where
  "provideHover o1 doc p c =
     (if \<not> ready c \<or> \<not> opened c then ((c, []), Some (AHover None))
      else (andThen (didChange o1 doc c)
              (rpc_call (ReqHover (o_doc_uri o1) (lspPos p)) WHover), None))"

definition provideSignatureHelp ::
  "lsp_opts \<Rightarrow> jstr \<Rightarrow> monaco_pos \<Rightarrow> client \<Rightarrow> outcome \<times> lsp_answer option"
where
  "provideSignatureHelp o1 doc p c =
     (if \<not> ready c \<or> \<not> opened c then ((c, []), Some (ASignature None))
      else (andThen (didChange o1 doc c)
              (rpc_call (ReqSignature (o_doc_uri o1) (lspPos p)) WSignature), None))"

text \<open>What the resolve reply adds to the item.\<close>

definition resolve_result :: "(jval \<times> jstr option) option \<Rightarrow> monaco_item \<Rightarrow> monaco_item" where
  "resolve_result full it =
     (case full of
        None \<Rightarrow> it
      | Some (doc, detail) \<Rightarrow>
          let r = (if truthy doc
                   then (case asMarkdown doc of
                           Inl e \<Rightarrow> None | Inr d \<Rightarrow> Some (it\<lparr>mi_documentation := d\<rparr>))
                   else Some it)
          in (case r of
                None \<Rightarrow> it
              | Some it1 \<Rightarrow>
                  (case detail of
                     None \<Rightarrow> it1
                   | Some t \<Rightarrow> if t = [] then it1 else it1\<lparr>mi_detail := Some t\<rparr>)))"

section \<open>Boot\<close>

definition report_error :: "jstr \<Rightarrow> lsp_effect list" where
  "report_error m = [Diag ((js ''ERROR: '') @ m), OnError m]"

text \<open>\<open>stringify\<close> is \<open>JSON.stringify\<close>.\<close>

definition error_text :: "(jval \<Rightarrow> jstr) \<Rightarrow> jval \<Rightarrow> jstr" where
  "error_text stringify e =
     (if truthy e \<and> truthy (jget (js ''message'') e) then to_text (jget (js ''message'') e)
      else stringify e)"

definition strip_file :: "jstr \<Rightarrow> jstr" where
  "strip_file u = (if starts_with (js ''file://'') u then drop 7 u else u)"

definition finishBoot :: "lsp_opts \<Rightarrow> client \<Rightarrow> outcome" where
  "finishBoot o1 c =
     rpc_call (ReqInitialize (o_root_uri o1) (strip_file (o_root_uri o1)) (o_init_options o1))
       WInit c"

definition boot_failed :: "jstr \<Rightarrow> client \<Rightarrow> outcome" where
  "boot_failed m c = (c\<lparr>bootTimer := False\<rparr>, report_error m)"

definition init_failed :: "jstr \<Rightarrow> client \<Rightarrow> outcome" where
  "init_failed m c = boot_failed (([0x521D, 0x59CB, 0x5316, 0x5931, 0x8D25] @ js '': '') @ m) c"

text \<open>The continuation of the initialize request; a throw in it is caught as a failure.\<close>

definition init_done :: "lsp_opts \<Rightarrow> client \<Rightarrow> outcome" where
  "init_done o1 c =
     andThen (notify NoteInitialized c)
       (\<lambda>c. let c1 = c\<lparr>ready := True, bootTimer := False\<rparr>
            in (case o_ready_throws o1 of
                  Some e \<Rightarrow> init_failed e c1
                | None \<Rightarrow> (c1, [Providers, Diag (js ''initialized, ready''), OnReady])))"

definition available :: "lsp_opts \<Rightarrow> bool" where
  "available o1 \<longleftrightarrow>
     (if \<not> o_has_worker o1 then False
      else if o_server o1 = Clangd then o_isolated o1
      else True)"

definition server_text :: "server_kind \<Rightarrow> jstr" where
  "server_text k = (case k of Clangd \<Rightarrow> (js ''clangd'') | Pyright \<Rightarrow> (js ''pyright''))"

definition start_line :: "lsp_opts \<Rightarrow> jstr" where
  "start_line o1 =
     (js ''start: server='') @ server_text (o_server o1) @ (js '' COI='')
     @ (if o_isolated o1 then (js ''true'') else (js ''false'')) @ (js '' worker='')
     @ (if o_has_worker o1 then (js ''function'') else (js ''undefined''))"

definition unavailable_text :: "lsp_opts \<Rightarrow> jstr" where
  "unavailable_text o1 =
     (if o_server o1 = Clangd then [0x5F53, 0x524D, 0x73AF, 0x5883, 0x4E0D, 0x652F, 0x6301, 0x8DE8,
       0x6E90, 0x9694, 0x79BB]
      else ([0x5F53, 0x524D, 0x6D4F, 0x89C8, 0x5668, 0x4E0D, 0x652F, 0x6301] @ js '' Web Worker''))"

text \<open>\<open>ctor\<close> is the message of the worker's constructor, if it throws.\<close>

definition startClangd :: "lsp_opts \<Rightarrow> jstr option \<Rightarrow> client \<Rightarrow> outcome" where
  "startClangd o1 ctor c =
     (case ctor of
        Some e \<Rightarrow> (c, report_error (([0x65E0, 0x6CD5, 0x521B, 0x5EFA]
          @ js '' worker: '') @ e))
      | None \<Rightarrow> (c\<lparr>worker := True\<rparr>, []))"

definition startPyright :: "lsp_opts \<Rightarrow> jstr option \<Rightarrow> client \<Rightarrow> outcome" where
  "startPyright o1 ctor c =
     (case ctor of
        Some e \<Rightarrow> (c, report_error (([0x65E0, 0x6CD5, 0x521B, 0x5EFA]
          @ js '' worker: '') @ e))
      | None \<Rightarrow>
          andThen (c\<lparr>worker := True\<rparr>,
                   [Diag (js ''booting pyright foreground worker''), Send BootForeground])
            (finishBoot o1))"

definition start :: "lsp_opts \<Rightarrow> jstr option \<Rightarrow> client \<Rightarrow> outcome" where
  "start o1 ctor c =
     andThen (c, [Diag (start_line o1)])
       (\<lambda>c. if \<not> available o1 then (c, report_error (unavailable_text o1))
            else let c1 = c\<lparr>bootTimer := True\<rparr>
                 in if o_server o1 = Clangd then startClangd o1 ctor c1 else startPyright o1 ctor c1)"

definition boot_timeout :: "client \<Rightarrow> outcome" where
  "boot_timeout c =
     (if \<not> bootTimer c then (c, [])
      else if ready c then (c\<lparr>bootTimer := False\<rparr>, [])
      else (c\<lparr>bootTimer := False\<rparr>,
            report_error [0x542F, 0x52A8, 0x8D85, 0x65F6, 0xFF08, 0x7F51, 0x7EDC, 0x8FC7, 0x6162,
              0x6216, 0x5185, 0x5B58, 0x4E0D, 0x8DB3, 0xFF09]))"

section \<open>Messages of the worker\<close>

text \<open>The continuation of a pending request, resolved with a result or rejected.\<close>

definition settle ::
  "(jval \<Rightarrow> jstr) \<Rightarrow> lsp_opts \<Rightarrow> nat \<Rightarrow> waiting \<Rightarrow> jval + rpc_result \<Rightarrow> client \<Rightarrow> outcome"
where
  "settle str o1 k w r c =
     (case w of
        WInit \<Rightarrow>
          andThen (c, [Settle k AInit])
            (case r of Inl e \<Rightarrow> init_failed (error_text str e) | Inr _ \<Rightarrow> init_done o1)
      | WCompletion dr \<Rightarrow>
          (c, [Settle k (ACompletion (case r of Inl e \<Rightarrow> (False, [])
                                      | Inr v \<Rightarrow> completion_result (rv_completion v) dr))])
      | WResolve it \<Rightarrow>
          (c, [Settle k (AResolve (case r of Inl e \<Rightarrow> it
                                   | Inr v \<Rightarrow> resolve_result (rv_resolve v) it))])
      | WHover \<Rightarrow>
          (c, [Settle k (AHover (case r of Inl e \<Rightarrow> None
                                 | Inr v \<Rightarrow> hover_result (rv_hover v)))])
      | WSignature \<Rightarrow>
          (c, [Settle k (ASignature (case r of Inl e \<Rightarrow> None
                                     | Inr v \<Rightarrow> signature_result (rv_signature v)))]))"

text \<open>\<open>pending[id]\<close>: a key is a string,
  so the number 1 and the string 1 are the same key.\<close>

definition find_pending :: "jval \<Rightarrow> client \<Rightarrow> (nat \<times> waiting) option" where
  "find_pending i c = find (\<lambda>p. nat_str (fst p) = to_text i) (pending c)"

definition drop_pending :: "nat \<Rightarrow> client \<Rightarrow> client" where
  "drop_pending k c = c\<lparr>pending := filter (\<lambda>p. fst p \<noteq> k) (pending c)\<rparr>"

definition onMessage :: "(jval \<Rightarrow> jstr) \<Rightarrow> lsp_opts \<Rightarrow> rpc_msg \<Rightarrow> client \<Rightarrow> outcome" where
  "onMessage str o1 m c =
     (if m_id m \<noteq> JUndef \<and> m_method m = JUndef
      then (case find_pending (m_id m) c of
              None \<Rightarrow> (c, [])
            | Some (k, w) \<Rightarrow>
                settle str o1 k w (if truthy (m_error m) then Inl (m_error m) else Inr (m_result m))
                  (drop_pending k c))
      else if m_id m \<noteq> JUndef then (c, rpc_send (Ack (m_id m)) c)
      else if m_method m = JStr (js ''textDocument/publishDiagnostics'')
      then (c, applyDiagnostics o1 (m_uri m) (m_diagnostics m) c)
      else (c, []))"

definition or_text :: "jstr \<Rightarrow> jstr \<Rightarrow> jstr" where
  "or_text a b = (if a = [] then b else a)"

definition clangd_message :: "(jval \<Rightarrow> jstr) \<Rightarrow> lsp_opts \<Rightarrow> worker_data \<Rightarrow> client \<Rightarrow> outcome" where
  "clangd_message str o1 d c =
     (case d of
        Nothing \<Rightarrow> (c, [])
      | Rpc m \<Rightarrow> onMessage str o1 m c
      | Control k \<Rightarrow>
          (case k of
             CtlProgress v n \<Rightarrow> (c, [OnProgress v n])
           | CtlStage t \<Rightarrow> (c, [Diag ((js ''stage: '') @ t)])
           | CtlReady \<Rightarrow> andThen (c,
             [Diag (js ''worker reports ready'')]) (finishBoot o1)
           | CtlError t \<Rightarrow>
               if ready c then (c, [Diag ((js ''post-ready error ignored: '') @ t)])
               else boot_failed (or_text t (js ''worker '' @ [0x542F, 0x52A8, 0x5931, 0x8D25])) c
           | CtlAborted \<Rightarrow>
               if ready c then (c, [Diag (js ''aborted after ready (ignored)'')])
               else boot_failed (js ''clangd '' @ [0x8FDB, 0x7A0B, 0x5DF2, 0x5D29, 0x6E83]) c
           | CtlNewWorker \<Rightarrow> (c, [])))"

text \<open>\<open>bg\<close> is the message of the background worker's constructor,
  if it throws.\<close>

definition pyright_message ::
  "(jval \<Rightarrow> jstr) \<Rightarrow> lsp_opts \<Rightarrow> jstr option \<Rightarrow> worker_data \<Rightarrow> client \<Rightarrow> outcome"
where
  "pyright_message str o1 bg d c =
     (case d of
        Nothing \<Rightarrow> (c, [])
      | Rpc m \<Rightarrow> onMessage str o1 m c
      | Control k \<Rightarrow>
          (case k of
             CtlNewWorker \<Rightarrow>
               (case bg of
                  Some e \<Rightarrow> (c, [Diag ((js ''bg worker failed: '') @ e)])
                | None \<Rightarrow> (c\<lparr>bgWorkers := bgWorkers c + 1\<rparr>,
                           [NewBackground ((js ''pyright-bg-'') @ nat_str (bgWorkers c))]))
           | _ \<Rightarrow> (c, [])))"

definition worker_error :: "jstr \<Rightarrow> client \<Rightarrow> outcome" where
  "worker_error m c =
     (if ready c then (c, [Diag ((js ''post-ready worker.onerror ignored: '') @ m)])
      else boot_failed ((js ''worker '' @ [0x51FA, 0x9519] @ js '': '') @ m) c)"

section \<open>Runs\<close>

text \<open>
  The events of a client. A \<open>Completion\<close> carries the editor's text, the position,
  the columns of the word under it and the trigger character.
\<close>

datatype lsp_op =
    Start "jstr option"
  | SetDiagModel "bool option"
  | Open jstr
  | Change jstr
  | Close
  | Completion jstr monaco_pos "int \<times> int" "jstr option"
  | ResolveItem monaco_item bool
  | Hover jstr monaco_pos
  | Signature jstr monaco_pos
  | FromWorker "jstr option" worker_data
  | WorkerError jstr
  | BootTimeout

definition with_answer :: "outcome \<times> lsp_answer option \<Rightarrow> outcome" where
  "with_answer r = (case r of ((c, es), a) \<Rightarrow>
     (c, es @ (case a of None \<Rightarrow> [] | Some x \<Rightarrow> [Immediate x])))"

fun lsp_step :: "(jval \<Rightarrow> jstr) \<Rightarrow> lsp_opts \<Rightarrow> lsp_op \<Rightarrow> client \<Rightarrow> outcome" where
  "lsp_step str o1 (Start ctor) c = start o1 ctor c"
| "lsp_step str o1 (SetDiagModel m) c = (c\<lparr>diagModel := m\<rparr>, [])"
| "lsp_step str o1 (Open t) c = didOpen o1 t c"
| "lsp_step str o1 (Change t) c = didChange o1 t c"
| "lsp_step str o1 Close c = didClose o1 c"
| "lsp_step str o1 (Completion t p wd trig) c = with_answer (provideCompletion o1 t p wd trig c)"
| "lsp_step str o1 (ResolveItem it b) c = with_answer (resolveCompletion it b c)"
| "lsp_step str o1 (Hover t p) c = with_answer (provideHover o1 t p c)"
| "lsp_step str o1 (Signature t p) c = with_answer (provideSignatureHelp o1 t p c)"
| "lsp_step str o1 (FromWorker bg d) c =
     (if o_server o1 = Clangd then clangd_message str o1 d c else pyright_message str o1 bg d c)"
| "lsp_step str o1 (WorkerError m) c = worker_error m c"
| "lsp_step str o1 BootTimeout c = boot_timeout c"

text \<open>A client with everything it has done so far.\<close>

type_synonym trace = "client \<times> lsp_effect list"

definition trace_init :: trace where
  "trace_init = (client_init, [])"

definition trace_step :: "(jval \<Rightarrow> jstr) \<Rightarrow> lsp_opts \<Rightarrow> lsp_op \<Rightarrow> trace \<Rightarrow> trace" where
  "trace_step str o1 op t =
     (case lsp_step str o1 op (fst t) of (c, es) \<Rightarrow> (c, snd t @ es))"

fun sent_msgs :: "lsp_effect list \<Rightarrow> out_msg list" where
  "sent_msgs [] = []"
| "sent_msgs (Send m # es) = m # sent_msgs es"
| "sent_msgs (_ # es) = sent_msgs es"

fun is_init_req :: "out_msg \<Rightarrow> bool" where
  "is_init_req (Req _ (ReqInitialize _ _ _)) = True"
| "is_init_req _ = False"

text \<open>
  The events that can happen: the editor starts a client whose worker is not running; a worker
  that exists speaks; it reports that it is ready once.
\<close>

fun lsp_ok :: "lsp_op \<Rightarrow> trace \<Rightarrow> bool" where
  "lsp_ok (Start _) (c, es) = (\<not> worker c)"
| "lsp_ok (FromWorker _ d) (c, es) =
     (worker c \<and> (d = Control CtlReady \<longrightarrow> filter is_init_req (sent_msgs es) = []))"
| "lsp_ok (WorkerError _) (c, es) = worker c"
| "lsp_ok _ _ = True"

section \<open>The server's view\<close>

text \<open>
  What a language server requires of its client: initialize first and once, the initialized
  notification after it and once, and then a document that is opened, changed with the next
  version and closed in turn; requests on a document while it is open.
\<close>

record server =
  sv_init :: bool
  sv_ready :: bool
  sv_doc :: "(int \<times> jstr) option"

definition server_init :: server where
  "server_init = \<lparr>sv_init = False, sv_ready = False, sv_doc = None\<rparr>"

definition on_doc :: "jstr \<Rightarrow> jstr \<Rightarrow> server \<Rightarrow> server option" where
  "on_doc uri u s = (if sv_ready s \<and> u = uri \<and> sv_doc s \<noteq> None then Some s else None)"

fun server_step :: "jstr \<Rightarrow> out_msg \<Rightarrow> server \<Rightarrow> server option" where
  "server_step uri (Req _ (ReqInitialize _ _ _)) s =
     (if sv_init s then None else Some (s\<lparr>sv_init := True\<rparr>))"
| "server_step uri (Note NoteInitialized) s =
     (if sv_init s \<and> \<not> sv_ready s then Some (s\<lparr>sv_ready := True\<rparr>) else None)"
| "server_step uri (Note (NoteDidOpen u l v t)) s =
     (if sv_ready s \<and> u = uri \<and> sv_doc s = None then Some (s\<lparr>sv_doc := Some (v,
       t)\<rparr>) else None)"
| "server_step uri (Note (NoteDidChange u v t)) s =
     (case sv_doc s of
        None \<Rightarrow> None
      | Some (v0, _) \<Rightarrow>
          if sv_ready s \<and> u = uri \<and> v = v0 + 1 then Some (s\<lparr>sv_doc := Some (v,
            t)\<rparr>) else None)"
| "server_step uri (Note (NoteDidClose u)) s =
     map_option (\<lambda>s. s\<lparr>sv_doc := None\<rparr>) (on_doc uri u s)"
| "server_step uri (Req _ (ReqCompletion u _ _)) s = on_doc uri u s"
| "server_step uri (Req _ (ReqHover u _)) s = on_doc uri u s"
| "server_step uri (Req _ (ReqSignature u _)) s = on_doc uri u s"
| "server_step uri (Req _ (ReqResolve _)) s = (if sv_ready s then Some s else None)"
| "server_step uri (Ack _) s = Some s"
| "server_step uri BootForeground s = (if sv_init s then None else Some s)"

fun replay :: "jstr \<Rightarrow> out_msg list \<Rightarrow> server \<Rightarrow> server option" where
  "replay uri [] s = Some s"
| "replay uri (m # ms) s = (case server_step uri m s of None \<Rightarrow> None | Some s' \<Rightarrow> replay uri ms s')"

lemma replay_append [simp]:
  "replay uri (ms
    @ ns) s = (case replay uri ms s of None \<Rightarrow> None | Some s' \<Rightarrow> replay uri ns s')"
  by (induction ms arbitrary: s) (auto split: option.splits)

lemma sent_msgs_append [simp]: "sent_msgs (es @ fs) = sent_msgs es @ sent_msgs fs"
  by (induction es rule: sent_msgs.induct) auto

definition client_view :: "client \<Rightarrow> bool \<Rightarrow> server" where
  "client_view c i = \<lparr>sv_init = i, sv_ready = ready c,
     sv_doc = (if opened c then Some (docVersion c, the (lastSentText c)) else None)\<rparr>"

definition has_init :: "lsp_effect list \<Rightarrow> bool" where
  "has_init es \<longleftrightarrow> filter is_init_req (sent_msgs es) \<noteq> []"

definition is_winit :: "nat \<times> waiting \<Rightarrow> bool" where
  "is_winit p \<longleftrightarrow> snd p = WInit"

text \<open>The invariant: the server's state is a function of the client's.\<close>

definition sync_inv :: "lsp_opts \<Rightarrow> trace \<Rightarrow> bool" where
  "sync_inv o1 t = (case t of (c, es) \<Rightarrow>
     replay (o_doc_uri o1) (sent_msgs es) server_init = Some (client_view c (has_init es))
     \<and> (ready c \<longrightarrow> worker c \<and> has_init es \<and> filter is_winit (pending c) = [])
     \<and> (opened c \<longrightarrow> ready c \<and> lastSentText c \<noteq> None)
     \<and> (\<not> worker c \<longrightarrow> \<not> has_init es \<and> pending c = [])
     \<and> (filter is_winit (pending c) \<noteq> [] \<longrightarrow> has_init es)
     \<and> length (filter is_winit (pending c)) \<le> 1)"

text \<open>Requests: each identifier is used once, and is either pending or settled.\<close>

fun requested :: "lsp_effect list \<Rightarrow> nat list" where
  "requested [] = []"
| "requested (Send (Req k _) # es) = k # requested es"
| "requested (_ # es) = requested es"

fun settled :: "lsp_effect list \<Rightarrow> nat list" where
  "settled [] = []"
| "settled (Settle k _ # es) = k # settled es"
| "settled (_ # es) = settled es"

subsection \<open>Preservation\<close>

named_theorems client_defs \<open>the operations of the client\<close>

lemmas [client_defs] = rpc_send_def notify_def rpc_call_def andThen_def emit_def Let_def
  report_error_def

lemma has_init_append [simp]: "has_init (es @ fs) = (has_init es \<or> has_init fs)"
  by (simp add: has_init_def)

lemma has_init_simps [simp]:
  "has_init [] = False"
  "has_init (Send m # es) = (is_init_req m \<or> has_init es)"
  "has_init (Markers ms # es) = has_init es" "has_init (OnReady # es) = has_init es"
  "has_init (OnError e # es) = has_init es" "has_init (OnProgress pv pm # es) = has_init es"
  "has_init (Providers # es) = has_init es" "has_init (Settle k a # es) = has_init es"
  "has_init (Immediate a # es) = has_init es" "has_init (Diag d # es) = has_init es"
  "has_init (NewBackground d # es) = has_init es"
  by (simp_all add: has_init_def)

text \<open>\<open>keeps o1 P f\<close>: from a client with \<open>P\<close>,
  the operation \<open>f\<close> keeps the invariant.\<close>

definition keeps :: "lsp_opts \<Rightarrow> (trace \<Rightarrow> bool) \<Rightarrow> (client \<Rightarrow> outcome) \<Rightarrow> (trace \<Rightarrow> bool) \<Rightarrow> bool" where
  "keeps o1 P f Q \<longleftrightarrow> (\<forall>c es. sync_inv o1 (c, es) \<longrightarrow> P (c,
    es) \<longrightarrow>
     (case f c of (c', es') \<Rightarrow> sync_inv o1 (c', es @ es') \<and> Q (c', es @ es')))"

lemma keepsI:
  "(\<And>c es c' es'. sync_inv o1 (c, es) \<Longrightarrow> P (c, es) \<Longrightarrow> f c = (c',
    es') \<Longrightarrow>
      sync_inv o1 (c', es @ es') \<and> Q (c', es @ es')) \<Longrightarrow> keeps o1 P f Q"
  by (auto simp: keeps_def)

lemma keeps_andThen:
  "keeps o1 P f Q \<Longrightarrow> keeps o1 Q g R \<Longrightarrow> keeps o1 P (\<lambda>c. andThen (f c) g) R"
  unfolding keeps_def andThen_def
  by (fastforce split: prod.splits simp flip: append_assoc)

text \<open>Effects that are not messages of the protocol change nothing for the server.\<close>

lemma sync_inv_quiet:
  "sync_inv o1 (c, es) \<Longrightarrow> sent_msgs fs = [] \<Longrightarrow> sync_inv o1 (c, es
    @ fs)"
  by (simp add: sync_inv_def has_init_def)

definition is_open :: "trace \<Rightarrow> bool" where
  "is_open t = (ready (fst t) \<and> opened (fst t))"

lemma keeps_didChange: "keeps o1 P (didChange o1 t) (\<lambda>u. True)"
  by (rule keepsI)
    (auto simp: didChange_def client_defs sync_inv_def client_view_def split: if_splits)

lemma keeps_didChange_open: "keeps o1 is_open (didChange o1 t) is_open"
  by (rule keepsI)
    (auto simp: didChange_def client_defs sync_inv_def client_view_def is_open_def split: if_splits)

lemma keeps_didOpen: "keeps o1 P (didOpen o1 t) (\<lambda>u. True)"
proof (rule keepsI)
  fix c es c' es'
  assume inv: "sync_inv o1 (c, es)" and st: "didOpen o1 t c = (c', es')"
  show "sync_inv o1 (c', es @ es') \<and> True"
  proof (cases "opened c")
    case True
    then have "didOpen o1 t c = didChange o1 t c" by (simp add: didOpen_def didChange_def)
    with keeps_didChange [of o1 "\<lambda>_. True" t] inv st show ?thesis by (fastforce simp: keeps_def)
  next
    case False
    with inv st show ?thesis
      by (auto simp: didOpen_def client_defs sync_inv_def client_view_def split: if_splits)
  qed
qed

lemma keeps_didClose: "keeps o1 P (didClose o1) (\<lambda>u. True)"
  by (rule keepsI)
    (auto simp: didClose_def clearDiagnostics_def client_defs sync_inv_def client_view_def
      on_doc_def split: if_splits)

lemma keeps_request:
  "\<lbrakk>w \<noteq> WInit; \<not> is_init_req (Req 0 r);
    \<And>k s. sv_ready s \<Longrightarrow> sv_doc s \<noteq> None \<Longrightarrow> server_step (o_doc_uri o1) (Req k r) s = Some s\<rbrakk>
   \<Longrightarrow> keeps o1 is_open (rpc_call r w) (\<lambda>u. True)"
  by (rule keepsI, cases r)
    (auto simp: client_defs sync_inv_def client_view_def is_open_def is_winit_def)

lemma keeps_resolve:
  "keeps o1 (\<lambda>t. ready (fst t)) (rpc_call (ReqResolve it) (WResolve m)) (\<lambda>u. True)"
  by (rule keepsI)
    (auto simp: client_defs sync_inv_def client_view_def is_winit_def)

lemma keeps_initialize:
  "keeps o1 (\<lambda>t. worker (fst t) \<and> \<not> has_init (snd t)) (finishBoot o1) (\<lambda>u. True)"
  by (rule keepsI)
    (auto simp: finishBoot_def client_defs sync_inv_def client_view_def is_winit_def)

lemma keeps_weaken:
  "keeps o1 P f Q \<Longrightarrow> (\<And>t. P' t \<Longrightarrow> P t) \<Longrightarrow> (\<And>t. Q t \<Longrightarrow> Q' t) \<Longrightarrow> keeps o1 P' f Q'"
  by (fastforce simp: keeps_def split: prod.splits)

text \<open>An operation whose effects are no messages and that leaves the protocol state alone.\<close>

lemma keeps_quiet:
  assumes "\<And>c c' es'. f c = (c', es') \<Longrightarrow> sent_msgs es' = []
      \<and> (worker c', ready c', opened c', pending c', docVersion c', lastSentText c')
        = (worker c, ready c, opened c, pending c, docVersion c, lastSentText c)"
  shows "keeps o1 P f (\<lambda>u. True)"
proof (rule keepsI)
  fix c es c' es'
  assume "sync_inv o1 (c, es)" "f c = (c', es')"
  with assms [of c c' es'] show "sync_inv o1 (c', es @ es') \<and> True"
    by (simp add: sync_inv_def client_view_def has_init_def)
qed

lemma keeps_init_failed: "keeps o1 P (init_failed m) (\<lambda>u. True)"
  by (rule keeps_quiet) (auto simp: init_failed_def boot_failed_def client_defs)

text \<open>Taking a request out of the pending table,
  and what its continuation may then assume.\<close>

definition may_finish :: "waiting \<Rightarrow> trace \<Rightarrow> bool" where
  "may_finish w t = (w = WInit \<longrightarrow>
     worker (fst t) \<and> has_init (snd t) \<and> \<not> ready (fst t) \<and> \<not> opened (fst t)
     \<and> filter is_winit (pending (fst t)) = [])"

lemma filter_filter_le: "length (filter P (filter Q xs)) \<le> length (filter P xs)"
  by (induction xs) auto

lemma filter_drop_one:
  assumes "x \<in> set xs" and "P x" and "\<not> Q x" and "length (filter P xs) \<le> 1"
  shows "filter P (filter Q xs) = []"
proof -
  from assms(1,2) have "x \<in> set (filter P xs)" by simp
  with assms(4) have "filter P xs = [x]" by (cases "filter P xs") auto
  then have "filter Q (filter P xs) = []" using assms(3) by simp
  then show ?thesis by (simp add: conj_commute)
qed

lemma find_pending_mem: "find_pending i c = Some (k, w) \<Longrightarrow> (k,
  w) \<in> set (pending c)"
  unfolding find_pending_def by (auto simp: find_Some_iff)

lemma sync_drop_pending:
  assumes inv: "sync_inv o1 (c, es)" and f: "find_pending i c = Some (k, w)"
  shows "sync_inv o1 (drop_pending k c, es) \<and> may_finish w (drop_pending k c, es)"
proof
  have le: "length (filter is_winit (filter (\<lambda>p. fst p \<noteq> k) (pending c))) \<le> 1"
    using inv filter_filter_le [of is_winit "\<lambda>p. fst p \<noteq> k" "pending c"]
    by (auto simp: sync_inv_def)
  have sub: "filter is_winit (pending c) = [] \<Longrightarrow>
      filter is_winit (filter (\<lambda>p. fst p \<noteq> k) (pending c)) = []"
    by (auto simp: filter_empty_conv)
  show "sync_inv o1 (drop_pending k c, es)"
    using inv le sub
    by (auto simp: sync_inv_def client_view_def drop_pending_def simp del: filter_filter)
  show "may_finish w (drop_pending k c, es)"
  proof (cases "w = WInit")
    case True
    have mem: "(k, w) \<in> set (pending c)" using f by (rule find_pending_mem)
    have win: "is_winit (k, w)" using True by (simp add: is_winit_def)
    have "filter is_winit (pending c) \<noteq> []" using mem win by (auto simp: filter_empty_conv)
    moreover have "filter is_winit (filter (\<lambda>p. fst p \<noteq> k) (pending c)) = []"
      by (rule filter_drop_one [where x = "(k, w)",
        OF mem]) (use win inv in \<open>auto simp: sync_inv_def\<close>)
    ultimately show ?thesis
      using inv by (auto simp: sync_inv_def may_finish_def drop_pending_def simp del: filter_filter)
  qed (simp add: may_finish_def)
qed

lemma keeps_init_done: "keeps o1 (may_finish WInit) (init_done o1) (\<lambda>u. True)"
  by (rule keepsI)
    (auto simp: init_done_def init_failed_def boot_failed_def client_defs sync_inv_def
      client_view_def may_finish_def split: option.splits)

lemma keeps_settle: "keeps o1 (may_finish w) (settle str o1 k w r) (\<lambda>u. True)"
proof (cases "w = WInit")
  case True
  have q: "keeps o1 (may_finish WInit) (\<lambda>c. (c, [Settle k AInit])) (may_finish WInit)"
    by (rule keepsI) (auto simp: sync_inv_quiet may_finish_def)
  have "keeps o1 (may_finish WInit)
      (case r of Inl e \<Rightarrow> init_failed (error_text str e) | Inr _ \<Rightarrow> init_done o1) (\<lambda>u. True)"
    by (cases r) (auto intro: keeps_init_failed keeps_init_done)
  from keeps_andThen [OF q this]
  have "keeps o1 (may_finish WInit) (settle str o1 k WInit r) (\<lambda>u. True)"
    by (auto simp: settle_def [abs_def])
  then show ?thesis using True by simp
next
  case False
  then show ?thesis by (intro keeps_quiet) (auto simp: settle_def split: waiting.splits)
qed

lemma keeps_onMessage: "keeps o1 (\<lambda>t. worker (fst t)) (onMessage str o1 m) (\<lambda>u. True)"
proof (rule keepsI)
  fix c es c' es'
  assume inv: "sync_inv o1 (c, es)" and st: "onMessage str o1 m c = (c', es')"
  show "sync_inv o1 (c', es @ es') \<and> True"
  proof (cases "m_id m \<noteq> JUndef \<and> m_method m = JUndef")
    case True
    then show ?thesis
    proof (cases "find_pending (m_id m) c")
      case (Some kw)
      obtain k w where kw: "kw = (k, w)" by (cases kw)
      have "sync_inv o1 (drop_pending k c, es) \<and> may_finish w (drop_pending k c, es)"
        using sync_drop_pending [OF inv] Some kw by simp
      with keeps_settle [of o1 w str k
          "if truthy (m_error m) then Inl (m_error m) else Inr (m_result m)"] True Some kw st
      show ?thesis by (fastforce simp: keeps_def onMessage_def)
    qed (use inv st in \<open>auto simp: onMessage_def\<close>)
  next
    case False
    then show ?thesis using inv st
      by (auto simp: onMessage_def rpc_send_def applyDiagnostics_def sync_inv_def client_view_def
          split: if_splits)
  qed
qed

lemma keeps_boot_failed: "keeps o1 P (boot_failed m) (\<lambda>u. True)"
  by (rule keeps_quiet) (auto simp: boot_failed_def client_defs)

lemma keeps_start: "keeps o1 (\<lambda>t. \<not> worker (fst t)) (start o1 ctor) (\<lambda>u. True)"
  by (rule keepsI)
    (auto simp: start_def startClangd_def startPyright_def finishBoot_def client_defs sync_inv_def
      client_view_def is_winit_def split: option.splits if_splits)

lemma keeps_clangd_message:
  "keeps o1 (\<lambda>t. worker (fst t) \<and> (d = Control CtlReady \<longrightarrow> \<not> has_init (snd t)))
     (clangd_message str o1 d) (\<lambda>u. True)"
proof -
  have ready: "keeps o1 (\<lambda>t. worker (fst t) \<and> \<not> has_init (snd t))
      (\<lambda>c. andThen (c, [Diag m]) (finishBoot o1)) (\<lambda>u. True)" for m
    by (rule keeps_andThen [OF _ keeps_initialize])
      (rule keepsI, auto simp: sync_inv_quiet)
  show ?thesis
  proof (cases d)
    case (Rpc m)
    then show ?thesis
      using keeps_weaken [OF keeps_onMessage [of o1 str m], where Q' = "\<lambda>u. True"]
      by (simp add: clangd_message_def [abs_def])
  next
    case (Control k)
    show ?thesis
    proof (cases "k = CtlReady")
      case True
      then show ?thesis
        using ready [of "(js ''worker reports ready'')"] by (simp add: clangd_message_def [abs_def] Control)
    next
      case False
      then show ?thesis
        by (intro keeps_quiet)
          (auto simp: clangd_message_def Control boot_failed_def client_defs
            split: control.splits if_splits)
    qed
  qed (auto intro!: keeps_quiet simp: clangd_message_def)
qed

lemma keeps_pyright_message:
  "keeps o1 (\<lambda>t. worker (fst t)) (pyright_message str o1 bg d) (\<lambda>u. True)"
proof (cases d)
  case (Rpc m)
  then show ?thesis using keeps_onMessage by (simp add: pyright_message_def [abs_def])
qed (auto intro!: keeps_quiet simp: pyright_message_def split: control.splits option.splits)

lemma keeps_editor_request:
  assumes "w \<noteq> WInit" "\<not> is_init_req (Req 0 r)"
    "\<And>k s. sv_ready s \<Longrightarrow> sv_doc s \<noteq> None \<Longrightarrow> server_step (o_doc_uri o1) (Req k r) s = Some s"
  shows "keeps o1 is_open (\<lambda>c. andThen (didChange o1 t c) (rpc_call r w)) (\<lambda>u. True)"
  by (rule keeps_andThen [OF keeps_didChange_open keeps_request [OF assms]])

lemma keeps_with_answer:
  assumes "\<And>c. \<not> P (c, []) \<Longrightarrow> \<exists>a. f c = ((c, []), Some a)"
    and "\<And>c. P (c, []) \<Longrightarrow> f c = (g c, None)"
    and "\<And>c es. P (c, es) = P (c, [])"
    and "keeps o1 P g (\<lambda>u. True)"
  shows "keeps o1 R (\<lambda>c. with_answer (f c)) (\<lambda>u. True)"
proof (rule keepsI)
  fix c es c' es'
  assume inv: "sync_inv o1 (c, es)" and st: "with_answer (f c) = (c', es')"
  show "sync_inv o1 (c', es @ es') \<and> True"
  proof (cases "P (c, [])")
    case True
    then have "g c = (c', es')" using st assms(2) [OF True]
      by (cases "g c") (simp add: with_answer_def)
    moreover have "P (c, es)" using True by (subst assms(3))
    ultimately show ?thesis using assms(4) inv by (fastforce simp: keeps_def)
  next
    case False
    with assms(1) [OF False] st inv show ?thesis
      by (auto simp: with_answer_def sync_inv_quiet)
  qed
qed

lemma keeps_step: "keeps o1 (lsp_ok op) (lsp_step str o1 op) (\<lambda>u. True)"
proof (cases op)
  case (Start ctor)
  show ?thesis
    unfolding Start lsp_step.simps by (rule keeps_weaken [OF keeps_start]) (auto split: prod.splits)
next
  case (Completion t p wd trig)
  show ?thesis
    unfolding Completion lsp_step.simps
    by (rule keeps_with_answer [where P = is_open, OF _ _ _ keeps_editor_request])
      (auto simp: provideCompletion_def is_open_def on_doc_def)
next
  case (Hover t p)
  show ?thesis
    unfolding Hover lsp_step.simps
    by (rule keeps_with_answer [where P = is_open, OF _ _ _ keeps_editor_request])
      (auto simp: provideHover_def is_open_def on_doc_def)
next
  case (Signature t p)
  show ?thesis
    unfolding Signature lsp_step.simps
    by (rule keeps_with_answer [where P = is_open, OF _ _ _ keeps_editor_request])
      (auto simp: provideSignatureHelp_def is_open_def on_doc_def)
next
  case (ResolveItem it b)
  show ?thesis
    unfolding ResolveItem lsp_step.simps
  proof (cases b)
    case True
    show "keeps o1 (lsp_ok (ResolveItem it b)) (\<lambda>c. with_answer (resolveCompletion it b c)) (\<lambda>u. True)"
      by (rule keeps_with_answer [where P = "\<lambda>t. ready (fst t)", OF _ _ _ keeps_resolve])
        (auto simp: resolveCompletion_def True)
  qed (auto intro!: keeps_quiet simp: resolveCompletion_def with_answer_def)
next
  case (FromWorker bg d)
  show ?thesis
  proof (cases "o_server o1 = Clangd")
    case True
    have "keeps o1 (lsp_ok (FromWorker bg d)) (clangd_message str o1 d) (\<lambda>u. True)"
      by (rule keeps_weaken [OF keeps_clangd_message]) (auto simp: has_init_def)
    moreover have "lsp_step str o1 op = clangd_message str o1 d"
      by (rule ext) (simp add: FromWorker True)
    ultimately show ?thesis by (simp add: FromWorker)
  next
    case False
    have "keeps o1 (lsp_ok (FromWorker bg d)) (pyright_message str o1 bg d) (\<lambda>u. True)"
      by (rule keeps_weaken [OF keeps_pyright_message]) auto
    moreover have "lsp_step str o1 op = pyright_message str o1 bg d"
      by (rule ext) (simp add: FromWorker False)
    ultimately show ?thesis by (simp add: FromWorker)
  qed
next
  case (WorkerError m)
  show ?thesis
    unfolding WorkerError lsp_step.simps
    by (rule keeps_quiet) (auto simp: worker_error_def boot_failed_def client_defs split: if_splits)
next
  case BootTimeout
  show ?thesis
    unfolding BootTimeout lsp_step.simps
    by (rule keeps_quiet) (auto simp: boot_timeout_def client_defs split: if_splits)
next
  case (SetDiagModel m)
  show ?thesis unfolding SetDiagModel lsp_step.simps by (rule keeps_quiet) auto
next
  case (Open t)
  show ?thesis unfolding Open lsp_step.simps by (rule keeps_didOpen)
next
  case (Change t)
  show ?thesis unfolding Change lsp_step.simps by (rule keeps_didChange)
next
  case Close
  show ?thesis unfolding Close lsp_step.simps by (rule keeps_didClose)
qed

subsection \<open>Request identifiers\<close>

lemma requested_append [simp]: "requested (es @ fs) = requested es @ requested fs"
  by (induction es rule: requested.induct) auto

lemma settled_append [simp]: "settled (es @ fs) = settled es @ settled fs"
  by (induction es rule: settled.induct) auto

definition id_inv :: "trace \<Rightarrow> bool" where
  "id_inv t = (case t of (c, es) \<Rightarrow>
     distinct (requested es) \<and> list_all (\<lambda>k. k < nextId c) (requested es)
     \<and> mset (requested es) = mset (settled es) + mset (map fst (pending c)))"

text \<open>What one step does to the identifiers: nothing, a new request, or an answer.\<close>

definition shape_quiet :: "client \<Rightarrow> outcome \<Rightarrow> bool" where
  "shape_quiet c r = (case r of (c', es) \<Rightarrow>
     requested es = [] \<and> settled es = [] \<and> pending c' = pending c \<and> nextId c' = nextId c)"

definition shape_call :: "client \<Rightarrow> outcome \<Rightarrow> bool" where
  "shape_call c r = (case r of (c', es) \<Rightarrow>
     requested es = [nextId c] \<and> settled es = [] \<and> nextId c' = nextId c + 1
     \<and> map fst (pending c') = map fst (pending c) @ [nextId c])"

definition shape_settle :: "client \<Rightarrow> outcome \<Rightarrow> bool" where
  "shape_settle c r = (case r of (c', es) \<Rightarrow>
     requested es = [] \<and> nextId c' = nextId c \<and>
     (\<exists>k. settled es = [k] \<and> k \<in> fst ` set (pending c)
        \<and> pending c' = filter (\<lambda>p. fst p \<noteq> k) (pending c)))"

definition shape :: "client \<Rightarrow> outcome \<Rightarrow> bool" where
  "shape c r \<longleftrightarrow> shape_quiet c r \<or> shape_call c r \<or> shape_settle c r"

lemma mset_drop_key:
  "distinct (map fst ps) \<Longrightarrow> k \<in> fst ` set ps \<Longrightarrow>
     mset (map fst ps) = add_mset k (mset (map fst (filter (\<lambda>p. fst p \<noteq> k) ps)))"
proof (induction ps)
  case (Cons p ps)
  show ?case
  proof (cases "fst p = k")
    case True
    then have "filter (\<lambda>p. fst p \<noteq> k) ps = ps"
      using Cons.prems(1) by (intro filter_True) (auto simp: image_iff)
    then show ?thesis using True by simp
  qed (use Cons in auto)
qed simp

lemma shape_id_inv:
  assumes inv: "id_inv (c, es)" and sh: "shape c (c', es')"
  shows "id_inv (c', es @ es')"
proof -
  consider "shape_quiet c (c', es')" | "shape_call c (c', es')" | "shape_settle c (c', es')"
    using sh by (auto simp: shape_def)
  then show ?thesis
  proof cases
    case 1
    then show ?thesis using inv by (simp add: shape_quiet_def id_inv_def)
  next
    case 2
    then show ?thesis using inv by (auto simp: shape_call_def id_inv_def list_all_iff simp del: mset_map)
  next
    case 3
    then obtain k where k: "settled es' = [k]" "k \<in> fst ` set (pending c)"
        "pending c' = filter (\<lambda>p. fst p \<noteq> k) (pending c)"
      and rest: "requested es' = []" "nextId c' = nextId c"
      by (auto simp: shape_settle_def)
    have "mset (requested es) = mset (settled es) + mset (map fst (pending c))"
      and d: "distinct (requested es)"
      using inv by (simp_all add: id_inv_def)
    then have "distinct (map fst (pending c))"
      by (metis distinct_append mset_append mset_eq_imp_distinct_iff)
    from mset_drop_key [OF this k(2)] inv k rest show ?thesis
      by (simp add: id_inv_def)
  qed
qed

lemma shape_didChange_call:
  "worker c \<Longrightarrow> shape c (andThen (didChange o1 t c) (rpc_call r w))"
  by (auto simp: shape_def shape_call_def didChange_def client_defs)

lemma shape_settled:
  "find_pending i c = Some (k,
    w) \<Longrightarrow> shape c (settle str o1 k w r (drop_pending k c))"
  by (frule find_pending_mem, cases w; cases r)
    (force simp: shape_def shape_settle_def settle_def drop_pending_def init_done_def
      init_failed_def boot_failed_def client_defs split: option.splits)+

lemma shape_onMessage: "shape c (onMessage str o1 m c)"
proof (cases "m_id m \<noteq> JUndef \<and> m_method m = JUndef \<and> find_pending (m_id m) c \<noteq> None")
  case True
  then obtain k w where "find_pending (m_id m) c = Some (k, w)" by auto
  with True show ?thesis by (simp add: onMessage_def shape_settled)
next
  case False
  then show ?thesis
    by (auto simp: shape_def shape_quiet_def onMessage_def rpc_send_def applyDiagnostics_def
        split: option.splits)
qed

lemmas boot_step_defs = start_def startClangd_def startPyright_def finishBoot_def boot_failed_def
  boot_timeout_def worker_error_def

lemma shape_worker:
  assumes "worker c"
  shows "shape c (if o_server o1 = Clangd then clangd_message str o1 d c else pyright_message str o1 bg d c)"
proof (cases d)
  case (Control k)
  then show ?thesis using assms
    by (cases k) (auto simp: clangd_message_def pyright_message_def shape_def shape_quiet_def
        shape_call_def boot_step_defs client_defs split: option.split)
next
  case (Rpc m)
  then show ?thesis by (simp add: clangd_message_def pyright_message_def shape_onMessage)
qed (simp add: clangd_message_def pyright_message_def shape_def shape_quiet_def)

lemma shape_with_answer: "shape c (with_answer ((c, []), Some a))"
  by (simp add: shape_def shape_quiet_def with_answer_def)

lemma with_answer_None [simp]: "with_answer (r, None) = r"
  by (simp add: with_answer_def split: prod.split)

lemma shape_step:
  assumes inv: "sync_inv o1 (c, es)" and ok: "lsp_ok op (c, es)"
  shows "shape c (lsp_step str o1 op c)"
proof -
  have rw: "ready c \<Longrightarrow> worker c" using inv by (simp add: sync_inv_def)
  show ?thesis
  proof (cases op)
    case (Start ctor)
    then show ?thesis
      by (auto simp: shape_def shape_quiet_def shape_call_def boot_step_defs client_defs
          split: option.split)
  next
    case (FromWorker bg d)
    with ok show ?thesis by (simp add: shape_worker)
  next
    case (ResolveItem it b)
    have "worker c \<Longrightarrow> shape c (rpc_call (ReqResolve x) y c)" for x y
      by (simp add: shape_def shape_call_def client_defs)
    then show ?thesis using rw
      by (simp add: ResolveItem resolveCompletion_def shape_with_answer)
  qed (use rw in \<open>auto simp: provideCompletion_def provideHover_def provideSignatureHelp_def
      shape_didChange_call shape_with_answer\<close>,
      (auto simp: shape_def shape_quiet_def didOpen_def didChange_def didClose_def
        clearDiagnostics_def boot_step_defs client_defs)+)
qed

section \<open>The client as a machine\<close>

lemma trace_step_sync: "sync_inv o1 t \<Longrightarrow> lsp_ok op t \<Longrightarrow> sync_inv o1 (trace_step str o1 op t)"
  using keeps_step [of o1 op str]
  by (cases t) (fastforce simp: keeps_def trace_step_def split: prod.splits)

lemma trace_step_id:
  "sync_inv o1 t \<Longrightarrow> id_inv t \<Longrightarrow> lsp_ok op t \<Longrightarrow> id_inv (trace_step str o1 op t)"
  using shape_step [of o1 "fst t" "snd t" op str]
  by (cases t; cases "lsp_step str o1 op (fst t)")
    (auto simp: trace_step_def intro: shape_id_inv)

interpretation lsp: guarded_machine "trace_step str o1" "\<lambda>t. sync_inv o1 t \<and> id_inv t" lsp_ok
  by unfold_locales (auto intro: trace_step_sync trace_step_id)

text \<open>Once the client is ready: it stays so, and reports no error.\<close>

fun is_error :: "lsp_effect \<Rightarrow> bool" where
  "is_error (OnError _) = True"
| "is_error _ = False"

definition no_errors :: "lsp_effect list \<Rightarrow> bool" where
  "no_errors es \<longleftrightarrow> filter is_error es = []"

lemma ready_settle:
  "w \<noteq> WInit \<Longrightarrow> ready (fst (settle str o1 k w r c)) = ready c
     \<and> filter is_error (snd (settle str o1 k w r c)) = []"
  by (auto simp: settle_def split: waiting.split)

lemma ready_onMessage:
  assumes "ready c" and "filter is_winit (pending c) = []"
  shows "ready (fst (onMessage str o1 m c)) \<and> filter is_error (snd (onMessage str o1 m c)) = []"
proof (cases "find_pending (m_id m) c")
  case None
  then show ?thesis using assms(1)
    by (auto simp: onMessage_def rpc_send_def applyDiagnostics_def)
next
  case (Some kw)
  obtain k w where kw: "kw = (k, w)" by (cases kw)
  have "(k, w) \<in> set (pending c)" using Some kw by (simp add: find_pending_mem)
  then have "w \<noteq> WInit" using assms(2) by (auto simp: filter_empty_conv is_winit_def)
  then show ?thesis using assms(1) Some kw
    by (auto simp: onMessage_def rpc_send_def applyDiagnostics_def ready_settle drop_pending_def)
qed

lemma ready_step:
  assumes "sync_inv o1 (c, es)" "lsp_ok op (c, es)" "ready c"
  shows "ready (fst (lsp_step str o1 op c)) \<and> filter is_error (snd (lsp_step str o1 op c)) = []"
proof -
  have w: "worker c" and nw: "filter is_winit (pending c) = []"
    using assms by (auto simp: sync_inv_def)
  show ?thesis
  proof (cases op)
    case (FromWorker bg d)
    then show ?thesis
      using assms(3) ready_onMessage [OF assms(3) nw]
      by (cases d) (auto simp: clangd_message_def pyright_message_def boot_step_defs client_defs
          split: control.split option.split)
  qed (use assms w in \<open>auto simp: provideCompletion_def provideHover_def provideSignatureHelp_def
      resolveCompletion_def with_answer_def didOpen_def didChange_def didClose_def
        clearDiagnostics_def boot_step_defs client_defs\<close>)
qed

interpretation lsp_ready: guarded_machine "trace_step str o1"
    "\<lambda>t. sync_inv o1 t \<and> ready (fst t) \<and> filter is_error (snd t) = errs" lsp_ok
proof unfold_locales
  fix t op
  assume a: "sync_inv o1 t \<and> ready (fst t) \<and> filter is_error (snd t) = errs" and ok: "lsp_ok op t"
  then show "sync_inv o1 (trace_step str o1 op t) \<and> ready (fst (trace_step str o1 op t))
      \<and> filter is_error (snd (trace_step str o1 op t)) = errs"
    using trace_step_sync [of o1 t op str] ready_step [of o1 "fst t" "snd t" op str]
    by (auto simp: trace_step_def split: prod.splits)
qed

lemma lsp_inv_init: "sync_inv o1 trace_init \<and> id_inv trace_init"
  by (simp add: sync_inv_def id_inv_def trace_init_def client_init_def server_init_def
      client_view_def)

section \<open>Properties\<close>

definition lsp_run :: "(jval \<Rightarrow> jstr) \<Rightarrow> lsp_opts \<Rightarrow> lsp_op list \<Rightarrow> trace" where
  "lsp_run str o1 ops = fold (trace_step str o1) ops trace_init"

text \<open>A client of clangd, and a short session with it.\<close>

definition demo_opts :: lsp_opts where
  "demo_opts = \<lparr>o_name = (js ''clangd''), o_server = Clangd, o_language = (js ''cpp''),
     o_doc_uri = (js ''file:///home/web_user/main.cpp''),
       o_root_uri = (js ''file:///home/web_user''),
     o_init_options = JObj [], o_has_worker = True, o_isolated = True,
       o_ready_throws = None\<rparr>"

definition demo_reply :: "int \<Rightarrow> rpc_msg" where
  "demo_reply i = \<lparr>m_id = JNum i, m_method = JUndef, m_error = JUndef,
     m_result = \<lparr>rv_completion = None, rv_resolve = None, rv_hover = None,
       rv_signature = None\<rparr>,
     m_uri = [], m_diagnostics = None\<rparr>"

definition demo_boot :: "lsp_op list" where
  "demo_boot = [Start None, FromWorker None (Control CtlReady),
    FromWorker None (Rpc (demo_reply 1))]"

definition demo_pos :: monaco_pos where
  "demo_pos = \<lparr>lineNumber = 1, column = 2\<rparr>"

definition demo_session :: "lsp_op list" where
  "demo_session = demo_boot @ [Open (js ''int x;''), Change (js ''int y;''),
    Hover (js ''int yy;'') demo_pos,
     FromWorker None (Rpc (demo_reply 2)), FromWorker None (Rpc (demo_reply 2)), Close,
     Open (js ''int z;'')]"

lemmas demo_defs = demo_opts_def demo_reply_def demo_boot_def demo_pos_def demo_session_def

text \<open>
  C8: the server's document is the client's. Along every run (a client is started while its
  worker is not running, and the worker reports ready once), the messages sent obey the
  protocol: initialize first and once, initialized once and before anything else, the document
  opened, changed with consecutive versions and closed in turn, and position requests only
  while it is open. Replaying them gives the server exactly the version and text the client
  has recorded, and an open document exactly when the client thinks it is open.
\<close>

theorem lsp_server_in_sync:
  assumes "run_ok (trace_step str o1) lsp_ok ops trace_init"
  shows "map_option sv_doc (replay (o_doc_uri o1) (sent_msgs (snd (lsp_run str o1 ops))) server_init)
    = Some (if opened (fst (lsp_run str o1 ops))
            then map_option (Pair (docVersion (fst (lsp_run str o1 ops))))
                   (lastSentText (fst (lsp_run str o1 ops)))
            else None)"
proof -
  obtain c es where t: "lsp_run str o1 ops = (c, es)" by (cases "lsp_run str o1 ops")
  have "sync_inv o1 (c, es)"
    using lsp.run_inv_ok [OF lsp_inv_init assms] t by (simp add: lsp_run_def)
  then show ?thesis by (auto simp: sync_inv_def client_view_def t)
qed

theorem lsp_server_in_sync_witness:
  "map_option sv_doc (replay (o_doc_uri demo_opts)
     (sent_msgs (snd (lsp_run (\<lambda>v. []) demo_opts demo_session))) server_init)
   = Some (Some (1, (js ''int z;'')))"
proof -
  have "run_ok (trace_step (\<lambda>v. []) demo_opts) lsp_ok demo_session trace_init" by code_simp
  note lsp_server_in_sync [OF this]
  moreover have "opened (fst (lsp_run (\<lambda>v. []) demo_opts demo_session))"
    and "docVersion (fst (lsp_run (\<lambda>v. []) demo_opts demo_session)) = 1"
    and "lastSentText (fst (lsp_run (\<lambda>v. []) demo_opts demo_session)) = Some ((js ''int z;''))"
    by code_simp+
  ultimately show ?thesis by simp
qed

text \<open>
  C24: no request is lost, and none is answered twice. Along every run, whatever the worker
  sends (replies to unknown identifiers, repeated replies, identifiers of another type), the
  identifiers of the requests sent are distinct, and they are those already settled together
  with those still pending, each counted once.
\<close>

theorem lsp_requests_settled_once:
  assumes "run_ok (trace_step str o1) lsp_ok ops trace_init"
  shows "distinct (requested (snd (lsp_run str o1 ops)))
    \<and> mset (requested (snd (lsp_run str o1 ops)))
      = mset (settled (snd (lsp_run str o1 ops)))
        + mset (map fst (pending (fst (lsp_run str o1 ops))))"
proof -
  obtain c es where t: "lsp_run str o1 ops = (c, es)" by (cases "lsp_run str o1 ops")
  have "id_inv (c, es)"
    using lsp.run_inv_ok [OF lsp_inv_init assms] t by (simp add: lsp_run_def)
  then show ?thesis by (simp add: id_inv_def t)
qed

theorem lsp_requests_settled_once_witness:
  "mset (requested (snd (lsp_run (\<lambda>v. []) demo_opts demo_session))) = {#1, 2#}
   \<and> settled (snd (lsp_run (\<lambda>v. []) demo_opts demo_session)) = [1, 2]"
proof -
  have "run_ok (trace_step (\<lambda>v. []) demo_opts) lsp_ok demo_session trace_init" by code_simp
  note lsp_requests_settled_once [OF this]
  moreover have "settled (snd (lsp_run (\<lambda>v. []) demo_opts demo_session)) = [1, 2]"
    and "pending (fst (lsp_run (\<lambda>v. []) demo_opts demo_session)) = []"
    by code_simp+
  ultimately show ?thesis by (simp del: mset_map)
qed

text \<open>
  Errors after boot are ignored. Once a run has made the client ready it stays ready, and
  nothing that follows (worker errors, a crash of clangd, the boot timer, late or failed
  replies) reports another error to the editor.
\<close>

lemma lsp_ready_is_final:
  assumes "run_ok (trace_step str o1) lsp_ok ops trace_init"
    and "ready (fst (lsp_run str o1 ops))"
    and "run_ok (trace_step str o1) lsp_ok later (lsp_run str o1 ops)"
  shows "ready (fst (lsp_run str o1 (ops @ later)))
    \<and> filter is_error (snd (lsp_run str o1 (ops @ later)))
      = filter is_error (snd (lsp_run str o1 ops))"
proof -
  have "sync_inv o1 (lsp_run str o1 ops)"
    using lsp.run_inv_ok [OF lsp_inv_init assms(1)] by (simp add: lsp_run_def)
  with lsp_ready.run_inv_ok [of o1 "lsp_run str o1 ops"
      "filter is_error (snd (lsp_run str o1 ops))" str later] assms(2,3)
  show ?thesis by (simp add: lsp_run_def)
qed

lemma lsp_ready_is_final_witness:
  "ready (fst (lsp_run (\<lambda>v. []) demo_opts
     (demo_boot @ [WorkerError (js ''boom''), FromWorker None (Control CtlAborted), BootTimeout])))
   \<and> filter is_error (snd (lsp_run (\<lambda>v. []) demo_opts
     (demo_boot @ [WorkerError (js ''boom''), FromWorker None (Control CtlAborted),
       BootTimeout]))) = []"
proof -
  have "run_ok (trace_step (\<lambda>v. []) demo_opts) lsp_ok demo_boot trace_init"
    and "ready (fst (lsp_run (\<lambda>v. []) demo_opts demo_boot))"
    and "run_ok (trace_step (\<lambda>v. []) demo_opts) lsp_ok
      [WorkerError (js ''boom''), FromWorker None (Control CtlAborted), BootTimeout]
      (lsp_run (\<lambda>v. []) demo_opts demo_boot)"
    and "filter is_error (snd (lsp_run (\<lambda>v. []) demo_opts demo_boot)) = []"
    by code_simp+
  with lsp_ready_is_final [OF this(1-3)] show ?thesis by simp
qed

section \<open>The relay of diagnostics\<close>

text \<open>
  Each \<open>Diag\<close> effect is a line on the console and, if the page has a log, a
  request with its headers and body; failures of either are swallowed.
\<close>

definition diag_line :: "jstr \<Rightarrow> jstr \<Rightarrow> jstr" where
  "diag_line name msg = [91] @ name @ [93, 32] @ msg"

definition diag_relay ::
  "jstr \<Rightarrow> jstr option \<Rightarrow> jstr \<Rightarrow> jstr \<times> (jstr \<times> (jstr \<times> jstr) list \<times> jval) option"
where
  "diag_relay name url msg =
     (diag_line name msg,
      (if url = None \<or> url = Some [] then None
       else Some (the url, [(js ''Content-Type'', js ''application/json''), (js ''X-Acmoj-Is-Csrf'', js ''no'')],
         JObj [(js ''msg'', JStr (diag_line name msg))])))"

end
