(* ===== verification/Ide.thy ===== *)
theory Ide
  imports IdeStore LspClient
begin

text \<open>
  The problem IDE around its editor (\<open>web/static/js/problem_ide.js\<close>): the
  language switch, the editor's change events, the set-up of the two language clients and
  their callbacks. It runs the clients of \<open>LspClient\<close> and the storage of
  \<open>IdeStore\<close>.

  Monaco is represented by the text of its model; \<open>setValue\<close> reports a change of
  content, which runs the change listener, as its documentation says.
\<close>

section \<open>State\<close>

datatype lsp_status = Loading | IsReady | Failed | Off

record ide =
  editor :: "jstr option"
  currentLang :: jstr
  store :: storage
  clients :: "jstr \<Rightarrow> trace option"
  lspState :: "jstr \<Rightarrow> lsp_status option"
  lspErr :: "jstr \<Rightarrow> jstr option"

text \<open>
  The page: its configuration, \<open>JSON.stringify\<close>, and for each language the
  options its client is created with (none when there is no worker URL or no client library).
\<close>

record ide_page =
  pg_config :: ide_config
  pg_stringify :: "jval \<Rightarrow> jstr"
  pg_lsp :: "jstr \<Rightarrow> lsp_opts option"

definition CPP :: jstr where "CPP = (js ''cpp'')"
definition PYTHON :: jstr where "PYTHON = (js ''python'')"

definition ide_init :: "jstr option \<Rightarrow> storage \<Rightarrow> ide" where
  "ide_init sel st = \<lparr>editor = None,
    currentLang = (case sel of None \<Rightarrow> CPP | Some l \<Rightarrow> l),
     store = st, clients = \<lambda>_. None, lspState = \<lambda>_. None,
       lspErr = \<lambda>_. None\<rparr>"

section \<open>Calling a client\<close>

definition page_opts :: "ide_page \<Rightarrow> jstr \<Rightarrow> lsp_opts" where
  "page_opts pg lang = the (pg_lsp pg lang)"

definition client_call :: "ide_page \<Rightarrow> jstr \<Rightarrow> lsp_op \<Rightarrow> ide \<Rightarrow> ide" where
  "client_call pg lang op s =
     (case clients s lang of
        None \<Rightarrow> s
      | Some t \<Rightarrow> s\<lparr>clients := (clients s)(lang \<mapsto>
                       trace_step (pg_stringify pg) (page_opts pg lang) op t)\<rparr>)"

text \<open>\<open>onReady\<close> and \<open>onError\<close>.\<close>

definition on_ready :: "ide_page \<Rightarrow> jstr \<Rightarrow> ide \<Rightarrow> ide" where
  "on_ready pg lang s =
     (let s1 = s\<lparr>lspState := (lspState s)(lang \<mapsto> IsReady)\<rparr>
      in if currentLang s1 = lang
         then (case editor s1 of None \<Rightarrow> s1 | Some v \<Rightarrow> client_call pg lang (Open v) s1)
         else s1)"

definition on_error :: "jstr \<Rightarrow> jstr \<Rightarrow> ide \<Rightarrow> ide" where
  "on_error lang m s =
     s\<lparr>lspState := (lspState s)(lang \<mapsto> Failed),
       lspErr := (lspErr s)(lang \<mapsto> m)\<rparr>"

definition on_effect :: "ide_page \<Rightarrow> jstr \<Rightarrow> lsp_effect \<Rightarrow> ide \<Rightarrow> ide" where
  "on_effect pg lang e s =
     (case e of OnReady \<Rightarrow> on_ready pg lang s | OnError m \<Rightarrow> on_error lang m s | _ \<Rightarrow> s)"

text \<open>A client's event together with the callbacks it causes.\<close>

definition client_event :: "ide_page \<Rightarrow> jstr \<Rightarrow> lsp_op \<Rightarrow> ide \<Rightarrow> ide" where
  "client_event pg lang op s =
     (case clients s lang of
        None \<Rightarrow> s
      | Some t \<Rightarrow>
          fold (on_effect pg lang)
            (snd (lsp_step (pg_stringify pg) (page_opts pg lang) op (fst t)))
            (client_call pg lang op s))"

section \<open>The editor\<close>

text \<open>The listener of \<open>onDidChangeModelContent\<close>,
  after the text became \<open>v\<close>.\<close>

definition content_changed :: "ide_page \<Rightarrow> jstr \<Rightarrow> ide \<Rightarrow> ide" where
  "content_changed pg v s =
     (let s1 = s\<lparr>editor := Some v\<rparr>;
          s2 = s1\<lparr>store := saveCode (pg_config pg) (currentLang s1) (editor s1) (store s1)\<rparr>
      in client_call pg (currentLang s2) (Change v) s2)"

definition applyLanguage :: "ide_page \<Rightarrow> jstr \<Rightarrow> ide \<Rightarrow> ide" where
  "applyLanguage pg lang s =
     (let prev = currentLang s;
          s1 = s\<lparr>currentLang := lang\<rparr>
      in if editor s1 = None then s1
         else let s2 = client_call pg prev Close s1;
                  (v, st) = loadCode (pg_config pg) lang (store s2);
                  s3 = content_changed pg v (s2\<lparr>store := st\<rparr>)
              in client_call pg lang (Open v) s3)"

definition switch_language :: "ide_page \<Rightarrow> jstr \<Rightarrow> ide \<Rightarrow> ide" where
  "switch_language pg lang s =
     applyLanguage pg lang
       (s\<lparr>store := saveCode (pg_config pg) (currentLang s) (editor s) (store s)\<rparr>)"

text \<open>\<open>setupLsp\<close>; \<open>ctor\<close> is the message of the worker's constructor, if it throws.\<close>

definition setupLsp :: "ide_page \<Rightarrow> jstr \<Rightarrow> jstr option \<Rightarrow> ide \<Rightarrow> ide" where
  "setupLsp pg lang ctor s =
     (case pg_lsp pg lang of
        None \<Rightarrow> s\<lparr>lspState := (lspState s)(lang \<mapsto> Off)\<rparr>
      | Some o1 \<Rightarrow>
          if \<not> available o1 then s\<lparr>lspState := (lspState s)(lang \<mapsto> Off)\<rparr>
          else let s1 = s\<lparr>clients := (clients s)(lang \<mapsto> trace_init),
                          lspState := (lspState s)(lang \<mapsto> Loading)\<rparr>
               in client_event pg lang (Start ctor) (client_call pg lang (SetDiagModel (Some False)) s1))"

text \<open>The callback of the Monaco loader.\<close>

definition editor_created :: "ide_page \<Rightarrow> jstr option \<Rightarrow> jstr option \<Rightarrow> ide \<Rightarrow> ide" where
  "editor_created pg ctor1 ctor2 s =
     (let (v, st) = loadCode (pg_config pg) (currentLang s) (store s);
          s1 = s\<lparr>editor := Some v, store := st\<rparr>
      in setupLsp pg PYTHON ctor2 (setupLsp pg CPP ctor1 s1))"

text \<open>The status indicator: the state and the detail that are shown.\<close>

definition refreshLspStatus :: "ide \<Rightarrow> lsp_status \<times> jstr option" where
  "refreshLspStatus s =
     (case lspState s (currentLang s) of
        None \<Rightarrow> (Off, None)
      | Some st \<Rightarrow> (st, lspErr s (currentLang s)))"

section \<open>Runs\<close>

text \<open>
  What can happen to the page: the editor is created, the student types, switches the language
  or asks for completion or a hover at a position, and a worker or the boot timer fires.
\<close>

datatype ide_op =
    EditorCreated "jstr option" "jstr option"
  | Type jstr
  | Switch jstr
  | AskCompletion monaco_pos "int \<times> int" "jstr option"
  | AskHover monaco_pos
  | Worker jstr lsp_op

fun ide_step :: "ide_page \<Rightarrow> ide_op \<Rightarrow> ide \<Rightarrow> ide" where
  "ide_step pg (EditorCreated c1 c2) s = editor_created pg c1 c2 s"
| "ide_step pg (Type v) s = content_changed pg v s"
| "ide_step pg (Switch lang) s = switch_language pg lang s"
| "ide_step pg (AskCompletion p wd trig) s =
     client_call pg (currentLang s) (Completion (the (editor s)) p wd trig) s"
| "ide_step pg (AskHover p) s = client_call pg (currentLang s) (Hover (the (editor s)) p) s"
| "ide_step pg (Worker lang op) s = client_event pg lang op s"

fun worker_op :: "lsp_op \<Rightarrow> bool" where
  "worker_op (FromWorker _ _) = True"
| "worker_op (WorkerError _) = True"
| "worker_op BootTimeout = True"
| "worker_op _ = False"

fun ide_ok :: "ide_op \<Rightarrow> ide \<Rightarrow> bool" where
  "ide_ok (EditorCreated _ _) s = (editor s = None)"
| "ide_ok (Switch _) s = True"
| "ide_ok (Worker lang op) s =
     (worker_op op \<and> (case clients s lang of None \<Rightarrow> False | Some t \<Rightarrow> lsp_ok op t))"
| "ide_ok _ s = (editor s \<noteq> None)"

section \<open>Invariant\<close>

text \<open>What the clients of the page guarantee: registering providers does not throw.\<close>

definition page_ok :: "ide_page \<Rightarrow> bool" where
  "page_ok pg \<longleftrightarrow>
     (case pg_lsp pg CPP of None \<Rightarrow> True | Some o1 \<Rightarrow> o_ready_throws o1 = None)
     \<and> (case pg_lsp pg PYTHON of None \<Rightarrow> True | Some o1 \<Rightarrow> o_ready_throws o1 = None)"

text \<open>\<open>client_fits\<close> allows a ready client that is not told of the document yet.\<close>

definition client_fits :: "ide_page \<Rightarrow> ide \<Rightarrow> jstr \<Rightarrow> trace \<Rightarrow> bool" where
  "client_fits pg s l t \<longleftrightarrow>
     sync_inv (page_opts pg l) t \<and> (l = CPP \<or> l = PYTHON) \<and> pg_lsp pg l \<noteq> None
     \<and> (opened (fst t) \<longrightarrow> l = currentLang s \<and> lastSentText (fst t) = editor s)"

definition told :: "ide \<Rightarrow> jstr \<Rightarrow> trace \<Rightarrow> bool" where
  "told s l t \<longleftrightarrow> (l = currentLang s \<and> ready (fst t) \<longrightarrow> opened (fst t))"

definition ide_inv :: "ide_page \<Rightarrow> ide \<Rightarrow> bool" where
  "ide_inv pg s \<longleftrightarrow>
     (editor s = None \<longrightarrow> clients s = (\<lambda>_. None))
     \<and> (\<forall>l t. clients s l = Some t \<longrightarrow> client_fits pg s l t \<and> told s l t)"

text \<open>What a call does to a client.\<close>

abbreviation doc_state :: "trace \<Rightarrow> bool \<times> bool \<times> jstr option" where
  "doc_state t \<equiv> (ready (fst t), opened (fst t), lastSentText (fst t))"

lemma with_answer_fst [simp]: "fst (with_answer r) = fst (fst r)"
  by (simp add: with_answer_def split: prod.split)

lemma trace_step_fst: "fst (trace_step str o1 op t) = fst (lsp_step str o1 op (fst t))"
  by (simp add: trace_step_def split: prod.split)

lemma trace_step_snd: "snd (trace_step str o1 op t) = snd t @ snd (lsp_step str o1 op (fst t))"
  by (simp add: trace_step_def split: prod.split)

lemma doc_change:
  "doc_state (trace_step str o1 (Change v) t) =
     (ready (fst t), opened (fst t),
      if ready (fst t) \<and> opened (fst t) then Some v else lastSentText (fst t))"
  by (simp add: trace_step_fst didChange_def client_defs)

lemma doc_open:
  "doc_state (trace_step str o1 (Open v) t) =
     (ready (fst t), opened (fst t) \<or> ready (fst t),
      if ready (fst t) then Some v else lastSentText (fst t))"
  by (simp add: trace_step_fst didOpen_def didChange_def client_defs)

lemma doc_close:
  "doc_state (trace_step str o1 Close t) =
     (if ready (fst t) \<and> opened (fst t) then (True, False, None) else doc_state t)"
  by (simp add: trace_step_fst didClose_def client_defs)

lemma doc_ask:
  "op = Completion v p wd trig \<or> op = Hover v p \<Longrightarrow>
   doc_state (trace_step str o1 op t) =
     (ready (fst t), opened (fst t),
      if ready (fst t) \<and> opened (fst t) then Some v else lastSentText (fst t))"
  by (auto simp: trace_step_fst provideCompletion_def provideHover_def didChange_def client_defs)

lemma doc_onMessage:
  "opened (fst (onMessage str o1 m c)) = opened c
   \<and> lastSentText (fst (onMessage str o1 m c)) = lastSentText c
   \<and> (o_ready_throws o1 = None \<longrightarrow> ready (fst (onMessage str o1 m c)) \<noteq> ready c \<longrightarrow>
        OnReady \<in> set (snd (onMessage str o1 m c)))"
  by (auto simp: onMessage_def settle_def init_done_def init_failed_def boot_failed_def
      drop_pending_def client_defs split: option.splits waiting.splits)

lemma doc_worker:
  "worker_op op \<or> op = Start ctor \<Longrightarrow>
   opened (fst (lsp_step str o1 op c)) = opened c
   \<and> lastSentText (fst (lsp_step str o1 op c)) = lastSentText c
   \<and> (o_ready_throws o1 = None \<longrightarrow> ready (fst (lsp_step str o1 op c)) \<noteq> ready c \<longrightarrow>
        OnReady \<in> set (snd (lsp_step str o1 op c)))"
proof (induction op)
  case (FromWorker bg d)
  then show ?case using doc_onMessage
    by (cases d) (auto simp: clangd_message_def pyright_message_def boot_step_defs client_defs
        split: control.split option.split)
qed (auto simp: boot_step_defs client_defs split: option.split)

lemmas doc_simps = doc_change [simplified prod.inject] doc_open [simplified prod.inject]

lemma sync_edit [simp]:
  "sync_inv o1 t \<Longrightarrow> sync_inv o1 (trace_step str o1 (Open v) t)"
  "sync_inv o1 t \<Longrightarrow> sync_inv o1 (trace_step str o1 (Change v) t)"
  "sync_inv o1 t \<Longrightarrow> sync_inv o1 (trace_step str o1 Close t)"
  "sync_inv o1 t \<Longrightarrow> sync_inv o1 (trace_step str o1 (SetDiagModel m) t)"
  "sync_inv o1 t \<Longrightarrow> sync_inv o1 (trace_step str o1 (Completion v p wd trig) t)"
  "sync_inv o1 t \<Longrightarrow> sync_inv o1 (trace_step str o1 (Hover v p) t)"
  by (auto intro: trace_step_sync)

lemma sync_opened: "sync_inv o1 t \<Longrightarrow> opened (fst t) \<Longrightarrow> ready (fst t)"
  by (auto simp: sync_inv_def)

lemma call_fields [simp]:
  "editor (client_call pg l op s) = editor s" "currentLang (client_call pg l op s) = currentLang s"
  "store (client_call pg l op s) = store s"
  "lspState (client_call pg l op s) = lspState s" "lspErr (client_call pg l op s) = lspErr s"
  by (simp_all add: client_call_def split: option.split)

lemma call_clients:
  "clients (client_call pg l op s) k =
     (if k = l then map_option (trace_step (pg_stringify pg) (page_opts pg l) op) (clients s l)
      else clients s k)"
  by (simp add: client_call_def split: option.split)

lemma call_no_clients: "clients s = (\<lambda>_. None) \<Longrightarrow> clients (client_call pg l op s) = (\<lambda>_. None)"
  by (simp add: client_call_def)

text \<open>Clients that know a language: \<open>fits0\<close> leaves the text open.\<close>

definition fits0 :: "ide_page \<Rightarrow> ide \<Rightarrow> bool" where
  "fits0 pg s \<longleftrightarrow>
     (editor s = None \<longrightarrow> clients s = (\<lambda>_. None))
     \<and> (\<forall>l t. clients s l = Some t \<longrightarrow>
          sync_inv (page_opts pg l) t \<and> (l = CPP \<or> l = PYTHON) \<and> pg_lsp pg l \<noteq> None
          \<and> (opened (fst t) \<longrightarrow> l = currentLang s))"

definition fits :: "ide_page \<Rightarrow> ide \<Rightarrow> bool" where
  "fits pg s \<longleftrightarrow> (editor s = None \<longrightarrow> clients s = (\<lambda>_. None))
     \<and> (\<forall>l t. clients s l = Some t \<longrightarrow> client_fits pg s l t)"

lemma ide_inv_split: "ide_inv pg s \<longleftrightarrow> fits pg s \<and> (\<forall>l t. clients s l = Some t \<longrightarrow> told s l t)"
  by (auto simp: ide_inv_def fits_def)

lemma fits_fits0: "fits pg s \<Longrightarrow> fits0 pg s"
  by (auto simp: fits_def fits0_def client_fits_def)

lemma changed_clients:
  "clients (content_changed pg v s) k =
     (if k = currentLang s
      then map_option (trace_step (pg_stringify pg) (page_opts pg k) (Change v)) (clients s k)
      else clients s k)"
  "editor (content_changed pg v s) = Some v"
  "currentLang (content_changed pg v s) = currentLang s"
  by (auto simp: content_changed_def call_clients Let_def)

lemma fitsI:
  "\<lbrakk>editor s = None \<Longrightarrow> clients s = (\<lambda>_. None);
    \<And>l t. clients s l = Some t \<Longrightarrow> client_fits pg s l t\<rbrakk> \<Longrightarrow> fits pg s"
  unfolding fits_def by blast

lemma fits0D:
  "fits0 pg s \<Longrightarrow> clients s l = Some t \<Longrightarrow>
     sync_inv (page_opts pg l) t \<and> (l = CPP \<or> l = PYTHON) \<and> pg_lsp pg l \<noteq> None
     \<and> (opened (fst t) \<longrightarrow> l = currentLang s)"
  unfolding fits0_def by blast

lemma invD: "ide_inv pg s \<Longrightarrow> clients s l = Some t \<Longrightarrow> client_fits pg s l t \<and> told s l t"
  unfolding ide_inv_def by blast

lemma fits_changed:
  assumes "fits0 pg s"
  shows "fits pg (content_changed pg v s)"
proof (rule fitsI)
  fix l t
  assume t: "clients (content_changed pg v s) l = Some t"
  show "client_fits pg (content_changed pg v s) l t"
  proof (cases "l = currentLang s")
    case True
    then obtain u where u: "clients s l = Some u"
      "t = trace_step (pg_stringify pg) (page_opts pg l) (Change v) u"
      using t by (cases "clients s l") (auto simp: changed_clients)
    with fits0D [OF assms u(1)] True sync_opened [of "page_opts pg l" u] show ?thesis
      by (auto simp: client_fits_def changed_clients doc_simps)
  next
    case False
    then have "clients s l = Some t" using t by (simp add: changed_clients)
    from fits0D [OF assms this] False show ?thesis
      by (auto simp: client_fits_def changed_clients)
  qed
qed (simp add: changed_clients)

lemma told_changed:
  "(\<And>t. clients s l = Some t \<Longrightarrow> told s l t) \<Longrightarrow> clients (content_changed pg v s) l = Some u \<Longrightarrow>
     told (content_changed pg v s) l u"
  by (auto simp: told_def changed_clients doc_simps split: if_splits)

lemma inv_changed: "ide_inv pg s \<Longrightarrow> ide_inv pg (content_changed pg v s)"
  unfolding ide_inv_split by (blast intro: fits_changed fits_fits0 told_changed)

text \<open>After \<open>Open\<close> with the editor's text the current client is told.\<close>

lemma inv_open:
  assumes "fits pg s" and "editor s = Some v" and "l = currentLang s"
    and "\<And>k t. k \<noteq> l \<Longrightarrow> clients s k = Some t \<Longrightarrow> told s k t"
  shows "ide_inv pg (client_call pg l (Open v) s)"
  unfolding ide_inv_split
proof (intro conjI allI impI fitsI)
  fix k t
  assume t: "clients (client_call pg l (Open v) s) k = Some t"
  have fit: "clients s k = Some u \<Longrightarrow> client_fits pg s k u" for u
    using assms(1) unfolding fits_def by blast
  have "client_fits pg (client_call pg l (Open v) s) k t \<and> told (client_call pg l (Open v) s) k t"
  proof (cases "k = l")
    case True
    then obtain u where u: "clients s k = Some u"
      "t = trace_step (pg_stringify pg) (page_opts pg k) (Open v) u"
      using t by (cases "clients s k") (auto simp: call_clients)
    with fit [OF u(1)] True assms(2,3) sync_opened [of "page_opts pg k" u] show ?thesis
      by (auto simp: client_fits_def told_def doc_simps)
  next
    case False
    then have "clients s k = Some t" using t by (simp add: call_clients)
    with fit [OF this] assms(4) [OF False this] show ?thesis by (simp add: client_fits_def told_def)
  qed
  then show "client_fits pg (client_call pg l (Open v) s) k t"
    and "told (client_call pg l (Open v) s) k t" by simp_all
next
  show "clients (client_call pg l (Open v) s) = (\<lambda>_. None)"
    if "editor (client_call pg l (Open v) s) = None" using that assms(2) by simp
qed

lemma closed_lang:
  assumes inv: "ide_inv pg s" and ed: "editor s \<noteq> None"
  shows "fits0 pg (client_call pg (currentLang s) Close (s\<lparr>currentLang := lang\<rparr>))"
  (is "fits0 pg ?s2")
proof -
  have "sync_inv (page_opts pg l) t \<and> (l = CPP \<or> l = PYTHON) \<and> pg_lsp pg l \<noteq> None
      \<and> \<not> opened (fst t)" if t: "clients ?s2 l = Some t" for l t
  proof (cases "l = currentLang s")
    case True
    then obtain u where u: "clients s l = Some u"
      "t = trace_step (pg_stringify pg) (page_opts pg l) Close u"
      using t by (cases "clients s l") (auto simp: call_clients)
    with invD [OF inv u(1)] sync_opened [of "page_opts pg l" u]
      doc_close [of "pg_stringify pg" "page_opts pg l" u]
    show ?thesis by (auto simp: client_fits_def split: if_splits)
  next
    case False
    then have "clients s l = Some t" using t by (simp add: call_clients)
    from invD [OF inv this] False show ?thesis by (auto simp: client_fits_def)
  qed
  then show ?thesis using ed unfolding fits0_def by auto
qed

lemma inv_apply:
  assumes "ide_inv pg s"
  shows "ide_inv pg (applyLanguage pg lang s)"
proof (cases "editor s")
  case None
  then show ?thesis using assms by (auto simp: applyLanguage_def ide_inv_def)
next
  case (Some e)
  define s2 where "s2 = client_call pg (currentLang s) Close (s\<lparr>currentLang := lang\<rparr>)"
  obtain v st where v: "loadCode (pg_config pg) lang (store s2) = (v, st)"
    by (cases "loadCode (pg_config pg) lang (store s2)")
  define s3 where "s3 = content_changed pg v (s2\<lparr>store := st\<rparr>)"
  have "fits0 pg (s2\<lparr>store := st\<rparr>)"
    using closed_lang [OF assms, of lang] Some by (simp add: s2_def fits0_def)
  then have "fits pg s3" by (simp add: s3_def fits_changed)
  moreover have "editor s3 = Some v" "lang = currentLang s3"
    by (simp_all add: s3_def s2_def changed_clients)
  ultimately have "ide_inv pg (client_call pg lang (Open v) s3)"
    by (intro inv_open) (auto simp: told_def)
  moreover have "applyLanguage pg lang s = client_call pg lang (Open v) s3"
    using v by (simp add: applyLanguage_def Let_def Some s3_def s2_def)
  ultimately show ?thesis by simp
qed

text \<open>Callbacks.\<close>

lemma on_effect_simps:
  "on_effect pg l OnReady s = on_ready pg l s" "on_effect pg l (OnError m) s = on_error l m s"
  "e \<noteq> OnReady \<Longrightarrow> (\<And>m. e \<noteq> OnError m) \<Longrightarrow> on_effect pg l e s = s"
  by (auto simp: on_effect_def split: lsp_effect.split)

text \<open>
  Between a client's step and its callbacks only that client may lack the document; handling
  the ready callback ends that.
\<close>

definition waits_told :: "ide_page \<Rightarrow> jstr \<Rightarrow> bool \<Rightarrow> ide \<Rightarrow> bool" where
  "waits_told pg l b s \<longleftrightarrow> fits pg s \<and> editor s \<noteq> None
     \<and> (\<forall>k t. clients s k = Some t \<longrightarrow> (k = l \<longrightarrow> b) \<longrightarrow> told s k t)"

lemma waits_True: "waits_told pg l True s \<Longrightarrow> ide_inv pg s"
  by (simp add: waits_told_def ide_inv_split)

lemma fits_cong:
  "\<lbrakk>editor s' = editor s; clients s' = clients s; currentLang s' = currentLang s\<rbrakk>
     \<Longrightarrow> fits pg s' = fits pg s"
  by (simp add: fits_def client_fits_def)

lemma told_cong: "currentLang s' = currentLang s \<Longrightarrow> told s' = told s"
  by (simp add: told_def fun_eq_iff)

lemma waits_on_effect:
  assumes "waits_told pg l b s"
  shows "waits_told pg l (b \<or> e = OnReady) (on_effect pg l e s)"
proof (cases "e = OnReady")
  case True
  define s1 where "s1 = s\<lparr>lspState := (lspState s)(l \<mapsto> IsReady)\<rparr>"
  obtain v where v: "editor s = Some v" using assms by (auto simp: waits_told_def)
  have s1: "fits pg s1" "editor s1 = Some v" "clients s1 = clients s"
    using assms v fits_cong [of s1 s pg] by (auto simp: waits_told_def s1_def)
  have t1: "told s1 = told s" by (rule told_cong) (simp add: s1_def)
  show ?thesis
  proof (cases "currentLang s = l")
    case cur: True
    have "ide_inv pg (client_call pg l (Open v) s1)"
      using s1 t1 assms cur by (intro inv_open) (auto simp: waits_told_def s1_def)
    moreover have "on_effect pg l e s = client_call pg l (Open v) s1"
      by (simp add: True on_effect_simps on_ready_def s1_def cur v)
    ultimately show ?thesis
      using v by (auto simp: waits_told_def ide_inv_split s1_def)
  next
    case False
    then have "on_effect pg l e s = s1"
      by (simp add: True on_effect_simps on_ready_def s1_def)
    moreover have "told s k t" if "clients s k = Some t" for k t
    proof (cases "k = l")
      case True
      then show ?thesis using False by (auto simp: told_def)
    next
      case False
      then show ?thesis using assms that unfolding waits_told_def by blast
    qed
    ultimately show ?thesis
      using s1 t1 unfolding waits_told_def by simp
  qed
next
  case False
  have "fits pg (on_error l m s) = fits pg s" for m
    by (rule fits_cong) (simp_all add: on_error_def)
  moreover have "told (on_error l m s) = told s" for m
    by (rule told_cong) (simp add: on_error_def)
  moreover have "editor (on_error l m s) = editor s" "clients (on_error l m s) = clients s" for m
    by (simp_all add: on_error_def)
  ultimately show ?thesis
    using assms False by (cases e) (auto simp: on_effect_simps waits_told_def)
qed

lemma waits_fold:
  "waits_told pg l b s \<Longrightarrow> waits_told pg l (b \<or> OnReady \<in> set es) (fold (on_effect pg l) es s)"
proof (induction es arbitrary: b s)
  case (Cons e es)
  from Cons.IH [OF waits_on_effect [OF Cons.prems, of e]] show ?case
    by (simp add: eq_commute [of OnReady])
qed simp

lemma inv_client_event:
  assumes pg: "page_ok pg" and inv: "ide_inv pg s" and ed: "editor s \<noteq> None"
    and op: "worker_op op \<or> op = Start ctor"
    and t: "clients s l = Some t" and ok: "lsp_ok op t"
  shows "ide_inv pg (client_event pg l op s)"
proof -
  let ?o = "page_opts pg l" and ?str = "pg_stringify pg"
  have fit: "client_fits pg s l t" and told_l: "told s l t"
    using invD [OF inv t] by simp_all
  have thr: "o_ready_throws ?o = None"
    using pg fit by (auto simp: page_ok_def client_fits_def page_opts_def split: option.splits)
  have sync: "sync_inv ?o (trace_step ?str ?o op t)"
    using fit ok by (intro trace_step_sync) (auto simp: client_fits_def)
  note eff = doc_worker [OF op, of ?str ?o "fst t"]
  define b where "b \<longleftrightarrow> ready (fst (lsp_step ?str ?o op (fst t))) = ready (fst t)"
  have "waits_told pg l b (client_call pg l op s)"
    unfolding waits_told_def
  proof (intro conjI allI impI)
    show "fits pg (client_call pg l op s)"
    proof (rule fitsI)
      fix k u
      assume u: "clients (client_call pg l op s) k = Some u"
      show "client_fits pg (client_call pg l op s) k u"
      proof (cases "k = l")
        case True
        then have "u = trace_step ?str ?o op t" using u t by (simp add: call_clients)
        then show ?thesis using True sync eff fit by (auto simp: client_fits_def trace_step_fst)
      next
        case False
        then have "clients s k = Some u" using u by (simp add: call_clients)
        from invD [OF inv this] show ?thesis by (simp add: client_fits_def)
      qed
    qed (use ed in simp)
    show "editor (client_call pg l op s) \<noteq> None" using ed by simp
    fix k u
    assume u: "clients (client_call pg l op s) k = Some u" and "k = l \<longrightarrow> b"
    show "told (client_call pg l op s) k u"
    proof (cases "k = l")
      case True
      then have "u = trace_step ?str ?o op t" using u t by (simp add: call_clients)
      then show ?thesis using True told_l eff \<open>k = l \<longrightarrow> b\<close>
        by (auto simp: told_def trace_step_fst b_def)
    next
      case False
      then have "clients s k = Some u" using u by (simp add: call_clients)
      from invD [OF inv this] show ?thesis by (simp add: told_def)
    qed
  qed
  then have "waits_told pg l (b \<or> OnReady \<in> set (snd (lsp_step ?str ?o op (fst t))))
      (client_event pg l op s)"
    using waits_fold t by (simp add: client_event_def)
  moreover have "b \<or> OnReady \<in> set (snd (lsp_step ?str ?o op (fst t)))"
    using eff thr by (auto simp: b_def)
  ultimately show ?thesis using waits_True by simp
qed

lemma inv_cong:
  "\<lbrakk>editor s' = editor s; clients s' = clients s; currentLang s' = currentLang s\<rbrakk>
     \<Longrightarrow> ide_inv pg s' = ide_inv pg s"
  unfolding ide_inv_split using fits_cong [of s' s pg] told_cong [of s' s] by simp

lemma inv_new_client:
  assumes inv: "ide_inv pg s" and ed: "editor s \<noteq> None"
    and t: "sync_inv (page_opts pg l) t" "\<not> ready (fst t)" "\<not> opened (fst t)"
    and l: "l = CPP \<or> l = PYTHON" "pg_lsp pg l \<noteq> None"
    and s': "editor s' = editor s" "currentLang s' = currentLang s"
      "clients s' = (clients s)(l \<mapsto> t)"
  shows "ide_inv pg s'"
  unfolding ide_inv_split
proof (intro conjI allI impI fitsI)
  fix k u
  assume u: "clients s' k = Some u"
  have "client_fits pg s' k u \<and> told s' k u"
  proof (cases "k = l")
    case True
    then show ?thesis using u s' t l by (auto simp: client_fits_def told_def)
  next
    case False
    then have "clients s k = Some u" using u s' by simp
    from invD [OF inv this] show ?thesis using s' by (simp add: client_fits_def told_def)
  qed
  then show "client_fits pg s' k u" and "told s' k u" by simp_all
qed (use ed s' in simp)

lemma client_event_fields:
  "editor (client_event pg l op s) = editor s"
  "currentLang (client_event pg l op s) = currentLang s"
  "store (client_event pg l op s) = store s"
proof -
  have "editor (on_effect pg l e s) = editor s \<and> currentLang (on_effect pg l e s) = currentLang s
      \<and> store (on_effect pg l e s) = store s" for e s
    by (auto simp: on_effect_def on_ready_def on_error_def Let_def
        split: lsp_effect.split option.split)
  then have "editor (fold (on_effect pg l) es s) = editor s
      \<and> currentLang (fold (on_effect pg l) es s) = currentLang s
      \<and> store (fold (on_effect pg l) es s) = store s" for es s
    by (induction es arbitrary: s) auto
  then show "editor (client_event pg l op s) = editor s"
    "currentLang (client_event pg l op s) = currentLang s"
    "store (client_event pg l op s) = store s"
    by (simp_all add: client_event_def split: option.split)
qed

lemma setup_fields:
  "editor (setupLsp pg l ctor s) = editor s" "currentLang (setupLsp pg l ctor s) = currentLang s"
  "store (setupLsp pg l ctor s) = store s"
  by (simp_all add: setupLsp_def client_event_fields Let_def split: option.split)

lemma inv_setup:
  assumes pg: "page_ok pg" and inv: "ide_inv pg s" and ed: "editor s \<noteq> None"
    and l: "l = CPP \<or> l = PYTHON"
  shows "ide_inv pg (setupLsp pg l ctor s)"
proof -
  have off: "ide_inv pg (s\<lparr>lspState := f\<rparr>)" for f
    using inv inv_cong [of "s\<lparr>lspState := f\<rparr>" s pg] by simp
  show ?thesis
  proof (cases "pg_lsp pg l")
    case None
    then show ?thesis using off by (simp add: setupLsp_def)
  next
    case (Some o1)
    show ?thesis
    proof (cases "available o1")
      case False
      then show ?thesis using off Some by (simp add: setupLsp_def)
    next
      case True
      define t0 where "t0 = trace_step (pg_stringify pg) (page_opts pg l) (SetDiagModel (Some False)) trace_init"
      define s2 where "s2 = client_call pg l (SetDiagModel (Some False))
         (s\<lparr>clients := (clients s)(l \<mapsto> trace_init),
           lspState := (lspState s)(l \<mapsto> Loading)\<rparr>)"
      have t0: "sync_inv (page_opts pg l) t0" "\<not> ready (fst t0)" "\<not> opened (fst t0)" "\<not> worker (fst t0)"
        using lsp_inv_init [of "page_opts pg l"]
        by (simp_all add: t0_def trace_step_fst trace_init_def client_init_def)
      have s2: "clients s2 = (clients s)(l \<mapsto> t0)" "editor s2 = editor s" "currentLang s2 = currentLang s"
        by (auto simp: s2_def t0_def client_call_def)
      have "ide_inv pg s2"
        by (rule inv_new_client [OF inv ed t0(1-3) l]) (use Some s2 in auto)
      then have "ide_inv pg (client_event pg l (Start ctor) s2)"
        using ed t0(4) s2 by (intro inv_client_event [OF pg, where t = t0]) (cases t0, auto)+
      then show ?thesis using Some True by (simp add: setupLsp_def s2_def)
    qed
  qed
qed

lemma inv_created:
  assumes pg: "page_ok pg" and inv: "ide_inv pg s" and ed: "editor s = None"
  shows "ide_inv pg (editor_created pg c1 c2 s)"
proof -
  obtain v st where v: "loadCode (pg_config pg) (currentLang s) (store s) = (v, st)"
    by (cases "loadCode (pg_config pg) (currentLang s) (store s)")
  have "ide_inv pg (s\<lparr>editor := Some v, store := st\<rparr>)"
    using inv ed by (simp add: ide_inv_def)
  then show ?thesis
    using v by (simp add: editor_created_def inv_setup [OF pg] setup_fields)
qed

lemma inv_ask:
  assumes inv: "ide_inv pg s" and ed: "editor s = Some v"
    and op: "op = Completion v p wd trig \<or> op = Hover v p"
  shows "ide_inv pg (client_call pg (currentLang s) op s)"
  unfolding ide_inv_split
proof (intro conjI allI impI fitsI)
  fix k u
  assume u: "clients (client_call pg (currentLang s) op s) k = Some u"
  have "client_fits pg (client_call pg (currentLang s) op s) k u
      \<and> told (client_call pg (currentLang s) op s) k u"
  proof (cases "k = currentLang s")
    case True
    then obtain t where t: "clients s k = Some t"
      "u = trace_step (pg_stringify pg) (page_opts pg k) op t"
      using u by (cases "clients s k") (auto simp: call_clients)
    moreover have "sync_inv (page_opts pg k) t \<Longrightarrow> sync_inv (page_opts pg k) u"
      using t(2) op by auto
    ultimately show ?thesis
      using invD [OF inv t(1)] True ed sync_opened [of "page_opts pg k" t]
        doc_ask [OF op, of "pg_stringify pg" "page_opts pg k" t]
      by (auto simp: client_fits_def told_def)
  next
    case False
    then have "clients s k = Some u" using u by (simp add: call_clients)
    from invD [OF inv this] show ?thesis by (simp add: client_fits_def told_def)
  qed
  then show "client_fits pg (client_call pg (currentLang s) op s) k u"
    and "told (client_call pg (currentLang s) op s) k u" by simp_all
qed (use ed in simp)

lemma inv_store: "ide_inv pg (s\<lparr>store := st\<rparr>) = ide_inv pg s"
  by (rule inv_cong) simp_all

lemma ide_step_inv:
  assumes pg: "page_ok pg" and inv: "ide_inv pg s" and ok: "ide_ok op s"
  shows "ide_inv pg (ide_step pg op s)"
proof (cases op)
  case (Worker l cop)
  then obtain t where t: "clients s l = Some t" "lsp_ok cop t" "worker_op cop"
    using ok by (cases "clients s l") auto
  moreover have "editor s \<noteq> None" using inv t(1) by (auto simp: ide_inv_def)
  ultimately show ?thesis
    using inv_client_event [OF pg inv] Worker by simp
next
  case (Switch l)
  then show ?thesis using inv by (simp add: switch_language_def inv_apply inv_store)
qed (use ok inv in \<open>auto intro: inv_created [OF pg] inv_changed inv_ask\<close>)

interpretation ide: guarded_machine "ide_step pg" "\<lambda>s. page_ok pg \<and> ide_inv pg s" ide_ok
  by unfold_locales (auto intro: ide_step_inv)

section \<open>The student's text\<close>

text \<open>Everything that can happen while another language than \<open>l\<close> is selected.\<close>

fun away :: "jstr \<Rightarrow> ide_op \<Rightarrow> bool" where
  "away l (EditorCreated _ _) = False"
| "away l (Switch l') = (l' \<noteq> l)"
| "away l _ = True"

lemma changed_store:
  "store (content_changed pg v s) = saveCode (pg_config pg) (currentLang s) (Some v) (store s)"
  by (simp add: content_changed_def Let_def)

lemma apply_fields:
  "editor s \<noteq> None \<Longrightarrow> currentLang (applyLanguage pg l s) = l
   \<and> editor (applyLanguage pg l s) = Some (fst (loadCode (pg_config pg) l (store s)))
   \<and> store (applyLanguage pg l s)
       = saveCode (pg_config pg) l (Some (fst (loadCode (pg_config pg) l (store s))))
           (snd (loadCode (pg_config pg) l (store s)))"
  by (simp add: applyLanguage_def Let_def changed_clients changed_store split: prod.split)

definition stays :: "ide_page \<Rightarrow> jstr \<Rightarrow> jstr option \<times> jstr option \<Rightarrow> ide \<Rightarrow> bool" where
  "stays pg l w s \<longleftrightarrow> currentLang s \<noteq> l \<and> editor s \<noteq> None \<and> accepting (store s)
     \<and> lang_view (pg_config pg) l (store s) = w"

lemma stays_step: "stays pg l w s \<Longrightarrow> away l op \<Longrightarrow> stays pg l w (ide_step pg op s)"
  by (cases op)
    (auto simp: stays_def changed_clients changed_store saveCode_view_other client_event_fields
      switch_language_def apply_fields loadCode_view_other)

lemma stays_run: "stays pg l w s \<Longrightarrow> list_all (away l) ops \<Longrightarrow> stays pg l w (fold (ide_step pg) ops s)"
  by (induction ops arbitrary: s) (auto intro: stays_step)

section \<open>Properties\<close>

text \<open>The document a server has after the messages of a client.\<close>

definition server_doc :: "lsp_opts \<Rightarrow> trace \<Rightarrow> (int \<times> jstr) option option" where
  "server_doc o1 t =
     map_option sv_doc (replay (o_doc_uri o1) (sent_msgs (snd t)) server_init)"

lemma sync_server_doc:
  "sync_inv o1 t \<Longrightarrow> server_doc o1 t =
     Some (if opened (fst t) then Some (docVersion (fst t), the (lastSentText (fst t))) else None)"
  by (cases t) (auto simp: server_doc_def sync_inv_def client_view_def)

definition ide_run :: "ide_page \<Rightarrow> jstr option \<Rightarrow> storage \<Rightarrow> ide_op list \<Rightarrow> ide" where
  "ide_run pg sel st ops = fold (ide_step pg) ops (ide_init sel st)"

definition demo_page :: ide_page where
  "demo_page = \<lparr>pg_config = demo_config, pg_stringify = \<lambda>_. [],
     pg_lsp = (\<lambda>l. if l = CPP then Some demo_opts else None)\<rparr>"

definition demo_ops :: "ide_op list" where
  "demo_ops = [EditorCreated None None, Type (js ''int a;''),
     Worker CPP (FromWorker None (Control CtlReady)),
     Worker CPP (FromWorker None (Rpc (demo_reply 1))),
     Type (js ''int b;''), AskHover demo_pos, Switch PYTHON, Type (js ''print(1)''), Switch CPP]"

text \<open>
  C17: each language server sees the editor. Along every run of the page (typing, switching
  languages, asking for help, messages, errors and timers of the workers in any order), the
  messages sent to each language server are legal, and replaying them gives it the text that
  is in the editor when its language is selected and it is ready, and no open document
  otherwise.
\<close>

theorem ide_servers_see_editor:
  assumes "page_ok pg" and "run_ok (ide_step pg) ide_ok ops (ide_init sel st)"
    and "clients (ide_run pg sel st ops) l = Some t"
  shows "server_doc (page_opts pg l) t =
    Some (if l = currentLang (ide_run pg sel st ops) \<and> ready (fst t)
          then Some (docVersion (fst t), the (editor (ide_run pg sel st ops))) else None)"
proof -
  have "ide_inv pg (ide_init sel st)" by (simp add: ide_inv_def ide_init_def)
  with ide.run_inv_ok [of pg "ide_init sel st" ops] assms(1,2)
  have inv: "ide_inv pg (ide_run pg sel st ops)" by (simp add: ide_run_def)
  note fit = invD [OF inv assms(3)]
  then have sync: "sync_inv (page_opts pg l) t" by (simp add: client_fits_def)
  have "opened (fst t) = (l = currentLang (ide_run pg sel st ops) \<and> ready (fst t))"
    using fit sync_opened [OF sync] unfolding client_fits_def told_def by blast
  moreover have "opened (fst t) \<Longrightarrow> lastSentText (fst t) = editor (ide_run pg sel st ops)"
    using fit unfolding client_fits_def by blast
  ultimately show ?thesis using sync_server_doc [OF sync] by (cases "opened (fst t)") simp_all
qed

theorem ide_servers_see_editor_witness:
  "\<exists>t. clients (ide_run demo_page None empty_storage demo_ops) CPP = Some t
     \<and> server_doc demo_opts t = Some (Some (1, (js ''int b;'')))"
proof -
  have ok: "page_ok demo_page" by code_simp
  have run: "run_ok (ide_step demo_page) ide_ok demo_ops (ide_init None empty_storage)" by code_simp
  have "case clients (ide_run demo_page None empty_storage demo_ops) CPP of None \<Rightarrow> False
      | Some t \<Rightarrow> ready (fst t) \<and> docVersion (fst t) = 1" by code_simp
  then obtain t where t: "clients (ide_run demo_page None empty_storage demo_ops) CPP = Some t"
    "ready (fst t)" "docVersion (fst t) = 1" by (auto split: option.splits)
  have "CPP = currentLang (ide_run demo_page None empty_storage demo_ops)"
    and "editor (ide_run demo_page None empty_storage demo_ops) = Some ((js ''int b;''))"
    and "page_opts demo_page CPP = demo_opts" by code_simp+
  with ide_servers_see_editor [OF ok run t(1)] t show ?thesis by auto
qed

text \<open>
  Switching languages keeps the student's text. If storage accepts writes, and the text
  is not empty, carries no marker of the old importer and is not an outdated starter, then
  after switching to another language, and whatever is typed, asked, switched or received
  while other languages are selected, switching back shows the text again.
\<close>

lemma ide_switch_back:
  assumes "editor s = Some v" "currentLang s = l" "accepting (store s)"
    and "v \<noteq> []" "\<not> looksStaleAutoGenerated v"
    and "sto_get (store s) (seedKey (pg_config pg) l) \<noteq> Some v
      \<or> v = currentStarter (pg_config pg) l"
    and "l' \<noteq> l" "list_all (away l) ops"
  shows "editor (fold (ide_step pg) (Switch l' # ops @ [Switch l]) s) = Some v"
proof -
  let ?w = "(Some v, sto_get (store s) (seedKey (pg_config pg) l))"
  define s1 where "s1 = ide_step pg (Switch l') s"
  have "stays pg l ?w s1"
    using assms by (simp add: s1_def stays_def switch_language_def apply_fields
        saveCode_view_other loadCode_view_other saveCode_view)
  then have st: "stays pg l ?w (fold (ide_step pg) ops s1)"
    using assms(8) by (rule stays_run)
  define s2 where "s2 = fold (ide_step pg) ops s1"
  define st2 where "st2 = saveCode (pg_config pg) (currentLang s2) (editor s2) (store s2)"
  have "lang_view (pg_config pg) l st2 = ?w"
    using st unfolding st2_def s2_def stays_def by (subst saveCode_view_other) auto
  then have "loadCode (pg_config pg) l st2 = (v, st2)"
    using assms by (intro loadCode_preserves) auto
  moreover have "editor s2 \<noteq> None" using st by (simp add: stays_def s2_def)
  ultimately have "editor (ide_step pg (Switch l) s2) = Some v"
    by (simp add: switch_language_def apply_fields flip: st2_def)
  then show ?thesis by (simp add: s2_def s1_def)
qed

lemma ide_switch_back_witness:
  "editor (fold (ide_step demo_page)
     [Switch PYTHON, Type (js ''print(1)''), Switch (js ''git''), Type [], Switch CPP]
     (ide_run demo_page None empty_storage [EditorCreated None None, Type (js ''int b;'')]))
   = Some ((js ''int b;''))"
proof -
  let ?s = "ide_run demo_page None empty_storage [EditorCreated None None, Type ((js ''int b;''))]"
  have 1: "editor ?s = Some ((js ''int b;''))" "currentLang ?s = CPP"
    "sto_get (store ?s) (seedKey (pg_config demo_page) CPP) \<noteq> Some ((js ''int b;''))"
    "(js ''int b;'') \<noteq> []" "\<not> looksStaleAutoGenerated ((js ''int b;''))" "PYTHON \<noteq> CPP"
    "list_all (away CPP) [Type ((js ''print(1)'')), Switch ((js ''git'')), Type []]"
    by code_simp+
  have "accepting empty_storage" by (simp add: accepting_def empty_storage_def)
  then have "accepting (store ?s)"
    by (simp add: ide_run_def ide_init_def editor_created_def setup_fields changed_store
        split: prod.split)
      (metis env_loadCode(1) env_loadCode(2) snd_conv)
  with ide_switch_back [OF 1(1,2) this 1(4,5) disjI1 [OF 1(3)] 1(6,7)] show ?thesis by simp
qed

end
