(* ===== verification/IdeComplete.thy ===== *)
theory IdeComplete
  imports LspConvert LspClient
begin

text \<open>
  The built-in completion of the problem IDE (\<open>web/static/js/problem_ide.js\<close>,
  lines 43 to 262): the symbol tables, the static provider and the hybrid provider, which asks
  the language server when it is ready. The two regular expressions of the provider are
  scanned from the end and from the start of the line; \<open>member_context_iff\<close> and
  \<open>include_context_iff\<close> relate the scans to what the expressions match.
\<close>

section \<open>Symbol tables\<close>

record completion_db =
  db_keywords :: "jstr list"
  db_headers :: "jstr list"
  db_containers :: "(jstr \<times> jstr) list"
  db_types :: "jstr list"
  db_funcs :: "jstr list"
  db_vars :: "jstr list"
  db_macros :: "jstr list"
  db_members :: "jstr list"
  db_memberProps :: "jstr list"
  db_snippets :: "(jstr \<times> jstr) list"

definition DB_cpp :: completion_db where
  "DB_cpp = \<lparr>
     db_keywords = map js [''alignas'', ''alignof'', ''asm'', ''auto'', ''break'', ''case'',
       ''catch'', ''class'', ''const'', ''constexpr'', ''consteval'', ''constinit'', ''continue'',
         ''decltype'', ''default'', ''delete'', ''do'', ''else'', ''enum'', ''explicit'',
           ''extern'', ''for'', ''friend'', ''goto'', ''if'', ''inline'', ''mutable'',
             ''namespace'', ''new'', ''noexcept'', ''nullptr'', ''operator'', ''private'',
               ''protected'', ''public'', ''register'', ''reinterpret_cast'', ''return'',
                 ''sizeof'', ''static'', ''static_assert'', ''static_cast'', ''struct'',
                   ''switch'', ''template'', ''this'', ''throw'', ''try'', ''typedef'', ''typeid'',
                     ''typename'', ''union'', ''using'', ''virtual'', ''volatile'', ''while'',
                       ''bool'', ''char'', ''char32_t'', ''double'', ''float'', ''int'', ''long'',
                         ''short'', ''signed'', ''unsigned'', ''void'', ''wchar_t'', ''true'',
                           ''false'', ''const_cast'', ''dynamic_cast''],
     db_headers = map js [''bits/stdc++.h'', ''iostream'', ''iomanip'', ''sstream'', ''fstream'',
       ''vector'', ''map'', ''unordered_map'', ''set'', ''unordered_set'', ''algorithm'',
         ''string'', ''cstring'', ''cmath'', ''cstdio'', ''cstdlib'', ''cassert'', ''climits'',
           ''cctype'', ''queue'', ''stack'', ''deque'', ''list'', ''bitset'', ''numeric'',
             ''utility'', ''tuple'', ''functional'', ''array'', ''memory'', ''random'', ''chrono'',
               ''complex''],
     db_containers = [(js ''vector'', js ''vector<${1:int}>''), (js ''map'', js ''map<${1:int},
       ${2:int}>''), (js ''unordered_map'', js ''unordered_map<${1:int}, ${2:int}>''), (js ''set'',
         js ''set<${1:int}>''), (js ''unordered_set'', js ''unordered_set<${1:int}>''),
           (js ''multiset'', js ''multiset<${1:int}>''), (js ''multimap'', js ''multimap<${1:int},
             ${2:int}>''), (js ''pair'', js ''pair<${1:int}, ${2:int}>''), (js ''tuple'',
               js ''tuple<${1:int}, ${2:int}>''), (js ''deque'', js ''deque<${1:int}>''),
                 (js ''list'', js ''list<${1:int}>''), (js ''stack'', js ''stack<${1:int}>''),
                   (js ''queue'', js ''queue<${1:int}>''), (js ''priority_queue'',
                     js ''priority_queue<${1:int}>''), (js ''array'', js ''array<${1:int},
                       ${2:N}>''), (js ''bitset'', js ''bitset<${1:N}>''), (js ''shared_ptr'',
                         js ''shared_ptr<${1:int}>''), (js ''unique_ptr'',
                           js ''unique_ptr<${1:int}>''), (js ''function'',
                             js ''function<${1:void()}>'')],
     db_types = map js [''string'', ''wstring'', ''string_view'', ''size_t'', ''ptrdiff_t'',
       ''int8_t'', ''int16_t'', ''int32_t'', ''int64_t'', ''uint8_t'', ''uint16_t'', ''uint32_t'',
         ''uint64_t'', ''ostream'', ''istream'', ''stringstream'', ''istringstream'',
           ''ostringstream'', ''ios''],
     db_funcs = map js [''sort'', ''stable_sort'', ''partial_sort'', ''nth_element'',
       ''lower_bound'', ''upper_bound'', ''binary_search'', ''equal_range'', ''merge'', ''max'',
         ''min'', ''minmax'', ''max_element'', ''min_element'', ''accumulate'', ''partial_sum'',
           ''reduce'', ''reverse'', ''rotate'', ''unique'', ''count'', ''count_if'', ''find'',
             ''find_if'', ''find_if_not'', ''fill'', ''fill_n'', ''iota'', ''copy'', ''copy_if'',
               ''transform'', ''for_each'', ''all_of'', ''any_of'', ''none_of'', ''remove'',
                 ''remove_if'', ''replace'', ''next_permutation'', ''prev_permutation'', ''swap'',
                   ''gcd'', ''lcm'', ''__gcd'', ''abs'', ''llabs'', ''fabs'', ''pow'', ''sqrt'',
                     ''cbrt'', ''exp'', ''log'', ''log2'', ''log10'', ''ceil'', ''floor'',
                       ''round'', ''trunc'', ''sin'', ''cos'', ''tan'', ''atan'', ''atan2'',
                         ''hypot'', ''make_pair'', ''make_tuple'', ''make_shared'',
                           ''make_unique'', ''tie'', ''get'', ''to_string'', ''stoi'', ''stol'',
                             ''stoll'', ''stoull'', ''stod'', ''stof'', ''move'', ''forward'',
                               ''begin'', ''end'', ''rbegin'', ''rend'', ''distance'', ''advance'',
                                 ''memset'', ''memcpy'', ''memcmp'', ''malloc'', ''free'',
                                   ''qsort'', ''getline'', ''scanf'', ''printf'', ''sscanf'',
                                     ''sprintf'', ''snprintf'', ''puts'', ''putchar'', ''getchar'',
                                       ''setprecision'', ''setw'', ''setfill'', ''isdigit'',
                                         ''isalpha'', ''isalnum'', ''isspace'', ''isupper'',
                                           ''islower'', ''tolower'', ''toupper'', ''emplace_back'',
                                             ''push_back''],
     db_vars = map js [''cin'', ''cout'', ''cerr'', ''clog'', ''endl'', ''flush'', ''std'',
       ''ios_base'', ''fixed'', ''scientific'', ''boolalpha'', ''left'', ''right'', ''hex'',
         ''dec'', ''oct''],
     db_macros = map js [''INT_MAX'', ''INT_MIN'', ''LLONG_MAX'', ''LLONG_MIN'', ''UINT_MAX'',
       ''ULLONG_MAX'', ''RAND_MAX'', ''M_PI'', ''EOF'', ''NULL'', ''CHAR_BIT'', ''SIZE_MAX''],
     db_members = map js [''push_back'', ''pop_back'', ''emplace_back'', ''push_front'',
       ''pop_front'', ''emplace'', ''emplace_hint'', ''size'', ''length'', ''empty'', ''clear'',
         ''begin'', ''end'', ''rbegin'', ''rend'', ''cbegin'', ''cend'', ''front'', ''back'',
           ''at'', ''insert'', ''erase'', ''find'', ''count'', ''contains'', ''lower_bound'',
             ''upper_bound'', ''equal_range'', ''resize'', ''reserve'', ''capacity'',
               ''shrink_to_fit'', ''assign'', ''swap'', ''data'', ''c_str'', ''substr'',
                 ''append'', ''replace'', ''push'', ''pop'', ''top'', ''max_size'', ''unique'',
                   ''remove'', ''reverse'', ''sort'', ''merge'', ''splice'', ''get_allocator'',
                     ''str''],
     db_memberProps = map js [''first'', ''second''],
     db_snippets = [(js ''main'', (js ''int main() {'' @ [10, 9] @ js ''$0'' @ [10, 9]
       @ js ''return 0;'' @ [10, 125])), (js ''for'',
         (js ''for (int ${1:i} = 0; ${1:i} < ${2:n}; ++${1:i}) {'' @ [10, 9] @ js ''$0'' @ [10,
           125])), (js ''forr'', (js ''for (auto ${1:x} : ${2:container}) {'' @ [10, 9]
             @ js ''$0'' @ [10, 125])), (js ''while'', (js ''while (${1:cond}) {'' @ [10, 9]
               @ js ''$0'' @ [10, 125])), (js ''ifelse'', (js ''if (${1:cond}) {'' @ [10, 9]
                 @ js ''$2'' @ [10] @ js ''} else {'' @ [10, 9] @ js ''$0'' @ [10, 125])),
                   (js ''include'', js ''include <$1>''), (js ''cout'',
                     (js ''cout << ${1:x} << '' @ [34, 92, 110, 34, 59])), (js ''cin'',
                       js ''cin >> ${1:x};''), (js ''vector'',
                         js ''vector<${1:int}> ${2:v}(${3:n});''), (js ''sortv'',
                           js ''sort(${1:v}.begin(), ${1:v}.end());''), (js ''fastio'',
                             (js ''ios::sync_with_stdio(false);'' @ [10, 9]
                               @ js ''cin.tie(nullptr);''))]\<rparr>"

definition DB_python :: completion_db where
  "DB_python = \<lparr>
     db_keywords = map js [''and'', ''as'', ''assert'', ''async'', ''await'', ''break'', ''class'',
       ''continue'', ''def'', ''del'', ''elif'', ''else'', ''except'', ''finally'', ''for'',
         ''from'', ''global'', ''if'', ''import'', ''in'', ''is'', ''lambda'', ''nonlocal'',
           ''not'', ''or'', ''pass'', ''raise'', ''return'', ''try'', ''while'', ''with'',
             ''yield'', ''True'', ''False'', ''None'', ''match'', ''case''],
     db_headers = [],
     db_containers = [],
     db_types = map js [''int'', ''float'', ''str'', ''bool'', ''list'', ''dict'', ''set'',
       ''tuple'', ''frozenset'', ''bytes'', ''bytearray'', ''complex'', ''object'', ''range''],
     db_funcs = map js [''print'', ''input'', ''len'', ''abs'', ''min'', ''max'', ''sum'',
       ''sorted'', ''reversed'', ''enumerate'', ''zip'', ''map'', ''filter'', ''all'', ''any'',
         ''round'', ''divmod'', ''pow'', ''ord'', ''chr'', ''hex'', ''oct'', ''bin'', ''format'',
           ''repr'', ''id'', ''hash'', ''iter'', ''next'', ''open'', ''eval'', ''exec'',
             ''isinstance'', ''issubclass'', ''type'', ''getattr'', ''setattr'', ''hasattr'',
               ''delattr'', ''callable'', ''vars'', ''dir'', ''globals'', ''locals'', ''super'',
                 ''property'', ''staticmethod'', ''classmethod'', ''gcd'', ''sqrt'', ''floor'',
                   ''ceil'', ''factorial'', ''comb'', ''perm'', ''log'', ''log2'', ''exp'',
                     ''defaultdict'', ''Counter'', ''deque'', ''OrderedDict'', ''namedtuple'',
                       ''heappush'', ''heappop'', ''heapify'', ''bisect_left'', ''bisect_right''],
     db_vars = map js [''sys'', ''math'', ''os'', ''collections'', ''itertools'', ''functools'',
       ''heapq'', ''bisect'', ''re'', ''random'', ''string'', ''decimal'', ''fractions'', ''copy'',
         ''inf'', ''nan'', ''pi'', ''e'', ''maxsize'', ''stdin'', ''stdout'', ''argv''],
     db_macros = [],
     db_members = map js [''append'', ''extend'', ''insert'', ''remove'', ''pop'', ''clear'',
       ''index'', ''count'', ''sort'', ''reverse'', ''copy'', ''keys'', ''values'', ''items'',
         ''get'', ''setdefault'', ''popitem'', ''update'', ''add'', ''discard'', ''union'',
           ''intersection'', ''difference'', ''symmetric_difference'', ''issubset'',
             ''issuperset'', ''split'', ''rsplit'', ''splitlines'', ''join'', ''strip'',
               ''lstrip'', ''rstrip'', ''replace'', ''find'', ''rfind'', ''startswith'',
                 ''endswith'', ''lower'', ''upper'', ''title'', ''capitalize'', ''swapcase'',
                   ''casefold'', ''format'', ''format_map'', ''encode'', ''decode'', ''isdigit'',
                     ''isalpha'', ''isalnum'', ''isspace'', ''isupper'', ''islower'',
                       ''isnumeric'', ''zfill'', ''ljust'', ''rjust'', ''center'', ''read'',
                         ''readline'', ''readlines'', ''write'', ''writelines'', ''close'',
                           ''seek'', ''tell'', ''most_common'', ''total'', ''bit_length''],
     db_memberProps = [],
     db_snippets = [(js ''main'', (js ''def main():'' @ [10, 9] @ js ''$0'' @ [10, 10, 10]
       @ js ''if __name__ == '' @ [39] @ js ''__main__'' @ [39, 58, 10, 9] @ js ''main()'')),
         (js ''for'', (js ''for ${1:i} in range(${2:n}):'' @ [10, 9] @ js ''$0'')), (js ''forr'',
           (js ''for ${1:x} in ${2:iterable}:'' @ [10, 9] @ js ''$0'')), (js ''while'',
             (js ''while ${1:cond}:'' @ [10, 9] @ js ''$0'')), (js ''ifelse'',
               (js ''if ${1:cond}:'' @ [10, 9] @ js ''$2'' @ [10] @ js ''else:'' @ [10, 9]
                 @ js ''$0'')), (js ''def'', (js ''def ${1:name}(${2:args}):'' @ [10, 9]
                   @ js ''$0'')), (js ''readints'', js ''${1:n}, ${2:m} = map(int,
                     input().split())''), (js ''readall'',
                       js ''${1:data} = sys.stdin.read().split()'')]\<rparr>"


definition DB :: "(jstr \<times> completion_db) list" where
  "DB = [((js ''cpp''), DB_cpp), ((js ''python''), DB_python)]"

section \<open>Contexts\<close>

definition word_char :: "nat \<Rightarrow> bool" where
  "word_char c \<longleftrightarrow> 65 \<le> c \<and> c \<le> 90 \<or> 97 \<le> c \<and> c \<le> 122 \<or> c = 95 \<or> 48 \<le> c \<and> c \<le> 57"

text \<open>\<open>/(\.|->)\s*[A-Za-z_0-9]*$/\<close> for C++,
  without the arrow for the other languages.\<close>

definition member_context :: "bool \<Rightarrow> jstr \<Rightarrow> bool" where
  "member_context arrow before =
     (case dropWhile js_ws (dropWhile word_char (rev before)) of
        [] \<Rightarrow> False
      | c # r \<Rightarrow> c = 46 \<or> arrow \<and> c = 62 \<and> (case r of [] \<Rightarrow> False | d # _ \<Rightarrow> d = 45))"

text \<open>\<open>/^\s*#\s*include\s*(["<])[^">]*$/\<close>: the bracket,
  if the line matches.\<close>

definition include_context :: "jstr \<Rightarrow> nat option" where
  "include_context before =
     (case dropWhile js_ws before of
        [] \<Rightarrow> None
      | c # r \<Rightarrow>
          if c \<noteq> 35 then None
          else let r1 = dropWhile js_ws r
               in if \<not> starts_with (js ''include'') r1 then None
                  else (case dropWhile js_ws (drop 7 r1) of
                          [] \<Rightarrow> None
                        | q # body \<Rightarrow>
                            if (q = 34 \<or> q = 60) \<and> 34 \<notin> set body \<and> 62 \<notin> set body
                            then Some q else None))"

section \<open>The static provider\<close>

record suggestion =
  sg_text :: jstr
  sg_kind :: completion_kind
  sg_detail :: jstr
  sg_insert :: jstr
  sg_snippet :: bool
  sg_sort :: jstr
  sg_range :: monaco_range

definition fnItem :: "monaco_range \<Rightarrow> completion_kind \<Rightarrow> jstr \<Rightarrow> jstr \<Rightarrow> jstr \<Rightarrow> suggestion" where
  "fnItem rng k detail cls name =
     \<lparr>sg_text = name, sg_kind = k, sg_detail = detail, sg_insert = name @ (js ''($0)''),
      sg_snippet = True, sg_sort = cls @ name, sg_range = rng\<rparr>"

definition plainItem :: "monaco_range \<Rightarrow> completion_kind \<Rightarrow> jstr \<Rightarrow> jstr \<Rightarrow> jstr \<Rightarrow> suggestion" where
  "plainItem rng k detail cls name =
     \<lparr>sg_text = name, sg_kind = k, sg_detail = detail, sg_insert = name,
      sg_snippet = False, sg_sort = cls @ name, sg_range = rng\<rparr>"

definition pairItem ::
  "monaco_range \<Rightarrow> completion_kind \<Rightarrow> jstr \<Rightarrow> jstr \<Rightarrow> jstr \<times> jstr \<Rightarrow> suggestion"
where
  "pairItem rng k detail cls p =
     \<lparr>sg_text = fst p, sg_kind = k, sg_detail = detail, sg_insert = snd p,
      sg_snippet = True, sg_sort = cls @ fst p, sg_range = rng\<rparr>"

definition include_items :: "completion_db \<Rightarrow> monaco_range \<Rightarrow> nat \<Rightarrow> jstr \<Rightarrow> suggestion list" where
  "include_items db rng q after =
     (let closer = (if q = 34 then 34 else 62);
          suffix = (if take 1 after = [closer] then [] else [closer])
      in map (\<lambda>h. \<lparr>sg_text = h, sg_kind = CModule, sg_detail = [0x5934, 0x6587,
        0x4EF6],
                   sg_insert = h @ suffix, sg_snippet = False, sg_sort = (js ''1'') @ h,
                   sg_range = rng\<rparr>) (db_headers db))"

definition member_items :: "completion_db \<Rightarrow> monaco_range \<Rightarrow> suggestion list" where
  "member_items db rng =
     map (fnItem rng CMethod [0x6210, 0x5458, 0x51FD, 0x6570] (js ''1'')) (db_members db)
     @ map (plainItem rng CField [0x6210, 0x5458] (js ''0'')) (db_memberProps db)"

definition global_items :: "completion_db \<Rightarrow> monaco_range \<Rightarrow> suggestion list" where
  "global_items db rng =
     map (pairItem rng CClass [0x5BB9, 0x5668] (js ''3'')) (db_containers db)
     @ map (plainItem rng CClass [0x7C7B, 0x578B] (js ''3'')) (db_types db)
     @ map (fnItem rng CFunction [0x6807, 0x51C6, 0x5E93, 0x51FD, 0x6570] (js ''4'')) (db_funcs db)
     @ map (plainItem rng CVariable [0x6807, 0x51C6, 0x5E93] (js ''5'')) (db_vars db)
     @ map (plainItem rng CConstant [0x5E38, 0x91CF] (js ''6'')) (db_macros db)
     @ map (plainItem rng CKeyword [0x5173, 0x952E, 0x5B57] (js ''7'')) (db_keywords db)
     @ map (pairItem rng CSnippet [0x4EE3, 0x7801, 0x7247, 0x6BB5] (js ''2'')) (db_snippets db)"

text \<open>\<open>line\<close> is the line of the position; \<open>wd\<close> the columns of the word under it.\<close>

definition staticProvider ::
  "jstr \<Rightarrow> jstr \<Rightarrow> monaco_pos \<Rightarrow> int \<times> int \<Rightarrow> suggestion list"
where
  "staticProvider lang line p wd =
     (case map_of DB lang of
        None \<Rightarrow> []
      | Some db \<Rightarrow>
          let rng = default_range p (fst wd) (snd wd);
              n = nat (column p - 1);
              before = take n line;
              inc = include_context before
          in if lang = (js ''cpp'') \<and> inc \<noteq> None then include_items db rng (the inc) (drop n line)
             else if member_context (lang = (js ''cpp'')) before then member_items db rng
             else global_items db rng)"

section \<open>The hybrid provider\<close>

datatype completion_reply =
  FromServer "outcome \<times> lsp_answer option" | FromTables "suggestion list"

definition hybrid_provide ::
  "lsp_opts \<Rightarrow> jstr \<Rightarrow> client option \<Rightarrow> jstr \<Rightarrow> jstr \<Rightarrow> monaco_pos \<Rightarrow> int \<times> int \<Rightarrow> jstr option
     \<Rightarrow> completion_reply"
where
  "hybrid_provide o1 lang c doc line p wd trig =
     (case c of
        None \<Rightarrow> FromTables (staticProvider lang line p wd)
      | Some c1 \<Rightarrow>
          if ready c1 then FromServer (provideCompletion o1 doc p wd trig c1)
          else FromTables (staticProvider lang line p wd))"

definition hybrid_resolve ::
  "client option \<Rightarrow> monaco_item \<Rightarrow> bool \<Rightarrow> client option \<times> lsp_effect list \<times> lsp_answer option"
where
  "hybrid_resolve c it has_lsp =
     (case c of
        None \<Rightarrow> (None, [], Some (AResolve it))
      | Some c1 \<Rightarrow>
          if has_lsp
          then (case resolveCompletion it has_lsp c1 of ((c2, es), a) \<Rightarrow> (Some c2, es,
            a))
          else (c, [], Some (AResolve it)))"

definition TRIGGERS :: "(jstr \<times> nat list) list" where
  "TRIGGERS = [((js ''cpp''), [46, 62, 58, 60, 34, 47]), ((js ''python''), [46])]"

section \<open>What the scans match\<close>

lemma word_not_ws: "word_char c \<Longrightarrow> \<not> js_ws c"
  by (auto simp: word_char_def js_ws_def)

lemma dropWhile_split: "\<exists>xs. ys = xs @ dropWhile P ys \<and> list_all P xs"
  by (metis list_all_iff set_takeWhileD takeWhile_dropWhile_id)

lemma dropWhile_app:
  "list_all P xs \<Longrightarrow> (ys = [] \<or> \<not> P (hd ys)) \<Longrightarrow> dropWhile P (xs @ ys) = ys"
  by (induction xs) (auto simp: dropWhile_id)

lemma scan_back:
  assumes "list_all word_char w" "list_all js_ws ws" "c # r \<noteq> []" "\<not> word_char c" "\<not> js_ws c"
  shows "dropWhile js_ws (dropWhile word_char (rev w @ rev ws @ c # r)) = c # r"
proof (cases "ws = []")
  case True
  then show ?thesis using assms by (simp add: dropWhile_app dropWhile_id)
next
  case False
  then have "\<not> word_char (hd (rev ws @ c # r))"
    using assms(2) word_not_ws by (cases "rev ws") (auto simp: list_all_iff)
  then have "dropWhile word_char (rev w @ rev ws @ c # r) = rev ws @ c # r"
    using assms(1) by (intro dropWhile_app) auto
  then show ?thesis using assms by (simp add: dropWhile_app)
qed

definition member_match :: "bool \<Rightarrow> jstr \<Rightarrow> jstr \<Rightarrow> jstr \<Rightarrow> jstr \<Rightarrow> jstr \<Rightarrow> bool" where
  "member_match arrow before p sep ws w \<longleftrightarrow> before = p @ sep @ ws @ w
     \<and> (sep = [46] \<or> arrow \<and> sep = [45,
       62]) \<and> list_all js_ws ws \<and> list_all word_char w"

lemma member_context_iff:
  "member_context arrow before \<longleftrightarrow> (\<exists>p sep ws w. member_match arrow before p sep ws w)"
proof
  assume m: "member_context arrow before"
  obtain w where w: "rev before = w @ dropWhile word_char (rev before)" "list_all word_char w"
    using dropWhile_split by blast
  obtain ws where ws: "dropWhile word_char (rev before)
      = ws @ dropWhile js_ws (dropWhile word_char (rev before))" "list_all js_ws ws"
    using dropWhile_split by blast
  define r where "r = dropWhile js_ws (dropWhile word_char (rev before))"
  have "before = rev (w @ ws @ r)" using w(1) ws(1) by (metis r_def rev_rev_ident)
  then have b: "before = rev r @ rev ws @ rev w" by simp
  have "\<exists>p sep. rev r = p @ sep \<and> (sep = [46] \<or> arrow \<and> sep = [45, 62])"
    using m unfolding member_context_def r_def [symmetric]
  proof (cases r)
    case (Cons c r')
    then show ?thesis
      using m unfolding member_context_def r_def [symmetric]
      by (cases r') (auto intro: exI [of _ "rev r'"] exI [of _ "rev (tl r')"])
  qed (use m in \<open>simp add: member_context_def flip: r_def\<close>)
  then obtain p sep where "rev r = p @ sep" "sep = [46] \<or> arrow \<and> sep = [45, 62]" by blast
  then have "member_match arrow before p sep (rev ws) (rev w)"
    using b w ws by (simp add: member_match_def)
  then show "\<exists>p sep ws w. member_match arrow before p sep ws w" by blast
next
  assume "\<exists>p sep ws w. member_match arrow before p sep ws w"
  then obtain p sep ws w where mm: "member_match arrow before p sep ws w" by blast
  have sc: "\<not> word_char 46" "\<not> js_ws 46" "\<not> word_char 62" "\<not> js_ws 62"
    by (auto simp: word_char_def js_ws_def)
  have all: "list_all word_char w" "list_all js_ws ws" using mm by (simp_all add: member_match_def)
  have "sep = [46] \<or> arrow \<and> sep = [45, 62]" using mm by (simp add: member_match_def)
  then show "member_context arrow before"
  proof
    assume "sep = [46]"
    then have "rev before = rev w @ rev ws @ 46 # rev p" using mm by (simp add: member_match_def)
    then show ?thesis
      using scan_back [OF all _ sc(1,2), of "rev p"] by (simp add: member_context_def)
  next
    assume "arrow \<and> sep = [45, 62]"
    moreover from this have "rev before = rev w @ rev ws @ 62 # 45 # rev p"
      using mm by (simp add: member_match_def)
    ultimately show ?thesis
      using scan_back [OF all _ sc(3,4), of "45 # rev p"] by (simp add: member_context_def)
  qed
qed

section \<open>Properties\<close>

text \<open>
  Header completion closes the directive once. If the text before the cursor is an
  include directive with an open bracket, every suggestion is a known header, and putting it
  before the rest of the line gives the header, one closing bracket, and then what followed
  the bracket that was already there, if one was.
\<close>

lemma include_completion_closes:
  assumes "include_context (take (nat (column p - 1)) line) = Some q"
    and "sg \<in> set (staticProvider ((js ''cpp'')) line p wd)"
  shows "\<exists>h \<in> set (db_headers DB_cpp).
    sg_insert sg @ drop (nat (column p - 1)) line
      = h @ (if q = 34 then 34 else 62)
          # (let after = drop (nat (column p - 1)) line
             in if take 1 after = [if q = 34 then 34 else 62] then tl after else after)"
proof -
  let ?after = "drop (nat (column p - 1)) line" and ?c = "if q = 34 then 34 else 62 :: nat"
  have "map_of DB ((js ''cpp'')) = Some DB_cpp" by (simp add: DB_def)
  then have "staticProvider ((js ''cpp'')) line p wd
      = include_items DB_cpp (default_range p (fst wd) (snd wd)) q ?after"
    using assms(1) by (simp add: staticProvider_def Let_def del: js_simps_list)
  then obtain h where h: "h \<in> set (db_headers DB_cpp)"
    "sg_insert sg = h @ (if take 1 ?after = [?c] then [] else [?c])"
    using assms(2) unfolding include_items_def Let_def by auto
  have "take 1 ?after = [?c] \<Longrightarrow> ?after = ?c # tl ?after" by (cases ?after) auto
  then have "sg_insert sg @ ?after
      = h @ ?c # (let after = ?after in if take 1 after = [?c] then tl after else after)"
    using h(2) by (auto simp: Let_def)
  then show ?thesis using h(1) by blast
qed

lemma include_completion_closes_witness:
  "list_all (\<lambda>sg. list_ex (\<lambda>h. sg_insert sg @ [62] = h @ [62]) (db_headers DB_cpp))
     (staticProvider (js ''cpp'') (js ''#include <v>'') \<lparr>lineNumber = 1, column = 12\<rparr> (11, 12))"
proof -
  let ?l = "(js ''#include <v>'')" and ?p = "\<lparr>lineNumber = 1, column = 12\<rparr>"
  have pre: "take (nat (column ?p - 1)) ?l = (js ''#include <v'')"
    and rest: "drop (nat (column ?p - 1)) ?l = [62]"
    by simp_all
  have inc: "include_context (take (nat (column ?p - 1)) ?l) = Some 60"
    unfolding pre by (simp add: include_context_def js_ws_def starts_with_def)
  show ?thesis
    using include_completion_closes [OF inc] unfolding rest list_all_iff list_ex_iff by (simp del: js_simps_list)
qed

text \<open>
  Member access offers members only. For a language with tables and a line before the
  cursor that is no include directive, the suggestions are members (methods and fields)
  exactly when that text ends in a dot, or in C++ an arrow, then white space, then a part of a
  word; and then none of the global symbols, keywords and snippets is offered.
\<close>

lemma member_completion_context:
  assumes "map_of DB lang = Some db" and "lang \<noteq> (js ''cpp'') \<or> include_context before = None"
    and "before = take (nat (column p - 1)) line"
  shows "staticProvider lang line p wd =
     (if \<exists>pre sep ws w. member_match (lang = (js ''cpp'')) before pre sep ws w
      then member_items db (default_range p (fst wd) (snd wd))
      else global_items db (default_range p (fst wd) (snd wd)))"
  using assms unfolding member_context_iff [symmetric]
  by (auto simp: staticProvider_def Let_def simp del: js_simps_list)

lemma member_completion_context_witness:
  "staticProvider ((js ''python'')) ((js ''xs. ap'')) \<lparr>lineNumber = 1,
    column = 7\<rparr> (5, 7)
   = member_items DB_python (default_range \<lparr>lineNumber = 1, column = 7\<rparr> 5 7)"
proof -
  let ?p = "\<lparr>lineNumber = 1, column = 7\<rparr>"
  have db: "map_of DB ((js ''python'')) = Some DB_python" by (simp add: DB_def)
  have l: "(js ''python'') \<noteq> (js ''cpp'')" by simp
  have b: "(js ''xs. ap'') = take (nat (column ?p - 1)) ((js ''xs. ap''))" by simp
  have "member_match ((js ''python'') = (js ''cpp'')) ((js ''xs. ap'')) ((js ''xs'')) ((js ''.'')) ((js '' '')) ((js ''ap''))"
    by (simp add: member_match_def word_char_def js_ws_def)
  then have m: "\<exists>pre sep ws w. member_match ((js ''python'') = (js ''cpp'')) ((js ''xs. ap'')) pre sep ws w" by blast
  show ?thesis
    unfolding member_completion_context [OF db disjI1 [OF l] b] using m
    by (simp only: if_True fst_conv snd_conv)
qed

end
