(* ===== verification/JSNumbers.thy ===== *)
theory JSNumbers
  imports JSPrelude
begin

text \<open>
  Reading numbers from text, as several pages do: \<open>parseInt\<close>, with and without a
  radix, and \<open>Number\<close>. The numbers that are read are integers in decimal
  notation.
\<close>

section \<open>parseInt\<close>

text \<open>
  \<open>parseInt(s, 10)\<close> on an optional sign and digits, and \<open>None\<close> for
  \<open>NaN\<close>.
\<close>

definition is_digit :: "nat \<Rightarrow> bool" where
  "is_digit c \<longleftrightarrow> 48 \<le> c \<and> c \<le> 57"

definition digits_value :: "jstr \<Rightarrow> nat" where
  "digits_value ds = foldl (\<lambda>n d. 10 * n + (d - 48)) 0 ds"

definition parseInt :: "jstr \<Rightarrow> int option" where
  "parseInt s =
     (let t = dropWhile js_ws s;
          (neg, u) = (case t of [] \<Rightarrow> (False, t)
                      | c # r \<Rightarrow> if c = 45 then (True, r) else if c = 43 then (False,
                        r) else (False, t));
          ds = takeWhile is_digit u
      in if ds = [] then None
         else Some (if neg then - int (digits_value ds) else int (digits_value ds)))"

lemma foldl_digits:
  "foldl (\<lambda>n d. 10 * n + (d - 48)) a (rev (digits_rev n))
     = a * 10 ^ length (digits_rev n) + n"
proof (induction n arbitrary: a rule: digits_rev.induct)
  case (1 n)
  show ?case
  proof (cases "n < 10")
    case False
    then have "n = 10 * (n div 10) + n mod 10" by simp
    with False 1 show ?thesis
      by (simp add: digits_rev.simps [of n] algebra_simps)
  qed (simp add: digits_rev.simps [of n])
qed

lemma digits_value_nat_str: "digits_value (nat_str n) = n"
  by (simp add: digits_value_def nat_str_def foldl_digits)

lemma nat_str_digits: "list_all is_digit (nat_str n)"
  using digits_rev_digits by (fastforce simp: nat_str_def is_digit_def list_all_iff)

lemma nat_str_ne [simp]: "nat_str n \<noteq> []"
  by (simp add: nat_str_def digits_rev.simps [of n])

lemma digit_not_ws: "is_digit c \<Longrightarrow> \<not> js_ws c"
  by (auto simp: is_digit_def js_ws_def)

lemma parseInt_nat_str: "parseInt (nat_str n) = Some (int n)"
proof -
  obtain c r where cr: "nat_str n = c # r" by (cases "nat_str n") auto
  then have c: "is_digit c" using nat_str_digits [of n] by simp
  have "takeWhile is_digit r = r"
    using nat_str_digits [of n] by (simp add: cr takeWhile_eq_all_conv list_all_iff)
  moreover have "c \<noteq> 45" "c \<noteq> 43" using c by (auto simp: is_digit_def)
  ultimately show ?thesis
    using c digit_not_ws [OF c] digits_value_nat_str [of n]
    by (simp add: parseInt_def cr Let_def del: takeWhile_eq_all_conv)
qed

lemma parseInt_num_str: "0 \<le> n \<Longrightarrow> parseInt (num_str n) = Some n"
  by (simp add: num_str_def parseInt_nat_str)

section \<open>Without a radix\<close>

text \<open>
  \<open>parseInt(s)\<close> reads hexadecimal digits after \<open>0x\<close>. The sign is
  split off first.
\<close>

definition split_sign :: "jstr \<Rightarrow> bool \<times> jstr" where
  "split_sign t = (case t of [] \<Rightarrow> (False, t)
     | c # r \<Rightarrow> if c = 45 then (True, r) else if c = 43 then (False, r) else (False, t))"

definition signed :: "bool \<Rightarrow> nat \<Rightarrow> int" where
  "signed neg n = (if neg then - int n else int n)"

definition hex_digit :: "nat \<Rightarrow> nat option" where
  "hex_digit c = (if is_digit c then Some (c - 48)
     else if 97 \<le> c \<and> c \<le> 102 then Some (c - 87)
     else if 65 \<le> c \<and> c \<le> 70 then Some (c - 55) else None)"

definition hex_number :: "jstr \<Rightarrow> nat" where
  "hex_number ds = foldl (\<lambda>n c. 16 * n + (case hex_digit c of None \<Rightarrow> 0 | Some d \<Rightarrow> d)) 0 ds"

definition has_hex_prefix :: "jstr \<Rightarrow> bool" where
  "has_hex_prefix u \<longleftrightarrow> take 2 u = [48, 120] \<or> take 2 u = [48, 88]"

definition parseIntAuto :: "jstr \<Rightarrow> int option" where
  "parseIntAuto s =
     (case split_sign (dropWhile js_ws s) of
        (neg, u) \<Rightarrow>
          if has_hex_prefix u
          then (let ds = takeWhile (\<lambda>c. hex_digit c \<noteq> None) (drop 2 u)
                in if ds = [] then None else Some (signed neg (hex_number ds)))
          else (let ds = takeWhile is_digit u
                in if ds = [] then None else Some (signed neg (digits_value ds))))"

section \<open>Number\<close>

text \<open>
  \<open>Number(s)\<close>: blank text is 0 and an optional sign with digits the integer.
  Every other text (fractions, exponents, other bases, and what is no numeral) is read by the
  parameter, with \<open>JNull\<close> for \<open>NaN\<close>, which is what
  \<open>JSON.stringify\<close> writes for it.
\<close>

definition js_number :: "(jstr \<Rightarrow> jval) \<Rightarrow> jstr \<Rightarrow> jval" where
  "js_number other s =
     (let t = js_trim s
      in if t = [] then JNum 0
         else (case split_sign t of
                 (neg, ds) \<Rightarrow> if ds \<noteq> [] \<and> list_all is_digit ds then JNum (signed neg (digits_value ds))
                              else other t))"

definition is_nan :: "(jstr \<Rightarrow> jval) \<Rightarrow> jstr \<Rightarrow> bool" where
  "is_nan other s \<longleftrightarrow> js_number other s = JNull"

lemma nat_str_Cons: obtains c r where "nat_str n = c # r" "is_digit c" "list_all is_digit r"
proof -
  obtain c r where cr: "nat_str n = c # r" by (cases "nat_str n") auto
  with nat_str_digits [of n] that show ?thesis by simp
qed

lemma split_sign_nat_str [simp]: "split_sign (nat_str n) = (False, nat_str n)"
  by (rule nat_str_Cons [of n]) (auto simp: split_sign_def is_digit_def)

lemma nat_str_trim [simp]: "js_trim (nat_str n) = nat_str n" "dropWhile js_ws (nat_str n) = nat_str n"
proof -
  have d: "\<not> js_ws c" if "c \<in> set (nat_str n)" for c
    using that nat_str_digits [of n] digit_not_ws by (simp add: list_all_iff)
  then show "js_trim (nat_str n) = nat_str n" by (intro js_trim_id) auto
  show "dropWhile js_ws (nat_str n) = nat_str n" using d by (intro dropWhile_id) auto
qed

lemma nat_str_no_hex [simp]: "\<not> has_hex_prefix (nat_str n)"
proof -
  have "120 \<notin> set (nat_str n)" "88 \<notin> set (nat_str n)"
    using nat_str_digits [of n] by (auto simp: list_all_iff is_digit_def)
  then show ?thesis
    unfolding has_hex_prefix_def by (metis in_set_takeD list.set_intros(1) list.set_intros(2))
qed

lemma parseIntAuto_nat_str [simp]: "parseIntAuto (nat_str n) = Some (int n)"
proof -
  have "takeWhile is_digit (nat_str n) = nat_str n"
    using nat_str_digits [of n] by (simp add: takeWhile_eq_all_conv list_all_iff)
  then show ?thesis
    by (simp add: parseIntAuto_def signed_def digits_value_nat_str del: takeWhile_eq_all_conv)
qed

lemma js_number_nat_str [simp]: "js_number other (nat_str n) = JNum (int n)"
  using nat_str_digits [of n] by (simp add: js_number_def Let_def signed_def digits_value_nat_str)

lemma is_nan_nat_str [simp]: "\<not> is_nan other (nat_str n)"
  by (simp add: is_nan_def)

end
