(* ===== verification/IdePanel.thy ===== *)
theory IdePanel
  imports JSNumbers IdeStore LspConvert
begin

text \<open>
  The controls around the editor of the problem IDE
  (\<open>web/static/js/problem_ide.js\<close>): the swallowed browser shortcuts, the status
  indicator, the editor theme, the two splitters, the console tabs, the self-test run and the
  submission.
\<close>

section \<open>Shortcuts\<close>

text \<open>\<open>k\<close> is the lower-cased key; the result says whether the browser's default is suppressed.\<close>

definition swallows :: "jstr \<Rightarrow> bool \<Rightarrow> bool \<Rightarrow> bool" where
  "swallows k ctrl meta \<longleftrightarrow>
     (ctrl \<or> meta) \<and> (k = (js ''s'') \<or> k = (js ''p'') \<or> k = (js ''o'') \<or> k = (js ''u''))"

section \<open>Status indicator\<close>

datatype ide_status = StLoading | StReady | StError | StOff

definition engineName :: "jstr \<Rightarrow> jstr" where
  "engineName lang = (if lang = (js ''cpp'') then (js ''clangd'') else if lang = (js ''python'') then (js ''Pyright'') else [])"

definition status_class :: "ide_status \<Rightarrow> jstr" where
  "status_class st = (js ''ide__clangd-status ide__clangd-status--'') @
     (case st of StLoading \<Rightarrow> (js ''loading'') | StReady \<Rightarrow> (js ''ready'') | StError \<Rightarrow> (js ''error'') | StOff \<Rightarrow> (js ''off''))"

definition status_label :: "ide_status \<Rightarrow> jstr \<Rightarrow> jstr" where
  "status_label st eng =
     (case st of
        StLoading \<Rightarrow> eng @ [32, 0x52A0, 0x8F7D, 0x4E2D, 0x2026]
      | StReady \<Rightarrow> eng @ [32, 0x5DF2, 0x5C31, 0x7EEA]
      | StError \<Rightarrow> eng @ [32, 0x4E0D, 0x53EF, 0x7528]
      | StOff \<Rightarrow> [0x57FA, 0x7840, 0x8865, 0x5168])"

definition status_tip :: "ide_status \<Rightarrow> jstr \<Rightarrow> jstr" where
  "status_tip st eng =
     (case st of
        StLoading \<Rightarrow> [0x6B63, 0x5728, 0x4E0B, 0x8F7D, 0x5E76, 0x542F, 0x52A8, 32]
          @ eng @ [32, 0x667A, 0x80FD, 0x5F15, 0x64CE, 0xFF08, 0x9996, 0x6B21, 0x8F83, 0x6162,
            0xFF0C, 0x4E4B, 0x540E, 0x8D70, 0x7F13, 0x5B58, 0xFF09]
      | StReady \<Rightarrow> eng @ ([32, 0x8BED, 0x4E49, 0x8865, 0x5168] @ js '' / '' @ [0x60AC,
        0x6D6E, 0x63D0, 0x793A] @ js '' / '' @ [0x9519, 0x8BEF, 0x8BCA, 0x65AD, 0x5DF2, 0x542F,
          0x7528])
      | StError \<Rightarrow> eng @ [32, 0x52A0, 0x8F7D, 0x5931, 0x8D25, 0xFF0C, 0x5DF2, 0x56DE,
        0x9000, 0x5230, 0x57FA, 0x7840, 0x8865, 0x5168]
      | StOff \<Rightarrow> [0x8BE5, 0x8BED, 0x8A00, 0x4F7F, 0x7528, 0x57FA, 0x7840, 0x8865,
        0x5168])"

text \<open>Class, text and title of the indicator; an empty detail counts as none.\<close>

definition setLspStatus :: "jstr \<Rightarrow> ide_status \<Rightarrow> jstr option \<Rightarrow> jstr \<times> jstr \<times> jstr" where
  "setLspStatus lang st detail =
     (status_class st, status_label st (engineName lang),
      (case detail of
         None \<Rightarrow> status_tip st (engineName lang)
       | Some d \<Rightarrow> if d = [] then status_tip st (engineName lang) else d))"

section \<open>Theme\<close>

text \<open>
  \<open>options\<close> are the values of the theme selector; assigning another value leaves
  it without that value.
\<close>

definition initial_theme :: "jstr list option \<Rightarrow> storage \<Rightarrow> jstr" where
  "initial_theme options s =
     (let saved = (case sto_get s (js ''ide_theme'') of
                     None \<Rightarrow> (js ''acmoj-light'') | Some t \<Rightarrow> if t = [] then (js ''acmoj-light'') else t)
      in case options of
           None \<Rightarrow> saved
         | Some opts \<Rightarrow> if saved \<in> set opts then saved else (js ''acmoj-light''))"

definition theme_changed :: "jstr \<Rightarrow> storage \<Rightarrow> storage" where
  "theme_changed t s = try_put (js ''ide_theme'') t s"

section \<open>Splitters\<close>

definition clamp_left :: "int \<Rightarrow> int \<Rightarrow> int" where
  "clamp_left width x =
     (let w1 = (if x < 240 then 240 else x)
      in if w1 > width - 320 then width - 320 else w1)"

definition clamp_console :: "int \<Rightarrow> int \<Rightarrow> int" where
  "clamp_console height y =
     (let h = height - y; h1 = (if h < 120 then 120 else h)
      in if h1 > height - 220 then height - 220 else h1)"

record splitter =
  sp_size :: "int option" \<comment> \<open>the style's pixels, once it is set\<close>
  sp_dragging :: bool

definition splitter_init :: "jstr \<Rightarrow> storage \<Rightarrow> splitter" where
  "splitter_init key s =
     \<lparr>sp_size = (case sto_get s key of None \<Rightarrow> None
        | Some t \<Rightarrow> (case parseInt t of None \<Rightarrow> None | Some n \<Rightarrow> if n > 0 then Some n else None)),
      sp_dragging = False\<rparr>"

definition mouse_down :: "splitter \<Rightarrow> splitter" where
  "mouse_down p = p\<lparr>sp_dragging := True\<rparr>"

text \<open>A negative size is no valid style and is not taken over.\<close>

definition set_size :: "int \<Rightarrow> splitter \<Rightarrow> splitter" where
  "set_size n p = (if n < 0 then p else p\<lparr>sp_size := Some n\<rparr>)"

definition mouse_move :: "int \<Rightarrow> splitter \<Rightarrow> splitter" where
  "mouse_move n p = (if \<not> sp_dragging p then p else set_size n p)"

definition size_text :: "int option \<Rightarrow> jstr" where
  "size_text n = (case n of None \<Rightarrow> (js ''NaN'') | Some k \<Rightarrow> num_str k)"

definition mouse_up :: "jstr \<Rightarrow> splitter \<Rightarrow> storage \<Rightarrow> splitter \<times> storage" where
  "mouse_up key p s =
     (if \<not> sp_dragging p then (p, s)
      else (p\<lparr>sp_dragging := False\<rparr>, try_put key (size_text (sp_size p)) s))"

text \<open>
  The two splitters: the left pane's width, read from the pointer and the body's left edge and
  width, and the console's height, read from the pointer and the window's height.
\<close>

definition left_init :: "storage \<Rightarrow> splitter" where
  "left_init s = splitter_init (js ''ide_left_width'') s"

definition left_moved :: "int \<Rightarrow> int \<Rightarrow> int \<Rightarrow> splitter \<Rightarrow> splitter" where
  "left_moved client_x edge width p = mouse_move (clamp_left width (client_x - edge)) p"

definition left_released :: "splitter \<Rightarrow> storage \<Rightarrow> splitter \<times> storage" where
  "left_released p s = mouse_up (js ''ide_left_width'') p s"

definition console_init :: "storage \<Rightarrow> splitter" where
  "console_init s = splitter_init (js ''ide_console_height'') s"

definition console_moved :: "int \<Rightarrow> int \<Rightarrow> splitter \<Rightarrow> splitter" where
  "console_moved client_y height p = mouse_move (clamp_console height client_y) p"

definition console_released :: "splitter \<Rightarrow> storage \<Rightarrow> splitter \<times> storage" where
  "console_released p s = mouse_up (js ''ide_console_height'') p s"

section \<open>Tabs\<close>

text \<open>The active flag of each tab and each panel.\<close>

definition activateTab :: "jstr \<Rightarrow> jstr list \<Rightarrow> (jstr \<times> bool) list" where
  "activateTab name tabs = map (\<lambda>t. (t, t = name)) tabs"

section \<open>Self-test run\<close>

definition escape_html_unit :: "nat \<Rightarrow> jstr" where
  "escape_html_unit c =
     (if c = 60 then (js ''&lt;'') else if c = 62 then (js ''&gt;'') else if c = 38 then (js ''&amp;'')
      else if c = 34 then (js ''&quot;'') else if c = 39 then (js ''&#39;'') else [c])"

definition escapeHtml :: "jstr \<Rightarrow> jstr" where
  "escapeHtml s = concat (map escape_html_unit s)"

record run_panel =
  rp_tab :: jstr
  rp_meta :: jstr
  rp_output :: jstr
  rp_disabled :: bool
  rp_label :: jstr

record run_request =
  rq_language :: jstr
  rq_code :: jstr
  rq_input :: jstr

text \<open>A click; the button cannot be clicked while it is disabled.\<close>

definition run_clicked ::
  "jstr option \<Rightarrow> jstr \<Rightarrow> jstr \<Rightarrow> run_panel \<Rightarrow> run_panel \<times> run_request option"
where
  "run_clicked ed lang input p =
     (if rp_disabled p then (p, None)
      else case ed of
        None \<Rightarrow> (p, None)
      | Some code \<Rightarrow>
          (p\<lparr>rp_tab := (js ''result''),
             rp_meta := (js ''<span class='' @ [34] @ js ''ide__result-muted'' @ [34]
               @ js ''><span class='' @ [34] @ js ''ide__spinner'' @ [34] @ js ''></span>''
                 @ [0x6B63, 0x5728, 0x6C99, 0x7BB1, 0x4E2D, 0x7F16, 0x8BD1, 0x8FD0, 0x884C,
                   0x2026] @ js ''</span>''),
             rp_output := [], rp_disabled := True, rp_label := [0x8FD0, 0x884C, 0x4E2D,
               0x2026]\<rparr>,
           Some \<lparr>rq_language = lang, rq_code = code, rq_input = input\<rparr>))"

text \<open>
  What \<open>fetch\<close> gives: a rejection or a body that is no JSON (with the message of
  the error), a status 404, or data. \<open>throws\<close> is the message of the engine's
  \<open>TypeError\<close> on data without properties.
\<close>

datatype run_answer = RunFails jstr | Run404 | RunData jval

definition nonempty_or :: "jstr \<Rightarrow> jstr \<Rightarrow> jstr" where
  "nonempty_or a b = (if a = [] then b else a)"

definition failed_meta :: "jstr \<Rightarrow> jstr" where
  "failed_meta m = (js ''<span class='' @ [34] @ js ''ide__result-bad'' @ [34, 62])
    @ escapeHtml m @ (js ''</span>'')"

definition run_labels :: "(jstr \<times> jstr) list" where
  "run_labels =
    [((js ''ok''), [0x8FD0, 0x884C, 0x5B8C, 0x6210]), ((js ''compile_error''), [0x7F16, 0x8BD1,
      0x9519, 0x8BEF]),
     ((js ''time_limit_exceeded''), [0x8D85, 0x51FA, 0x65F6, 0x95F4, 0x9650, 0x5236]),
       ((js ''runtime_error''), [0x8FD0, 0x884C, 0x65F6, 0x9519, 0x8BEF]),
     ((js ''memory_limit_exceeded''), [0x8D85, 0x51FA, 0x5185, 0x5B58, 0x9650, 0x5236])]"

definition run_label :: "jval \<Rightarrow> jstr" where
  "run_label st = (case map_of run_labels (to_text st) of Some l \<Rightarrow> l | None \<Rightarrow> to_text st)"

definition present :: "jval \<Rightarrow> bool" where
  "present v \<longleftrightarrow> v \<noteq> JUndef \<and> v \<noteq> JNull"

text \<open>\<open>Math.round(bytes / 1024)\<close> on a whole number.\<close>

definition kib :: "jval \<Rightarrow> jstr" where
  "kib v = (case v of JNum n \<Rightarrow> num_str ((n + 512) div 1024) | _ \<Rightarrow> (js ''NaN''))"

definition run_meta :: "jval \<Rightarrow> jstr" where
  "run_meta d =
     (let st = jget (js ''status'') d
      in (js ''<span class='' @ [34])
        @ (if st = JStr (js ''ok'') then (js ''ide__result-ok'') else (js ''ide__result-bad''))
         @ [34, 62] @ run_label st @ (js ''</span>'')
         @ (if present (jget (js ''time_msecs'') d)
            then (js '' <span class='' @ [34] @ js ''ide__result-muted'' @ [34, 62, 0xB7, 32,
              0x7528, 0x65F6, 32]) @ to_text (jget (js ''time_msecs'') d) @ (js '' ms</span>'')
            else [])
         @ (if present (jget (js ''memory_bytes'') d)
            then (js '' <span class='' @ [34] @ js ''ide__result-muted'' @ [34, 62, 0xB7, 32,
              0x5185, 0x5B58, 32]) @ kib (jget (js ''memory_bytes'') d) @ (js '' KiB</span>'')
            else []))"

definition run_output :: "jval \<Rightarrow> jstr" where
  "run_output d =
     (if jget (js ''status'') d = JStr (js ''compile_error'')
      then to_text (jor (jget (js ''compile_message'') d) (JStr [40, 0x65E0, 0x7F16, 0x8BD1,
        0x8F93, 0x51FA, 41]))
      else let o1 = (if present (jget (js ''output'') d) then jget (js ''output'') d else JStr []);
               o2 = (if truthy (jget (js ''stderr'') d)
                     then JStr (to_text o1 @ (if truthy o1 then [10] else []) @ (js ''[stderr]'')
                       @ [10]
                                @ to_text (jget (js ''stderr'') d))
                     else o1)
           in to_text (jor o2 (JStr [40, 0x65E0, 0x8F93, 0x51FA, 41])))"

definition show_run :: "jstr \<Rightarrow> jval \<Rightarrow> run_panel \<Rightarrow> run_panel" where
  "show_run throws d p =
     (case d of
        JUndef \<Rightarrow> p\<lparr>rp_meta := failed_meta throws, rp_output := []\<rparr>
      | JNull \<Rightarrow> p\<lparr>rp_meta := failed_meta throws, rp_output := []\<rparr>
      | _ \<Rightarrow>
          if truthy (jget (js ''error'') d)
          then p\<lparr>rp_meta := failed_meta (to_text (jget (js ''error'') d)),
                 rp_output := to_text (jor (jor (jget (js ''output'') d) (jget (js ''compile_message'') d)) (JStr []))\<rparr>
          else p\<lparr>rp_meta := run_meta d, rp_output := run_output d\<rparr>)"

definition run_answered :: "jstr \<Rightarrow> jstr \<Rightarrow> run_answer \<Rightarrow> run_panel \<Rightarrow> run_panel" where
  "run_answered throws orig a p =
     (let p1 = (case a of
                  RunFails m \<Rightarrow> p\<lparr>rp_meta := failed_meta (nonempty_or m [0x8FD0,
                    0x884C, 0x5931, 0x8D25]), rp_output := []\<rparr>
                | Run404 \<Rightarrow> p\<lparr>rp_meta := failed_meta [0x81EA, 0x6D4B, 0x8FD0,
                  0x884C, 0x670D, 0x52A1, 0x5C1A, 0x672A, 0x90E8, 0x7F72], rp_output := []\<rparr>
                | RunData d \<Rightarrow> show_run throws d p)
      in p1\<lparr>rp_disabled := False, rp_label := orig\<rparr>)"

section \<open>Submission\<close>

definition MAX_LEN :: nat where "MAX_LEN = 1048576"

record submit_form =
  sf_language :: jstr
  sf_code :: jstr
  sf_public_sent :: "bool option" \<comment> \<open>whether the public field is enabled,
    if it exists\<close>

datatype submit_result = NoEditor | Alert jstr | Submitted submit_form

definition submit_clicked ::
  "ide_config \<Rightarrow> jstr option \<Rightarrow> jstr \<Rightarrow> bool option \<Rightarrow> storage \<Rightarrow> submit_result \<times> storage"
where
  "submit_clicked cf ed lang pub s =
     (case ed of
        None \<Rightarrow> (NoEditor, s)
      | Some code \<Rightarrow>
          if length code = 0 then (Alert [0x4EE3, 0x7801, 0x4E0D, 0x80FD, 0x4E3A, 0x7A7A], s)
          else if length code > MAX_LEN then (Alert [0x4EE3, 0x7801, 0x8D85, 0x8FC7, 0x957F,
            0x5EA6, 0x4E0A, 0x9650], s)
          else (Submitted \<lparr>sf_language = lang, sf_code = code, sf_public_sent = pub\<rparr>,
                saveCode cf lang ed s))"

section \<open>Lemmas\<close>

text \<open>Reading escaped text back: the five entities, and every other unit as it is.\<close>

definition entities :: "(jstr \<times> nat) list" where
  "entities = [((js ''&lt;''), 60), ((js ''&gt;''), 62), ((js ''&amp;''), 38), ((js ''&quot;''),
    34), ((js ''&#39;''), 39)]"

fun unescape_html :: "jstr \<Rightarrow> jstr" where
  "unescape_html [] = []"
| "unescape_html (c # s) =
     (case find (\<lambda>(e, u). starts_with e (c # s)) entities of
        None \<Rightarrow> c # unescape_html s
      | Some (e, u) \<Rightarrow> u # unescape_html (drop (length e - 1) s))"

lemma unescape_unit: "unescape_html (escape_html_unit c @ t) = c # unescape_html t"
  by (simp add: escape_html_unit_def entities_def starts_with_def)

lemma unescape_escape: "unescape_html (escapeHtml s) = s"
  by (induction s) (simp_all add: escapeHtml_def unescape_unit)

lemma escape_unit_safe: "list_all (\<lambda>u. u \<notin> {60, 62, 34, 39}) (escape_html_unit c)"
  by (simp add: escape_html_unit_def)

lemma escape_safe: "c \<in> set (escapeHtml s) \<Longrightarrow> c \<notin> {60, 62, 34, 39}"
  using escape_unit_safe unfolding escapeHtml_def list_all_iff by fastforce

section \<open>Properties\<close>

text \<open>
  The run button always comes back, and errors show as text. Whatever the server answers
  or the network does, the button is enabled with its label again; and the message of a
  failure is put into the page as a span whose content has no markup characters and reads back
  as the message.
\<close>

lemma run_panel_recovers:
  "\<not> rp_disabled (run_answered throws orig a p) \<and> rp_label (run_answered throws orig a p) = orig
   \<and> rp_meta (run_answered throws orig (RunFails (c # m)) p)
       = (js ''<span class='' @ [34] @ js ''ide__result-bad'' @ [34, 62]) @ escapeHtml (c # m)
         @ (js ''</span>'')
   \<and> unescape_html (escapeHtml (c # m)) = c # m
   \<and> set (escapeHtml (c # m)) \<inter> {60, 62, 34, 39} = {}"
proof -
  have "set (escapeHtml (c # m)) \<inter> {60, 62, 34, 39} = {}" using escape_safe by blast
  then show ?thesis
    by (simp add: run_answered_def unescape_escape nonempty_or_def failed_meta_def Let_def
        del: js_simps_list Int_insert_right_if0)
qed

text \<open>
  An unknown status is inserted as markup. The label of a result whose status is not one of
  the five known ones is the status itself, unescaped, inside the HTML of the panel.
\<close>

lemma run_status_not_escaped:
  "rp_meta (run_answered throws orig (RunData (JObj [((js ''status''),
    JStr ((js ''<img src=x>'')))])) p)
   = (js ''<span class='' @ [34] @ js ''ide__result-bad'' @ [34] @ js ''><img src=x></span>'')"
  by (simp add: run_answered_def show_run_def run_meta_def run_label_def run_labels_def
      present_def Let_def)

text \<open>A released drag saves its size, and a reload restores it.\<close>

lemma drag_restores:
  assumes "0 < w" and "accepting s"
  shows "sp_size (mouse_move w (mouse_down p)) = Some w
     \<and> sp_size (splitter_init key (snd (mouse_up key (mouse_move w (mouse_down p)) s))) = Some w"
proof -
  have mv: "mouse_move w (mouse_down p) = p\<lparr>sp_dragging := True, sp_size := Some w\<rparr>"
    using assms(1) by (simp add: mouse_move_def mouse_down_def set_size_def)
  have "sto_get (try_put key (num_str w) s) key = Some (num_str w)"
    by (simp add: try_put_get accepting_put assms(2))
  then show ?thesis
    using assms(1) parseInt_num_str [of w] unfolding mv
    by (simp add: mouse_up_def size_text_def splitter_init_def)
qed

text \<open>
  The panes keep their sizes. In a body at least 560 pixels wide and a storage that accepts
  writes, dragging the splitter to any position and releasing it gives a width of at least 240
  pixels that leaves at least 320 to the editor, and a reload restores exactly that width. In a
  window at least 340 pixels high the console gets at least 120 pixels and leaves 220, and a
  reload restores its height.
\<close>

lemma splitter_restores_width:
  assumes "560 \<le> width" and "accepting s"
  shows "\<exists>w. sp_size (left_moved x edge width (mouse_down p)) = Some w
    \<and> 240 \<le> w \<and> w \<le> width - 320
    \<and> sp_size (left_init (snd (left_released (left_moved x edge width (mouse_down p)) s))) = Some w"
proof -
  have "240 \<le> clamp_left width (x - edge)" "clamp_left width (x - edge) \<le> width - 320"
    using assms(1) by (auto simp: clamp_left_def Let_def)
  then show ?thesis
    using drag_restores [of "clamp_left width (x - edge)" s p "js ''ide_left_width''"] assms(2)
    by (auto simp: left_moved_def left_init_def left_released_def simp del: js_simps_list)
qed

lemma console_restores_height:
  assumes "340 \<le> height" and "accepting s"
  shows "\<exists>h. sp_size (console_moved y height (mouse_down p)) = Some h
    \<and> 120 \<le> h \<and> h \<le> height - 220
    \<and> sp_size (console_init (snd (console_released (console_moved y height (mouse_down p)) s))) = Some h"
proof -
  have "120 \<le> clamp_console height y" "clamp_console height y \<le> height - 220"
    using assms(1) by (auto simp: clamp_console_def Let_def)
  then show ?thesis
    using drag_restores [of "clamp_console height y" s p "js ''ide_console_height''"] assms(2)
    by (auto simp: console_moved_def console_init_def console_released_def simp del: js_simps_list)
qed

end
