(* ===== verification/MdImport.thy ===== *)
theory MdImport
  imports JSPrelude
begin

text \<open>
  Importing and exporting the problem description as Markdown
  (\<open>web/static/js/problem_admin.js\<close>, lines 126 to 217 for the examples of the
  form, and 307 to 604).

  The DOM is represented by what it stores: the text of the four description editors, and the
  four fields of each example. A header of an example whose title is the name of a property of
  \<open>Object.prototype\<close> (such as \<open>constructor\<close>) is outside the model:
  the code's table lookup finds that property.
\<close>

section \<open>Fields and messages\<close>

datatype md_field = Description | InputFormat | OutputFormat | Examples | DataRange

text \<open>\<open>descriptionFields\<close>, in order, with the position of each.\<close>

definition descriptionFields :: "(md_field \<times> jstr) list" where
  "descriptionFields =
    [(Description, [0x9898, 0x76EE, 0x63CF, 0x8FF0]), (InputFormat, [0x8F93, 0x5165, 0x683C,
      0x5F0F]), (OutputFormat, [0x8F93, 0x51FA, 0x683C, 0x5F0F]),
     (Examples, [0x6837, 0x4F8B]), (DataRange, [0x6570, 0x636E, 0x8303, 0x56F4])]"

fun field_index :: "md_field \<Rightarrow> nat" where
  "field_index Description = 0"
| "field_index InputFormat = 1"
| "field_index OutputFormat = 2"
| "field_index Examples = 3"
| "field_index DataRange = 4"

instantiation md_field :: linorder
begin

definition less_eq_md_field :: "md_field \<Rightarrow> md_field \<Rightarrow> bool" where
  "less_eq_md_field f g \<longleftrightarrow> field_index f \<le> field_index g"

definition less_md_field :: "md_field \<Rightarrow> md_field \<Rightarrow> bool" where
  "less_md_field f g \<longleftrightarrow> field_index f < field_index g"

instance
proof
  fix f g :: md_field
  show "f \<le> g \<Longrightarrow> g \<le> f \<Longrightarrow> f = g"
    by (cases f; cases g) (simp_all add: less_eq_md_field_def)
qed (auto simp: less_eq_md_field_def less_md_field_def)

end

fun field_name :: "md_field \<Rightarrow> jstr" where
  "field_name Description = [0x9898, 0x76EE, 0x63CF, 0x8FF0]"
| "field_name InputFormat = [0x8F93, 0x5165, 0x683C, 0x5F0F]"
| "field_name OutputFormat = [0x8F93, 0x51FA, 0x683C, 0x5F0F]"
| "field_name Examples = [0x6837, 0x4F8B]"
| "field_name DataRange = [0x6570, 0x636E, 0x8303, 0x56F4]"

definition find_field :: "jstr \<Rightarrow> md_field option" where
  "find_field t = map_option fst (find (\<lambda>x. snd x = t) descriptionFields)"

datatype md_severity = Info | Warning | Error

fun severity_rank :: "md_severity \<Rightarrow> nat" where
  "severity_rank Info = 0"
| "severity_rank Warning = 1"
| "severity_rank Error = 2"

instantiation md_severity :: linorder
begin

definition less_eq_md_severity :: "md_severity \<Rightarrow> md_severity \<Rightarrow> bool" where
  "less_eq_md_severity a b \<longleftrightarrow> severity_rank a \<le> severity_rank b"

definition less_md_severity :: "md_severity \<Rightarrow> md_severity \<Rightarrow> bool" where
  "less_md_severity a b \<longleftrightarrow> severity_rank a < severity_rank b"

instance
proof
  fix a b :: md_severity
  show "a \<le> b \<Longrightarrow> b \<le> a \<Longrightarrow> a = b"
    by (cases a; cases b) (simp_all add: less_eq_md_severity_def)
qed (auto simp: less_eq_md_severity_def less_md_severity_def)

end

type_synonym message = "md_severity \<times> jstr"

definition quoted :: "jstr \<Rightarrow> jstr" where
  "quoted s = [0x300C] @ s @ [0x300D]"

section \<open>Lines\<close>

text \<open>\<open>md.replace(/\r\n/g, '\n')\<close>.\<close>

fun unix_lines :: "jstr \<Rightarrow> jstr" where
  "unix_lines [] = []"
| "unix_lines (c # s) =
     (if c = 13 \<and> take 1 s = [10] then unix_lines s else c # unix_lines s)"

text \<open>\<open>/^##[^#]/\<close> and the like: \<open>n\<close> number signs and another character.\<close>

definition hashes_then :: "nat \<Rightarrow> jstr \<Rightarrow> bool" where
  "hashes_then n s \<longleftrightarrow>
     take n s = replicate n 35 \<and> (case drop n s of [] \<Rightarrow> False | c # _ \<Rightarrow> c \<noteq> 35)"

text \<open>\<open>/^\s*(.+)$/\<close> on what follows the number signs: the group,
  if it matches.\<close>

definition heading_text :: "jstr \<Rightarrow> jstr option" where
  "heading_text r =
     (let body = dropWhile js_ws r
      in if body \<noteq> [] then (if list_ex js_line_end body then None else Some body)
         else if r = [] \<or> js_line_end (last r) then None
         else Some [last r])"

section \<open>The main part\<close>

record imp1 =
  i_field :: "md_field option"
  i_value :: "jstr list"
  i_record :: "md_field \<Rightarrow> jstr option"
  i_msgs :: "message list"

definition say1 :: "md_severity \<Rightarrow> jstr \<Rightarrow> imp1 \<Rightarrow> imp1" where
  "say1 v t st = st\<lparr>i_msgs := i_msgs st @ [(v, t)]\<rparr>"

definition join_lines :: "jstr list \<Rightarrow> jstr" where
  "join_lines = join_with [10]"

definition endField :: "imp1 \<Rightarrow> imp1" where
  "endField st =
     (case i_field st of
        None \<Rightarrow> st
      | Some f \<Rightarrow> st\<lparr>i_record := (i_record st)(f \<mapsto> js_trim (join_lines (i_value st))),
                     i_field := None, i_value := []\<rparr>)"

definition switch_field :: "md_field \<Rightarrow> imp1 \<Rightarrow> imp1" where
  "switch_field f st =
     (case i_field st of
        None \<Rightarrow> st
      | Some cur \<Rightarrow>
          if f = cur \<or> i_record st f \<noteq> None
          then say1 Error ([0x5B57, 0x6BB5] @ quoted (field_name f) @ [0x91CD, 0x590D]) st
          else if f < cur
          then say1 Error ([0x5B57, 0x6BB5] @ quoted (field_name f) @ [0x5E94, 0x5728]
            @ quoted (field_name cur) @ [0x4E4B, 0x524D]) st
          else endField st)"

text \<open>\<open>setField\<close>: the new state and whether the line is a field's header.\<close>

definition setField :: "jstr \<Rightarrow> imp1 \<Rightarrow> imp1 \<times> bool" where
  "setField line st =
     (if \<not> hashes_then 2 line then (st, False)
      else case heading_text (drop 2 line) of
        None \<Rightarrow> (st, False)
      | Some t \<Rightarrow>
          (case find_field t of
             None \<Rightarrow> (say1 Warning ([0x672A, 0x8BC6, 0x522B, 0x7684, 0x4E8C, 0x7EA7,
               0x6807, 0x9898, 0xFF1A] @ t) st, False)
           | Some f \<Rightarrow>
               ((say1 Info ([0x5DF2, 0x89E3, 0x6790, 0x5B57, 0x6BB5]
                 @ quoted (field_name f)) (switch_field f st))\<lparr>i_field := Some f\<rparr>,
                True)))"

text \<open>One line; the second component is the message of an \<open>Error\<close> that is thrown.\<close>

definition bad_first :: "jstr \<Rightarrow> jstr" where
  "bad_first line = [0x65E0, 0x6CD5, 0x89E3, 0x6790, 0x9996, 0x884C, 0xFF1A] @ line"

definition phase1_line :: "jstr \<Rightarrow> jstr \<Rightarrow> imp1 \<Rightarrow> imp1 \<times> jstr option" where
  "phase1_line title line st =
     (if i_field st = None
      then if js_trim line = [] then (st, None)
           else if hashes_then 2 line
           then (case setField line st of (st', found) \<Rightarrow>
                   (st', if found then None else Some (bad_first line)))
           else if hashes_then 1 line
           then (let actual = js_trim (drop 1 line)
                 in (if actual \<noteq> title
                     then say1 Warning ([0x9898, 0x9762, 0x6807, 0x9898] @ quoted actual @ [0x4E0E,
                       0x9898, 0x76EE, 0x6807, 0x9898] @ quoted title @ [0x4E0D, 0x5339, 0x914D]) st
                     else st, None))
           else (st, Some (bad_first line))
      else (case setField line st of (st', found) \<Rightarrow>
              (if found then st' else st'\<lparr>i_value := i_value st' @ [line]\<rparr>, None)))"

fun phase1 :: "jstr \<Rightarrow> jstr list \<Rightarrow> imp1 \<Rightarrow> imp1 \<times> jstr option" where
  "phase1 title [] st = (st, None)"
| "phase1 title (l # ls) st =
     (case phase1_line title l st of
        (st', Some e) \<Rightarrow> (st', Some e)
      | (st', None) \<Rightarrow> phase1 title ls st')"

definition imp1_init :: imp1 where
  "imp1_init = \<lparr>i_field = None, i_value = [], i_record = \<lambda>_. None,
    i_msgs = []\<rparr>"

section \<open>The examples\<close>

text \<open>
  The object of an example: a property is absent (\<open>None\<close>), null
  (\<open>Some None\<close>) or a string. The property \<open>null\<close> is set when the end
  of a field is handled while there is no field.
\<close>

record example =
  x_name :: "jstr option option"
  x_input :: "jstr option option"
  x_output :: "jstr option option"
  x_description :: "jstr option option"
  x_null :: bool

datatype ex_key = KInput | KOutput | KDescription

record imp2 =
  e_examples :: "example list"
  e_current :: example
  e_key :: "ex_key option"
  e_pending :: bool
  e_value :: "jstr list"
  e_msgs :: "message list"

definition no_example :: example where
  "no_example = \<lparr>x_name = None, x_input = None, x_output = None, x_description = None,
     x_null = False\<rparr>"

definition falsy :: "jstr option option \<Rightarrow> bool" where
  "falsy v = (case v of Some (Some s) \<Rightarrow> s = [] | _ \<Rightarrow> True)"

definition say2 :: "md_severity \<Rightarrow> jstr \<Rightarrow> imp2 \<Rightarrow> imp2" where
  "say2 v t st = st\<lparr>e_msgs := e_msgs st @ [(v, t)]\<rparr>"

definition shown_name :: "example \<Rightarrow> jstr" where
  "shown_name x = (case x_name x of Some (Some (c # s)) \<Rightarrow> c # s | _ \<Rightarrow> [0xFF08, 0x65E0, 0x540D, 0xFF09])"

definition has_key :: "ex_key option \<Rightarrow> example \<Rightarrow> bool" where
  "has_key k x =
     (case k of
        None \<Rightarrow> x_null x
      | Some KInput \<Rightarrow> x_input x \<noteq> None
      | Some KOutput \<Rightarrow> x_output x \<noteq> None
      | Some KDescription \<Rightarrow> x_description x \<noteq> None)"

definition set_key :: "ex_key option \<Rightarrow> jstr option \<Rightarrow> example \<Rightarrow> example" where
  "set_key k v x =
     (case k of
        None \<Rightarrow> x\<lparr>x_null := True\<rparr>
      | Some KInput \<Rightarrow> x\<lparr>x_input := Some v\<rparr>
      | Some KOutput \<Rightarrow> x\<lparr>x_output := Some v\<rparr>
      | Some KDescription \<Rightarrow> x\<lparr>x_description := Some v\<rparr>)"

definition endField2 :: "imp2 \<Rightarrow> imp2" where
  "endField2 st =
     (let joined = join_lines (e_value st);
          value = (if e_key st = Some KDescription then Some (js_trim joined)
                   else if joined = [] then None else Some joined);
          st1 = (if has_key (e_key st) (e_current st)
                 then say2 Error ([0x6D4B, 0x8BD5, 0x6837, 0x4F8B]
                   @ quoted (shown_name (e_current st)) @ [0x4E2D, 0x63CF, 0x8FF0, 0x91CD,
                     0x590D]) st
                 else st)
      in st1\<lparr>e_current := set_key (e_key st) value (e_current st),
             e_key := (if e_key st = Some KOutput then Some KDescription else None),
             e_pending := False, e_value := []\<rparr>)"

definition or_null_field :: "jstr option option \<Rightarrow> jstr option option" where
  "or_null_field v = (if falsy v then Some None else v)"

definition fill_nulls :: "example \<Rightarrow> example" where
  "fill_nulls x = x\<lparr>x_name := or_null_field (x_name x), x_input := or_null_field (x_input x),
     x_output := or_null_field (x_output x),
       x_description := or_null_field (x_description x)\<rparr>"

definition endExample :: "imp2 \<Rightarrow> imp2" where
  "endExample st =
     (let x = e_current st
      in if x = no_example then st
         else let st1 = (if falsy (x_input x) \<and> falsy (x_output x)
                         then say2 Warning ([0x6D4B, 0x8BD5, 0x6837, 0x4F8B]
                           @ quoted (shown_name x) @ [0x65E2, 0x6CA1, 0x6709, 0x8F93, 0x5165,
                             0x4E5F, 0x6CA1, 0x6709, 0x8F93, 0x51FA]) st
                         else st)
              in (say2 Info ([0x5DF2, 0x89E3, 0x6790, 0x6837, 0x4F8B] @ quoted (shown_name x)) st1)
                   \<lparr>e_examples := e_examples st @ [fill_nulls x],
                     e_current := no_example\<rparr>)"

text \<open>\<open>parseHeader\<close>: the new state (a message may be added) and the header,
  if it is one.\<close>

datatype ex_header = FieldHeader ex_key | TitleHeader jstr

definition header_key :: "jstr \<Rightarrow> ex_key option" where
  "header_key t = (if t = [0x8F93, 0x5165] then Some KInput else if t = [0x8F93,
    0x51FA] then Some KOutput else None)"

definition parseHeader :: "jstr \<Rightarrow> imp2 \<Rightarrow> imp2 \<times> ex_header option" where
  "parseHeader line st =
     (if \<not> hashes_then 3 line \<and> \<not> hashes_then 4 line then (st, None)
      else let lvl = (if hashes_then 4 line then 4 else 3)
      in case heading_text (drop lvl line) of
        None \<Rightarrow> (st, None)
      | Some t \<Rightarrow>
          let key = header_key t; named = (\<not> falsy (x_name (e_current st)))
          in if lvl > 3 \<and> key = None then (st, None)
             else let st1 = (if named \<and> lvl = 3 \<and> key \<noteq> None
                             then say2 Warning ([0x5728, 0x6837, 0x4F8B]
                               @ quoted (shown_name (e_current st))
                                    @ [0x4E2D, 0xFF0C, 0x8F93, 0x5165, 47, 0x8F93, 0x51FA, 0x6807,
                                      0x9898, 0x5C42, 0x7EA7, 0x9519, 0x8BEF]) st
                             else st)
                  in if \<not> named \<and> (e_current st \<noteq> no_example \<or> e_key st \<noteq> None) \<and> key = None
                     then (st1, None)
                     else (st1,
                       Some (case key of Some k \<Rightarrow> FieldHeader k | None \<Rightarrow> TitleHeader t)))"

text \<open>
  The pattern for an absent text: the Chinese word, null or none, in any case, possibly
  between ASCII or full-width parentheses.
\<close>

definition opt_drop :: "nat list \<Rightarrow> jstr \<Rightarrow> jstr" where
  "opt_drop cs s = (case s of [] \<Rightarrow> [] | c # r \<Rightarrow> if c \<in> set cs then r else s)"

definition is_none_mark :: "jstr \<Rightarrow> bool" where
  "is_none_mark s \<longleftrightarrow>
     (let body = rev (opt_drop [41, 0xFF09] (rev (opt_drop [0xFF08, 40] s)))
      in body = [0x65E0] \<or> map ascii_lower body = (js ''null'') \<or> map ascii_lower body = (js ''none''))"

definition in_code :: "imp2 \<Rightarrow> bool" where
  "in_code st \<longleftrightarrow> e_key st = Some KInput \<or> e_key st = Some KOutput"

definition FENCE :: jstr where "FENCE = [96, 96, 96]"

definition code_line :: "jstr \<Rightarrow> imp2 \<Rightarrow> imp2" where
  "code_line line st =
     (if starts_with FENCE line
      then if e_pending st then st\<lparr>e_pending := False\<rparr> else endField2 st
      else if e_pending st
      then if is_none_mark (js_trim line) then endField2 (st\<lparr>e_pending := False\<rparr>)
           else if js_trim line \<noteq> [] then say2 Error ([0x8F93, 0x5165, 47, 0x8F93, 0x51FA,
             0x524D, 0x7684, 0x5783, 0x573E, 0x884C, 0xFF1A] @ line) st
           else st
      else st\<lparr>e_value := e_value st @ [line]\<rparr>)"

definition text_line :: "jstr \<Rightarrow> imp2 \<Rightarrow> imp2" where
  "text_line line st =
     (if e_key st = None
      then if js_trim line \<noteq> []
           then st\<lparr>e_key := Some KDescription, e_value := e_value st @ [line]\<rparr>
           else st
      else st\<lparr>e_value := e_value st @ [line]\<rparr>)"

definition example_line :: "jstr \<Rightarrow> imp2 \<Rightarrow> imp2" where
  "example_line line st =
     (if in_code st then code_line line st
      else case parseHeader line st of
        (st1, None) \<Rightarrow> text_line line st1
      | (st1, Some h) \<Rightarrow>
          let st2 = (if e_key st1 \<noteq> None then endField2 st1 else st1)
          in (case h of
                FieldHeader k \<Rightarrow> st2\<lparr>e_key := Some k, e_pending := True\<rparr>
              | TitleHeader t \<Rightarrow>
                  let st3 = endExample st2
                  in st3\<lparr>e_current := (e_current st3)\<lparr>x_name := Some (Some t)\<rparr>\<rparr>))"

definition imp2_init :: "message list \<Rightarrow> imp2" where
  "imp2_init ms = \<lparr>e_examples = [], e_current = no_example, e_key = None, e_pending = False,
     e_value = [], e_msgs = ms\<rparr>"

definition forget_only_name :: "example list \<Rightarrow> example list" where
  "forget_only_name xs =
     (case xs of
        [x] \<Rightarrow> (case x_name x of
                  Some (Some n) \<Rightarrow>
                    if filter (\<lambda>c. \<not> js_ws c) n = [0x6837, 0x4F8B,
                      49] then [x\<lparr>x_name := Some None\<rparr>] else [x]
                | _ \<Rightarrow> [x])
      | _ \<Rightarrow> xs)"

definition parse_examples :: "jstr \<Rightarrow> message list \<Rightarrow> example list \<times> message list" where
  "parse_examples s ms =
     (let st = endExample (endField2 (fold example_line (split_on 10 s) (imp2_init ms)));
          xs = forget_only_name (e_examples st)
      in (xs, if length xs > 1 \<and> list_ex (\<lambda>x. falsy (x_name x)) xs
              then e_msgs st @ [(Warning, [0x6709, 0x591A, 0x7EC4, 0x6D4B, 0x8BD5, 0x6837, 0x4F8B,
                0xFF0C, 0x4F46, 0x6709, 0x7684, 0x6D4B, 0x8BD5, 0x6837, 0x4F8B, 0x6CA1, 0x6709,
                  0x540D, 0x79F0])]
              else e_msgs st))"

section \<open>The form\<close>

record form_example =
  f_name :: jstr
  f_input :: jstr
  f_output :: jstr
  f_description :: jstr

record desc_form =
  df_text :: "md_field \<Rightarrow> jstr"
  df_examples :: "form_example list"

definition field_text :: "jstr option option \<Rightarrow> jstr" where
  "field_text v = (case v of Some (Some s) \<Rightarrow> s | _ \<Rightarrow> [])"

text \<open>\<open>Examples.add\<close>,
  and the changes of the form after an import without errors.\<close>

definition add_example :: "example \<Rightarrow> form_example" where
  "add_example x = \<lparr>f_name = field_text (x_name x), f_input = field_text (x_input x),
     f_output = field_text (x_output x), f_description = field_text (x_description x)\<rparr>"

definition import_form :: "(md_field \<Rightarrow> jstr option) \<Rightarrow> example list \<Rightarrow> desc_form" where
  "import_form r xs =
     \<lparr>df_text = (\<lambda>f. if f = Examples then [] else (case r f of None \<Rightarrow> [] | Some t \<Rightarrow> t)),
      df_examples = map add_example xs\<rparr>"

definition all_fields :: "md_field list" where
  "all_fields = map fst descriptionFields"

text \<open>The messages, and the fields and examples read.\<close>

definition thrown :: "jstr \<Rightarrow> message" where
  "thrown m = (Error, (js ''Error: '') @ m)"

definition parse_md ::
  "jstr \<Rightarrow> jstr \<Rightarrow> message list \<times> (md_field \<Rightarrow> jstr option) \<times> example list"
where
  "parse_md title md =
     (case phase1 title (split_on 10 (js_trim (unix_lines md))) imp1_init of
        (st, Some e) \<Rightarrow> (i_msgs st @ [thrown e], i_record st, [])
      | (st, None) \<Rightarrow>
          let st1 = endField st;
              r = i_record st1;
              (xs, ms) = (case r Examples of
                            None \<Rightarrow> ([], i_msgs st1)
                          | Some s \<Rightarrow> parse_examples s (i_msgs st1))
          in (if list_all (\<lambda>f. r f = None) all_fields then ms @ [thrown [0x6587, 0x4EF6,
            0x4E3A, 0x7A7A]] else ms, r, xs))"

definition has_severity :: "md_severity \<Rightarrow> message list \<Rightarrow> bool" where
  "has_severity v ms = list_ex (\<lambda>m. fst m = v) ms"

definition importFromMarkdown :: "jstr \<Rightarrow> jstr \<Rightarrow> desc_form \<Rightarrow> message list \<times> desc_form" where
  "importFromMarkdown title md fm =
     (case parse_md title md of (ms, r, xs) \<Rightarrow>
        (ms, if has_severity Error ms then fm else import_form r xs))"

text \<open>The icon and the title of the dialog that shows the messages.\<close>

definition showResult :: "message list \<Rightarrow> md_severity \<times> jstr" where
  "showResult ms =
     (let r0 = (Info, [0x5BFC, 0x5165, 0x6210, 0x529F]);
          r1 = (if has_severity Warning ms then (Warning, [0x5BFC, 0x5165, 0x90E8, 0x5206, 0x6210,
            0x529F]) else r0)
      in if has_severity Error ms then (Error, [0x5BFC, 0x5165, 0x5931, 0x8D25]) else r1)"

section \<open>Export\<close>

definition wrapCode :: "jstr \<Rightarrow> jstr" where
  "wrapCode code = (if code \<noteq> [] then FENCE @ [10] @ code @ [10] @ FENCE else [0xFF08,
    0x65E0, 0xFF09])"

definition export_example :: "form_example \<Rightarrow> jstr" where
  "export_example x =
     (if f_name x \<noteq> [] then (js ''### '') @ f_name x @ [10, 10] else [])
     @ (let hdr = (if f_name x \<noteq> [] then (js ''####'') else (js ''###''))
        in if f_input x \<noteq> [] \<or> f_output x \<noteq> []
           then hdr @ [32, 0x8F93, 0x5165] @ [10, 10] @ wrapCode (f_input x) @ [10, 10]
                @ hdr @ [32, 0x8F93, 0x51FA] @ [10, 10] @ wrapCode (f_output x) @ [10, 10]
           else [])
     @ (if f_description x \<noteq> [] then f_description x @ [10, 10] else [])"

definition export_field :: "desc_form \<Rightarrow> md_field \<times> jstr \<Rightarrow> jstr" where
  "export_field fm p =
     (if fst p = Examples
      then (if df_examples fm \<noteq> [] then (js ''## '') @ snd p @ [10, 10] else [])
           @ concat (map export_example (df_examples fm))
      else if js_trim (df_text fm (fst p)) \<noteq> []
      then (js ''## '') @ snd p @ [10, 10] @ df_text fm (fst p) @ [10, 10]
      else [])"

definition exportToMarkdown :: "jstr \<Rightarrow> desc_form \<Rightarrow> jstr" where
  "exportToMarkdown title fm =
     (js ''# '') @ title @ [10, 10] @ concat (map (export_field fm) descriptionFields)"

section \<open>Lemmas on lines and white space\<close>

abbreviation trimmed :: "jstr \<Rightarrow> bool" where
  "trimmed s \<equiv> js_trim s = s"

lemma dropWhile_all: "list_all P w \<Longrightarrow> dropWhile P (w @ s) = dropWhile P s"
  by (induction w) auto

lemma trim_ws_left: "list_all js_ws w \<Longrightarrow> js_trim (w @ s) = js_trim s"
  by (simp add: js_trim_def dropWhile_all)

lemma trim_end_ws: "list_all js_ws w \<Longrightarrow> trim_end (s @ w) = trim_end s"
  by (simp add: trim_end_def dropWhile_all)

lemma trim_ws_right:
  assumes "list_all js_ws w"
  shows "js_trim (s @ w) = js_trim s"
proof (cases "list_all js_ws s")
  case True
  then show ?thesis using assms by (simp add: js_trim_blank)
next
  case False
  then obtain x where "x \<in> set s" "\<not> js_ws x" by (auto simp: list_all_iff)
  then have "dropWhile js_ws (s @ w) = dropWhile js_ws s @ w" by (rule dropWhile_append1)
  then show ?thesis by (simp add: js_trim_def trim_end_ws assms)
qed

lemma trim_Nil [simp]: "js_trim [] = []"
  by (simp add: js_trim_def trim_end_def)

lemma ws_newline [simp]: "js_ws 10" "js_ws 32"
  by (simp_all add: js_ws_def)

lemma trim_newlines [simp]: "js_trim (10 # s) = js_trim s" "js_trim (s @ [10]) = js_trim s"
  "js_trim (32 # s) = js_trim s"
  using trim_ws_left [of "[10]" s] trim_ws_right [of "[10]" s] trim_ws_left [of "[32]" s]
  by simp_all

lemma trimmed_ends:
  assumes "trimmed s" and "s \<noteq> []"
  shows "\<not> js_ws (hd s)" and "\<not> js_ws (last s)"
proof -
  have ne: "trim_end (dropWhile js_ws s) = s" using assms(1) by (simp add: js_trim_def)
  have len: "length (dropWhile js_ws s) \<le> length s" by (rule length_dropWhile_le)
  have "length (trim_end t) \<le> length t" for t
    using length_dropWhile_le [of js_ws "rev t"] by (simp add: trim_end_def)
  from this [of "dropWhile js_ws s"] ne len have "length (dropWhile js_ws s) = length s" by simp
  then have d: "dropWhile js_ws s = s"
    by (metis append_Nil length_0_conv length_append self_append_conv2 takeWhile_dropWhile_id
        add_cancel_left_left)
  then show "\<not> js_ws (hd s)" using assms(2) by (metis hd_dropWhile)
  have "rev (dropWhile js_ws (rev s)) = s" using ne d by (simp add: trim_end_def)
  then have "dropWhile js_ws (rev s) = rev s" by (metis rev_rev_ident)
  then show "\<not> js_ws (last s)"
    using assms(2) hd_dropWhile [of js_ws "rev s"] by (simp add: hd_rev)
qed

text \<open>Blocks of text separated by an empty line, and their lines.\<close>

definition blocks :: "jstr list \<Rightarrow> jstr" where
  "blocks bs = join_with [10, 10] bs"

lemma split_newline [simp]: "split_on c (c # s) = [] # split_on c s"
  by simp

lemma split_on_app:
  "split_on c (s @ c # t) = split_on c s @ split_on c t"
proof (induction s)
  case (Cons x s)
  obtain y ys where "split_on c s = y # ys" by (cases "split_on c s") auto
  then show ?case using Cons by (cases "x = c") (auto split: list.split)
qed simp

lemma blocks_Cons: "bs \<noteq> [] \<Longrightarrow> blocks (b # bs) = b @ 10 # 10 # blocks bs"
  by (simp add: blocks_def join_with_Cons)

lemma blocks_lines:
  "split_on 10 (blocks (b # bs)) = split_on 10 b @ concat (map (\<lambda>c. [] # split_on 10 c) bs)"
proof (induction bs arbitrary: b)
  case (Cons c bs)
  then show ?case by (simp add: blocks_Cons split_on_app)
qed (simp add: blocks_def)

lemma blocks_append:
  "bs \<noteq> [] \<Longrightarrow> concat (map (\<lambda>b. b @ [10, 10]) bs) = blocks bs @ [10,
    10]"
  by (induction bs rule: list_nonempty_induct) (simp_all add: blocks_def join_with_Cons)

lemma unix_lines_id: "13 \<notin> set s \<Longrightarrow> unix_lines s = s"
  by (induction s) auto

section \<open>Headers\<close>

text \<open>The field that a line is the header of.\<close>

definition heading_field :: "jstr \<Rightarrow> md_field option" where
  "heading_field l =
     (if hashes_then 2 l
      then (case heading_text (drop 2 l) of None \<Rightarrow> None | Some t \<Rightarrow> find_field t) else None)"

definition plain_lines :: "jstr \<Rightarrow> bool" where
  "plain_lines s \<longleftrightarrow> list_all (\<lambda>l. heading_field l = None) (split_on 10 s)"

text \<open>A line that can be the header of an example or of one of its fields.\<close>

definition example_heading :: "jstr \<Rightarrow> bool" where
  "example_heading l \<longleftrightarrow>
     hashes_then 3 l \<and> heading_text (drop 3 l) \<noteq> None
     \<or> hashes_then 4 l \<and> heading_text (drop 4 l) \<noteq> None"

lemma heading_text_space:
  "s \<noteq> [] \<Longrightarrow> \<not> js_ws (hd s) \<Longrightarrow> \<not> list_ex js_line_end s \<Longrightarrow> heading_text (32 # s) = Some s"
  by (cases s) (simp_all add: heading_text_def Let_def)

lemma field_name_facts:
  "field_name f \<noteq> []" "\<not> js_ws (hd (field_name f))" "\<not> list_ex js_line_end (field_name f)"
  "find_field (field_name f) = Some f" "10 \<notin> set (field_name f)" "13 \<notin> set (field_name f)"
  by (cases f; simp add: js_ws_def js_line_end_def find_field_def descriptionFields_def)+

lemma descriptionFields_names: "(f,
  n) \<in> set descriptionFields \<Longrightarrow> n = field_name f"
  by (auto simp: descriptionFields_def)

definition h2 :: "md_field \<Rightarrow> jstr" where
  "h2 f = 35 # 35 # 32 # field_name f"

lemma heading_field_h2: "heading_field (h2 f) = Some f"
  by (simp add: heading_field_def h2_def hashes_then_def numeral_2_eq_2 heading_text_space
      field_name_facts)

lemma heading_field_simps [simp]:
  "heading_field [] = None" "c \<noteq> 35 \<Longrightarrow> heading_field (c # s) = None"
  "heading_field (35 # 35 # 35 # s) = None"
  by (simp_all add: heading_field_def hashes_then_def numeral_2_eq_2)

lemma find_field_name: "find_field t = Some f \<Longrightarrow> t = field_name f"
  by (auto simp: find_field_def descriptionFields_def split: if_splits)

section \<open>Reading sections\<close>

abbreviation fine :: "message list \<Rightarrow> bool" where
  "fine ms \<equiv> \<not> has_severity Error ms"

lemma fine_append [simp]: "has_severity v (ms
  @ ns) \<longleftrightarrow> has_severity v ms \<or> has_severity v ns"
  by (simp add: has_severity_def)

lemma fine_simps [simp]: "\<not> has_severity v []" "has_severity v ((a,
  t) # ms) \<longleftrightarrow> a = v \<or> has_severity v ms"
  by (simp_all add: has_severity_def)

lemma setField_plain:
  "heading_field l = None \<Longrightarrow>
   \<exists>ms. setField l st = (st\<lparr>i_msgs := i_msgs st @ ms\<rparr>, False) \<and> fine ms"
  by (auto simp: setField_def heading_field_def say1_def split: option.splits if_splits)
    (metis append_Nil2 fine_simps(1) imp1.surjective imp1.update_convs(4))+

lemma phase1_plain:
  "i_field st \<noteq> None \<Longrightarrow> list_all (\<lambda>l. heading_field l = None) ls \<Longrightarrow>
   \<exists>ms. phase1 title ls st = (st\<lparr>i_value := i_value st @ ls, i_msgs := i_msgs st
     @ ms\<rparr>, None) \<and> fine ms"
proof (induction ls arbitrary: st)
  case (Cons l ls)
  obtain ms where ms: "setField l st = (st\<lparr>i_msgs := i_msgs st @ ms\<rparr>,
    False)" "fine ms"
    using setField_plain [of l st] Cons.prems(2) by auto
  let ?st = "st\<lparr>i_msgs := i_msgs st @ ms, i_value := i_value st @ [l]\<rparr>"
  obtain ns where "phase1 title ls ?st
      = (?st\<lparr>i_value := i_value ?st @ ls, i_msgs := i_msgs ?st @ ns\<rparr>, None)" "fine ns"
    using Cons.IH [of ?st] Cons.prems by auto
  moreover have "phase1_line title l st = (?st, None)"
    using ms(1) Cons.prems(1) by (auto simp: phase1_line_def)
  ultimately show ?case using ms(2) by (intro exI [of _ "ms @ ns"]) simp
qed (auto intro: exI [of _ "[]"])

lemma phase1_append:
  "phase1 title (xs @ ys) st =
     (case phase1 title xs st of (st', Some e) \<Rightarrow> (st', Some e) | (st',
       None) \<Rightarrow> phase1 title ys st')"
  by (induction xs arbitrary: st) (auto split: option.splits prod.splits)

definition section_lines :: "md_field \<times> jstr \<Rightarrow> jstr list" where
  "section_lines p = [] # h2 (fst p) # [] # split_on 10 (snd p)"

text \<open>The record that a state would leave, and how a section extends it.\<close>

definition closed :: "imp1 \<Rightarrow> md_field \<Rightarrow> jstr option" where
  "closed st = i_record (endField st)"

definition before_field :: "md_field \<Rightarrow> imp1 \<Rightarrow> bool" where
  "before_field f st \<longleftrightarrow> (case i_field st of None \<Rightarrow> i_value st = [] | Some g \<Rightarrow> g < f)"

lemma join_lines_blank: "js_trim (join_lines (v @ [[]])) = js_trim (join_lines v)"
proof (cases "v = []")
  case False
  then have "join_lines (v @ [[]]) = join_lines v @ [10]"
    by (simp add: join_lines_def join_with_append)
  then show ?thesis by simp
qed (simp add: join_lines_def)

lemma setField_h2:
  "setField (h2 f) st =
     ((say1 Info ([0x5DF2, 0x89E3, 0x6790, 0x5B57, 0x6BB5]
       @ quoted (field_name f)) (switch_field f st))\<lparr>i_field := Some f\<rparr>, True)"
  by (simp add: setField_def h2_def hashes_then_def numeral_2_eq_2 heading_text_space field_name_facts)

lemma trim_h2: "js_trim (h2 f) \<noteq> []"
proof -
  have "js_trim (h2 f) = trim_end (h2 f)"
    by (simp add: js_trim_def h2_def js_ws_def)
  then show ?thesis using trim_end_hd [of "h2 f"] by (simp add: h2_def js_ws_def)
qed

lemma read_header:
  assumes "before_field f st" "closed st f = None" "fine (i_msgs st)"
  shows "\<exists>st'. phase1 title [[], h2 f] st = (st',
    None) \<and> i_field st' = Some f \<and> i_value st' = []
     \<and> i_record st' = closed st \<and> fine (i_msgs st')"
proof (cases "i_field st")
  case None
  then have "phase1_line title [] st = (st, None)" by (simp add: phase1_line_def)
  moreover have "phase1_line title (h2 f) st
      = ((say1 Info ([0x5DF2, 0x89E3, 0x6790, 0x5B57, 0x6BB5]
        @ quoted (field_name f)) st)\<lparr>i_field := Some f\<rparr>, None)"
    using None trim_h2
    by (simp add: phase1_line_def setField_h2 switch_field_def)
      (simp add: h2_def hashes_then_def numeral_2_eq_2)
  ultimately show ?thesis
    using assms None by (simp add: say1_def closed_def endField_def before_field_def)
next
  case (Some g)
  define st1 where "st1 = st\<lparr>i_value := i_value st @ [[]]\<rparr>"
  have "setField [] st = (st, False)" by (simp add: setField_def hashes_then_def)
  then have 1: "phase1_line title [] st = (st1, None)"
    using Some by (simp add: phase1_line_def st1_def)
  have g: "g < f" using assms(1) Some by (simp add: before_field_def)
  then have ne: "f \<noteq> g" "\<not> f < g" by auto
  then have "i_record st f = None"
    using assms(2) Some by (simp add: closed_def endField_def)
  then have "switch_field f st1 = endField st1"
    using Some ne by (simp add: switch_field_def st1_def)
  moreover have "i_record (endField st1) = closed st"
    using Some by (simp add: closed_def endField_def st1_def join_lines_blank)
  moreover have "i_msgs (endField st1) = i_msgs st" "i_value (endField st1) = []"
    using Some by (simp_all add: endField_def st1_def)
  moreover have "i_field st1 = Some g" using Some by (simp add: st1_def)
  ultimately show ?thesis
    using 1 assms(3) by (simp add: phase1_line_def [of title "h2 f"] setField_h2 say1_def)
qed

lemma read_section:
  assumes "before_field f st" "closed st f = None" "fine (i_msgs st)" "plain_lines c"
  shows "\<exists>st'. phase1 title (section_lines (f, c)) st = (st',
    None) \<and> i_field st' = Some f
     \<and> closed st' = (closed st)(f \<mapsto> js_trim c) \<and> fine (i_msgs st')"
proof -
  obtain st1 where st1: "phase1 title [[], h2 f] st = (st1, None)" "i_field st1 = Some f"
    "i_value st1 = []" "i_record st1 = closed st" "fine (i_msgs st1)"
    using read_header [OF assms(1-3)] by blast
  have "list_all (\<lambda>l. heading_field l = None) ([] # split_on 10 c)"
    using assms(4) by (simp add: plain_lines_def)
  then obtain ms where ms: "phase1 title ([] # split_on 10 c) st1
      = (st1\<lparr>i_value := i_value st1 @ [] # split_on 10 c, i_msgs := i_msgs st1 @ ms\<rparr>,
        None)" "fine ms"
    using phase1_plain [of st1 "[] # split_on 10 c" title] st1(2) by auto
  have "section_lines (f, c) = [[], h2 f] @ ([] # split_on 10 c)"
    by (simp add: section_lines_def)
  then have "phase1 title (section_lines (f, c)) st
      = (st1\<lparr>i_value := [] # split_on 10 c, i_msgs := i_msgs st1 @ ms\<rparr>, None)"
    using st1(1,3) ms(1) by (simp only: phase1_append) simp
  moreover have "join_lines ([] # split_on 10 c) = 10 # c"
    by (simp add: join_lines_def join_with_Cons)
  ultimately show ?thesis using st1 ms(2) by (simp add: closed_def endField_def)
qed

lemma read_sections:
  "\<lbrakk>sorted_wrt (<) (map fst secs); \<forall>p \<in> set secs. plain_lines (snd p) \<and> closed st (fst p) = None;
    secs \<noteq> [] \<longrightarrow> before_field (fst (hd secs)) st; fine (i_msgs st)\<rbrakk>
   \<Longrightarrow> \<exists>st'. phase1 title (concat (map section_lines secs)) st = (st', None)
     \<and> closed st' = closed st ++ map_of (map (\<lambda>p. (fst p, js_trim (snd p))) secs)
     \<and> fine (i_msgs st')"
proof (induction secs arbitrary: st)
  case (Cons p secs)
  obtain f c where p: "p = (f, c)" by (cases p)
  obtain st1 where st1: "phase1 title (section_lines (f, c)) st = (st1, None)"
    "i_field st1 = Some f" "closed st1 = (closed st)(f \<mapsto> js_trim c)" "fine (i_msgs st1)"
    using read_section [of f st c title] Cons.prems p by force
  have "\<forall>q \<in> set secs. plain_lines (snd q) \<and> closed st1 (fst q) = None"
    using Cons.prems p st1(3) by fastforce
  moreover have "secs \<noteq> [] \<longrightarrow> before_field (fst (hd secs)) st1"
    using Cons.prems(1) p st1(2) by (cases secs) (auto simp: before_field_def)
  ultimately obtain st' where st': "phase1 title (concat (map section_lines secs)) st1 = (st',
    None)"
    "closed st' = closed st1 ++ map_of (map (\<lambda>p. (fst p,
      js_trim (snd p))) secs)" "fine (i_msgs st')"
    using Cons.IH [of st1] Cons.prems(1) st1(4) by auto
  have "f \<notin> fst ` set secs" using Cons.prems(1) p by auto
  then have "map_of (map (\<lambda>p. (fst p, js_trim (snd p))) secs) f = None"
    by (force simp: map_of_eq_None_iff)
  then have "closed st' = closed st ++ map_of (map (\<lambda>p. (fst p,
    js_trim (snd p))) (p # secs))"
    using st'(2) st1(3) p by (auto simp: map_add_def fun_eq_iff split: option.splits)
  moreover have "phase1 title (concat (map section_lines (p # secs))) st = (st', None)"
    using st'(1) st1(1) p by (simp add: phase1_append)
  ultimately show ?case using st'(3) by blast
qed simp

text \<open>A whole file: the title, then sections in order.\<close>

definition title_line :: "jstr \<Rightarrow> jstr" where
  "title_line title = 35 # 32 # title"

definition doc_blocks :: "jstr \<Rightarrow> (md_field \<times> jstr) list \<Rightarrow> jstr list" where
  "doc_blocks title secs = title_line title # concat (map (\<lambda>p. [h2 (fst p), snd p]) secs)"

lemma split_h2: "split_on 10 (h2 f) = [h2 f]"
  using field_name_facts(5) [of f] by (intro split_on_free) (auto simp: h2_def)

lemma doc_lines:
  assumes "10 \<notin> set title"
  shows "split_on 10 (blocks (doc_blocks title secs))
     = title_line title # concat (map section_lines secs)"
proof -
  have "split_on 10 (title_line title) = [title_line title]"
    using assms by (intro split_on_free) (auto simp: title_line_def)
  moreover have "concat (map (\<lambda>c. [] # split_on 10 c) (concat (map (\<lambda>p. [h2 (fst p), snd p]) secs)))
      = concat (map section_lines secs)"
    by (induction secs) (simp_all add: section_lines_def split_h2)
  ultimately show ?thesis by (simp add: doc_blocks_def blocks_lines)
qed

lemma read_title:
  assumes "trimmed title" and "10 \<notin> set title"
  shows "phase1_line title (title_line title) imp1_init = (imp1_init, None)"
proof -
  have "js_trim (title_line title) \<noteq> []"
    using trim_end_hd [of "title_line title"]
    by (simp add: js_trim_def title_line_def js_ws_def)
  then show ?thesis
    using assms(1) by (simp add: phase1_line_def imp1_init_def)
      (simp add: title_line_def hashes_then_def numeral_2_eq_2)
qed

lemma read_doc:
  assumes "trimmed title" "10 \<notin> set title" "sorted_wrt (<) (map fst secs)"
    and "\<forall>p \<in> set secs. plain_lines (snd p)"
  shows "\<exists>st. phase1 title (split_on 10 (blocks (doc_blocks title secs))) imp1_init = (st,
    None)
     \<and> i_record (endField st) = map_of (map (\<lambda>p. (fst p, js_trim (snd p))) secs)
     \<and> fine (i_msgs (endField st))"
proof -
  have "closed imp1_init = (\<lambda>_. None)" by (simp add: closed_def endField_def imp1_init_def)
  moreover have "before_field f imp1_init" "fine (i_msgs imp1_init)" for f
    by (simp_all add: before_field_def imp1_init_def)
  ultimately obtain st where "phase1 title (concat (map section_lines secs)) imp1_init = (st, None)"
    "closed st = map_of (map (\<lambda>p. (fst p, js_trim (snd p))) secs)" "fine (i_msgs st)"
    using read_sections [of secs imp1_init title] assms(3,4) by auto
  moreover have "i_msgs (endField st) = i_msgs st" by (simp add: endField_def split: option.split)
  ultimately show ?thesis
    using read_title [OF assms(1,2)] by (simp add: doc_lines [OF assms(2)] closed_def)
qed

section \<open>Reading examples\<close>

definition hdr3 :: "jstr \<Rightarrow> jstr" where "hdr3 t = 35 # 35 # 35 # 32 # t"
definition hdr4 :: "jstr \<Rightarrow> jstr" where "hdr4 t = 35 # 35 # 35 # 35 # 32 # t"

fun key_text :: "ex_key \<Rightarrow> jstr" where
  "key_text KInput = [0x8F93, 0x5165]"
| "key_text KOutput = [0x8F93, 0x51FA]"
| "key_text KDescription = []"

definition io_header :: "jstr \<Rightarrow> ex_key \<Rightarrow> jstr" where
  "io_header n k = (if n = [] then hdr3 (key_text k) else hdr4 (key_text k))"

definition ex_blocks :: "form_example \<Rightarrow> jstr list" where
  "ex_blocks x =
     (if f_name x \<noteq> [] then [hdr3 (f_name x)] else [])
     @ (if f_input x \<noteq> [] \<or> f_output x \<noteq> []
        then [io_header (f_name x) KInput, wrapCode (f_input x),
              io_header (f_name x) KOutput, wrapCode (f_output x)] else [])
     @ (if f_description x \<noteq> [] then [f_description x] else [])"

definition ex_lines :: "form_example \<Rightarrow> jstr list" where
  "ex_lines x = concat (map (\<lambda>b. [] # split_on 10 b) (ex_blocks x))"

text \<open>What makes an example survive: its parts hold no lines that read as something else.\<close>

definition title_ok :: "jstr \<Rightarrow> bool" where
  "title_ok n \<longleftrightarrow> trimmed n \<and> 10 \<notin> set n \<and> \<not> list_ex js_line_end n \<and> header_key n = None"

definition code_ok :: "jstr \<Rightarrow> bool" where
  "code_ok c \<longleftrightarrow> list_all (\<lambda>l. \<not> starts_with FENCE l) (split_on 10 c) \<and> plain_lines c"

definition note_ok :: "jstr \<Rightarrow> bool" where
  "note_ok d \<longleftrightarrow> trimmed d \<and> list_all (\<lambda>l. \<not> example_heading l) (split_on 10 d) \<and> plain_lines d"

definition example_ok :: "form_example \<Rightarrow> bool" where
  "example_ok x \<longleftrightarrow> title_ok (f_name x) \<and> code_ok (f_input x) \<and> code_ok (f_output x)
     \<and> note_ok (f_description x) \<and> ex_blocks x \<noteq> []"

text \<open>States between the parts of an example.\<close>

definition named :: "jstr \<Rightarrow> example" where
  "named n = (if n = [] then no_example else no_example\<lparr>x_name := Some (Some n)\<rparr>)"

definition opened_ex :: "form_example list \<Rightarrow> jstr \<Rightarrow> imp2 \<Rightarrow> bool" where
  "opened_ex es n st \<longleftrightarrow> map add_example (e_examples st) = es \<and> e_current st = named n
     \<and> e_key st = None \<and> \<not> e_pending st \<and> e_value st = [] \<and> fine (e_msgs st)"

definition opt_text :: "jstr \<Rightarrow> jstr option" where
  "opt_text s = (if s = [] then None else Some s)"

definition io_done :: "form_example list \<Rightarrow> jstr \<Rightarrow> jstr \<Rightarrow> jstr \<Rightarrow> imp2 \<Rightarrow> bool" where
  "io_done es n i out st \<longleftrightarrow> map add_example (e_examples st) = es
     \<and> e_current st = (named n)\<lparr>x_input := Some (opt_text i),
       x_output := Some (opt_text out)\<rparr>
     \<and> e_key st = Some KDescription \<and> \<not> e_pending st \<and> e_value st = [] \<and> fine (e_msgs st)"

definition pend :: "form_example list \<Rightarrow> form_example \<Rightarrow> imp2 \<Rightarrow> bool" where
  "pend es x st \<longleftrightarrow> map add_example (e_examples st) = es \<and> \<not> e_pending st \<and> fine (e_msgs st)
     \<and> (e_key st = None \<and> e_value st = [] \<and> f_description x = [] \<and> e_current st \<noteq> no_example
        \<or> e_key st = Some KDescription \<and> js_trim (join_lines (e_value st)) = f_description x)
     \<and> x_description (e_current st) = None \<and> \<not> x_null (e_current st)
     \<and> field_text (x_name (e_current st)) = f_name x
     \<and> field_text (x_input (e_current st)) = f_input x
     \<and> field_text (x_output (e_current st)) = f_output x"

lemma no_example_upd [simp]:
  "x\<lparr>x_null := True\<rparr> \<noteq> no_example" "x\<lparr>x_description := Some v\<rparr> \<noteq> no_example"
  "x\<lparr>x_output := Some v\<rparr> \<noteq> no_example" "x\<lparr>x_name := Some v\<rparr> \<noteq> no_example"
  by (cases x, simp add: no_example_def)+

lemma falsy_text: "falsy v = (field_text v = [])"
  by (auto simp: falsy_def field_text_def split: option.split)

lemma text_or_null [simp]: "field_text (or_null_field v) = field_text v"
  by (auto simp: or_null_field_def falsy_text) (simp add: field_text_def)

lemma hashes_simps [simp]:
  "\<not> hashes_then n []" if "0 < n" for n
  using that by (simp add: hashes_then_def)

lemma parse_blank [simp]: "parseHeader [] st = (st, None)"
  by (simp add: parseHeader_def)

lemma hashes_hdr:
  "hashes_then 3 (hdr3 t)" "\<not> hashes_then 4 (hdr3 t)"
  "\<not> hashes_then 3 (hdr4 t)" "hashes_then 4 (hdr4 t)"
  by (simp_all add: hashes_then_def hdr3_def hdr4_def numeral_eq_Suc)

lemma drop_hdr: "drop 3 (hdr3 t) = 32 # t" "drop 4 (hdr4 t) = 32 # t"
  by (simp_all add: hdr3_def hdr4_def numeral_eq_Suc)

lemma key_text_facts:
  "k \<noteq> KDescription \<Longrightarrow> heading_text (32 # key_text k) = Some (key_text k)"
  "k \<noteq> KDescription \<Longrightarrow> header_key (key_text k) = Some k"
  by (cases k; simp add: heading_text_def js_ws_def js_line_end_def header_key_def)+

lemma parse_io:
  assumes "k \<noteq> KDescription" and "(n = []) = (field_text (x_name (e_current st)) = [])"
  shows "parseHeader (io_header n k) st = (st, Some (FieldHeader k))"
  using assms key_text_facts [of k]
  by (auto simp: parseHeader_def io_header_def hashes_hdr drop_hdr falsy_text Let_def)

lemma parse_title:
  assumes "title_ok n" "n \<noteq> []"
    and "field_text (x_name (e_current st)) \<noteq> [] \<or> e_current st = no_example \<and> e_key st = None"
  shows "parseHeader (hdr3 n) st = (st, Some (TitleHeader n))"
proof -
  have "heading_text (32 # n) = Some n"
    using assms(1,2) trimmed_ends [of n] by (intro heading_text_space) (auto simp: title_ok_def)
  then show ?thesis using assms
    by (auto simp: parseHeader_def hashes_hdr drop_hdr falsy_text title_ok_def Let_def)
qed

lemma parse_plain: "\<not> example_heading l \<Longrightarrow> parseHeader l st = (st, None)"
  by (auto simp: parseHeader_def example_heading_def Let_def)

text \<open>Blank lines.\<close>

lemma blank_opened: "opened_ex es n st \<Longrightarrow> example_line [] st = st"
  by (simp add: opened_ex_def example_line_def in_code_def text_line_def)

lemma blank_pend: "pend es x st \<Longrightarrow> pend es x (example_line [] st)"
  by (auto simp: pend_def example_line_def in_code_def text_line_def join_lines_blank)

text \<open>The title of an example, and the end of the one before.\<close>

lemma line_title_first:
  assumes "opened_ex es [] st" "title_ok n" "n \<noteq> []"
  shows "opened_ex es n (example_line (hdr3 n) st)"
proof -
  have "parseHeader (hdr3 n) st = (st, Some (TitleHeader n))"
    using assms by (intro parse_title) (auto simp: opened_ex_def named_def)
  then show ?thesis using assms
    by (simp add: example_line_def opened_ex_def in_code_def endExample_def named_def)
qed

lemma no_example_text: "field_text (x_name no_example) = []" "field_text (x_input no_example) = []"
  "field_text (x_output no_example) = []" "field_text (x_description no_example) = []"
  by (simp_all add: no_example_def field_text_def)

lemma endExample_fine:
  assumes "e_current st \<noteq> no_example" and "fine (e_msgs st)"
  shows "e_examples (endExample st) = e_examples st @ [fill_nulls (e_current st)]"
    and "e_current (endExample st) = no_example" and "fine (e_msgs (endExample st))"
    and "e_key (endExample st) = e_key st" "e_pending (endExample st) = e_pending st"
      "e_value (endExample st) = e_value st"
  using assms by (simp_all add: endExample_def say2_def Let_def)

lemma add_filled:
  "add_example (fill_nulls x) = \<lparr>f_name = field_text (x_name x),
    f_input = field_text (x_input x),
     f_output = field_text (x_output x), f_description = field_text (x_description x)\<rparr>"
  by (simp add: add_example_def fill_nulls_def)

text \<open>Ending the pending example, whether or not a description is open.\<close>

definition end_key :: "imp2 \<Rightarrow> imp2" where
  "end_key st = (if e_key st \<noteq> None then endField2 st else st)"

lemma pend_end_key:
  assumes "pend es x st"
  shows "e_current (end_key st) \<noteq> no_example" "fine (e_msgs (end_key st))"
    "e_examples (end_key st) = e_examples st" "e_key (end_key st) = None"
    "\<not> e_pending (end_key st)" "e_value (end_key st) = []"
    "add_example (fill_nulls (e_current (end_key st))) = x"
    "x_name (e_current (end_key st)) = x_name (e_current st)"
  using assms
  by (auto simp: pend_def end_key_def endField2_def set_key_def has_key_def Let_def
      add_filled field_text_def [of "Some (Some _)"] field_text_def [of None])

lemma line_title_next:
  assumes "pend es y st" "f_name y \<noteq> []" "title_ok n" "n \<noteq> []"
  shows "opened_ex (es @ [y]) n (example_line (hdr3 n) st)"
proof -
  have hd: "parseHeader (hdr3 n) st = (st, Some (TitleHeader n))"
    using assms by (intro parse_title) (auto simp: pend_def)
  have nc: "\<not> in_code st" using assms(1) by (auto simp: pend_def in_code_def)
  define st2 where "st2 = endExample (end_key st)"
  have "example_line (hdr3 n) st = st2\<lparr>e_current := (e_current st2)\<lparr>x_name := Some (Some n)\<rparr>\<rparr>"
    using hd nc by (simp add: example_line_def st2_def end_key_def Let_def)
  moreover note end_ex = pend_end_key [OF assms(1)]
  moreover note endExample_fine [OF end_ex(1,2)]
  moreover have "map add_example (e_examples st) = es" using assms(1) by (simp add: pend_def)
  ultimately show ?thesis using assms(4)
    by (simp add: opened_ex_def named_def flip: st2_def)
qed

lemma finish_pend:
  assumes "pend es x st"
  shows "map add_example (e_examples (endExample (endField2 st))) = es @ [x]
    \<and> fine (e_msgs (endExample (endField2 st)))"
proof (cases "e_key st")
  case None
  define st1 where "st1 = endField2 st"
  have c: "e_current st1 = (e_current st)\<lparr>x_null := True\<rparr>" "e_examples st1 = e_examples st"
    "fine (e_msgs st1)"
    using None assms
    by (simp_all add: st1_def endField2_def set_key_def has_key_def pend_def Let_def)
  have "add_example (fill_nulls (e_current st1)) = x"
    using assms None by (simp add: c add_filled pend_def field_text_def [of None])
  moreover have "e_current st1 \<noteq> no_example" by (simp add: c)
  moreover have "map add_example (e_examples st) = es" using assms by (simp add: pend_def)
  ultimately show ?thesis
    using c endExample_fine [of st1] by (simp flip: st1_def)
next
  case (Some k)
  then have "end_key st = endField2 st" by (simp add: end_key_def)
  with pend_end_key [OF assms] endExample_fine [of "endField2 st"] assms show ?thesis
    by (simp add: pend_def)
qed

text \<open>Input and output.\<close>

lemma code_lines:
  "list_all (\<lambda>l. \<not> starts_with FENCE l) ls \<Longrightarrow> in_code st \<Longrightarrow> \<not> e_pending st \<Longrightarrow>
     fold example_line ls st = st\<lparr>e_value := e_value st @ ls\<rparr>"
proof (induction ls arbitrary: st)
  case (Cons l ls)
  then have "example_line l st = st\<lparr>e_value := e_value st @ [l]\<rparr>"
    by (simp add: example_line_def code_line_def)
  moreover have "in_code (st\<lparr>e_value := v\<rparr>) = in_code st" for v by (simp add: in_code_def)
  ultimately show ?case using Cons by simp
qed simp

lemma fence_facts: "starts_with FENCE FENCE" "10 \<notin> set FENCE" "FENCE \<noteq> []"
  by (simp_all add: FENCE_def starts_with_def)

lemma none_mark: "is_none_mark (js_trim ([0xFF08, 0x65E0,
  0xFF09]))" "\<not> starts_with FENCE ([0xFF08, 0x65E0, 0xFF09])"
  "split_on 10 ([0xFF08, 0x65E0, 0xFF09] :: jstr) = [[0xFF08, 0x65E0, 0xFF09]]"
proof -
  have "js_trim ([0xFF08, 0x65E0, 0xFF09]) = [0xFF08, 0x65E0, 0xFF09]"
    by (rule js_trim_id) (simp_all add: js_ws_def)
  then show "is_none_mark (js_trim ([0xFF08, 0x65E0, 0xFF09]))"
    by (simp add: is_none_mark_def opt_drop_def)
qed (simp_all add: starts_with_def FENCE_def)

lemma wrap_lines:
  "split_on 10 (wrapCode c) = (if c = [] then [[0xFF08, 0x65E0,
    0xFF09]] else FENCE # split_on 10 c @ [FENCE])"
  using fence_facts none_mark(3)
  by (simp add: wrapCode_def split_on_app split_on_free del: split_on.simps)

text \<open>A field from its header to its end.\<close>

definition after_key :: "ex_key \<Rightarrow> ex_key option" where
  "after_key k = (if k = KOutput then Some KDescription else None)"

lemma blank_pending: "in_code st \<Longrightarrow> e_pending st \<Longrightarrow> example_line [] st = st"
  by (simp add: example_line_def code_line_def starts_with_def FENCE_def is_none_mark_def opt_drop_def)

lemma read_code:
  assumes st: "e_key st = Some k" "k \<noteq> KDescription" "e_pending st" "e_value st = []"
    and ok: "code_ok c" and new: "\<not> has_key (Some k) (e_current st)"
  shows "fold example_line ([] # split_on 10 (wrapCode c)) st
     = st\<lparr>e_current := set_key (Some k) (opt_text c) (e_current st), e_key := after_key k,
          e_pending := False\<rparr>"
proof -
  have ic: "in_code st" using st(1,2) by (cases k) (simp_all add: in_code_def)
  have ef: "endField2 (st\<lparr>e_pending := False, e_value := split_on 10 c\<rparr>)
      = st\<lparr>e_current := set_key (Some k) (Some c) (e_current st), e_key := after_key k,
          e_pending := False\<rparr>" if "c \<noteq> []"
    using st new that by (cases k) (auto simp: endField2_def join_lines_def after_key_def has_key_def Let_def)
  have ef0: "endField2 (st\<lparr>e_pending := False\<rparr>)
      = st\<lparr>e_current := set_key (Some k) None (e_current st), e_key := after_key k,
          e_pending := False\<rparr>"
    using st new by (cases k) (auto simp: endField2_def join_lines_def after_key_def has_key_def Let_def)
  show ?thesis
  proof (cases "c = []")
    case True
    have "example_line ([0xFF08, 0x65E0,
      0xFF09]) st = endField2 (st\<lparr>e_pending := False\<rparr>)"
      using ic st(3) none_mark by (simp add: example_line_def code_line_def)
    then show ?thesis
      using True blank_pending [OF ic st(3)] ef0 by (simp add: wrap_lines opt_text_def)
  next
    case False
    define st1 where "st1 = st\<lparr>e_pending := False\<rparr>"
    have 1: "example_line FENCE st = st1"
      using ic st(3) fence_facts by (simp add: example_line_def code_line_def st1_def)
    have "in_code st1" "\<not> e_pending st1" "e_value st1 = []" using ic st by (simp_all add: st1_def in_code_def)
    then have 2: "fold example_line (split_on 10 c) st1 = st1\<lparr>e_value := split_on 10 c\<rparr>"
      using ok code_lines [of "split_on 10 c" st1] by (simp add: code_ok_def)
    have 3: "example_line FENCE (st1\<lparr>e_value := split_on 10 c\<rparr>)
        = endField2 (st1\<lparr>e_value := split_on 10 c\<rparr>)"
      using ic fence_facts by (simp add: example_line_def code_line_def st1_def in_code_def)
    show ?thesis
      using False blank_pending [OF ic st(3)] 1 2 3 ef
      by (simp add: wrap_lines st1_def opt_text_def)
  qed
qed

lemma io_header_line: "split_on 10 (io_header n k) = [io_header n k]"
  by (intro split_on_free) (cases k; simp add: io_header_def hdr3_def hdr4_def)

lemma line_io:
  assumes "e_key st = None" "\<not> in_code st" "k \<noteq> KDescription"
    "(n = []) = (field_text (x_name (e_current st)) = [])"
  shows "example_line (io_header n k) st = st\<lparr>e_key := Some k, e_pending := True\<rparr>"
  using assms parse_io [of k n st] by (simp add: example_line_def Let_def)

lemma named_text: "field_text (x_name (named n)) = n"
  by (simp add: named_def no_example_text) (simp add: field_text_def)

definition io_lines :: "jstr \<Rightarrow> jstr \<Rightarrow> jstr \<Rightarrow> jstr list" where
  "io_lines n i out = [[], io_header n KInput] @ ([] # split_on 10 (wrapCode i))
     @ [[], io_header n KOutput] @ ([] # split_on 10 (wrapCode out))"

lemma read_io:
  assumes op: "opened_ex es n st" and ok: "code_ok i" "code_ok out"
  shows "io_done es n i out (fold example_line (io_lines n i out) st)"
proof -
  define st1 where "st1 = st\<lparr>e_key := Some KInput, e_pending := True\<rparr>"
  define st2 where "st2 = st1\<lparr>e_current := set_key (Some KInput) (opt_text i) (e_current st1),
      e_key := after_key KInput, e_pending := False\<rparr>"
  define st3 where "st3 = st2\<lparr>e_key := Some KOutput, e_pending := True\<rparr>"
  define st4 where "st4 = st3\<lparr>e_current := set_key (Some KOutput) (opt_text out) (e_current st3),
      e_key := after_key KOutput, e_pending := False\<rparr>"
  have nm: "(n = []) = (field_text (x_name (e_current st)) = [])"
    using op named_text by (simp add: opened_ex_def)
  have 1: "fold example_line [[], io_header n KInput] st = st1"
    using blank_opened [OF op] line_io [of st KInput n] op nm
    by (simp add: st1_def opened_ex_def in_code_def)
  have 2: "fold example_line ([] # split_on 10 (wrapCode i)) st1 = st2"
    using op ok(1) unfolding st2_def
    by (intro read_code) (simp_all add: st1_def opened_ex_def has_key_def named_def no_example_def)
  have b: "example_line [] st2 = st2"
    using op by (simp add: st2_def st1_def after_key_def example_line_def in_code_def text_line_def)
  have "example_line (io_header n KOutput) st2 = st3"
    unfolding st3_def using op nm
    by (intro line_io) (simp_all add: st2_def st1_def after_key_def in_code_def set_key_def)
  then have 3: "fold example_line [[], io_header n KOutput] st2 = st3" using b by simp
  have 4: "fold example_line ([] # split_on 10 (wrapCode out)) st3 = st4"
    using op ok(2) unfolding st4_def
    by (intro read_code)
      (simp_all add: st3_def st2_def st1_def opened_ex_def has_key_def named_def no_example_def set_key_def)
  have "fold example_line (io_lines n i out) st = st4"
    unfolding io_lines_def fold_append comp_def 1 2 3 4 by simp
  then show ?thesis using op
    by (simp add: io_done_def opened_ex_def st4_def st3_def st2_def st1_def set_key_def after_key_def)
qed

text \<open>The description, and a whole example.\<close>

lemma text_lines:
  "list_all (\<lambda>l. \<not> example_heading l) ls \<Longrightarrow> e_key st = Some KDescription \<Longrightarrow>
     fold example_line ls st = st\<lparr>e_value := e_value st @ ls\<rparr>"
  by (induction ls arbitrary: st)
    (simp_all add: example_line_def in_code_def parse_plain text_line_def)

lemma note_first:
  assumes "trimmed d" "d \<noteq> []" "split_on 10 d = l # ls"
  shows "js_trim l \<noteq> []"
proof -
  have h: "\<not> js_ws (hd d)" using trimmed_ends assms(1,2) by blast
  obtain c r where d: "d = c # r" using assms(2) by (cases d) auto
  then have "c \<noteq> 10" using h by auto
  then obtain l' where "l = c # l'"
    using assms(3) d by (auto split: list.splits)
  then show ?thesis using h d trim_end_hd [of l] by (simp add: js_trim_def)
qed

lemma not_heading_blank [simp]: "\<not> example_heading []"
  by (simp add: example_heading_def)

lemma read_note_first:
  assumes op: "opened_ex es n st" and d: "note_ok d" "d \<noteq> []"
  shows "pend es \<lparr>f_name = n, f_input = [], f_output = [], f_description = d\<rparr>
    (fold example_line ([] # split_on 10 d) st)"
proof -
  obtain l ls where ll: "split_on 10 d = l # ls" by (cases "split_on 10 d") auto
  have plain: "\<not> example_heading l" "list_all (\<lambda>l. \<not> example_heading l) ls"
    using d(1) ll by (simp_all add: note_ok_def)
  have l: "js_trim l \<noteq> []" using note_first d ll by (auto simp: note_ok_def)
  define st1 where "st1 = st\<lparr>e_key := Some KDescription, e_value := [l]\<rparr>"
  have "example_line l st = st1"
    using op l plain(1)
    by (simp add: st1_def opened_ex_def example_line_def in_code_def parse_plain text_line_def)
  moreover have "fold example_line ls st1 = st1\<lparr>e_value := l # ls\<rparr>"
    using text_lines [OF plain(2), of st1] by (simp add: st1_def)
  moreover have "js_trim (join_lines (l # ls)) = d"
    using d(1) ll [symmetric] by (simp add: join_lines_def note_ok_def)
  ultimately show ?thesis
    using op blank_opened [OF op] named_text [of n]
    by (simp add: ll pend_def st1_def opened_ex_def)
      (simp add: named_def no_example_def field_text_def)
qed

lemma field_opt_text: "field_text (Some (opt_text s)) = s"
  by (simp add: opt_text_def field_text_def)

lemma read_note_io:
  assumes io: "io_done es n i out st" and d: "note_ok d"
  shows "pend es \<lparr>f_name = n, f_input = i, f_output = out, f_description = d\<rparr>
    (fold example_line (if d = [] then [] else [] # split_on 10 d) st)"
proof -
  let ?ls = "if d = [] then [] else [] # split_on 10 d"
  have "list_all (\<lambda>l. \<not> example_heading l) ?ls" using d by (simp add: note_ok_def)
  then have "fold example_line ?ls st = st\<lparr>e_value := ?ls\<rparr>"
    using text_lines [of ?ls st] io by (simp add: io_done_def)
  moreover have "js_trim (join_lines ?ls) = d"
    using d by (auto simp: join_lines_def join_with_Cons note_ok_def)
  ultimately show ?thesis
    using io named_text [of n] by (simp add: pend_def io_done_def field_opt_text)
      (simp add: named_def no_example_def)
qed

lemma opened_pend:
  assumes "opened_ex es n st" "n \<noteq> []"
  shows "pend es \<lparr>f_name = n, f_input = [], f_output = [], f_description = []\<rparr> st"
  using assms named_text [of n]
  by (simp add: pend_def opened_ex_def) (simp add: named_def no_example_def field_text_def)

definition body_lines :: "form_example \<Rightarrow> jstr list" where
  "body_lines x =
     (if f_input x \<noteq> [] \<or> f_output x \<noteq> [] then io_lines (f_name x) (f_input x) (f_output x) else [])
     @ (if f_description x = [] then [] else [] # split_on 10 (f_description x))"

lemma ex_lines_eq:
  assumes "title_ok (f_name x)"
  shows "ex_lines x = (if f_name x = [] then [] else [[], hdr3 (f_name x)]) @ body_lines x"
proof -
  have "split_on 10 (hdr3 (f_name x)) = [hdr3 (f_name x)]"
    using assms by (intro split_on_free) (auto simp: title_ok_def hdr3_def)
  then show ?thesis
    by (simp add: ex_lines_def ex_blocks_def body_lines_def io_lines_def io_header_line)
qed

lemma pend_cong:
  "pend es y st \<Longrightarrow> f_name y = f_name x \<Longrightarrow> f_input y = f_input x \<Longrightarrow> f_output y = f_output x \<Longrightarrow>
     f_description y = f_description x \<Longrightarrow> pend es x st"
  by (simp add: pend_def)

lemma read_body:
  assumes op: "opened_ex es (f_name x) st" and ok: "example_ok x"
  shows "pend es x (fold example_line (body_lines x) st)"
proof (cases "f_input x \<noteq> [] \<or> f_output x \<noteq> []")
  case True
  have "fold example_line (body_lines x) st
      = fold example_line (if f_description x = [] then [] else [] # split_on 10 (f_description x))
          (fold example_line (io_lines (f_name x) (f_input x) (f_output x)) st)"
    using True by (simp add: body_lines_def)
  moreover note read_note_io [OF read_io [OF op, of "f_input x" "f_output x"], of "f_description x"]
  ultimately show ?thesis using ok pend_cong [where x = x] by (simp add: example_ok_def)
next
  case io: False
  show ?thesis
  proof (cases "f_description x = []")
    case True
    then have "f_name x \<noteq> []" using ok io by (auto simp: example_ok_def ex_blocks_def)
    from pend_cong [OF opened_pend [OF op this], of x] True io show ?thesis
      by (simp add: body_lines_def)
  next
    case False
    then show ?thesis
      using pend_cong [OF read_note_first [OF op, of "f_description x"], of x] ok io
      by (simp add: body_lines_def example_ok_def)
  qed
qed

lemma read_first:
  assumes op: "opened_ex es [] st" and ok: "example_ok x"
  shows "pend es x (fold example_line (ex_lines x) st)"
proof -
  have t: "title_ok (f_name x)" using ok by (simp add: example_ok_def)
  show ?thesis
  proof (cases "f_name x = []")
    case True
    then show ?thesis using read_body [of es x st] op ok by (simp add: ex_lines_eq [OF t])
  next
    case False
    then show ?thesis
      using read_body [OF line_title_first [OF op t False] ok] blank_opened [OF op]
      by (simp add: ex_lines_eq [OF t])
  qed
qed

lemma read_next:
  assumes p: "pend es y st" "f_name y \<noteq> []" and ok: "example_ok x" "f_name x \<noteq> []"
  shows "pend (es @ [y]) x (fold example_line (ex_lines x) st)"
proof -
  have t: "title_ok (f_name x)" using ok by (simp add: example_ok_def)
  show ?thesis
    using read_body [OF line_title_next [OF blank_pend [OF p(1)] p(2) t ok(2)] ok(1)] ok(2)
    by (simp add: ex_lines_eq [OF t])
qed

lemma read_rest:
  "\<lbrakk>pend es y st; xs \<noteq> [] \<longrightarrow> f_name y \<noteq> []; list_all example_ok xs;
    list_all (\<lambda>x. f_name x \<noteq> []) xs\<rbrakk>
   \<Longrightarrow> \<exists>z. pend (es
     @ butlast (y # xs)) z (fold example_line (concat (map ex_lines xs)) st)
     \<and> z = last (y # xs)"
proof (induction xs arbitrary: es y st)
  case (Cons x xs)
  have "pend (es @ [y]) x (fold example_line (ex_lines x) st)"
    using Cons.prems by (intro read_next) auto
  from Cons.IH [OF this] Cons.prems show ?case by auto
qed simp

definition examples_ok :: "form_example list \<Rightarrow> bool" where
  "examples_ok xs \<longleftrightarrow> list_all example_ok xs
     \<and> (length xs > 1 \<longrightarrow> list_all (\<lambda>x. f_name x \<noteq> []) xs)
     \<and> (length xs = 1 \<longrightarrow> filter (\<lambda>c. \<not> js_ws c) (f_name (hd xs)) \<noteq> [0x6837, 0x4F8B, 49])"

lemma read_examples:
  assumes ok: "examples_ok (x # xs)" and ms: "fine ms"
  shows "\<exists>st. st = fold example_line (concat (map ex_lines (x # xs))) (imp2_init ms)
     \<and> map add_example (e_examples (endExample (endField2 st))) = x # xs
     \<and> fine (e_msgs (endExample (endField2 st)))"
proof -
  have "opened_ex [] [] (imp2_init ms)" using ms by (simp add: opened_ex_def imp2_init_def named_def)
  then have "pend [] x (fold example_line (ex_lines x) (imp2_init ms))"
    using ok by (intro read_first) (simp_all add: examples_ok_def)
  from read_rest [OF this, of xs] ok obtain z where
    "pend (butlast (x # xs)) z (fold example_line (concat (map ex_lines (x # xs))) (imp2_init ms))"
    "z = last (x # xs)"
    by (auto simp: examples_ok_def)
  from finish_pend [OF this(1)] this(2) show ?thesis
    by (auto simp del: butlast.simps last.simps)
qed

lemma forget_keeps:
  assumes "map add_example xs = fs" and "length fs = 1 \<longrightarrow> filter (\<lambda>c. \<not> js_ws c) (f_name (hd fs)) \<noteq> [0x6837, 0x4F8B, 49]"
  shows "forget_only_name xs = xs"
proof (cases "length xs = 1")
  case True
  then obtain x where x: "xs = [x]" by (cases xs) auto
  then have "\<And>n. x_name x = Some (Some n) \<Longrightarrow> filter (\<lambda>c. \<not> js_ws c) n \<noteq> [0x6837, 0x4F8B, 49]"
    using assms by (auto simp: add_example_def field_text_def)
  then show ?thesis by (auto simp: x forget_only_name_def split: option.splits)
qed (auto simp: forget_only_name_def split: list.split)

definition examples_blocks :: "form_example list \<Rightarrow> jstr list" where
  "examples_blocks xs = concat (map ex_blocks xs)"

lemma parse_examples_blocks:
  assumes ok: "examples_ok fs" and ne: "fs \<noteq> []" and ms: "fine ms"
  shows "\<exists>xs ns. parse_examples (blocks (examples_blocks fs)) ms = (xs, ns)
     \<and> map add_example xs = fs \<and> fine ns"
proof -
  obtain x xs where fs: "fs = x # xs" using ne by (cases fs) auto
  have "examples_blocks fs \<noteq> []"
    using ok by (simp add: fs examples_blocks_def examples_ok_def example_ok_def)
  then obtain b bs where b: "examples_blocks fs = b # bs" by (cases "examples_blocks fs") auto
  have op: "opened_ex [] [] (imp2_init ms)" using ms by (simp add: opened_ex_def imp2_init_def named_def)
  have "concat (map ex_lines fs) = concat (map (\<lambda>b. [] # split_on 10 b) (examples_blocks fs))"
    by (induction fs) (simp_all add: examples_blocks_def ex_lines_def)
  also have "\<dots> = [] # split_on 10 (blocks (examples_blocks fs))" by (simp add: b blocks_lines)
  finally have "fold example_line (concat (map ex_lines fs)) (imp2_init ms)
      = fold example_line (split_on 10 (blocks (examples_blocks fs))) (imp2_init ms)"
    using blank_opened [OF op] by simp
  with read_examples [OF ok [unfolded fs] ms] obtain st where
    st: "st = fold example_line (split_on 10 (blocks (examples_blocks fs))) (imp2_init ms)"
    "map add_example (e_examples (endExample (endField2 st))) = fs"
    "fine (e_msgs (endExample (endField2 st)))"
    by (auto simp: fs)
  have "forget_only_name (e_examples (endExample (endField2 st))) = e_examples (endExample (endField2 st))"
    using forget_keeps [OF st(2)] ok by (simp add: examples_ok_def)
  then show ?thesis
    using st(2,3) by (simp add: parse_examples_def Let_def flip: st(1))
qed

section \<open>Exporting and importing\<close>

definition content :: "desc_form \<Rightarrow> md_field \<Rightarrow> jstr" where
  "content fm f =
     (if f = Examples then blocks (examples_blocks (df_examples fm)) else df_text fm f)"

definition included :: "desc_form \<Rightarrow> md_field \<Rightarrow> bool" where
  "included fm f = (if f = Examples then df_examples fm \<noteq> [] else df_text fm f \<noteq> [])"

definition sections :: "desc_form \<Rightarrow> (md_field \<times> jstr) list" where
  "sections fm = map (\<lambda>f. (f, content fm f)) (filter (included fm) all_fields)"

text \<open>
  What can be exported without loss: no carriage returns; a trimmed title of one line; trimmed
  texts without a line that is a field's header; examples as \<open>examples_ok\<close> says;
  and something to export.
\<close>

definition exportable :: "jstr \<Rightarrow> desc_form \<Rightarrow> bool" where
  "exportable title fm \<longleftrightarrow>
     13 \<notin> set (exportToMarkdown title fm) \<and> trimmed title \<and> 10 \<notin> set title
     \<and> list_all (\<lambda>f. trimmed (df_text fm f) \<and> plain_lines (df_text fm f)) all_fields
     \<and> df_text fm Examples = [] \<and> examples_ok (df_examples fm)
     \<and> list_ex (included fm) all_fields"

lemma all_fields_simps: "all_fields = [Description, InputFormat, OutputFormat, Examples, DataRange]"
  by (simp add: all_fields_def descriptionFields_def)

lemma in_all_fields [simp]: "f \<in> set all_fields"
  by (cases f) (simp_all add: all_fields_simps)

lemma sections_sorted: "sorted_wrt (<) (map fst (sections fm))"
proof -
  have "sorted_wrt (<) all_fields" by (simp add: all_fields_simps less_md_field_def)
  then show ?thesis by (simp add: sections_def comp_def sorted_wrt_filter)
qed

text \<open>Blocks that neither start nor end with white space.\<close>

definition edged :: "jstr \<Rightarrow> bool" where
  "edged b \<longleftrightarrow> b \<noteq> [] \<and> \<not> js_ws (hd b) \<and> \<not> js_ws (last b)"

lemma edged_blocks: "bs \<noteq> [] \<Longrightarrow> list_all edged bs \<Longrightarrow> edged (blocks bs)"
proof (induction bs rule: list_nonempty_induct)
  case (cons b bs)
  then show ?case by (simp add: blocks_Cons edged_def)
qed (simp add: blocks_def)

lemma edged_trimmed: "edged b \<Longrightarrow> trimmed b"
  by (rule js_trim_id) (auto simp: edged_def)

lemma trimmed_edged: "trimmed b \<Longrightarrow> b \<noteq> [] \<Longrightarrow> edged b"
  using trimmed_ends by (simp add: edged_def)

lemma not_ws_ascii [simp]: "\<not> js_ws 35" "\<not> js_ws 96" "\<not> js_ws 0xFF08" "\<not> js_ws 0xFF09"
  by (simp_all add: js_ws_def)

lemma edged_parts:
  "edged (h2 f)" "trimmed n \<Longrightarrow> n \<noteq> [] \<Longrightarrow> edged (hdr3 n)"
  "k \<noteq> KDescription \<Longrightarrow> edged (io_header n k)" "edged (wrapCode c)"
proof -
  have "edged (field_name f)" by (cases f) (simp_all add: edged_def js_ws_def)
  then show "edged (h2 f)" by (simp add: edged_def h2_def)
  show "trimmed n \<Longrightarrow> n \<noteq> [] \<Longrightarrow> edged (hdr3 n)"
    using trimmed_edged [of n] by (simp add: edged_def hdr3_def)
  show "k \<noteq> KDescription \<Longrightarrow> edged (io_header n k)"
    by (cases k) (simp_all add: edged_def io_header_def hdr3_def hdr4_def js_ws_def)
  show "edged (wrapCode c)" by (simp add: edged_def wrapCode_def FENCE_def)
qed

lemma edged_example: "example_ok x \<Longrightarrow> list_all edged (ex_blocks x)"
  using edged_parts by (auto simp: ex_blocks_def example_ok_def title_ok_def note_ok_def intro: trimmed_edged)

lemma plain_parts:
  "plain_lines c \<Longrightarrow> plain_lines (wrapCode c)" "title_ok n \<Longrightarrow> plain_lines (hdr3 n)"
  "plain_lines (io_header n k)"
proof -
  show "plain_lines c \<Longrightarrow> plain_lines (wrapCode c)"
    by (simp add: plain_lines_def wrap_lines) (simp add: FENCE_def)
  show "title_ok n \<Longrightarrow> plain_lines (hdr3 n)"
    by (subst plain_lines_def, subst split_on_free) (auto simp: title_ok_def hdr3_def)
  show "plain_lines (io_header n k)"
    by (simp add: plain_lines_def io_header_line) (simp add: io_header_def hdr3_def hdr4_def)
qed

lemma plain_example: "example_ok x \<Longrightarrow> list_all plain_lines (ex_blocks x)"
  using plain_parts by (auto simp: ex_blocks_def example_ok_def code_ok_def note_ok_def)

lemma plain_blocks: "list_all plain_lines bs \<Longrightarrow> plain_lines (blocks bs)"
proof (cases bs)
  case (Cons b cs)
  assume "list_all plain_lines bs"
  then show ?thesis
    by (auto simp: Cons plain_lines_def blocks_lines list_all_iff)
qed (simp add: blocks_def plain_lines_def)

lemma content_facts:
  assumes ex: "exportable title fm" and inc: "included fm f"
  shows "edged (content fm f)" and "plain_lines (content fm f)"
proof -
  have tex: "trimmed (df_text fm f)" "plain_lines (df_text fm f)"
    using ex in_all_fields [of f] by (auto simp: exportable_def list_all_iff)
  have all: "list_all example_ok (df_examples fm)" using ex by (simp add: exportable_def examples_ok_def)
  have bl: "list_all edged (examples_blocks (df_examples fm))"
      "list_all plain_lines (examples_blocks (df_examples fm))"
    using all edged_example plain_example by (fastforce simp: examples_blocks_def list_all_iff)+
  show "edged (content fm f)"
  proof (cases "f = Examples")
    case True
    then obtain x where x: "x \<in> set (df_examples fm)" using inc by (cases "df_examples fm") (auto simp: included_def)
    then have "ex_blocks x \<noteq> []" using all by (simp add: list_all_iff example_ok_def)
    then have "examples_blocks (df_examples fm) \<noteq> []" using x by (auto simp: examples_blocks_def)
    with bl edged_blocks True show ?thesis by (simp add: content_def)
  qed (use tex trimmed_edged inc in \<open>simp add: content_def included_def\<close>)
  show "plain_lines (content fm f)"
    using tex bl plain_blocks by (simp add: content_def)
qed

lemma export_example_blocks:
  "export_example x = concat (map (\<lambda>b. b @ [10, 10]) (ex_blocks x))"
  by (simp add: export_example_def ex_blocks_def io_header_def hdr3_def hdr4_def Let_def)

lemma export_field_blocks:
  assumes ex: "exportable title fm"
  shows "export_field fm (f, field_name f) =
     (if included fm f then concat (map (\<lambda>b. b @ [10, 10]) [h2 f, content fm f]) else [])"
proof (cases "f = Examples")
  case True
  have "df_examples fm \<noteq> [] \<Longrightarrow> examples_blocks (df_examples fm) \<noteq> []"
    using content_facts(1) [OF ex, of Examples]
    by (auto simp: included_def content_def edged_def blocks_def)
  moreover have "concat (map export_example xs) = concat (map (\<lambda>b. b @ [10,
    10]) (examples_blocks xs))" for xs
    by (induction xs) (simp_all add: export_example_blocks examples_blocks_def)
  ultimately show ?thesis
    using True by (cases "df_examples fm = []")
      (simp_all add: export_field_def included_def content_def blocks_append h2_def)
next
  case False
  have "trimmed (df_text fm f)" using ex in_all_fields [of f] by (auto simp: exportable_def list_all_iff)
  then show ?thesis
    using False by (simp add: export_field_def included_def content_def h2_def)
qed

lemma descriptionFields_pairs: "descriptionFields = map (\<lambda>f. (f, field_name f)) all_fields"
  by (simp add: all_fields_simps descriptionFields_def)

lemma export_blocks:
  assumes ex: "exportable title fm"
  shows "exportToMarkdown title fm = blocks (doc_blocks title (sections fm)) @ [10, 10]"
proof -
  have "concat (map (export_field fm) (map (\<lambda>f. (f, field_name f)) fs))
      = concat (map (\<lambda>b. b @ [10, 10]) (concat (map (\<lambda>f. [h2 f,
        content fm f]) (filter (included fm) fs))))" for fs
    by (induction fs) (simp_all add: export_field_blocks [OF ex])
  from this [of all_fields]
  have "concat (map (export_field fm) descriptionFields)
      = concat (map (\<lambda>b. b @ [10, 10]) (concat (map (\<lambda>f. [h2 f,
        content fm f]) (filter (included fm) all_fields))))"
    by (simp add: descriptionFields_pairs)
  then have "exportToMarkdown title fm = concat (map (\<lambda>b. b @ [10,
    10]) (doc_blocks title (sections fm)))"
    by (simp add: exportToMarkdown_def doc_blocks_def sections_def comp_def title_line_def)
  moreover have "doc_blocks title (sections fm) \<noteq> []" by (simp add: doc_blocks_def)
  ultimately show ?thesis using blocks_append by metis
qed

lemma export_trimmed:
  assumes ex: "exportable title fm"
  shows "js_trim (unix_lines (exportToMarkdown title fm)) = blocks (doc_blocks title (sections fm))"
proof -
  let ?b = "concat (map (\<lambda>p. [h2 (fst p), snd p]) (sections fm))"
  have "list_all edged ?b"
    using content_facts(1) [OF ex] edged_parts(1) by (auto simp: sections_def list_all_iff)
  moreover have "?b \<noteq> []"
    using ex by (auto simp: exportable_def sections_def list_ex_iff filter_empty_conv)
  ultimately have e: "edged (blocks ?b)" and ne: "?b \<noteq> []" using edged_blocks by auto
  have "blocks (doc_blocks title (sections fm)) = title_line title @ 10 # 10 # blocks ?b"
    using ne by (simp add: doc_blocks_def blocks_Cons)
  with e have "edged (blocks (doc_blocks title (sections fm)))"
    by (simp add: edged_def title_line_def)
  moreover have "unix_lines (exportToMarkdown title fm) = exportToMarkdown title fm"
    using ex by (intro unix_lines_id) (simp add: exportable_def)
  ultimately show ?thesis
    using edged_trimmed trim_ws_right [of "[10, 10]"] by (simp add: export_blocks [OF ex])
qed

lemma sections_lookup:
  assumes ex: "exportable title fm"
  shows "map_of (map (\<lambda>p. (fst p, js_trim (snd p))) (sections fm)) f
     = (if included fm f then Some (content fm f) else None)"
proof -
  have "map_of (map (\<lambda>p. (fst p, js_trim (snd p))) (map (\<lambda>f. (f,
    content fm f)) fs)) f
      = (if f \<in> set fs then Some (js_trim (content fm f)) else None)" for fs
    by (induction fs) auto
  then show ?thesis
    using content_facts(1) [OF ex] edged_trimmed by (simp add: sections_def)
qed


definition demo_form :: desc_form where
  "demo_form = \<lparr>df_text = (\<lambda>f. if f = Description then (js ''A + B'') else []),
     df_examples = [\<lparr>f_name = [], f_input = (js ''1 2''), f_output = (js ''3''),
       f_description = []\<rparr>]\<rparr>"

definition blank_form :: desc_form where
  "blank_form = \<lparr>df_text = \<lambda>_. [], df_examples = []\<rparr>"


text \<open>
  An empty section adds an empty example. An examples section without a line of content is
  read as one example all of whose fields are null, and the import succeeds with a warning:
  the end of the text is handled as the end of a field although no field is open, which sets
  the property \<open>null\<close> of the example.
\<close>

lemma empty_section_adds_example:
  "map add_example (fst (parse_examples [] ms))
     = [\<lparr>f_name = [], f_input = [], f_output = [], f_description = []\<rparr>]
   \<and> length (snd (parse_examples [] ms)) = length ms + 2"
  by (simp add: parse_examples_def Let_def example_line_def in_code_def text_line_def imp2_init_def
      endField2_def has_key_def set_key_def no_example_def join_lines_def endExample_def say2_def
      falsy_def fill_nulls_def or_null_field_def forget_only_name_def add_example_def field_text_def)

end
