(* ===== verification/Attachments.thy ===== *)
theory Attachments
  imports JSPrelude
begin

text \<open>
  The attachments tab of the problem editor (\<open>web/static/js/problem_admin.js\<close>,
  the block \<open>attachments\<close>): the list of attachments, the validation of the names
  of files to upload and the upload loop.

  The Unicode normal form NFKC is a parameter \<open>N\<close> of the definitions that
  validate names. What the server answers is an input of the step that waits for it. Of the
  page the model keeps which parts are shown and what they say.
\<close>

section \<open>File sizes\<close>

text \<open>
  \<open>(s / d).toFixed(f)\<close>: the closest decimal with \<open>f\<close> digits, the
  larger one of two. The divisions by 1024 are exact, so the quotient is kept as numerator and
  denominator.
\<close>

definition scaled :: "nat \<Rightarrow> nat \<Rightarrow> nat \<Rightarrow> nat" where
  "scaled f s d = (2 * s * 10 ^ f + d) div (2 * d)"

definition pad_digits :: "nat \<Rightarrow> jstr \<Rightarrow> jstr" where
  "pad_digits f t = replicate (f - length t) 48 @ t"

definition fixed_str :: "nat \<Rightarrow> nat \<Rightarrow> jstr" where
  "fixed_str f n = nat_str (n div 10 ^ f) @ [46] @ pad_digits f (nat_str (n mod 10 ^ f))"

definition SIZE_UNITS :: "jstr list" where
  "SIZE_UNITS = [(js ''B''), (js ''KiB''), (js ''MiB''), (js ''GiB''), (js ''TiB'')]"

fun format_size :: "nat \<Rightarrow> nat \<Rightarrow> jstr list \<Rightarrow> jstr option" where
  "format_size s d [] = None"
| "format_size s d (u # us) =
     (if s < 2048 * d \<or> u = (js ''TiB'')
      then Some ((if u = (js ''B'') then nat_str (s div d)
                  else if s < 10 * d then fixed_str 2 (scaled 2 s d)
                  else fixed_str 1 (scaled 1 s d)) @ [32] @ u)
      else format_size s (d * 1024) us)"

definition formatFileSize :: "nat \<Rightarrow> jstr option" where
  "formatFileSize s = format_size s 1 SIZE_UNITS"

definition shown_size :: "nat \<Rightarrow> jstr" where
  "shown_size s = (case formatFileSize s of None \<Rightarrow> (js ''undefined'') | Some t \<Rightarrow> t)"

section \<open>State\<close>

record attachment =
  at_name :: jstr
  at_size :: nat
  at_user :: "jstr option"
  at_url :: jstr

record list_row =
  lr_link :: jstr
  lr_name :: jstr
  lr_size :: jstr
  lr_user :: jstr
  lr_clipboard :: jstr

text \<open>
  A file to upload: its name is an input until the upload starts, which replaces the input by
  text.
\<close>

datatype name_cell = NameInput jstr | NameText jstr

record upload_row =
  ur_size :: nat
  ur_name :: name_cell
  ur_title :: jstr
  ur_invalid :: bool
  ur_shown_size :: jstr
  ur_status :: jstr
  ur_done :: bool \<comment> \<open>the progress property is 1\<close>

record att_page =
  attachments :: "attachment list"
  list_shown :: bool
  list_rows :: "list_row list"
  picker_shown :: bool
  details_shown :: bool
  actions_shown :: bool
  status_shown :: bool
  upload_rows :: "upload_row list"
  upload_hidden :: bool
  upload_disabled :: bool
  status_now :: jstr
  status_count :: jstr
  upload_errors :: "jstr list"

datatype att_effect =
    FetchList
  | DeleteFile jstr
  | CreateFile jstr nat
  | PutFile jstr nat
  | Shows jstr

type_synonym att_result = "att_page \<times> att_effect list"

section \<open>The list\<close>

definition list_row_of :: "attachment \<Rightarrow> list_row" where
  "list_row_of a = \<lparr>lr_link = at_url a, lr_name = at_name a,
    lr_size = shown_size (at_size a),
     lr_user = (case at_user a of None \<Rightarrow> [] | Some u \<Rightarrow> u),
     lr_clipboard = (js ''[attachment]'') @ at_name a @ (js ''[/attachment]'')\<rparr>"

definition reloadAttachments :: "attachment list reply \<Rightarrow> att_page \<Rightarrow> att_result" where
  "reloadAttachments ans p =
     (case ans of
        Rejects m \<Rightarrow> (p, [FetchList, Shows ([0x65E0, 0x6CD5, 0x83B7, 0x53D6, 0x9644,
          0x4EF6, 0x5217, 0x8868, 0xFF0C, 0x8BF7, 0x5237, 0x65B0, 0x91CD, 0x8BD5, 0xFF08] @ m
            @ [0xFF09])])
      | Resolves xs \<Rightarrow> (p\<lparr>attachments := xs, list_shown := (xs \<noteq> []),
                         list_rows := map list_row_of xs\<rparr>, [FetchList]))"

section \<open>Validation\<close>

text \<open>The title of a name that may not be used; \<open>None\<close> for a valid name.\<close>

definition name_fault :: "jstr set \<Rightarrow> jstr \<Rightarrow> jstr option" where
  "name_fault used name =
     (if name = [] then Some ([0x6587, 0x4EF6, 0x540D, 0x4E0D, 0x80FD, 0x4E3A, 0x7A7A])
      else if name = (js ''.'') \<or> name = (js ''..'') then Some (([0x6587, 0x4EF6, 0x540D,
        0x4E0D, 0x80FD, 0x4E3A] @ js '' . '' @ [0x6216] @ js '' ..''))
      else if 47 \<in> set name then Some (([0x6587, 0x4EF6, 0x540D, 0x4E2D, 0x4E0D, 0x80FD,
        0x5305, 0x542B] @ js '' /''))
      else if name \<in> used then Some ([0x6587, 0x4EF6, 0x540D, 0x4E0E, 0x5DF2, 0x6709, 0x9644,
        0x4EF6, 0x91CD, 0x590D, 0xFF0C, 0x8BF7, 0x5220, 0x9664, 0x73B0, 0x6709, 0x9644, 0x4EF6,
          0x540E, 0x4E0A, 0x4F20])
      else None)"

text \<open>
  One pass over the rows, with the names used so far. Rows whose input was replaced have no
  input to validate.
\<close>

fun validate_rows ::
  "(jstr \<Rightarrow> jstr) \<Rightarrow> jstr set \<Rightarrow> upload_row list \<Rightarrow> upload_row list \<times> bool"
where
  "validate_rows N used [] = ([], True)"
| "validate_rows N used (r # rs) =
     (case ur_name r of
        NameText _ \<Rightarrow> (case validate_rows N used rs of (rs', ok) \<Rightarrow> (r # rs',
          ok))
      | NameInput v \<Rightarrow>
          (let name = js_trim (N v)
           in case name_fault used name of
                None \<Rightarrow> (case validate_rows N (insert name used) rs of
                           (rs', ok) \<Rightarrow> (r\<lparr>ur_title := [],
                             ur_invalid := False\<rparr> # rs', ok))
              | Some t \<Rightarrow> (case validate_rows N used rs of
                             (rs', ok) \<Rightarrow> (r\<lparr>ur_title := t,
                               ur_invalid := True\<rparr> # rs', False))))"

definition validateForm :: "(jstr \<Rightarrow> jstr) \<Rightarrow> att_page \<Rightarrow> att_page" where
  "validateForm N p =
     (case validate_rows N (set (map at_name (attachments p))) (upload_rows p) of
        (rs, ok) \<Rightarrow> p\<lparr>upload_rows := rs, upload_disabled := \<not> ok\<rparr>)"

section \<open>Handlers\<close>

text \<open>
  Deleting an attachment: nothing happens without confirmation; a request that fails
  altogether ends the handler with an unhandled rejection.
\<close>

definition delete_clicked ::
  "(jstr \<Rightarrow> jstr) \<Rightarrow> attachment \<Rightarrow> bool \<Rightarrow> (int \<times> jstr) reply \<Rightarrow> attachment list reply
     \<Rightarrow> att_page \<Rightarrow> att_result"
where
  "delete_clicked N a confirmed ans lst p =
     (if \<not> confirmed then (p, [])
      else (case ans of
              Rejects _ \<Rightarrow> (p, [DeleteFile (at_url a)])
            | Resolves (st, body) \<Rightarrow>
                (case reloadAttachments lst p of
                   (p', es) \<Rightarrow>
                     (validateForm N p',
                      DeleteFile (at_url a)
                        # (if http_ok st then []
                           else [Shows ([0x5220, 0x9664, 0x9644, 0x4EF6, 0x51FA, 0x9519, 0xFF08]
                             @ num_str st @ [0xFF09, 0xFF1A] @ body)])
                        @ es))))"

definition new_row :: "jstr \<times> nat \<Rightarrow> upload_row" where
  "new_row f = \<lparr>ur_size = snd f, ur_name = NameInput (fst f), ur_title = [],
    ur_invalid = False,
     ur_shown_size = shown_size (snd f), ur_status = [0x5F85, 0x4E0A, 0x4F20],
       ur_done = False\<rparr>"

definition files_picked :: "(jstr \<Rightarrow> jstr) \<Rightarrow> (jstr \<times> nat) list \<Rightarrow> att_page \<Rightarrow> att_page" where
  "files_picked N files p =
     (if files = [] then p
      else validateForm N (p\<lparr>picker_shown := False, details_shown := True,
        actions_shown := True,
             status_shown := False, upload_rows := map new_row files\<rparr>))"

definition name_edited :: "(jstr \<Rightarrow> jstr) \<Rightarrow> nat \<Rightarrow> jstr \<Rightarrow> att_page \<Rightarrow> att_page" where
  "name_edited N i v p =
     (if i < length (upload_rows p)
      then (case ur_name (upload_rows p ! i) of
              NameText _ \<Rightarrow> p
            | NameInput _ \<Rightarrow> validateForm N
                (p\<lparr>upload_rows := (upload_rows p)[i := (upload_rows p ! i)\<lparr>ur_name := NameInput v\<rparr>]\<rparr>))
      else p)"

definition go_back :: "att_page \<Rightarrow> att_page" where
  "go_back p = p\<lparr>upload_hidden := False, details_shown := False, upload_errors := [],
    upload_rows := [],
              picker_shown := True\<rparr>"

section \<open>Uploading\<close>

text \<open>
  The server's answer to the request for a file, and the status of the PUT (0 when the network
  fails: \<open>onreadystatechange\<close> runs before \<open>onerror\<close>, so its
  rejection is the one that counts). The result is the text of the error.
\<close>

record file_answer =
  fa_create :: "(int \<times> jstr) reply"
  fa_put :: int

definition put_outcome :: "int \<Rightarrow> jstr option" where
  "put_outcome st =
     (if st = 413 then Some ((js ''Error: '' @ [0x6587, 0x4EF6, 0x8FC7, 0x5927]))
      else if st < 200 \<or> st > 299 then Some ((js ''Error: '' @ [0x672A, 0x77E5, 0x9519,
        0x8BEF] @ js '' ('') @ num_str st @ (js '')''))
      else None)"

definition uploadFile :: "jstr \<Rightarrow> nat \<Rightarrow> file_answer \<Rightarrow> jstr option \<times> att_effect list" where
  "uploadFile name sz a =
     (case fa_create a of
        Rejects m \<Rightarrow> (Some m, [CreateFile name sz])
      | Resolves (st, body) \<Rightarrow>
          if \<not> http_ok st
          then (Some ((js ''Error: '' @ [0x65E0, 0x6CD5, 0x521B, 0x5EFA, 0x6587, 0x4EF6]
            @ js '' ('') @ num_str st @ (js ''): '') @ body), [CreateFile name sz])
          else (put_outcome (fa_put a), [CreateFile name sz, PutFile (js_trim body) sz]))"

text \<open>The upload button reads every name before the first request.\<close>

definition typed :: "upload_row \<Rightarrow> jstr" where
  "typed r = (case ur_name r of NameInput v \<Rightarrow> js_trim v | NameText t \<Rightarrow> t)"

definition freeze_row :: "upload_row \<Rightarrow> upload_row" where
  "freeze_row r = r\<lparr>ur_name := NameText (typed r)\<rparr>"

definition failure_text :: "jstr \<Rightarrow> jstr \<Rightarrow> jstr" where
  "failure_text name m = [0x4E0A, 0x4F20, 0x6587, 0x4EF6, 32] @ name @ [32, 0x5931, 0x8D25,
    0xFF1A] @ m"

definition upload_one :: "nat \<Rightarrow> nat \<Rightarrow> file_answer \<Rightarrow> att_page \<Rightarrow> att_result" where
  "upload_one n i a p =
     (let r = upload_rows p ! i;
          name = typed r;
          p1 = p\<lparr>status_now := [0x6B63, 0x5728, 0x4E0A, 0x4F20, 32] @ name,
                 status_count := [40] @ nat_str (i + 1) @ [47] @ nat_str n @ [41]\<rparr>
      in case uploadFile name (ur_size r) a of
           (None, es) \<Rightarrow>
             (p1\<lparr>upload_rows := (upload_rows p)[i := r\<lparr>ur_status := [0x5B8C, 0x6210],
               ur_done := True\<rparr>]\<rparr>, es)
         | (Some m, es) \<Rightarrow>
             (p1\<lparr>upload_rows := (upload_rows p)[i := r\<lparr>ur_status := [0x5931,
               0x8D25]\<rparr>],
                 upload_errors := upload_errors p @ [failure_text name m]\<rparr>, es))"

text \<open>The loop over the files,
  the \<open>i\<close>-th with the \<open>i\<close>-th answer.\<close>

fun upload_loop :: "nat \<Rightarrow> nat \<Rightarrow> (nat \<Rightarrow> file_answer) \<Rightarrow> nat \<Rightarrow> att_page \<Rightarrow> att_result" where
  "upload_loop n 0 A i p = (p, [])"
| "upload_loop n (Suc k) A i p =
     (case upload_one n i (A i) p of
        (p1, es) \<Rightarrow> (case upload_loop n k A (Suc i) p1 of (p2, fs) \<Rightarrow> (p2,
          es @ fs)))"

definition upload_clicked ::
  "(nat \<Rightarrow> file_answer) \<Rightarrow> attachment list reply \<Rightarrow> att_page \<Rightarrow> att_result"
where
  "upload_clicked A lst p =
     (let n = length (upload_rows p);
          p1 = p\<lparr>upload_rows := map freeze_row (upload_rows p), upload_errors := [],
                 actions_shown := False, status_shown := True\<rparr>
      in case upload_loop n n A 0 p1 of
           (p2, es) \<Rightarrow>
             (let p3 = p2\<lparr>actions_shown := True, status_shown := False\<rparr>;
                  q = (if upload_errors p3 = [] then go_back p3 else p3\<lparr>upload_hidden := True\<rparr>)
              in (fst (reloadAttachments lst q),
                  es @ FetchList
                    # (if upload_errors p3 = [] then [Shows ([0x4E0A, 0x4F20, 0x6210, 0x529F,
                      0xFF01])]
                       else [Shows ([0x90E8, 0x5206, 0x6587, 0x4EF6, 0x4E0A, 0x4F20, 0x5931,
                         0x8D25])])
                    @ tl (snd (reloadAttachments lst q)))))"

section \<open>The tab as a machine\<close>

text \<open>
  What the user does and what the server answers. The browser delivers a click only to a
  button that is shown and enabled, and an edit only to an input that is there.
\<close>

datatype att_op =
    OpenTab "attachment list reply"
  | Delete attachment bool "(int \<times> jstr) reply" "attachment list reply"
  | Pick "(jstr \<times> nat) list"
  | Edit nat jstr
  | Back
  | Upload "nat \<Rightarrow> file_answer" "attachment list reply"

definition can_upload :: "att_page \<Rightarrow> bool" where
  "can_upload p \<longleftrightarrow> details_shown p \<and> actions_shown p \<and> \<not> upload_hidden p \<and> \<not> upload_disabled p"

fun att_step :: "(jstr \<Rightarrow> jstr) \<Rightarrow> att_op \<Rightarrow> att_page \<Rightarrow> att_result" where
  "att_step N (OpenTab ans) p = reloadAttachments ans p"
| "att_step N (Delete a c ans lst) p =
     (if a \<in> set (attachments p) then delete_clicked N a c ans lst p else (p, []))"
| "att_step N (Pick files) p = (if picker_shown p then (files_picked N files p, []) else (p, []))"
| "att_step N (Edit i v) p = (name_edited N i v p, [])"
| "att_step N Back p = (if details_shown p \<and> actions_shown p then (go_back p, []) else (p,
  []))"
| "att_step N (Upload A lst) p = (if can_upload p then upload_clicked A lst p else (p, []))"

definition att_next :: "(jstr \<Rightarrow> jstr) \<Rightarrow> att_op \<Rightarrow> att_page \<Rightarrow> att_page" where
  "att_next N op p = fst (att_step N op p)"

definition att_init :: att_page where
  "att_init = \<lparr>attachments = [], list_shown = False, list_rows = [], picker_shown = True,
     details_shown = False, actions_shown = True, status_shown = False, upload_rows = [],
     upload_hidden = False, upload_disabled = False, status_now = [], status_count = [],
     upload_errors = []\<rparr>"

section \<open>Validation\<close>

text \<open>The names in the inputs, as validated, and what makes them acceptable.\<close>

definition is_input :: "upload_row \<Rightarrow> bool" where
  "is_input r = (case ur_name r of NameInput _ \<Rightarrow> True | NameText _ \<Rightarrow> False)"

definition inputs :: "upload_row list \<Rightarrow> jstr list" where
  "inputs rs = concat (map (\<lambda>r. case ur_name r of NameInput v \<Rightarrow> [v] | NameText _ \<Rightarrow> []) rs)"

definition cands :: "(jstr \<Rightarrow> jstr) \<Rightarrow> upload_row list \<Rightarrow> jstr list" where
  "cands N rs = map (\<lambda>v. js_trim (N v)) (inputs rs)"

definition usable :: "jstr \<Rightarrow> bool" where
  "usable name \<longleftrightarrow> name \<noteq> [] \<and> name \<noteq> (js ''.'') \<and> name \<noteq> (js ''..'') \<and> 47 \<notin> set name"

definition flags :: "jstr set \<Rightarrow> jstr list \<Rightarrow> bool list" where
  "flags used ns = map (\<lambda>i. \<not> usable (ns ! i) \<or> ns ! i \<in> used \<union> set (take i ns)) [0 ..< length ns]"

lemma name_fault_None: "name_fault used n = None \<longleftrightarrow> usable n \<and> n \<notin> used"
  by (simp add: name_fault_def usable_def)

lemma inputs_simps [simp]:
  "inputs [] = []"
  "ur_name r = NameInput v \<Longrightarrow> inputs (r # rs) = v # inputs rs"
  "ur_name r = NameText t \<Longrightarrow> inputs (r # rs) = inputs rs"
  by (simp_all add: inputs_def)

lemma cands_simps [simp]:
  "cands N [] = []"
  "ur_name r = NameInput v \<Longrightarrow> cands N (r # rs) = js_trim (N v) # cands N rs"
  "ur_name r = NameText t \<Longrightarrow> cands N (r # rs) = cands N rs"
  by (simp_all add: cands_def)

lemma flags_Cons:
  "flags used (n # ns) = (\<not> usable n \<or> n \<in> used) # flags (insert n used) ns"
  by (auto simp: flags_def map_upt_Suc simp del: upt_Suc)

lemma flags_absorb:
  "\<not> usable n \<or> n \<in> used \<Longrightarrow> flags (insert n used) ns = flags used ns"
  by (auto simp: flags_def)

lemma validate_rows_spec:
  "map ur_name (fst (validate_rows N used rs)) = map ur_name rs
   \<and> snd (validate_rows N used rs) = (\<not> list_ex id (flags used (cands N rs)))
   \<and> map ur_invalid (filter is_input (fst (validate_rows N used rs))) = flags used (cands N rs)"
proof (induction N used rs rule: validate_rows.induct)
  case (1 N used)
  then show ?case by (simp add: flags_def)
next
  case (2 N used r rs)
  show ?case
  proof (cases "ur_name r")
    case (NameText t)
    then show ?thesis using 2(3) [OF NameText] NameText by (simp add: is_input_def split_beta)
  next
    case (NameInput v)
    let ?n = "js_trim (N v)"
    show ?thesis
    proof (cases "name_fault used ?n")
      case None
      then have "usable ?n \<and> ?n \<notin> used" using name_fault_None by blast
      then show ?thesis using 2(1) [OF NameInput refl None] NameInput None
        by (simp add: flags_Cons Let_def is_input_def split_beta)
    next
      case (Some t)
      then have "\<not> usable ?n \<or> ?n \<in> used" using name_fault_None [of used ?n] by auto
      then show ?thesis using 2(2) [OF NameInput refl Some] NameInput Some
        by (simp add: flags_Cons flags_absorb Let_def is_input_def split_beta)
    qed
  qed
qed

lemma flags_none: "\<not> list_ex id (flags used ns)
    \<longleftrightarrow> list_all usable ns \<and> distinct ns \<and> set ns \<inter> used = {}"
proof (induction ns arbitrary: used)
  case (Cons n ns)
  then show ?case by (auto simp: flags_Cons)
qed (simp add: flags_def)

lemma inputs_names: "map ur_name rs = map ur_name rs' \<Longrightarrow> inputs rs = inputs rs'"
proof -
  assume *: "map ur_name rs = map ur_name rs'"
  have "inputs rs = concat (map (\<lambda>c. case c of NameInput v \<Rightarrow> [v] | NameText _ \<Rightarrow> []) (map ur_name rs))" for rs
    by (simp add: inputs_def comp_def)
  then show ?thesis using * by metis
qed

lemma validate_inputs [simp]: "inputs (fst (validate_rows N used rs)) = inputs rs"
  using validate_rows_spec inputs_names by blast

lemma validate_cands [simp]: "cands N (fst (validate_rows N used rs)) = cands N rs"
  by (simp add: cands_def)

text \<open>The parts of the page that \<open>validateForm\<close> does not touch,
  and the ones it does.\<close>

lemma validateForm_fields [simp]:
  "attachments (validateForm N p) = attachments p" "picker_shown (validateForm N p) = picker_shown p"
  "details_shown (validateForm N p) = details_shown p" "actions_shown (validateForm N p) = actions_shown p"
  "status_shown (validateForm N p) = status_shown p" "upload_hidden (validateForm N p) = upload_hidden p"
  "upload_errors (validateForm N p) = upload_errors p"
  "inputs (upload_rows (validateForm N p)) = inputs (upload_rows p)"
  "cands M (upload_rows (validateForm N p)) = cands M (upload_rows p)"
  "map ur_name (upload_rows (validateForm N p)) = map ur_name (upload_rows p)"
  using validate_rows_spec [of N "set (map at_name (attachments p))" "upload_rows p"]
    validate_inputs [of N "set (map at_name (attachments p))" "upload_rows p"]
  by (simp_all add: validateForm_def cands_def split_beta)

text \<open>
  The upload button is enabled exactly when every name in the form, in its normal form
  and trimmed, is a file name (not empty, not a dot or two, without slash), no two names agree
  and none is the name of an attachment; and exactly the inputs are marked whose name is
  unusable, taken, or given by an earlier input.
\<close>

lemma upload_button_iff:
  "upload_disabled (validateForm N p)
     = (\<not> (list_all usable (cands N (upload_rows p)) \<and> distinct (cands N (upload_rows p))
          \<and> set (cands N (upload_rows p)) \<inter> set (map at_name (attachments p)) = {}))
   \<and> map ur_invalid (filter is_input (upload_rows (validateForm N p)))
       = flags (set (map at_name (attachments p))) (cands N (upload_rows p))"
  using validate_rows_spec [of N "set (map at_name (attachments p))" "upload_rows p"]
  by (auto simp: validateForm_def flags_none split_beta)

section \<open>The upload loop\<close>

text \<open>What one answer does to a row, and the error it adds.\<close>

definition fault :: "file_answer \<Rightarrow> upload_row \<Rightarrow> jstr option" where
  "fault a r = fst (uploadFile (typed r) (ur_size r) a)"

definition finished :: "file_answer \<Rightarrow> upload_row \<Rightarrow> upload_row" where
  "finished a r = (if fault a r = None then r\<lparr>ur_status := [0x5B8C, 0x6210],
    ur_done := True\<rparr>
                   else r\<lparr>ur_status := [0x5931, 0x8D25]\<rparr>)"

definition failures :: "(nat \<Rightarrow> file_answer) \<Rightarrow> upload_row list \<Rightarrow> nat list \<Rightarrow> jstr list" where
  "failures A rs is = concat (map (\<lambda>j. case fault (A j) (rs ! j) of
       None \<Rightarrow> [] | Some m \<Rightarrow> [failure_text (typed (rs ! j)) m]) is)"

definition requests :: "(nat \<Rightarrow> file_answer) \<Rightarrow> upload_row list \<Rightarrow> nat list \<Rightarrow> att_effect list" where
  "requests A rs is =
     concat (map (\<lambda>j. snd (uploadFile (typed (rs ! j)) (ur_size (rs ! j)) (A j))) is)"

lemma upload_one_eq:
  "upload_one n i a p =
     (p\<lparr>upload_rows := (upload_rows p)[i := finished a (upload_rows p ! i)],
        upload_errors := upload_errors p @ (case fault a (upload_rows p ! i) of
            None \<Rightarrow> [] | Some m \<Rightarrow> [failure_text (typed (upload_rows p ! i)) m]),
        status_now := [0x6B63, 0x5728, 0x4E0A, 0x4F20, 32] @ typed (upload_rows p ! i),
        status_count := [40] @ nat_str (i + 1) @ [47] @ nat_str n @ [41]\<rparr>,
      snd (uploadFile (typed (upload_rows p ! i)) (ur_size (upload_rows p ! i)) a))"
  by (simp add: upload_one_def fault_def finished_def Let_def split: prod.split option.split)

text \<open>Everything but the rows, the errors and the status line.\<close>

definition frame :: "att_page \<Rightarrow> att_page" where
  "frame p = p\<lparr>upload_rows := [], upload_errors := [], status_now := [],
    status_count := []\<rparr>"

lemma upload_loop_eq:
  assumes "i + k = length (upload_rows p)"
  shows "frame (fst (upload_loop n k A i p)) = frame p
     \<and> upload_rows (fst (upload_loop n k A i p))
         = take i (upload_rows p)
           @ map (\<lambda>j. finished (A j) (upload_rows p ! j)) [i ..< i + k]
     \<and> upload_errors (fst (upload_loop n k A i p))
         = upload_errors p @ failures A (upload_rows p) [i ..< i + k]
     \<and> snd (upload_loop n k A i p) = requests A (upload_rows p) [i ..< i + k]"
  using assms
proof (induction n k A i p rule: upload_loop.induct)
  case (1 n A i p)
  then show ?case by (simp add: failures_def requests_def)
next
  case (2 n k A i p)
  let ?p = "fst (upload_one n i (A i) p)" and ?rs = "upload_rows p"
  have rs: "upload_rows ?p = ?rs[i := finished (A i) (?rs ! i)]" by (simp add: upload_one_eq)
  have i: "i < length ?rs" using 2(2) by simp
  have nth: "upload_rows ?p ! j = ?rs ! j" if "j \<in> set [Suc i ..< Suc i + k]" for j
    using that by (auto simp: rs)
  have fail: "failures A (upload_rows ?p) [Suc i ..< Suc i + k] = failures A ?rs [Suc i ..< Suc i + k]"
    and req: "requests A (upload_rows ?p) [Suc i ..< Suc i + k] = requests A ?rs [Suc i ..< Suc i + k]"
    and fin: "map (\<lambda>j. finished (A j) (upload_rows ?p ! j)) [Suc i ..< Suc i + k]
      = map (\<lambda>j. finished (A j) (?rs ! j)) [Suc i ..< Suc i + k]"
    unfolding failures_def requests_def
    by (rule arg_cong [where f = concat], rule map_cong [OF refl], simp only: nth)+
       (rule map_cong [OF refl], simp only: nth)
  have up: "[i ..< i + Suc k] = i # [Suc i ..< Suc i + k]" by (simp add: upt_conv_Cons del: upt_Suc)
  have tk: "take (Suc i) (upload_rows ?p) = take i ?rs @ [finished (A i) (?rs ! i)]"
    using i by (simp add: rs take_Suc_conv_app_nth)
  have fr: "frame ?p = frame p" by (simp add: frame_def upload_one_eq)
  have er: "upload_errors ?p = upload_errors p @ (case fault (A i) (?rs ! i) of
      None \<Rightarrow> [] | Some m \<Rightarrow> [failure_text (typed (?rs ! i)) m])"
    and ef: "snd (upload_one n i (A i) p) = snd (uploadFile (typed (?rs ! i)) (ur_size (?rs ! i)) (A i))"
    by (simp_all add: upload_one_eq)
  have "Suc i + k = length (upload_rows ?p)" using 2(2) by (simp add: rs)
  note IH = 2(1) [OF prod.collapse this]
  show ?case
    using IH unfolding up fail req fin tk fr er
    by (simp add: ef failures_def requests_def split_beta del: upt_Suc)
qed

lemma map_frozen: "map (\<lambda>j. finished (A j) (map freeze_row rs ! j)) [0 ..< length rs]
    = map (\<lambda>j. finished (A j) (freeze_row (rs ! j))) [0 ..< length rs]"
  by simp

lemma frozen_typed [simp]: "typed (freeze_row r) = typed r" "ur_size (freeze_row r) = ur_size r"
  by (simp_all add: typed_def freeze_row_def)

lemma frozen_fault [simp]: "fault a (freeze_row r) = fault a r"
  by (simp add: fault_def)

lemma frozen_lists [simp]:
  "failures A (map freeze_row rs) [0 ..< length rs] = failures A rs [0 ..< length rs]"
  "requests A (map freeze_row rs) [0 ..< length rs] = requests A rs [0 ..< length rs]"
  by (auto simp: failures_def requests_def intro!: arg_cong [where f = concat] map_cong split: option.split)

lemma reload_fields [simp]:
  "upload_rows (fst (reloadAttachments a p)) = upload_rows p"
  "upload_errors (fst (reloadAttachments a p)) = upload_errors p"
  "picker_shown (fst (reloadAttachments a p)) = picker_shown p"
  "details_shown (fst (reloadAttachments a p)) = details_shown p"
  "upload_hidden (fst (reloadAttachments a p)) = upload_hidden p"
  "upload_disabled (fst (reloadAttachments a p)) = upload_disabled p"
  "actions_shown (fst (reloadAttachments a p)) = actions_shown p"
  by (simp_all add: reloadAttachments_def split: reply.split)

lemma upload_clicked_eq:
  "let rs = upload_rows p; n = length rs; bad = failures A rs [0 ..< n];
       p' = fst (upload_clicked A lst p); es = snd (upload_clicked A lst p)
   in (\<exists>fs. es = requests A rs [0 ..< n]
     @ FetchList # fs \<and> set fs \<subseteq> range Shows)
    \<and> upload_errors p' = bad
    \<and> picker_shown p' = (picker_shown p \<or> bad = [])
    \<and> details_shown p' = (details_shown p \<and> bad \<noteq> [])
    \<and> upload_rows p' = (if bad = [] then [] else map (\<lambda>j. finished (A j) (freeze_row (rs ! j))) [0 ..< n])
    \<and> upload_hidden p' = (bad \<noteq> [])"
proof -
  let ?rs = "upload_rows p" let ?n = "length ?rs"
  let ?p1 = "p\<lparr>upload_rows := map freeze_row ?rs, upload_errors := [],
    actions_shown := False,
      status_shown := True\<rparr>"
  have *: "0 + ?n = length (upload_rows ?p1)" by simp
  obtain p2 es where l: "upload_loop ?n ?n A 0 ?p1 = (p2, es)" by fastforce
  have f: "frame p2 = frame ?p1" "upload_errors p2 = failures A ?rs [0 ..< ?n]"
    "upload_rows p2 = map (\<lambda>j. finished (A j) (freeze_row (?rs ! j))) [0 ..< ?n]"
    "es = requests A ?rs [0 ..< ?n]"
    using upload_loop_eq [OF *, of ?n A] map_frozen [of A ?rs] unfolding l by simp_all
  have g: "picker_shown p2 = picker_shown p" "details_shown p2 = details_shown p"
    using arg_cong [OF f(1), of picker_shown] arg_cong [OF f(1), of details_shown]
    by (simp_all add: frame_def)
  have t: "set (tl (snd (reloadAttachments lst q))) \<subseteq> range Shows" for q
    by (auto simp: reloadAttachments_def split: reply.split)
  show ?thesis using f(2-4) g l t by (simp add: upload_clicked_def go_back_def Let_def)
qed

text \<open>
  One click uploads every file of the form, once and in order, whatever fails on the way.
  If every file arrives the form is closed and emptied; otherwise it stays, every row says
  whether its file arrived, the error list names exactly the files that failed, in order, and
  the upload button is gone.
\<close>

lemma upload_reports_failures:
  "let rs = upload_rows p; n = length rs; bad = failures A rs [0 ..< n];
       p' = fst (upload_clicked A lst p); es = snd (upload_clicked A lst p)
   in take (length (requests A rs [0 ..< n])) es = requests A rs [0 ..< n]
    \<and> upload_errors p' = bad
    \<and> picker_shown p' = (picker_shown p \<or> bad = [])
    \<and> upload_rows p' = (if bad = [] then [] else map (\<lambda>j. finished (A j) (freeze_row (rs ! j))) [0 ..< n])
    \<and> upload_hidden p' = (bad \<noteq> [])"
  using upload_clicked_eq [of p A lst] by (auto simp: Let_def)

section \<open>Runs\<close>

text \<open>
  The state of the form: it replaces the file picker; while the button is enabled the names in
  the inputs are usable and distinct; after a failed upload the button is gone, and as long as
  it is there the rows still have their inputs.
\<close>

definition att_inv :: "(jstr \<Rightarrow> jstr) \<Rightarrow> att_page \<Rightarrow> bool" where
  "att_inv N p \<longleftrightarrow> picker_shown p = (\<not> details_shown p)
     \<and> (\<not> upload_disabled p \<longrightarrow> list_all usable (cands N (upload_rows p)) \<and> distinct (cands N (upload_rows p)))
     \<and> (picker_shown p \<longrightarrow> \<not> upload_hidden p \<and> upload_rows p = [])
     \<and> (\<not> upload_hidden p \<longrightarrow> list_all is_input (upload_rows p))"

lemma is_input_names:
  "map ur_name rs = map ur_name rs' \<Longrightarrow> list_all is_input rs = list_all is_input rs'"
proof -
  assume *: "map ur_name rs = map ur_name rs'"
  have "list_all is_input rs = list_all (\<lambda>c. case c of NameInput _ \<Rightarrow> True | NameText _ \<Rightarrow> False) (map ur_name rs)"
    for rs by (simp add: list_all_iff is_input_def)
  then show ?thesis using * by metis
qed

lemma att_inv_validate:
  assumes "picker_shown p = (\<not> details_shown p)"
    and "picker_shown p \<Longrightarrow> \<not> upload_hidden p \<and> upload_rows p = []"
    and "\<not> upload_hidden p \<Longrightarrow> list_all is_input (upload_rows p)"
  shows "att_inv N (validateForm N p)"
proof -
  have m: "map ur_name (upload_rows (validateForm N p)) = map ur_name (upload_rows p)" by simp
  then have "list_all is_input (upload_rows (validateForm N p)) = list_all is_input (upload_rows p)"
    and "upload_rows p = [] \<Longrightarrow> upload_rows (validateForm N p) = []"
    using is_input_names by (blast, metis map_is_Nil_conv)
  moreover have "\<not> upload_disabled (validateForm N p) \<longrightarrow> list_all usable (cands N (upload_rows p))
      \<and> distinct (cands N (upload_rows p))"
    using validate_rows_spec [of N "set (map at_name (attachments p))" "upload_rows p"]
    by (simp add: validateForm_def flags_none split_beta)
  ultimately show ?thesis using assms unfolding att_inv_def by auto
qed

lemma att_inv_reload: "att_inv N (fst (reloadAttachments a p)) = att_inv N p"
  by (simp add: att_inv_def)

lemma att_inv_back: "att_inv N (go_back p)"
  by (simp add: att_inv_def go_back_def)

lemma att_inv_delete: "att_inv N p \<Longrightarrow> att_inv N (fst (delete_clicked N a c ans lst p))"
  by (auto simp: delete_clicked_def split_beta att_inv_def [of N p] split: reply.split
      intro!: att_inv_validate)

lemma att_inv_pick: "att_inv N p \<Longrightarrow> picker_shown p \<Longrightarrow> att_inv N (files_picked N files p)"
  by (auto simp: files_picked_def att_inv_def [of N p] new_row_def is_input_def list_all_iff
      intro!: att_inv_validate)

lemma list_all_update: "list_all P xs \<Longrightarrow> P y \<Longrightarrow> list_all P (xs[i := y])"
  using set_update_subset_insert [of xs i y] by (auto simp: list_all_iff)

lemma att_inv_edit: "att_inv N p \<Longrightarrow> att_inv N (name_edited N i v p)"
  by (auto simp: name_edited_def att_inv_def [of N p] is_input_def
      intro!: att_inv_validate list_all_update split: name_cell.splits)

lemma frozen_inputs: "inputs (map (\<lambda>j. finished (A j) (freeze_row (rs ! j))) ks) = []"
  by (induction ks) (simp_all add: inputs_def finished_def freeze_row_def)

lemma att_inv_upload:
  assumes "att_inv N p" "can_upload p"
  shows "att_inv N (fst (upload_clicked A lst p))"
proof -
  let ?q = "fst (upload_clicked A lst p)"
  have "cands N (upload_rows ?q) = []" and "picker_shown ?q = (\<not> details_shown ?q)"
    and "upload_hidden ?q = (upload_rows ?q \<noteq> [] \<or> upload_errors ?q \<noteq> [])"
    and "picker_shown ?q = (upload_errors ?q = [])" "upload_errors ?q = [] \<Longrightarrow> upload_rows ?q = []"
    using upload_clicked_eq [of p A lst] frozen_inputs [of A "upload_rows p"] assms
    by (auto simp: Let_def cands_def att_inv_def can_upload_def)
  then show ?thesis by (auto simp: att_inv_def)
qed

lemma att_step_inv: "att_inv N p \<Longrightarrow> att_inv N (att_next N op p)"
  by (cases op)
     (auto simp: att_next_def att_inv_reload att_inv_delete att_inv_pick att_inv_edit att_inv_back
        att_inv_upload)

interpretation att: inv_machine "att_next N" "att_inv N" for N
  by unfold_locales (rule att_step_inv)

lemma att_init_inv: "att_inv N att_init"
  by (simp add: att_inv_def att_init_def)

definition created :: "att_effect list \<Rightarrow> jstr list" where
  "created es = concat (map (\<lambda>e. case e of CreateFile n _ \<Rightarrow> [n] | _ \<Rightarrow> []) es)"

lemma created_simps [simp]:
  "created [] = []" "created (es @ fs) = created es @ created fs"
  "created (FetchList # es) = created es" "created (Shows t # es) = created es"
  by (simp_all add: created_def)

lemma created_shows: "set fs \<subseteq> range Shows \<Longrightarrow> created fs = []"
  by (induction fs) auto

lemma created_one: "created (snd (uploadFile nm sz a)) = [nm]"
  by (simp add: uploadFile_def created_def split: reply.split prod.split)

lemma created_requests: "created (requests A rs ks) = map (\<lambda>j. typed (rs ! j)) ks"
  by (induction ks) (simp_all add: requests_def created_one)

lemma typed_inputs: "list_all is_input rs \<Longrightarrow> map typed rs = map js_trim (inputs rs)"
  by (induction rs) (auto simp: typed_def is_input_def split: name_cell.splits)

lemma created_upload: "created (snd (upload_clicked A lst p)) = map typed (upload_rows p)"
proof -
  let ?rs = "upload_rows p"
  obtain fs where "snd (upload_clicked A lst p) = requests A ?rs [0 ..< length ?rs]
    @ FetchList # fs"
    "set fs \<subseteq> range Shows"
    using upload_clicked_eq [of p A lst] unfolding Let_def by blast
  then have "created (snd (upload_clicked A lst p)) = map (\<lambda>j. typed (?rs ! j)) [0 ..< length ?rs]"
    by (simp add: created_requests created_shows)
  also have "\<dots> = map typed ?rs" by (intro nth_equalityI) simp_all
  finally show ?thesis .
qed

text \<open>
  A click on the upload button asks the server for files whose normal forms, under which
  it stores them, are usable and pairwise different, one for every file of the form: along
  every run of the tab, whatever the user picks, edits, deletes and cancels, if the normal
  form of each typed name has no white space to trim that the name has not.
\<close>

lemma uploads_have_distinct_names:
  assumes "p = fold (att_next N) ops att_init" and "can_upload p"
    and "list_all (\<lambda>v. N (js_trim v) = js_trim (N v)) (inputs (upload_rows p))"
  shows "let stored = map N (created (snd (att_step N (Upload A lst) p)))
         in length stored = length (upload_rows p) \<and> list_all usable stored \<and> distinct stored"
proof -
  have inv: "att_inv N p" unfolding assms(1) by (rule att.run_inv [OF att_init_inv])
  then have rs: "list_all is_input (upload_rows p)" "list_all usable (cands N (upload_rows p))"
    "distinct (cands N (upload_rows p))"
    using assms(2) by (auto simp: att_inv_def can_upload_def)
  have "map N (created (snd (att_step N (Upload A lst) p))) = cands N (upload_rows p)"
    using assms(2,3) by (simp add: created_upload typed_inputs [OF rs(1)] cands_def list_all_iff)
  moreover have "length (cands N (upload_rows p)) = length (upload_rows p)"
    using arg_cong [OF typed_inputs [OF rs(1)], of length] by (simp add: cands_def)
  ultimately show ?thesis using rs by (simp add: Let_def)
qed

definition demo_files :: "att_op list" where
  "demo_files = [OpenTab (Resolves []), Pick [((js ''a.txt''), 3000), ((js ''b.txt''), 12)],
    Edit 1 ((js '' c.txt ''))]"

definition demo_answers :: "nat \<Rightarrow> file_answer" where
  "demo_answers i = \<lparr>fa_create = Resolves (201, js ''/u''), fa_put = 200\<rparr>"

lemma demo_files_page:
  "inputs (upload_rows (fold (att_next id) demo_files att_init)) = [(js ''a.txt''),
    (js '' c.txt '')]
   \<and> can_upload (fold (att_next id) demo_files att_init)"
  by (simp add: demo_files_def att_next_def att_init_def reloadAttachments_def files_picked_def
      validateForm_def new_row_def name_edited_def name_fault_def js_trim_def trim_end_def js_ws_def
      can_upload_def inputs_def)

lemma uploads_have_distinct_names_witness:
  "distinct (created (snd (att_step id (Upload demo_answers (Resolves []))
     (fold (att_next id) demo_files att_init))))"
  using demo_files_page
    uploads_have_distinct_names [OF refl, of id demo_files demo_answers "Resolves []"]
  by (simp add: Let_def list_all_iff del: js_simps_list)

section \<open>Shown sizes\<close>

lemma scaled_error: "0 < d \<Longrightarrow> \<bar>2 * int (scaled f s d) * int d - 2 * int s * 10 ^ f\<bar> \<le> int d"
proof -
  assume d: "0 < d"
  let ?a = "2 * s * 10 ^ f + d" let ?n = "scaled f s d"
  have "?n * (2 * d) \<le> ?a" and "?a < ?n * (2 * d) + 2 * d"
    using d dividend_less_div_times [of "2 * d" ?a] unfolding scaled_def
    by (simp_all add: div_times_less_eq_dividend)
  then have "int (?n * (2 * d)) \<le> int ?a" and "int ?a < int (?n * (2 * d) + 2 * d)"
    by (simp_all only: of_nat_le_iff of_nat_less_iff)
  then have "int ?n * (2 * int d) \<le> 2 * int s * 10 ^ f + int d"
    and "2 * int s * 10 ^ f + int d < int ?n * (2 * int d) + 2 * int d"
    by simp_all
  then show ?thesis by (simp add: abs_le_iff algebra_simps)
qed

definition UNIT_SIZES :: "(nat \<times> jstr) list" where
  "UNIT_SIZES = [(1, (js ''B'')), (1024, (js ''KiB'')), (1048576, (js ''MiB'')), (1073741824,
    (js ''GiB'')),
     (1099511627776, (js ''TiB''))]"

definition shown_in :: "nat \<Rightarrow> nat \<times> jstr \<Rightarrow> nat \<Rightarrow> jstr" where
  "shown_in s u f = (if fst u = 1 then nat_str s else fixed_str f (scaled f s (fst u))) @ [32]
    @ snd u"

definition unit_of :: "nat \<Rightarrow> nat \<times> jstr" where
  "unit_of s = (if s < 2048 then (1, (js ''B'')) else if s < 2048 * 1024 then (1024, (js ''KiB''))
     else if s < 2048 * 1048576 then (1048576, (js ''MiB''))
     else if s < 2048 * 1073741824 then (1073741824, (js ''GiB'')) else (1099511627776,
       (js ''TiB'')))"

lemma size_hit:
  "s < 2048 * d \<or> u = (js ''TiB'') \<Longrightarrow> (u = (js ''B'')) = (d = 1) \<Longrightarrow>
     format_size s d (u # us) = Some (shown_in s (d, u) (if s < 10 * d then 2 else 1))"
  by (simp add: shown_in_def del: js_simps_list)

lemma size_miss:
  "\<not> s < 2048 * d \<Longrightarrow> u \<noteq> (js ''TiB'') \<Longrightarrow> format_size s d (u # us) = format_size s (d * 1024) us"
  by (simp del: js_simps_list)

lemma unit_names:
  "(js ''KiB'') \<noteq> (js ''B'')" "(js ''MiB'') \<noteq> (js ''B'')" "(js ''GiB'') \<noteq> (js ''B'')" "(js ''TiB'') \<noteq> (js ''B'')"
  "(js ''B'') \<noteq> (js ''TiB'')" "(js ''KiB'') \<noteq> (js ''TiB'')" "(js ''MiB'') \<noteq> (js ''TiB'')" "(js ''GiB'') \<noteq> (js ''TiB'')"
  by simp_all

lemma formatFileSize_eq:
  "formatFileSize s = Some (shown_in s (unit_of s) (if s < 10 * fst (unit_of s) then 2 else 1))"
  unfolding formatFileSize_def SIZE_UNITS_def unit_of_def
  by (cases "s < 2048"; cases "s < 2048 * 1024"; cases "s < 2048 * 1048576";
      cases "s < 2048 * 1073741824")
     (simp_all add: size_hit size_miss unit_names del: js_simps_list format_size.simps)

text \<open>
  Every size is shown, in a unit of which it has at least two (bytes apart) and less than
  2048 (tebibytes apart): bytes exactly, others as a decimal with one or two digits that
  differs from the size by at most half of its last digit.
\<close>

lemma file_size_rounding:
  "let u = unit_of s; f = (if s < 10 * fst u then 2 else 1)
   in formatFileSize s = Some (shown_in s u f) \<and> u \<in> set UNIT_SIZES
    \<and> (fst u = 1 \<or> 2 * fst u \<le> s) \<and> (snd u = (js ''TiB'') \<or> s < 2048 * fst u)
    \<and> \<bar>2 * int (scaled f s (fst u)) * int (fst u) - 2 * int s * 10 ^ f\<bar> \<le> int (fst u)"
proof -
  have "0 < fst (unit_of s)" and "unit_of s \<in> set UNIT_SIZES"
    and "fst (unit_of s) = 1 \<or> 2 * fst (unit_of s) \<le> s"
    and "snd (unit_of s) = (js ''TiB'') \<or> s < 2048 * fst (unit_of s)"
    by (auto simp: unit_of_def UNIT_SIZES_def)
  then show ?thesis using scaled_error formatFileSize_eq unfolding Let_def by blast
qed

end
