(* ===== verification/DataConfig.thy ===== *)
theory DataConfig
  imports JSNumbers
begin

text \<open>
  The graphical data configuration of the problem editor
  (\<open>web/static/js/problem_admin.js\<close>, from \<open>generateConfig\<close> to the
  handler of \<open>formData\<close>): the tables of groups and test points, the buttons that
  add and remove rows, the configuration read from the tables and the data package made of it.

  A cell is its HTML text. The model of \<open>Number\<close> takes the reading of texts that
  are no plain integers as the parameter \<open>F\<close>. The configuration is the value that
  the code gives to \<open>JSON.stringify\<close>.
\<close>

section \<open>Tables\<close>

record group_row =
  gr_id :: jstr
  gr_name :: jstr
  gr_score :: jstr
  gr_points :: jstr

record detail_row =
  dr_id :: jstr
  dr_dep :: jstr
  dr_time :: jstr
  dr_memory :: jstr
  dr_disk :: jstr
  dr_valgrind :: bool

record data_form =
  tableGroups :: "group_row list"
  tableDetails :: "detail_row list"
  iptCompileTime :: jstr
  iptCompileType :: jstr
  iptRunType :: jstr
  iptCheckType :: jstr

text \<open>Writing a number into a cell; \<open>NaN\<close> leaves the cell empty.\<close>

definition html_num :: "int option \<Rightarrow> jstr" where
  "html_num n = (case n of None \<Rightarrow> [] | Some i \<Rightarrow> num_str i)"

definition next_num :: "jstr \<Rightarrow> jstr" where
  "next_num s = html_num (map_option (\<lambda>i. i + 1) (parseIntAuto s))"

definition bump :: "(jstr \<Rightarrow> jval) \<Rightarrow> jstr \<Rightarrow> jstr" where
  "bump F s = (if is_nan F s then s else next_num s)"

text \<open>A new row is made from a copy of the last one; an empty table stays empty.\<close>

definition next_group :: "(jstr \<Rightarrow> jval) \<Rightarrow> group_row \<Rightarrow> group_row" where
  "next_group F r = r\<lparr>gr_name := bump F (gr_name r), gr_points := bump F (gr_points r),
                      gr_id := next_num (gr_id r)\<rparr>"

definition next_dep :: "detail_row \<Rightarrow> jstr" where
  "next_dep r =
     (case (parseIntAuto (dr_dep r), parseIntAuto (dr_id r)) of
        (Some d,
          Some i) \<Rightarrow> if d = i - 1 \<and> dr_dep r \<noteq> (js ''0'') then dr_id r else (js ''0'')
      | _ \<Rightarrow> (js ''0''))"

definition next_detail :: "detail_row \<Rightarrow> detail_row" where
  "next_detail r = r\<lparr>dr_dep := next_dep r, dr_id := next_num (dr_id r)\<rparr>"

definition add_row :: "('r \<Rightarrow> 'r) \<Rightarrow> 'r list \<Rightarrow> 'r list" where
  "add_row f rs = (if rs = [] then [] else rs @ [f (last rs)])"

definition btnAddGroupsRow :: "(jstr \<Rightarrow> jval) \<Rightarrow> data_form \<Rightarrow> data_form" where
  "btnAddGroupsRow F d = d\<lparr>tableGroups := add_row (next_group F) (tableGroups d)\<rparr>"

definition btnRemoveGroupsRow :: "data_form \<Rightarrow> data_form" where
  "btnRemoveGroupsRow d = d\<lparr>tableGroups := butlast (tableGroups d)\<rparr>"

definition btnAddDetailsRow :: "data_form \<Rightarrow> data_form" where
  "btnAddDetailsRow d = d\<lparr>tableDetails := add_row next_detail (tableDetails d)\<rparr>"

definition btnRemoveDetailsRow :: "data_form \<Rightarrow> data_form" where
  "btnRemoveDetailsRow d = d\<lparr>tableDetails := butlast (tableDetails d)\<rparr>"

section \<open>The configuration\<close>

record config_group =
  cg_GroupID :: jval
  cg_GroupName :: jstr
  cg_GroupScore :: jval
  cg_TestPoints :: "jval list"

record config_detail =
  cd_ID :: jval
  cd_Dependency :: jval
  cd_TimeLimit :: jval
  cd_MemoryLimit :: jval
  cd_DiskLimit :: jval
  cd_ValgrindTestOn :: bool

record config =
  cf_Groups :: "config_group list"
  cf_Details :: "config_detail list"
  cf_CompileTimeLimit :: jval
  cf_SPJ :: "(jstr \<times> jstr) list"
  cf_Scorer :: int

definition cell_text :: "jstr \<Rightarrow> jstr" where
  "cell_text s = replace_first ((js ''<br>'')) [] s"

definition cell_num :: "(jstr \<Rightarrow> jval) \<Rightarrow> jstr \<Rightarrow> jval" where
  "cell_num F s = js_number F (cell_text s)"

definition config_group_of :: "(jstr \<Rightarrow> jval) \<Rightarrow> group_row \<Rightarrow> config_group" where
  "config_group_of F r = \<lparr>cg_GroupID = cell_num F (gr_id r),
    cg_GroupName = cell_text (gr_name r),
     cg_GroupScore = cell_num F (gr_score r),
     cg_TestPoints = map (js_number F) (split_on 44 (cell_text (gr_points r)))\<rparr>"

definition config_detail_of :: "(jstr \<Rightarrow> jval) \<Rightarrow> detail_row \<Rightarrow> config_detail" where
  "config_detail_of F r = \<lparr>cd_ID = cell_num F (dr_id r),
    cd_Dependency = cell_num F (dr_dep r),
     cd_TimeLimit = cell_num F (dr_time r), cd_MemoryLimit = cell_num F (dr_memory r),
     cd_DiskLimit = cell_num F (dr_disk r), cd_ValgrindTestOn = dr_valgrind r\<rparr>"

definition generateConfig :: "(jstr \<Rightarrow> jval) \<Rightarrow> data_form \<Rightarrow> config" where
  "generateConfig F d = \<lparr>cf_Groups = map (config_group_of F) (tableGroups d),
     cf_Details = map (config_detail_of F) (tableDetails d),
     cf_CompileTimeLimit = js_number F (iptCompileTime d),
     cf_SPJ = [((js ''Compile''), iptCompileType d), ((js ''Run''), iptRunType d), ((js ''Check''),
       iptCheckType d)],
     cf_Scorer = 0\<rparr>"

definition group_json :: "config_group \<Rightarrow> jval" where
  "group_json g = JObj [((js ''GroupID''), cg_GroupID g), ((js ''GroupName''),
    JStr (cg_GroupName g)),
     ((js ''GroupScore''), cg_GroupScore g), ((js ''TestPoints''), JArr (cg_TestPoints g))]"

definition detail_json :: "config_detail \<Rightarrow> jval" where
  "detail_json c = JObj [((js ''ID''), cd_ID c), ((js ''Dependency''), cd_Dependency c),
     ((js ''TimeLimit''), cd_TimeLimit c), ((js ''MemoryLimit''), cd_MemoryLimit c),
     ((js ''DiskLimit''), cd_DiskLimit c), ((js ''ValgrindTestOn''), JBool (cd_ValgrindTestOn c))]"

definition config_json :: "config \<Rightarrow> jval" where
  "config_json c = JObj [((js ''Groups''), JArr (map group_json (cf_Groups c))),
     ((js ''Details''), JArr (map detail_json (cf_Details c))),
     ((js ''CompileTimeLimit''), cf_CompileTimeLimit c),
     ((js ''SPJ''), JObj (map (\<lambda>p. (fst p, JStr (snd p))) (cf_SPJ c))),
     ((js ''Scorer''), JNum (cf_Scorer c))]"

text \<open>The download: the file's name, its type and what is written to it.\<close>

definition download_config :: "(jstr \<Rightarrow> jval) \<Rightarrow> data_form \<Rightarrow> jstr \<times> jstr \<times> jval" where
  "download_config F d =
     (js ''config.json'', js ''application/json'', config_json (generateConfig F d))"

section \<open>The package\<close>

text \<open>
  The archive is a map from paths; writing a path that is there replaces it. A chosen file is
  its name and what identifies its content.
\<close>

datatype zip_item = UserFile nat | ConfigText jval

type_synonym archive = "jstr \<rightharpoonup> zip_item"

definition folder_path :: "jstr \<Rightarrow> jstr \<Rightarrow> jstr" where
  "folder_path pid name = pid @ [47] @ name"

definition put_file :: "jstr \<Rightarrow> jstr \<times> nat \<Rightarrow> archive \<Rightarrow> archive" where
  "put_file pid f z = z(folder_path pid (fst f) \<mapsto> UserFile (snd f))"

definition form_data_zip ::
  "(jstr \<Rightarrow> jval) \<Rightarrow> jstr \<Rightarrow> (jstr \<times> nat) list \<Rightarrow> (jstr \<times> nat) list \<Rightarrow> (jstr \<times> nat) list
     \<Rightarrow> data_form \<Rightarrow> archive"
where
  "form_data_zip F pid data md spj d =
     (let z1 = fold (put_file pid) data Map.empty;
          z2 = (case md of [] \<Rightarrow> z1 | f # _ \<Rightarrow> put_file pid f z1);
          z3 = fold (put_file pid) spj z2
      in z3(folder_path pid ((js ''config.json'')) \<mapsto> ConfigText (config_json (generateConfig F d))))"

section \<open>The form as a machine\<close>

datatype detail_column = CId | CDep | CTime | CMemory | CDisk

fun set_column :: "detail_column \<Rightarrow> jstr \<Rightarrow> detail_row \<Rightarrow> detail_row" where
  "set_column CId v r = r\<lparr>dr_id := v\<rparr>"
| "set_column CDep v r = r\<lparr>dr_dep := v\<rparr>"
| "set_column CTime v r = r\<lparr>dr_time := v\<rparr>"
| "set_column CMemory v r = r\<lparr>dr_memory := v\<rparr>"
| "set_column CDisk v r = r\<lparr>dr_disk := v\<rparr>"

text \<open>The three selectors and what they offer. The user can only pick what is offered.\<close>

definition type_options :: "jstr \<Rightarrow> jstr list" where
  "type_options key =
     (if key = js ''Compile'' then [js ''skip'', js ''classic'', js ''hpp'']
      else if key = js ''Run'' then [js ''skip'', js ''classic'', js ''verilog'', js ''interactive'']
      else if key = js ''Check'' then [js ''skip'', js ''compare'', js ''custom''] else [])"

definition select_type :: "jstr \<Rightarrow> jstr \<Rightarrow> data_form \<Rightarrow> data_form" where
  "select_type key v d =
     (if v \<notin> set (type_options key) then d
      else if key = js ''Compile'' then d\<lparr>iptCompileType := v\<rparr>
      else if key = js ''Run'' then d\<lparr>iptRunType := v\<rparr>
      else d\<lparr>iptCheckType := v\<rparr>)"

datatype form_op =
    AddGroup | RemoveGroup | AddDetail | RemoveDetail
  | EditDetail nat detail_column jstr
  | Valgrind nat bool
  | EditGroup nat group_row
  | SetCompileTime jstr
  | Select jstr jstr

fun form_step :: "(jstr \<Rightarrow> jval) \<Rightarrow> form_op \<Rightarrow> data_form \<Rightarrow> data_form" where
  "form_step F AddGroup d = btnAddGroupsRow F d"
| "form_step F RemoveGroup d = btnRemoveGroupsRow d"
| "form_step F AddDetail d = btnAddDetailsRow d"
| "form_step F RemoveDetail d = btnRemoveDetailsRow d"
| "form_step F (EditDetail i c v) d =
     d\<lparr>tableDetails := (tableDetails d)[i := set_column c v (tableDetails d ! i)]\<rparr>"
| "form_step F (Valgrind i b) d =
     d\<lparr>tableDetails := (tableDetails d)[i := (tableDetails d ! i)\<lparr>dr_valgrind := b\<rparr>]\<rparr>"
| "form_step F (EditGroup i r) d = d\<lparr>tableGroups := (tableGroups d)[i := r]\<rparr>"
| "form_step F (SetCompileTime v) d = d\<lparr>iptCompileTime := v\<rparr>"
| "form_step F (Select key v) d = select_type key v d"

definition form_init :: data_form where
  "form_init = \<lparr>tableGroups = [\<lparr>gr_id = (js ''1''), gr_name = (js ''1''),
    gr_score = (js ''10''), gr_points = (js ''1'')\<rparr>],
     tableDetails = [\<lparr>dr_id = (js ''1''), dr_dep = (js ''0''), dr_time = (js ''1000''),
       dr_memory = (js ''256000000''),
       dr_disk = (js ''0''), dr_valgrind = False\<rparr>],
     iptCompileTime = js ''30000'', iptCompileType = js ''classic'', iptRunType = js ''classic'',
     iptCheckType = js ''compare''\<rparr>"

section \<open>Well-formed tables\<close>

text \<open>The user leaves the columns with the numbers of test points to the buttons.\<close>

definition keeps_numbers :: "form_op \<Rightarrow> data_form \<Rightarrow> bool" where
  "keeps_numbers op d =
     (case op of EditDetail i c v \<Rightarrow> c \<noteq> CId \<and> c \<noteq> CDep | _ \<Rightarrow> True)"

text \<open>Row \<open>i\<close> counted from 0 has number \<open>i + 1\<close> and depends on no row or on an earlier one.\<close>

definition detail_ok :: "nat \<Rightarrow> detail_row \<Rightarrow> bool" where
  "detail_ok i r \<longleftrightarrow> dr_id r = nat_str (Suc i) \<and> (\<exists>k \<le> i. dr_dep r = nat_str k)"

definition details_ok :: "data_form \<Rightarrow> bool" where
  "details_ok d \<longleftrightarrow> (\<forall>i < length (tableDetails d). detail_ok i (tableDetails d ! i))"

lemma nat_str_small: "n < 10 \<Longrightarrow> nat_str n = [48 + n]"
  by (simp add: nat_str_def digits_rev.simps [of n])

lemma next_num_nat_str: "next_num (nat_str n) = nat_str (Suc n)"
  by (simp add: next_num_def html_num_def num_str_def nat_add_distrib add.commute)

lemma next_detail_ok:
  assumes "detail_ok i r"
  shows "detail_ok (Suc i) (next_detail r)"
proof -
  obtain k where k: "dr_dep r = nat_str k" "k \<le> i" and id: "dr_id r = nat_str (Suc i)"
    using assms by (auto simp: detail_ok_def)
  have "next_dep r = nat_str (Suc i) \<or> next_dep r = nat_str 0"
    by (simp add: next_dep_def k id nat_str_small [of 0])
  then show ?thesis by (auto simp: detail_ok_def next_detail_def id next_num_nat_str)
qed

lemma details_add: "details_ok d \<Longrightarrow> details_ok (btnAddDetailsRow d)"
proof -
  assume ok: "details_ok d"
  show ?thesis
  proof (cases "tableDetails d = []")
    case False
    let ?rs = "tableDetails d"
    have l: "?rs ! (length ?rs - 1) = last ?rs" using False by (simp add: last_conv_nth)
    have "detail_ok (length ?rs - 1) (last ?rs)"
      using ok False l unfolding details_ok_def by (metis diff_less length_greater_0_conv zero_less_one)
    then have "detail_ok (length ?rs) (next_detail (last ?rs))"
      using next_detail_ok False by (metis Suc_pred length_greater_0_conv One_nat_def)
    then show ?thesis
      using ok False by (auto simp: details_ok_def btnAddDetailsRow_def add_row_def nth_append less_Suc_eq)
  qed (simp add: details_ok_def btnAddDetailsRow_def add_row_def)
qed

lemma details_update:
  assumes "details_ok d" and "i < length (tableDetails d) \<Longrightarrow> detail_ok i r"
  shows "details_ok (d\<lparr>tableDetails := (tableDetails d)[i := r]\<rparr>)"
  unfolding details_ok_def
proof (intro allI impI)
  fix j assume "j < length (tableDetails (d\<lparr>tableDetails := (tableDetails d)[i := r]\<rparr>))"
  then show "detail_ok j (tableDetails (d\<lparr>tableDetails := (tableDetails d)[i := r]\<rparr>) ! j)"
    using assms by (cases "i = j") (simp_all add: details_ok_def)
qed

lemma details_step: "details_ok d \<Longrightarrow> keeps_numbers op d \<Longrightarrow> details_ok (form_step F op d)"
proof (cases op)
  case (EditDetail i c v)
  assume ok: "details_ok d" "keeps_numbers op d"
  then have "i < length (tableDetails d) \<Longrightarrow> detail_ok i (set_column c v (tableDetails d ! i))"
    by (cases c) (auto simp: EditDetail keeps_numbers_def details_ok_def detail_ok_def)
  then show ?thesis using details_update [OF ok(1)] by (simp add: EditDetail)
next
  case (Valgrind i b)
  assume ok: "details_ok d"
  then have "i < length (tableDetails d) \<Longrightarrow> detail_ok i ((tableDetails d ! i)\<lparr>dr_valgrind := b\<rparr>)"
    by (simp add: details_ok_def detail_ok_def)
  then show ?thesis using details_update [OF ok] by (simp add: Valgrind)
next
  case AddDetail
  assume "details_ok d"
  then show ?thesis by (simp add: AddDetail details_add)
qed (auto simp: btnAddGroupsRow_def btnRemoveGroupsRow_def btnRemoveDetailsRow_def
       details_ok_def nth_butlast select_type_def)

interpretation data_form: guarded_machine "form_step F" details_ok keeps_numbers for F
  by unfold_locales (rule details_step)

lemma form_init_ok: "details_ok form_init"
  by (simp add: details_ok_def form_init_def detail_ok_def nat_str_small)

section \<open>Properties\<close>

lemma replace_absent: "x \<notin> set s \<Longrightarrow> replace_first (x # p) r s = s"
  by (induction s) (auto simp: starts_with_def)

lemma cell_num_nat_str: "cell_num F (nat_str n) = JNum (int n)"
proof -
  have "60 \<notin> set (nat_str n)" using nat_str_digits [of n] by (auto simp: list_all_iff is_digit_def)
  then show ?thesis by (simp add: cell_num_def cell_text_def replace_absent)
qed

text \<open>
  The numbers of the test points stay those that the judge expects. Whatever rows the
  buttons add and remove and whatever the user types into the other cells, the generated
  configuration numbers its test points 1, 2, 3 and so on, and every test point depends on
  none or on an earlier one.
\<close>

lemma config_details_numbered:
  assumes "run_ok (form_step F) keeps_numbers ops form_init"
  shows "let ds = cf_Details (generateConfig F (fold (form_step F) ops form_init))
         in map cd_ID ds = map (\<lambda>i. JNum (int i + 1)) [0 ..< length ds]
          \<and> (\<forall>i < length ds. \<exists>k. cd_Dependency (ds ! i) = JNum k \<and> 0 \<le> k \<and> k < int i + 1)"
proof -
  let ?d = "fold (form_step F) ops form_init"
  have ok: "details_ok ?d" by (rule data_form.run_inv_ok [OF form_init_ok assms])
  have row: "cd_ID (config_detail_of F (tableDetails ?d ! i)) = JNum (int i + 1)
      \<and> (\<exists>k. cd_Dependency (config_detail_of F (tableDetails ?d ! i)) = JNum k \<and> 0 \<le> k \<and> k < int i + 1)"
    if "i < length (tableDetails ?d)" for i
  proof -
    have "detail_ok i (tableDetails ?d ! i)" using ok that by (simp add: details_ok_def)
    then obtain k where k: "k \<le> i" "dr_id (tableDetails ?d ! i) = nat_str (Suc i)"
      "dr_dep (tableDetails ?d ! i) = nat_str k" by (auto simp: detail_ok_def)
    then show ?thesis by (simp add: config_detail_of_def cell_num_nat_str)
  qed
  show ?thesis
    unfolding Let_def generateConfig_def
    by (intro conjI nth_equalityI allI impI) (use row in simp_all)
qed

lemma config_details_numbered_witness:
  "map cd_ID (cf_Details (generateConfig (\<lambda>_. JNull) (fold (form_step (\<lambda>_. JNull))
      [AddDetail, EditDetail 1 CTime ((js ''2000'')), AddDetail,
        RemoveDetail] form_init))) = [JNum 1, JNum 2]"
proof -
  let ?ops = "[AddDetail, EditDetail 1 CTime ((js ''2000'')), AddDetail, RemoveDetail]"
  have ok: "run_ok (form_step (\<lambda>_. JNull)) keeps_numbers ?ops form_init"
    by (simp add: keeps_numbers_def)
  have len: "length (cf_Details (generateConfig (\<lambda>_. JNull) (fold (form_step (\<lambda>_. JNull)) ?ops form_init))) = 2"
    by (simp add: generateConfig_def form_init_def btnAddDetailsRow_def btnRemoveDetailsRow_def add_row_def)
  show ?thesis
    using config_details_numbered [OF ok, unfolded Let_def, THEN conjunct1] unfolding len
    by (simp add: upt_rec)
qed

lemma folder_path_inj [simp]: "folder_path pid a = folder_path pid b \<longleftrightarrow> a = b"
  by (simp add: folder_path_def)

lemma fold_put: "fold (put_file pid) fs z (folder_path pid name)
    = (case map_of (rev (map (\<lambda>f. (fst f, UserFile (snd f))) fs)) name of
         None \<Rightarrow> z (folder_path pid name) | Some i \<Rightarrow> Some i)"
  by (induction fs arbitrary: z) (auto simp: put_file_def map_add_def split: option.split)

text \<open>
  The package holds the configuration of the tables, even if the user chose a file
  \<open>config.json\<close> of their own; and every chosen data file, the description and
  every checker file, of which the one written last counts if names agree.
\<close>

lemma package_holds_config:
  "form_data_zip F pid data md spj d (folder_path pid name)
     = (if name = (js ''config.json'') then Some (ConfigText (config_json (generateConfig F d)))
        else map_of (rev (map (\<lambda>f. (fst f, UserFile (snd f))) (data @ take 1 md
          @ spj))) name)"
  by (cases md)
     (simp_all add: form_data_zip_def fold_put put_file_def Let_def map_add_def
        split: option.split del: js_simps_list)

end
