(* ===== verification/AdminUpload.thy ===== *)
theory AdminUpload
  imports JSPrelude
begin

text \<open>
  Uploading a data package, checking an archive before it is uploaded, uploading a picture,
  and the answers of the judging forms (\<open>web/static/js/problem_admin.js\<close>:
  \<open>uploadData\<close> and the handlers of \<open>formDataZipUpload\<close>,
  \<open>formPicUpload\<close> and the forms of the tab for rejudging).

  What the network, the dialog and the archive reader answer is an input; the result lists
  requests and messages in order.
\<close>

datatype swal_kind = SwalError | SwalSuccess

section \<open>Data packages\<close>

datatype bar = BarAt nat nat | BarBusy

text \<open>
  The answers: to the request for the upload link, the progress events of the PUT, its final
  status (0 if the network fails, which is followed by an \<open>error\<close> event), and the
  answer of the update.
\<close>

record upload_world =
  uw_link :: "(int \<times> jstr) reply"
  uw_progress :: "(nat \<times> nat) list"
  uw_status :: int
  uw_event :: jstr \<comment> \<open>the event of a network failure, as text\<close>
  uw_plan :: "(int \<times> jstr) reply"

datatype upload_effect =
    GetLink
  | PutData jstr
  | PostPlan
  | Swal jstr jstr swal_kind
  | Unhandled jstr

definition unknown_error :: "jstr \<Rightarrow> upload_effect" where
  "unknown_error m = Swal ((js ''Error'')) (([0x672A, 0x77E5, 0x9519, 0x8BEF] @ js '': '')
    @ m) SwalError"

definition TOO_LARGE :: jstr where
  "TOO_LARGE = ([0x60A8, 0x9009, 0x62E9, 0x7684, 0x6570, 0x636E, 0x5305, 0x8FC7, 0x5927, 0x3002,
    0x4E00, 0x822C, 0x60C5, 0x51B5, 0x4E0B, 0xFF0C, 0x8BF7, 0x4E0D, 0x8981, 0x4F7F, 0x7528, 0x5927,
      0x6587, 0x4EF6, 0x6765, 0x5361] @ js '' log '' @ [0x7684, 0x590D, 0x6742, 0x5EA6, 0x3002,
        0x5982, 0x679C, 0x60A8, 0x786E, 0x5B9E, 0x9700, 0x8981, 0x4E0A, 0x4F20, 0x5982, 0x6B64,
          0x5927, 0x7684, 0x6570, 0x636E, 0x5305, 0xFF0C, 0x8BF7, 0x8054, 0x7CFB] @ js '' OJ ''
            @ [0x8FD0, 0x7EF4, 0x7EC4, 0x3002])"

definition plan_answered :: "(int \<times> jstr) reply \<Rightarrow> upload_effect list" where
  "plan_answered a =
     (case a of
        Rejects m \<Rightarrow> [Unhandled m]
      | Resolves (st, msg) \<Rightarrow>
          if st \<noteq> 200 then [unknown_error (num_str st)]
          else if msg \<noteq> (js ''ok'') then [Swal ((js ''Error'')) msg SwalError]
          else [Swal ((js ''Success'')) msg SwalSuccess])"

definition put_finished :: "upload_world \<Rightarrow> bar \<Rightarrow> upload_effect list \<times> bar" where
  "put_finished w b =
     (if uw_status w = 413 then ([Swal ((js ''Error'')) TOO_LARGE SwalError], b)
      else if uw_status w \<noteq> 200
      then (unknown_error (num_str (uw_status w))
              # (if uw_status w = 0 then [unknown_error (uw_event w)] else []), b)
      else (PostPlan # plan_answered (uw_plan w), BarAt 0 1))"

definition uploadData :: "upload_world \<Rightarrow> bar \<Rightarrow> upload_effect list \<times> bar" where
  "uploadData w b =
     (case uw_link w of
        Rejects m \<Rightarrow> ([GetLink, unknown_error m], b)
      | Resolves (st, body) \<Rightarrow>
          if st \<noteq> 200 then ([GetLink, Swal ((js ''Error'')) ([0x65E0, 0x6CD5, 0x83B7,
            0x53D6, 0x4E0A, 0x4F20, 0x94FE, 0x63A5]) SwalError], b)
          else (let b1 = fold (\<lambda>p _. BarAt (fst p) (snd p)) (uw_progress w) (BarAt 0 1)
                in case put_finished w b1 of
                     (es, b2) \<Rightarrow> (GetLink # PutData (js_trim body) # es, b2)))"

section \<open>Checking an archive\<close>

text \<open>The value of the warning dialog: closed (also by its timer), the link button,
  or confirmed.\<close>

datatype dialog_value = Dismissed | TestZip | Confirmed

datatype zip_effect = WarnZip jstr | OpenHelp | StartUpload | ZipUnhandled jstr

text \<open>
  What reading the archive gives: its entries, each the promise of its text. \<open>P\<close>
  is whether \<open>JSON.parse\<close> throws.
\<close>

type_synonym zip_reader = "(jstr \<Rightarrow> jstr reply option) reply"

definition ZIP_ADVICE :: jstr where
  "ZIP_ADVICE = (js ''<br> '' @ [0x65E0, 0x6CD5, 0x4ECE, 0x538B, 0x7F29, 0x5305, 0x4E2D, 0x63D0,
    0x53D6] @ js '' config.json'' @ [0xFF0C, 0x56E0, 0x6B64, 0x65E0, 0x6CD5, 0x66F4, 0x65B0,
      0x7F51, 0x9875, 0x4E0A, 0x7684, 0x65F6, 0x7A7A, 0x78C1, 0x76D8, 0x9650, 0x5236, 0xFF08,
        0x8FD0, 0x884C, 0x65F6, 0xFF09, 0x3002] @ js ''<br> '' @ [0x53C2, 0x8003, 0x4E0B, 0x65B9,
          0x94FE, 0x63A5, 0x6765, 0x6D4B, 0x8BD5, 0x538B, 0x7F29, 0x5305, 0x662F, 0x5426, 0x7B26,
            0x5408, 0x89C4, 0x8303, 0x3002] @ js ''<br> '' @ [0x6B64, 0x8B66, 0x544A, 0x4E0D,
              0x4F1A, 0x5F71, 0x54CD, 0x6570, 0x636E, 0x5305, 0x4E0A, 0x4F20, 0x4E0E, 0x8BC4,
                0x6D4B, 0x3002] @ js ''<br> '' @ [0x662F, 0x5426, 0x7EE7, 0x7EED, 0x4E0A, 0x4F20,
                  0xFF1F])"

definition zipError :: "jstr \<Rightarrow> dialog_value \<Rightarrow> zip_effect list" where
  "zipError m v = WarnZip (m @ ZIP_ADVICE)
     # (case v of TestZip \<Rightarrow> [OpenHelp] | Confirmed \<Rightarrow> [StartUpload] | Dismissed \<Rightarrow> [])"

definition config_path :: "jstr \<Rightarrow> jstr" where
  "config_path pid = pid @ (js ''/config.json'')"

definition formDataZipUpload ::
  "(jstr \<Rightarrow> unit reply) \<Rightarrow> jstr \<Rightarrow> zip_reader \<Rightarrow> dialog_value \<Rightarrow> zip_effect list"
where
  "formDataZipUpload P pid arch v =
     (case arch of
        Rejects m \<Rightarrow> zipError m v
      | Resolves entries \<Rightarrow>
          (case entries (config_path pid) of
             None \<Rightarrow> zipError (([0x5728] @ js '' zip '' @ [0x6587, 0x4EF6, 0x4E2D,
               0x6CA1, 0x6709, 0x627E, 0x5230, 32]) @ config_path pid @ [0xFF0C, 0x662F, 0x5426,
                 0x4F7F, 0x7528, 0x4E86, 0x9519, 0x8BEF, 0x7684, 0x9898, 0x53F7, 0x6216, 0x6570,
                   0x636E, 0x5305, 0xFF1F]) v
           | Some (Rejects m) \<Rightarrow> [ZipUnhandled m]
           | Some (Resolves config) \<Rightarrow>
               (case P config of
                  Rejects m \<Rightarrow> zipError (([0x65E0, 0x6CD5, 0x89E3, 0x6790]
                    @ js '' config.json: '') @ m) v
                | Resolves _ \<Rightarrow> [StartUpload])))"

section \<open>Pictures\<close>

record image =
  im_type :: jstr
  im_size :: nat

record pic_world =
  pw_link :: "(int \<times> jstr) reply"
  pw_put :: "int reply"
  pw_url :: "jstr \<Rightarrow> jstr reply" \<comment> \<open>\<open>new URL(url,
    location.href)\<close> without its query\<close>

datatype pic_effect =
    PostPic nat jstr
  | PutPic jstr jstr
  | PicShown jstr
  | PicError jstr

record pic_form =
  pf_disabled :: bool
  pf_cleared :: bool

definition pic_html :: "jstr \<Rightarrow> jstr" where
  "pic_html u = (js ''<img src='' @ [34]) @ u @ ([34] @ js '' style='' @ [34]
    @ js ''width: 100%'' @ [34, 62])"

definition pic_put :: "pic_world \<Rightarrow> jstr \<Rightarrow> jstr \<Rightarrow> pic_effect list" where
  "pic_put w typ url =
     PutPic url typ
       # (case pw_put w of
            Rejects m \<Rightarrow> [PicError m]
          | Resolves st \<Rightarrow>
              if st \<noteq> 200 then [PicError ((js ''Error: '' @ [0x7F51, 0x7EDC, 0x9519,
                0x8BEF] @ js '': '') @ num_str st)]
              else (case pw_url w url of Rejects m \<Rightarrow> [PicError m] | Resolves u \<Rightarrow> [PicShown u]))"

definition pic_upload :: "pic_world \<Rightarrow> image \<Rightarrow> pic_effect list" where
  "pic_upload w i =
     (if \<not> starts_with ((js ''image/'')) (im_type i) then [PicError ((js ''Error: ''
       @ [0x4E0D, 0x662F, 0x56FE, 0x7247]))]
      else if im_size i = 0 then [PicError ((js ''Error: '' @ [0x60A8, 0x6B63, 0x5728, 0x4E0A,
        0x4F20, 0x4E00, 0x4E2A, 0x7A7A, 0x6587, 0x4EF6]))]
      else PostPic (im_size i) (im_type i)
             # (case pw_link w of
                  Rejects m \<Rightarrow> [PicError m]
                | Resolves (st, body) \<Rightarrow>
                    if st = 413 then [PicError ((js ''Error: '' @ [0x6587, 0x4EF6, 0x8FC7,
                      0x5927]))]
                    else if st \<noteq> 200 then [PicError ((js ''Error: '' @ [0x65E0, 0x6CD5,
                      0x83B7, 0x53D6, 0x4E0A, 0x4F20, 0x94FE, 0x63A5]))]
                    else pic_put w (im_type i) (js_trim body)))"

definition formPicUpload :: "pic_world \<Rightarrow> image option \<Rightarrow> pic_form \<Rightarrow> pic_form \<times> pic_effect list" where
  "formPicUpload w img f =
     (let f1 = f\<lparr>pf_disabled := True\<rparr>
      in case img of
           None \<Rightarrow> (f1, [])
         | Some i \<Rightarrow> (f1\<lparr>pf_disabled := False, pf_cleared := True\<rparr>,
           pic_upload w i))"

section \<open>Judging\<close>

definition judge_answered :: "int \<Rightarrow> jstr \<Rightarrow> jstr \<times> jstr \<times> swal_kind" where
  "judge_answered e msg =
     (if e < 0 then ((js ''Error '') @ num_str e, msg, SwalError) else ((js ''Success''), msg,
       SwalSuccess))"

section \<open>Properties\<close>

definition messages_of :: "upload_effect list \<Rightarrow> upload_effect list" where
  "messages_of es = filter (\<lambda>e. case e of Swal _ _ _ \<Rightarrow> True | _ \<Rightarrow> False) es"

definition linked :: "upload_world \<Rightarrow> bool" where
  "linked w \<longleftrightarrow> (case uw_link w of Rejects _ \<Rightarrow> False | Resolves (st,
    _) \<Rightarrow> st = 200)"

definition plan_lost :: "upload_world \<Rightarrow> bool" where
  "plan_lost w \<longleftrightarrow> linked w \<and> uw_status w = 200 \<and> (case uw_plan w of Rejects _ \<Rightarrow> True | Resolves _ \<Rightarrow> False)"

text \<open>
  Success is announced exactly if the link, the upload and the update succeeded; and
  every attempt ends in one message, except that a network failure during the upload is
  reported twice and a network failure of the update that follows a complete upload is not
  reported at all.
\<close>

lemma upload_announcements:
  "(Swal ((js ''Success'')) ((js ''ok'')) SwalSuccess \<in> set (fst (uploadData w b))
      \<longleftrightarrow> linked w \<and> uw_status w = 200 \<and> uw_plan w = Resolves (200,
        (js ''ok'')))
   \<and> length (messages_of (fst (uploadData w b)))
       = (if plan_lost w then 0 else if linked w \<and> uw_status w = 0 then 2 else 1)"
  by (auto simp: uploadData_def put_finished_def plan_answered_def linked_def plan_lost_def
      unknown_error_def messages_of_def Let_def split: reply.split simp del: js_simps_list)

text \<open>The archive has a configuration under the problem's number that parses.\<close>

definition conforming :: "(jstr \<Rightarrow> unit reply) \<Rightarrow> jstr \<Rightarrow> zip_reader \<Rightarrow> bool" where
  "conforming P pid arch \<longleftrightarrow> (\<exists>entries config. arch = Resolves entries
     \<and> entries (config_path pid) = Some (Resolves config) \<and> P config = Resolves ())"

definition unreadable_config :: "jstr \<Rightarrow> zip_reader \<Rightarrow> bool" where
  "unreadable_config pid arch \<longleftrightarrow> (\<exists>entries m. arch = Resolves entries
     \<and> entries (config_path pid) = Some (Rejects m))"

text \<open>
  An archive is uploaded exactly if its configuration is found and parses, or if the user
  confirms the warning about it; an archive whose configuration is there but cannot be
  unpacked is neither uploaded nor warned about.
\<close>

lemma zip_upload_confirmed:
  "(StartUpload \<in> set (formDataZipUpload P pid arch v)
      \<longleftrightarrow> conforming P pid arch \<or> (\<not> unreadable_config pid arch \<and> v = Confirmed))
   \<and> ((\<exists>m. WarnZip m \<in> set (formDataZipUpload P pid arch v))
      \<longleftrightarrow> \<not> conforming P pid arch \<and> \<not> unreadable_config pid arch)"
  by (auto simp: formDataZipUpload_def zipError_def conforming_def unreadable_config_def
      split: reply.split option.split dialog_value.split simp del: js_simps_list)

text \<open>
  With a file chosen, the handler always enables the upload button again and ends by showing
  the picture's address or one error, and asks the server only for pictures that are not
  empty; without a file it leaves the button disabled for good.
\<close>

lemma pic_button_recovers:
  "pf_disabled (fst (formPicUpload w img f)) = (img = None)
   \<and> length (filter (\<lambda>e. case e of PicShown _ \<Rightarrow> True | PicError _ \<Rightarrow> True | _ \<Rightarrow> False)
        (snd (formPicUpload w img f))) = (if img = None then 0 else 1)
   \<and> ((\<exists>n t. PostPic n t \<in> set (snd (formPicUpload w img f)))
        \<longleftrightarrow> (\<exists>i. img = Some i \<and> starts_with ((js ''image/'')) (im_type i) \<and> im_size i \<noteq> 0))"
  by (cases img)
     (auto simp: formPicUpload_def pic_upload_def pic_put_def Let_def split: reply.split
        simp del: js_simps_list)

end
