(* ===== verification/DescForm.thy ===== *)
theory DescForm
  imports MdImport
begin

text \<open>
  The description form of the problem editor (\<open>web/static/js/problem_admin.js\<close>:
  the editors, the object \<open>Examples\<close>, \<open>reloadDescription\<close> and the
  handler of \<open>form-description\<close>): the containers of the examples with their
  identifiers, saving and reloading.

  The editor of an example's description is created 100 ms after its container; until then the
  container holds the text for it, and reading it gives the empty text. What the server
  answers is an input; a save and its answers are separate steps, so that everything the user
  does in between is a run.
\<close>

section \<open>State\<close>

record ex_box =
  bx_id :: nat
  bx_name :: jstr
  bx_input :: jstr
  bx_output :: jstr
  bx_description :: jstr
  bx_ready :: bool

record desc_page =
  dp_fields :: "jstr \<Rightarrow> jstr"
  dp_boxes :: "ex_box list"
  nextExample :: nat

text \<open>The body of a save,
  and the description the server answers with (null is \<open>None\<close>).\<close>

record saved_desc =
  sv_fields :: "(jstr \<times> jstr) list"
  sv_examples :: "example list"

record server_desc =
  sd_text :: "jstr \<Rightarrow> jstr option"
  sd_examples :: "example list option"

datatype desc_effect =
    Save saved_desc
  | Saved
  | SaveFailed int
  | SaveUnhandled jstr
  | ReloadFailed

section \<open>Examples\<close>

definition clear_examples :: "desc_page \<Rightarrow> desc_page" where
  "clear_examples p = p\<lparr>dp_boxes := []\<rparr>"

definition box_of :: "nat \<Rightarrow> example \<Rightarrow> ex_box" where
  "box_of i x = \<lparr>bx_id = i, bx_name = field_text (x_name x),
    bx_input = field_text (x_input x),
     bx_output = field_text (x_output x), bx_description = field_text (x_description x),
       bx_ready = False\<rparr>"

definition add_box :: "example \<Rightarrow> desc_page \<Rightarrow> desc_page" where
  "add_box x p = p\<lparr>dp_boxes := dp_boxes p @ [box_of (nextExample p) x],
                   nextExample := nextExample p + 1\<rparr>"

definition editor_ready :: "nat \<Rightarrow> desc_page \<Rightarrow> desc_page" where
  "editor_ready i p = p\<lparr>dp_boxes := map (\<lambda>b. if bx_id b = i then b\<lparr>bx_ready := True\<rparr> else b) (dp_boxes p)\<rparr>"

definition delete_box :: "bool \<Rightarrow> nat \<Rightarrow> desc_page \<Rightarrow> desc_page" where
  "delete_box confirmed i p =
     (if confirmed then p\<lparr>dp_boxes := filter (\<lambda>b. bx_id b \<noteq> i) (dp_boxes p)\<rparr> else p)"

definition value_or_null :: "jstr \<Rightarrow> jstr option option" where
  "value_or_null s = Some (if s = [] then None else Some s)"

text \<open>The text of a description editor, empty while there is no editor.\<close>

definition editor_text :: "ex_box \<Rightarrow> jstr" where
  "editor_text b = (if bx_ready b then bx_description b else [])"

definition exportOne :: "ex_box \<Rightarrow> example" where
  "exportOne b = \<lparr>x_name = value_or_null (bx_name b), x_input = value_or_null (bx_input b),
     x_output = value_or_null (bx_output b), x_description = value_or_null (editor_text b),
       x_null = False\<rparr>"

definition export_all :: "desc_page \<Rightarrow> example list" where
  "export_all p = map exportOne (dp_boxes p)"

definition numbered_name :: "nat \<Rightarrow> jstr" where
  "numbered_name n = [0x6837, 0x4F8B, 32] @ nat_str n"

definition only_named :: "jstr \<Rightarrow> example" where
  "only_named n = \<lparr>x_name = Some (Some n), x_input = None, x_output = None,
    x_description = None, x_null = False\<rparr>"

definition examples_add :: "desc_page \<Rightarrow> desc_page" where
  "examples_add p =
     (let p1 = (case dp_boxes p of
                  [b] \<Rightarrow> if bx_name b = [] then p\<lparr>dp_boxes := [b\<lparr>bx_name := numbered_name 1\<rparr>]\<rparr> else p
                | _ \<Rightarrow> p)
      in add_box (only_named (if dp_boxes p1 = [] then [] else numbered_name (length (dp_boxes p1) + 1))) p1)"

section \<open>Reloading and saving\<close>

text \<open>\<open>names\<close> are the names of the form's editors. A null list of examples throws.\<close>

definition load_fields :: "jstr list \<Rightarrow> (jstr \<Rightarrow> jstr option) \<Rightarrow> desc_page \<Rightarrow> desc_page" where
  "load_fields names t p = p\<lparr>dp_fields := (\<lambda>n. if n \<in> set names
     then (case t n of None \<Rightarrow> [] | Some s \<Rightarrow> s) else dp_fields p n)\<rparr>"

definition reloadDescription ::
  "jstr list \<Rightarrow> server_desc reply \<Rightarrow> desc_page \<Rightarrow> desc_page \<times> desc_effect list"
where
  "reloadDescription names ans p =
     (case ans of
        Rejects _ \<Rightarrow> (p, [ReloadFailed])
      | Resolves d \<Rightarrow>
          (let p1 = clear_examples (load_fields names (sd_text d) p)
           in case sd_examples d of
                None \<Rightarrow> (p1, [ReloadFailed])
              | Some xs \<Rightarrow> (fold add_box xs p1, [])))"

definition submit_description :: "jstr list \<Rightarrow> desc_page \<Rightarrow> desc_page \<times> desc_effect list" where
  "submit_description names p =
     (clear_examples p,
      [Save \<lparr>sv_fields = map (\<lambda>n. (n, dp_fields p n)) names,
        sv_examples = export_all p\<rparr>])"

text \<open>The answer to a save: a response, good or bad, is followed by a reload.\<close>

definition save_answered :: "int reply \<Rightarrow> desc_effect list" where
  "save_answered a =
     (case a of
        Rejects m \<Rightarrow> [SaveUnhandled m]
      | Resolves st \<Rightarrow> if http_ok st then [Saved] else [SaveFailed st])"

section \<open>Importing into the page\<close>

fun field_key :: "md_field \<Rightarrow> jstr" where
  "field_key Description = (js ''description'')"
| "field_key InputFormat = (js ''input'')"
| "field_key OutputFormat = (js ''output'')"
| "field_key Examples = (js ''examples'')"
| "field_key DataRange = (js ''data_range'')"

definition set_text :: "(md_field \<Rightarrow> jstr option) \<Rightarrow> md_field \<Rightarrow> desc_page \<Rightarrow> desc_page" where
  "set_text r f p = p\<lparr>dp_fields := (dp_fields p)(field_key f := (case r f of None \<Rightarrow> [] | Some t \<Rightarrow> t))\<rparr>"

definition import_page :: "jstr \<Rightarrow> jstr \<Rightarrow> desc_page \<Rightarrow> message list \<times> desc_page" where
  "import_page title md p =
     (case parse_md title md of (ms, r, xs) \<Rightarrow>
        (ms, if has_severity Error ms then p
             else fold (\<lambda>f. if f = Examples then (\<lambda>q. fold add_box xs (clear_examples q)) else set_text r f)
                    all_fields p))"

section \<open>The page as a machine\<close>

datatype desc_op =
    EditField jstr jstr
  | EditBox nat form_example
  | EditorReady nat
  | AddExample
  | DeleteExample nat bool
  | Import jstr jstr
  | Submit
  | SaveAnswered "int reply" "server_desc reply"
  | Reload "server_desc reply"

definition edit_box :: "form_example \<Rightarrow> ex_box \<Rightarrow> ex_box" where
  "edit_box x b = b\<lparr>bx_name := f_name x, bx_input := f_input x, bx_output := f_output x,
     bx_description := (if bx_ready b then f_description x else bx_description b)\<rparr>"

fun desc_step :: "jstr list \<Rightarrow> desc_op \<Rightarrow> desc_page \<Rightarrow> desc_page \<times> desc_effect list" where
  "desc_step names (EditField n v) p = (p\<lparr>dp_fields := (dp_fields p)(n := v)\<rparr>, [])"
| "desc_step names (EditBox i x) p =
     (p\<lparr>dp_boxes := map (\<lambda>b. if bx_id b = i then edit_box x b else b) (dp_boxes p)\<rparr>, [])"
| "desc_step names (EditorReady i) p = (editor_ready i p, [])"
| "desc_step names AddExample p = (examples_add p, [])"
| "desc_step names (DeleteExample i c) p = (delete_box c i p, [])"
| "desc_step names (Import title md) p = (snd (import_page title md p), [])"
| "desc_step names Submit p = submit_description names p"
| "desc_step names (SaveAnswered a d) p =
     (case a of
        Rejects _ \<Rightarrow> (p, save_answered a)
      | Resolves _ \<Rightarrow> (case reloadDescription names d p of (q, es) \<Rightarrow> (q,
        save_answered a @ es)))"
| "desc_step names (Reload d) p = reloadDescription names d p"

definition desc_next :: "jstr list \<Rightarrow> desc_op \<Rightarrow> desc_page \<Rightarrow> desc_page" where
  "desc_next names op p = fst (desc_step names op p)"

definition desc_out :: "jstr list \<Rightarrow> desc_op \<Rightarrow> desc_page \<Rightarrow> desc_effect list" where
  "desc_out names op p = snd (desc_step names op p)"

section \<open>Containers\<close>

text \<open>Identifiers grow from container to container and are below the next one.\<close>

definition boxes_ok :: "desc_page \<Rightarrow> bool" where
  "boxes_ok p \<longleftrightarrow> sorted_wrt (<) (map bx_id (dp_boxes p)) \<and> (\<forall>b \<in> set (dp_boxes p). bx_id b < nextExample p)"

lemma boxes_ok_ids:
  "map bx_id (dp_boxes p) = map bx_id (dp_boxes q) \<Longrightarrow> nextExample p = nextExample q \<Longrightarrow>
     boxes_ok p = boxes_ok q"
proof -
  assume *: "map bx_id (dp_boxes p) = map bx_id (dp_boxes q)" "nextExample p = nextExample q"
  have "boxes_ok r \<longleftrightarrow> sorted_wrt (<) (map bx_id (dp_boxes r))
      \<and> (\<forall>i \<in> set (map bx_id (dp_boxes r)). i < nextExample r)" for r
    by (simp add: boxes_ok_def)
  then show ?thesis using * by presburger
qed

lemma boxes_ok_add: "boxes_ok p \<Longrightarrow> boxes_ok (add_box x p)"
  by (auto simp: boxes_ok_def add_box_def box_of_def sorted_wrt_append less_Suc_eq)

lemma boxes_ok_clear [simp]: "boxes_ok (clear_examples p)"
  by (simp add: boxes_ok_def clear_examples_def)

lemma boxes_ok_fold: "boxes_ok p \<Longrightarrow> boxes_ok (fold add_box xs p)"
  by (induction xs arbitrary: p) (auto intro: boxes_ok_add)

lemma boxes_ok_text [simp]: "boxes_ok (set_text r f p) = boxes_ok p" "boxes_ok (load_fields ns t p) = boxes_ok p"
  by (simp_all add: boxes_ok_def set_text_def load_fields_def)

lemma boxes_ok_add_button: "boxes_ok p \<Longrightarrow> boxes_ok (examples_add p)"
proof -
  assume ok: "boxes_ok p"
  let ?p1 = "case dp_boxes p of
      [b] \<Rightarrow> if bx_name b = [] then p\<lparr>dp_boxes := [b\<lparr>bx_name := numbered_name 1\<rparr>]\<rparr> else p | _ \<Rightarrow> p"
  have "boxes_ok ?p1"
    using ok by (auto simp: boxes_ok_def split: list.split)
  then show ?thesis unfolding examples_add_def Let_def by (rule boxes_ok_add)
qed

lemma boxes_ok_import: "boxes_ok p \<Longrightarrow> boxes_ok (snd (import_page title md p))"
  by (simp add: import_page_def all_fields_def descriptionFields_def boxes_ok_fold split: prod.split)

lemma boxes_ok_reload: "boxes_ok p \<Longrightarrow> boxes_ok (fst (reloadDescription ns d p))"
  by (simp add: reloadDescription_def Let_def boxes_ok_fold split: reply.split option.split)

lemma map_ids: "(\<And>b. bx_id (f b) = bx_id b) \<Longrightarrow> map bx_id (map f bs) = map bx_id bs"
  by simp

lemma sorted_filter: "sorted_wrt (<) (map g xs) \<Longrightarrow> sorted_wrt (<) (map g (filter P xs))"
  by (induction xs) auto

lemma boxes_ok_step: "boxes_ok p \<Longrightarrow> boxes_ok (desc_next ns op p)"
proof (cases op)
  case (SaveAnswered a d)
  assume "boxes_ok p"
  then show ?thesis using boxes_ok_reload [of p ns d]
    by (simp add: desc_next_def SaveAnswered split_beta split: reply.split)
next
  case (EditBox i x)
  assume "boxes_ok p"
  then show ?thesis
    by (subst boxes_ok_ids [of _ p]) (auto simp: desc_next_def EditBox edit_box_def)
next
  case (EditorReady i)
  assume "boxes_ok p"
  then show ?thesis
    by (subst boxes_ok_ids [of _ p]) (auto simp: desc_next_def EditorReady editor_ready_def)
next
  case (DeleteExample i c)
  assume "boxes_ok p"
  then show ?thesis
    by (auto simp: desc_next_def DeleteExample delete_box_def boxes_ok_def intro: sorted_filter)
qed (auto simp: desc_next_def boxes_ok_add_button boxes_ok_import boxes_ok_reload submit_description_def
       boxes_ok_def [of "p\<lparr>dp_fields := _\<rparr>"] boxes_ok_def [of p])

interpretation desc: inv_machine "desc_next ns" boxes_ok for ns
  by unfold_locales (rule boxes_ok_step)

section \<open>What the user sees\<close>

definition content_of :: "ex_box \<Rightarrow> form_example" where
  "content_of b = \<lparr>f_name = bx_name b, f_input = bx_input b, f_output = bx_output b,
     f_description = bx_description b\<rparr>"

definition form_of :: "desc_page \<Rightarrow> desc_form" where
  "form_of p = \<lparr>df_text = (\<lambda>f. if f = Examples then [] else dp_fields p (field_key f)),
     df_examples = map content_of (dp_boxes p)\<rparr>"

definition all_ready :: "desc_page \<Rightarrow> bool" where
  "all_ready p \<longleftrightarrow> list_all bx_ready (dp_boxes p)"

text \<open>Every timer has fired.\<close>

definition timers_fire :: "desc_page \<Rightarrow> desc_page" where
  "timers_fire p = fold editor_ready (map bx_id (dp_boxes p)) p"

lemma content_box [simp]: "content_of (box_of i x) = add_example x"
  by (simp add: content_of_def box_of_def add_example_def)

lemma fold_add_box:
  "map content_of (dp_boxes (fold add_box xs p)) = map content_of (dp_boxes p) @ map add_example xs
   \<and> dp_fields (fold add_box xs p) = dp_fields p"
  by (induction xs arbitrary: p) (simp_all add: add_box_def)

lemma fold_ready:
  "dp_fields (fold editor_ready ks p) = dp_fields p
   \<and> dp_boxes (fold editor_ready ks p)
       = map (\<lambda>b. b\<lparr>bx_ready := bx_ready b \<or> bx_id b \<in> set ks\<rparr>) (dp_boxes p)"
proof (induction ks arbitrary: p)
  case Nil
  then show ?case by (simp add: map_idI)
next
  case (Cons k ks)
  then show ?case by (simp add: editor_ready_def)
qed

lemma timers_ready: "all_ready (timers_fire p)"
  unfolding timers_fire_def all_ready_def fold_ready [THEN conjunct2]
  by (simp add: list_all_iff)

lemma timers_content:
  "map content_of (dp_boxes (timers_fire p)) = map content_of (dp_boxes p)"
  "dp_fields (timers_fire p) = dp_fields p"
  by (simp_all add: timers_fire_def fold_ready content_of_def)

lemma field_text_value [simp]: "field_text (value_or_null s) = s"
  by (simp add: field_text_def value_or_null_def)

lemma export_content: "bx_ready b \<Longrightarrow> add_example (exportOne b) = content_of b"
  by (simp add: add_example_def exportOne_def content_of_def editor_text_def)

lemma all_md_field: "(\<forall>f. P f) \<longleftrightarrow> P Description \<and> P InputFormat \<and> P OutputFormat \<and> P Examples \<and> P DataRange"
  by (metis md_field.exhaust)

section \<open>Properties\<close>

text \<open>
  Importing a Markdown file into the page does what importing does to the form: the
  messages are the same, and once every editor has been created the page shows the form that
  the import of the form gives, whatever the page held before.
\<close>

lemma import_page_refines:
  "fst (import_page title md p) = fst (importFromMarkdown title md (form_of p))
   \<and> form_of (timers_fire (snd (import_page title md p)))
       = snd (importFromMarkdown title md (form_of p))"
proof -
  obtain ms r xs where m: "parse_md title md = (ms, r, xs)" by (metis prod_cases3)
  have t: "form_of (timers_fire q) = form_of q" for q
    by (simp add: form_of_def timers_content cong: if_cong)
  show ?thesis
  proof (cases "has_severity Error ms")
    case False
    then show ?thesis
      by (simp add: t) (auto simp: import_page_def importFromMarkdown_def m import_form_def form_of_def
          all_fields_def descriptionFields_def set_text_def clear_examples_def fold_add_box
          fun_eq_iff all_md_field)
  qed (simp add: t import_page_def importFromMarkdown_def m)
qed

text \<open>
  The server (\<open>web/web.py\<close>, \<open>problem_description\<close>) stores the texts
  of a save, with no text for an empty one and for the text \<open>None\<close>, and answers
  with what it stored.
\<close>

definition store_text :: "jstr \<Rightarrow> jstr option" where
  "store_text t = (if t = (js ''None'') \<or> t = [] then None else Some t)"

definition store_description :: "saved_desc \<Rightarrow> server_desc" where
  "store_description d = \<lparr>sd_text = (\<lambda>n. Option.bind (map_of (sv_fields d) n) store_text),
     sd_examples = Some (sv_examples d)\<rparr>"

definition saved_of :: "jstr list \<Rightarrow> desc_page \<Rightarrow> saved_desc" where
  "saved_of names p = \<lparr>sv_fields = map (\<lambda>n. (n, dp_fields p n)) names,
    sv_examples = export_all p\<rparr>"

text \<open>
  C39: saving loses nothing. If every editor has been created and no text is the word
  \<open>None\<close>, then after a save that the server accepts and the reload that follows
  it, the form shows the same texts and the same examples in the same order as before.
\<close>

theorem save_reload_roundtrip:
  assumes "all_ready p" and "(js ''None'') \<notin> dp_fields p ` set names"
    and "http_ok st"
  shows "let q = timers_fire (fold (desc_next names)
                   [Submit,
                     SaveAnswered (Resolves st) (Resolves (store_description (saved_of names p)))] p)
         in dp_fields q = dp_fields p \<and> map content_of (dp_boxes q) = map content_of (dp_boxes p)
          \<and> all_ready q"
proof -
  let ?d = "store_description (saved_of names p)"
  have x: "map add_example (export_all p) = map content_of (dp_boxes p)"
    using assms(1) export_content by (simp add: export_all_def all_ready_def list_all_iff)
  have t: "(case sd_text ?d n of None \<Rightarrow> [] | Some s \<Rightarrow> s) = dp_fields p n" if "n \<in> set names" for n
  proof -
    have "dp_fields p n \<noteq> (js ''None'')" using that assms(2) by (metis imageI)
    with that show ?thesis by (auto simp: store_description_def saved_of_def map_of_map_restrict store_text_def simp del: js_simps_list)
  qed
  have e: "sd_examples ?d = Some (export_all p)" by (simp add: store_description_def saved_of_def)
  let ?p1 = "clear_examples (load_fields names (sd_text ?d) (clear_examples p))"
  have "dp_fields ?p1 = dp_fields p" and "dp_boxes ?p1 = []"
    using t by (auto simp: clear_examples_def load_fields_def fun_eq_iff)
  moreover have "fold (desc_next names) [Submit, SaveAnswered (Resolves st) (Resolves ?d)] p
      = fold add_box (export_all p) ?p1"
    by (simp add: desc_next_def submit_description_def reloadDescription_def e Let_def)
  ultimately show ?thesis
    by (simp only: Let_def timers_content timers_ready fold_add_box x) simp
qed

definition demo_desc :: desc_page where
  "demo_desc = \<lparr>dp_fields = (\<lambda>_. (js ''two numbers'')),
    dp_boxes = [\<lparr>bx_id = 0, bx_name = [],
     bx_input = (js ''1 2''), bx_output = (js ''3''), bx_description = (js ''sum''),
       bx_ready = True\<rparr>], nextExample = 1\<rparr>"

theorem save_reload_roundtrip_witness:
  "map content_of (dp_boxes (timers_fire (fold (desc_next [(js ''input'')]) [Submit,
    SaveAnswered (Resolves 204)
       (Resolves (store_description (saved_of [(js ''input'')] demo_desc)))] demo_desc)))
     = [\<lparr>f_name = [], f_input = (js ''1 2''), f_output = (js ''3''),
       f_description = (js ''sum'')\<rparr>]"
proof -
  have "all_ready demo_desc" "(js ''None'') \<notin> dp_fields demo_desc ` set [(js ''input'')]" "http_ok 204"
    by (simp_all add: all_ready_def demo_desc_def http_ok_def)
  from save_reload_roundtrip [OF this] show ?thesis
    unfolding Let_def by (simp only:) (simp add: demo_desc_def content_of_def)
qed

text \<open>
  The form is emptied before the save has succeeded. Whatever the page holds, pressing
  save twice before the reload, or again after a save that the network lost, sends a body
  without any example, which replaces the stored examples.
\<close>

lemma second_save_drops_examples:
  "released (desc_next names) (desc_out names) [Submit, Submit] p
     = [Save (saved_of names p), Save ((saved_of names p)\<lparr>sv_examples := []\<rparr>)]
   \<and> released (desc_next names) (desc_out names) [Submit, SaveAnswered (Rejects m) d, Submit] p
     = [Save (saved_of names p), SaveUnhandled m,
       Save ((saved_of names p)\<lparr>sv_examples := []\<rparr>)]"
  by (simp add: desc_next_def desc_out_def submit_description_def clear_examples_def export_all_def
      saved_of_def save_answered_def)

text \<open>
  A failed save that gets an answer is followed by a reload, so the form shows what the server
  holds and the edits are gone. Deleting an example and adding one gives two examples one
  name.
\<close>

lemma failed_save_discards:
  assumes "sd_examples d = Some xs" and "n \<in> set names"
  shows "dp_fields (fold (desc_next names) [Submit, SaveAnswered (Resolves 500) (Resolves d)] p) n
     = (case sd_text d n of None \<Rightarrow> [] | Some s \<Rightarrow> s)"
  using assms by (simp add: desc_next_def submit_description_def reloadDescription_def clear_examples_def
      load_fields_def Let_def fold_add_box)

lemma numbered_name_ne [simp]: "numbered_name n \<noteq> []"
  by (simp add: numbered_name_def)

lemma added_names_repeat:
  "map bx_name (dp_boxes (fold (desc_next names) [AddExample, AddExample, AddExample,
       DeleteExample 0 True, AddExample] \<lparr>dp_fields = t, dp_boxes = [],
         nextExample = 0\<rparr>))
     = [numbered_name 2, numbered_name 3, numbered_name 3]"
  by (simp add: desc_next_def examples_add_def add_box_def box_of_def only_named_def field_text_def
      delete_box_def numeral_2_eq_2 numeral_3_eq_3)

end
