(* ===== verification/ProctorLive.thy ===== *)
theory ProctorLive
  imports ProctorSession
begin

text \<open>
  What the proctoring page does beside recording (\<open>web/static/js/proctor.js\<close>,
  from the snapshot loop to \<open>publishToLiveKit\<close>): snapshots, the environment
  report, the signaling of a live view over WebRTC, and publishing to the LiveKit room.

  \<open>handleAdminSignal\<close> is asynchronous and messages are not queued, so handlers
  interleave. Each \<open>await\<close> is a task of the state; a step resumes one of them,
  with its promise resolved or rejected by the browser. Connections are numbered in the order
  of their creation.
\<close>

section \<open>Snapshots\<close>

definition SNAPSHOT_MAX_WIDTH :: nat where "SNAPSHOT_MAX_WIDTH = 1280"

text \<open>\<open>Math.round(x * Math.min(1, 1280 / w))\<close>, computed exactly.\<close>

definition scale_dim :: "nat \<Rightarrow> nat \<Rightarrow> nat" where
  "scale_dim w x = (if w \<le> SNAPSHOT_MAX_WIDTH then x else (2 * x * SNAPSHOT_MAX_WIDTH + w) div (2 * w))"

datatype frame = NoCapture nat nat | Bitmap nat nat

text \<open>
  \<open>grabFrame\<close> gives a bitmap or throws; then the frame is that of a video
  element, whose width is 0 if it has none. The last argument is whether an image file could
  be made. The result is the size of the posted image.
\<close>

definition snapshot_size :: "frame \<Rightarrow> (nat \<times> nat) option" where
  "snapshot_size f =
     (case f of
        NoCapture w h \<Rightarrow> if w = 0 then None else Some (scale_dim w w, scale_dim w h)
      | Bitmap w h \<Rightarrow> Some (scale_dim w w, scale_dim w h))"

definition first_video :: "media_stream \<Rightarrow> (jstr \<times> bool) option" where
  "first_video st = find (\<lambda>t. fst t = (js ''video'')) (ms_tracks st)"

definition snapshotStream :: "media_stream option \<Rightarrow> frame \<Rightarrow> bool \<Rightarrow> (nat \<times> nat) option" where
  "snapshotStream st f blob =
     (case st of
        None \<Rightarrow> None
      | Some m \<Rightarrow> (case first_video m of
                    Some (_, True) \<Rightarrow> if blob then snapshot_size f else None
                  | _ \<Rightarrow> None))"

definition snapshot_target :: "jstr option \<Rightarrow> jstr \<Rightarrow> jstr" where
  "snapshot_target url kind = url_text url @ (js ''?kind='') @ kind"

text \<open>One tick of the loop: the screen first, then the camera.\<close>

definition snapshot_tick ::
  "jstr option \<Rightarrow> (jstr \<Rightarrow> frame) \<Rightarrow> (jstr \<Rightarrow> bool) \<Rightarrow> session \<Rightarrow> (jstr \<times> nat \<times> nat) list"
where
  "snapshot_tick url F B s =
     concat (map (\<lambda>(k, st). case snapshotStream st (F k) (B k) of
                              None \<Rightarrow> [] | Some d \<Rightarrow> [(snapshot_target url k,
                                d)])
               [((js ''screen''), screenStream s), ((js ''camera''), cameraStream s)])"

lemma scale_dim_bound: "scale_dim w w \<le> SNAPSHOT_MAX_WIDTH"
  by (cases "w \<le> SNAPSHOT_MAX_WIDTH") (simp_all add: scale_dim_def SNAPSHOT_MAX_WIDTH_def div_mult_self1)

section \<open>Environment report\<close>

text \<open>
  The properties of the browser's objects, the answer about further screens (absent if the
  browser or the permission is missing, or on an error), and what a track says of itself.
\<close>

record env_info =
  ei_navigator :: "jstr \<Rightarrow> jval"
  ei_screen :: "jstr \<Rightarrow> jval"
  ei_window :: "jstr \<Rightarrow> jval"
  ei_tz :: jval
  ei_screens :: "(jstr \<Rightarrow> jval) list option"
  ei_track :: "nat \<Rightarrow> nat \<Rightarrow> jval \<times> jval"

definition screen_json :: "(jstr \<Rightarrow> jval) \<Rightarrow> jval" where
  "screen_json d = JObj [((js ''w''), d (js ''width'')), ((js ''h''), d (js ''height'')),
    ((js ''primary''), d (js ''isPrimary'')),
     ((js ''internal''), d (js ''isInternal'')), ((js ''label''), d (js ''label''))]"

definition media_json :: "env_info \<Rightarrow> jstr \<times> media_stream option \<Rightarrow> jval list" where
  "media_json e p =
     (case snd p of
        None \<Rightarrow> []
      | Some st \<Rightarrow> map (\<lambda>(i, t). JObj [((js ''kind''), JStr (fst p)),
        ((js ''track''), JStr (fst t)),
                            ((js ''label''), fst (ei_track e (ms_id st) i)),
                            ((js ''settings''), snd (ei_track e (ms_id st) i))])
                     (enumerate 0 (ms_tracks st)))"

definition environment_json :: "env_info \<Rightarrow> session \<Rightarrow> jval" where
  "environment_json e s = JObj
     ([((js ''navigator''), JObj [((js ''userAgent''), ei_navigator e (js ''userAgent'')),
         ((js ''platform''), ei_navigator e (js ''platform'')), ((js ''languages''),
           ei_navigator e (js ''languages'')),
         ((js ''hardwareConcurrency''), ei_navigator e (js ''hardwareConcurrency'')),
         ((js ''deviceMemory''), jor (ei_navigator e (js ''deviceMemory'')) JNull)]),
       ((js ''screen''), JObj [((js ''w''), ei_screen e (js ''width'')), ((js ''h''),
         ei_screen e (js ''height'')),
         ((js ''avail_w''), ei_screen e (js ''availWidth'')), ((js ''avail_h''),
           ei_screen e (js ''availHeight'')),
         ((js ''color_depth''), ei_screen e (js ''colorDepth'')), ((js ''dpr''),
           ei_window e (js ''devicePixelRatio'')),
         ((js ''is_extended''), jor (ei_screen e (js ''isExtended'')) (JBool False))]),
       ((js ''window''), JObj [((js ''inner_w''), ei_window e (js ''innerWidth'')),
         ((js ''inner_h''), ei_window e (js ''innerHeight'')),
         ((js ''outer_w''), ei_window e (js ''outerWidth'')), ((js ''outer_h''),
           ei_window e (js ''outerHeight''))]),
       ((js ''tz''), ei_tz e)]
      @ (case ei_screens e of None \<Rightarrow> [] | Some ds \<Rightarrow> [((js ''screens''),
        JArr (map screen_json ds))])
      @ [((js ''media''), JArr (concat (map (media_json e)
            [((js ''camera''), cameraStream s), ((js ''screen''), screenStream s)])))])"

definition captureEnvironmentFingerprint :: "env_info \<Rightarrow> session \<Rightarrow> page_effect" where
  "captureEnvironmentFingerprint e s = Report ((js ''environment_info'')) SevInfo (environment_json e s)"

section \<open>Live view\<close>

text \<open>An answer to an offer names the connection that made it and the offer.\<close>

type_synonym sdp_answer = "nat \<times> jval"

record peer =
  pr_tracks :: "(nat \<times> jstr) list"
  pr_closed :: bool
  pr_remote :: jval
  pr_local :: "sdp_answer option"

datatype signal =
    IceSig jval
  | TracksInfo "(nat \<times> jstr) list"
  | ReadySig
  | SdpSig "sdp_answer option"

text \<open>
  Where a suspended handler goes on: after \<open>tracks_info\<close> was sent, after the
  remote description of a connection was set, its answer made, and its local description set.
\<close>

datatype live_task = TTracks | TRemote nat jval | TAnswer nat | TLocal nat sdp_answer

record live =
  lv_peers :: "peer list"
  livePeer :: "nat option"
  lv_tasks :: "live_task list"
  lv_sent :: "(signal \<times> nat option) list" \<comment> \<open>each with the connection current at the time\<close>
  lv_open :: bool

definition sendSignal :: "signal \<Rightarrow> live \<Rightarrow> live" where
  "sendSignal m s = s\<lparr>lv_sent := lv_sent s @ [(m, livePeer s)]\<rparr>"

definition set_peer :: "nat \<Rightarrow> (peer \<Rightarrow> peer) \<Rightarrow> live \<Rightarrow> live" where
  "set_peer i f s = s\<lparr>lv_peers := (lv_peers s)[i := f (lv_peers s ! i)]\<rparr>"

definition teardownLivePeer :: "live \<Rightarrow> live" where
  "teardownLivePeer s =
     (case livePeer s of
        None \<Rightarrow> s
      | Some i \<Rightarrow> (set_peer i (\<lambda>p. p\<lparr>pr_closed := True\<rparr>) s)\<lparr>livePeer := None\<rparr>)"

definition add_task :: "live_task \<Rightarrow> live \<Rightarrow> live" where
  "add_task t s = s\<lparr>lv_tasks := lv_tasks s @ [t]\<rparr>"

definition stream_tracks :: "media_stream option \<Rightarrow> (nat \<times> jstr) list" where
  "stream_tracks st = (case st of None \<Rightarrow> [] | Some m \<Rightarrow> map (\<lambda>t. (ms_id m, fst t)) (ms_tracks m))"

definition stream_map :: "session \<Rightarrow> (nat \<times> jstr) list" where
  "stream_map z =
     (case cameraStream z of None \<Rightarrow> [] | Some m \<Rightarrow> [(ms_id m,
       (js ''camera''))])
     @ (case screenStream z of None \<Rightarrow> [] | Some m \<Rightarrow> [(ms_id m,
       (js ''screen''))])"

definition request_view :: "session \<Rightarrow> live \<Rightarrow> live" where
  "request_view z s =
     (let s1 = teardownLivePeer s;
          s2 = s1\<lparr>livePeer := Some (length (lv_peers s1)),
                  lv_peers := lv_peers s1 @
                    [\<lparr>pr_tracks = stream_tracks (cameraStream z)
                      @ stream_tracks (screenStream z),
                      pr_closed = False, pr_remote = JNull, pr_local = None\<rparr>]\<rparr>
      in add_task TTracks (sendSignal (TracksInfo (stream_map z)) s2))"

definition handleAdminSignal :: "session \<Rightarrow> jval \<Rightarrow> live \<Rightarrow> live" where
  "handleAdminSignal z d s =
     (if jget (js ''kind'') d = JStr (js ''request_view'') then request_view z s
      else if jget (js ''kind'') d = JStr (js ''sdp'') \<and> truthy (jget (js ''sdp'') d)
      then (case livePeer s of None \<Rightarrow> s | Some i \<Rightarrow> add_task (TRemote i (jget (js ''sdp'') d)) s)
      else if jget (js ''kind'') d = JStr (js ''ice'') \<and> truthy (jget (js ''candidate'') d) then s
      else if jget (js ''kind'') d = JStr (js ''end_view'') then teardownLivePeer s
      else s)"

text \<open>A message of the channel; \<open>None\<close> is one that does not parse.\<close>

definition on_channel_message :: "session \<Rightarrow> jval option \<Rightarrow> live \<Rightarrow> live" where
  "on_channel_message z m s =
     (case m of
        None \<Rightarrow> s
      | Some v \<Rightarrow> if jget (js ''from'') v = JStr (js ''student'') then s
                  else if \<not> truthy (jget (js ''data'') v) then s
                  else handleAdminSignal z (jget (js ''data'') v) s)"

definition is_offer :: "jval \<Rightarrow> bool" where
  "is_offer sdp \<longleftrightarrow> jget (js ''type'') sdp = JStr (js ''offer'')"

definition resume_task :: "live_task \<Rightarrow> bool \<Rightarrow> live \<Rightarrow> live" where
  "resume_task t ok s =
     (case t of
        TTracks \<Rightarrow> sendSignal ReadySig s
      | TRemote i sdp \<Rightarrow>
          if \<not> ok then s
          else (let s1 = set_peer i (\<lambda>p. p\<lparr>pr_remote := sdp\<rparr>) s
                in if \<not> is_offer sdp then s1
                   else (case livePeer s1 of None \<Rightarrow> s1 | Some j \<Rightarrow> add_task (TAnswer j) s1))
      | TAnswer i \<Rightarrow>
          if \<not> ok then s
          else (case livePeer s of
                  None \<Rightarrow> s
                | Some j \<Rightarrow> add_task (TLocal j (i, pr_remote (lv_peers s ! i))) s)
      | TLocal i a \<Rightarrow>
          if \<not> ok then s
          else (let s1 = set_peer i (\<lambda>p. p\<lparr>pr_local := Some a\<rparr>) s
                in case livePeer s1 of
                     None \<Rightarrow> s1
                   | Some j \<Rightarrow> sendSignal (SdpSig (pr_local (lv_peers s1 ! j))) s1))"

text \<open>Events of the browser: messages, resumed handlers,
  a candidate and a new connection state.\<close>

datatype live_op =
    OpenChannel
  | Message "jval option"
  | Resume nat bool
  | Candidate jval
  | ConnState jstr

definition openSignalingChannel :: "live \<Rightarrow> live" where
  "openSignalingChannel s = (if lv_open s then s else s\<lparr>lv_open := True\<rparr>)"

definition on_state_change :: "jstr \<Rightarrow> live \<Rightarrow> live" where
  "on_state_change st s =
     (if st = (js ''failed'') \<or> st = (js ''closed'') \<or> st = (js ''disconnected'') then teardownLivePeer s else s)"

fun live_step :: "session \<Rightarrow> live_op \<Rightarrow> live \<Rightarrow> live" where
  "live_step z OpenChannel s = openSignalingChannel s"
| "live_step z (Message m) s = (if lv_open s then on_channel_message z m s else s)"
| "live_step z (Resume k ok) s =
     (if k < length (lv_tasks s)
      then resume_task (lv_tasks s ! k) ok
             (s\<lparr>lv_tasks := take k (lv_tasks s) @ drop (Suc k) (lv_tasks s)\<rparr>)
      else s)"
| "live_step z (Candidate c) s =
     (if livePeer s \<noteq> None \<and> truthy c then sendSignal (IceSig c) s else s)"
| "live_step z (ConnState st) s = (if livePeer s \<noteq> None then on_state_change st s else s)"

definition live_init :: live where
  "live_init = \<lparr>lv_peers = [], livePeer = None, lv_tasks = [], lv_sent = [],
    lv_open = False\<rparr>"

text \<open>
  What WebRTC promises: \<open>setLocalDescription\<close> rejects an answer that another
  connection made.
\<close>

definition own_answers :: "live_op \<Rightarrow> live \<Rightarrow> bool" where
  "own_answers op s = (case op of
     Resume k ok \<Rightarrow> (if k < length (lv_tasks s)
       then (case lv_tasks s ! k of TLocal i a \<Rightarrow> \<not> ok \<or> fst a = i | _ \<Rightarrow> True) else True)
   | _ \<Rightarrow> True)"

section \<open>Invariant of the live view\<close>

definition own_local :: "nat \<Rightarrow> peer \<Rightarrow> bool" where
  "own_local i p = (\<forall>a. pr_local p = Some a \<longrightarrow> fst a = i)"

definition sent_ok :: "signal \<times> nat option \<Rightarrow> bool" where
  "sent_ok m = (\<forall>a. fst m = SdpSig (Some a) \<longrightarrow> snd m = Some (fst a))"

definition live_inv :: "live \<Rightarrow> bool" where
  "live_inv s \<longleftrightarrow> (\<forall>i < length (lv_peers s). pr_closed (lv_peers s ! i) = (livePeer s \<noteq> Some i)
        \<and> own_local i (lv_peers s ! i))
     \<and> (\<forall>i. livePeer s = Some i \<longrightarrow> i < length (lv_peers s))
     \<and> list_all sent_ok (lv_sent s)"

lemma inv_sent:
  assumes "live_inv s" and "\<And>a. m = SdpSig (Some a) \<Longrightarrow> livePeer s = Some (fst a)"
  shows "live_inv (sendSignal m s)"
  using assms by (auto simp: live_inv_def sendSignal_def sent_ok_def)

lemma inv_tasks [simp]: "live_inv (s\<lparr>lv_tasks := ts\<rparr>) = live_inv s" "live_inv (add_task t s) = live_inv s"
  by (simp_all add: live_inv_def add_task_def)

lemma inv_set_peer:
  assumes "live_inv s" and "\<And>p. pr_closed (f p) = pr_closed p"
    and "\<And>p. own_local i p \<Longrightarrow> own_local i (f p)"
  shows "live_inv (set_peer i f s)"
proof -
  have "pr_closed ((lv_peers s)[i := f (lv_peers s ! i)] ! j) = (livePeer s \<noteq> Some j)
      \<and> own_local j ((lv_peers s)[i := f (lv_peers s ! i)] ! j)" if "j < length (lv_peers s)" for j
    using assms that by (cases "i = j") (auto simp: live_inv_def)
  then show ?thesis using assms(1) by (simp add: live_inv_def set_peer_def)
qed

lemma inv_teardown: "live_inv s \<Longrightarrow> live_inv (teardownLivePeer s)"
  by (auto simp: teardownLivePeer_def live_inv_def set_peer_def nth_list_update own_local_def
      split: option.splits)

lemma teardown_none: "livePeer (teardownLivePeer s) = None"
  by (simp add: teardownLivePeer_def split: option.split)

lemma inv_new_peer:
  assumes "live_inv s" "livePeer s = None"
  shows "live_inv (s\<lparr>livePeer := Some (length (lv_peers s)), lv_peers := lv_peers s @
    [\<lparr>pr_tracks = ts, pr_closed = False, pr_remote = JNull,
      pr_local = None\<rparr>]\<rparr>)"
  using assms by (auto simp: live_inv_def nth_append less_Suc_eq own_local_def)

lemma inv_request: "live_inv s \<Longrightarrow> live_inv (request_view z s)"
  unfolding request_view_def Let_def inv_tasks
  by (rule inv_sent, rule inv_new_peer [OF inv_teardown teardown_none]) simp_all

lemma inv_message: "live_inv s \<Longrightarrow> live_inv (on_channel_message z m s)"
  by (simp add: on_channel_message_def handleAdminSignal_def inv_request inv_teardown
      split: option.split del: js_simps_list)

lemma inv_local:
  assumes "live_inv s" "livePeer s = Some j" "pr_local (lv_peers s ! j) = Some a"
  shows "fst a = j"
proof -
  have "own_local j (lv_peers s ! j)" using assms(1,2) by (simp add: live_inv_def)
  then show ?thesis using assms(3) by (simp only: own_local_def)
qed

lemma set_peer_live [simp]: "livePeer (set_peer i f s) = livePeer s"
  by (simp add: set_peer_def)

lemma inv_resume:
  assumes s: "live_inv s" and own: "case t of TLocal i a \<Rightarrow> \<not> ok \<or> fst a = i | _ \<Rightarrow> True"
  shows "live_inv (resume_task t ok s)"
proof (cases t)
  case TTracks
  then show ?thesis using inv_sent [OF s, of ReadySig] by (simp add: resume_task_def)
next
  case (TRemote i sdp)
  have "live_inv (set_peer i (\<lambda>p. p\<lparr>pr_remote := sdp\<rparr>) s)" by (rule inv_set_peer [OF s]) (auto simp: own_local_def)
  then show ?thesis using s TRemote by (simp add: resume_task_def Let_def split: option.split)
next
  case (TAnswer i)
  then show ?thesis using s by (simp add: resume_task_def split: option.split)
next
  case (TLocal i a)
  show ?thesis
  proof (cases ok)
    case True
    then have "fst a = i" using own TLocal by simp
    then have i: "live_inv (set_peer i (\<lambda>p. p\<lparr>pr_local := Some a\<rparr>) s)" by (intro inv_set_peer [OF s]) (auto simp: own_local_def)
    show ?thesis
    proof (cases "livePeer s")
      case (Some j)
      then have "live_inv (sendSignal (SdpSig (pr_local (lv_peers (set_peer i (\<lambda>p. p\<lparr>pr_local := Some a\<rparr>) s) ! j)))
          (set_peer i (\<lambda>p. p\<lparr>pr_local := Some a\<rparr>) s))"
        using inv_local [OF i] by (intro inv_sent [OF i]) simp
      then show ?thesis using True TLocal Some by (simp add: resume_task_def Let_def)
    qed (use True TLocal i in \<open>simp add: resume_task_def\<close>)
  qed (use s TLocal in \<open>simp add: resume_task_def\<close>)
qed

lemma live_step_inv: "live_inv s \<Longrightarrow> own_answers op s \<Longrightarrow> live_inv (live_step z op s)"
proof (cases op)
  case (Resume k ok)
  assume "live_inv s" "own_answers op s"
  then show ?thesis using inv_resume
    by (auto simp: Resume own_answers_def)
next
  case (Candidate c)
  assume "live_inv s"
  then show ?thesis using inv_sent [of s "IceSig c"] by (simp add: Candidate)
qed (auto simp: inv_message inv_teardown openSignalingChannel_def on_state_change_def
       live_inv_def [of "s\<lparr>lv_open := True\<rparr>"] live_inv_def [of s])

interpretation live: guarded_machine "live_step z" live_inv own_answers for z
  by unfold_locales (rule live_step_inv)

lemma live_init_inv: "live_inv live_init"
  by (simp add: live_inv_def live_init_def)

lemma filter_upt_eq: "j < n \<Longrightarrow> filter (\<lambda>i. j = i) [0 ..< n] = [j]"
  by (induction n) (auto simp: less_Suc_eq filter_empty_conv)

section \<open>Properties of the live view\<close>

text \<open>
  However messages, resumed handlers, candidates and state changes interleave, at most
  one connection to a viewer is open, and it is the current one; and every SDP answer that is
  sent was made by the connection that was current when it was sent, so a viewer never gets
  the answer of a connection that a later request replaced.
\<close>

lemma live_view_single:
  assumes "run_ok (live_step z) own_answers ops live_init"
  shows "let s = fold (live_step z) ops live_init
         in filter (\<lambda>i. \<not> pr_closed (lv_peers s ! i)) [0 ..< length (lv_peers s)]
              = (case livePeer s of None \<Rightarrow> [] | Some i \<Rightarrow> [i])
          \<and> list_all (\<lambda>m. case m of (SdpSig (Some a),
            cur) \<Rightarrow> cur = Some (fst a) | _ \<Rightarrow> True) (lv_sent s)"
proof -
  let ?s = "fold (live_step z) ops live_init"
  have inv: "live_inv ?s" by (rule live.run_inv_ok [OF live_init_inv assms])
  have "filter (\<lambda>i. \<not> pr_closed (lv_peers ?s ! i)) [0 ..< length (lv_peers ?s)]
      = filter (\<lambda>i. livePeer ?s = Some i) [0 ..< length (lv_peers ?s)]"
    using inv by (intro filter_cong) (auto simp: live_inv_def)
  also have "\<dots> = (case livePeer ?s of None \<Rightarrow> [] | Some i \<Rightarrow> [i])"
    using inv filter_upt_eq by (auto simp: live_inv_def split: option.split)
  finally show ?thesis
    using inv by (auto simp: live_inv_def sent_ok_def Let_def list_all_iff split: signal.split option.split)
qed

definition admin_says :: "(jstr \<times> jval) list \<Rightarrow> live_op" where
  "admin_says kvs = Message (Some (JObj [((js ''from''), JStr (js ''admin'')), ((js ''data''),
    JObj kvs)]))"

definition view_request :: live_op where
  "view_request = admin_says [((js ''kind''), JStr (js ''request_view''))]"

definition offer :: jval where
  "offer = JObj [((js ''type''), JStr (js ''offer''))]"

definition view_offer :: live_op where
  "view_offer = admin_says [((js ''kind''), JStr (js ''sdp'')), ((js ''sdp''), offer)]"

lemma view_request_step: "live_step z view_request s = (if lv_open s then request_view z s else s)"
  by (simp add: view_request_def admin_says_def on_channel_message_def handleAdminSignal_def)

lemma view_offer_step: "live_step z view_offer s
    = (if lv_open s then (case livePeer s of None \<Rightarrow> s | Some i \<Rightarrow> add_task (TRemote i offer) s) else s)"
  by (simp add: view_offer_def admin_says_def on_channel_message_def handleAdminSignal_def offer_def
      split: option.split)

lemma is_offer_offer [simp]: "is_offer offer"
  by (simp add: is_offer_def offer_def)

lemmas live_sims = view_request_step view_offer_step live_init_def openSignalingChannel_def
  request_view_def teardownLivePeer_def sendSignal_def add_task_def resume_task_def set_peer_def Let_def

text \<open>
  An answer is sent for an offer; but if the viewer asks again while the local description is
  being set, the handler reads the description of the new connection and sends a signal
  without any.
\<close>

lemma answer_sent:
  "map fst (lv_sent (fold (live_step z) [OpenChannel, view_request, view_offer, Resume 0 True,
       Resume 0 True, Resume 0 True, Resume 0 True] live_init))
     = [TracksInfo (stream_map z), ReadySig, SdpSig (Some (0, offer))]"
  by (simp add: live_sims)

lemma stale_answer_is_null:
  "last (map fst (lv_sent (fold (live_step z) [OpenChannel, view_request, view_offer, Resume 0 True,
       Resume 0 True, Resume 0 True, view_request, Resume 0 True] live_init)))
     = SdpSig None"
  by (simp add: live_sims)

lemma live_view_single_witness:
  "filter (\<lambda>i. \<not> pr_closed (lv_peers (fold (live_step fresh_session) [OpenChannel, view_request,
    view_request] live_init) ! i))
     [0 ..< length (lv_peers (fold (live_step fresh_session) [OpenChannel, view_request,
       view_request] live_init))] = [1]"
proof -
  have ok: "run_ok (live_step fresh_session) own_answers [OpenChannel, view_request, view_request] live_init"
    by (simp add: own_answers_def view_request_def admin_says_def del: live_step.simps)
  have cur: "livePeer (fold (live_step fresh_session) [OpenChannel, view_request,
    view_request] live_init) = Some 1"
    by (simp add: live_sims)
  show ?thesis using live_view_single [OF ok] unfolding Let_def cur by simp
qed

section \<open>LiveKit\<close>

text \<open>
  A call of \<open>publishToLiveKit\<close> is one step: whether the script loads, the
  server's token answer (with the optional address), the connection and the publications are
  inputs. \<open>lk_loaded\<close> is the kept promise: not made, resolved, or rejected with a
  message.
\<close>

record lk_world =
  lw_script :: bool
  lw_token :: "(int \<times> (jstr \<times> jstr option) reply) reply"
  lw_connect :: "unit reply"
  lw_publish :: "unit reply"

record livekit =
  lk_window :: bool
  lk_loaded :: "unit reply option"
  lkRoom :: "nat option"
  lk_rooms :: nat

datatype lk_effect =
    LoadScript
  | AskToken jstr
  | LeaveRoom nat
  | JoinRoom nat jstr jstr
  | PublishTrack nat nat jstr jstr
  | Warn jstr

definition loadLiveKitClient :: "lk_world \<Rightarrow> livekit \<Rightarrow> unit reply \<times> livekit \<times> lk_effect list" where
  "loadLiveKitClient w s =
     (if lk_window s then (Resolves (), s, [])
      else (case lk_loaded s of
              Some r \<Rightarrow> (r, s, [])
            | None \<Rightarrow>
                let r = (if lw_script w then Resolves ()
                         else Rejects ((js ''livekit-client CDN load failed'')))
                in (r, s\<lparr>lk_loaded := Some r, lk_window := lw_script w\<rparr>,
                  [LoadScript])))"

definition livekit_warning :: "jstr \<Rightarrow> lk_effect" where
  "livekit_warning m = Warn ((js ''livekit publish failed: '') @ m)"

text \<open>The source with which a track of a stream is published.\<close>

definition publications :: "nat \<Rightarrow> session \<Rightarrow> lk_effect list" where
  "publications room z =
     map (\<lambda>t. PublishTrack room (fst t) (snd t) (if snd t = (js ''video'') then (js ''camera'') else (js ''microphone'')))
       (stream_tracks (cameraStream z))
     @ map (\<lambda>t. PublishTrack room (fst t) (snd t) ((js ''screen_share''))) (stream_tracks (screenStream z))"

definition join_room :: "lk_world \<Rightarrow> session \<Rightarrow> jstr \<Rightarrow> jstr \<Rightarrow> livekit \<Rightarrow> livekit \<times> lk_effect list" where
  "join_room w z url tok s =
     (let leave = (case lkRoom s of None \<Rightarrow> [] | Some r \<Rightarrow> [LeaveRoom r]);
          r = lk_rooms s;
          s1 = s\<lparr>lkRoom := Some r, lk_rooms := r + 1\<rparr>
      in case lw_connect w of
           Rejects m \<Rightarrow> (s1, leave @ [JoinRoom r url tok, livekit_warning m])
         | Resolves _ \<Rightarrow>
             (s1, leave @ JoinRoom r url tok # publications r z
                    @ (case lw_publish w of Rejects m \<Rightarrow> [livekit_warning m] | Resolves _ \<Rightarrow> [])))"

definition publishToLiveKit ::
  "jstr option \<Rightarrow> jstr option \<Rightarrow> session \<Rightarrow> lk_world \<Rightarrow> livekit \<Rightarrow> livekit \<times> lk_effect list"
where
  "publishToLiveKit base tokenUrl z w s =
     (case (base, tokenUrl) of
        (Some b, Some u) \<Rightarrow>
          (case loadLiveKitClient w s of
             (Rejects m, s1, es) \<Rightarrow> (s1, es @ [livekit_warning m])
           | (Resolves _, s1, es) \<Rightarrow>
               (case lw_token w of
                  Rejects m \<Rightarrow> (s1, es @ [AskToken u, livekit_warning m])
                | Resolves (st, body) \<Rightarrow>
                    if \<not> http_ok st
                    then (s1, es @ [AskToken u, livekit_warning ((js ''token http '')
                      @ num_str st)])
                    else (case body of
                            Rejects m \<Rightarrow> (s1, es @ [AskToken u, livekit_warning m])
                          | Resolves (tok, addr) \<Rightarrow>
                              (case join_room w z (case addr of Some a \<Rightarrow> if a = [] then b else a | None \<Rightarrow> b)
                                      tok s1 of
                                 (s2, fs) \<Rightarrow> (s2, es @ AskToken u # fs)))))
      | _ \<Rightarrow> (s, []))"

definition livekit_init :: livekit where
  "livekit_init = \<lparr>lk_window = False, lk_loaded = None, lkRoom = None, lk_rooms = 0\<rparr>"

fun publish_all ::
  "jstr option \<Rightarrow> jstr option \<Rightarrow> session \<Rightarrow> lk_world list \<Rightarrow> livekit \<Rightarrow> lk_effect list"
where
  "publish_all b u z [] s = []"
| "publish_all b u z (w # ws) s =
     (case publishToLiveKit b u z w s of (s1, es) \<Rightarrow> es @ publish_all b u z ws s1)"

lemma publish_stuck:
  assumes "\<not> lk_window s" "lk_loaded s = Some (Rejects m)"
  shows "publish_all (Some b) (Some u) z ws s = map (\<lambda>_. livekit_warning m) ws"
  using assms by (induction ws) (simp_all add: publishToLiveKit_def loadLiveKitClient_def)

text \<open>
  One failure to load the LiveKit client is final. If the script does not load the first
  time, no later attempt to publish loads it again, whatever the network does by then: each
  only reports the failure of the first as one more warning, and the student is never seen
  live.
\<close>

lemma livekit_load_failure_final:
  "publish_all (Some b) (Some u) z (w\<lparr>lw_script := False\<rparr> # ws) livekit_init
     = LoadScript # map (\<lambda>_. livekit_warning ((js ''livekit-client CDN load failed''))) (w # ws)"
  by (simp add: publishToLiveKit_def loadLiveKitClient_def livekit_init_def Let_def publish_stuck
      del: js_simps_list)

text \<open>Two rooms are never joined at once: a new one is joined after the old one was left.\<close>

definition joined :: "lk_effect list \<Rightarrow> nat list \<Rightarrow> nat list" where
  "joined es rs = fold (\<lambda>e rs. case e of LeaveRoom r \<Rightarrow> removeAll r rs | JoinRoom r _ _ \<Rightarrow> rs @ [r] | _ \<Rightarrow> rs) es rs"

lemma joined_append: "joined (es @ fs) rs = joined fs (joined es rs)"
  by (simp add: joined_def)

lemma joined_publications [simp]: "joined (publications r z) rs = rs"
proof -
  have "joined (map (\<lambda>t. PublishTrack r (fst t) (snd t) (g t)) ts) rs = rs" for g and ts :: "(nat \<times> jstr) list"
    by (induction ts) (simp_all add: joined_def)
  then show ?thesis by (simp add: publications_def joined_append)
qed

lemma joined_simps [simp]:
  "joined [] rs = rs" "joined (LoadScript # es) rs = joined es rs"
  "joined (AskToken u # es) rs = joined es rs" "joined (livekit_warning m # es) rs = joined es rs"
  "joined (LeaveRoom r # es) rs = joined es (removeAll r rs)"
  "joined (JoinRoom r u t # es) rs = joined es (rs @ [r])"
  by (simp_all add: joined_def livekit_warning_def)

definition room_list :: "livekit \<Rightarrow> nat list" where
  "room_list s = (case lkRoom s of None \<Rightarrow> [] | Some r \<Rightarrow> [r])"

lemma load_room: "loadLiveKitClient w s = (r, s1,
  es) \<Longrightarrow> lkRoom s1 = lkRoom s \<and> joined es rs = rs"
  by (auto simp: loadLiveKitClient_def Let_def split: if_splits option.splits)

lemma join_room_list:
  "joined (snd (join_room w z url tok s)) (room_list s) = room_list (fst (join_room w z url tok s))"
  by (simp add: join_room_def room_list_def Let_def joined_append split: reply.split option.split)

lemma publish_room_list:
  "joined (snd (publishToLiveKit b u z w s)) (room_list s) = room_list (fst (publishToLiveKit b u z w s))"
proof -
  obtain r s1 es where l: "loadLiveKitClient w s = (r, s1, es)" by (metis prod_cases3)
  have "room_list s1 = room_list s" "joined es (room_list s) = room_list s"
    using load_room [OF l] by (simp_all add: room_list_def)
  then show ?thesis
    using join_room_list [of w z _ _ s1]
    by (auto simp: publishToLiveKit_def l joined_append split_beta split: option.split reply.split)
qed

end
