(* ===== verification/Pages.thy ===== *)
theory Pages
  imports Attachments JSNumbers
begin

text \<open>
  The scripts of the smaller pages: the roster of a course (\<open>course_admin.js\<close>),
  the switches of a contest's type (\<open>contest_admin.js\<close>), submitting code
  (\<open>problem_submit.js\<close>), the request headers and the page width
  (\<open>base.js\<close>), attachment links in rendered Markdown (\<open>render.js\<close>),
  the judging buttons (\<open>admin.js\<close>) and the loading label of the IDE
  (\<open>problem_ide.js\<close>).

  Regular expressions are written out as scanners.
\<close>

section \<open>Rosters\<close>

text \<open>
  Decoding a file: UTF-8, then GB 18030, each \<open>None\<close> if the bytes are not valid;
  and the text without carriage returns. \<open>Inr\<close> is the new content of the input,
  \<open>Inl\<close> a message.
\<close>

definition import_csv :: "jstr option \<Rightarrow> jstr option \<Rightarrow> jstr + jstr" where
  "import_csv utf8 gb =
     (case utf8 of
        Some t \<Rightarrow> Inr (filter (\<lambda>c. c \<noteq> 13) t)
      | None \<Rightarrow> (case gb of
                  Some t \<Rightarrow> Inr (filter (\<lambda>c. c \<noteq> 13) t)
                | None \<Rightarrow> Inl (([0x65E0, 0x6CD5, 0x89E3, 0x7801, 0x6240, 0x9009, 0x7684,
                  0x6587, 0x4EF6, 0xFF0C, 0x8BF7, 0x68C0, 0x67E5, 0x6587, 0x4EF6, 0x4F7F, 0x7528,
                    0x7684, 0x7F16, 0x7801, 0x683C, 0x5F0F] @ js '' ('' @ [0x63A8, 0x8350, 0x4F7F,
                      0x7528] @ js '' UTF-8 '' @ [0x7F16, 0x7801, 41, 0x3002]))))"

definition isIntegral :: "jstr \<Rightarrow> bool" where
  "isIntegral s \<longleftrightarrow> s \<noteq> [] \<and> list_all is_digit s"

definition quote1 :: "jstr \<Rightarrow> jstr" where
  "quote1 s = [39] @ s @ [39]"

definition roster_line :: "jstr \<Rightarrow> jstr option" where
  "roster_line line =
     (let cols = split_on 44 line
      in if length cols = 1
         then Some (if 0xFF0C \<in> set line
                    then [0x8BF7, 0x4F7F, 0x7528, 0x897F, 0x6587, 0x9017, 0x53F7, 32, 39, 44, 39,
                      32, 0x800C, 0x975E, 0x4E2D, 0x6587, 0x9017, 0x53F7, 32, 39, 0xFF0C, 39]
                    else [0x5B66, 0x5DE5, 0x53F7, 32] @ quote1 line @ [32, 0x6CA1, 0x6709, 0x5BF9,
                      0x5E94, 0x7684, 0x59D3, 0x540D])
         else if \<not> isIntegral (cols ! 0)
         then Some ([0x5B66, 0x5DE5, 0x53F7, 32] @ quote1 (cols ! 0) @ [32, 0x4E0D, 0x662F, 0x4E00,
           0x4E2A, 0x6570]
                @ (if isIntegral (cols ! 1)
                   then [0xFF1B, 0x59D3, 0x540D, 32] @ quote1 (cols ! 1) @ [32, 0x4F3C, 0x4E4E,
                     0x662F, 0x4E00, 0x4E2A, 0x5B66, 0x53F7, 0x3002, 0x60A8, 0x662F, 0x5426,
                       0x586B, 0x53CD, 0x4E86, 0x5B66, 0x53F7, 0x548C, 0x59D3, 0x540D, 0x7684,
                         0x987A, 0x5E8F, 0xFF1F]
                   else [0xFF0C, 0x8BF7, 0x68C0, 0x67E5, 0x60A8, 0x8F93, 0x5165, 0x7684, 0x6570,
                     0x636E, 0x3002]))
         else None)"

fun first_fault :: "('a \<Rightarrow> 'b option) \<Rightarrow> 'a list \<Rightarrow> 'b option" where
  "first_fault f [] = None"
| "first_fault f (x # xs) = (case f x of Some m \<Rightarrow> Some m | None \<Rightarrow> first_fault f xs)"

text \<open>Whether the form is sent, and the message.\<close>

definition roster_submit :: "jstr \<Rightarrow> bool \<times> jstr option" where
  "roster_submit text =
     (let v = js_trim text
      in if v = [] then (False, None)
         else (case first_fault roster_line (split_on 10 v) of
                 None \<Rightarrow> (True, None) | Some m \<Rightarrow> (False, Some m)))"

section \<open>Contest types\<close>

definition SWITCHES :: "bool list list" where
  "SWITCHES = [[True, False, True], [False, False, False], [True, False, True]]"

definition contest_type_changed :: "nat \<Rightarrow> bool list option" where
  "contest_type_changed t = (if t < length SWITCHES then Some (SWITCHES ! t) else None)"

section \<open>Submitting code\<close>

definition max_len :: nat where "max_len = 1048576"

definition code_keyup :: "jstr \<Rightarrow> jstr \<times> bool" where
  "code_keyup code = (if length code > max_len then (take max_len code, True) else (code, False))"

text \<open>The three patterns: a Git address at the start, a word,
  and a head of a function.\<close>

definition looks_git :: "jstr \<Rightarrow> bool" where
  "looks_git code \<longleftrightarrow> (let l = map ascii_lower code
     in starts_with ((js ''http://'')) l \<or> starts_with ((js ''https://'')) l \<or> starts_with ((js ''git'')) l)"

definition looks_verilog :: "jstr \<Rightarrow> bool" where
  "looks_verilog code \<longleftrightarrow> contains_sub ((js ''endmodule'')) code"

definition brace_after :: "jstr \<Rightarrow> bool" where
  "brace_after s =
     (case dropWhile (\<lambda>c. c \<noteq> 41) s of
        [] \<Rightarrow> False
      | _ # r \<Rightarrow> (case dropWhile (\<lambda>c. c \<notin> {58, 123, 39, 34,
        61}) r of [] \<Rightarrow> False | c # _ \<Rightarrow> c = 123))"

fun looks_cpp :: "jstr \<Rightarrow> bool" where
  "looks_cpp [] = False"
| "looks_cpp (c # s) = (c = 40 \<and> brace_after s \<or> looks_cpp s)"

definition detectLangage :: "jstr \<Rightarrow> jstr list \<Rightarrow> jstr option" where
  "detectLangage code allowed =
     (let dflt = (if (js ''python'') \<in> set allowed then Some (js ''python'')
                  else (case allowed of [] \<Rightarrow> None | l # _ \<Rightarrow> Some l))
      in if (js ''git'') \<in> set allowed \<and> looks_git code then Some (js ''git'')
         else if (js ''verilog'') \<in> set allowed \<and> looks_verilog code then Some (js ''verilog'')
         else if (js ''cpp'') \<in> set allowed \<and> looks_cpp code then Some (js ''cpp'')
         else dflt)"

definition submit_language :: "jstr \<Rightarrow> jstr list \<Rightarrow> jstr \<Rightarrow> jstr option" where
  "submit_language chosen options code =
     (if chosen = (js ''autodetect'')
      then detectLangage code (filter (\<lambda>x. x \<noteq> (js ''autodetect'')) options) else Some chosen)"

section \<open>Request headers and page width\<close>

definition says_post :: "jstr \<Rightarrow> bool" where
  "says_post m \<longleftrightarrow> contains_sub ((js ''post'')) (map ascii_lower m)"

text \<open>The options of a \<open>fetch\<close>: the method if it is given,
  and the headers if they are.\<close>

record request =
  rq_method :: "jstr option"
  rq_headers :: "(jstr \<rightharpoonup> jstr) option"

definition CSRF :: jstr where "CSRF = (js ''X-Acmoj-Is-Csrf'')"

definition guarded_fetch :: "request option \<Rightarrow> request option" where
  "guarded_fetch r =
     (case r of
        None \<Rightarrow> None
      | Some q \<Rightarrow>
          if \<not> says_post (case rq_method q of None \<Rightarrow> (js ''undefined'') | Some m \<Rightarrow> m) then Some q
          else Some (q\<lparr>rq_headers := Some ((case rq_headers q of None \<Rightarrow> Map.empty | Some h \<Rightarrow> h)
                                            (CSRF \<mapsto> (js ''no'')))\<rparr>))"

text \<open>The same for requests made through jQuery, whose options name the method \<open>type\<close>.\<close>

definition ajax_prefilter :: "request \<Rightarrow> request" where
  "ajax_prefilter q =
     (if says_post (case rq_method q of None \<Rightarrow> (js ''undefined'') | Some m \<Rightarrow> m)
      then q\<lparr>rq_headers := Some ((case rq_headers q of None \<Rightarrow> Map.empty | Some h \<Rightarrow> h)
                                 (CSRF \<mapsto> (js ''no'')))\<rparr>
      else q)"

definition initial_width :: "jstr option \<Rightarrow> bool" where
  "initial_width stored = (stored = Some (js ''true''))"

definition width_text :: "bool \<Rightarrow> jstr" where
  "width_text w = (if w then (js ''true'') else (js ''false''))"

definition width_clicked :: "bool \<Rightarrow> bool \<times> jstr" where
  "width_clicked w = (\<not> w, width_text (\<not> w))"

section \<open>Attachment links\<close>

definition LINK_OPEN :: jstr where "LINK_OPEN = (js ''[attachment]'')"
definition LINK_CLOSE :: jstr where "LINK_CLOSE = (js ''[/attachment]'')"

text \<open>
  The lazy \<open>.+?\<close>: the shortest text of at least one unit, without line ends, that
  the closing mark follows.
\<close>

fun link_name :: "jstr \<Rightarrow> jstr \<Rightarrow> (jstr \<times> jstr) option" where
  "link_name acc s =
     (if acc \<noteq> [] \<and> starts_with LINK_CLOSE s then Some (rev acc,
       drop (length LINK_CLOSE) s)
      else (case s of [] \<Rightarrow> None | c # r \<Rightarrow> if js_line_end c then None else link_name (c # acc) r))"

definition escape_name_unit :: "nat \<Rightarrow> jstr" where
  "escape_name_unit c = (if c \<in> {60, 62, 38, 34, 39} then [38, 35] @ nat_str c @ [59] else [c])"

definition missing_attachment :: "jstr \<Rightarrow> jstr" where
  "missing_attachment name = (js ''<strong class='' @ [34] @ js ''text-red'' @ [34, 62, 0x9519,
    0x8BEF, 0xFF1A, 0x9898, 0x76EE, 0x9644, 0x4EF6, 32])
     @ concat (map escape_name_unit name) @ ([32, 0x4E0D, 0x5B58, 0x5728] @ js ''</strong>'')"

text \<open>
  The page's attachments by name, with what objects inherit under other names; an empty text
  counts as missing.
\<close>

definition link_html :: "(jstr \<rightharpoonup> jstr) \<Rightarrow> (jstr \<rightharpoonup> jstr) \<Rightarrow> jstr \<Rightarrow> jstr" where
  "link_html own inherited name =
     (case (case own name of Some h \<Rightarrow> Some h | None \<Rightarrow> inherited name) of
        None \<Rightarrow> missing_attachment name
      | Some h \<Rightarrow> if h = [] then missing_attachment name else h)"

declare link_name.simps [simp del]

lemma link_name_shorter: "link_name acc s = Some (n, r) \<Longrightarrow> length r \<le> length s"
proof (induction acc s rule: link_name.induct)
  case (1 acc s)
  show ?case
    using 1(2)
    by (subst (asm) link_name.simps) (auto intro!: le_SucI 1(1) split: if_splits list.splits)
qed

function preprocess :: "(jstr \<Rightarrow> jstr) \<Rightarrow> jstr \<Rightarrow> jstr" where
  "preprocess html [] = []"
| "preprocess html (c # s) =
     (case (if starts_with LINK_OPEN (c # s) then link_name [] (drop (length LINK_OPEN) (c # s)) else None) of
        Some (name, r) \<Rightarrow> html name @ preprocess html r
      | None \<Rightarrow> c # preprocess html s)"
  by pat_completeness auto

termination
proof (relation "measure (\<lambda>(_, s). length s)")
  fix html c s x n r
  assume "(if starts_with LINK_OPEN (c # s) then link_name [] (drop (length LINK_OPEN) (c # s)) else None) = Some x"
    and "(n, r) = x"
  then have "link_name [] (drop (length LINK_OPEN) (c # s)) = Some (n,
    r)" by (auto split: if_splits)
  from link_name_shorter [OF this] show "((html, r), html, c # s) \<in> measure (\<lambda>(_,
    s). length s)"
    by (simp add: LINK_OPEN_def)
qed auto

text \<open>
  The attachments of the page by the texts of its elements: a later element replaces an earlier
  one of the same name, and a text assigned to \<open>__proto__\<close> is not kept. Without any
  such element the text is not changed at all.
\<close>

definition attachment_map :: "(jstr \<times> jstr) list \<Rightarrow> jstr \<rightharpoonup> jstr" where
  "attachment_map els =
     map_of (rev (map (\<lambda>e. (fst e, js_trim (snd e))) (filter (\<lambda>e. fst e \<noteq> js ''__proto__'') els)))"

definition preprocess_page :: "(jstr \<times> jstr) list \<Rightarrow> (jstr \<rightharpoonup> jstr) \<Rightarrow> jstr \<Rightarrow> jstr" where
  "preprocess_page els inherited src =
     (if els = [] then src else preprocess (link_html (attachment_map els) inherited) src)"

text \<open>\<open>marked\<close> and \<open>sanitize\<close> are the libraries' functions.\<close>

definition render ::
  "(jstr \<Rightarrow> jstr) \<Rightarrow> (jstr \<Rightarrow> jstr) \<Rightarrow> (jstr \<times> jstr) list \<Rightarrow> (jstr \<rightharpoonup> jstr) \<Rightarrow> jstr \<Rightarrow> jstr"
where
  "render sanitize marked els inherited src = sanitize (marked (preprocess_page els inherited src))"

text \<open>
  Rendering the elements in order. An element that does not parse ends it: the texts rendered
  before, and the exception.
\<close>

fun render_elements :: "(jstr \<Rightarrow> jstr reply) \<Rightarrow> (jstr \<Rightarrow> jstr) \<Rightarrow> jstr list \<Rightarrow> jstr list \<times> jstr option" where
  "render_elements P R [] = ([], None)"
| "render_elements P R (t # ts) =
     (case P t of
        Rejects m \<Rightarrow> ([], Some m)
      | Resolves src \<Rightarrow> (case render_elements P R ts of (hs, e) \<Rightarrow> (R src # hs, e)))"

text \<open>The identifiers of the n-th code block and of its button, and the button's target.\<close>

definition copy_button :: "nat \<Rightarrow> jstr \<times> jstr \<times> jstr" where
  "copy_button i = (js ''code_highlighted_'' @ nat_str i, js ''copy_button_'' @ nat_str i,
     [35] @ js ''code_highlighted_'' @ nat_str i)"

text \<open>Heights in pixels; a card without rendered text is not marked.\<close>

definition card_truncated :: "int option \<Rightarrow> int \<Rightarrow> bool" where
  "card_truncated rendered height = (case rendered of None \<Rightarrow> False | Some h \<Rightarrow> h > height + 1)"

section \<open>Judging buttons and the loading label\<close>

text \<open>Which of the buttons are disabled; a click disables one, an answer enables all.\<close>

definition judge_clicked :: "nat \<Rightarrow> bool list \<Rightarrow> bool list" where
  "judge_clicked i bs = bs[i := True]"

definition judge_form_answered :: "int \<Rightarrow> jstr \<Rightarrow> bool list \<Rightarrow> (jstr \<times> jstr \<times> bool) \<times> bool list" where
  "judge_form_answered e msg bs =
     ((if e < 0 then ((js ''Error '') @ num_str e, msg, False) else ((js ''Success''), msg, True)),
      map (\<lambda>_. False) bs)"

text \<open>\<open>None\<close> where the label is left alone; \<open>age\<close> is the time since the client was started.\<close>

definition engine_progress :: "jstr \<Rightarrow> bool \<Rightarrow> int \<Rightarrow> nat \<Rightarrow> nat \<Rightarrow> jstr option" where
  "engine_progress engine current age v mx =
     (if \<not> current \<or> age < 800 then None
      else Some (engine @ [32, 0x52A0, 0x8F7D, 0x4E2D, 0x2026, 32]
             @ (if mx \<noteq> 0 then nat_str (v * 100 div mx) @ [37]
                else nat_str ((2 * v + 1048576) div 2097152) @ (js '' MB''))))"

section \<open>Properties\<close>

lemma first_fault_None: "first_fault f xs = None \<longleftrightarrow> list_all (\<lambda>x. f x = None) xs"
  by (induction xs) (auto split: option.split)

lemma split_length: "length (split_on c s) = Suc (count_list s c)"
  by (induction s) (auto split: list.split simp: length_Suc_conv)

lemma split_hd: "split_on c s ! 0 = takeWhile (\<lambda>x. x \<noteq> c) s"
proof (induction s)
  case (Cons x s)
  obtain y ys where "split_on c s = y # ys" by (cases "split_on c s") auto
  then show ?case using Cons by simp
qed simp

text \<open>
  The roster is sent exactly if it is not blank and every line, after trimming the whole, has
  a comma behind a student number of at least one digit and only digits; the message, if any,
  is that of the first line that has not.
\<close>

lemma roster_submit_iff:
  "fst (roster_submit t) \<longleftrightarrow> js_trim t \<noteq> []
     \<and> list_all (\<lambda>l. 44 \<in> set l \<and> isIntegral (takeWhile (\<lambda>c. c \<noteq> 44) l)) (split_on 10 (js_trim t))"
proof -
  have "roster_line l = None \<longleftrightarrow> 44 \<in> set l \<and> isIntegral (takeWhile (\<lambda>c. c \<noteq> 44) l)" for l
    using split_hd [of 44 l] by (simp add: roster_line_def Let_def split_length count_list_0_iff)
  then have "first_fault roster_line ls = None \<longleftrightarrow>
      list_all (\<lambda>l. 44 \<in> set l \<and> isIntegral (takeWhile (\<lambda>c. c \<noteq> 44) l)) ls" for ls
    by (simp only: first_fault_None)
  moreover have "fst (roster_submit t) \<longleftrightarrow> js_trim t \<noteq> []
      \<and> first_fault roster_line (split_on 10 (js_trim t)) = None"
    by (simp add: roster_submit_def Let_def split: option.split)
  ultimately show ?thesis by simp
qed

lemma detect_allowed: "detectLangage code allowed = Some l \<Longrightarrow> l \<in> set allowed"
  by (auto simp: detectLangage_def Let_def split: if_splits list.splits simp del: js_simps_list)

text \<open>
  What is submitted is a language of the form: with automatic detection the result is one of
  the offered languages, never the choice of detection itself, as soon as there is one.
\<close>

lemma submit_language_offered:
  assumes "chosen \<in> set options" and "\<exists>l \<in> set options. l \<noteq> (js ''autodetect'')"
  shows "\<exists>l. submit_language chosen options code = Some l \<and> l \<in> set options \<and> l \<noteq> (js ''autodetect'')"
proof (cases "chosen = (js ''autodetect'')")
  case True
  let ?a = "filter (\<lambda>x. x \<noteq> (js ''autodetect'')) options"
  have "?a \<noteq> []" using assms(2) by (auto simp: filter_empty_conv simp del: js_simps_list)
  then have "detectLangage code ?a \<noteq> None"
    by (auto simp: detectLangage_def Let_def split: list.split simp del: js_simps_list)
  then obtain l where l: "detectLangage code ?a = Some l" by blast
  from detect_allowed [OF this] show ?thesis
    using l True by (auto simp: submit_language_def simp del: js_simps_list)
qed (use assms in \<open>auto simp: submit_language_def simp del: js_simps_list\<close>)

lemma submit_language_offered_witness:
  "\<exists>l. submit_language (js ''autodetect'') [(js ''autodetect''), (js ''cpp''),
    (js ''git'')] (js ''x'') = Some l
     \<and> l \<in> set [(js ''cpp''), (js ''git'')]"
proof -
  have 1: "(js ''autodetect'') \<in> set [(js ''autodetect''), (js ''cpp''), (js ''git'')]" by simp
  have 2: "\<exists>l \<in> set [(js ''autodetect''), (js ''cpp''),
    (js ''git'')]. l \<noteq> (js ''autodetect'')" by simp
  show ?thesis
    using submit_language_offered [OF 1 2, of "(js ''x'')"] by (auto simp del: js_simps_list)
qed

lemma guarded_headers:
  "guarded_fetch (Some q) = Some q' \<Longrightarrow> says_post (case rq_method q of None \<Rightarrow> (js ''undefined'') | Some m \<Rightarrow> m)
     \<Longrightarrow> (\<exists>h. rq_headers q' = Some h \<and> h CSRF = Some ((js ''no''))
          \<and> (\<forall>k. k \<noteq> CSRF \<longrightarrow> h k = (case rq_headers q of None \<Rightarrow> None | Some g \<Rightarrow> g k)))"
  by (auto simp: guarded_fetch_def split: option.split)

lemma guarded_fetch_prefilter: "guarded_fetch (Some q) = Some (ajax_prefilter q)"
  by (simp add: guarded_fetch_def ajax_prefilter_def)

lemma copy_targets: "snd (snd (copy_button i)) = [35] @ fst (copy_button j) \<longleftrightarrow> i = j"
  by (auto simp: copy_button_def dest: nat_str_inj)

lemma render_elements_all:
  "list_all (\<lambda>t. \<exists>src. P t = Resolves src) ts \<Longrightarrow>
     render_elements P R ts = (map (\<lambda>t. case P t of Resolves src \<Rightarrow> R src | Rejects _ \<Rightarrow> []) ts, None)"
  by (induction ts) auto

text \<open>Names that an attachment link can carry.\<close>

definition linkable :: "jstr \<Rightarrow> bool" where
  "linkable n \<longleftrightarrow> n \<noteq> [] \<and> list_all (\<lambda>c. \<not> js_line_end c) n \<and> 91 \<notin> set n"

lemma not_close: "c \<noteq> 91 \<Longrightarrow> \<not> starts_with LINK_CLOSE (c # s)"
  by (simp add: starts_with_def LINK_CLOSE_def)

lemma link_name_scan:
  "list_all (\<lambda>c. \<not> js_line_end c) n \<Longrightarrow> 91 \<notin> set n \<Longrightarrow> acc \<noteq> [] \<or> n \<noteq> [] \<Longrightarrow>
     link_name acc (n @ LINK_CLOSE @ t) = Some (rev acc @ n, t)"
proof (induction n arbitrary: acc)
  case Nil
  then show ?case
    by (subst link_name.simps) (simp add: starts_with_def)
next
  case (Cons c n)
  have "link_name (c # acc) (n @ LINK_CLOSE @ t) = Some (rev (c # acc) @ n, t)"
    using Cons by (intro Cons.IH) auto
  moreover have "\<not> starts_with LINK_CLOSE (c # n @ LINK_CLOSE @ t)"
    using Cons.prems by (intro not_close) auto
  ultimately show ?case
    using Cons.prems by (subst link_name.simps) simp
qed

lemma preprocess_link:
  assumes "linkable n"
  shows "preprocess html (LINK_OPEN @ n @ LINK_CLOSE @ t) = html n @ preprocess html t"
proof -
  have l: "link_name [] (n @ LINK_CLOSE @ t) = Some (n, t)"
    using link_name_scan [of n "[]" t] assms by (simp add: linkable_def)
  have o: "starts_with LINK_OPEN (LINK_OPEN @ n @ LINK_CLOSE @ t)" by (simp add: starts_with_def)
  obtain c r where c: "LINK_OPEN = c # r" by (simp add: LINK_OPEN_def)
  have d: "drop (length LINK_OPEN) (LINK_OPEN @ n @ LINK_CLOSE @ t) = n @ LINK_CLOSE @ t" by simp
  have "preprocess html (LINK_OPEN @ n @ LINK_CLOSE @ t)
      = (case link_name [] (drop (length LINK_OPEN) (LINK_OPEN @ n @ LINK_CLOSE @ t)) of
           Some (name, r) \<Rightarrow> html name @ preprocess html r
         | None \<Rightarrow> c # preprocess html (r @ n @ LINK_CLOSE @ t))"
    using o by (simp add: c)
  then show ?thesis unfolding d l by simp
qed

lemma preprocess_plain: "91 \<notin> set s \<Longrightarrow> preprocess html (s @ t) = s
  @ preprocess html t"
proof (induction s)
  case (Cons c s)
  then have "\<not> starts_with LINK_OPEN (c # s @ t)" by (simp add: starts_with_def LINK_OPEN_def)
  then show ?case using Cons by simp
qed simp

text \<open>
  Links copied from the editor work in the text. On a page that lists attachments, the
  text that an attachment's button in the editor copies (if the name has no bracket and no line
  end), put anywhere into a description behind text without brackets, becomes the page's entry
  of that attachment, or, if it is not among those listed, an error text in which the name's
  markup is escaped.
\<close>

lemma attachment_link_renders:
  assumes "linkable (at_name a)" and "91 \<notin> set before" and "els \<noteq> []" and "inherited (at_name a) = None"
    and "attachment_map els (at_name a) = (if listed then Some h else None)" and "h \<noteq> []"
  shows "preprocess_page els inherited (before @ lr_clipboard (list_row_of a) @ after)
     = before @ (if listed then h else missing_attachment (at_name a))
         @ preprocess_page els inherited after"
proof -
  have "lr_clipboard (list_row_of a) = LINK_OPEN @ at_name a @ LINK_CLOSE"
    by (simp add: list_row_of_def LINK_OPEN_def LINK_CLOSE_def)
  then show ?thesis
    using assms preprocess_link [OF assms(1), of "link_html (attachment_map els) inherited" after]
    by (simp add: preprocess_page_def preprocess_plain link_html_def del: preprocess.simps)
qed

definition demo_entries :: "(jstr \<times> jstr) list" where
  "demo_entries = [(js ''a.zip'', js ''entry'')]"

lemma attachment_link_renders_witness:
  "preprocess_page demo_entries Map.empty
     (js ''see '' @ lr_clipboard (list_row_of \<lparr>at_name = js ''a.zip'', at_size = 1,
       at_user = None, at_url = []\<rparr>) @ js ''.'')
   = js ''see '' @ js ''entry'' @ preprocess_page demo_entries Map.empty (js ''.'')"
proof -
  let ?a = "\<lparr>at_name = js ''a.zip'', at_size = 1, at_user = None, at_url = []\<rparr>"
  have "linkable (at_name ?a)" by (simp add: linkable_def js_line_end_def)
  moreover have "91 \<notin> set (js ''see '')" by simp
  moreover have "attachment_map demo_entries (js ''a.zip'') = Some (js ''entry'')"
    by (simp add: attachment_map_def demo_entries_def js_trim_def trim_end_def js_ws_def)
  moreover have "demo_entries \<noteq> []" by (simp add: demo_entries_def)
  ultimately show ?thesis
    using attachment_link_renders [of ?a "js ''see ''" demo_entries Map.empty True "js ''entry''" "js ''.''"]
    by (simp del: js_simps_list preprocess.simps) (simp add: js_def)
qed

end
