(* ===== verification/ConfigSchema.thy ===== *)
theory ConfigSchema
  imports DataConfig
begin

text \<open>
  The published schema of a problem's configuration
  (\<open>web/static/assets/problem-config.schema.json\<close>) as a value, what it means for
  a JSON value to conform to it, and that the configuration the tables generate does.
\<close>

section \<open>JSON Schema\<close>

text \<open>
  The keywords the file uses: \<open>type\<close> with one name or several,
  \<open>enum\<close>, \<open>anyOf\<close>, \<open>items\<close>, \<open>properties\<close>
  and \<open>required\<close>. A type that may also be null is written as an alternative;
  \<open>default\<close> and \<open>title\<close> do not constrain a value. Properties that are
  not listed are allowed.
\<close>

datatype json_type = TInteger | TNumber | TString | TBoolean | TNull

fun has_type :: "json_type \<Rightarrow> jval \<Rightarrow> bool" where
  "has_type TInteger v = (case v of JNum _ \<Rightarrow> True | _ \<Rightarrow> False)"
| "has_type TNumber v = (case v of JNum _ \<Rightarrow> True | _ \<Rightarrow> False)"
| "has_type TString v = (case v of JStr _ \<Rightarrow> True | _ \<Rightarrow> False)"
| "has_type TBoolean v = (case v of JBool _ \<Rightarrow> True | _ \<Rightarrow> False)"
| "has_type TNull v = (v = JNull)"

datatype schema =
    SType json_type
  | SEnum "jval list"
  | AnyOf "schema list"
  | SArray schema
  | SObject "(jstr \<times> schema) list" "jstr list"

fun conforms :: "schema \<Rightarrow> jval \<Rightarrow> bool"
  and conforms_any :: "schema list \<Rightarrow> jval \<Rightarrow> bool"
  and conforms_props :: "(jstr \<times> schema) list \<Rightarrow> (jstr \<times> jval) list \<Rightarrow> bool"
where
  "conforms (SType t) v = has_type t v"
| "conforms (SEnum vs) v = (v \<in> set vs)"
| "conforms (AnyOf ss) v = conforms_any ss v"
| "conforms (SArray s) v = (case v of JArr xs \<Rightarrow> list_all (conforms s) xs | _ \<Rightarrow> False)"
| "conforms (SObject ps rs) v =
     (case v of
        JObj kvs \<Rightarrow> list_all (\<lambda>r. map_of kvs r \<noteq> None) rs \<and> conforms_props ps kvs
      | _ \<Rightarrow> False)"
| "conforms_any [] v = False"
| "conforms_any (s # ss) v = (conforms s v \<or> conforms_any ss v)"
| "conforms_props [] kvs = True"
| "conforms_props (p # ps) kvs =
     ((case map_of kvs (fst p) of None \<Rightarrow> True | Some v \<Rightarrow> conforms (snd p) v)
      \<and> conforms_props ps kvs)"

section \<open>The schema of the configuration\<close>

abbreviation nullable :: "schema \<Rightarrow> schema" where
  "nullable s \<equiv> AnyOf [s, SType TNull]"

definition str_enum :: "jstr list \<Rightarrow> schema" where
  "str_enum ts = SEnum (map JStr ts)"

definition detail_schema :: schema where
  "detail_schema = SObject
     [(js ''ID'', SType TInteger), (js ''Dependency'', nullable (SType TInteger)),
      (js ''TimeLimit'', nullable (SType TInteger)),
      (js ''MemoryLimit'', nullable (SType TInteger)),
      (js ''DiskLimit'', nullable (SType TInteger)),
      (js ''FileNumberLimit'', nullable (SType TInteger)),
      (js ''ValgrindTestOn'', SType TBoolean)]
     [js ''ID'']"

definition group_schema :: schema where
  "group_schema = SObject
     [(js ''GroupID'', SType TInteger),
      (js ''GroupScore'', AnyOf [SType TInteger, SType TNumber]),
      (js ''TestPoints'', SArray (SType TInteger)),
      (js ''GroupName'', nullable (SType TString))]
     [js ''GroupID'', js ''GroupScore'', js ''TestPoints'']"

text \<open>A program of the problem: its kind and its path.\<close>

definition program_schema :: schema where
  "program_schema = nullable (SObject
     [(js ''Type'', str_enum [js ''cpp'', js ''binary'']), (js ''Path'', SType TString)]
     [js ''Type'', js ''Path''])"

definition compile_types :: "jstr list" where
  "compile_types = [js ''skip'', js ''classic'', js ''hpp'']"

definition run_types :: "jstr list" where
  "run_types = [js ''skip'', js ''classic'', js ''verilog'', js ''interactive'']"

definition check_types :: "jstr list" where
  "check_types = [js ''skip'', js ''compare'', js ''custom'']"

text \<open>A stage is one of its types, or an object with its type and further properties.\<close>

definition stage_schema :: "jstr list \<Rightarrow> (jstr \<times> schema) list \<Rightarrow> schema" where
  "stage_schema ts ps =
     AnyOf [str_enum ts, SObject ((js ''Type'', str_enum ts) # ps) [js ''Type'']]"

definition spj_schema :: schema where
  "spj_schema = AnyOf
     [SObject
        [(js ''Compile'', stage_schema compile_types []),
         (js ''Run'', stage_schema run_types [(js ''Interactor'', program_schema)]),
         (js ''Check'', stage_schema check_types
            [(js ''IgnoreInsignificantWhitespace'', SType TBoolean),
             (js ''Checker'', program_schema)])] [],
      SEnum (map JNum [0, 1, 2, 3, 4, 5])]"

definition problem_schema :: schema where
  "problem_schema = SObject
     [(js ''Details'', SArray detail_schema), (js ''Groups'', SArray group_schema),
      (js ''SPJ'', spj_schema), (js ''CompileTimeLimit'', nullable (SType TInteger)),
      (js ''Scorer'', SEnum [JNum 0]), (js ''SupportedFiles'', SArray (SType TString)),
      (js ''Verilog'', SType TBoolean), (js ''Quiz'', SType TBoolean),
      (js ''RunnerGroup'', SType TString)]
     [js ''Details'', js ''Groups'']"

section \<open>Well-typed tables\<close>

definition int_cell :: "jval \<Rightarrow> bool" where
  "int_cell v = has_type TInteger v"

definition int_or_null :: "jval \<Rightarrow> bool" where
  "int_or_null v \<longleftrightarrow> int_cell v \<or> v = JNull"

definition group_typed :: "(jstr \<Rightarrow> jval) \<Rightarrow> group_row \<Rightarrow> bool" where
  "group_typed F r \<longleftrightarrow> int_cell (cell_num F (gr_id r)) \<and> int_cell (cell_num F (gr_score r))
     \<and> list_all (\<lambda>t. int_cell (js_number F t)) (split_on 44 (cell_text (gr_points r)))"

definition detail_typed :: "(jstr \<Rightarrow> jval) \<Rightarrow> detail_row \<Rightarrow> bool" where
  "detail_typed F r \<longleftrightarrow> int_cell (cell_num F (dr_id r))
     \<and> list_all (\<lambda>s. int_or_null (cell_num F s)) [dr_dep r, dr_time r, dr_memory r, dr_disk r]"

definition form_typed :: "(jstr \<Rightarrow> jval) \<Rightarrow> data_form \<Rightarrow> bool" where
  "form_typed F d \<longleftrightarrow> list_all (group_typed F) (tableGroups d)
     \<and> list_all (detail_typed F) (tableDetails d) \<and> int_or_null (js_number F (iptCompileTime d))
     \<and> iptCompileType d \<in> set compile_types \<and> iptRunType d \<in> set run_types
     \<and> iptCheckType d \<in> set check_types"

lemma str_enum_conforms [simp]: "conforms (str_enum ts) (JStr t) \<longleftrightarrow> t \<in> set ts"
  by (auto simp: str_enum_def)

lemma int_or_null_conforms: "conforms (nullable (SType TInteger)) v \<longleftrightarrow> int_or_null v"
  by (simp add: int_or_null_def int_cell_def)

lemma detail_conforms:
  "conforms detail_schema (detail_json (config_detail_of F r)) \<longleftrightarrow> detail_typed F r"
  by (auto simp: detail_schema_def detail_json_def config_detail_of_def detail_typed_def
      int_or_null_def int_cell_def)

lemma group_conforms:
  "conforms group_schema (group_json (config_group_of F r)) \<longleftrightarrow> group_typed F r"
  by (auto simp: group_schema_def group_json_def config_group_of_def group_typed_def int_cell_def
      list_all_iff split: jval.splits)

lemma stage_conforms: "conforms (stage_schema ts ps) (JStr t) \<longleftrightarrow> t \<in> set ts"
  by (simp add: stage_schema_def)

lemma spj_conforms:
  "conforms spj_schema (JObj [(js ''Compile'', JStr a), (js ''Run'', JStr b), (js ''Check'', JStr c)])
     \<longleftrightarrow> a \<in> set compile_types \<and> b \<in> set run_types \<and> c \<in> set check_types"
  by (auto simp: spj_schema_def stage_conforms)

definition spj_json :: "jstr \<Rightarrow> jstr \<Rightarrow> jstr \<Rightarrow> jval" where
  "spj_json a b c = JObj [(js ''Compile'', JStr a), (js ''Run'', JStr b), (js ''Check'', JStr c)]"

lemma config_json_eq:
  "config_json (generateConfig F d) = JObj
     [(js ''Groups'', JArr (map (\<lambda>r. group_json (config_group_of F r)) (tableGroups d))),
      (js ''Details'', JArr (map (\<lambda>r. detail_json (config_detail_of F r)) (tableDetails d))),
      (js ''CompileTimeLimit'', js_number F (iptCompileTime d)),
      (js ''SPJ'', spj_json (iptCompileType d) (iptRunType d) (iptCheckType d)),
      (js ''Scorer'', JNum 0)]"
  by (simp add: config_json_def generateConfig_def spj_json_def)

lemma config_conforms:
  "conforms problem_schema (config_json (generateConfig F d)) \<longleftrightarrow> form_typed F d"
proof -
  have "conforms spj_schema (spj_json a b c)
     \<longleftrightarrow> a \<in> set compile_types \<and> b \<in> set run_types \<and> c \<in> set check_types" for a b c
    unfolding spj_json_def by (rule spj_conforms)
  then show ?thesis
    by (auto simp: problem_schema_def config_json_eq form_typed_def detail_conforms group_conforms
        int_or_null_def int_cell_def list_all_iff)
qed

section \<open>Typing\<close>

lemma nat_str_chars: "c \<in> set (nat_str n) \<Longrightarrow> is_digit c"
  using nat_str_digits [of n] by (simp add: list_all_iff)

lemma num_str_chars: "c \<in> set (num_str i) \<Longrightarrow> is_digit c \<or> c = 45"
  using nat_str_chars by (auto simp: num_str_def split: if_splits)

lemma js_number_num_str [simp]: "js_number F (num_str i) = JNum i"
proof (cases "i < 0")
  case True
  have "\<not> js_ws c" if "c \<in> set (num_str i)" for c
    using num_str_chars [OF that] digit_not_ws by (auto simp: js_ws_def)
  then have "js_trim (num_str i) = num_str i" by (intro js_trim_id) (auto simp: num_str_def)
  with True show ?thesis
    using nat_str_digits by (simp add: js_number_def num_str_def split_sign_def signed_def
        digits_value_nat_str Let_def)
qed (simp add: num_str_def)

lemma cell_text_num_str [simp]: "cell_text (num_str i) = num_str i"
proof -
  have "60 \<notin> set (num_str i)" using num_str_chars [of 60 i] by (auto simp: is_digit_def)
  then show ?thesis by (simp add: cell_text_def replace_absent)
qed

lemma cell_text_Nil [simp]: "cell_text [] = []"
  by (simp add: cell_text_def)

lemma js_number_Nil [simp]: "js_number F [] = JNum 0"
  by (simp add: js_number_def js_trim_def trim_end_def)

lemma next_num_cell: "\<exists>i. js_number F (cell_text (next_num s)) = JNum i"
  by (auto simp: next_num_def html_num_def split: option.split)

text \<open>
  What is typed into a cell that the schema requires to be a number is a whole number, and what
  is typed into the other cells is one or none (\<open>NaN\<close>, written as null).
\<close>

definition types_numbers :: "(jstr \<Rightarrow> jval) \<Rightarrow> form_op \<Rightarrow> data_form \<Rightarrow> bool" where
  "types_numbers F op d =
     (case op of
        EditDetail i c v \<Rightarrow> (if c = CId then int_cell (cell_num F v) else int_or_null (cell_num F v))
      | EditGroup i r \<Rightarrow> group_typed F r
      | SetCompileTime v \<Rightarrow> int_or_null (js_number F v)
      | _ \<Rightarrow> True)"

lemma int_cell_next: "int_cell (cell_num F (next_num s))"
  using next_num_cell [of F s] by (auto simp: cell_num_def int_cell_def)

lemma next_num_no_comma: "split_on 44 (cell_text (next_num s)) = [cell_text (next_num s)]"
proof -
  have "44 \<notin> set (num_str i)" for i using num_str_chars [of 44 i] by (auto simp: is_digit_def)
  then show ?thesis by (auto simp: next_num_def html_num_def split_on_free split: option.split)
qed

lemma group_typed_next: "group_typed F r \<Longrightarrow> group_typed F (next_group F r)"
  using int_cell_next [of F "gr_points r"]
  by (auto simp: group_typed_def next_group_def bump_def int_cell_next next_num_no_comma
      cell_num_def [of F "next_num (gr_points r)"])

lemma detail_typed_next: "detail_typed F r \<Longrightarrow> detail_typed F (next_detail r)"
proof -
  assume r: "detail_typed F r"
  have "cell_num F (js ''0'') = JNum 0"
    using cell_num_nat_str [of F 0] by (simp add: nat_str_small)
  then have "int_or_null (cell_num F (next_dep r))"
    using r by (auto simp: next_dep_def detail_typed_def int_or_null_def int_cell_def
        simp del: js_simps_list split: option.splits)
  with r show ?thesis by (simp add: detail_typed_def next_detail_def int_cell_next)
qed

lemma detail_typed_valgrind [simp]: "detail_typed F (r\<lparr>dr_valgrind := b\<rparr>) = detail_typed F r"
  by (simp add: detail_typed_def)

lemma list_all_add_row: "list_all P rs \<Longrightarrow> (\<And>r. P r \<Longrightarrow> P (f r)) \<Longrightarrow> list_all P (add_row f rs)"
  by (auto simp: add_row_def list_all_iff)

lemma list_all_upd:
  "list_all P rs \<Longrightarrow> (i < length rs \<Longrightarrow> P (rs ! i) \<Longrightarrow> P r) \<Longrightarrow> list_all P (rs[i := r])"
  by (cases "i < length rs") (auto simp: list_all_length nth_list_update)

lemma list_all_butlast: "list_all P rs \<Longrightarrow> list_all P (butlast rs)"
  by (auto simp: list_all_iff dest: in_set_butlastD)

lemma select_typed: "form_typed F d \<Longrightarrow> form_typed F (select_type key v d)"
  by (auto simp: form_typed_def select_type_def type_options_def compile_types_def run_types_def
      check_types_def simp del: js_simps_list)

lemma form_typed_step:
  assumes d: "form_typed F d" and op: "types_numbers F op d"
  shows "form_typed F (form_step F op d)"
proof (cases op)
  case (EditDetail i c v)
  have "detail_typed F (set_column c v r)" if "detail_typed F r" for r
    using that op by (cases c) (auto simp: EditDetail types_numbers_def detail_typed_def)
  with d show ?thesis by (auto simp: EditDetail form_typed_def intro!: list_all_upd)
next
  case (Select key v)
  with d show ?thesis by (simp add: select_typed)
qed (use d op in \<open>auto simp: form_typed_def types_numbers_def btnAddGroupsRow_def
       btnAddDetailsRow_def btnRemoveGroupsRow_def btnRemoveDetailsRow_def intro!: list_all_add_row list_all_upd list_all_butlast group_typed_next detail_typed_next\<close>)

interpretation config_form: guarded_machine "form_step F" "form_typed F" "types_numbers F" for F
  by unfold_locales (rule form_typed_step)

lemma form_init_typed: "form_typed F form_init"
proof -
  have n: "js ''1'' = nat_str 1" "js ''0'' = nat_str 0" "js ''10'' = nat_str 10"
    "js ''1000'' = nat_str 1000" "js ''256000000'' = nat_str 256000000" "js ''30000'' = nat_str 30000"
    by (simp_all add: nat_str_def digits_rev.simps)
  have p: "split_on 44 (cell_text (nat_str n)) = [cell_text (nat_str n)]" for n
  proof -
    have "44 \<notin> set (nat_str n)" "60 \<notin> set (nat_str n)"
      using nat_str_chars [of 44 n] nat_str_chars [of 60 n] by (auto simp: is_digit_def)
    then show ?thesis by (simp add: cell_text_def replace_absent split_on_free)
  qed
  have t: "js_number F (cell_text (nat_str n)) = JNum (int n)" for n
    using cell_num_nat_str [of F n] by (simp add: cell_num_def)
  show ?thesis
    unfolding form_init_def n
    by (simp add: form_typed_def group_typed_def detail_typed_def int_or_null_def cell_num_def p t
        compile_types_def run_types_def check_types_def int_cell_def del: js_simps_list)
qed

text \<open>
  C40: the generated configuration is well typed. Whatever rows the buttons add and remove,
  whatever the selectors are set to, and as long as what is typed into the cells reads as a
  whole number (or, where the schema allows null, as no number), the configuration that is
  downloaded or packed conforms to the published JSON schema.
\<close>

theorem generated_config_conforms:
  assumes "run_ok (form_step F) (types_numbers F) ops form_init"
  shows "conforms problem_schema (snd (snd (download_config F (fold (form_step F) ops form_init))))"
  unfolding download_config_def snd_conv config_conforms by (rule config_form.run_inv_ok [OF form_init_typed assms])

theorem generated_config_conforms_witness:
  "conforms problem_schema (snd (snd (download_config (\<lambda>_. JNull) (fold (form_step (\<lambda>_. JNull))
     [AddDetail, EditDetail 1 CTime (js ''none''), AddGroup, Select (js ''Run'') (js ''verilog'')]
     form_init))))"
proof -
  have "cell_num (\<lambda>_. JNull) (js ''none'') = JNull"
    by (simp add: cell_num_def cell_text_def js_number_def js_trim_def trim_end_def js_ws_def
        split_sign_def is_digit_def starts_with_def)
  then have "run_ok (form_step (\<lambda>_. JNull)) (types_numbers (\<lambda>_. JNull))
    [AddDetail, EditDetail 1 CTime (js ''none''), AddGroup, Select (js ''Run'') (js ''verilog'')]
    form_init"
    by (simp add: types_numbers_def int_or_null_def del: js_simps_list)
  then show ?thesis by (rule generated_config_conforms)
qed

text \<open>
  A number of a test point that reads as none makes the configuration violate the schema; the
  page does not say so.
\<close>

lemma unreadable_id_violates:
  assumes "r \<in> set (tableDetails d)" and "cell_num F (dr_id r) = JNull"
  shows "\<not> conforms problem_schema (config_json (generateConfig F d))"
proof
  assume "conforms problem_schema (config_json (generateConfig F d))"
  then have "detail_typed F r"
    using assms(1) by (simp add: config_conforms form_typed_def list_all_iff)
  with assms(2) show False by (simp add: detail_typed_def int_cell_def)
qed

end
