(* ===== verification/DescPage.thy ===== *)
theory DescPage
  imports DescForm
begin

text \<open>
  The editors of the description page and what surrounds its form
  (\<open>web/static/js/problem_admin.js\<close>): the registry of Markdown editors with the
  text areas that are submitted, the form's data, choosing a file to import, the dialog that
  shows an import's messages, and the export link.

  An editor is made and changed by the library editor.md: making one and setting its text are
  the parameters \<open>mk\<close> and \<open>setv\<close>. What is asked of an editor is part of
  its state.
\<close>

section \<open>Editors\<close>

text \<open>
  \<open>me_markdown\<close> is the answer of \<open>getMarkdown\<close>, which may throw, if it is
  a function; \<open>me_cm\<close> the text of the CodeMirror object, if there is one.
\<close>

record md_editor =
  me_markdown :: "jstr reply option"
  me_cm :: "jstr option"

text \<open>The editors by element, and the texts of the text areas in an element.\<close>

record editor_page =
  editors :: "jstr \<rightharpoonup> md_editor"
  areas :: "jstr \<rightharpoonup> jstr list"

definition area_text :: "jstr \<Rightarrow> editor_page \<Rightarrow> jstr" where
  "area_text n p = (case areas p n of Some (t # _) \<Rightarrow> t | _ \<Rightarrow> [])"

definition getEditorMarkdown :: "jstr \<Rightarrow> editor_page \<Rightarrow> jstr reply" where
  "getEditorMarkdown n p =
     (case editors p n of
        None \<Rightarrow> Resolves (area_text n p)
      | Some e \<Rightarrow>
          (case me_markdown e of
             Some r \<Rightarrow> r
           | None \<Rightarrow> (case me_cm e of Some t \<Rightarrow> Resolves t | None \<Rightarrow> Resolves (area_text n p))))"

definition syncEditorTextarea :: "jstr \<Rightarrow> editor_page \<Rightarrow> jstr reply \<times> editor_page" where
  "syncEditorTextarea n p =
     (case getEditorMarkdown n p of
        Rejects m \<Rightarrow> (Rejects m, p)
      | Resolves t \<Rightarrow>
          (Resolves t,
           (case areas p n of
              None \<Rightarrow> p
            | Some ts \<Rightarrow> p\<lparr>areas := (areas p)(n \<mapsto> map (\<lambda>_. t) ts)\<rparr>)))"

text \<open>The result is the exception, if there is one.\<close>

definition new_or_modify ::
  "(jstr \<Rightarrow> md_editor \<Rightarrow> md_editor) \<Rightarrow> (jstr \<Rightarrow> jstr \<Rightarrow> md_editor) \<Rightarrow> jstr \<Rightarrow> jstr option
     \<Rightarrow> editor_page \<Rightarrow> jstr option \<times> editor_page"
where
  "new_or_modify setv mk n val p =
     (let c = (case val of None \<Rightarrow> [] | Some t \<Rightarrow> t);
          fresh = (None, p\<lparr>editors := (editors p)(n \<mapsto> mk n c)\<rparr>)
      in case editors p n of
           None \<Rightarrow> fresh
         | Some e \<Rightarrow>
             if me_cm e = None then fresh
             else (case syncEditorTextarea n (p\<lparr>editors := (editors p)(n \<mapsto> setv c e)\<rparr>) of
                     (Rejects m, q) \<Rightarrow> (Some m, q)
                   | (Resolves _, q) \<Rightarrow> (None, q)))"

text \<open>
  Opening the section of an example's editors makes each editor anew, until one is missing: the
  editors that are, and whether the handler threw.
\<close>

definition editors_toggled :: "bool \<Rightarrow> jstr list \<Rightarrow> editor_page \<Rightarrow> jstr list \<times> bool" where
  "editors_toggled opened ns p =
     (if opened
      then (let ok = takeWhile (\<lambda>n. editors p n \<noteq> None) ns in (ok, ok \<noteq> ns))
      else ([], False))"

section \<open>Submitting\<close>

text \<open>\<open>serializeArray\<close> lists names and values; of equal names the last one counts.\<close>

definition serializeObject :: "(jstr \<times> jstr) list \<Rightarrow> jstr \<rightharpoonup> jstr" where
  "serializeObject ps = fold (\<lambda>p m. m(fst p \<mapsto> snd p)) ps Map.empty"

text \<open>Before the form is read,
  the text areas of all its editors are brought up to date.\<close>

fun sync_all :: "jstr list \<Rightarrow> editor_page \<Rightarrow> jstr option \<times> editor_page" where
  "sync_all [] p = (None, p)"
| "sync_all (n # ns) p =
     (case syncEditorTextarea n p of
        (Rejects m, q) \<Rightarrow> (Some m, q)
      | (Resolves _, q) \<Rightarrow> sync_all ns q)"

section \<open>Import and export\<close>

datatype form_effect =
    FileAlert jstr
  | ImportDialog md_severity jstr jstr "(jstr \<times> jstr) list"

definition message_prefix :: "md_severity \<Rightarrow> jstr" where
  "message_prefix v =
     (case v of
        Warning \<Rightarrow> (js ''<strong class='' @ [34] @ js ''text-warning'' @ [34, 62,
          0x8B66, 0x544A, 0xFF1A] @ js ''</strong>'')
      | Error \<Rightarrow> (js ''<strong class='' @ [34] @ js ''text-danger'' @ [34, 62, 0x9519,
        0x8BEF, 0xFF1A] @ js ''</strong>'')
      | Info \<Rightarrow> [])"

definition dialog_intro :: "md_severity \<Rightarrow> jstr" where
  "dialog_intro v =
     (if v = Error then []
      else (js ''<p>'' @ [0x8BF7, 0x68C0, 0x67E5, 0x4E0B, 0x65B9, 0x9898, 0x9762, 0x5BFC, 0x5165,
        0x662F, 0x5426, 0x6B63, 0x786E, 0xFF0C] @ js ''<strong>'' @ [0x5E76, 0x70B9, 0x51FB,
          0x9875, 0x9762, 0x5E95, 0x90E8, 0x300C, 0x4FDD, 0x5B58, 0x300D, 0x6309, 0x94AE]
            @ js ''</strong>'' @ [0x4EE5, 0x5B8C, 0x6210, 0x5BFC, 0x5165, 0x3002]
              @ js ''</p><p>'' @ [0x5BFC, 0x5165, 0x4FE1, 0x606F, 0xFF1A] @ js ''</p>''))"

text \<open>Icon, title, introduction, and for each message its markup and its text.\<close>

definition import_dialog :: "message list \<Rightarrow> form_effect" where
  "import_dialog ms =
     (case showResult ms of
        (icon, title) \<Rightarrow>
          ImportDialog icon title (dialog_intro icon) (map (\<lambda>m. (message_prefix (fst m),
            snd m)) ms))"

text \<open>What reading the chosen file gives; without a chosen file nothing happens.\<close>

definition import_chosen ::
  "jstr \<Rightarrow> jstr reply option \<Rightarrow> desc_page \<Rightarrow> desc_page \<times> form_effect list"
where
  "import_chosen title file p =
     (case file of
        None \<Rightarrow> (p, [])
      | Some (Rejects _) \<Rightarrow> (p, [FileAlert [0x65E0, 0x6CD5, 0x8BFB, 0x53D6, 0x6240,
        0x9009, 0x7684, 0x6587, 0x4EF6]])
      | Some (Resolves md) \<Rightarrow>
          (case import_page title md p of (ms, q) \<Rightarrow> (q, [import_dialog ms])))"

text \<open>The link: the file's name, its type and its text.\<close>

definition export_clicked :: "jstr \<Rightarrow> desc_form \<Rightarrow> jstr \<times> jstr \<times> jstr" where
  "export_clicked title fm = ((js ''description.md''), (js ''text/markdown''),
    exportToMarkdown title fm)"

section \<open>Lemmas\<close>

lemma serializeObject_last: "serializeObject ps = map_of (rev ps)"
proof -
  have "fold (\<lambda>p m. m(fst p \<mapsto> snd p)) ps m = m ++ map_of (rev ps)" for m :: "jstr \<rightharpoonup> jstr"
    by (induction ps arbitrary: m) (auto simp: map_add_upd_left map_add_def fun_eq_iff split: option.split)
  then show ?thesis by (simp add: serializeObject_def)
qed

lemma sync_editors [simp]: "editors (snd (syncEditorTextarea n p)) = editors p"
  by (simp add: syncEditorTextarea_def split: reply.split option.split)

lemma sync_other: "m \<noteq> n \<Longrightarrow> areas (snd (syncEditorTextarea n p)) m = areas p m"
  by (simp add: syncEditorTextarea_def split: reply.split option.split)

text \<open>
  After a sync every text area of the element holds the editor's text, which stays what it was,
  and a second sync changes nothing.
\<close>

lemma sync_areas:
  assumes "getEditorMarkdown n p = Resolves t" and "areas p n = Some ts"
  shows "areas (snd (syncEditorTextarea n p)) n = Some (replicate (length ts) t)"
  using assms by (simp add: syncEditorTextarea_def map_replicate_const)

lemma sync_text:
  assumes "getEditorMarkdown n p = Resolves t"
  shows "getEditorMarkdown n (snd (syncEditorTextarea n p)) = Resolves t"
proof (cases "areas p n")
  case None
  with assms show ?thesis by (simp add: syncEditorTextarea_def)
next
  case (Some ts)
  then show ?thesis
    using assms sync_areas [OF assms Some]
    by (cases ts) (auto simp: getEditorMarkdown_def area_text_def split: option.splits)
qed

lemma sync_idem: "syncEditorTextarea n (snd (syncEditorTextarea n p)) = syncEditorTextarea n p"
proof (cases "getEditorMarkdown n p")
  case (Rejects m)
  then show ?thesis by (simp add: syncEditorTextarea_def)
next
  case (Resolves t)
  from sync_text [OF this] Resolves show ?thesis
    by (auto simp: syncEditorTextarea_def comp_def split: option.split)
qed

text \<open>Syncing other elements keeps the text of an editor that answers by itself.\<close>

lemma sync_text_other:
  assumes "getEditorMarkdown n p = Resolves t"
  shows "getEditorMarkdown n (snd (syncEditorTextarea m p)) = Resolves t"
proof (cases "m = n")
  case False
  then have "area_text n (snd (syncEditorTextarea m p)) = area_text n p"
    by (simp add: area_text_def sync_other)
  then show ?thesis using assms by (auto simp: getEditorMarkdown_def split: option.splits)
qed (simp add: sync_text assms)

lemma sync_length: "map_option length (areas (snd (syncEditorTextarea m p)) n) = map_option length (areas p n)"
  by (cases "m = n") (auto simp: sync_other syncEditorTextarea_def split: reply.split option.split)

definition shows_text :: "jstr \<Rightarrow> jstr \<Rightarrow> editor_page \<Rightarrow> bool" where
  "shows_text n t p \<longleftrightarrow> getEditorMarkdown n p = Resolves t
     \<and> (\<forall>ts. areas p n = Some ts \<longrightarrow> ts = replicate (length ts) t)"

lemma shows_text_keeps: "shows_text n t p \<Longrightarrow> shows_text n t (snd (syncEditorTextarea m p))"
proof -
  assume s: "shows_text n t p"
  then have t: "getEditorMarkdown n p = Resolves t" by (simp add: shows_text_def)
  show ?thesis
  proof (cases "m = n")
    case True
    then show ?thesis
      using sync_text [OF t] by (cases "areas p n") (auto simp: shows_text_def syncEditorTextarea_def t map_replicate_const)
  next
    case False
    then show ?thesis using s sync_text_other [OF t] sync_other [of n m p] by (simp add: shows_text_def)
  qed
qed

lemma shows_text_sync: "getEditorMarkdown n p = Resolves t \<Longrightarrow> shows_text n t (snd (syncEditorTextarea n p))"
  using sync_text [of n p t]
  by (cases "areas p n") (auto simp: shows_text_def syncEditorTextarea_def map_replicate_const)

lemma shows_text_all: "shows_text n t p \<Longrightarrow> fst (sync_all ms p) = None \<Longrightarrow> shows_text n t (snd (sync_all ms p))"
proof (induction ms arbitrary: p)
  case (Cons m ms)
  then show ?case
    using shows_text_keeps [OF Cons.prems(1), of m]
    by (cases "syncEditorTextarea m p") (auto split: reply.splits)
qed simp

lemma sync_all_shows:
  assumes "n \<in> set ns" and "getEditorMarkdown n p = Resolves t" and "fst (sync_all ns p) = None"
  shows "shows_text n t (snd (sync_all ns p))"
  using assms
proof (induction ns arbitrary: p)
  case (Cons m ns)
  define q where "q = snd (syncEditorTextarea m p)"
  have ok: "fst (sync_all ns q) = None" "sync_all (m # ns) p = sync_all ns q"
    using Cons.prems(3) by (auto simp: q_def split: reply.splits prod.splits)
  show ?case
  proof (cases "m = n")
    case True
    with Cons.prems(2) have "shows_text n t q" by (simp add: q_def shows_text_sync)
    then show ?thesis unfolding ok(2) by (rule shows_text_all [OF _ ok(1)])
  next
    case False
    with Cons.prems(1) have "n \<in> set ns" by simp
    moreover have "getEditorMarkdown n q = Resolves t"
      unfolding q_def by (rule sync_text_other [OF Cons.prems(2)])
    ultimately show ?thesis unfolding ok(2) by (rule Cons.IH [OF _ _ ok(1)])
  qed
qed simp

lemma sync_all_length:
  "map_option length (areas (snd (sync_all ms p)) n) = map_option length (areas p n)"
proof (induction ms arbitrary: p)
  case (Cons m ms)
  then show ?case
    using sync_length [of m p n] by (cases "syncEditorTextarea m p") (auto split: reply.split)
qed simp

text \<open>
  What is submitted is what the editors show. If bringing the text areas up to date before
  the form is read does not fail, then for every editor of the form each of its text areas
  holds the text the editor had, in the number there were, and the editor still has it,
  whichever other editors are brought up to date before and after it.
\<close>

lemma submitted_is_shown:
  assumes "n \<in> set ns" and "getEditorMarkdown n p = Resolves t" and "fst (sync_all ns p) = None"
  shows "getEditorMarkdown n (snd (sync_all ns p)) = Resolves t
     \<and> areas (snd (sync_all ns p)) n = map_option (\<lambda>ts. replicate (length ts) t) (areas p n)"
proof -
  have "shows_text n t (snd (sync_all ns p))" by (rule sync_all_shows [OF assms])
  then show ?thesis
    using sync_all_length [of ns p n]
    by (cases "areas p n"; cases "areas (snd (sync_all ns p)) n") (auto simp: shows_text_def)
qed

definition demo_editors :: editor_page where
  "demo_editors = \<lparr>editors = [js ''a'' \<mapsto> \<lparr>me_markdown = Some (Resolves (js ''new'')), me_cm = None\<rparr>],
     areas = [js ''a'' \<mapsto> [js ''old'', []], js ''b'' \<mapsto> [js ''kept'']]\<rparr>"

lemma submitted_is_shown_witness:
  "areas (snd (sync_all [js ''a'', js ''b''] demo_editors)) (js ''a'') = Some [js ''new'', js ''new'']"
proof -
  have "getEditorMarkdown (js ''a'') demo_editors = Resolves (js ''new'')"
    by (simp add: getEditorMarkdown_def demo_editors_def)
  moreover have "fst (sync_all [js ''a'', js ''b''] demo_editors) = None"
    by (simp add: syncEditorTextarea_def getEditorMarkdown_def area_text_def demo_editors_def)
  ultimately show ?thesis
    using submitted_is_shown [of "js ''a''" "[js ''a'', js ''b'']" demo_editors "js ''new''"]
    by (simp add: demo_editors_def numeral_2_eq_2 del: sync_all.simps)
qed

text \<open>Messages of an import never lose their text,
  and an error leaves the page as it is.\<close>

lemma import_error_keeps:
  assumes "import_chosen title (Some (Resolves md)) p = (q, es)"
    and "has_severity Error (fst (import_page title md p))"
  shows "q = p \<and> (\<exists>t xs. es = [ImportDialog Error t [] xs])"
  using assms by (auto simp: import_chosen_def import_page_def import_dialog_def showResult_def
      dialog_intro_def Let_def split: prod.splits if_splits)

end
