(* ===== verification/WorkerInput.thy ===== *)
theory WorkerInput
  imports ClangdWorker JSNumbers
begin

text \<open>
  The input side of the clangd worker as the language server sees it: a reader of the base
  protocol (a length, a blank line, that many bytes) run on the bytes that \<open>stdin\<close>
  hands out reads back the messages the page posted.
\<close>

section \<open>Reading the base protocol\<close>

text \<open>One message: its body and the bytes behind it.\<close>

definition read_frame :: "nat list \<Rightarrow> (nat list \<times> nat list) option" where
  "read_frame bs =
     (let hdr = js ''Content-Length: '' in
      if \<not> starts_with hdr bs then None
      else let r = drop (length hdr) bs;
               ds = takeWhile is_digit r;
               r1 = drop (length ds) r;
               n = digits_value ds
           in if \<not> starts_with [13, 10, 13, 10] r1 then None
              else let r2 = drop 4 r1
                   in if length r2 < n then None else Some (take n r2, drop n r2))"

text \<open>As many messages as there are, at most \<open>k\<close>.\<close>

fun read_frames :: "nat \<Rightarrow> nat list \<Rightarrow> nat list list" where
  "read_frames 0 bs = []"
| "read_frames (Suc k) bs =
     (case read_frame bs of None \<Rightarrow> [] | Some (b, r) \<Rightarrow> b # read_frames k r)"

section \<open>Frames\<close>

definition frame_bytes :: "jstr \<Rightarrow> nat list" where
  "frame_bytes t = concat (map text_encode (frame_chunks t))"

declare starts_with_append [simp]

lemma takeWhile_nat_str:
  "\<not> is_digit c \<Longrightarrow> takeWhile is_digit (nat_str n @ c # s) = nat_str n"
  using nat_str_digits [of n] by (simp add: takeWhile_append2 list_all_iff)

lemma frame_bytes_eq:
  "frame_bytes t = js ''Content-Length: '' @ nat_str (length (escape_body t))
     @ [13, 10, 13, 10] @ escape_body t"
  by (simp add: frame_bytes_def frame_length_exact text_encode_ascii escape_body_ascii)

lemma read_frame_bytes: "read_frame (frame_bytes t @ s) = Some (escape_body t, s)"
proof -
  let ?h = "js ''Content-Length: ''" and ?n = "nat_str (length (escape_body t))"
    and ?r = "[13, 10, 13, 10] @ escape_body t @ s"
  have "frame_bytes t @ s = ?h @ ?n @ ?r" by (simp add: frame_bytes_eq del: js_simps_list)
  moreover have "takeWhile is_digit (?n @ ?r) = ?n"
    using takeWhile_nat_str [of 13] by (simp add: is_digit_def)
  moreover have "starts_with [13, 10, 13, 10] ?r" by (rule starts_with_append)
  ultimately show ?thesis
    by (simp add: read_frame_def digits_value_nat_str Let_def del: js_simps_list)
qed

lemma read_all_frames:
  "length ts \<le> k \<Longrightarrow> read_frames k (concat (map frame_bytes ts)) = map escape_body ts"
proof (induction ts arbitrary: k)
  case Nil
  have "read_frame [] = None" by (simp add: read_frame_def starts_with_def)
  then show ?case by (cases k) simp_all
next
  case (Cons t ts)
  then show ?case by (cases k) (simp_all add: read_frame_bytes)
qed

lemma frames_length: "length ts \<le> length (concat (map frame_bytes ts))"
  by (induction ts) (auto simp: frame_bytes_eq)

section \<open>Messages\<close>

text \<open>The messages that are forwarded, in order.\<close>

fun rpcs :: "stdin_op list \<Rightarrow> jval list" where
  "rpcs [] = []"
| "rpcs (ReadByte # ops) = rpcs ops"
| "rpcs (Message d # ops) = (if is_rpc d then d # rpcs ops else rpcs ops)"

lemma framed_rpcs:
  "released (stdin_step str) (stdin_framed str) ops s
     = concat (map (\<lambda>d. frame_bytes (str d)) (rpcs ops))"
  by (induction ops arbitrary: s rule: rpcs.induct) (simp_all add: frame_bytes_def)

section \<open>Enough reads\<close>

text \<open>How many reads are queued, and how many the forwarded messages add.\<close>

definition queued_reads :: "stdin_state \<Rightarrow> nat" where
  "queued_reads s = length (currentStdinChunk s)
     + sum_list (map (\<lambda>t. Suc (length (text_encode t))) (stdinChunks s))"

definition message_reads :: "(jval \<Rightarrow> jstr) \<Rightarrow> jval list \<Rightarrow> nat" where
  "message_reads str ds = sum_list (map (\<lambda>d. length (frame_bytes (str d)) + 3) ds)"

lemma frame_reads:
  "sum_list (map (\<lambda>t. Suc (length (text_encode t))) (frame_chunks t)) = length (frame_bytes t) + 3"
  by (simp add: frame_bytes_def frame_chunks_def Let_def)

lemma read_reads: "queued_reads (snd (worker_stdin s)) = queued_reads s - 1"
  by (simp add: queued_reads_def worker_stdin_def Let_def split: list.split)

lemma message_adds:
  "queued_reads (worker_onmessage str d s)
     = queued_reads s + (if is_rpc d then length (frame_bytes (str d)) + 3 else 0)"
  using frame_reads [of "str d"] by (simp add: queued_reads_def worker_onmessage_def)

lemma run_reads:
  "queued_reads (fold (stdin_step str) ops s) \<le> queued_reads s + message_reads str (rpcs ops)"
proof (induction ops arbitrary: s)
  case (Cons op ops)
  show ?case
  proof (cases op)
    case ReadByte
    then show ?thesis using Cons [of "snd (worker_stdin s)"] by (simp add: read_reads)
  next
    case (Message d)
    then show ?thesis
      using Cons [of "worker_onmessage str d s"]
      by (cases "is_rpc d") (simp_all add: message_adds message_reads_def)
  qed
qed simp

lemma reads_drain: "queued_reads (fold (stdin_step str) (replicate k ReadByte) s) = queued_reads s - k"
  by (induction k arbitrary: s) (simp_all add: read_reads)

lemma drained: "queued_reads s = 0 \<Longrightarrow> stdin_bytes s = []"
  by (simp add: queued_reads_def stdin_bytes_def)

lemma rpcs_append: "rpcs (ops @ ops') = rpcs ops @ rpcs ops'"
  by (induction ops rule: rpcs.induct) auto

lemma rpcs_reads [simp]: "rpcs (replicate k ReadByte) = []"
  by (induction k) auto

section \<open>What the server reads\<close>

text \<open>
  C16: the language server reads what the page posted. However its reads and the page's messages
  interleave, after as many more reads as the messages have bytes (and three for each, the
  marks between the pieces), the server, reading the bytes it was given by the announced
  lengths, has one body for each message that is no control message, in order, and each body is
  a JSON text that means what \<open>JSON.stringify\<close> made of the message.
\<close>

theorem server_reads_messages:
  assumes "message_reads str (rpcs ops) \<le> k" and "list_all (\<lambda>d. escapes_ok (str d)) (rpcs ops)"
  shows "let bs = released (stdin_step str) stdin_read (ops @ replicate k ReadByte) stdin_init
         in map unescape_u (read_frames (length bs) bs) = map (\<lambda>d. unescape_u (str d)) (rpcs ops)"
proof -
  let ?all = "ops @ replicate k ReadByte" and ?ts = "map str (rpcs ops)"
  have "queued_reads stdin_init = 0" "stdin_bytes stdin_init = []"
    by (simp_all add: stdin_init_def stdin_bytes_def queued_reads_def)
  then have "stdin_bytes (fold (stdin_step str) ?all stdin_init) = []"
    using run_reads [of str ops stdin_init] assms(1)
      reads_drain [of str k "fold (stdin_step str) ops stdin_init"]
    by (intro drained) simp
  with \<open>stdin_bytes stdin_init = []\<close>
  have bs: "released (stdin_step str) stdin_read ?all stdin_init = concat (map frame_bytes ?ts)"
    using stdinq.run_fifo [OF TrueI run_ok_True, of str ?all stdin_init]
    by (simp add: framed_rpcs rpcs_append comp_def)
  have "map unescape_u (map escape_body ?ts) = map unescape_u ?ts"
    using assms(2) by (simp add: list_all_iff escape_body_roundtrip)
  then show ?thesis
    unfolding bs Let_def read_all_frames [OF frames_length] by (simp add: comp_def)
qed

text \<open>A page that posts a message, a control message and another one, with a read in between.\<close>

definition demo_str :: "jval \<Rightarrow> jstr" where
  "demo_str d = (case d of JArr [] \<Rightarrow> [91, 93] | _ \<Rightarrow> [91, 34, 0x4F60, 34, 93])"

definition demo_posts :: "stdin_op list" where
  "demo_posts = [Message (JArr []), Message JNull, ReadByte, Message (JArr [JNull])]"

theorem server_reads_messages_witness:
  "let bs = released (stdin_step demo_str) stdin_read (demo_posts @ replicate 65 ReadByte) stdin_init
   in map unescape_u (read_frames (length bs) bs) = [[91, 93], [91, 34, 0x4F60, 34, 93]]"
proof -
  have r: "rpcs demo_posts = [JArr [], JArr [JNull]]" by (simp add: demo_posts_def is_rpc_def)
  have "length (escape_body (demo_str (JArr []))) = 2" "length (escape_body (demo_str (JArr [JNull]))) = 10"
    by (simp_all add: demo_str_def escape_body_def escape_unit_def hex4_def)
  moreover have "length (nat_str 2) = 1" "length (nat_str 10) = 2"
    by (simp_all add: nat_str_def digits_rev.simps)
  ultimately have "message_reads demo_str (rpcs demo_posts) \<le> 65"
    unfolding r by (simp add: message_reads_def frame_bytes_eq)
  moreover have "list_all (\<lambda>d. escapes_ok (demo_str d)) (rpcs demo_posts)"
    unfolding r by (simp add: demo_str_def)
  ultimately show ?thesis
    using server_reads_messages [of demo_str demo_posts 65] unfolding r Let_def
    by (simp add: demo_str_def)
qed

end
