(* ===== verification/ChunkServer.thy ===== *)
theory ChunkServer
  imports JSPrelude "HOL-Library.AList" "HOL-Library.List_Lexorder" "HOL-Library.Word"
begin

text \<open>
  The chunk server of the proctoring (\<open>src/proctor2/main.py\<close>), which the uploader of
  \<open>proctor.js\<close> posts its chunks to: the sessions with their tokens and segments, the
  spool directory with one file per track and segment, the upload of a finished session to the
  object store with its queue of retries, the sweep of idle sessions, and the registry that
  survives a restart.

  A handler that awaits is cut where other requests change what it sees. \<open>handle_chunk\<close>
  is \<open>chunk_head\<close> (up to reading the body) and \<open>chunk_body\<close>; an upload to the
  object store is given by a function from keys to its success and to the chunk requests that are
  served while it is awaited. A dictionary is an association list in insertion order, a directory
  one in the order of \<open>iterdir\<close>, and a string is a list of code points. Times are whole
  seconds. The sources of randomness and of failure that matter are arguments: the answers of the
  object store, and whether the registry could be written. The spool disk does not fail.
\<close>

section \<open>Python\<close>

type_synonym bytes = "8 word list"

text \<open>
  What a deployment sets (\<open>INTERNAL_AUTH\<close>, the origins, the environment), and the tables
  of Unicode beyond ASCII that \<open>str.isdigit\<close> and \<open>int\<close> read.
\<close>

record conf =
  c_auth :: jstr
  c_origin :: jstr
  c_wildcard :: bool
  c_env :: jstr
  c_isdigit :: "nat \<Rightarrow> bool"
  c_decimal :: "nat \<Rightarrow> nat option"

definition ends_with :: "'a list \<Rightarrow> 'a list \<Rightarrow> bool" where
  "ends_with p s \<longleftrightarrow> starts_with (rev p) (rev s)"

definition ascii_digit :: "nat \<Rightarrow> bool" where
  "ascii_digit x \<longleftrightarrow> 48 \<le> x \<and> x \<le> 57"

definition isdigit :: "conf \<Rightarrow> jstr \<Rightarrow> bool" where
  "isdigit c s \<longleftrightarrow> s \<noteq> [] \<and> list_all (\<lambda>x. ascii_digit x \<or> 128 \<le> x \<and> c_isdigit c x) s"

definition py_digit :: "conf \<Rightarrow> nat \<Rightarrow> nat option" where
  "py_digit c x = (if ascii_digit x then Some (x - 48) else if 128 \<le> x then c_decimal c x else None)"

text \<open>
  \<open>int(s)\<close>: a sign, digits, single underscores between digits, at most 4300 digits.
\<close>

fun py_nat :: "conf \<Rightarrow> nat \<Rightarrow> jstr \<Rightarrow> nat option" where
  "py_nat c acc [] = Some acc"
| "py_nat c acc (x # xs) =
    (case py_digit c x of
       Some d \<Rightarrow> py_nat c (10 * acc + d) xs
     | None \<Rightarrow>
         if x = 95 then
           (case xs of
              [] \<Rightarrow> None
            | y # ys \<Rightarrow> (case py_digit c y of None \<Rightarrow> None | Some d \<Rightarrow> py_nat c (10 * acc + d) ys))
         else None)"

definition py_unsigned :: "conf \<Rightarrow> jstr \<Rightarrow> int option" where
  "py_unsigned c s =
    (if length (filter (\<lambda>x. x \<noteq> 95) s) > 4300 then None
     else case s of
       [] \<Rightarrow> None
     | x # xs \<Rightarrow>
         (case py_digit c x of None \<Rightarrow> None | Some d \<Rightarrow> map_option int (py_nat c d xs)))"

definition py_int :: "conf \<Rightarrow> jstr \<Rightarrow> int option" where
  "py_int c s =
    (case py_strip s of
       [] \<Rightarrow> None
     | x # xs \<Rightarrow>
         if x = 45 then map_option uminus (py_unsigned c xs)
         else if x = 43 then py_unsigned c xs
         else py_unsigned c (x # xs))"

section \<open>State\<close>

text \<open>
  An entry of \<open>_sessions\<close>. The set \<open>kinds\<close> is shared between the entries of one
  session: each registration copies the reference, so \<open>s_kinds\<close> is an address of
  \<open>kinds_heap\<close>. The elements of the set are listed without repetition.
\<close>

record sess =
  s_token :: jstr
  s_kinds :: nat
  s_meta :: jval
  s_last :: int
  s_segment :: nat

type_synonym dir = "(jstr \<times> bytes) list"

text \<open>
  The registry on disk: absent, unreadable, the old layout with the sessions at top level, or
  the sessions with the queue. An entry that is no dictionary is \<open>NotDict\<close>; the fields of
  one that is may be missing.
\<close>

datatype entry =
    NotDict
  | Entry (e_token: "jstr option") (e_kinds: "jstr list option") (e_meta: "jval option")
      (e_last: "int option") (e_segment: "nat option")

datatype registry_file =
    NoFile
  | Garbage
  | Flat "(jstr \<times> entry) list"
  | Saved "(jstr \<times> entry) list" "(jstr \<times> nat \<times> int) list"

text \<open>The answers of the server.\<close>

record seg_info =
  g_key :: jstr
  g_segment :: "int option"
  g_bytes :: nat

record kind_info =
  k_prefix :: jstr
  k_segments :: "seg_info list"
  k_total :: nat

type_synonym uploaded = "(jstr \<times> kind_info) list"

datatype answer =
    Registered nat
  | Stored nat int nat
  | EmptyChunk
  | Finalized uploaded
  | Pending uploaded "jstr list"
  | Dropped
  | Refused nat jstr
  | Crashed

text \<open>What \<open>handle_chunk\<close> holds while it waits for the body.\<close>

record chunk_ctx =
  x_sid :: jstr
  x_kind :: jstr
  x_seq :: int
  x_kinds :: nat
  x_segment :: nat

text \<open>
  The process (\<open>sessions\<close>, \<open>kinds_heap\<close>, the retry queue with the attempts and the
  time of the next one, the chunk requests whose body is awaited, by a number for each, and the
  answers sent to chunk requests), the disk (\<open>spool\<close>, \<open>registry\<close>) and the object
  store.
\<close>

record server =
  sessions :: "(jstr \<times> sess) list"
  kinds_heap :: "jstr list list"
  queue :: "(jstr \<times> nat \<times> int) list"
  opened :: "(nat \<times> chunk_ctx) list"
  sent :: "(nat \<times> answer) list"
  spool :: "(jstr \<times> dir) list"
  registry :: registry_file
  bucket :: "jstr \<Rightarrow> bytes option"

definition empty_server :: server where
  "empty_server = \<lparr>sessions = [], kinds_heap = [], queue = [], opened = [], sent = [], spool = [],
     registry = NoFile, bucket = (\<lambda>_. None)\<rparr>"

definition ALLOWED_KINDS :: "jstr list" where
  "ALLOWED_KINDS = [js ''camera'', js ''screen'']"

definition MAX_CHUNK_BYTES :: nat where
  "MAX_CHUNK_BYTES = 16 * 1024 * 1024"

definition MAX_SESSION_BYTES :: nat where
  "MAX_SESSION_BYTES = 12 * 1024 ^ 3"

definition SESSION_TTL_SECS :: int where
  "SESSION_TTL_SECS = 4 * 60 * 60"

section \<open>The spool\<close>

text \<open>\<open>_spool_path\<close>, within the directory of the session.\<close>

definition spool_name :: "jstr \<Rightarrow> nat \<Rightarrow> jstr" where
  "spool_name kind segment = kind @ js ''-'' @ nat_str segment @ js ''.webm''"

definition of_kind :: "jstr \<Rightarrow> jstr \<Rightarrow> bool" where
  "of_kind kind name \<longleftrightarrow> starts_with (kind @ js ''-'') name \<and> ends_with (js ''.webm'') name"

text \<open>\<open>path.stem.split('-', 1)[1]\<close> for a file of the kind.\<close>

definition seg_text :: "jstr \<Rightarrow> jstr \<Rightarrow> jstr" where
  "seg_text kind name = drop (length kind + 1) (take (length name - 5) name)"

definition dir_of :: "jstr \<Rightarrow> server \<Rightarrow> dir" where
  "dir_of sid st = (case map_of (spool st) sid of None \<Rightarrow> [] | Some d \<Rightarrow> d)"

definition file_of :: "jstr \<Rightarrow> jstr \<Rightarrow> server \<Rightarrow> bytes" where
  "file_of sid name st = (case map_of (dir_of sid st) name of None \<Rightarrow> [] | Some b \<Rightarrow> b)"

definition mkdir :: "jstr \<Rightarrow> server \<Rightarrow> server" where
  "mkdir sid st = st\<lparr>spool := AList.update sid (dir_of sid st) (spool st)\<rparr>"

text \<open>\<open>_append\<close>: the directory is made when it is missing, the file opened for appending.\<close>

definition append_file :: "jstr \<Rightarrow> jstr \<Rightarrow> bytes \<Rightarrow> server \<Rightarrow> server" where
  "append_file sid name body st =
    st\<lparr>spool := AList.update sid (AList.update name (file_of sid name st @ body) (dir_of sid st)) (spool st)\<rparr>"

definition unlink :: "jstr \<Rightarrow> jstr \<Rightarrow> server \<Rightarrow> server" where
  "unlink sid name st =
    st\<lparr>spool := AList.update sid (AList.delete name (dir_of sid st)) (spool st)\<rparr>"

definition cleanup_session_dir :: "jstr \<Rightarrow> server \<Rightarrow> server" where
  "cleanup_session_dir sid st = st\<lparr>spool := AList.delete sid (spool st)\<rparr>"

text \<open>The bytes of a kind over all its segments, as \<open>handle_chunk\<close> sums them.\<close>

definition kind_bytes :: "jstr \<Rightarrow> jstr \<Rightarrow> server \<Rightarrow> nat" where
  "kind_bytes sid kind st =
    sum_list (map (\<lambda>(name, b). length b) (filter (\<lambda>(name, b). of_kind kind name) (dir_of sid st)))"

section \<open>The registry\<close>

definition kinds_of :: "server \<Rightarrow> nat \<Rightarrow> jstr list" where
  "kinds_of st a = (if a < length (kinds_heap st) then kinds_heap st ! a else [])"

definition registry_snapshot :: "server \<Rightarrow> registry_file" where
  "registry_snapshot st =
    Saved
      (map (\<lambda>(sid, s). (sid, Entry (Some (s_token s)) (Some (kinds_of st (s_kinds s))) (Some (s_meta s))
         (Some (s_last s)) (Some (s_segment s)))) (sessions st))
      (queue st)"

text \<open>\<open>_save_registry\<close>: best effort, \<open>w\<close> is whether the file could be written.\<close>

definition save_registry :: "bool \<Rightarrow> server \<Rightarrow> server" where
  "save_registry w st = (if w then st\<lparr>registry := registry_snapshot st\<rparr> else st)"

definition restore_entry :: "int \<Rightarrow> jstr \<times> entry \<Rightarrow> server \<Rightarrow> server" where
  "restore_entry now se st =
    (case snd se of
       NotDict \<Rightarrow> st
     | Entry tok ks m la sg \<Rightarrow>
         (case tok of
            None \<Rightarrow> st
          | Some t \<Rightarrow>
              st\<lparr>sessions := AList.update (fst se)
                   \<lparr>s_token = t, s_kinds = length (kinds_heap st),
                    s_meta = (case m of None \<Rightarrow> JObj [] | Some v \<Rightarrow> v),
                    s_last = (case la of None \<Rightarrow> now | Some v \<Rightarrow> v),
                    s_segment = (case sg of None \<Rightarrow> 0 | Some v \<Rightarrow> v)\<rparr> (sessions st),
                 kinds_heap := kinds_heap st @ [remdups (case ks of None \<Rightarrow> [] | Some v \<Rightarrow> v)]\<rparr>))"

definition load_registry :: "int \<Rightarrow> server \<Rightarrow> server" where
  "load_registry now st =
    (case registry st of
       NoFile \<Rightarrow> st
     | Garbage \<Rightarrow> st
     | Flat es \<Rightarrow> fold (restore_entry now) es st
     | Saved es fq \<Rightarrow>
         (let st1 = fold (restore_entry now) es st
          in st1\<lparr>queue := fold (\<lambda>(sid, q). AList.update sid q) fq (queue st1)\<rparr>))"

text \<open>A new process: what was in memory is gone, the disk and the object store stay.\<close>

definition restart :: "int \<Rightarrow> server \<Rightarrow> server" where
  "restart now st =
    load_registry now (st\<lparr>sessions := [], kinds_heap := [], queue := [], opened := []\<rparr>)"

section \<open>Authorisation\<close>

text \<open>
  \<open>hmac.compare_digest\<close> raises for texts outside ASCII. \<open>None\<close>: the check passes.
\<close>

definition check_internal :: "conf \<Rightarrow> jstr \<Rightarrow> answer option" where
  "check_internal c hdr =
    (if hdr = [] then Some (Refused 403 (js ''bad internal auth''))
     else if \<not> ascii hdr \<or> \<not> ascii (c_auth c) then Some Crashed
     else if hdr \<noteq> c_auth c then Some (Refused 403 (js ''bad internal auth''))
     else None)"

definition bearer :: jstr where
  "bearer = js ''Bearer ''"

definition check_session_token :: "int \<Rightarrow> jstr \<Rightarrow> jstr \<Rightarrow> server \<Rightarrow> (answer + sess) \<times> server" where
  "check_session_token now hdr sid st =
    (if \<not> starts_with bearer hdr then (Inl (Refused 403 (js ''bad auth'')), st)
     else let t = drop (length bearer) hdr in
       case map_of (sessions st) sid of
         None \<Rightarrow> (Inl (if ascii t then Refused 403 (js ''bad auth'') else Crashed), st)
       | Some s \<Rightarrow>
           if \<not> ascii t \<or> \<not> ascii (s_token s) then (Inl Crashed, st)
           else if t \<noteq> s_token s then (Inl (Refused 403 (js ''bad auth'')), st)
           else let s' = s\<lparr>s_last := now\<rparr>
             in (Inr s', st\<lparr>sessions := AList.update sid s' (sessions st)\<rparr>))"

section \<open>Handlers\<close>

text \<open>
  \<open>handle_register_session\<close>. The body is \<open>None\<close> when it is no JSON; a body that is
  no dictionary has no \<open>get\<close>.
\<close>

definition register_session :: "conf \<Rightarrow> int \<Rightarrow> bool \<Rightarrow> jstr \<Rightarrow> jstr \<Rightarrow> jval option \<Rightarrow> server \<Rightarrow> answer \<times> server" where
  "register_session c now w hdr sid body st =
    (case check_internal c hdr of
       Some a \<Rightarrow> (a, st)
     | None \<Rightarrow>
         if \<not> isdigit c sid then (Refused 400 (js ''bad session_id''), st)
         else case body of
           None \<Rightarrow> (Refused 400 (js ''bad json''), st)
         | Some (JObj kvs) \<Rightarrow>
             (case jget (js ''token'') (JObj kvs) of
                JStr token \<Rightarrow>
                  if length token < 32 \<or> length token > 128 then (Refused 400 (js ''bad token''), st)
                  else
                    let existing = map_of (sessions st) sid;
                        seg = (case existing of None \<Rightarrow> 0 | Some s \<Rightarrow> s_segment s + 1);
                        (kinds, heap) = (case existing of
                           None \<Rightarrow> (length (kinds_heap st), kinds_heap st @ [[]])
                         | Some s \<Rightarrow> (s_kinds s, kinds_heap st));
                        m = jget (js ''meta'') (JObj kvs);
                        s' = \<lparr>s_token = token, s_kinds = kinds,
                              s_meta = (if py_truthy m then m else JObj []), s_last = now, s_segment = seg\<rparr>;
                        st1 = st\<lparr>sessions := AList.update sid s' (sessions st), kinds_heap := heap\<rparr>
                    in (Registered seg, save_registry w (mkdir sid st1))
              | _ \<Rightarrow> (Refused 400 (js ''bad token''), st))
         | Some _ \<Rightarrow> (Crashed, st))"

text \<open>
  \<open>handle_chunk\<close> up to \<open>await request.read()\<close>: the answer, or what it goes on with.
  Then from the body on. A body that the framework finds larger than its own limit is refused with
  the same status by the framework.
\<close>

definition chunk_head :: "int \<Rightarrow> conf \<Rightarrow> jstr \<Rightarrow> jstr \<Rightarrow> jstr \<Rightarrow> jstr \<Rightarrow> nat option \<Rightarrow> server
    \<Rightarrow> (answer + chunk_ctx) \<times> server" where
  "chunk_head now c hdr sid kind seq declared st =
    (case check_session_token now hdr sid st of
       (Inl a, st1) \<Rightarrow> (Inl a, st1)
     | (Inr s, st1) \<Rightarrow>
         if kind \<notin> set ALLOWED_KINDS then (Inl (Refused 400 (js ''bad kind'')), st1)
         else case py_int c seq of
           None \<Rightarrow> (Inl (Refused 400 (js ''bad seq'')), st1)
         | Some n \<Rightarrow>
             if n < 0 \<or> n > 10000000 then (Inl (Refused 400 (js ''bad seq'')), st1)
             else if (case declared of None \<Rightarrow> False | Some d \<Rightarrow> d > MAX_CHUNK_BYTES)
             then (Inl (Refused 413 (js ''chunk too large'')), st1)
             else (Inr \<lparr>x_sid = sid, x_kind = kind, x_seq = n, x_kinds = s_kinds s,
                        x_segment = s_segment s\<rparr>, st1))"

definition chunk_body :: "chunk_ctx \<Rightarrow> bytes \<Rightarrow> server \<Rightarrow> answer \<times> server" where
  "chunk_body x body st =
    (if length body > MAX_CHUNK_BYTES then (Refused 413 (js ''chunk too large''), st)
     else if body = [] then (EmptyChunk, st)
     else if kind_bytes (x_sid x) (x_kind x) st + length body > MAX_SESSION_BYTES
     then (Refused 413 (js ''session too large''), st)
     else let st1 = append_file (x_sid x) (spool_name (x_kind x) (x_segment x)) body st
       in (Stored (length body) (x_seq x) (x_segment x),
           st1\<lparr>kinds_heap := (kinds_heap st1)[x_kinds x := List.insert (x_kind x) (kinds_of st1 (x_kinds x))]\<rparr>))"

text \<open>
  Chunk requests arrive in two parts; each has a number. A request that is answered leaves
  \<open>opened\<close>.
\<close>

datatype chunk_event =
    Head nat int jstr jstr jstr jstr "nat option"
  | Body nat bytes

fun chunk_step :: "conf \<Rightarrow> chunk_event \<Rightarrow> server \<Rightarrow> server" where
  "chunk_step c (Head r now hdr sid kind seq declared) st =
    (case chunk_head now c hdr sid kind seq declared st of
       (Inl a, st1) \<Rightarrow> st1\<lparr>sent := sent st1 @ [(r, a)]\<rparr>
     | (Inr x, st1) \<Rightarrow> st1\<lparr>opened := (r, x) # opened st1\<rparr>)"
| "chunk_step c (Body r body) st =
    (case map_of (opened st) r of
       None \<Rightarrow> st
     | Some x \<Rightarrow>
         (case chunk_body x body (st\<lparr>opened := AList.delete r (opened st)\<rparr>) of
            (a, st1) \<Rightarrow> st1\<lparr>sent := sent st1 @ [(r, a)]\<rparr>))"

section \<open>Finalizing a session\<close>

text \<open>\<open>by_kind\<close>: the names of the files of each kind, in the order of the sorted directory.\<close>

definition kind_of :: "jstr \<Rightarrow> jstr option" where
  "kind_of name = find (\<lambda>k. of_kind k name) ALLOWED_KINDS"

definition by_kind :: "jstr list \<Rightarrow> (jstr \<times> jstr list) list" where
  "by_kind names =
    fold (\<lambda>name m. case kind_of name of
        None \<Rightarrow> m
      | Some k \<Rightarrow> AList.update k ((case map_of m k of None \<Rightarrow> [] | Some l \<Rightarrow> l) @ [name]) m)
      names []"

definition object_key :: "jstr \<Rightarrow> jstr \<Rightarrow> jstr \<Rightarrow> jstr" where
  "object_key sid kind name = sid @ js ''/'' @ kind @ js ''/'' @ seg_text kind name @ js ''.webm''"

text \<open>
  The uploads of one kind. \<open>up key\<close> says whether the upload to \<open>key\<close> succeeds and which
  chunk requests are served while it is awaited; the object is what the file held when the upload
  began. The files of a session are removed by nothing else during its upload. The result is the
  segment list, and whether all went well.
\<close>

type_synonym store = "jstr \<Rightarrow> bool \<times> chunk_event list"

fun upload_files :: "conf \<Rightarrow> store \<Rightarrow> jstr \<Rightarrow> jstr \<Rightarrow> jstr list \<Rightarrow> seg_info list \<Rightarrow> server
    \<Rightarrow> (seg_info list \<times> bool) \<times> server" where
  "upload_files c up sid kind [] acc st = ((acc, True), st)"
| "upload_files c up sid kind (name # names) acc st =
    (let data = file_of sid name st in
     if data = [] then upload_files c up sid kind names acc st
     else
       let key = object_key sid kind name; st1 = fold (chunk_step c) (snd (up key)) st in
       if fst (up key) then
         upload_files c up sid kind names
           (acc @ [\<lparr>g_key = key, g_segment = py_int c (seg_text kind name),
                    g_bytes = length (file_of sid name st1)\<rparr>])
           (st1\<lparr>bucket := (bucket st1)(key := Some data)\<rparr>)
       else ((acc, False), st1))"

fun finalize_kinds :: "conf \<Rightarrow> store \<Rightarrow> jstr \<Rightarrow> (jstr \<times> jstr list) list \<Rightarrow> uploaded \<Rightarrow> jstr list \<Rightarrow> server
    \<Rightarrow> (uploaded \<times> jstr list) \<times> server" where
  "finalize_kinds c up sid [] fin left st = ((fin, left), st)"
| "finalize_kinds c up sid ((kind, names) # ks) fin left st =
    (case upload_files c up sid kind names [] st of
       ((segs, all_ok), st1) \<Rightarrow>
         if all_ok then
           finalize_kinds c up sid ks
             (fin @ [(kind, \<lparr>k_prefix = sid @ js ''/'' @ kind @ js ''/'', k_segments = segs,
                               k_total = sum_list (map g_bytes segs)\<rparr>)])
             left (fold (unlink sid) names st1)
         else finalize_kinds c up sid ks fin (left @ [kind]) st1)"

definition do_finalize :: "conf \<Rightarrow> store \<Rightarrow> jstr \<Rightarrow> server \<Rightarrow> (uploaded \<times> jstr list) \<times> server" where
  "do_finalize c up sid st =
    (case map_of (spool st) sid of
       None \<Rightarrow> (([], []), st)
     | Some d \<Rightarrow> finalize_kinds c up sid (by_kind (sort (map fst d))) [] [] st)"

text \<open>
  \<open>handle_finalize\<close>. \<open>late\<close> are the chunk requests served between the last upload and
  the removal of the directory, which runs in a thread of its own.
\<close>

definition forget :: "jstr \<Rightarrow> server \<Rightarrow> server" where
  "forget sid st =
    st\<lparr>sessions := AList.delete sid (sessions st), queue := AList.delete sid (queue st)\<rparr>"

definition handle_finalize :: "conf \<Rightarrow> int \<Rightarrow> bool \<Rightarrow> store \<Rightarrow> chunk_event list \<Rightarrow> jstr \<Rightarrow> jstr \<Rightarrow> server
    \<Rightarrow> answer \<times> server" where
  "handle_finalize c now w up late hdr sid st =
    (case check_internal c hdr of
       Some a \<Rightarrow> (a, st)
     | None \<Rightarrow>
         if \<not> isdigit c sid then (Refused 400 (js ''bad session_id''), st)
         else if map_of (sessions st) sid = None \<and> map_of (spool st) sid = None
         then (Refused 404 (js ''unknown session''), st)
         else (case do_finalize c up sid st of
           ((fin, left), st1) \<Rightarrow>
             if left \<noteq> [] then
               (Pending fin left,
                save_registry w (st1\<lparr>queue := AList.update sid (1, now + 60) (queue st1)\<rparr>))
             else
               (Finalized fin,
                save_registry w (forget sid (cleanup_session_dir sid (fold (chunk_step c) late st1))))))"

text \<open>
  One round of \<open>_finalize_retry_loop\<close>: the sessions that are due, one after the other. The
  lookup of the queue before each finds the entry, as nothing in the round before it removes it.
\<close>

definition retry_one :: "conf \<Rightarrow> int \<Rightarrow> bool \<Rightarrow> store \<Rightarrow> jstr \<Rightarrow> server \<Rightarrow> server" where
  "retry_one c now w up sid st =
    (case map_of (queue st) sid of
       None \<Rightarrow> st
     | Some (attempts, next) \<Rightarrow>
         (case do_finalize c up sid st of
            ((fin, left), st1) \<Rightarrow>
              if left = [] then save_registry w (forget sid (cleanup_session_dir sid st1))
              else if attempts + 1 > 8 then st1\<lparr>queue := AList.delete sid (queue st1)\<rparr>
              else st1\<lparr>queue := AList.update sid
                (attempts + 1, now + min (60 * 2 ^ attempts) 1800) (queue st1)\<rparr>))"

definition retry_round :: "conf \<Rightarrow> int \<Rightarrow> bool \<Rightarrow> store \<Rightarrow> server \<Rightarrow> server" where
  "retry_round c now w up st =
    fold (retry_one c now w up)
      (map fst (filter (\<lambda>(sid, attempts, next). next \<le> now) (queue st))) st"

text \<open>\<open>handle_abort\<close>, and one round of \<open>_ttl_sweeper\<close>.\<close>

definition handle_abort :: "conf \<Rightarrow> bool \<Rightarrow> jstr \<Rightarrow> jstr \<Rightarrow> server \<Rightarrow> answer \<times> server" where
  "handle_abort c w hdr sid st =
    (case check_internal c hdr of
       Some a \<Rightarrow> (a, st)
     | None \<Rightarrow>
         if \<not> isdigit c sid then (Refused 400 (js ''bad session_id''), st)
         else (let st1 = cleanup_session_dir sid st
           in (Dropped, save_registry w (st1\<lparr>sessions := AList.delete sid (sessions st1)\<rparr>))))"

definition drop_idle :: "jstr \<Rightarrow> server \<Rightarrow> server" where
  "drop_idle sid st =
    (let st1 = cleanup_session_dir sid st in st1\<lparr>sessions := AList.delete sid (sessions st1)\<rparr>)"

definition ttl_sweep :: "int \<Rightarrow> bool \<Rightarrow> server \<Rightarrow> server" where
  "ttl_sweep now w st =
    (let stale = map fst (filter (\<lambda>(sid, s). s_last s < now - SESSION_TTL_SECS) (sessions st));
         st1 = fold drop_idle stale st
     in if stale = [] then st1 else save_registry w st1)"

section \<open>Preview\<close>

text \<open>
  \<open>handle_preview\<close>: which file it shows, which range of it, and the loop that sends the range
  in blocks of 64 KiB. The file is read anew for each block, while chunks may be appended to it:
  \<open>at n\<close> is its contents at the n-th read. The times of modification are an argument.
\<close>

datatype preview =
    NoPreview nat jstr
  | PreviewCrashed
  | Preview nat nat nat nat bytes

fun first_filled :: "jstr \<Rightarrow> server \<Rightarrow> jstr list \<Rightarrow> jstr option" where
  "first_filled sid st [] = None"
| "first_filled sid st (n # ns) = (if file_of sid n st \<noteq> [] then Some n else first_filled sid st ns)"

definition preview_file :: "conf \<Rightarrow> jstr \<Rightarrow> jstr \<Rightarrow> server \<Rightarrow> preview + jstr" where
  "preview_file c sid kind st =
    (let seg = (case map_of (sessions st) sid of None \<Rightarrow> 0 | Some s \<Rightarrow> s_segment s);
         name = spool_name kind seg
     in if map_of (dir_of sid st) name \<noteq> None then Inr name
        else case map_of (spool st) sid of
          None \<Rightarrow> Inl (NoPreview 404 (js ''no spool yet''))
        | Some d \<Rightarrow>
            (let names = filter (of_kind kind) (map fst d) in
             if \<exists>n \<in> set names. py_int c (seg_text kind n) = None then Inl PreviewCrashed
             else case first_filled sid st
                 (sort_key (\<lambda>n. case py_int c (seg_text kind n) of None \<Rightarrow> 0 | Some i \<Rightarrow> - i) names) of
               None \<Rightarrow> Inl (NoPreview 404 (js ''no spool yet''))
             | Some n \<Rightarrow> Inr n))"

definition preview_range :: "conf \<Rightarrow> jstr \<Rightarrow> nat \<Rightarrow> preview + (bool \<times> nat \<times> nat)" where
  "preview_range c rng filesize =
    (if \<not> starts_with (js ''bytes='') rng then Inr (False, 0, filesize - 1)
     else
       let spec = drop 6 rng; a = takeWhile (\<lambda>x. x \<noteq> 45) spec; b = drop (length a + 1) spec;
           lo = (if a = [] then Some 0 else py_int c a);
           hi = (if b = [] then Some (int filesize - 1) else py_int c b)
       in if 45 \<notin> set spec then Inl (NoPreview 416 (js ''bad range''))
       else case (lo, hi) of
         (Some l, Some h) \<Rightarrow>
           if l \<ge> int filesize \<or> l > h then Inl (NoPreview 416 (js ''range unsatisfiable''))
           else Inr (True, nat l, nat (min h (int filesize - 1)))
       | _ \<Rightarrow> Inl (NoPreview 416 (js ''bad range'')))"

definition BLOCK :: nat where
  "BLOCK = 64 * 1024"

function send_blocks :: "(nat \<Rightarrow> bytes) \<Rightarrow> nat \<Rightarrow> nat \<Rightarrow> nat \<Rightarrow> bytes" where
  "send_blocks at n pos remaining =
    (if remaining = 0 then []
     else
       let buf = take (min BLOCK remaining) (drop pos (at n)) in
       if buf = [] then [] else buf @ send_blocks at (Suc n) (pos + length buf) (remaining - length buf))"
  by pat_completeness auto
termination
  by (relation "measure (\<lambda>(at, n, pos, remaining). remaining)") auto

declare send_blocks.simps [simp del]

definition handle_preview :: "conf \<Rightarrow> int \<Rightarrow> jstr \<Rightarrow> jstr \<Rightarrow> jstr \<Rightarrow> jstr \<Rightarrow> (jstr \<Rightarrow> int) \<Rightarrow> (nat \<Rightarrow> bytes)
    \<Rightarrow> server \<Rightarrow> preview" where
  "handle_preview c now hdr sid kind rng mtime at st =
    (case check_internal c hdr of
       Some (Refused code txt) \<Rightarrow> NoPreview code txt
     | Some _ \<Rightarrow> PreviewCrashed
     | None \<Rightarrow>
         if kind \<notin> set ALLOWED_KINDS then NoPreview 400 (js ''bad kind'')
         else if \<not> isdigit c sid then NoPreview 400 (js ''bad session_id'')
         else case preview_file c sid kind st of
           Inl p \<Rightarrow> p
         | Inr name \<Rightarrow>
             (let filesize = length (file_of sid name st) in
              if filesize = 0 then NoPreview 404 (js ''empty spool'')
              else if now - mtime name > 8 then NoPreview 410 (js ''recording stale'')
              else case preview_range c rng filesize of
                Inl p \<Rightarrow> p
              | Inr (ranged, lo, hi) \<Rightarrow>
                  Preview (if ranged then 206 else 200) lo hi filesize (send_blocks at 0 lo (hi + 1 - lo))))"

section \<open>Headers and start\<close>

text \<open>
  \<open>_cors_response\<close>: the value of \<open>Access-Control-Allow-Origin\<close> that is sent, if any.
  \<open>_check_secrets\<close>: whether the server starts, given the default secret.
\<close>

definition allow_origin :: "conf \<Rightarrow> jstr \<Rightarrow> jstr option" where
  "allow_origin c origin =
    (if c_wildcard c then Some (js ''*'')
     else if origin \<noteq> [] \<and> origin = c_origin c then Some origin
     else None)"

definition secrets_ok :: "jstr \<Rightarrow> conf \<Rightarrow> bool" where
  "secrets_ok default_auth c \<longleftrightarrow> \<not> (c_auth c = default_auth \<and> c_env c = js ''production'')"

section \<open>Runs of the server\<close>

datatype op =
    Chunk chunk_event
  | Register int bool jstr jstr "jval option"
  | Finalize int bool store "chunk_event list" jstr jstr
  | Retry int bool store
  | Sweep int bool
  | AbortSession bool jstr jstr
  | Restart int

fun serve :: "conf \<Rightarrow> op \<Rightarrow> server \<Rightarrow> server" where
  "serve c (Chunk e) st = chunk_step c e st"
| "serve c (Register now w hdr sid body) st = snd (register_session c now w hdr sid body st)"
| "serve c (Finalize now w up late hdr sid) st = snd (handle_finalize c now w up late hdr sid st)"
| "serve c (Retry now w up) st = retry_round c now w up st"
| "serve c (Sweep now w) st = ttl_sweep now w st"
| "serve c (AbortSession w hdr sid) st = snd (handle_abort c w hdr sid st)"
| "serve c (Restart now) st = restart now st"

section \<open>Names of files and objects\<close>

lemma nat_str_not_Nil [simp]: "nat_str n \<noteq> []"
  by (simp add: nat_str_def digits_rev.simps [of n])

lemma ends_with_append [simp]: "ends_with p (s @ p)"
  by (simp add: ends_with_def starts_with_prefix)

lemma spool_name_of_kind: "of_kind k (spool_name k n)"
  by (simp add: of_kind_def spool_name_def starts_with_prefix ends_with_def del: js_simps_list)

lemma seg_text_spool_name [simp]: "seg_text k (spool_name k n) = nat_str n"
proof -
  have "length (spool_name k n) - 5 = length k + 1 + length (nat_str n)"
    by (simp add: spool_name_def)
  then have "take (length (spool_name k n) - 5) (spool_name k n) = k @ js ''-'' @ nat_str n"
    by (simp add: spool_name_def)
  then show ?thesis by (simp add: seg_text_def)
qed

definition canonical :: "jstr \<Rightarrow> bool" where
  "canonical name \<longleftrightarrow> (\<exists>k n. k \<in> set ALLOWED_KINDS \<and> name = spool_name k n)"

lemma of_kind_spool_name:
  "\<lbrakk>k \<in> set ALLOWED_KINDS; k' \<in> set ALLOWED_KINDS\<rbrakk> \<Longrightarrow> of_kind k' (spool_name k n) \<longleftrightarrow> k' = k"
  using spool_name_of_kind
  by (auto simp: ALLOWED_KINDS_def of_kind_def spool_name_def starts_with_def)

lemma kind_of_spool_name [simp]: "k \<in> set ALLOWED_KINDS \<Longrightarrow> kind_of (spool_name k n) = Some k"
  using of_kind_spool_name [of k _ n]
  by (auto simp: kind_of_def ALLOWED_KINDS_def simp del: js_simps_list split: if_splits)

definition okey :: "jstr \<Rightarrow> jstr \<Rightarrow> jstr" where
  "okey sid name = (case kind_of name of None \<Rightarrow> [] | Some k \<Rightarrow> object_key sid k name)"

lemma okey_spool_name:
  "k \<in> set ALLOWED_KINDS \<Longrightarrow>
    okey sid (spool_name k n) = sid @ js ''/'' @ k @ js ''/'' @ nat_str n @ js ''.webm''"
  by (simp add: okey_def object_key_def del: js_simps_list)

lemma okey_inj:
  assumes "canonical a" "canonical b" "okey sid a = okey sid b"
  shows "a = b"
proof -
  obtain k m k' n where
    k: "k \<in> set ALLOWED_KINDS" "a = spool_name k m" "k' \<in> set ALLOWED_KINDS" "b = spool_name k' n"
    using assms(1,2) by (auto simp: canonical_def)
  then have eq: "k @ js ''/'' @ nat_str m @ js ''.webm'' = k' @ js ''/'' @ nat_str n @ js ''.webm''"
    using assms(3) by (simp add: okey_spool_name del: js_simps_list)
  moreover have "k = k'"
    using k(1,3) eq by (auto simp: ALLOWED_KINDS_def)
  ultimately show ?thesis using k by (auto dest: nat_str_inj)
qed

section \<open>The spool under the operations\<close>

lemma dir_of_update [simp]:
  "dir_of sid (st\<lparr>spool := AList.update sid' d (spool st)\<rparr>) = (if sid = sid' then d else dir_of sid st)"
  by (simp add: dir_of_def AList.update_conv')

lemma dir_of_cong: "spool st = spool st' \<Longrightarrow> dir_of sid st = dir_of sid st'"
  by (simp add: dir_of_def)

lemma file_of_cong: "spool st = spool st' \<Longrightarrow> file_of sid name st = file_of sid name st'"
  by (simp add: file_of_def dir_of_def)

lemma dir_of_fields [simp]:
  "dir_of sid (st\<lparr>sessions := a\<rparr>) = dir_of sid st"
  "dir_of sid (st\<lparr>kinds_heap := h\<rparr>) = dir_of sid st"
  "dir_of sid (st\<lparr>queue := q\<rparr>) = dir_of sid st"
  "dir_of sid (st\<lparr>opened := ops\<rparr>) = dir_of sid st"
  "dir_of sid (st\<lparr>sent := m\<rparr>) = dir_of sid st"
  "dir_of sid (st\<lparr>registry := r\<rparr>) = dir_of sid st"
  "dir_of sid (st\<lparr>bucket := b\<rparr>) = dir_of sid st"
  by (simp_all add: dir_of_def)

lemma dir_of_ops [simp]:
  "dir_of sid (mkdir sid' st) = dir_of sid st"
  "dir_of sid (append_file sid' name body st) =
    (if sid = sid' then AList.update name (file_of sid' name st @ body) (dir_of sid' st) else dir_of sid st)"
  "dir_of sid (unlink sid' name st) =
    (if sid = sid' then AList.delete name (dir_of sid' st) else dir_of sid st)"
  "dir_of sid (cleanup_session_dir sid' st) = (if sid = sid' then [] else dir_of sid st)"
  "dir_of sid (save_registry w st) = dir_of sid st"
  "dir_of sid (forget sid' st) = dir_of sid st"
  by (simp_all add: mkdir_def append_file_def unlink_def save_registry_def forget_def)
    (simp add: cleanup_session_dir_def dir_of_def AList.delete_conv')

lemma file_of_dir: "dir_of sid st = dir_of sid st' \<Longrightarrow> file_of sid name st = file_of sid name st'"
  by (simp add: file_of_def)

lemma file_of_fields [simp]:
  "file_of sid name (st\<lparr>sessions := a\<rparr>) = file_of sid name st"
  "file_of sid name (st\<lparr>kinds_heap := h\<rparr>) = file_of sid name st"
  "file_of sid name (st\<lparr>queue := q\<rparr>) = file_of sid name st"
  "file_of sid name (st\<lparr>opened := ops\<rparr>) = file_of sid name st"
  "file_of sid name (st\<lparr>sent := m\<rparr>) = file_of sid name st"
  "file_of sid name (st\<lparr>registry := r\<rparr>) = file_of sid name st"
  "file_of sid name (st\<lparr>bucket := b\<rparr>) = file_of sid name st"
  by (simp_all add: file_of_def)

lemma file_of_ops [simp]:
  "file_of sid name (mkdir sid' st) = file_of sid name st"
  "file_of sid name (append_file sid' name' body st) =
    (if sid = sid' \<and> name = name' then file_of sid name st @ body else file_of sid name st)"
  "file_of sid name (unlink sid' name' st) =
    (if sid = sid' \<and> name = name' then [] else file_of sid name st)"
  "file_of sid name (cleanup_session_dir sid' st) = (if sid = sid' then [] else file_of sid name st)"
  "file_of sid name (save_registry w st) = file_of sid name st"
  "file_of sid name (forget sid' st) = file_of sid name st"
  by (auto simp: file_of_def AList.update_conv' AList.delete_conv')

text \<open>How the check of the token and the head of a chunk request change the state.\<close>

lemma check_session_token_cases:
  obtains (refused) a where "check_session_token now hdr sid st = (Inl a, st)"
  | (passed) s where "check_session_token now hdr sid st =
        (Inr (s\<lparr>s_last := now\<rparr>), st\<lparr>sessions := AList.update sid (s\<lparr>s_last := now\<rparr>) (sessions st)\<rparr>)"
      "map_of (sessions st) sid = Some s" "hdr = bearer @ s_token s"
proof (cases "starts_with bearer hdr")
  case False
  then show ?thesis using refused by (simp add: check_session_token_def)
next
  case True
  then have hdr: "hdr = bearer @ drop (length bearer) hdr"
    by (auto simp: starts_with_def) (metis append_take_drop_id)
  show ?thesis
  proof (cases "map_of (sessions st) sid")
    case None
    then show ?thesis using True refused by (simp add: check_session_token_def Let_def)
  next
    case (Some s)
    show ?thesis
    proof (cases "ascii (drop (length bearer) hdr) \<and> ascii (s_token s) \<and> drop (length bearer) hdr = s_token s")
      case True
      then show ?thesis
        using passed [of s] Some hdr \<open>starts_with bearer hdr\<close> by (simp add: check_session_token_def Let_def)
    next
      case False
      then obtain a where "check_session_token now hdr sid st = (Inl a, st)"
        using Some True by (cases "ascii (drop (length bearer) hdr) \<and> ascii (s_token s)")
          (auto simp: check_session_token_def Let_def)
      then show ?thesis by (rule refused)
    qed
  qed
qed

lemma chunk_head_frame:
  assumes "chunk_head now c hdr sid kind seq declared st = (r, st1)"
  shows "\<exists>a. st1 = st\<lparr>sessions := a\<rparr>"
    and "r = Inr x \<Longrightarrow> x_sid x = sid \<and> x_kind x = kind \<and> kind \<in> set ALLOWED_KINDS
      \<and> (\<exists>s. map_of (sessions st) sid = Some s \<and> hdr = bearer @ s_token s \<and> x_segment x = s_segment s
             \<and> x_kinds x = s_kinds s)"
proof -
  have id: "\<exists>a. st = st\<lparr>sessions := a\<rparr>" for st :: server
    by (rule exI [of _ "sessions st"]) simp
  show "\<exists>a. st1 = st\<lparr>sessions := a\<rparr>"
    using assms
    by (cases rule: check_session_token_cases [of now hdr sid st])
      (auto simp: chunk_head_def id split: if_splits option.splits)
  show "r = Inr x \<Longrightarrow> x_sid x = sid \<and> x_kind x = kind \<and> kind \<in> set ALLOWED_KINDS
      \<and> (\<exists>s. map_of (sessions st) sid = Some s \<and> hdr = bearer @ s_token s \<and> x_segment x = s_segment s
             \<and> x_kinds x = s_kinds s)"
    using assms
    by (cases rule: check_session_token_cases [of now hdr sid st])
      (auto simp: chunk_head_def split: if_splits option.splits)
qed

lemma chunk_body_cases:
  obtains (unstored) a where "chunk_body x body st = (a, st)" "\<And>n q g. a \<noteq> Stored n q g"
  | (stored) h where "chunk_body x body st =
        (Stored (length body) (x_seq x) (x_segment x),
         (append_file (x_sid x) (spool_name (x_kind x) (x_segment x)) body st)\<lparr>kinds_heap := h\<rparr>)"
      "body \<noteq> []" "length body \<le> MAX_CHUNK_BYTES"
      "kind_bytes (x_sid x) (x_kind x) st + length body \<le> MAX_SESSION_BYTES"
proof (cases "length body > MAX_CHUNK_BYTES \<or> body = []
    \<or> kind_bytes (x_sid x) (x_kind x) st + length body > MAX_SESSION_BYTES")
  case True
  then have "\<exists>a. chunk_body x body st = (a, st) \<and> (\<forall>n q g. a \<noteq> Stored n q g)"
    by (auto simp: chunk_body_def)
  then show ?thesis using unstored by blast
next
  case False
  then show ?thesis using stored by (auto simp: chunk_body_def Let_def)
qed

lemma append_file_fields [simp]:
  "sessions (append_file sid name body st) = sessions st"
  "queue (append_file sid name body st) = queue st"
  "opened (append_file sid name body st) = opened st"
  "sent (append_file sid name body st) = sent st"
  "bucket (append_file sid name body st) = bucket st"
  by (simp_all add: append_file_def)

lemma chunk_step_Head:
  "\<exists>a m os. chunk_step c (Head r now hdr sid kind seq declared) st = st\<lparr>sessions := a, sent := m, opened := os\<rparr>
     \<and> (\<forall>y \<in> set os. y \<in> set (opened st) \<or> x_kind (snd y) \<in> set ALLOWED_KINDS)"
proof -
  obtain res st1 where h: "chunk_head now c hdr sid kind seq declared st = (res, st1)" by fastforce
  from chunk_head_frame (1) [OF h] obtain a where st1: "st1 = st\<lparr>sessions := a\<rparr>" by blast
  show ?thesis
  proof (cases res)
    case (Inl e)
    have "chunk_step c (Head r now hdr sid kind seq declared) st
        = st\<lparr>sessions := a, sent := sent st @ [(r, e)], opened := opened st\<rparr>"
      using h Inl st1 by simp
    then show ?thesis by blast
  next
    case (Inr x)
    have "chunk_step c (Head r now hdr sid kind seq declared) st
        = st\<lparr>sessions := a, sent := sent st, opened := (r, x) # opened st\<rparr>"
      using h Inr st1 by simp
    moreover have "x_kind x \<in> set ALLOWED_KINDS"
      using chunk_head_frame (2) [OF h Inr] by blast
    ultimately show ?thesis
      by (metis prod.sel(2) set_ConsD)
  qed
qed

text \<open>
  The files under a chunk event: only a body changes one, and it appends to the file of its
  session, kind and segment.
\<close>

lemma chunk_step_file:
  "file_of sid name (chunk_step c e st) = file_of sid name st
   \<or> (\<exists>r body x. e = Body r body \<and> map_of (opened st) r = Some x \<and> body \<noteq> []
        \<and> sid = x_sid x \<and> name = spool_name (x_kind x) (x_segment x)
        \<and> file_of sid name (chunk_step c e st) = file_of sid name st @ body
        \<and> sent (chunk_step c e st) = sent st @ [(r, Stored (length body) (x_seq x) (x_segment x))])"
proof (cases e)
  case (Head r now hdr sid' kind seq declared)
  then show ?thesis
    using chunk_step_Head [of c r now hdr sid' kind seq declared st] by auto
next
  case (Body r body)
  show ?thesis
  proof (cases "map_of (opened st) r")
    case None
    then show ?thesis using Body by simp
  next
    case (Some x)
    show ?thesis
      by (cases rule: chunk_body_cases [of x body "st\<lparr>opened := AList.delete r (opened st)\<rparr>"])
        (auto simp: Body Some)
  qed
qed

lemma chunk_step_bucket [simp]: "bucket (chunk_step c e st) = bucket st"
proof (cases e)
  case (Head r now hdr sid' kind seq declared)
  then show ?thesis
    using chunk_step_Head [of c r now hdr sid' kind seq declared st] by auto
next
  case (Body r body)
  show ?thesis
  proof (cases "map_of (opened st) r")
    case (Some x)
    show ?thesis
      by (cases rule: chunk_body_cases [of x body "st\<lparr>opened := AList.delete r (opened st)\<rparr>"])
        (auto simp: Body Some)
  qed (simp add: Body)
qed

definition grows :: "server \<Rightarrow> server \<Rightarrow> bool" where
  "grows st st' \<longleftrightarrow> (\<forall>sid name. prefix (file_of sid name st) (file_of sid name st'))"

lemma growsD: "grows st st' \<Longrightarrow> prefix (file_of sid name st) (file_of sid name st')"
  by (simp add: grows_def)

lemma grows_refl [simp]: "grows st st"
  by (simp add: grows_def)

lemma grows_trans: "grows a b \<Longrightarrow> grows b c \<Longrightarrow> grows a c"
  unfolding grows_def by (meson prefix_order.trans)

lemma chunk_step_grows: "grows st (chunk_step c e st)"
  unfolding grows_def using chunk_step_file by (metis prefixI prefix_order.refl)

lemma chunk_steps_grow: "grows st (fold (chunk_step c) es st)"
  by (induction es arbitrary: st) (auto intro: grows_trans chunk_step_grows)

lemma chunk_steps_bucket [simp]: "bucket (fold (chunk_step c) es st) = bucket st"
  by (induction es arbitrary: st) auto

end
