(* ===== verification/ChunkRecordings.thy ===== *)
theory ChunkRecordings
  imports ChunkServer
begin

text \<open>
  What becomes of a recording on the chunk server: the invariant of the spool along every run, what
  a finalization keeps and what it loses, retries, sweeps, restarts and previews.
\<close>

section \<open>What a finalization keeps\<close>

definition stored :: "jstr \<Rightarrow> server \<Rightarrow> server \<Rightarrow> jstr \<Rightarrow> bool" where
  "stored sid st st' name \<longleftrightarrow>
    (\<exists>obj. bucket st' (okey sid name) = Some obj \<and> prefix (file_of sid name st) obj)"

lemma stored_earlier:
  "prefix (file_of sid name st) (file_of sid name st1) \<Longrightarrow> stored sid st1 st' name \<Longrightarrow> stored sid st st' name"
  unfolding stored_def by (meson prefix_order.trans)

lemma stored_bucket:
  "bucket st' (okey sid name) = bucket st2 (okey sid name) \<Longrightarrow> stored sid st st2 name \<Longrightarrow> stored sid st st' name"
  by (simp add: stored_def)

definition names_of_kind :: "jstr \<Rightarrow> jstr list \<Rightarrow> bool" where
  "names_of_kind kind names \<longleftrightarrow> kind \<in> set ALLOWED_KINDS \<and> (\<forall>name \<in> set names. \<exists>n. name = spool_name kind n)"

lemma names_of_kindD:
  "names_of_kind kind names \<Longrightarrow> name \<in> set names \<Longrightarrow>
    canonical name \<and> kind_of name = Some kind \<and> okey sid name = object_key sid kind name"
  by (auto simp: names_of_kind_def canonical_def okey_def)

lemma upload_files_keeps:
  "\<lbrakk>upload_files c up sid kind names acc st = ((segs, ok), st'); names_of_kind kind names\<rbrakk> \<Longrightarrow>
    grows st st'
    \<and> (\<forall>name. canonical name \<longrightarrow> name \<notin> set names \<longrightarrow> bucket st' (okey sid name) = bucket st (okey sid name))
    \<and> (ok \<longrightarrow> (\<forall>name \<in> set names. file_of sid name st \<noteq> [] \<longrightarrow> stored sid st st' name))"
proof (induction c up sid kind names acc st rule: upload_files.induct)
  case (2 c up sid kind name names acc st)
  let ?key = "object_key sid kind name" and ?data = "file_of sid name st"
  let ?st1 = "fold (chunk_step c) (snd (up ?key)) st"
  let ?st2 = "?st1\<lparr>bucket := (bucket ?st1)(?key := Some ?data)\<rparr>"
  have nk: "names_of_kind kind names" using "2.prems"(2) by (simp add: names_of_kind_def)
  have cn: "canonical name" "okey sid name = ?key"
    using names_of_kindD [OF "2.prems"(2), of name sid] by auto
  consider (empty) "?data = []" | (failed) "?data \<noteq> []" "\<not> fst (up ?key)" | (up) "?data \<noteq> []" "fst (up ?key)"
    by blast
  then show ?case
  proof cases
    case empty
    then show ?thesis
      using "2.IH"(1) [OF refl empty _ nk] "2.prems"(1) by auto
  next
    case failed
    then have "st' = ?st1" "\<not> ok" using "2.prems"(1) by (auto simp: Let_def)
    then show ?thesis by (simp add: chunk_steps_grow)
  next
    case up
    then have run: "upload_files c up sid kind names
        (acc @ [\<lparr>g_key = ?key, g_segment = py_int c (seg_text kind name),
                 g_bytes = length (file_of sid name ?st1)\<rparr>]) ?st2 = ((segs, ok), st')"
      using "2.prems"(1) by (simp add: Let_def)
    note IH = "2.IH"(2) [OF refl up(1) refl refl up(2) run nk]
    have g: "grows st ?st2"
      using chunk_steps_grow by (simp add: grows_def)
    have head: "stored sid st st' name" if ok
    proof (cases "name \<in> set names")
      case True
      moreover have "file_of sid name ?st2 \<noteq> []"
        using growsD [OF g, of sid name] up(1) by auto
      ultimately show ?thesis
        using IH \<open>ok\<close> growsD [OF g] by (blast intro: stored_earlier)
    next
      case False
      then have "bucket st' (okey sid name) = bucket ?st2 (okey sid name)"
        using IH cn(1) by blast
      then show ?thesis by (simp add: stored_def cn(2))
    qed
    have rest: "stored sid st st' nm" if ok "nm \<in> set names" "file_of sid nm st \<noteq> []" for nm
    proof -
      have "file_of sid nm ?st2 \<noteq> []" using growsD [OF g, of sid nm] that(3) by auto
      then show ?thesis using IH that growsD [OF g] by (blast intro: stored_earlier)
    qed
    have frame: "bucket st' (okey sid nm) = bucket st (okey sid nm)"
      if "canonical nm" "nm \<notin> set (name # names)" for nm
      using IH that cn okey_inj [OF cn(1) that(1), of sid] by auto
    show ?thesis
      using grows_trans [OF g] IH head rest frame by auto
  qed
qed simp

lemma by_kind_snoc:
  "by_kind (names @ [name]) =
    (case kind_of name of None \<Rightarrow> by_kind names
     | Some k \<Rightarrow> AList.update k ((case map_of (by_kind names) k of None \<Rightarrow> [] | Some l \<Rightarrow> l) @ [name]) (by_kind names))"
  unfolding by_kind_def by simp

lemma by_kind_distinct: "distinct (map fst (by_kind names))"
proof (induction names rule: rev_induct)
  case (snoc name names)
  then show ?case by (auto simp: by_kind_snoc AList.distinct_update split: option.split)
qed (simp add: by_kind_def)

lemma by_kind_map:
  "map_of (by_kind names) k =
    (let l = filter (\<lambda>name. kind_of name = Some k) names in if l = [] then None else Some l)"
proof (induction names rule: rev_induct)
  case (snoc name names)
  then show ?case
    by (auto simp: by_kind_snoc AList.update_conv' Let_def split: option.split if_splits)
qed (simp add: by_kind_def)

definition listed :: "(jstr \<times> jstr list) list \<Rightarrow> jstr set" where
  "listed ks = (\<Union>(k, l) \<in> set ks. set l)"

lemma listed_simps [simp]: "listed [] = {}" "listed ((k, l) # ks) = set l \<union> listed ks"
  by (simp_all add: listed_def)

lemma listed_by_kind: "name \<in> listed (by_kind names) \<longleftrightarrow> name \<in> set names \<and> kind_of name \<noteq> None"
proof
  assume "name \<in> listed (by_kind names)"
  then obtain k l where kl: "(k, l) \<in> set (by_kind names)" "name \<in> set l" by (auto simp: listed_def)
  then have "map_of (by_kind names) k = Some l" by (simp add: by_kind_distinct)
  then show "name \<in> set names \<and> kind_of name \<noteq> None"
    using kl(2) by (auto simp: by_kind_map Let_def split: if_splits)
next
  assume name: "name \<in> set names \<and> kind_of name \<noteq> None"
  then obtain k where k: "kind_of name = Some k" by auto
  let ?l = "filter (\<lambda>name. kind_of name = Some k) names"
  have "name \<in> set ?l" using name k by simp
  moreover from this have "map_of (by_kind names) k = Some ?l"
    by (auto simp: by_kind_map Let_def filter_empty_conv)
  ultimately show "name \<in> listed (by_kind names)"
    unfolding listed_def using map_of_SomeD by fastforce
qed

text \<open>Lists of files by kind, as \<open>by_kind\<close> makes them of names that the server gives.\<close>

definition kinds_ok :: "(jstr \<times> jstr list) list \<Rightarrow> bool" where
  "kinds_ok ks \<longleftrightarrow> distinct (map fst ks) \<and> (\<forall>(k, l) \<in> set ks. names_of_kind k l)"

lemma by_kind_ok:
  assumes "\<forall>name \<in> set names. canonical name"
  shows "kinds_ok (by_kind names)"
proof -
  have "names_of_kind k l" if "(k, l) \<in> set (by_kind names)" for k l
  proof -
    have "map_of (by_kind names) k = Some l" using that by (simp add: by_kind_distinct)
    then have l: "l = filter (\<lambda>name. kind_of name = Some k) names" "l \<noteq> []"
      by (auto simp: by_kind_map Let_def split: if_splits)
    have each: "k \<in> set ALLOWED_KINDS \<and> (\<exists>n. name = spool_name k n)" if "name \<in> set l" for name
    proof -
      have "canonical name" "kind_of name = Some k" using that l(1) assms by auto
      then show ?thesis by (auto simp: canonical_def)
    qed
    then show ?thesis using l(2) by (auto simp: names_of_kind_def) (metis list.set_sel(1))
  qed
  then show ?thesis by (auto simp: kinds_ok_def by_kind_distinct)
qed

lemma unlink_files:
  "file_of sid' name (fold (unlink sid) names st) =
    (if sid' = sid \<and> name \<in> set names then [] else file_of sid' name st)"
  by (induction names arbitrary: st) auto

lemma unlink_bucket [simp]: "bucket (fold (unlink sid) names st) = bucket st"
  by (induction names arbitrary: st) (auto simp: unlink_def)

lemma kinds_ok_disjoint:
  assumes "kinds_ok ((kind, names) # ks)" "name \<in> set names"
  shows "name \<notin> listed ks"
proof
  assume "name \<in> listed ks"
  then obtain k l where kl: "(k, l) \<in> set ks" "name \<in> set l" by (auto simp: listed_def)
  then have "kind_of name = Some k" "kind_of name = Some kind"
    using assms names_of_kindD [of k l name] names_of_kindD [of kind names name]
    by (auto simp: kinds_ok_def)
  then show False using assms(1) kl(1) by (force simp: kinds_ok_def)
qed

lemma finalize_kinds_keeps:
  "\<lbrakk>finalize_kinds c up sid ks fin left st = ((fin', left'), st'); kinds_ok ks\<rbrakk> \<Longrightarrow>
    (\<forall>sid' name. sid' \<noteq> sid \<or> name \<notin> listed ks \<longrightarrow> prefix (file_of sid' name st) (file_of sid' name st'))
    \<and> (\<forall>name. canonical name \<longrightarrow> name \<notin> listed ks \<longrightarrow> bucket st' (okey sid name) = bucket st (okey sid name))
    \<and> (\<forall>name \<in> listed ks. file_of sid name st \<noteq> [] \<longrightarrow>
         prefix (file_of sid name st) (file_of sid name st') \<or> stored sid st st' name)
    \<and> (\<exists>more. left' = left @ more
         \<and> (more = [] \<longrightarrow> (\<forall>name \<in> listed ks. file_of sid name st \<noteq> [] \<longrightarrow> stored sid st st' name)))"
proof (induction c up sid ks fin left st rule: finalize_kinds.induct)
  case (2 c up sid kind names ks fin left st)
  obtain segs ok st1 where u: "upload_files c up sid kind names [] st = ((segs, ok), st1)"
    by (metis prod.exhaust)
  have nk: "names_of_kind kind names" and ks: "kinds_ok ks"
    using "2.prems"(2) by (auto simp: kinds_ok_def)
  note U = upload_files_keeps [OF u nk]
  define st2 where "st2 = (if ok then fold (unlink sid) names st1 else st1)"
  define fin2 where "fin2 = (if ok then fin @ [(kind, \<lparr>k_prefix = sid @ js ''/'' @ kind @ js ''/'',
      k_segments = segs, k_total = sum_list (map g_bytes segs)\<rparr>)] else fin)"
  define left2 where "left2 = (if ok then left else left @ [kind])"
  have run: "finalize_kinds c up sid ks fin2 left2 st2 = ((fin', left'), st')"
    using "2.prems"(1) u by (simp add: st2_def fin2_def left2_def split: if_splits)
  have IH: "(\<forall>sid' name. sid' \<noteq> sid \<or> name \<notin> listed ks \<longrightarrow> prefix (file_of sid' name st2) (file_of sid' name st'))
    \<and> (\<forall>name. canonical name \<longrightarrow> name \<notin> listed ks \<longrightarrow> bucket st' (okey sid name) = bucket st2 (okey sid name))
    \<and> (\<forall>name \<in> listed ks. file_of sid name st2 \<noteq> [] \<longrightarrow>
         prefix (file_of sid name st2) (file_of sid name st') \<or> stored sid st2 st' name)
    \<and> (\<exists>more. left' = left2 @ more
         \<and> (more = [] \<longrightarrow> (\<forall>name \<in> listed ks. file_of sid name st2 \<noteq> [] \<longrightarrow> stored sid st2 st' name)))"
    using "2.IH"(1) [OF u [symmetric] refl _ _ ks] "2.IH"(2) [OF u [symmetric] refl _ _ ks] run
    by (cases ok) (simp_all add: st2_def fin2_def left2_def)
  have disj: "name \<notin> listed ks" if "name \<in> set names" for name
    using kinds_ok_disjoint [OF "2.prems"(2) that] .
  have pre: "prefix (file_of sid' name st) (file_of sid' name st2)"
    if "sid' \<noteq> sid \<or> name \<notin> set names \<or> \<not> ok" for sid' name
    using U that growsD by (auto simp: st2_def unlink_files)
  have bk: "bucket st2 = bucket st1" by (simp add: st2_def)
  have cn: "canonical name" if "name \<in> set names" for name
    using names_of_kindD [OF nk that] by blast
  have head: "stored sid st st' name" if "ok" "name \<in> set names" "file_of sid name st \<noteq> []" for name
  proof -
    have "stored sid st st1 name" using U that by blast
    moreover have "bucket st' (okey sid name) = bucket st1 (okey sid name)"
      using IH disj [OF that(2)] cn [OF that(2)] by (simp add: bk)
    ultimately show ?thesis by (rule stored_bucket [rotated])
  qed
  have head_left: "prefix (file_of sid name st) (file_of sid name st')" if "\<not> ok" "name \<in> set names" for name
    using IH disj [OF that(2)] pre [of sid name] that(1) by (meson prefix_order.trans)
  have tail: "file_of sid name st2 \<noteq> [] \<and> prefix (file_of sid name st) (file_of sid name st2)"
    if "name \<in> listed ks" "file_of sid name st \<noteq> []" for name
  proof -
    have "prefix (file_of sid name st) (file_of sid name st2)"
      using pre that(1) disj by blast
    then show ?thesis using that(2) by auto
  qed
  have other: "prefix (file_of sid' name st) (file_of sid' name st')"
    if "sid' \<noteq> sid \<or> name \<notin> listed ((kind, names) # ks)" for sid' name
    using IH pre [of sid' name] that by (auto intro: prefix_order.trans)
  have frame: "bucket st' (okey sid name) = bucket st (okey sid name)"
    if "canonical name" "name \<notin> listed ((kind, names) # ks)" for name
    using IH U that by (auto simp: bk)
  have keep: "prefix (file_of sid name st) (file_of sid name st') \<or> stored sid st st' name"
    if "name \<in> listed ((kind, names) # ks)" "file_of sid name st \<noteq> []" for name
  proof (cases "name \<in> set names")
    case True
    then show ?thesis using head head_left that(2) by blast
  next
    case False
    then have "name \<in> listed ks" using that(1) by simp
    then show ?thesis
      using IH tail [OF _ that(2)] by (meson prefix_order.trans stored_earlier)
  qed
  obtain more where more: "left' = left2 @ more"
      "more = [] \<longrightarrow> (\<forall>name \<in> listed ks. file_of sid name st2 \<noteq> [] \<longrightarrow> stored sid st2 st' name)"
    using IH by blast
  have "\<exists>more. left' = left @ more
      \<and> (more = [] \<longrightarrow> (\<forall>name \<in> listed ((kind, names) # ks). file_of sid name st \<noteq> [] \<longrightarrow> stored sid st st' name))"
  proof (cases ok)
    case True
    then have "left' = left @ more" using more(1) by (simp add: left2_def)
    moreover have "stored sid st st' name"
      if "more = []" "name \<in> listed ((kind, names) # ks)" "file_of sid name st \<noteq> []" for name
    proof (cases "name \<in> set names")
      case False
      then have "name \<in> listed ks" using that(2) by simp
      from tail [OF this that(3)] more(2) that(1) \<open>name \<in> listed ks\<close> show ?thesis
        using stored_earlier by blast
    qed (rule head [OF True _ that(3)])
    ultimately show ?thesis by blast
  next
    case False
    then show ?thesis using more(1) by (auto simp: left2_def)
  qed
  then show ?case using other frame keep by blast
qed simp

section \<open>The invariant of the spool\<close>

text \<open>
  Every file has a name that the server gives, the kinds of the open requests are allowed, and no
  kind of a session has more bytes than its cap.
\<close>

definition spool_ok :: "server \<Rightarrow> bool" where
  "spool_ok st \<longleftrightarrow>
    (\<forall>sid. \<forall>name \<in> fst ` set (dir_of sid st). canonical name)
    \<and> (\<forall>y \<in> set (opened st). x_kind (snd y) \<in> set ALLOWED_KINDS)
    \<and> (\<forall>sid. \<forall>kind \<in> set ALLOWED_KINDS. kind_bytes sid kind st \<le> MAX_SESSION_BYTES)"

lemma kind_bytes_dir: "dir_of sid st' = dir_of sid st \<Longrightarrow> kind_bytes sid kind st' = kind_bytes sid kind st"
  by (simp add: kind_bytes_def)

lemma sum_list_filter_le: "sum_list (map f (filter P (filter Q xs))) \<le> (sum_list (map f (filter P xs)) :: nat)"
  by (induction xs) auto

lemma spool_ok_shrink:
  assumes "spool_ok st" "\<And>sid. \<exists>P. dir_of sid st' = filter P (dir_of sid st)" "set (opened st') \<subseteq> set (opened st)"
  shows "spool_ok st'"
proof -
  have "kind_bytes sid kind st' \<le> kind_bytes sid kind st" for sid kind
  proof -
    obtain P where "dir_of sid st' = filter P (dir_of sid st)" using assms(2) by blast
    then show ?thesis
      unfolding kind_bytes_def by (simp only: sum_list_filter_le)
  qed
  moreover have "fst ` set (dir_of sid st') \<subseteq> fst ` set (dir_of sid st)" for sid
    using assms(2) [of sid] by auto
  ultimately show ?thesis
    using assms(1,3) unfolding spool_ok_def by (meson le_trans subsetD)
qed

lemma spool_ok_same:
  assumes "spool_ok st" "\<And>sid. dir_of sid st' = dir_of sid st" "set (opened st') \<subseteq> set (opened st)"
  shows "spool_ok st'"
proof (rule spool_ok_shrink [OF assms(1) _ assms(3)])
  show "\<exists>P. dir_of sid st' = filter P (dir_of sid st)" for sid
    using assms(2) [of sid] by (intro exI [of _ "\<lambda>_. True"]) simp
qed

lemma sum_list_update:
  "sum_list (map (\<lambda>(n, b). length b) (filter (\<lambda>(n, b). P n)
      (AList.update name ((case map_of al name of None \<Rightarrow> [] | Some b \<Rightarrow> b) @ body) al)))
    = sum_list (map (\<lambda>(n, b). length b) (filter (\<lambda>(n, b). P n) al)) + (if P name then length body else 0)"
  by (induction al) (auto split: if_splits)

lemma kind_bytes_append:
  "kind_bytes sid kind (append_file sid' name body st) =
    kind_bytes sid kind st + (if sid = sid' \<and> of_kind kind name then length body else 0)"
  using sum_list_update [of "of_kind kind" name "dir_of sid st" body]
  by (auto simp: kind_bytes_def file_of_def)

lemma set_delete_subset: "set (AList.delete k al) \<subseteq> set al"
  by (auto simp: AList.delete_eq)

lemma spool_ok_chunk_step: "spool_ok st \<Longrightarrow> spool_ok (chunk_step c e st)"
proof (cases e)
  case (Head r now hdr sid kind seq declared)
  assume ok: "spool_ok st"
  obtain a m os where st': "chunk_step c e st = st\<lparr>sessions := a, sent := m, opened := os\<rparr>"
      and os: "\<forall>y \<in> set os. y \<in> set (opened st) \<or> x_kind (snd y) \<in> set ALLOWED_KINDS"
    using chunk_step_Head Head by metis
  have dir: "dir_of sid (chunk_step c e st) = dir_of sid st" for sid
    by (simp add: st')
  have "opened (chunk_step c e st) = os"
    by (simp add: st')
  moreover have "\<forall>y \<in> set os. x_kind (snd y) \<in> set ALLOWED_KINDS"
    using os ok unfolding spool_ok_def by blast
  ultimately show ?thesis
    using ok by (simp add: spool_ok_def kind_bytes_def dir)
next
  case (Body r body)
  assume ok: "spool_ok st"
  show ?thesis
  proof (cases "map_of (opened st) r")
    case None
    then show ?thesis using ok Body by simp
  next
    case (Some x)
    let ?st = "st\<lparr>opened := AList.delete r (opened st)\<rparr>"
    have ok': "spool_ok ?st"
      by (rule spool_ok_same [OF ok]) (simp_all add: set_delete_subset)
    have kind: "x_kind x \<in> set ALLOWED_KINDS"
      using ok map_of_SomeD [OF Some] by (force simp: spool_ok_def)
    show ?thesis
    proof (cases rule: chunk_body_cases [of x body ?st])
      case (unstored a)
      then show ?thesis
        using Body Some by (simp add: spool_ok_same [OF ok'])
    next
      case (stored h)
      let ?new = "append_file (x_sid x) (spool_name (x_kind x) (x_segment x)) body ?st"
      have "spool_ok ?new"
        unfolding spool_ok_def
      proof (intro conjI allI ballI)
        fix sid name
        assume "name \<in> fst ` set (dir_of sid ?new)"
        then show "canonical name"
          using ok' kind by (auto simp: spool_ok_def AList.dom_update canonical_def split: if_splits)
      next
        fix y
        assume "y \<in> set (opened ?new)"
        then show "x_kind (snd y) \<in> set ALLOWED_KINDS"
          using ok' by (simp add: spool_ok_def)
      next
        fix sid kind
        assume "kind \<in> set ALLOWED_KINDS"
        then show "kind_bytes sid kind ?new \<le> MAX_SESSION_BYTES"
          using ok' stored(4) of_kind_spool_name [OF kind]
          by (auto simp: kind_bytes_append spool_ok_def simp del: dir_of_ops)
      qed
      then show ?thesis
        using Body Some stored(1) by (simp add: spool_ok_same [OF \<open>spool_ok ?new\<close>])
    qed
  qed
qed

lemma spool_ok_chunk_steps: "spool_ok st \<Longrightarrow> spool_ok (fold (chunk_step c) es st)"
  by (induction es arbitrary: st) (auto intro: spool_ok_chunk_step)

lemma opened_ops [simp]:
  "opened (mkdir sid st) = opened st"
  "opened (unlink sid name st) = opened st"
  "opened (cleanup_session_dir sid st) = opened st"
  "opened (save_registry w st) = opened st"
  "opened (forget sid st) = opened st"
  by (simp_all add: mkdir_def unlink_def cleanup_session_dir_def save_registry_def forget_def)

lemma spool_ok_save: "spool_ok st \<Longrightarrow> spool_ok (save_registry w st)"
  by (rule spool_ok_same) auto

lemma spool_ok_forget: "spool_ok st \<Longrightarrow> spool_ok (forget sid st)"
  by (rule spool_ok_same) auto

lemma spool_ok_cleanup: "spool_ok st \<Longrightarrow> spool_ok (cleanup_session_dir sid st)"
proof (rule spool_ok_shrink)
  show "\<exists>P. dir_of sid' (cleanup_session_dir sid st) = filter P (dir_of sid' st)" for sid'
    by (cases "sid' = sid") (auto intro: exI [of _ "\<lambda>_. False"] exI [of _ "\<lambda>_. True"])
qed auto

lemma spool_ok_unlink: "spool_ok st \<Longrightarrow> spool_ok (unlink sid name st)"
proof (rule spool_ok_shrink)
  show "\<exists>P. dir_of sid' (unlink sid name st) = filter P (dir_of sid' st)" for sid'
    by (cases "sid' = sid") (auto simp: AList.delete_eq intro: exI [of _ "\<lambda>_. True"])
qed auto

lemma spool_ok_unlinks: "spool_ok st \<Longrightarrow> spool_ok (fold (unlink sid) names st)"
  by (induction names arbitrary: st) (auto intro: spool_ok_unlink)

lemma spool_ok_upload:
  "spool_ok st \<Longrightarrow> spool_ok (snd (upload_files c up sid kind names acc st))"
proof (induction c up sid kind names acc st rule: upload_files.induct)
  case (2 c up sid kind name names acc st)
  have "spool_ok (st'\<lparr>bucket := b\<rparr>)" if "spool_ok st'" for st' b
    by (rule spool_ok_same [OF that]) auto
  then show ?case
    using "2.IH"(1) [OF refl _ "2.prems"]
      "2.IH"(2) [OF refl _ refl refl] spool_ok_chunk_steps [OF "2.prems"]
    by (auto simp: Let_def)
qed simp

lemma spool_ok_finalize_kinds:
  "spool_ok st \<Longrightarrow> spool_ok (snd (finalize_kinds c up sid ks fin left st))"
proof (induction c up sid ks fin left st rule: finalize_kinds.induct)
  case (2 c up sid kind names ks fin left st)
  obtain segs ok st1 where u: "upload_files c up sid kind names [] st = ((segs, ok), st1)"
    by (metis prod.exhaust)
  have "spool_ok st1" using spool_ok_upload [OF "2.prems", of c up sid kind names "[]"] u by simp
  then show ?case
    using "2.IH"(1) [OF u [symmetric] refl] "2.IH"(2) [OF u [symmetric] refl] u
    by (cases ok) (auto intro: spool_ok_unlinks)
qed simp

lemma spool_ok_do_finalize: "spool_ok st \<Longrightarrow> spool_ok (snd (do_finalize c up sid st))"
  by (simp add: do_finalize_def spool_ok_finalize_kinds split: option.split)

lemma spool_ok_fields [simp]:
  "spool_ok (st\<lparr>sessions := a\<rparr>) = spool_ok st"
  "spool_ok (st\<lparr>queue := q\<rparr>) = spool_ok st"
  "spool_ok (st\<lparr>kinds_heap := h\<rparr>) = spool_ok st"
  "spool_ok (st\<lparr>registry := f\<rparr>) = spool_ok st"
  by (simp_all add: spool_ok_def kind_bytes_def)

lemma spool_ok_mkdir: "spool_ok st \<Longrightarrow> spool_ok (mkdir sid st)"
  by (rule spool_ok_same) auto

lemma spool_ok_register: "spool_ok st \<Longrightarrow> spool_ok (snd (register_session c now w hdr sid body st))"
  by (auto simp: register_session_def Let_def spool_ok_save spool_ok_mkdir split: option.split jval.split)

lemma spool_ok_finalize: "spool_ok st \<Longrightarrow> spool_ok (snd (handle_finalize c now w up late hdr sid st))"
  using spool_ok_do_finalize [of st c up sid]
  by (auto simp: handle_finalize_def spool_ok_save spool_ok_forget spool_ok_cleanup spool_ok_chunk_steps
      split: option.split prod.split)

lemma spool_ok_retry_one: "spool_ok st \<Longrightarrow> spool_ok (retry_one c now w up sid st)"
  using spool_ok_do_finalize [of st c up sid]
  by (auto simp: retry_one_def spool_ok_save spool_ok_forget spool_ok_cleanup split: option.split prod.split)

lemma spool_ok_folds: "(\<And>x st. spool_ok st \<Longrightarrow> spool_ok (f x st)) \<Longrightarrow> spool_ok st \<Longrightarrow> spool_ok (fold f xs st)"
  by (induction xs arbitrary: st) auto

lemma spool_ok_drop: "spool_ok st \<Longrightarrow> spool_ok (drop_idle sid st)"
  by (simp add: drop_idle_def Let_def spool_ok_cleanup)

lemma restore_entry_frame:
  "spool (restore_entry now se st) = spool st \<and> opened (restore_entry now se st) = opened st
    \<and> bucket (restore_entry now se st) = bucket st \<and> queue (restore_entry now se st) = queue st
    \<and> registry (restore_entry now se st) = registry st"
  by (simp add: restore_entry_def split: entry.split option.split)

lemma restore_entries_frame:
  "spool (fold (restore_entry now) es st) = spool st \<and> opened (fold (restore_entry now) es st) = opened st
    \<and> bucket (fold (restore_entry now) es st) = bucket st \<and> queue (fold (restore_entry now) es st) = queue st
    \<and> registry (fold (restore_entry now) es st) = registry st"
  by (induction es arbitrary: st) (auto simp: restore_entry_frame)

lemma restart_frame:
  "spool (restart now st) = spool st \<and> opened (restart now st) = [] \<and> bucket (restart now st) = bucket st
    \<and> registry (restart now st) = registry st"
  by (simp add: restart_def load_registry_def Let_def restore_entries_frame split: registry_file.split)

lemma spool_ok_restart: "spool_ok st \<Longrightarrow> spool_ok (restart now st)"
  by (rule spool_ok_same) (simp_all add: restart_frame dir_of_def)

lemma spool_ok_retry_round: "spool_ok st \<Longrightarrow> spool_ok (retry_round c now w up st)"
  unfolding retry_round_def by (rule spool_ok_folds [OF spool_ok_retry_one])

lemma spool_ok_sweep: "spool_ok st \<Longrightarrow> spool_ok (ttl_sweep now w st)"
  unfolding ttl_sweep_def Let_def
  using spool_ok_folds [of drop_idle st, OF spool_ok_drop] by (simp add: spool_ok_save)

lemma spool_ok_abort: "spool_ok st \<Longrightarrow> spool_ok (snd (handle_abort c w hdr sid st))"
  by (simp add: handle_abort_def Let_def spool_ok_save spool_ok_cleanup split: option.split)

lemma spool_ok_serve: "spool_ok st \<Longrightarrow> spool_ok (serve c op st)"
  by (cases op)
    (simp_all add: spool_ok_chunk_step spool_ok_register spool_ok_finalize spool_ok_retry_round spool_ok_sweep
      spool_ok_abort spool_ok_restart)

lemma spool_ok_empty: "spool_ok empty_server"
  by (simp add: spool_ok_def empty_server_def dir_of_def kind_bytes_def)

interpretation spool: inv_machine "serve c" spool_ok
  by unfold_locales (rule spool_ok_serve)

lemma file_in_dir:
  assumes "file_of sid name st \<noteq> []"
  shows "name \<in> fst ` set (dir_of sid st)"
proof -
  obtain b where "map_of (dir_of sid st) name = Some b"
    using assms unfolding file_of_def by (cases "map_of (dir_of sid st) name") simp_all
  then have "(name, b) \<in> set (dir_of sid st)" by (rule map_of_SomeD)
  then show ?thesis by (rule rev_image_eqI) simp
qed

lemma spool_ok_canonical:
  assumes "spool_ok st" "file_of sid name st \<noteq> []"
  shows "canonical name"
proof -
  have "\<forall>name \<in> fst ` set (dir_of sid st). canonical name"
    using assms(1) unfolding spool_ok_def by (elim conjE) (rule spec)
  then show ?thesis using file_in_dir [OF assms(2)] by (rule bspec)
qed

lemma do_finalize_keeps:
  assumes ok: "spool_ok st" and run: "do_finalize c up sid st = ((fin, left), st')"
    and ne: "file_of sid' name st \<noteq> []"
  shows "prefix (file_of sid' name st) (file_of sid' name st') \<or> sid' = sid \<and> stored sid st st' name"
    and "sid' = sid \<Longrightarrow> left = [] \<Longrightarrow> stored sid st st' name"
    and "sid' \<noteq> sid \<Longrightarrow> prefix (file_of sid' name st) (file_of sid' name st')"
proof -
  have "(prefix (file_of sid' name st) (file_of sid' name st') \<or> sid' = sid \<and> stored sid st st' name)
      \<and> (sid' = sid \<and> left = [] \<longrightarrow> stored sid st st' name)
      \<and> (sid' \<noteq> sid \<longrightarrow> prefix (file_of sid' name st) (file_of sid' name st'))"
  proof (cases "map_of (spool st) sid")
    case None
    then have "st' = st" using run by (simp add: do_finalize_def)
    moreover have "sid' \<noteq> sid"
      using ne None by (auto simp: file_of_def dir_of_def)
    ultimately show ?thesis by simp
  next
    case (Some d)
    let ?ks = "by_kind (sort (map fst d))"
    have dir: "dir_of sid st = d" using Some by (simp add: dir_of_def)
    have names: "\<forall>nm \<in> set (sort (map fst d)). canonical nm"
      using ok dir by (auto simp: spool_ok_def)
    have fk: "finalize_kinds c up sid ?ks [] [] st = ((fin, left), st')"
      using run Some by (simp add: do_finalize_def)
    note K = finalize_kinds_keeps [OF fk by_kind_ok [OF names]]
    show ?thesis
    proof (cases "sid' = sid")
      case True
      have "name \<in> set (map fst d)" using file_in_dir [OF ne] True dir by simp
      moreover have "kind_of name \<noteq> None"
        using spool_ok_canonical [OF ok ne] by (auto simp: canonical_def)
      ultimately have "name \<in> listed ?ks" by (simp add: listed_by_kind)
      then show ?thesis using K ne True by simp
    next
      case False
      then show ?thesis using K by simp
    qed
  qed
  then show "prefix (file_of sid' name st) (file_of sid' name st') \<or> sid' = sid \<and> stored sid st st' name"
    and "sid' = sid \<Longrightarrow> left = [] \<Longrightarrow> stored sid st st' name"
    and "sid' \<noteq> sid \<Longrightarrow> prefix (file_of sid' name st) (file_of sid' name st')"
    by blast+
qed

lemma bucket_ops [simp]:
  "bucket (cleanup_session_dir sid st) = bucket st"
  "bucket (save_registry w st) = bucket st"
  "bucket (forget sid st) = bucket st"
  by (simp_all add: cleanup_session_dir_def save_registry_def forget_def)

lemma handle_finalize_keeps:
  assumes ok: "spool_ok st" and run: "handle_finalize c now w up late hdr sid st = (ans, st')"
    and ne: "file_of sid' name st \<noteq> []"
  shows "(prefix (file_of sid' name st) (file_of sid' name st') \<or> sid' = sid \<and> stored sid st st' name)
    \<and> (\<forall>m. ans = Finalized m \<and> sid' = sid \<longrightarrow> stored sid st st' name)"
proof (cases "check_internal c hdr = None \<and> isdigit c sid
    \<and> (map_of (sessions st) sid = None \<longrightarrow> map_of (spool st) sid \<noteq> None)")
  case False
  then have "st' = st" "\<forall>m. ans \<noteq> Finalized m"
    using run by (auto simp: handle_finalize_def check_internal_def split: option.splits if_splits)
  then show ?thesis by simp
next
  case True
  obtain fin left st1 where d: "do_finalize c up sid st = ((fin, left), st1)"
    by (metis prod.exhaust)
  note D = do_finalize_keeps [OF ok d ne]
  show ?thesis
  proof (cases "left = []")
    case False
    then have "ans = Pending fin left"
        "st' = save_registry w (st1\<lparr>queue := AList.update sid (1, now + 60) (queue st1)\<rparr>)"
      using run True d by (auto simp: handle_finalize_def)
    then show ?thesis using D by (auto simp: stored_def)
  next
    case all: True
    then have st': "st' = save_registry w (forget sid (cleanup_session_dir sid (fold (chunk_step c) late st1)))"
      using run True d by (auto simp: handle_finalize_def)
    have b: "bucket st' = bucket st1" using st' by simp
    show ?thesis
    proof (cases "sid' = sid")
      case True
      then show ?thesis using D(2) all b by (simp add: stored_def)
    next
      case False
      then have "prefix (file_of sid' name st1) (file_of sid' name st')"
        using chunk_steps_grow growsD st' by simp
      then show ?thesis using D(3) False by (meson prefix_order.trans)
    qed
  qed
qed

section \<open>Requests that succeed\<close>

lemma register_result:
  assumes "check_internal c hdr = None" "isdigit c sid" "jget (js ''token'') (JObj kvs) = JStr token"
    "32 \<le> length token" "length token \<le> 128"
    "register_session c now w hdr sid (Some (JObj kvs)) st = (ans, st')"
    "seg = (case map_of (sessions st) sid of None \<Rightarrow> 0 | Some s \<Rightarrow> s_segment s + 1)"
  shows "ans = Registered seg"
    and "\<exists>s. map_of (sessions st') sid = Some s \<and> s_token s = token \<and> s_segment s = seg \<and> s_last s = now"
    and "spool st' = AList.update sid (dir_of sid st) (spool st)"
    and "queue st' = queue st" and "bucket st' = bucket st" and "sent st' = sent st"
  using assms
  by (cases "map_of (sessions st) sid";
      auto simp: register_session_def Let_def AList.update_conv' save_registry_def mkdir_def dir_of_def)+

declare starts_with_append [simp]

lemma check_token_ok:
  assumes "map_of (sessions st) sid = Some s" "ascii (s_token s)"
  shows "check_session_token now (bearer @ s_token s) sid st =
    (Inr (s\<lparr>s_last := now\<rparr>), st\<lparr>sessions := AList.update sid (s\<lparr>s_last := now\<rparr>) (sessions st)\<rparr>)"
  using assms by (simp add: check_session_token_def Let_def)

definition seq_ok :: "conf \<Rightarrow> jstr \<Rightarrow> int \<Rightarrow> bool" where
  "seq_ok c seq q \<longleftrightarrow> py_int c seq = Some q \<and> 0 \<le> q \<and> q \<le> 10000000"

lemma chunk_head_ok:
  assumes "map_of (sessions st) sid = Some s" "ascii (s_token s)" "kind \<in> set ALLOWED_KINDS"
    "seq_ok c seq q"
  shows "chunk_head now c (bearer @ s_token s) sid kind seq None st =
    (Inr \<lparr>x_sid = sid, x_kind = kind, x_seq = q, x_kinds = s_kinds s, x_segment = s_segment s\<rparr>,
     st\<lparr>sessions := AList.update sid (s\<lparr>s_last := now\<rparr>) (sessions st)\<rparr>)"
  using assms by (simp add: chunk_head_def check_token_ok seq_ok_def)

text \<open>A chunk request of a browser that knows the token: the head, and the body right after it.\<close>

definition post_chunk :: "nat \<Rightarrow> int \<Rightarrow> jstr \<Rightarrow> jstr \<Rightarrow> jstr \<Rightarrow> jstr \<Rightarrow> bytes \<Rightarrow> chunk_event list" where
  "post_chunk r now token sid kind seq body = [Head r now (bearer @ token) sid kind seq None, Body r body]"

lemma post_chunk_result:
  assumes "map_of (sessions st) sid = Some s" "ascii (s_token s)" "kind \<in> set ALLOWED_KINDS"
    "seq_ok c seq q" "body \<noteq> []" "length body \<le> MAX_CHUNK_BYTES"
    "kind_bytes sid kind st + length body \<le> MAX_SESSION_BYTES"
    and st': "st' = fold (chunk_step c) (post_chunk r now (s_token s) sid kind seq body) st"
  shows "sent st' = sent st @ [(r, Stored (length body) q (s_segment s))]"
    and "sessions st' = AList.update sid (s\<lparr>s_last := now\<rparr>) (sessions st)"
    and "spool st' = AList.update sid (AList.update (spool_name kind (s_segment s))
           (file_of sid (spool_name kind (s_segment s)) st @ body) (dir_of sid st)) (spool st)"
    and "queue st' = queue st" and "bucket st' = bucket st"
proof -
  have kb: "kind_bytes sid kind (st\<lparr>sessions := a, opened := b\<rparr>) = kind_bytes sid kind st" for a b
    by (simp add: kind_bytes_def)
  show "sent st' = sent st @ [(r, Stored (length body) q (s_segment s))]"
    and "sessions st' = AList.update sid (s\<lparr>s_last := now\<rparr>) (sessions st)"
    and "spool st' = AList.update sid (AList.update (spool_name kind (s_segment s))
           (file_of sid (spool_name kind (s_segment s)) st @ body) (dir_of sid st)) (spool st)"
    and "queue st' = queue st" and "bucket st' = bucket st"
    using assms(5-7)
    by (simp_all add: st' post_chunk_def chunk_head_ok [OF assms(1-4)] chunk_body_def kb Let_def append_file_def)
qed

text \<open>A finalization whose uploads all succeed while no chunk arrives, for one file.\<close>

lemma do_finalize_single:
  assumes "map_of (spool st) sid = Some [(spool_name kind n, data)]" "kind \<in> set ALLOWED_KINDS" "data \<noteq> []"
    "up (okey sid (spool_name kind n)) = (True, during)"
  shows "\<exists>m. do_finalize c up sid st =
    ((m, []), unlink sid (spool_name kind n)
       ((fold (chunk_step c) during st)\<lparr>bucket := (bucket st)(okey sid (spool_name kind n) := Some data)\<rparr>))"
proof -
  have key: "object_key sid kind (spool_name kind n) = okey sid (spool_name kind n)"
    using assms(2) by (simp add: okey_def)
  have fl: "file_of sid (spool_name kind n) st = data"
    by (simp add: file_of_def dir_of_def assms(1))
  have "by_kind [spool_name kind n] = [(kind, [spool_name kind n])]"
    using assms(2) by (simp add: by_kind_def)
  then show ?thesis
    using assms by (simp add: do_finalize_def key fl Let_def)
qed

text \<open>A store that accepts everything while no chunk arrives: every session is finalized.\<close>

definition accepts_all :: "store \<Rightarrow> bool" where
  "accepts_all up \<longleftrightarrow> (\<forall>key. up key = (True, []))"

lemma upload_files_accepted:
  "accepts_all up \<Longrightarrow>
    \<exists>segs st'. upload_files c up sid kind names acc st = ((segs, True), st')
      \<and> sessions st' = sessions st \<and> queue st' = queue st"
proof (induction names arbitrary: acc st)
  case (Cons name names)
  have up: "up k = (True, [])" for k
    using Cons.prems by (simp add: accepts_all_def)
  let ?key = "object_key sid kind name" and ?data = "file_of sid name st"
  show ?case
  proof (cases "?data = []")
    case True
    then show ?thesis using Cons.IH [OF Cons.prems, of acc st] by simp
  next
    case False
    then show ?thesis
      using Cons.IH [OF Cons.prems, of "acc @ [\<lparr>g_key = ?key, g_segment = py_int c (seg_text kind name),
          g_bytes = length ?data\<rparr>]" "st\<lparr>bucket := (bucket st)(?key := Some ?data)\<rparr>"]
      by (simp add: up Let_def)
  qed
qed simp

lemma unlinks_fields:
  "sessions (fold (unlink sid) names st) = sessions st" "queue (fold (unlink sid) names st) = queue st"
  by (induction names arbitrary: st) (auto simp: unlink_def)

lemma finalize_kinds_accepted:
  "accepts_all up \<Longrightarrow>
    \<exists>m st'. finalize_kinds c up sid ks fin left st = ((m, left), st')
      \<and> sessions st' = sessions st \<and> queue st' = queue st"
proof (induction ks arbitrary: fin st)
  case (Cons kl ks)
  obtain kind names where kl: "kl = (kind, names)" by fastforce
  obtain segs st1 where u: "upload_files c up sid kind names [] st = ((segs, True), st1)"
      "sessions st1 = sessions st" "queue st1 = queue st"
    using upload_files_accepted [OF Cons.prems] by blast
  show ?case
    using Cons.IH [OF Cons.prems] u by (simp add: kl) (metis unlinks_fields)
qed simp

lemma retry_one_accepted:
  assumes "accepts_all up"
  shows "map_of (sessions (retry_one c now w up sid st)) sid' =
      (if sid' = sid \<and> map_of (queue st) sid \<noteq> None then None else map_of (sessions st) sid')
    \<and> map_of (queue (retry_one c now w up sid st)) sid' = (if sid' = sid then None else map_of (queue st) sid')"
proof (cases "map_of (queue st) sid")
  case None
  then show ?thesis by (simp add: retry_one_def)
next
  case (Some an)
  obtain m st1 where "do_finalize c up sid st = ((m, []), st1)"
      "sessions st1 = sessions st" "queue st1 = queue st"
    using finalize_kinds_accepted [OF assms] by (cases "map_of (spool st) sid") (fastforce simp: do_finalize_def)+
  then show ?thesis
    using Some by (auto simp: retry_one_def save_registry_def forget_def cleanup_session_dir_def AList.delete_conv'
        split: prod.split)
qed

lemma retries_accepted:
  "\<lbrakk>accepts_all up; sid \<in> set sids \<and> map_of (queue st) sid \<noteq> None \<or> map_of (sessions st) sid = None\<rbrakk> \<Longrightarrow>
    map_of (sessions (fold (retry_one c now w up) sids st)) sid = None"
proof (induction sids arbitrary: st)
  case (Cons sid' sids)
  show ?case
    using Cons.IH [OF Cons.prems(1), of "retry_one c now w up sid' st"] Cons.prems(2)
      retry_one_accepted [OF Cons.prems(1), of c now w sid' st sid]
    by (auto split: if_splits)
qed simp

text \<open>A store that refuses everything: the round only moves the time of the next one.\<close>

definition refuses_all :: "store \<Rightarrow> bool" where
  "refuses_all up \<longleftrightarrow> (\<forall>key. up key = (False, []))"

lemma do_finalize_refused:
  assumes "map_of (spool st) sid = Some [(spool_name kind n, data)]" "kind \<in> set ALLOWED_KINDS" "data \<noteq> []"
    "refuses_all up"
  shows "do_finalize c up sid st = (([], [kind]), st)"
proof -
  have fl: "file_of sid (spool_name kind n) st = data"
    by (simp add: file_of_def dir_of_def assms(1))
  have "by_kind [spool_name kind n] = [(kind, [spool_name kind n])]"
    using assms(2) by (simp add: by_kind_def)
  then show ?thesis
    using assms(1,3,4) by (simp add: do_finalize_def fl Let_def refuses_all_def)
qed

lemma retry_round_refused:
  assumes "map_of (spool st) sid = Some [(spool_name kind n, data)]" "kind \<in> set ALLOWED_KINDS" "data \<noteq> []"
    "refuses_all up" "queue st = [(sid, a, t)]" "t \<le> now"
  shows "retry_round c now w up st =
    st\<lparr>queue := if a + 1 > 8 then [] else [(sid, a + 1, now + min (60 * 2 ^ a) 1800)]\<rparr>"
  using assms(5,6) do_finalize_refused [OF assms(1-4), of c]
  by (simp add: retry_round_def retry_one_def AList.delete_eq)

section \<open>The preview's blocks\<close>

lemma send_blocks_slice:
  "\<lbrakk>\<And>n. prefix data (at n); pos + remaining \<le> length data\<rbrakk> \<Longrightarrow>
    send_blocks at n pos remaining = take remaining (drop pos data)"
proof (induction at n pos remaining rule: send_blocks.induct)
  case (1 at n pos remaining)
  show ?case
  proof (cases "remaining = 0")
    case True
    then show ?thesis by (simp add: send_blocks.simps)
  next
    case False
    let ?k = "min BLOCK remaining"
    let ?buf = "take ?k (drop pos data)"
    have k: "0 < ?k" "?k \<le> remaining" using False by (auto simp: BLOCK_def)
    obtain more where "at n = data @ more" using "1.prems"(1) [of n] by (auto simp: prefix_def)
    then have buf: "take ?k (drop pos (at n)) = ?buf" using "1.prems"(2) by simp
    have len: "length ?buf = ?k" using "1.prems"(2) k by simp
    have ne: "?buf \<noteq> []" using len k(1) by (metis list.size(3) less_numeral_extra(3))
    have "send_blocks at n pos remaining = (if ?buf = [] then []
        else ?buf @ send_blocks at (Suc n) (pos + length ?buf) (remaining - length ?buf))"
      by (subst send_blocks.simps) (simp only: False if_False Let_def buf)
    also have "\<dots> = ?buf @ send_blocks at (Suc n) (pos + ?k) (remaining - ?k)"
      by (simp only: ne if_False len)
    also have "send_blocks at (Suc n) (pos + ?k) (remaining - ?k) = take (remaining - ?k) (drop (pos + ?k) data)"
      using "1.IH" [OF False refl] "1.prems" ne len k by (simp add: buf)
    also have "?buf @ \<dots> = take remaining (drop pos data)"
      using k(2) by (metis add.commute drop_drop le_add_diff_inverse take_add)
    finally show ?thesis .
  qed
qed

lemma preview_refusals:
  "preview_file c sid kind st \<noteq> Inl (Preview code lo hi len body)"
  "preview_range c rng filesize \<noteq> Inl (Preview code lo hi len body)"
  by (auto simp: preview_file_def preview_range_def Let_def split: option.splits)

lemma preview_range_bounds:
  assumes "preview_range c rng filesize = Inr (r, lo, hi)" "0 < filesize"
  shows "lo \<le> hi \<and> hi < filesize"
  using assms by (auto simp: preview_range_def Let_def split: if_splits option.splits)

section \<open>The registry over a restart\<close>

text \<open>What the server knows of a session, with the set behind its reference.\<close>

definition known :: "server \<Rightarrow> jstr \<Rightarrow> (jstr \<times> jstr set \<times> jval \<times> int \<times> nat) option" where
  "known st sid =
    (case map_of (sessions st) sid of
       None \<Rightarrow> None
     | Some s \<Rightarrow> Some (s_token s, set (kinds_of st (s_kinds s)), s_meta s, s_last s, s_segment s))"

definition saved_entry :: "server \<Rightarrow> jstr \<times> sess \<Rightarrow> jstr \<times> entry" where
  "saved_entry st = (\<lambda>(sid, s). (sid, Entry (Some (s_token s)) (Some (kinds_of st (s_kinds s)))
     (Some (s_meta s)) (Some (s_last s)) (Some (s_segment s))))"

definition addresses_ok :: "server \<Rightarrow> bool" where
  "addresses_ok st \<longleftrightarrow> (\<forall>s \<in> snd ` set (sessions st). s_kinds s < length (kinds_heap st))"

lemma restore_known:
  assumes "addresses_ok st1"
  shows "known (restore_entry now (saved_entry st (sid, s)) st1) sid' =
      (if sid' = sid then Some (s_token s, set (kinds_of st (s_kinds s)), s_meta s, s_last s, s_segment s)
       else known st1 sid')
    \<and> addresses_ok (restore_entry now (saved_entry st (sid, s)) st1)"
proof -
  have old: "s_kinds t < length (kinds_heap st1)" if "map_of (sessions st1) sid' = Some t" for t
    using assms map_of_SomeD [OF that] by (force simp: addresses_ok_def)
  have "s_kinds t < Suc (length (kinds_heap st1))"
    if "t \<in> snd ` set (AList.update sid \<lparr>s_token = s_token s, s_kinds = length (kinds_heap st1),
        s_meta = s_meta s, s_last = s_last s, s_segment = s_segment s\<rparr> (sessions st1))" for t
  proof -
    have "snd ` set (AList.update k v al) \<subseteq> insert v (snd ` set al)" for k :: jstr and v :: sess and al
      by (induction al) auto
    then show ?thesis using that assms by (fastforce simp: addresses_ok_def)
  qed
  then have "addresses_ok (restore_entry now (saved_entry st (sid, s)) st1)"
    by (auto simp: addresses_ok_def restore_entry_def saved_entry_def)
  moreover have "known (restore_entry now (saved_entry st (sid, s)) st1) sid' =
      (if sid' = sid then Some (s_token s, set (kinds_of st (s_kinds s)), s_meta s, s_last s, s_segment s)
       else known st1 sid')"
    using old
    by (auto simp: known_def restore_entry_def saved_entry_def AList.update_conv' kinds_of_def nth_append
        split: option.split)
  ultimately show ?thesis by blast
qed

lemma restore_all_known:
  "\<lbrakk>distinct (map fst l); addresses_ok st1\<rbrakk> \<Longrightarrow>
    known (fold (restore_entry now) (map (saved_entry st) l) st1) sid =
      (case map_of l sid of
         None \<Rightarrow> known st1 sid
       | Some s \<Rightarrow> Some (s_token s, set (kinds_of st (s_kinds s)), s_meta s, s_last s, s_segment s))"
proof (induction l arbitrary: st1)
  case (Cons e l)
  obtain k s where e: "e = (k, s)" by fastforce
  have "map_of l k = None" using Cons.prems(1) e by (simp add: map_of_eq_None_iff)
  then show ?case
    using Cons.IH [of "restore_entry now (saved_entry st e) st1"] Cons.prems
      restore_known [OF Cons.prems(2), of now st k s sid]
    by (auto simp: e split: option.split)
qed simp

lemma restore_queue:
  "distinct (map fst fq) \<Longrightarrow>
    map_of (fold (\<lambda>(sid, q). AList.update sid q) fq acc) sid =
      (case map_of fq sid of None \<Rightarrow> map_of acc sid | Some q \<Rightarrow> Some q)"
proof (induction fq arbitrary: acc)
  case (Cons e fq)
  obtain k q where e: "e = (k, q)" by fastforce
  have "map_of fq k = None" using Cons.prems e by (simp add: map_of_eq_None_iff)
  then show ?case using Cons.IH [of "AList.update k q acc"] Cons.prems
    by (auto simp: e AList.update_conv' split: option.split)
qed simp

section \<open>Properties\<close>

text \<open>
  C20: However requests, finalizations, retries, sweeps and restarts follow one another, a chunk
  server that began empty never holds more than 12 GiB for one track of a session, over all its
  segments.
\<close>

theorem session_bytes_capped:
  "kind_bytes sid (js ''camera'') (fold (serve c) ops empty_server) \<le> 12 * 1024 ^ 3
   \<and> kind_bytes sid (js ''screen'') (fold (serve c) ops empty_server) \<le> 12 * 1024 ^ 3"
proof -
  have "spool_ok (fold (serve c) ops empty_server)"
    by (rule spool.run_inv [OF spool_ok_empty])
  then show ?thesis
    unfolding spool_ok_def ALLOWED_KINDS_def MAX_SESSION_BYTES_def by simp
qed

text \<open>
  C7: What was recorded before a session is finalized is not lost, whatever else happens: each file
  of the spool is afterwards still there, perhaps longer, or the object store has an object under
  the file's key that begins with its contents. When the answer says that all was uploaded, the
  latter holds for every file of the session.
\<close>

theorem finalize_keeps_recordings:
  assumes "st = fold (serve c) ops empty_server" "handle_finalize c now w up late hdr sid st = (ans, st')"
    "kind \<in> set ALLOWED_KINDS" "file_of sid' (spool_name kind n) st = data" "data \<noteq> []"
  shows "(prefix data (file_of sid' (spool_name kind n) st')
       \<or> sid' = sid \<and> (\<exists>obj. bucket st' (sid @ js ''/'' @ kind @ js ''/'' @ nat_str n @ js ''.webm'') = Some obj
            \<and> prefix data obj))
    \<and> (sid' = sid \<and> (\<exists>m. ans = Finalized m) \<longrightarrow>
         (\<exists>obj. bucket st' (sid @ js ''/'' @ kind @ js ''/'' @ nat_str n @ js ''.webm'') = Some obj \<and> prefix data obj))"
proof -
  have "spool_ok st"
    unfolding assms(1) by (rule spool.run_inv [OF spool_ok_empty])
  from handle_finalize_keeps [OF this assms(2), of sid' "spool_name kind n"] assms(4,5)
  show ?thesis
    by (auto simp: stored_def okey_spool_name [OF assms(3)] simp del: js_simps_list)
qed

text \<open>
  C35: A chunk that arrives while the last file of its kind is being uploaded is answered with
  success and then lost: afterwards the session is gone, its directory is gone, and the object holds
  only what the file held when the upload began.
\<close>

theorem late_chunk_lost:
  assumes "map_of (sessions st) sid = Some s" "ascii (s_token s)" "check_internal c hdr = None" "isdigit c sid"
    "kind \<in> set ALLOWED_KINDS" "seq_ok c seq q"
    "map_of (spool st) sid = Some [(spool_name kind (s_segment s), data)]" "data \<noteq> []"
    "body \<noteq> []" "length data + length body \<le> MAX_CHUNK_BYTES"
    "up (sid @ js ''/'' @ kind @ js ''/'' @ nat_str (s_segment s) @ js ''.webm'')
       = (True, post_chunk r t (s_token s) sid kind seq body)"
    "handle_finalize c now w up [] hdr sid st = (ans, st')"
  shows "(\<exists>m. ans = Finalized m) \<and> sent st' = sent st @ [(r, Stored (length body) q (s_segment s))]
    \<and> map_of (sessions st') sid = None \<and> map_of (spool st') sid = None
    \<and> bucket st' = (bucket st)(sid @ js ''/'' @ kind @ js ''/'' @ nat_str (s_segment s) @ js ''.webm'' := Some data)"
proof -
  have kb: "kind_bytes sid kind st = length data"
    using assms(7) spool_name_of_kind by (simp add: kind_bytes_def dir_of_def)
  have "MAX_CHUNK_BYTES \<le> MAX_SESSION_BYTES"
    by (simp add: MAX_CHUNK_BYTES_def MAX_SESSION_BYTES_def)
  then have fits: "length body \<le> MAX_CHUNK_BYTES" "kind_bytes sid kind st + length body \<le> MAX_SESSION_BYTES"
    using assms(10) by (simp_all add: kb)
  define st1 where "st1 = fold (chunk_step c) (post_chunk r t (s_token s) sid kind seq body) st"
  note post = post_chunk_result [OF assms(1,2,5,6,9) fits st1_def]
  have key: "okey sid (spool_name kind (s_segment s))
      = sid @ js ''/'' @ kind @ js ''/'' @ nat_str (s_segment s) @ js ''.webm''"
    by (rule okey_spool_name [OF assms(5)])
  obtain m where "do_finalize c up sid st =
      ((m, []), unlink sid (spool_name kind (s_segment s))
         (st1\<lparr>bucket := (bucket st)(okey sid (spool_name kind (s_segment s)) := Some data)\<rparr>))"
    using do_finalize_single [OF assms(7,5,8), of up] assms(11) unfolding key st1_def by blast
  then have "ans = Finalized m \<and> st' = save_registry w (forget sid (cleanup_session_dir sid
      (unlink sid (spool_name kind (s_segment s))
         (st1\<lparr>bucket := (bucket st)(okey sid (spool_name kind (s_segment s)) := Some data)\<rparr>))))"
    using assms(1,3,4,12) by (simp add: handle_finalize_def)
  then show ?thesis
    using post by (simp add: save_registry_def forget_def cleanup_session_dir_def unlink_def AList.delete_conv' key
        del: js_simps_list)
qed

text \<open>
  C36: A session that is finalized, opened again and finalized once more loses its first recording:
  the registration after the finalization starts at segment 0 again, so that the second upload
  overwrites the object of the first.
\<close>

theorem reopened_session_overwrites:
  assumes "handle_finalize c t1 w1 up1 [] hdr sid st = (Finalized m1, st1)"
    "register_session c t2 w2 hdr sid (Some (JObj kvs)) st1 = (ans2, st2)"
    "jget (js ''token'') (JObj kvs) = JStr token" "32 \<le> length token" "length token \<le> 128" "ascii token"
    "st3 = fold (chunk_step c) (post_chunk r t3 token sid kind seq body) st2"
    "kind \<in> set ALLOWED_KINDS" "seq_ok c seq q" "body \<noteq> []" "length body \<le> MAX_CHUNK_BYTES"
    "handle_finalize c t4 w4 up2 [] hdr sid st3 = (ans4, st4)"
    "up2 (sid @ js ''/'' @ kind @ js ''/0.webm'') = (True, [])"
  shows "ans2 = Registered 0 \<and> (\<exists>m. ans4 = Finalized m)
    \<and> bucket st4 = (bucket st1)(sid @ js ''/'' @ kind @ js ''/0.webm'' := Some body)"
proof -
  have auth: "check_internal c hdr = None" "isdigit c sid"
    using assms(1) by (auto simp: handle_finalize_def check_internal_def split: option.splits if_splits)
  obtain st0 where "st1 = save_registry w1 (forget sid (cleanup_session_dir sid st0))"
    using assms(1) auth by (auto simp: handle_finalize_def split: if_splits prod.splits)
  then have gone: "map_of (sessions st1) sid = None" "dir_of sid st1 = []"
    by (simp_all add: save_registry_def forget_def AList.delete_conv' del: dir_of_ops)
      (simp_all add: cleanup_session_dir_def dir_of_def AList.delete_conv')
  note R = register_result [OF auth assms(3-5,2) refl]
  obtain s where s: "map_of (sessions st2) sid = Some s" "s_token s = token" "s_segment s = 0"
    using R(2) gone by auto
  have d2: "dir_of sid st2 = []"
    using R(3) gone by (simp add: dir_of_def AList.update_conv')
  have MM: "MAX_CHUNK_BYTES \<le> MAX_SESSION_BYTES"
    by (simp add: MAX_CHUNK_BYTES_def MAX_SESSION_BYTES_def)
  have fits: "kind_bytes sid kind st2 + length body \<le> MAX_SESSION_BYTES"
    using assms(11) MM d2 by (simp add: kind_bytes_def)
  have asc: "ascii (s_token s)" and st3: "st3 = fold (chunk_step c) (post_chunk r t3 (s_token s) sid kind seq body) st2"
    using assms(6,7) s(2) by simp_all
  note P = post_chunk_result [OF s(1) asc assms(8,9,10,11) fits st3]
  have "file_of sid (spool_name kind 0) st2 = []" by (simp add: file_of_def d2)
  then have d3: "map_of (spool st3) sid = Some [(spool_name kind 0, body)]"
    using P(3) s(3) d2 by (simp add: AList.update_conv')
  have key: "okey sid (spool_name kind 0) = sid @ js ''/'' @ kind @ js ''/0.webm''"
    using okey_spool_name [OF assms(8), of sid 0] by (simp add: nat_str_def digits_rev.simps)
  obtain m where "do_finalize c up2 sid st3 = ((m, []), unlink sid (spool_name kind 0)
      (st3\<lparr>bucket := (bucket st3)(okey sid (spool_name kind 0) := Some body)\<rparr>))"
    using do_finalize_single [OF d3 assms(8,10), of up2 "[]"] assms(13) unfolding key by auto
  then have "ans4 = Finalized m" "bucket st4 = (bucket st3)(okey sid (spool_name kind 0) := Some body)"
    using assms(12) auth d3 by (auto simp: handle_finalize_def unlink_def)
  then show ?thesis
    using R(1,5) P(5) gone by (simp add: key del: js_simps_list)
qed

text \<open>
  C37: A finalization that could not upload everything is tried again, also when the session has been
  registered anew in between: the retry that succeeds removes the session the browser is recording
  in, and every chunk after it is refused.
\<close>

theorem retry_ends_live_session:
  assumes "handle_finalize c t1 w1 up1 late hdr sid st = (Pending m left, st1)"
    "register_session c t2 w2 hdr sid (Some (JObj kvs)) st1 = (Registered seg, st2)"
    "t1 + 60 \<le> t3" "accepts_all up2"
  shows "map_of (sessions st2) sid \<noteq> None
    \<and> (\<exists>a. fst (chunk_head now c any sid kind seq declared (retry_round c t3 w3 up2 st2)) = Inl a)"
proof -
  have auth: "check_internal c hdr = None" "isdigit c sid"
    using assms(1) by (auto simp: handle_finalize_def check_internal_def split: option.splits if_splits)
  have q1: "map_of (queue st1) sid = Some (1, t1 + 60)"
    using assms(1) auth by (auto simp: handle_finalize_def save_registry_def AList.update_conv' split: if_splits prod.splits)
  have reg: "queue st2 = queue st1 \<and> map_of (sessions st2) sid \<noteq> None"
    using assms(2) auth
    by (auto simp: register_session_def Let_def save_registry_def mkdir_def AList.update_conv' split_beta
        split: option.splits if_splits jval.splits)
  have "sid \<in> set (map fst (filter (\<lambda>(sid, attempts, next). next \<le> t3) (queue st2)))"
    using q1 reg assms(3) by (force dest: map_of_SomeD)
  then have gone: "map_of (sessions (retry_round c t3 w3 up2 st2)) sid = None"
    unfolding retry_round_def using retries_accepted [OF assms(4)] q1 reg by simp
  then show ?thesis
    using reg by (auto simp: chunk_head_def check_session_token_def Let_def)
qed


text \<open>
  A sweep drops the sessions that have been idle for more than four hours, with their
  recordings, and touches no other session.
\<close>

lemma sweep_drops_idle_sessions:
  assumes "distinct (map fst (sessions st))"
  shows "map_of (sessions (ttl_sweep now w st)) sid =
      (case map_of (sessions st) sid of
         None \<Rightarrow> None
       | Some s \<Rightarrow> if s_last s < now - 4 * 60 * 60 then None else Some s)
    \<and> map_of (spool (ttl_sweep now w st)) sid =
      (case map_of (sessions st) sid of
         None \<Rightarrow> map_of (spool st) sid
       | Some s \<Rightarrow> if s_last s < now - 4 * 60 * 60 then None else map_of (spool st) sid)"
proof -
  let ?stale = "map fst (filter (\<lambda>(sid, s). s_last s < now - SESSION_TTL_SECS) (sessions st))"
  have drops: "map_of (sessions (fold drop_idle l st)) sid = (if sid \<in> set l then None else map_of (sessions st) sid)
      \<and> map_of (spool (fold drop_idle l st)) sid = (if sid \<in> set l then None else map_of (spool st) sid)" for l
    by (induction l arbitrary: st)
      (auto simp: drop_idle_def Let_def cleanup_session_dir_def AList.delete_conv')
  have "sid \<in> set ?stale \<longleftrightarrow> (\<exists>s. map_of (sessions st) sid = Some s \<and> s_last s < now - SESSION_TTL_SECS)"
    using assms by (auto simp: image_iff split_beta)
  then show ?thesis
    using drops [of ?stale]
    by (auto simp: ttl_sweep_def Let_def save_registry_def SESSION_TTL_SECS_def split: option.split)
qed

text \<open>
  A restart loses nothing that was saved: sessions with their tokens, kinds, activity and
  segments, the queue of retries, the recordings and the objects are what they were when the
  registry was written; only requests in flight are gone.
\<close>

lemma restart_restores:
  assumes "distinct (map fst (sessions st))" "distinct (map fst (queue st))"
  shows "let st' = restart now (save_registry True st) in
    (\<forall>sid. known st' sid = known st sid \<and> map_of (queue st') sid = map_of (queue st) sid)
    \<and> opened st' = [] \<and> spool st' = spool st \<and> bucket st' = bucket st"
proof -
  let ?st0 = "(save_registry True st)\<lparr>sessions := [], kinds_heap := [], queue := [], opened := []\<rparr>"
  have reg: "registry ?st0 = Saved (map (saved_entry st) (sessions st)) (queue st)"
    by (simp add: save_registry_def registry_snapshot_def saved_entry_def)
  have "addresses_ok ?st0" by (simp add: addresses_ok_def)
  note K = restore_all_known [OF assms(1) this]
  have known: "known (restart now (save_registry True st)) sid = known st sid" for sid
  proof -
    have q: "known (t\<lparr>queue := q\<rparr>) sid = known t sid" for t q
      by (simp add: known_def kinds_of_def split: option.split)
    have "known ?st0 sid = None" by (simp add: known_def)
    then have "known (restart now (save_registry True st)) sid =
        (case map_of (sessions st) sid of
           None \<Rightarrow> None
         | Some s \<Rightarrow> Some (s_token s, set (kinds_of st (s_kinds s)), s_meta s, s_last s, s_segment s))"
      using K [of now st sid]
      by (simp add: restart_def load_registry_def reg Let_def q split: option.split)
    then show ?thesis by (simp add: known_def)
  qed
  have "map_of (queue (restart now (save_registry True st))) sid = map_of (queue st) sid" for sid
    using restore_queue [OF assms(2), of "[]" sid]
    by (simp add: restart_def load_registry_def reg Let_def restore_entries_frame split: option.splits)
  moreover have "spool (save_registry True st) = spool st" "bucket (save_registry True st) = bucket st"
    by (simp_all add: save_registry_def)
  ultimately show ?thesis
    using known restart_frame [of now "save_registry True st"] by (simp add: Let_def)
qed

text \<open>
  A chunk is only taken for a session whose token the request bears, and its body, however late
  it arrives, goes to the end of the file of the segment that was current when the token was checked;
  no other file changes.
\<close>

lemma chunk_goes_to_its_segment:
  assumes "chunk_head now c hdr sid kind seq declared st = (Inr x, st1)" "map_of (opened st2) r = Some x"
  shows "\<exists>s. map_of (sessions st) sid = Some s \<and> hdr = bearer @ s_token s \<and> kind \<in> set ALLOWED_KINDS
    \<and> (\<forall>sid' name. file_of sid' name (chunk_step c (Body r body) st2) =
         file_of sid' name st2 @
           (if sid' = sid \<and> name = spool_name kind (s_segment s)
               \<and> (\<exists>n q g. sent (chunk_step c (Body r body) st2) = sent st2 @ [(r, Stored n q g)])
            then body else []))"
proof -
  obtain s where s: "map_of (sessions st) sid = Some s" "hdr = bearer @ s_token s" "x_segment x = s_segment s"
      and x: "x_sid x = sid" "x_kind x = kind" "kind \<in> set ALLOWED_KINDS"
    using chunk_head_frame (2) [OF assms(1) refl] by blast
  have "file_of sid' name (chunk_step c (Body r body) st2) =
         file_of sid' name st2 @
           (if sid' = sid \<and> name = spool_name kind (s_segment s)
               \<and> (\<exists>n q g. sent (chunk_step c (Body r body) st2) = sent st2 @ [(r, Stored n q g)])
            then body else [])" for sid' name
  proof (cases rule: chunk_body_cases [of x body "st2\<lparr>opened := AList.delete r (opened st2)\<rparr>"])
    case (unstored a)
    then show ?thesis using assms(2) by simp
  next
    case (stored h)
    then show ?thesis using assms(2) s(3) x by simp
  qed
  then show ?thesis using s x(3) by blast
qed

text \<open>
  While the object store refuses everything, a session queued at time t is tried again after 1,
  3, 7, 15, 31, 61, 91 and 121 minutes and then given up; its recording stays on disk.
\<close>

lemma retries_last_two_hours:
  assumes "map_of (spool st) sid = Some [(spool_name kind n, data)]" "kind \<in> set ALLOWED_KINDS" "data \<noteq> []"
    "refuses_all up" "queue st = [(sid, 1, t + 60)]"
  shows "fold (\<lambda>m. retry_round c (t + 60 * m) w up) [1, 3, 7, 15, 31, 61, 91] st
      = st\<lparr>queue := [(sid, 8, t + 60 * 121)]\<rparr>
    \<and> fold (\<lambda>m. retry_round c (t + 60 * m) w up) [1, 3, 7, 15, 31, 61, 91, 121] st = st\<lparr>queue := []\<rparr>"
proof -
  have round: "retry_round c now w up (st\<lparr>queue := [(sid, a, u)]\<rparr>) =
      st\<lparr>queue := if a + 1 > 8 then [] else [(sid, a + 1, now + min (60 * 2 ^ a) 1800)]\<rparr>" if "u \<le> now" for a u now
    using retry_round_refused [of "st\<lparr>queue := [(sid, a, u)]\<rparr>" sid kind n data up a u now c w] assms(1-4) that
    by simp
  have start: "fold f l st = fold f l (st\<lparr>queue := [(sid, 1, t + 60)]\<rparr>)" for f and l :: "int list"
    using assms(5) by (metis server.surjective server.update_convs(3))
  show ?thesis
    by (rule conjI; subst start; simp add: round del: One_nat_def)
qed

section \<open>Witnesses\<close>

text \<open>A small deployment, and a session 7 that has recorded one byte of the camera.\<close>

definition conf0 :: conf where
  "conf0 = \<lparr>c_auth = js ''Bearer s'', c_origin = [], c_wildcard = False, c_env = [],
     c_isdigit = (\<lambda>_. False), c_decimal = (\<lambda>_. None)\<rparr>"

definition token0 :: jstr where
  "token0 = replicate 32 97"

definition cam0 :: jstr where
  "cam0 = js ''camera''"

definition live0 :: server where
  "live0 = empty_server\<lparr>sessions := [([55], \<lparr>s_token = token0, s_kinds = 0, s_meta = JObj [], s_last = 0, s_segment = 0\<rparr>)],
     kinds_heap := [[cam0]], spool := [([55], [(spool_name cam0 0, [1])])]\<rparr>"

definition post0 :: "bytes \<Rightarrow> chunk_event list" where
  "post0 body = post_chunk 0 1 token0 [55] cam0 [48] body"

lemma conf0_auth: "check_internal conf0 (js ''Bearer s'') = None" "isdigit conf0 [55]"
  by (simp_all add: check_internal_def conf0_def isdigit_def ascii_def ascii_digit_def)

lemma token0_ok: "length token0 = 32" "ascii token0"
  by (simp_all add: token0_def ascii_def list_all_iff)

lemma seq0: "seq_ok conf0 [48] 0"
  by (simp add: seq_ok_def py_int_def py_strip_def py_space_def py_unsigned_def py_digit_def ascii_digit_def)

lemma cam0_kind [simp]: "cam0 \<in> set ALLOWED_KINDS"
  by (simp add: cam0_def ALLOWED_KINDS_def)

lemma small_body: "length [1 :: 8 word] + length [2 :: 8 word] \<le> MAX_CHUNK_BYTES" "length [2 :: 8 word] \<le> MAX_CHUNK_BYTES"
  "length [2 :: 8 word] \<le> MAX_SESSION_BYTES"
  by (simp_all add: MAX_CHUNK_BYTES_def MAX_SESSION_BYTES_def)

lemma live0_session:
  "map_of (sessions live0) [55] = Some \<lparr>s_token = token0, s_kinds = 0, s_meta = JObj [], s_last = 0, s_segment = 0\<rparr>"
  by (simp add: live0_def)

lemma live0_spool: "map_of (spool live0) [55] = Some [(spool_name cam0 0, [1])]"
  by (simp add: live0_def)

lemma live0_sent: "sent live0 = []"
  by (simp add: live0_def empty_server_def)

theorem late_chunk_lost_witness:
  "let (ans, st') = handle_finalize conf0 2 True (\<lambda>_. (True, post0 [2])) [] (js ''Bearer s'') [55] live0 in
     sent st' = [(0, Stored 1 0 0)] \<and> map_of (spool st') [55] = None
     \<and> bucket st' ([55] @ js ''/'' @ cam0 @ js ''/'' @ nat_str 0 @ js ''.webm'') = Some [1]"
proof -
  obtain ans st' where run: "handle_finalize conf0 2 True (\<lambda>_. (True, post0 [2])) [] (js ''Bearer s'') [55] live0 = (ans, st')"
    by fastforce
  have "(\<exists>m. ans = Finalized m) \<and> sent st' = sent live0 @ [(0, Stored (length [2 :: 8 word]) 0 0)]
      \<and> map_of (sessions st') [55] = None \<and> map_of (spool st') [55] = None
      \<and> bucket st' = (bucket live0)([55] @ js ''/'' @ cam0 @ js ''/'' @ nat_str 0 @ js ''.webm'' := Some [1])"
    using late_chunk_lost [OF live0_session _ conf0_auth cam0_kind seq0 _ _ _ _ _ run, of "[1]" "[2]" 0 1]
      live0_spool small_body token0_ok
    by (simp add: post0_def del: js_simps_list append.simps)
  then show ?thesis
    by (simp add: run live0_sent del: js_simps_list)
qed

lemma finalize_live0:
  "\<exists>m st'. handle_finalize conf0 2 True (\<lambda>_. (True, [])) [] (js ''Bearer s'') [55] live0 = (Finalized m, st')"
  using do_finalize_single [OF live0_spool cam0_kind, of "\<lambda>_. (True, [])" "[]" conf0] conf0_auth
  by (auto simp: handle_finalize_def live0_session)

theorem reopened_session_overwrites_witness:
  "let (ans1, st1) = handle_finalize conf0 2 True (\<lambda>_. (True, [])) [] (js ''Bearer s'') [55] live0;
       (ans2, st2) = register_session conf0 3 True (js ''Bearer s'') [55] (Some (JObj [(js ''token'', JStr token0)])) st1;
       (ans4, st4) = handle_finalize conf0 4 True (\<lambda>_. (True, [])) [] (js ''Bearer s'') [55]
         (fold (chunk_step conf0) (post_chunk 0 1 token0 [55] cam0 [48] [2]) st2)
   in ans2 = Registered 0 \<and> bucket st4 ([55] @ js ''/'' @ cam0 @ js ''/0.webm'') = Some [2]"
proof -
  obtain m st1 where r1: "handle_finalize conf0 2 True (\<lambda>_. (True, [])) [] (js ''Bearer s'') [55] live0 = (Finalized m, st1)"
    using finalize_live0 by blast
  obtain ans2 st2 where r2: "register_session conf0 3 True (js ''Bearer s'') [55] (Some (JObj [(js ''token'', JStr token0)])) st1 = (ans2, st2)"
    by fastforce
  obtain ans4 st4 where r4: "handle_finalize conf0 4 True (\<lambda>_. (True, [])) [] (js ''Bearer s'') [55]
      (fold (chunk_step conf0) (post_chunk 0 1 token0 [55] cam0 [48] [2]) st2) = (ans4, st4)"
    by fastforce
  have "ans2 = Registered 0 \<and> (\<exists>m. ans4 = Finalized m)
      \<and> bucket st4 = (bucket st1)([55] @ js ''/'' @ cam0 @ js ''/0.webm'' := Some [2])"
    by (rule reopened_session_overwrites [OF r1 r2 _ _ _ token0_ok(2) refl cam0_kind seq0 _ small_body(2) r4])
      (simp_all add: token0_ok)
  then show ?thesis by (simp add: r1 r2 r4 del: js_simps_list append.simps)
qed

theorem retry_ends_live_session_witness:
  "let (ans1, st1) = handle_finalize conf0 2 True (\<lambda>_. (False, [])) [] (js ''Bearer s'') [55] live0;
       (ans2, st2) = register_session conf0 3 True (js ''Bearer s'') [55] (Some (JObj [(js ''token'', JStr token0)])) st1
   in ans2 = Registered 1 \<and> map_of (sessions st2) [55] \<noteq> None
     \<and> (\<exists>a. fst (chunk_head 90 conf0 (bearer @ token0) [55] cam0 [48] None
          (retry_round conf0 80 True (\<lambda>_. (True, [])) st2)) = Inl a)"
proof -
  have file0: "file_of [55] (spool_name cam0 0) live0 = [1]"
    by (simp add: file_of_def dir_of_def live0_spool)
  have "by_kind [spool_name cam0 0] = [(cam0, [spool_name cam0 0])]"
    by (simp add: by_kind_def)
  then have "do_finalize conf0 (\<lambda>_. (False, [])) [55] live0 = (([], [cam0]), live0)"
    by (simp add: do_finalize_def live0_spool file0 Let_def)
  then obtain m left st1 where
    r1: "handle_finalize conf0 2 True (\<lambda>_. (False, [])) [] (js ''Bearer s'') [55] live0 = (Pending m left, st1)"
      and st1: "sessions st1 = sessions live0"
    using conf0_auth by (simp add: handle_finalize_def live0_session save_registry_def)
  obtain ans2 st2 where
    r2: "register_session conf0 3 True (js ''Bearer s'') [55] (Some (JObj [(js ''token'', JStr token0)])) st1 = (ans2, st2)"
    by fastforce
  have a2: "ans2 = Registered 1"
    using register_result (1) [OF conf0_auth _ _ _ r2 refl] token0_ok by (simp add: st1 live0_session)
  have "map_of (sessions st2) [55] \<noteq> None
      \<and> (\<exists>a. fst (chunk_head 90 conf0 (bearer @ token0) [55] cam0 [48] None
          (retry_round conf0 80 True (\<lambda>_. (True, [])) st2)) = Inl a)"
    by (rule retry_ends_live_session [OF r1 r2 [unfolded a2]]) (simp_all add: accepts_all_def)
  then show ?thesis by (simp add: r1 r2 a2 del: js_simps_list)
qed

theorem finalize_keeps_recordings_witness:
  "\<exists>st. file_of [55] (spool_name cam0 0) st = [2]
    \<and> (let (ans, st') = handle_finalize conf0 3 True (\<lambda>_. (False, [])) [] (js ''Bearer s'') [55] st in
        prefix [2] (file_of [55] (spool_name cam0 0) st')
        \<or> (\<exists>obj. bucket st' ([55] @ js ''/'' @ cam0 @ js ''/'' @ nat_str 0 @ js ''.webm'') = Some obj \<and> prefix [2] obj))"
proof -
  let ?kvs = "[(js ''token'', JStr token0)]"
  let ?ops = "Register 0 True (js ''Bearer s'') [55] (Some (JObj ?kvs)) # map Chunk (post_chunk 0 1 token0 [55] cam0 [48] [2])"
  obtain ans1 st1 where r1: "register_session conf0 0 True (js ''Bearer s'') [55] (Some (JObj ?kvs)) empty_server = (ans1, st1)"
    by fastforce
  have tok: "jget (js ''token'') (JObj ?kvs) = JStr token0" by simp
  note R = register_result [OF conf0_auth tok _ _ r1 refl]
  have R1: "\<exists>s. map_of (sessions st1) [55] = Some s \<and> s_token s = token0 \<and> s_segment s = 0"
    and R2: "spool st1 = [([55], [])]"
    using R(2,3) token0_ok by (auto simp: empty_server_def dir_of_def)
  obtain s where s: "map_of (sessions st1) [55] = Some s" "s_token s = token0" "s_segment s = 0"
    using R1 by blast
  define st2 where "st2 = fold (serve conf0) ?ops empty_server"
  have "fold (serve conf0) (map Chunk es) st = fold (chunk_step conf0) es st" for es st
    by (induction es arbitrary: st) auto
  then have st2: "st2 = fold (chunk_step conf0) (post_chunk 0 1 (s_token s) [55] cam0 [48] [2]) st1"
    by (simp add: st2_def r1 s(2) del: js_simps_list)
  have small: "kind_bytes [55] cam0 st1 + length [2 :: 8 word] \<le> MAX_SESSION_BYTES"
    using small_body by (simp add: kind_bytes_def dir_of_def R2)
  have "ascii (s_token s)" using s(2) token0_ok by simp
  from post_chunk_result (3) [OF s(1) this cam0_kind seq0 _ small_body(2) small st2]
  have f2: "file_of [55] (spool_name cam0 0) st2 = [2]"
    by (simp add: file_of_def dir_of_def R2 s(3))
  obtain ans st' where run: "handle_finalize conf0 3 True (\<lambda>_. (False, [])) [] (js ''Bearer s'') [55] st2 = (ans, st')"
    by fastforce
  have "prefix [2] (file_of [55] (spool_name cam0 0) st')
      \<or> (\<exists>obj. bucket st' ([55] @ js ''/'' @ cam0 @ js ''/'' @ nat_str 0 @ js ''.webm'') = Some obj \<and> prefix [2] obj)"
    using finalize_keeps_recordings [OF st2_def run cam0_kind f2] by (simp del: js_simps_list append.simps)
  then show ?thesis
    using f2 by (intro exI [of _ st2]) (simp add: run del: js_simps_list)
qed

lemma sweep_drops_idle_sessions_witness:
  "map_of (sessions (ttl_sweep 20000 True live0)) [55] = None \<and> map_of (spool (ttl_sweep 20000 True live0)) [55] = None"
proof -
  have "distinct (map fst (sessions live0))" by (simp add: live0_def)
  from sweep_drops_idle_sessions [OF this, of 20000 True "[55]"]
  show ?thesis by (simp add: live0_session)
qed

lemma restart_restores_witness:
  "known (restart 5 (save_registry True live0)) [55] = Some (token0, {cam0}, JObj [], 0, 0)"
proof -
  have d: "distinct (map fst (sessions live0))" "distinct (map fst (queue live0))"
    by (simp_all add: live0_def empty_server_def)
  have "known (restart 5 (save_registry True live0)) [55] = known live0 [55]"
    using restart_restores [OF d, of 5] by (simp add: Let_def)
  then show ?thesis by (simp add: known_def kinds_of_def live0_def)
qed

lemma chunk_goes_to_its_segment_witness:
  "\<exists>x st1. chunk_head 1 conf0 (bearer @ token0) [55] cam0 [48] None live0 = (Inr x, st1)
    \<and> file_of [55] (spool_name cam0 0) (chunk_step conf0 (Body 0 [2]) (live0\<lparr>opened := [(0, x)]\<rparr>)) = [1, 2]"
proof -
  let ?s = "\<lparr>s_token = token0, s_kinds = 0, s_meta = JObj [], s_last = 0, s_segment = 0\<rparr>"
  obtain x st1 where h: "chunk_head 1 conf0 (bearer @ token0) [55] cam0 [48] None live0 = (Inr x, st1)"
      and x: "x_sid x = [55]" "x_kind x = cam0" "x_segment x = 0" "x_seq x = 0"
    using chunk_head_ok [OF live0_session _ cam0_kind seq0, of 1] token0_ok by simp
  let ?st2 = "live0\<lparr>opened := [(0, x)]\<rparr>"
  have "kind_bytes [55] cam0 (?st2\<lparr>opened := []\<rparr>) \<le> 1"
    using spool_name_of_kind [of cam0 0] by (simp add: kind_bytes_def dir_of_def live0_spool)
  then have "kind_bytes [55] cam0 (?st2\<lparr>opened := []\<rparr>) + 1 \<le> MAX_SESSION_BYTES"
    by (simp add: MAX_SESSION_BYTES_def)
  then have "sent (chunk_step conf0 (Body 0 [2]) ?st2) = sent ?st2 @ [(0, Stored 1 0 0)]"
    using small_body by (simp add: chunk_body_def x Let_def)
  moreover have "file_of [55] (spool_name cam0 0) ?st2 = [1]"
    by (simp add: file_of_def dir_of_def live0_spool)
  moreover have "map_of (opened ?st2) 0 = Some x" by simp
  ultimately have "file_of [55] (spool_name cam0 0) (chunk_step conf0 (Body 0 [2]) ?st2) = [1, 2]"
    using chunk_goes_to_its_segment [OF h, of ?st2 0 "[2]"] live0_session by auto
  then show ?thesis using h by blast
qed


lemma retries_last_two_hours_witness:
  "queue (fold (\<lambda>m. retry_round conf0 (0 + 60 * m) True (\<lambda>_. (False, []))) [1, 3, 7, 15, 31, 61, 91, 121]
     (live0\<lparr>queue := [([55], 1, 0 + 60)]\<rparr>)) = []"
proof -
  let ?st = "live0\<lparr>queue := [([55], 1, 0 + 60)]\<rparr>"
  have "map_of (spool ?st) [55] = Some [(spool_name cam0 0, [1])]" by (simp add: live0_def)
  then have "fold (\<lambda>m. retry_round conf0 (0 + 60 * m) True (\<lambda>_. (False, []))) [1, 3, 7, 15, 31, 61, 91, 121] ?st
      = ?st\<lparr>queue := []\<rparr>"
    by (intro retries_last_two_hours [THEN conjunct2, of _ "[55]" cam0 0 "[1]"]) (simp_all add: refuses_all_def)
  then show ?thesis by (rule ssubst) simp
qed

end
