(* ===== verification/ProctorServer.thy ===== *)
theory ProctorServer
  imports ChunkServer
begin

text \<open>
  The part of the web server that the in-exam runtime talks to: the check of cross-site requests
  (\<open>src/web/csrf.py\<close>), the proctoring manager (\<open>src/web/manager/proctor.py\<close>)
  and the handlers of sessions, events and snapshots (\<open>src/web/web.py\<close>).

  A handler is a function from the request and the state to the reply and the new state. An
  \<open>abort\<close> is the reply \<open>Abort\<close> with its status; its text is left out. The
  changes made before an \<open>abort\<close> stay, since \<open>after_request\<close> commits the
  database for every reply but that of another exception (\<open>errorhandler\<close>), which is
  \<open>Crash\<close>. Requests to the chunk server and messages to the dashboard are recorded in the
  order they are sent. Times are whole seconds.
\<close>

section \<open>State\<close>

datatype status = Active | Ended | Aborted

record row =
  r_id :: nat
  r_contest :: int
  r_user :: nat
  r_status :: status
  r_ended :: "int option"
  r_tabs :: nat
  r_viol :: nat
  r_screen :: "jstr option"
  r_camera :: "jstr option"
  r_meta :: "(jstr \<times> jval) list"

record wevent =
  w_id :: nat
  w_session :: nat
  w_type :: jstr
  w_severity :: jstr
  w_detail :: jval

record contest =
  ct_config :: jval
  ct_start :: int
  ct_end :: int

datatype message =
    StatusMessage nat nat status
  | EventMessage nat nat nat jstr jstr nat nat jval

datatype p2_call =
    CallRegister nat jstr "(jstr \<times> jval) list"
  | CallFinalize nat
  | CallAbort nat

record web =
  contests :: "int \<Rightarrow> contest option"
  rows :: "row list"
  evts :: "wevent list"
  next_row :: nat
  next_event :: nat
  evt_count :: "nat \<times> int \<Rightarrow> nat"
  snap_rate :: "nat \<times> jstr \<times> int \<Rightarrow> nat"
  snap_count :: "nat \<times> jstr \<Rightarrow> nat"
  snapshots :: "(jstr \<times> bytes) list"
  messages :: "message list"
  calls :: "p2_call list"

datatype web_reply =
    SessionMade nat jstr "(jstr \<times> jval) list"
  | EventsLogged "nat list" nat nat
  | SessionStatus status
  | SnapshotStored jstr nat
  | Redirected
  | Abort nat
  | Crash

section \<open>Cross-site requests\<close>

text \<open>
  \<open>check_csrf\<close>: whether a request passes. \<open>marker\<close> is the header that
  \<open>base.js\<close> adds to requests of scripts, \<open>token\<close> the form field,
  \<open>cookie\<close> the cookie.
\<close>

definition check_csrf :: "bool \<Rightarrow> bool \<Rightarrow> jstr option \<Rightarrow> jstr option \<Rightarrow> jstr option \<Rightarrow> bool" where
  "check_csrf api_call post marker token cookie \<longleftrightarrow>
    (if api_call \<or> \<not> post then True
     else if (case marker of None \<Rightarrow> js ''yes'' | Some m \<Rightarrow> m) \<noteq> js ''yes'' then True
     else cookie \<noteq> None \<and> token = cookie)"

section \<open>The manager\<close>

definition SEVERITIES :: "jstr list" where
  "SEVERITIES = map js [''info'', ''warning'', ''violation'']"

definition EVENT_TYPES :: "jstr list" where
  "EVENT_TYPES = map js
    [''session_start'', ''session_end'', ''heartbeat'', ''visibility_hidden'', ''visibility_visible'',
     ''window_blur'', ''window_focus'', ''fullscreen_enter'', ''fullscreen_exit'', ''pagehide'',
     ''pageshow'', ''beforeunload'', ''key_combo'', ''screen_share_stopped'', ''camera_track_ended'',
     ''mic_track_ended'', ''paste_detected'', ''multi_monitor_detected'', ''multi_monitor_resolved'',
     ''screen_surface_changed'', ''environment_info'', ''client_error'', ''client_warning'']"

text \<open>The events that count as a tab switch.\<close>

definition TAB_SWITCHES :: "jstr list" where
  "TAB_SWITCHES = map js [''visibility_hidden'', ''window_blur'', ''fullscreen_exit'']"

definition DEFAULTS :: "(jstr \<times> jval) list" where
  "DEFAULTS =
    [(js ''require_camera'', JBool False), (js ''require_mic'', JBool False),
     (js ''require_screen'', JBool True), (js ''record_camera'', JBool True),
     (js ''record_screen'', JBool True), (js ''fullscreen_required'', JBool True),
     (js ''max_tab_switches'', JNum 3), (js ''require_envcheck'', JBool True)]"

definition field :: "jstr \<Rightarrow> (jstr \<times> jval) list \<Rightarrow> jval" where
  "field k kvs = jget k (JObj kvs)"

text \<open>\<open>config_for\<close>: the defaults, overridden by the contest's settings of the same names.\<close>

definition config_for :: "contest \<Rightarrow> (jstr \<times> jval) list option" where
  "config_for ct =
    (if \<not> py_truthy (ct_config ct) then None
     else
       let resolved = map (\<lambda>(k, d). (k, case jget k (ct_config ct) of JUndef \<Rightarrow> d | v \<Rightarrow> v)) DEFAULTS
       in if list_ex (\<lambda>k. py_truthy (field (js k) resolved))
              [''require_camera'', ''require_mic'', ''require_screen'', ''fullscreen_required'']
          then Some resolved else None)"

definition get_row :: "nat \<Rightarrow> web \<Rightarrow> row option" where
  "get_row sid w = find (\<lambda>r. r_id r = sid) (rows w)"

definition update_row :: "nat \<Rightarrow> (row \<Rightarrow> row) \<Rightarrow> web \<Rightarrow> web" where
  "update_row sid f w = w\<lparr>rows := map (\<lambda>r. if r_id r = sid then f r else r) (rows w)\<rparr>"

text \<open>The latest session of the contest and user that is active, or is not any more.\<close>

definition get_active_session :: "int \<Rightarrow> nat \<Rightarrow> web \<Rightarrow> row option" where
  "get_active_session cid user w =
    find (\<lambda>r. r_contest r = cid \<and> r_user r = user \<and> r_status r = Active) (rev (rows w))"

definition get_finished_session :: "int \<Rightarrow> nat \<Rightarrow> web \<Rightarrow> row option" where
  "get_finished_session cid user w =
    find (\<lambda>r. r_contest r = cid \<and> r_user r = user \<and> r_status r \<in> {Ended, Aborted}) (rev (rows w))"

definition publish :: "message \<Rightarrow> web \<Rightarrow> web" where
  "publish m w = w\<lparr>messages := messages w @ [m]\<rparr>"

text \<open>How an event counts in the overview of its session.\<close>

definition count_event :: "jstr \<Rightarrow> jstr \<Rightarrow> row \<Rightarrow> row" where
  "count_event t s r =
    r\<lparr>r_tabs := r_tabs r + (if t \<in> set TAB_SWITCHES then 1 else 0),
      r_viol := r_viol r + (if s = js ''violation'' then 1 else 0)\<rparr>"

text \<open>
  \<open>log_event\<close>. The type and the severity are the texts that \<open>str\<close> makes of JSON
  values; \<open>None\<close> stands for the text of a value that is no string, which is in neither
  list.
\<close>

definition log_event :: "nat \<Rightarrow> jstr option \<Rightarrow> jstr option \<Rightarrow> jval \<Rightarrow> web \<Rightarrow> (nat + nat) \<times> web" where
  "log_event sid type sev detail w =
    (case (type, sev) of
       (Some t, Some s) \<Rightarrow>
         if t \<notin> set EVENT_TYPES then (Inl 400, w)
         else if s \<notin> set SEVERITIES then (Inl 400, w)
         else
           let eid = next_event w;
               d = (if py_truthy detail then detail else JObj []);
               w1 = w\<lparr>evts := evts w @ [\<lparr>w_id = eid, w_session = sid, w_type = t, w_severity = s, w_detail = d\<rparr>],
                      next_event := eid + 1\<rparr>;
               w2 = update_row sid (count_event t s) w1
           in (Inr eid,
               (case get_row sid w2 of
                  None \<Rightarrow> w2
                | Some r \<Rightarrow> publish (EventMessage sid (r_user r) eid t s (r_tabs r) (r_viol r) d) w2))
     | _ \<Rightarrow> (Inl 400, w))"

text \<open>
  \<open>start_session\<close> for a contest that is proctored. \<open>token\<close> is the fresh token. The
  unique index of active sessions never refuses the row here, as handlers do not overlap.
\<close>

definition start_session :: "int \<Rightarrow> nat \<Rightarrow> jstr \<Rightarrow> (jstr \<times> jval) list \<Rightarrow> web \<Rightarrow> nat \<times> web" where
  "start_session cid user token meta w =
    (let (sid, w1) =
       (case get_active_session cid user w of
          None \<Rightarrow> (next_row w,
            w\<lparr>rows := rows w @ [\<lparr>r_id = next_row w, r_contest = cid, r_user = user, r_status = Active, r_ended = None,
                 r_tabs = 0, r_viol = 0, r_screen = None, r_camera = None, r_meta = meta\<rparr>], next_row := next_row w + 1\<rparr>)
        | Some r \<Rightarrow> (r_id r,
            if meta = [] then w
            else update_row (r_id r) (\<lambda>r. r\<lparr>r_meta := fold (\<lambda>(k, v). AList.update k v) meta (r_meta r)\<rparr>) w))
     in (sid, (publish (StatusMessage sid user Active) w1)\<lparr>calls := calls w1 @ [CallRegister sid token meta]\<rparr>))"

text \<open>
  \<open>end_session\<close>; \<open>reached\<close> is whether the chunk server answered at all.
\<close>

definition end_session :: "row \<Rightarrow> status \<Rightarrow> int \<Rightarrow> bool \<Rightarrow> web \<Rightarrow> web" where
  "end_session r st now reached w =
    (if r_status r \<noteq> Active then w
     else
       let sid = r_id r;
           w1 = publish (StatusMessage sid (r_user r) st)
             (update_row sid (\<lambda>r. r\<lparr>r_status := st, r_ended := Some now\<rparr>) w);
           w2 = w1\<lparr>calls := calls w1 @ [if st = Ended then CallFinalize sid else CallAbort sid]\<rparr>
       in if reached \<and> st = Ended
          then update_row sid (\<lambda>r. r\<lparr>r_screen := Some (nat_str sid @ js ''/screen/''),
                 r_camera := Some (nat_str sid @ js ''/camera/'')\<rparr>) w2
          else w2)"

definition reopen_session :: "row \<Rightarrow> web \<Rightarrow> web" where
  "reopen_session r w =
    (if r_status r = Active then w
     else publish (StatusMessage (r_id r) (r_user r) Active)
       (update_row (r_id r) (\<lambda>r. r\<lparr>r_status := Active, r_ended := None\<rparr>) w))"

section \<open>Handlers\<close>

text \<open>\<open>require_logged_in\<close> and \<open>_load_owned_session\<close>.\<close>

record visitor =
  v_user :: nat
  v_admin :: bool

definition load_owned_session :: "visitor \<Rightarrow> nat \<Rightarrow> web \<Rightarrow> nat + row" where
  "load_owned_session v sid w =
    (case get_row sid w of
       None \<Rightarrow> Inl 404
     | Some r \<Rightarrow> if r_user r \<noteq> v_user v \<and> \<not> v_admin v then Inl 403 else Inr r)"

definition text_of :: "jval \<Rightarrow> jstr option" where
  "text_of v = (case v of JStr s \<Rightarrow> Some s | _ \<Rightarrow> None)"

text \<open>\<open>d.get(k, default)\<close> for a text default.\<close>

definition text_field :: "jstr \<Rightarrow> jstr \<Rightarrow> jval \<Rightarrow> jstr option" where
  "text_field k d v = (case jget k v of JUndef \<Rightarrow> Some d | x \<Rightarrow> text_of x)"

fun is_dict :: "jval \<Rightarrow> bool" where
  "is_dict (JObj _) = True"
| "is_dict _ = False"

definition log_raw :: "nat \<Rightarrow> jval \<Rightarrow> web \<Rightarrow> (nat + nat) \<times> web" where
  "log_raw sid raw w =
    (let detail = jget (js ''detail'') raw in
     log_event sid (text_field (js ''event_type'') [] raw) (text_field (js ''severity'') (js ''info'') raw)
       (if is_dict detail then detail else JNull) w)"

fun log_all :: "nat \<Rightarrow> jval list \<Rightarrow> nat list \<Rightarrow> web \<Rightarrow> (nat + nat list) \<times> web" where
  "log_all sid [] out w = (Inr out, w)"
| "log_all sid (raw # raws) out w =
    (if \<not> is_dict raw then log_all sid raws out w
     else case log_raw sid raw w of
         (Inl code, w1) \<Rightarrow> (Inl code, w1)
       | (Inr eid, w1) \<Rightarrow> log_all sid raws (out @ [eid]) w1)"

text \<open>
  The rate limit of events: what is raised in the \<open>try\<close>, if anything. Without redis the
  connection raises.
\<close>

definition count_events :: "bool \<Rightarrow> nat \<Rightarrow> int \<Rightarrow> nat \<Rightarrow> web \<Rightarrow> web_reply option \<times> web" where
  "count_events redis sid now n w =
    (if \<not> redis then (Some Crash, w)
     else
       let k = (sid, now div 60); cur = evt_count w k + n; w1 = w\<lparr>evt_count := (evt_count w)(k := cur)\<rparr>
       in (if cur > 120 then Some (Abort 429) else None, w1))"

text \<open>
  \<open>proctor_post_events\<close>. What the rate limit raises is caught by its own
  \<open>except Exception\<close>, an \<open>abort\<close> included. \<open>payload\<close> is what
  \<open>get_json(silent=True)\<close> returns: \<open>JNull\<close> for a body that is no JSON.
\<close>

definition post_events :: "visitor \<Rightarrow> nat \<Rightarrow> jval \<Rightarrow> bool \<Rightarrow> int \<Rightarrow> web \<Rightarrow> web_reply \<times> web" where
  "post_events v sid payload redis now w =
    (case load_owned_session v sid w of
       Inl code \<Rightarrow> (Abort code, w)
     | Inr r \<Rightarrow>
         if r_status r \<noteq> Active then (Abort 400, w)
         else
           let p = (if py_truthy payload then payload else JObj []) in
           if \<not> is_dict p then (Crash, w)
           else case jget (js ''events'') p of
             JArr events \<Rightarrow>
               if events = [] then (Abort 400, w)
               else if length events > 100 then (Abort 400, w)
               else
                 (let (caught, w1) = count_events redis sid now (length events) w in
                  case log_all sid events [] w1 of
                    (Inl code, w2) \<Rightarrow> (Abort code, w2)
                  | (Inr ids, w2) \<Rightarrow>
                      (case get_row sid w2 of
                         None \<Rightarrow> (Crash, w2)
                       | Some r2 \<Rightarrow> (EventsLogged ids (r_tabs r2) (r_viol r2), w2)))
           | _ \<Rightarrow> (Abort 400, w))"

text \<open>
  \<open>proctor_create_session\<close>. The labels of the refusal are joined into its text, which
  raises when one of them is no string; reasons that cannot be iterated over raise as well.
\<close>

definition py_int_of :: "conf \<Rightarrow> jval \<Rightarrow> int option" where
  "py_int_of c v =
    (case v of
       JNum n \<Rightarrow> Some n
     | JBool b \<Rightarrow> Some (if b then 1 else 0)
     | JStr s \<Rightarrow> py_int c s
     | _ \<Rightarrow> None)"

definition META_KEYS :: "jstr list" where
  "META_KEYS = map js [''userAgent'', ''screen'', ''tz'', ''lang'', ''envcheck'']"

definition client_meta :: "jval \<Rightarrow> (jstr \<times> jval) list" where
  "client_meta v =
    (if \<not> py_truthy v \<or> \<not> is_dict v then []
     else filter (\<lambda>(k, x). x \<noteq> JUndef) (map (\<lambda>k. (k, jget k v)) META_KEYS))"

definition refusal_ok :: "jval \<Rightarrow> bool" where
  "refusal_ok reasons =
    (if \<not> py_truthy reasons then True
     else case reasons of
       JArr rs \<Rightarrow> list_all (\<lambda>r. is_dict r \<longrightarrow> text_of (jget (js ''label'') r) \<noteq> None) rs
     | JStr _ \<Rightarrow> True
     | JObj _ \<Rightarrow> True
     | _ \<Rightarrow> False)"

text \<open>The gate on the first creation: what it answers, or nothing when the visitor may enter.\<close>

definition envcheck_gate :: "(jstr \<times> jval) list \<Rightarrow> (jstr \<times> jval) list \<Rightarrow> web_reply option" where
  "envcheck_gate cfg meta =
    (if \<not> py_truthy (case field (js ''require_envcheck'') cfg of JUndef \<Rightarrow> JBool True | v \<Rightarrow> v) then None
     else
       let envcheck = field (js ''envcheck'') meta; blocked = jget (js ''blocked'') envcheck in
       if \<not> is_dict envcheck \<or> blocked = JUndef then Some (Abort 400)
       else if py_truthy blocked then
         Some (if refusal_ok (jget (js ''reasons'') envcheck) then Abort 403 else Crash)
       else None)"

definition log_entry :: "bool \<Rightarrow> nat \<Rightarrow> (jstr \<times> jval) list \<Rightarrow> web \<Rightarrow> web" where
  "log_entry reconnect sid meta w =
    (if reconnect
     then snd (log_event sid (Some (js ''heartbeat'')) (Some (js ''info'')) (JObj [(js ''reconnect'', JBool True)]) w)
     else snd (log_event sid (Some (js ''environment_info'')) (Some (js ''info''))
            (JObj [(js ''envcheck'', jopt (map_of meta (js ''envcheck'')))])
            (snd (log_event sid (Some (js ''session_start'')) (Some (js ''info'')) JNull w))))"

definition create_session :: "conf \<Rightarrow> visitor \<Rightarrow> jval \<Rightarrow> jstr \<Rightarrow> int \<Rightarrow> web \<Rightarrow> web_reply \<times> web" where
  "create_session c v body token now w =
    (let data = (if py_truthy body then body else JObj []) in
     if \<not> is_dict data then (Crash, w)
     else case py_int_of c (jget (js ''contest_id'') data) of
       None \<Rightarrow> (Abort 400, w)
     | Some cid \<Rightarrow>
         (case contests w cid of
            None \<Rightarrow> (Abort 404, w)
          | Some ct \<Rightarrow>
              (case config_for ct of
                 None \<Rightarrow> (Abort 400, w)
               | Some cfg \<Rightarrow>
                   let active = get_active_session cid (v_user v) w;
                       meta = client_meta (jget (js ''client_meta'') data)
                   in if v_admin v then (Abort 403, w)
                   else if active = None \<and> (now < ct_start ct \<or> now > ct_end ct) then (Abort 403, w)
                   else if get_finished_session cid (v_user v) w \<noteq> None then (Abort 403, w)
                   else case (if active = None then envcheck_gate cfg meta else None) of
                     Some reply \<Rightarrow> (reply, w)
                   | None \<Rightarrow>
                       (let (sid, w1) = start_session cid (v_user v) token meta w
                        in (SessionMade sid token cfg, log_entry (active \<noteq> None) sid meta w1)))))"

text \<open>\<open>proctor_end_session\<close> and \<open>proctor_admin_session_reopen\<close>.\<close>

definition end_session_request :: "visitor \<Rightarrow> nat \<Rightarrow> int \<Rightarrow> bool \<Rightarrow> web \<Rightarrow> web_reply \<times> web" where
  "end_session_request v sid now reached w =
    (case load_owned_session v sid w of
       Inl code \<Rightarrow> (Abort code, w)
     | Inr r \<Rightarrow>
         if r_status r = Active then
           (SessionStatus Ended,
            end_session r Ended now reached
              (snd (log_event sid (Some (js ''session_end'')) (Some (js ''info'')) JNull w)))
         else (SessionStatus (r_status r), w))"

definition reopen_request :: "bool \<Rightarrow> int \<Rightarrow> nat \<Rightarrow> web \<Rightarrow> web_reply \<times> web" where
  "reopen_request can_write cid sid w =
    (if \<not> can_write then (Abort 403, w)
     else case get_row sid w of
       None \<Rightarrow> (Abort 404, w)
     | Some r \<Rightarrow> if r_contest r \<noteq> cid then (Abort 404, w) else (Redirected, reopen_session r w))"

text \<open>
  \<open>proctor_post_snapshot\<close>. \<open>ms\<close> is the time in milliseconds, \<open>put_ok\<close> whether
  the object store took the snapshot.
\<close>

definition is_jpeg :: "bytes \<Rightarrow> bool" where
  "is_jpeg body \<longleftrightarrow> length body \<ge> 3 \<and> take 3 body = [0xFF, 0xD8, 0xFF]"

definition count_snapshot :: "bool \<Rightarrow> nat \<Rightarrow> jstr \<Rightarrow> int \<Rightarrow> web \<Rightarrow> web_reply option \<times> web" where
  "count_snapshot redis sid kind now w =
    (if \<not> redis then (Some Crash, w)
     else
       let k = (sid, kind, now div 15); rate = snap_rate w k + 1; w1 = w\<lparr>snap_rate := (snap_rate w)(k := rate)\<rparr>
       in if rate > 1 then (Some (Abort 429), w1)
       else
         let total_count = snap_count w1 (sid, kind) + 1;
             w2 = w1\<lparr>snap_count := (snap_count w1)((sid, kind) := total_count)\<rparr>
         in (if total_count > 500 then Some (Abort 429) else None, w2))"

definition post_snapshot :: "visitor \<Rightarrow> nat \<Rightarrow> jstr \<Rightarrow> bytes \<Rightarrow> bool \<Rightarrow> bool \<Rightarrow> int \<Rightarrow> web \<Rightarrow> web_reply \<times> web" where
  "post_snapshot v sid kind body redis put_ok ms w =
    (if v_admin v then (Abort 403, w)
     else case load_owned_session v sid w of
       Inl code \<Rightarrow> (Abort code, w)
     | Inr r \<Rightarrow>
         if r_status r \<noteq> Active then (Abort 400, w)
         else if kind \<notin> {js ''screen'', js ''camera''} then (Abort 400, w)
         else if body = [] then (Abort 400, w)
         else if length body > 1024 * 1024 then (Abort 413, w)
         else if \<not> is_jpeg body then (Abort 400, w)
         else
           let (caught, w1) = count_snapshot redis sid kind (ms div 1000) w;
               key = nat_str sid @ js ''/snapshots/'' @ kind @ js ''-'' @ num_str ms @ js ''.jpg''
           in if put_ok
              then (SnapshotStored key (length body), w1\<lparr>snapshots := AList.update key body (snapshots w1)\<rparr>)
              else (Abort 500, w1))"

text \<open>
  \<open>proctor_admin_save\<close>: the settings of a contest, from the form's fields. \<open>None\<close>:
  the request is refused.
\<close>

definition checkbox :: "(jstr \<rightharpoonup> jstr) \<Rightarrow> jstr \<Rightarrow> jstr \<times> jval" where
  "checkbox form k = (k, JBool (form k = Some (js ''on'')))"

definition saved_config :: "conf \<Rightarrow> (jstr \<rightharpoonup> jstr) \<Rightarrow> jval option" where
  "saved_config c form =
    (if form (js ''action'') = Some (js ''disable'') then Some JNull
     else
       let boxes = map (checkbox form \<circ> js) [''require_camera'', ''require_mic'', ''require_screen'',
             ''record_camera'', ''record_screen'', ''fullscreen_required'', ''require_envcheck''];
           raw_max = py_strip (case form (js ''max_tab_switches'') of None \<Rightarrow> [] | Some x \<Rightarrow> x)
       in if raw_max = [] then Some (JObj (boxes @ [(js ''max_tab_switches'', JNull)]))
       else case py_int c raw_max of
         None \<Rightarrow> None
       | Some n \<Rightarrow> Some (JObj (boxes @ [(js ''max_tab_switches'', JNum (max 0 n))])))"

definition admin_save :: "conf \<Rightarrow> bool \<Rightarrow> int \<Rightarrow> (jstr \<rightharpoonup> jstr) \<Rightarrow> web \<Rightarrow> web_reply \<times> web" where
  "admin_save c can_write cid form w =
    (case contests w cid of
       None \<Rightarrow> (Abort 404, w)
     | Some ct \<Rightarrow>
         if \<not> can_write then (Abort 403, w)
         else case saved_config c form of
           None \<Rightarrow> (Abort 400, w)
         | Some cfg \<Rightarrow> (Redirected, w\<lparr>contests := (contests w)(cid := Some (ct\<lparr>ct_config := cfg\<rparr>))\<rparr>))"

section \<open>Runs\<close>

datatype web_op =
    CreateSession visitor jval jstr int
  | PostEvents visitor nat jval bool int
  | PostSnapshot visitor nat jstr bytes bool bool int
  | EndSession visitor nat int bool
  | ReopenSession bool int nat
  | SaveConfig bool int "jstr \<rightharpoonup> jstr"

fun handle :: "conf \<Rightarrow> web_op \<Rightarrow> web \<Rightarrow> web_reply \<times> web" where
  "handle c (CreateSession v body token now) w = create_session c v body token now w"
| "handle c (PostEvents v sid payload redis now) w = post_events v sid payload redis now w"
| "handle c (PostSnapshot v sid kind body redis put_ok ms) w = post_snapshot v sid kind body redis put_ok ms w"
| "handle c (EndSession v sid now reached) w = end_session_request v sid now reached w"
| "handle c (ReopenSession can_write cid sid) w = reopen_request can_write cid sid w"
| "handle c (SaveConfig can_write cid form) w = admin_save c can_write cid form w"

definition web_step :: "conf \<Rightarrow> web_op \<Rightarrow> web \<Rightarrow> web" where
  "web_step c op w = snd (handle c op w)"

definition new_web :: "(int \<Rightarrow> contest option) \<Rightarrow> web" where
  "new_web cts = \<lparr>contests = cts, rows = [], evts = [], next_row = 1, next_event = 1, evt_count = (\<lambda>_. 0),
     snap_rate = (\<lambda>_. 0), snap_count = (\<lambda>_. 0), snapshots = [], messages = [], calls = []\<rparr>"

section \<open>The invariant\<close>

text \<open>
  The rows have distinct numbers below the next one and there is one per contest and user; the
  events are of known types and severities and belong to rows; and the counters of a row count its
  events.
\<close>

definition tab_count :: "nat \<Rightarrow> web \<Rightarrow> nat" where
  "tab_count sid w = length (filter (\<lambda>e. w_session e = sid \<and> w_type e \<in> set TAB_SWITCHES) (evts w))"

definition viol_count :: "nat \<Rightarrow> web \<Rightarrow> nat" where
  "viol_count sid w = length (filter (\<lambda>e. w_session e = sid \<and> w_severity e = js ''violation'') (evts w))"

definition web_ok :: "web \<Rightarrow> bool" where
  "web_ok w \<longleftrightarrow>
    distinct (map r_id (rows w)) \<and> (\<forall>r \<in> set (rows w). r_id r < next_row w)
    \<and> distinct (map (\<lambda>r. (r_contest r, r_user r)) (rows w))
    \<and> (\<forall>r \<in> set (rows w). r_tabs r = tab_count (r_id r) w \<and> r_viol r = viol_count (r_id r) w)
    \<and> (\<forall>e \<in> set (evts w). w_type e \<in> set EVENT_TYPES \<and> w_severity e \<in> set SEVERITIES \<and> w_session e < next_row w)"

lemma web_ok_new: "web_ok (new_web cts)"
  by (simp add: web_ok_def new_web_def)

definition known_row :: "nat \<Rightarrow> web \<Rightarrow> bool" where
  "known_row sid w \<longleftrightarrow> sid \<in> set (map r_id (rows w))"

lemma get_row_SomeD: "get_row sid w = Some r \<Longrightarrow> r \<in> set (rows w) \<and> r_id r = sid"
  by (auto simp: get_row_def find_Some_iff)

lemma get_row_known: "get_row sid w \<noteq> None \<longleftrightarrow> known_row sid w"
  by (auto simp: get_row_def known_row_def find_None_iff)

lemma update_row_fields [simp]:
  "evts (update_row sid f w) = evts w" "next_row (update_row sid f w) = next_row w"
  "next_event (update_row sid f w) = next_event w" "messages (update_row sid f w) = messages w"
  "calls (update_row sid f w) = calls w" "contests (update_row sid f w) = contests w"
  "evt_count (update_row sid f w) = evt_count w"
  by (simp_all add: update_row_def)

lemma publish_fields [simp]:
  "evts (publish m w) = evts w" "next_row (publish m w) = next_row w" "rows (publish m w) = rows w"
  "next_event (publish m w) = next_event w" "calls (publish m w) = calls w"
  "contests (publish m w) = contests w" "evt_count (publish m w) = evt_count w"
  by (simp_all add: publish_def)

text \<open>Only these parts of the state matter for the invariant.\<close>

lemma web_ok_cong:
  "\<lbrakk>web_ok w; rows w' = rows w; evts w' = evts w; next_row w' = next_row w\<rbrakk> \<Longrightarrow> web_ok w'"
  by (simp add: web_ok_def tab_count_def viol_count_def)

lemma web_ok_publish: "web_ok w \<Longrightarrow> web_ok (publish m w)"
  by (rule web_ok_cong) simp_all

text \<open>An update of a row that keeps its number, its owner and its counters.\<close>

definition keeps_owner :: "(row \<Rightarrow> row) \<Rightarrow> bool" where
  "keeps_owner f \<longleftrightarrow> (\<forall>r. r_id (f r) = r_id r \<and> r_contest (f r) = r_contest r \<and> r_user (f r) = r_user r)"

definition mild :: "(row \<Rightarrow> row) \<Rightarrow> bool" where
  "mild f \<longleftrightarrow> keeps_owner f \<and> (\<forall>r. r_tabs (f r) = r_tabs r \<and> r_viol (f r) = r_viol r)"

lemma keeps_owner_count [simp]: "keeps_owner (count_event t s)"
  by (simp add: keeps_owner_def count_event_def)

lemma map_update_same: "(\<And>r. g (f r) = g r) \<Longrightarrow> map g (map (\<lambda>r. if r_id r = sid then f r else r) l) = map g l"
  by (induction l) auto

lemma update_row_ids:
  assumes "keeps_owner f"
  shows "map r_id (rows (update_row sid f w)) = map r_id (rows w)"
    and "map (\<lambda>r. (r_contest r, r_user r)) (rows (update_row sid f w)) = map (\<lambda>r. (r_contest r, r_user r)) (rows w)"
proof -
  have f: "r_id (f r) = r_id r" "(r_contest (f r), r_user (f r)) = (r_contest r, r_user r)" for r
    using assms by (simp_all add: keeps_owner_def)
  show "map r_id (rows (update_row sid f w)) = map r_id (rows w)"
    unfolding update_row_def by (simp add: map_update_same f del: map_map)
  show "map (\<lambda>r. (r_contest r, r_user r)) (rows (update_row sid f w)) = map (\<lambda>r. (r_contest r, r_user r)) (rows w)"
    unfolding update_row_def
    using map_update_same [of "\<lambda>r. (r_contest r, r_user r)" f sid "rows w", OF f(2)] by (simp del: map_map)
qed

lemma known_row_update [simp]: "keeps_owner f \<Longrightarrow> known_row i (update_row sid f w) = known_row i w"
  by (simp only: known_row_def update_row_ids)

lemma all_update_row:
  "(\<forall>r \<in> set (rows (update_row sid f w)). P r) \<longleftrightarrow> (\<forall>r \<in> set (rows w). P (if r_id r = sid then f r else r))"
  by (auto simp: update_row_def)

lemma web_ok_mild:
  assumes "web_ok w" "mild f"
  shows "web_ok (update_row sid f w)"
proof -
  have ko: "keeps_owner f" using assms(2) by (simp add: mild_def)
  have counts: "tab_count i (update_row sid f w) = tab_count i w" "viol_count i (update_row sid f w) = viol_count i w" for i
    by (simp_all add: tab_count_def viol_count_def)
  show ?thesis
    using assms unfolding web_ok_def update_row_ids [OF ko] all_update_row counts update_row_fields
    by (auto simp: mild_def keeps_owner_def)
qed

text \<open>What an event changes.\<close>

definition add_event :: "nat \<Rightarrow> jstr \<Rightarrow> jstr \<Rightarrow> jval \<Rightarrow> web \<Rightarrow> web" where
  "add_event sid t s d w = update_row sid (count_event t s)
     (w\<lparr>evts := evts w @ [\<lparr>w_id = next_event w, w_session = sid, w_type = t, w_severity = s, w_detail = d\<rparr>],
        next_event := next_event w + 1\<rparr>)"

lemma log_event_cases:
  obtains (refused) "log_event sid type sev detail w = (Inl 400, w)"
  | (logged) t s ms where "type = Some t" "sev = Some s" "t \<in> set EVENT_TYPES" "s \<in> set SEVERITIES"
      "log_event sid type sev detail w =
        (Inr (next_event w),
         (add_event sid t s (if py_truthy detail then detail else JObj []) w)\<lparr>messages := ms\<rparr>)"
proof (cases "\<exists>t s. type = Some t \<and> sev = Some s \<and> t \<in> set EVENT_TYPES \<and> s \<in> set SEVERITIES")
  case False
  then have "log_event sid type sev detail w = (Inl 400, w)"
    by (auto simp: log_event_def split: option.splits)
  then show ?thesis by (rule refused)
next
  case True
  then obtain t s where ts: "type = Some t" "sev = Some s" "t \<in> set EVENT_TYPES" "s \<in> set SEVERITIES" by blast
  define w2 where "w2 = add_event sid t s (if py_truthy detail then detail else JObj []) w"
  have "log_event sid type sev detail w = (Inr (next_event w),
      (case get_row sid w2 of
         None \<Rightarrow> w2
       | Some r \<Rightarrow> publish (EventMessage sid (r_user r) (next_event w) t s (r_tabs r) (r_viol r)
           (if py_truthy detail then detail else JObj [])) w2))"
    using ts unfolding w2_def add_event_def by (simp only: log_event_def Let_def prod.case option.case not_not if_False)
      simp
  moreover have "\<exists>ms. (case get_row sid w2 of
         None \<Rightarrow> w2
       | Some r \<Rightarrow> publish (EventMessage sid (r_user r) (next_event w) t s (r_tabs r) (r_viol r)
           (if py_truthy detail then detail else JObj [])) w2) = w2\<lparr>messages := ms\<rparr>"
    unfolding publish_def
    by (cases "get_row sid w2") (auto intro: exI [of _ "messages w2"])
  ultimately show ?thesis using logged [OF ts] unfolding w2_def by metis
qed

lemma known_row_messages [simp]: "known_row i (w\<lparr>messages := ms\<rparr>) = known_row i w"
  by (simp add: known_row_def)

lemma known_row_add_event [simp]: "known_row i (add_event sid t s d w) = known_row i w"
  unfolding add_event_def by (simp add: known_row_def [of i "w\<lparr>evts := e, next_event := n\<rparr>" for e n])
    (simp add: known_row_def)

lemma log_event_known: "known_row i (snd (log_event sid type sev detail w)) = known_row i w"
  by (cases rule: log_event_cases [of sid type sev detail w]) auto

lemma web_ok_add_event:
  assumes ok: "web_ok w" and kn: "known_row sid w" and "t \<in> set EVENT_TYPES" "s \<in> set SEVERITIES"
  shows "web_ok (add_event sid t s d w)"
proof -
  let ?w1 = "w\<lparr>evts := evts w @ [\<lparr>w_id = next_event w, w_session = sid, w_type = t, w_severity = s, w_detail = d\<rparr>],
        next_event := next_event w + 1\<rparr>"
  have tabs: "tab_count i (update_row sid f ?w1) = tab_count i w + (if i = sid \<and> t \<in> set TAB_SWITCHES then 1 else 0)"
    and viol: "viol_count i (update_row sid f ?w1) = viol_count i w + (if i = sid \<and> s = js ''violation'' then 1 else 0)" for i f
    by (auto simp: tab_count_def viol_count_def)
  have "sid < next_row w"
    using ok kn by (auto simp: web_ok_def known_row_def)
  then show ?thesis
    using ok assms(3,4)
    unfolding add_event_def web_ok_def update_row_ids [OF keeps_owner_count] all_update_row tabs viol
    by (auto simp: count_event_def simp del: js_simps_list)
qed

lemma web_ok_log_event:
  assumes "web_ok w" "known_row sid w"
  shows "web_ok (snd (log_event sid type sev detail w))"
proof (cases rule: log_event_cases [of sid type sev detail w])
  case refused
  then show ?thesis using assms by simp
next
  case (logged t s ms)
  have "web_ok ((add_event sid t s d w)\<lparr>messages := ms\<rparr>)" for d
    by (rule web_ok_cong [OF web_ok_add_event [OF assms logged(3,4)]]) simp_all
  then show ?thesis by (simp add: logged(5))
qed

lemma log_all_ok:
  "\<lbrakk>web_ok w; known_row sid w\<rbrakk> \<Longrightarrow> web_ok (snd (log_all sid raws out w)) \<and> known_row sid (snd (log_all sid raws out w))"
proof (induction sid raws out w rule: log_all.induct)
  case (2 sid raw raws out w)
  have l: "web_ok (snd (log_raw sid raw w))" "known_row sid (snd (log_raw sid raw w))"
    unfolding log_raw_def Let_def using web_ok_log_event [OF "2.prems"] log_event_known "2.prems"(2) by blast+
  obtain res w1 where lw: "log_raw sid raw w = (res, w1)" by fastforce
  show ?case
    using "2.IH" "2.prems" l lw by (cases "is_dict raw"; cases res) auto
qed simp

lemma get_active_SomeD:
  "get_active_session cid u w = Some r \<Longrightarrow> r \<in> set (rows w) \<and> r_contest r = cid \<and> r_user r = u \<and> r_status r = Active"
  unfolding get_active_session_def find_Some_iff by (metis nth_mem set_rev)

lemma get_active_NoneD:
  "get_active_session cid u w = None \<Longrightarrow> r \<in> set (rows w) \<Longrightarrow> r_contest r = cid \<Longrightarrow> r_user r = u \<Longrightarrow> r_status r \<noteq> Active"
  by (auto simp: get_active_session_def find_None_iff)

lemma get_finished_NoneD:
  "get_finished_session cid u w = None \<Longrightarrow> r \<in> set (rows w) \<Longrightarrow> r_contest r = cid \<Longrightarrow> r_user r = u \<Longrightarrow> r_status r = Active"
  by (cases "r_status r") (auto simp: get_finished_session_def find_None_iff)

lemma web_ok_start:
  assumes ok: "web_ok w" and fin: "get_finished_session cid u w = None"
    and st: "start_session cid u token meta w = (sid, w')"
  shows "web_ok w' \<and> known_row sid w'"
proof (cases "get_active_session cid u w")
  case None
  let ?r = "\<lparr>r_id = next_row w, r_contest = cid, r_user = u, r_status = Active, r_ended = None,
                 r_tabs = 0, r_viol = 0, r_screen = None, r_camera = None, r_meta = meta\<rparr>"
  have sid: "sid = next_row w"
    and w': "rows w' = rows w @ [?r]" "evts w' = evts w" "next_row w' = next_row w + 1"
    using st None by (auto simp: start_session_def)
  have fresh: "(cid, u) \<notin> (\<lambda>r. (r_contest r, r_user r)) ` set (rows w)"
    using get_active_NoneD [OF None] get_finished_NoneD [OF fin] by auto
  have "tab_count (next_row w) w = 0" "viol_count (next_row w) w = 0"
    using ok by (auto simp: web_ok_def tab_count_def viol_count_def filter_empty_conv)
  moreover have "tab_count i w' = tab_count i w" "viol_count i w' = viol_count i w" for i
    by (simp_all add: tab_count_def viol_count_def w')
  ultimately have "web_ok w'"
    using ok fresh unfolding web_ok_def by (auto simp: w' less_Suc_eq)
  then show ?thesis by (simp add: known_row_def w' sid)
next
  case (Some r)
  let ?f = "\<lambda>r. r\<lparr>r_meta := fold (\<lambda>(k, v). AList.update k v) meta (r_meta r)\<rparr>"
  have mild: "mild ?f" by (simp add: mild_def keeps_owner_def)
  have sid: "sid = r_id r" using st Some by (auto simp: start_session_def Let_def)
  have w': "rows w' = rows (if meta = [] then w else update_row (r_id r) ?f w)"
      "evts w' = evts w" "next_row w' = next_row w"
    using st Some by (auto simp: start_session_def Let_def)
  have "web_ok (if meta = [] then w else update_row (r_id r) ?f w)"
    using ok web_ok_mild [OF ok mild] by simp
  then have "web_ok w'" by (rule web_ok_cong) (use w' in simp_all)
  moreover have "known_row sid w'"
    using get_active_SomeD [OF Some] mild known_row_update [of ?f sid "r_id r" w]
    by (auto simp: known_row_def w' sid mild_def)
  ultimately show ?thesis by blast
qed

lemma web_ok_fields [simp]:
  "web_ok (w\<lparr>calls := a\<rparr>) = web_ok w" "web_ok (w\<lparr>evt_count := e\<rparr>) = web_ok w"
  "web_ok (w\<lparr>snap_rate := b\<rparr>) = web_ok w" "web_ok (w\<lparr>snap_count := d\<rparr>) = web_ok w"
  "web_ok (w\<lparr>snapshots := f\<rparr>) = web_ok w" "web_ok (w\<lparr>contests := g\<rparr>) = web_ok w"
  by (simp_all add: web_ok_def tab_count_def viol_count_def)

lemma web_ok_log_entry: "web_ok w \<Longrightarrow> known_row sid w \<Longrightarrow> web_ok (log_entry b sid meta w)"
  by (simp add: log_entry_def web_ok_log_event log_event_known)

lemma create_session_result:
  "snd (create_session c v body token now w) = w
   \<or> (\<exists>cid meta. get_finished_session cid (v_user v) w = None
        \<and> snd (create_session c v body token now w) =
          (case start_session cid (v_user v) token meta w of
             (sid, w1) \<Rightarrow> log_entry (get_active_session cid (v_user v) w \<noteq> None) sid meta w1))"
proof -
  define result where "result cid cfg meta = (case start_session cid (v_user v) token meta w of
      (sid, w1) \<Rightarrow> (SessionMade sid token cfg, log_entry (get_active_session cid (v_user v) w \<noteq> None) sid meta w1))"
    for cid cfg meta
  define P where "P p \<longleftrightarrow> snd p = w \<or> (\<exists>cid cfg meta. p = result cid cfg meta
      \<and> get_finished_session cid (v_user v) w = None)" for p :: "web_reply \<times> web"
  have same: "P (rep, w)" for rep by (simp add: P_def)
  have entered: "get_finished_session cid (v_user v) w = None \<Longrightarrow> P (result cid cfg meta)" for cid cfg meta
    unfolding P_def by blast
  have "P (create_session c v body token now w)"
    unfolding create_session_def Let_def result_def [symmetric]
    by (simp add: same entered del: js_simps_list split: option.split)
  then consider "snd (create_session c v body token now w) = w"
    | cid cfg meta where "create_session c v body token now w = result cid cfg meta"
        "get_finished_session cid (v_user v) w = None"
    unfolding P_def by blast
  then show ?thesis
  proof cases
    case (2 cid cfg meta)
    have "snd (result cid cfg meta) = (case start_session cid (v_user v) token meta w of
        (sid, w1) \<Rightarrow> log_entry (get_active_session cid (v_user v) w \<noteq> None) sid meta w1)"
      by (simp add: result_def split_beta)
    then show ?thesis using 2 by metis
  qed blast
qed

lemma web_ok_create: "web_ok w \<Longrightarrow> web_ok (snd (create_session c v body token now w))"
proof -
  assume ok: "web_ok w"
  consider "snd (create_session c v body token now w) = w"
    | cid meta where "get_finished_session cid (v_user v) w = None"
        "snd (create_session c v body token now w) =
          (case start_session cid (v_user v) token meta w of
             (sid, w1) \<Rightarrow> log_entry (get_active_session cid (v_user v) w \<noteq> None) sid meta w1)"
    using create_session_result [of c v body token now w] by blast
  then show ?thesis
  proof cases
    case 1
    then show ?thesis using ok by simp
  next
    case (2 cid meta)
    obtain sid w1 where s: "start_session cid (v_user v) token meta w = (sid, w1)" by fastforce
    then show ?thesis
      using web_ok_start [OF ok 2(1) s] 2(2) by (simp add: web_ok_log_entry)
  qed
qed

lemma count_events_frame:
  "rows (snd (count_events redis sid now n w)) = rows w \<and> evts (snd (count_events redis sid now n w)) = evts w
    \<and> next_row (snd (count_events redis sid now n w)) = next_row w
    \<and> next_event (snd (count_events redis sid now n w)) = next_event w"
  by (simp add: count_events_def Let_def)

lemma load_owned_known: "load_owned_session v sid w = Inr r \<Longrightarrow> get_row sid w = Some r"
  by (auto simp: load_owned_session_def split: option.splits if_splits)

lemma post_events_result:
  "snd (post_events v sid payload redis now w) = w
   \<or> (\<exists>events r. load_owned_session v sid w = Inr r \<and> snd (post_events v sid payload redis now w) =
        snd (log_all sid events [] (snd (count_events redis sid now (length events) w))))"
proof (cases "load_owned_session v sid w")
  case (Inr r)
  let ?p = "if py_truthy payload then payload else JObj []"
  show ?thesis
  proof (cases "\<exists>es. jget (js ''events'') ?p = JArr es \<and> r_status r = Active \<and> is_dict ?p \<and> es \<noteq> [] \<and> length es \<le> 100")
    case False
    then have "snd (post_events v sid payload redis now w) = w"
      unfolding post_events_def Inr Let_def by (auto simp del: js_simps_list split: jval.split)
    then show ?thesis by blast
  next
    case True
    then obtain es where "jget (js ''events'') ?p = JArr es" "r_status r = Active" "is_dict ?p" "es \<noteq> []" "length es \<le> 100"
      by blast
    then have "snd (post_events v sid payload redis now w) =
        snd (log_all sid es [] (snd (count_events redis sid now (length es) w)))"
      unfolding post_events_def Inr Let_def
      by (simp del: js_simps_list add: split_beta split: sum.split option.split)
    then show ?thesis using Inr by blast
  qed
qed (simp add: post_events_def)

lemma web_ok_post:
  assumes "web_ok w"
  shows "web_ok (snd (post_events v sid payload redis now w))"
proof -
  consider "snd (post_events v sid payload redis now w) = w"
    | events r where "load_owned_session v sid w = Inr r" "snd (post_events v sid payload redis now w) =
        snd (log_all sid events [] (snd (count_events redis sid now (length events) w)))"
    using post_events_result by blast
  then show ?thesis
  proof cases
    case 1
    then show ?thesis using assms by simp
  next
    case (2 events r)
    let ?w1 = "snd (count_events redis sid now (length events) w)"
    have "web_ok ?w1" by (rule web_ok_cong [OF assms]) (simp_all add: count_events_frame)
    moreover have "known_row sid ?w1"
      using load_owned_known [OF 2(1)] get_row_known [of sid w] by (simp add: known_row_def count_events_frame)
    ultimately show ?thesis using log_all_ok 2(2) by simp
  qed
qed

lemma web_ok_end:
  assumes "web_ok w"
  shows "web_ok (end_session r st now reached w)"
proof (cases "r_status r = Active")
  case True
  define w2 where "w2 = (publish (StatusMessage (r_id r) (r_user r) st)
      (update_row (r_id r) (\<lambda>r. r\<lparr>r_status := st, r_ended := Some now\<rparr>) w))
      \<lparr>calls := calls (publish (StatusMessage (r_id r) (r_user r) st)
      (update_row (r_id r) (\<lambda>r. r\<lparr>r_status := st, r_ended := Some now\<rparr>) w))
        @ [if st = Ended then CallFinalize (r_id r) else CallAbort (r_id r)]\<rparr>"
  have "mild (\<lambda>r. r\<lparr>r_status := st, r_ended := Some now\<rparr>)" by (simp add: mild_def keeps_owner_def)
  then have "web_ok w2" using assms by (simp add: w2_def web_ok_publish web_ok_mild)
  moreover have "mild (\<lambda>r. r\<lparr>r_screen := a, r_camera := b\<rparr>)" for a b by (simp add: mild_def keeps_owner_def)
  ultimately have "web_ok (update_row i (\<lambda>r. r\<lparr>r_screen := a, r_camera := b\<rparr>) w2)" for i a b
    by (rule web_ok_mild)
  then show ?thesis
    using True \<open>web_ok w2\<close> unfolding end_session_def Let_def w2_def [symmetric] by simp
qed (use assms in \<open>simp add: end_session_def\<close>)

lemma web_ok_reopen: "web_ok w \<Longrightarrow> web_ok (reopen_session r w)"
proof -
  have "mild (\<lambda>r. r\<lparr>r_status := Active, r_ended := None\<rparr>)" by (simp add: mild_def keeps_owner_def)
  then show "web_ok w \<Longrightarrow> web_ok (reopen_session r w)"
    by (simp add: reopen_session_def web_ok_publish web_ok_mild)
qed

lemma web_ok_snapshot: "web_ok w \<Longrightarrow> web_ok (snd (post_snapshot v sid kind body redis put_ok ms w))"
proof -
  assume ok: "web_ok w"
  have "web_ok (snd (count_snapshot redis sid k now w))" for k now
    using ok by (simp add: count_snapshot_def Let_def)
  then show ?thesis
    using ok by (simp add: post_snapshot_def Let_def split_beta split: sum.split)
qed

lemma web_ok_end_request: "web_ok w \<Longrightarrow> web_ok (snd (end_session_request v sid now reached w))"
proof (cases "load_owned_session v sid w")
  case (Inr r)
  assume ok: "web_ok w"
  have "known_row sid w" using load_owned_known [OF Inr] get_row_known [of sid w] by simp
  then show ?thesis
    using ok by (simp add: end_session_request_def Inr web_ok_end web_ok_log_event)
qed (simp add: end_session_request_def)

lemma web_ok_step: "web_ok w \<Longrightarrow> web_ok (web_step c op w)"
  unfolding web_step_def
  by (cases op)
    (simp_all add: web_ok_create web_ok_post web_ok_snapshot web_ok_end_request reopen_request_def web_ok_reopen
      admin_save_def split: option.split)

interpretation web: inv_machine "web_step c" web_ok
  by unfold_locales (rule web_ok_step)

section \<open>Batches of events\<close>

text \<open>
  The events of a batch that the server takes, and what it keeps of one: type, severity and detail.
\<close>

definition raw_type :: "jval \<Rightarrow> jstr option" where
  "raw_type raw = text_field (js ''event_type'') [] raw"

definition raw_severity :: "jval \<Rightarrow> jstr option" where
  "raw_severity raw = text_field (js ''severity'') (js ''info'') raw"

definition good_event :: "jval \<Rightarrow> bool" where
  "good_event raw \<longleftrightarrow> is_dict raw \<and> raw_type raw \<in> Some ` set EVENT_TYPES \<and> raw_severity raw \<in> Some ` set SEVERITIES"

definition kept :: "jval \<Rightarrow> jstr \<times> jstr \<times> jval" where
  "kept raw = (case raw_type raw of None \<Rightarrow> [] | Some t \<Rightarrow> t, case raw_severity raw of None \<Rightarrow> [] | Some s \<Rightarrow> s,
     (let d = jget (js ''detail'') raw in if is_dict d \<and> py_truthy d then d else JObj []))"

definition event_of :: "wevent \<Rightarrow> nat \<times> jstr \<times> jstr \<times> jval" where
  "event_of e = (w_session e, w_type e, w_severity e, w_detail e)"

definition owners :: "web \<Rightarrow> (nat \<times> int \<times> nat \<times> status) list" where
  "owners w = map (\<lambda>r. (r_id r, r_contest r, r_user r, r_status r)) (rows w)"

lemma owners_count [simp]: "owners (update_row sid (count_event t s) w) = owners w"
proof -
  have "(\<lambda>r. (r_id r, r_contest r, r_user r, r_status r)) (count_event t s r)
      = (\<lambda>r. (r_id r, r_contest r, r_user r, r_status r)) r" for r
    by (simp add: count_event_def)
  from map_update_same [of "\<lambda>r. (r_id r, r_contest r, r_user r, r_status r)" "count_event t s", OF this]
  show ?thesis by (simp add: owners_def update_row_def del: map_map)
qed

lemma owners_fields [simp]:
  "owners (w\<lparr>messages := ms\<rparr>) = owners w" "owners (w\<lparr>evts := es\<rparr>) = owners w"
  "owners (w\<lparr>next_event := n\<rparr>) = owners w" "owners (w\<lparr>evt_count := k\<rparr>) = owners w"
  by (simp_all add: owners_def)

lemma log_raw_good:
  assumes "good_event raw"
  shows "\<exists>w'. log_raw sid raw w = (Inr (next_event w), w')
    \<and> map event_of (evts w') = map event_of (evts w) @ [(sid, kept raw)]
    \<and> next_event w' = next_event w + 1 \<and> owners w' = owners w"
proof -
  obtain t s where t: "raw_type raw = Some t" "t \<in> set EVENT_TYPES" and s: "raw_severity raw = Some s" "s \<in> set SEVERITIES"
    using assms by (auto simp: good_event_def)
  define d where "d = (if is_dict (jget (js ''detail'') raw) then jget (js ''detail'') raw else JNull)"
  have l: "log_raw sid raw w = log_event sid (Some t) (Some s) d w"
    unfolding log_raw_def Let_def using t(1) s(1) by (simp only: raw_type_def raw_severity_def d_def)
  have k: "kept raw = (t, s, if py_truthy d then d else JObj [])"
    using t(1) s(1) by (simp add: kept_def d_def del: js_simps_list)
  show ?thesis
  proof (cases rule: log_event_cases [of sid "Some t" "Some s" d w])
    case refused
    then show ?thesis using t s by (simp add: log_event_def Let_def del: js_simps_list split: option.splits)
  next
    case (logged t' s' ms)
    then show ?thesis by (auto simp: l k add_event_def event_of_def)
  qed
qed

lemma log_all_good:
  "\<forall>raw \<in> set raws. good_event raw \<Longrightarrow>
    \<exists>ids w'. log_all sid raws out w = (Inr (out @ ids), w') \<and> length ids = length raws
      \<and> map event_of (evts w') = map event_of (evts w) @ map (\<lambda>raw. (sid, kept raw)) raws
      \<and> owners w' = owners w"
proof (induction raws arbitrary: out w)
  case (Cons raw raws)
  obtain w1 where w1: "log_raw sid raw w = (Inr (next_event w), w1)"
      "map event_of (evts w1) = map event_of (evts w) @ [(sid, kept raw)]" "owners w1 = owners w"
    using log_raw_good Cons.prems by (metis list.set_intros(1))
  have "is_dict raw" using Cons.prems by (simp add: good_event_def)
  moreover obtain ids w' where "log_all sid raws (out @ [next_event w]) w1 = (Inr ((out @ [next_event w]) @ ids), w')"
      "length ids = length raws"
      "map event_of (evts w') = map event_of (evts w1) @ map (\<lambda>raw. (sid, kept raw)) raws" "owners w' = owners w1"
    using Cons.IH [of "out @ [next_event w]" w1] Cons.prems by auto
  ultimately show ?case
    using w1 by (intro exI [of _ "next_event w # ids"] exI [of _ w']) simp
qed simp

text \<open>A batch of the owner that the server takes.\<close>

lemma get_row_owners:
  "owners w' = owners w \<Longrightarrow> map_option (\<lambda>r. (r_user r, r_status r)) (get_row sid w')
    = map_option (\<lambda>r. (r_user r, r_status r)) (get_row sid w)"
proof -
  have "map_option (\<lambda>r. (r_user r, r_status r)) (find (\<lambda>r. r_id r = sid) l) =
      map_option snd (map_option snd (find (\<lambda>x. fst x = sid) (map (\<lambda>r. (r_id r, r_contest r, r_user r, r_status r)) l)))" for l
    by (induction l) auto
  note eq = this
  assume "owners w' = owners w"
  then show ?thesis
    unfolding get_row_def eq owners_def by (rule arg_cong)
qed

lemma post_events_good:
  assumes "get_row sid w = Some r" "r_status r = Active" "r_user r = v_user v"
    "jget (js ''events'') payload = JArr es" "es \<noteq> []" "length es \<le> 100" "\<forall>raw \<in> set es. good_event raw"
  shows "\<exists>ids tabs viol w'. post_events v sid payload redis now w = (EventsLogged ids tabs viol, w')
    \<and> length ids = length es
    \<and> map event_of (evts w') = map event_of (evts w) @ map (\<lambda>raw. (sid, kept raw)) es \<and> owners w' = owners w"
proof -
  have dict: "is_dict payload" "py_truthy payload"
    using assms(4) by (cases payload; auto split: list.splits)+
  have load: "load_owned_session v sid w = Inr r"
    using assms(1,3) by (simp add: load_owned_session_def)
  define w1 where "w1 = snd (count_events redis sid now (length es) w)"
  have w1: "evts w1 = evts w" "owners w1 = owners w"
    by (simp_all add: w1_def count_events_frame owners_def)
  obtain ids w2 where l: "log_all sid es [] w1 = (Inr ids, w2)" "length ids = length es"
      "map event_of (evts w2) = map event_of (evts w1) @ map (\<lambda>raw. (sid, kept raw)) es" "owners w2 = owners w1"
    using log_all_good [OF assms(7), of sid "[]" w1] by auto
  obtain r2 where r2: "get_row sid w2 = Some r2"
    using get_row_owners [of w2 w sid] l(4) w1(2) assms(1) by (cases "get_row sid w2") auto
  have "post_events v sid payload redis now w = (EventsLogged ids (r_tabs r2) (r_viol r2), w2)"
    using assms(2,4,5,6) l(1) r2 dict
    by (simp add: post_events_def load Let_def split_beta w1_def [symmetric] del: js_simps_list)
  then show ?thesis using l w1 by auto
qed

lemma no_429_in_log: "fst (log_event sid t s d w) \<in> {Inl 400} \<union> range Inr"
  by (cases rule: log_event_cases [of sid t s d w]) auto

lemma log_all_no_429: "fst (log_all sid raws out w) \<in> {Inl 400} \<union> range Inr"
proof (induction sid raws out w rule: log_all.induct)
  case (2 sid raw raws out w)
  have "fst (log_raw sid raw w) \<in> {Inl 400} \<union> range Inr"
    unfolding log_raw_def Let_def by (rule no_429_in_log)
  then show ?case using "2.IH" by (cases "log_raw sid raw w"; cases "fst (log_raw sid raw w)") auto
qed simp

lemma post_events_no_429: "fst (post_events v sid payload redis now w) \<noteq> Abort 429"
proof (cases "load_owned_session v sid w")
  case (Inl code)
  then show ?thesis
    by (auto simp: post_events_def load_owned_session_def split: option.splits if_splits)
next
  case (Inr r)
  let ?p = "if py_truthy payload then payload else JObj []"
  show ?thesis
  proof (cases "\<exists>es. jget (js ''events'') ?p = JArr es \<and> r_status r = Active \<and> is_dict ?p \<and> es \<noteq> [] \<and> length es \<le> 100")
    case False
    then show ?thesis
      unfolding post_events_def Inr Let_def by (auto simp del: js_simps_list split: jval.split)
  next
    case True
    then obtain es where es: "jget (js ''events'') ?p = JArr es" "r_status r = Active" "is_dict ?p" "es \<noteq> []" "length es \<le> 100"
      by blast
    obtain res w2 where l: "log_all sid es [] (snd (count_events redis sid now (length es) w)) = (res, w2)" by fastforce
    have "res \<in> {Inl 400} \<union> range Inr"
      using log_all_no_429 [of sid es "[]" "snd (count_events redis sid now (length es) w)"] l by simp
    then show ?thesis
      unfolding post_events_def Inr Let_def
      using es l by (cases res) (auto simp: split_beta simp del: js_simps_list split: option.split)
  qed
qed

lemma gate_no_session: "envcheck_gate cfg meta \<noteq> Some (SessionMade sid tok cfg')"
  by (simp add: envcheck_gate_def Let_def)

lemma jget_or: "jget k (if py_truthy b then b else JObj []) = jget k b"
  by (cases b) auto

section \<open>Properties\<close>


text \<open>
  C22: The counters of the overview are right in every reachable state: the tab switches of a session
  are its recorded events of the three types that count, its violations are its recorded events of
  that severity; and nothing is recorded but events of the known types and severities.
\<close>

theorem overview_counts_events:
  assumes "w = fold (web_step c) ops (new_web cts)"
  shows "(\<forall>r \<in> set (rows w).
      r_tabs r = length (filter (\<lambda>e. w_session e = r_id r \<and> w_type e \<in> set TAB_SWITCHES) (evts w))
      \<and> r_viol r = length (filter (\<lambda>e. w_session e = r_id r \<and> w_severity e = js ''violation'') (evts w)))
    \<and> (\<forall>e \<in> set (evts w). w_type e \<in> set EVENT_TYPES \<and> w_severity e \<in> set SEVERITIES)"
proof -
  have "web_ok w"
    unfolding assms by (rule web.run_inv [OF web_ok_new])
  then show ?thesis unfolding web_ok_def tab_count_def viol_count_def by blast
qed

text \<open>
  The limits on the rate of events and snapshots never refuse anything: no state of the counters
  makes the server answer 429, and a batch of up to 100 known events of an active session's owner is
  recorded completely, in order, whatever was counted before.
\<close>

lemma rate_limits_never_refuse:
  "fst (post_events v sid payload redis now w) \<noteq> Abort 429
   \<and> fst (post_snapshot v sid kind body redis put_ok ms w) \<noteq> Abort 429
   \<and> (get_row sid w = Some r \<and> r_status r = Active \<and> r_user r = v_user v
      \<and> jget (js ''events'') payload = JArr es \<and> es \<noteq> [] \<and> length es \<le> 100 \<and> (\<forall>raw \<in> set es. good_event raw)
      \<longrightarrow> map event_of (evts (snd (post_events v sid payload redis now w)))
            = map event_of (evts w) @ map (\<lambda>raw. (sid, kept raw)) es)"
proof (intro conjI impI)
  show "fst (post_events v sid payload redis now w) \<noteq> Abort 429"
    by (rule post_events_no_429)
  show "fst (post_snapshot v sid kind body redis put_ok ms w) \<noteq> Abort 429"
    by (auto simp: post_snapshot_def load_owned_session_def Let_def split_beta simp del: js_simps_list
        split: option.split)
next
  assume "get_row sid w = Some r \<and> r_status r = Active \<and> r_user r = v_user v
      \<and> jget (js ''events'') payload = JArr es \<and> es \<noteq> [] \<and> length es \<le> 100 \<and> (\<forall>raw \<in> set es. good_event raw)"
  then obtain ids tabs viol w' where "post_events v sid payload redis now w = (EventsLogged ids tabs viol, w')"
      "map event_of (evts w') = map event_of (evts w) @ map (\<lambda>raw. (sid, kept raw)) es"
    using post_events_good by metis
  then show "map event_of (evts (snd (post_events v sid payload redis now w)))
      = map event_of (evts w) @ map (\<lambda>raw. (sid, kept raw)) es"
    by simp
qed

text \<open>
  C21: Whoever gets a session is a student of a proctored contest who has not finished it, and either
  returns to the active session, or enters within the contest's time with an environment check
  that blocks nothing, unless the contest does not ask for one.
\<close>

theorem entry_is_guarded:
  assumes "create_session c v body token now w = (SessionMade sid tok cfg, w')"
  shows "\<exists>cid ct meta. contests w cid = Some ct \<and> config_for ct = Some cfg \<and> \<not> v_admin v \<and> tok = token
    \<and> get_finished_session cid (v_user v) w = None
    \<and> (case get_active_session cid (v_user v) w of
         Some r \<Rightarrow> sid = r_id r
       | None \<Rightarrow> sid = next_row w \<and> ct_start ct \<le> now \<and> now \<le> ct_end ct
           \<and> meta = client_meta (jget (js ''client_meta'') body)
           \<and> (py_truthy (field (js ''require_envcheck'') cfg) \<longrightarrow>
                (\<exists>kvs. field (js ''envcheck'') meta = JObj kvs \<and> field (js ''blocked'') kvs \<noteq> JUndef
                   \<and> \<not> py_truthy (field (js ''blocked'') kvs))))"
proof -
  let ?data = "if py_truthy body then body else JObj []"
  note made = assms [unfolded create_session_def Let_def]
  have dict: "is_dict ?data"
    using made by (cases "is_dict ?data") simp_all
  obtain cid where cid: "py_int_of c (jget (js ''contest_id'') ?data) = Some cid"
    using made dict by (cases "py_int_of c (jget (js ''contest_id'') ?data)") simp_all
  note made = made [unfolded cid option.case, simplified dict, simplified]
  obtain ct where ct: "contests w cid = Some ct"
    using made by (cases "contests w cid") simp_all
  obtain cf where cf: "config_for ct = Some cf"
    using made ct by (cases "config_for ct") simp_all
  let ?active = "get_active_session cid (v_user v) w"
  define meta where "meta = client_meta (jget (js ''client_meta'') body)"
  note made = made [unfolded ct cf option.case jget_or, folded meta_def]
  have adm: "\<not> v_admin v" using made by (cases "v_admin v") simp_all
  have tim: "?active = None \<Longrightarrow> ct_start ct \<le> now \<and> now \<le> ct_end ct"
    using made adm by (cases "now < ct_start ct \<or> now > ct_end ct") auto
  have fin: "get_finished_session cid (v_user v) w = None"
    using made adm by (cases "get_finished_session cid (v_user v) w") (auto split: if_splits)
  have gate: "?active = None \<Longrightarrow> envcheck_gate cf meta = None"
    using made adm tim fin gate_no_session by (cases "envcheck_gate cf meta") (auto split: if_splits)
  have no_gate: "(if ?active = None then envcheck_gate cf meta else None) = None"
    using gate by simp
  have res: "cfg = cf \<and> tok = token \<and> sid = fst (start_session cid (v_user v) token meta w)"
    using made adm tim fin unfolding no_gate by (auto simp: split_beta split: if_splits)
  have sid: "case ?active of Some r \<Rightarrow> sid = r_id r | None \<Rightarrow> sid = next_row w"
    using res by (cases ?active) (simp_all add: start_session_def Let_def)
  have env: "\<exists>kvs. field (js ''envcheck'') meta = JObj kvs \<and> field (js ''blocked'') kvs \<noteq> JUndef
      \<and> \<not> py_truthy (field (js ''blocked'') kvs)"
    if "?active = None" "py_truthy (field (js ''require_envcheck'') cf)"
  proof -
    have "py_truthy (case field (js ''require_envcheck'') cf of JUndef \<Rightarrow> JBool True | v \<Rightarrow> v)"
      using that(2) by (cases "field (js ''require_envcheck'') cf") simp_all
    then show ?thesis
      using gate [OF that(1)]
      by (cases "field (js ''envcheck'') meta")
        (auto simp: envcheck_gate_def Let_def field_def simp del: js_simps_list jget.simps split: if_splits)
  qed
  show ?thesis
    using ct cf adm res fin sid tim env meta_def
    by (intro exI [of _ cid] exI [of _ ct] exI [of _ meta]) (auto simp del: js_simps_list split: option.split)
qed

section \<open>Witnesses\<close>

definition conf1 :: conf where
  "conf1 = \<lparr>c_auth = [], c_origin = [], c_wildcard = False, c_env = [], c_isdigit = (\<lambda>_. False),
     c_decimal = (\<lambda>_. None)\<rparr>"

definition contests1 :: "int \<Rightarrow> contest option" where
  "contests1 cid =
    (if cid = 1 then Some \<lparr>ct_config = JObj [(js ''require_screen'', JBool True)], ct_start = 0, ct_end = 100\<rparr>
     else None)"

definition enter1 :: jval where
  "enter1 = JObj [(js ''contest_id'', JNum 1),
     (js ''client_meta'', JObj [(js ''envcheck'', JObj [(js ''blocked'', JBool False)])])]"

definition student1 :: visitor where
  "student1 = \<lparr>v_user = 7, v_admin = False\<rparr>"

definition blur1 :: jval where
  "blur1 = JObj [(js ''event_type'', JStr (js ''window_blur''))]"

definition batch1 :: jval where
  "batch1 = JObj [(js ''events'', JArr [blur1])]"

definition run1 :: "web_op list" where
  "run1 = [CreateSession student1 enter1 [1] 5, PostEvents student1 1 batch1 True 6]"

definition web1 :: web where
  "web1 = (fold (web_step conf1) run1 (new_web contests1))\<lparr>evt_count := (\<lambda>_. 500)\<rparr>"

theorem overview_counts_events_witness:
  "let w = fold (web_step conf1) run1 (new_web contests1) in
     map r_tabs (rows w) = [length (filter (\<lambda>e. w_session e = 1 \<and> w_type e \<in> set TAB_SWITCHES) (evts w))]"
proof -
  let ?w = "fold (web_step conf1) run1 (new_web contests1)"
  have "map r_id (rows ?w) = [1]" by code_simp
  then obtain r where r: "rows ?w = [r]" "r_id r = 1" by auto
  then show ?thesis
    using overview_counts_events [OF refl, of conf1 run1 contests1] by (simp add: Let_def)
qed

lemma rate_limits_never_refuse_witness:
  "map event_of (evts (snd (post_events student1 1 batch1 True 7 web1)))
     = map event_of (evts web1) @ [(1, js ''window_blur'', js ''info'', JObj [])]"
proof -
  have "map_option (\<lambda>r. (r_user r, r_status r)) (get_row 1 web1) = Some (7, Active)" by code_simp
  then obtain r where r: "get_row 1 web1 = Some r" "r_user r = 7" "r_status r = Active" by auto
  have "jget (js ''events'') batch1 = JArr [blur1]" by code_simp
  moreover have "raw_type blur1 = Some (js ''window_blur'') \<and> raw_severity blur1 = Some (js ''info'') \<and> is_dict blur1
      \<and> js ''window_blur'' \<in> set EVENT_TYPES \<and> js ''info'' \<in> set SEVERITIES"
    by code_simp
  then have "good_event blur1" by (simp add: good_event_def del: js_simps_list)
  moreover have "kept blur1 = (js ''window_blur'', js ''info'', JObj [])" by code_simp
  moreover have "r_user r = v_user student1" using r(2) by (simp add: student1_def)
  ultimately show ?thesis
    using rate_limits_never_refuse [where r = r and es = "[blur1]" and payload = batch1 and sid = 1 and w = web1
        and v = student1 and redis = True and now = 7] r
    by (simp del: js_simps_list)
qed

theorem entry_is_guarded_witness:
  "\<exists>cid ct. contests1 cid = Some ct \<and> get_active_session cid 7 (new_web contests1) = None
     \<and> ct_start ct \<le> 5 \<and> 5 \<le> ct_end ct"
proof -
  let ?cfg = "map (\<lambda>(k, d). if k = js ''require_screen'' then (k, JBool True) else (k, d)) DEFAULTS"
  have "fst (create_session conf1 student1 enter1 [1] 5 (new_web contests1)) = SessionMade 1 [1] ?cfg"
    by code_simp
  then obtain w' where "create_session conf1 student1 enter1 [1] 5 (new_web contests1) = (SessionMade 1 [1] ?cfg, w')"
    by (metis prod.collapse)
  from entry_is_guarded [OF this]
  obtain cid ct where "contests (new_web contests1) cid = Some ct"
      "case get_active_session cid (v_user student1) (new_web contests1) of
         Some r \<Rightarrow> 1 = r_id r
       | None \<Rightarrow> ct_start ct \<le> 5 \<and> 5 \<le> ct_end ct"
    by (auto split: option.splits)
  then show ?thesis
    by (intro exI [of _ cid] exI [of _ ct]) (simp add: new_web_def get_active_session_def student1_def)
qed

end
