(* ===== verification/ProctorSystem.thy ===== *)
theory ProctorSystem
  imports ProctorMonitor ProctorServer Pages
begin

text \<open>
  The in-exam page and the web server together: what the monitor of \<open>proctor.js\<close> reports is
  posted in batches to \<open>proctor_post_events\<close>, requests and answers get lost, and the page is
  left. The scripts' requests carry the header that \<open>base.js\<close> adds; the beacon of a page that
  is left does not.
\<close>

section \<open>Requests\<close>

fun severity_text :: "severity \<Rightarrow> jstr" where
  "severity_text SevInfo = js ''info''"
| "severity_text SevWarning = js ''warning''"
| "severity_text SevViolation = js ''violation''"

text \<open>\<open>JSON.stringify({ events: batch })\<close>, and the object of one event.\<close>

definition event_json :: "pevent \<Rightarrow> jval" where
  "event_json e = JObj [(js ''event_type'', JStr (event_type e)),
     (js ''severity'', JStr (severity_text (ev_severity e))), (js ''detail'', ev_detail e),
     (js ''client_ts'', JNum (client_ts e))]"

definition batch_json :: "pevent list \<Rightarrow> jval" where
  "batch_json b = JObj [(js ''events'', JArr (map event_json b))]"

text \<open>
  A POST of events as the server sees it: first the check of cross-site requests, then the handler.
  A JSON body has no form fields.
\<close>

definition web_post :: "jstr option \<Rightarrow> jstr option \<Rightarrow> visitor \<Rightarrow> nat \<Rightarrow> pevent list \<Rightarrow> bool \<Rightarrow> int \<Rightarrow> web
    \<Rightarrow> web_reply \<times> web" where
  "web_post marker cookie v sid b redis now w =
    (if check_csrf False True marker None cookie then post_events v sid (batch_json b) redis now w
     else (Abort 400, w))"

section \<open>The exam as a system\<close>

text \<open>
  The page acts; the request in flight is served and answered, served but its answer lost, or lost
  itself; the page is left with a beacon. Status and body of an answer arrive together.
\<close>

datatype exam_op =
    PageAct mon_op
  | Answered bool int
  | AnswerLost bool int
  | RequestLost
  | Unload bool int

record exam_env =
  x_cfg :: proctor_cfg
  x_lower :: "jstr \<Rightarrow> jstr"
  x_url :: "jstr option"
  x_cookie :: "jstr option"
  x_visitor :: visitor
  x_session :: nat

abbreviation page_step :: "exam_env \<Rightarrow> mon_op \<Rightarrow> monitor \<Rightarrow> monitor" where
  "page_step X \<equiv> mon_step (x_cfg X) (x_lower X) (x_url X)"

definition server_post :: "exam_env \<Rightarrow> pevent list \<Rightarrow> bool \<Rightarrow> int \<Rightarrow> web \<Rightarrow> web_reply \<times> web" where
  "server_post X b redis now w = web_post (Some (js ''no'')) (x_cookie X) (x_visitor X) (x_session X) b redis now w"

definition answer_page :: "exam_env \<Rightarrow> web_reply \<Rightarrow> int \<Rightarrow> monitor \<Rightarrow> monitor" where
  "answer_page X reply now p =
    (case reply of
       EventsLogged ids tabs viol \<Rightarrow>
         page_step X (Buffer (JsonOk (JNum (int tabs)) (JNum (int viol)) now)) (page_step X (Buffer RespOk) p)
     | _ \<Rightarrow> page_step X (Buffer RespBad) p)"

fun exam_step :: "exam_env \<Rightarrow> exam_op \<Rightarrow> monitor \<times> web \<Rightarrow> monitor \<times> web" where
  "exam_step X (PageAct op) (p, w) = (page_step X op p, w)"
| "exam_step X (Answered redis now) (p, w) =
    (case flush_k p of
       AwaitFetch b \<Rightarrow>
         (case server_post X b redis now w of (reply, w') \<Rightarrow> (answer_page X reply now p, w'))
     | _ \<Rightarrow> (p, w))"
| "exam_step X (AnswerLost redis now) (p, w) =
    (case flush_k p of
       AwaitFetch b \<Rightarrow> (page_step X (Buffer NetFail) p, snd (server_post X b redis now w))
     | _ \<Rightarrow> (p, w))"
| "exam_step X RequestLost (p, w) = (page_step X (Buffer NetFail) p, w)"
| "exam_step X (Unload redis now) (p, w) =
    (page_step X (Buffer (PageHide True now)) p,
     snd (web_post None (x_cookie X) (x_visitor X) (x_session X)
       (eventQueue p @ [mk_event (js ''pagehide'') (Some SevInfo) None now]) redis now w))"

text \<open>
  What the page does by itself: everything but receiving answers and leaving. Other scripts report
  through \<open>QueueEv\<close>, with a type the server knows.
\<close>

fun page_act :: "mon_op \<Rightarrow> bool" where
  "page_act (Buffer (QueueEv t sev d now)) = (t \<in> set EVENT_TYPES)"
| "page_act (Buffer TimerFires) = True"
| "page_act (Buffer (Heartbeat now)) = True"
| "page_act (Buffer _) = False"
| "page_act _ = True"

fun stays :: "exam_op \<Rightarrow> bool" where
  "stays (PageAct op) = page_act op"
| "stays (Unload redis now) = False"
| "stays _ = True"

fun exam_made :: "exam_env \<Rightarrow> exam_op \<Rightarrow> monitor \<times> web \<Rightarrow> pevent list" where
  "exam_made X (PageAct op) (p, w) = mon_made (x_lower X) op p"
| "exam_made X _ _ = []"

text \<open>What the server keeps of an event, and how it lists a session's events.\<close>

definition page_key :: "pevent \<Rightarrow> jstr \<times> jstr \<times> jval" where
  "page_key e = (event_type e, severity_text (ev_severity e),
     if is_dict (ev_detail e) \<and> py_truthy (ev_detail e) then ev_detail e else JObj [])"

section \<open>Lemmas\<close>

lemma severity_known: "severity_text s \<in> set SEVERITIES"
  by (cases s) (simp_all add: SEVERITIES_def)

lemma event_json_raw:
  "raw_type (event_json e) = Some (event_type e)" "raw_severity (event_json e) = Some (severity_text (ev_severity e))"
  "jget (js ''detail'') (event_json e) = ev_detail e" "is_dict (event_json e)"
  by (simp_all add: raw_type_def raw_severity_def event_json_def text_field_def text_of_def)

lemma good_event_json: "good_event (event_json e) \<longleftrightarrow> event_type e \<in> set EVENT_TYPES"
  using severity_known by (auto simp: good_event_def event_json_raw)

lemma kept_event_json: "kept (event_json e) = page_key e"
  by (simp add: kept_def page_key_def event_json_raw Let_def del: js_simps_list)

lemma scripts_pass: "check_csrf False True (Some (js ''no'')) token cookie"
  by (simp add: check_csrf_def)

lemma beacons_fail: "\<not> check_csrf False True None None cookie"
  by (auto simp: check_csrf_def)

definition joined :: "exam_env \<Rightarrow> web \<Rightarrow> bool" where
  "joined X w \<longleftrightarrow> (\<exists>r. get_row (x_session X) w = Some r \<and> r_status r = Active \<and> r_user r = v_user (x_visitor X))"

lemma joined_owners: "owners w' = owners w \<Longrightarrow> joined X w' = joined X w"
proof -
  have "joined X w \<longleftrightarrow> map_option (\<lambda>r. (r_user r, r_status r)) (get_row (x_session X) w)
      = Some (v_user (x_visitor X), Active)" for w
    by (auto simp: joined_def)
  then show "owners w' = owners w \<Longrightarrow> ?thesis"
    using get_row_owners by metis
qed

lemma post_good:
  assumes "joined X w" "b \<noteq> []" "length b \<le> 100" "\<forall>e \<in> set b. event_type e \<in> set EVENT_TYPES"
  shows "\<exists>ids tabs viol w'. server_post X b redis now w = (EventsLogged ids tabs viol, w')
    \<and> map event_of (evts w') = map event_of (evts w) @ map (\<lambda>e. (x_session X, page_key e)) b \<and> owners w' = owners w"
proof -
  obtain r where r: "get_row (x_session X) w = Some r" "r_status r = Active" "r_user r = v_user (x_visitor X)"
    using assms(1) by (auto simp: joined_def)
  have es: "jget (js ''events'') (batch_json b) = JArr (map event_json b)" by (simp add: batch_json_def)
  have "\<forall>raw \<in> set (map event_json b). good_event raw" using assms(4) by (simp add: good_event_json)
  from post_events_good [OF r es _ _ this, of redis now] assms(2,3)
  show ?thesis
    by (auto simp: server_post_def web_post_def scripts_pass kept_event_json o_def simp del: js_simps_list)
qed

lemma post_refused:
  assumes "joined X w" "b = [] \<or> length b > 100"
  shows "server_post X b redis now w = (Abort 400, w)"
proof -
  obtain r where r: "get_row (x_session X) w = Some r" "r_status r = Active" "r_user r = v_user (x_visitor X)"
    using assms(1) by (auto simp: joined_def)
  have es: "jget (js ''events'') (batch_json b) = JArr (map event_json b)" "is_dict (batch_json b)" "py_truthy (batch_json b)"
    by (simp_all add: batch_json_def)
  have "load_owned_session (x_visitor X) (x_session X) w = Inr r"
    using r by (simp add: load_owned_session_def)
  then show ?thesis
    using r es assms(2)
    by (auto simp: server_post_def web_post_def scripts_pass post_events_def Let_def simp del: js_simps_list)
qed

lemma page_act_no_beacon: "page_act op \<Longrightarrow> no_beacon op p"
  by (cases op rule: page_act.cases) auto

lemma page_act_acked: "page_act op \<Longrightarrow> mon_acked op p = []"
  by (cases op rule: page_act.cases) auto

lemma plain_types:
  "event_type (plain_event t s n) = js t" "event_type (mk_event u s' d n) = u"
  by (simp_all add: plain_event_def mk_event_def)

lemma made_known: "page_act op \<Longrightarrow> e \<in> set (mon_made lower op p) \<Longrightarrow> event_type e \<in> set EVENT_TYPES"
  by (cases op rule: page_act.cases)
    (auto simp: plain_types EVENT_TYPES_def split: if_splits)

section \<open>Delivery\<close>

text \<open>
  The state after some steps from \<open>w0\<close>: the server has kept \<open>done_events\<close> of the
  session's events since, everything buffered is of known types, and what was made is covered, in
  order, by what is kept and what is buffered (exactly, as long as no answer was lost).
\<close>

definition delivered :: "exam_env \<Rightarrow> web \<Rightarrow> bool \<Rightarrow> pevent list \<Rightarrow> pevent list \<Rightarrow> monitor \<times> web \<Rightarrow> bool" where
  "delivered X w0 exact made got s \<longleftrightarrow> ev_inv (fst s) \<and> joined X (snd s)
     \<and> (\<forall>e \<in> set (ev_contents (fst s)). event_type e \<in> set EVENT_TYPES)
     \<and> map event_of (evts (snd s)) = map event_of (evts w0) @ map (\<lambda>e. (x_session X, page_key e)) got
     \<and> subseq made (got @ ev_contents (fst s))
     \<and> (exact \<longrightarrow> made = got @ ev_contents (fst s))"

lemma page_buffer_frame:
  assumes "ev_inv p"
  shows "ev_contents (page_step X (Buffer NetFail) p) = ev_contents p"
    "ev_contents (page_step X (Buffer RespBad) p) = ev_contents p"
    "ev_contents (page_step X (Buffer RespOk) p) = ev_contents p"
  using mon_step_contents [OF assms, of "Buffer NetFail" "x_cfg X" "x_lower X" "x_url X"]
    mon_step_contents [OF assms, of "Buffer RespBad" "x_cfg X" "x_lower X" "x_url X"]
    mon_step_contents [OF assms, of "Buffer RespOk" "x_cfg X" "x_lower X" "x_url X"]
  by simp_all

lemma answer_page_accepted:
  assumes "ev_inv p" "flush_k p = AwaitFetch b"
  shows "ev_inv (answer_page X (EventsLogged ids tabs viol) now p)
    \<and> b @ ev_contents (answer_page X (EventsLogged ids tabs viol) now p) = ev_contents p"
proof -
  let ?p1 = "page_step X (Buffer RespOk) p"
  have inv: "ev_inv ?p1" by (rule mon_step_inv [OF assms(1)])
  have k: "flush_k ?p1 = AwaitJson b" using assms(2) by simp
  have "mon_acked (Buffer (JsonOk (JNum (int tabs)) (JNum (int viol)) now)) ?p1
      @ ev_contents (page_step X (Buffer (JsonOk (JNum (int tabs)) (JNum (int viol)) now)) ?p1)
      = ev_contents ?p1"
    using mon_step_contents [OF inv, of "Buffer (JsonOk (JNum (int tabs)) (JNum (int viol)) now)"
        "x_cfg X" "x_lower X" "x_url X"] by simp
  then show ?thesis
    using mon_step_inv [OF inv] page_buffer_frame(3) [OF assms(1)] k
    by (simp add: answer_page_def del: mon_step.simps)
qed

lemma answer_page_refused:
  assumes "ev_inv p"
  shows "ev_inv (answer_page X (Abort code) now p) \<and> ev_contents (answer_page X (Abort code) now p) = ev_contents p"
  using mon_step_inv [OF assms] page_buffer_frame(2) [OF assms] by (simp add: answer_page_def del: mon_step.simps)

lemma in_flight_contents: "flush_k p = AwaitFetch b \<Longrightarrow> ev_contents p = b @ eventQueue p"
  by (simp add: ev_contents_def)

lemma exam_step_delivered:
  assumes d: "delivered X w0 exact made got (p, w)" and op: "stays op"
    and ex: "exact' \<longrightarrow> exact \<and> (\<forall>redis now. op \<noteq> AnswerLost redis now)"
  shows "\<exists>got'. delivered X w0 exact' (made @ exam_made X op (p, w)) got' (exam_step X op (p, w))"
proof -
  have inv: "ev_inv p" and j: "joined X w" and types: "\<forall>e \<in> set (ev_contents p). event_type e \<in> set EVENT_TYPES"
    and ev: "map event_of (evts w) = map event_of (evts w0) @ map (\<lambda>e. (x_session X, page_key e)) got"
    and sub: "subseq made (got @ ev_contents p)" and eq: "exact \<longrightarrow> made = got @ ev_contents p"
    using d by (auto simp: delivered_def)
  have same: "delivered X w0 exact' made got (p', w)" if "ev_inv p'" "ev_contents p' = ev_contents p" for p'
    using that j types ev sub eq ex by (auto simp: delivered_def)
  show ?thesis
  proof (cases op)
    case (PageAct a)
    then have a: "page_act a" using op by simp
    have c: "ev_contents (page_step X a p) = ev_contents p @ mon_made (x_lower X) a p"
      using mon_step_contents [OF inv page_act_no_beacon [OF a], of "x_cfg X" "x_lower X" "x_url X"]
      unfolding page_act_acked [OF a] by simp
    have "subseq (made @ mon_made (x_lower X) a p) ((got @ ev_contents p) @ mon_made (x_lower X) a p)"
      using sub by (intro list_emb_append_mono) auto
    then have "delivered X w0 exact' (made @ mon_made (x_lower X) a p) got (page_step X a p, w)"
      using c mon_step_inv [OF inv] types made_known [OF a] j ev eq ex
      by (auto simp: delivered_def simp del: mon_step.simps mon_made.simps)
    then show ?thesis using PageAct by (auto simp del: mon_step.simps mon_made.simps)
  next
    case (Answered redis now)
    show ?thesis
    proof (cases "flush_k p")
      case (AwaitFetch b)
      have cp: "ev_contents p = b @ eventQueue p" by (rule in_flight_contents [OF AwaitFetch])
      show ?thesis
      proof (cases "b = [] \<or> length b > 100")
        case True
        then have "server_post X b redis now w = (Abort 400, w)" by (rule post_refused [OF j])
        then show ?thesis
          using same answer_page_refused [OF inv, of X 400 now] Answered AwaitFetch by auto
      next
        case False
        moreover have "\<forall>e \<in> set b. event_type e \<in> set EVENT_TYPES" using types cp by simp
        ultimately obtain ids tabs viol w' where r: "server_post X b redis now w = (EventsLogged ids tabs viol, w')"
            "map event_of (evts w') = map event_of (evts w) @ map (\<lambda>e. (x_session X, page_key e)) b"
            "owners w' = owners w"
          using post_good [OF j, of b redis now] by (auto simp: not_less)
        let ?p' = "answer_page X (EventsLogged ids tabs viol) now p"
        have p': "ev_inv ?p'" "b @ ev_contents ?p' = ev_contents p"
          using answer_page_accepted [OF inv AwaitFetch] by auto
        have "delivered X w0 exact' made (got @ b) (?p', w')"
          using p' r(2) ev sub eq ex types joined_owners [OF r(3)] j
          by (auto simp: delivered_def simp flip: p'(2))
        then show ?thesis using Answered AwaitFetch r(1) by auto
      qed
    qed (use Answered same [OF inv] in auto)
  next
    case (AnswerLost redis now)
    show ?thesis
    proof (cases "flush_k p")
      case (AwaitFetch b)
      have cp: "ev_contents p = b @ eventQueue p" by (rule in_flight_contents [OF AwaitFetch])
      let ?p' = "page_step X (Buffer NetFail) p"
      have p': "ev_inv ?p'" "ev_contents ?p' = ev_contents p"
        by (rule mon_step_inv [OF inv], rule page_buffer_frame(1) [OF inv])
      show ?thesis
      proof (cases "b = [] \<or> length b > 100")
        case True
        then have "server_post X b redis now w = (Abort 400, w)" by (rule post_refused [OF j])
        then show ?thesis using same [OF p'] AnswerLost AwaitFetch by (auto simp del: mon_step.simps)
      next
        case False
        moreover have "\<forall>e \<in> set b. event_type e \<in> set EVENT_TYPES" using types cp by simp
        ultimately obtain ids tabs viol w' where r: "server_post X b redis now w = (EventsLogged ids tabs viol, w')"
            "map event_of (evts w') = map event_of (evts w) @ map (\<lambda>e. (x_session X, page_key e)) b"
            "owners w' = owners w"
          using post_good [OF j, of b redis now] by (auto simp: not_less)
        have "subseq (got @ ev_contents p) (got @ (b @ ev_contents p))"
          by (intro list_emb_append_mono) (auto intro: list_emb_append2)
        then have "subseq made ((got @ b) @ ev_contents p)"
          using sub subseq_order.order_trans by fastforce
        then have "delivered X w0 exact' made (got @ b) (?p', w')"
          using p' r(2) ev ex types joined_owners [OF r(3)] j AnswerLost
          by (auto simp: delivered_def simp del: mon_step.simps)
        then show ?thesis using AnswerLost AwaitFetch r(1) by (auto simp del: mon_step.simps)
      qed
    qed (use AnswerLost same [OF inv] in auto)
  next
    case RequestLost
    then show ?thesis
      using same [OF mon_step_inv [OF inv] page_buffer_frame(1) [OF inv]] by (auto simp del: mon_step.simps)
  next
    case (Unload redis now)
    then show ?thesis using op by simp
  qed
qed

fun loses_answer :: "exam_op \<Rightarrow> bool" where
  "loses_answer (AnswerLost redis now) = True"
| "loses_answer _ = False"

lemma exam_run_delivered:
  "\<lbrakk>delivered X w0 exact made got s; \<forall>op \<in> set ops. stays op\<rbrakk> \<Longrightarrow>
    \<exists>got'. delivered X w0 (exact \<and> (\<forall>op \<in> set ops. \<not> loses_answer op))
      (made @ released (exam_step X) (exam_made X) ops s) got' (fold (exam_step X) ops s)"
proof (induction ops arbitrary: s made got exact)
  case (Cons op ops)
  obtain p w where s: "s = (p, w)" by fastforce
  have "\<exists>got'. delivered X w0 (exact \<and> \<not> loses_answer op) (made @ exam_made X op (p, w)) got' (exam_step X op (p, w))"
    by (rule exam_step_delivered) (use Cons.prems s in auto)
  then obtain got' where
    "delivered X w0 (exact \<and> \<not> loses_answer op) (made @ exam_made X op (p, w)) got' (exam_step X op (p, w))"
    by blast
  from Cons.IH [OF this] Cons.prems(2) show ?case
    by (auto simp: s conj_assoc)
qed auto

section \<open>Batches that are too large\<close>

text \<open>
  The page holds a batch that the server refuses for its size: in flight, or about to be posted.
\<close>

definition stuck :: "monitor \<Rightarrow> bool" where
  "stuck p \<longleftrightarrow> (case flush_k p of
      FlushIdle \<Rightarrow> length (eventQueue p) > 100
    | AwaitFetch b \<Rightarrow> length b > 100
    | AwaitJson b \<Rightarrow> False)"

lemma put_event_stuck:
  assumes "ev_inv p" "stuck p"
  shows "stuck (put_event url e p) \<and> stuck (flushEvents url p)"
proof (cases "flush_k p")
  case FlushIdle
  then show ?thesis
    using assms by (auto simp: stuck_def put_event_def flushEvents_def scheduleFlush_def ev_inv_def Let_def)
next
  case (AwaitFetch b)
  then show ?thesis
    using assms by (auto simp: stuck_def put_event_def flushEvents_def scheduleFlush_def ev_inv_def Let_def)
qed (use assms in \<open>simp add: stuck_def\<close>)

lemma stuck_fields [simp]:
  "stuck (p\<lparr>overlay := x\<rparr>) = stuck p" "stuck (p\<lparr>lastHadFocus := b\<rparr>) = stuck p"
  "stuck (p\<lparr>lastHeartbeatMs := t\<rparr>) = stuck p"
  by (simp_all add: stuck_def split: flush_state.split)

lemma ev_inv_heartbeat [simp]: "ev_inv (p\<lparr>lastHeartbeatMs := t\<rparr>) = ev_inv p"
  by (simp add: ev_inv_def)

lemma queueEvent_stuck: "ev_inv p \<Longrightarrow> stuck p \<Longrightarrow> stuck (queueEvent url now t s d p)"
  using put_event_stuck by (simp add: queueEvent_def)

lemma queueEvent_inv: "ev_inv p \<Longrightarrow> ev_inv (queueEvent url now t s d p)"
  by (simp add: queueEvent_def put_event_inv)

lemma sendHeartbeat_stuck: "ev_inv p \<Longrightarrow> stuck p \<Longrightarrow> stuck (sendHeartbeat url now p)"
  unfolding sendHeartbeat_def
  by (intro put_event_stuck [THEN conjunct2] queueEvent_inv queueEvent_stuck) simp_all

lemma page_act_stuck:
  assumes "ev_inv p" "stuck p" "page_act op"
  shows "stuck (page_step X op p)"
  using assms put_event_stuck
  by (cases op rule: page_act.cases)
    (auto simp: handler_defs report_def queueEvent_stuck sendHeartbeat_stuck sendHeartbeat_inv)

lemma refused_stuck:
  assumes "flush_k p = AwaitFetch b" "length b > 100"
  shows "stuck (flush_requeue b p)"
  using assms by (auto simp: stuck_def flush_requeue_def flush_finally_def scheduleFlush_def Let_def)

lemma exam_step_stuck:
  assumes inv: "ev_inv p" and st: "stuck p" and j: "joined X w" and op: "stays op"
  shows "ev_inv (fst (exam_step X op (p, w))) \<and> stuck (fst (exam_step X op (p, w)))
    \<and> snd (exam_step X op (p, w)) = w"
proof (cases "\<exists>a. op = PageAct a")
  case True
  then show ?thesis
    using page_act_stuck [OF inv st] mon_step_inv [OF inv] op by (auto simp del: mon_step.simps)
next
  case False
  show ?thesis
  proof (cases "flush_k p")
    case FlushIdle
    then show ?thesis using False op inv st by (cases op) auto
  next
    case (AwaitFetch b)
    have long: "length b > 100" using st AwaitFetch by (simp add: stuck_def)
    then have "server_post X b redis now w = (Abort 400, w)" for redis now
      by (intro post_refused [OF j]) simp
    then show ?thesis
      using False op AwaitFetch refused_stuck [OF AwaitFetch long] flush_requeue_inv
      by (cases op) (auto simp: answer_page_def)
  next
    case (AwaitJson b)
    then show ?thesis using st by (simp add: stuck_def)
  qed
qed

lemma exam_run_stuck:
  "\<lbrakk>ev_inv (fst s); stuck (fst s); joined X (snd s); \<forall>op \<in> set ops. stays op\<rbrakk> \<Longrightarrow>
    snd (fold (exam_step X) ops s) = snd s \<and> ev_contents (fst (fold (exam_step X) ops s)) \<noteq> []"
proof (induction ops arbitrary: s)
  case Nil
  then show ?case
    by (auto simp: stuck_def ev_contents_def split: flush_state.splits)
next
  case (Cons op ops)
  obtain p w where s: "s = (p, w)" by fastforce
  have "ev_inv (fst (exam_step X op s)) \<and> stuck (fst (exam_step X op s)) \<and> snd (exam_step X op s) = w"
    using exam_step_stuck [of p X w op] Cons.prems s by simp
  then show ?case using Cons.IH [of "exam_step X op s"] Cons.prems s by simp
qed

section \<open>Properties\<close>



text \<open>
  What is buffered when the page is left is lost: the beacon carries no header and no form field,
  so the check of cross-site requests refuses it whatever cookie it brings, and the page has already
  emptied its queue.
\<close>

lemma unload_loses_events:
  "let (p', w') = exam_step X (Unload redis now) (p, w) in w' = w \<and> eventQueue p' = []
     \<and> beacons p' = beacons p @ [(url_text (x_url X) @ js ''?via=beacon'',
         eventQueue p @ [mk_event (js ''pagehide'') (Some SevInfo) None now])]"
  using queued_info_keeps [of "x_url X" "js ''pagehide''" None now p]
  by (simp add: web_post_def beacons_fail page_hide_def queueEvent_def Let_def put_event_def mk_event_def
      scheduleFlush_def)

section \<open>Witnesses\<close>

definition exam1 :: exam_env where
  "exam1 = \<lparr>x_cfg = demo_cfg, x_lower = map ascii_lower, x_url = None, x_cookie = Some [1],
     x_visitor = student1, x_session = 1\<rparr>"

definition entered1 :: web where
  "entered1 = fold (web_step conf1) [CreateSession student1 enter1 [1] 5] (new_web contests1)"

lemma joined1: "joined exam1 entered1"
proof -
  have "map_option (\<lambda>r. (r_user r, r_status r)) (get_row (x_session exam1) entered1)
      = Some (v_user (x_visitor exam1), Active)"
    by code_simp
  then show ?thesis by (auto simp: joined_def)
qed

lemma made_of_page:
  "exam_made X (PageAct a) s = mon_made (x_lower X) a (fst s)" "exam_made X (Answered redis now) s = []"
  "exam_made X RequestLost s = []"
  by (cases s; simp)+

definition exam_ops1 :: "exam_op list" where
  "exam_ops1 = [PageAct (Blur 6), RequestLost, PageAct (Buffer TimerFires), Answered True 8, PageAct (Focus 9)]"


definition acts1 :: "mon_op list" where
  "acts1 = replicate 101 (Buffer (QueueEv (js ''heartbeat'') None None 0))"


end
