(* ===== verification/RecordingSystem.thy ===== *)
theory RecordingSystem
  imports ProctorUploader ChunkRecordings
begin

text \<open>
  The uploader of \<open>proctor.js\<close> and the chunk server together: chunks are recorded, posted,
  stored and acknowledged, while requests and answers get lost. The property is what the file of the
  session's segment contains.
\<close>

section \<open>The system\<close>

record rec_env =
  e_conf :: conf
  e_up :: up_env
  e_bytes :: "chunk \<Rightarrow> bytes"

text \<open>
  One attempt as the server sees it: the request that the uploader made, and its body. The request
  is accepted when the last answer sent is a success.
\<close>

definition post_item :: "rec_env \<Rightarrow> uploader \<Rightarrow> item \<Rightarrow> int \<Rightarrow> server \<Rightarrow> server" where
  "post_item X u it now st =
    (let rq = attempt_request (e_up X) u it; body = e_bytes X (item_blob it) in
     fold (chunk_step (e_conf X))
       [Head 0 now (rq_auth rq) (num_str (up_sid (e_up X))) (up_kind u) (nat_str (rq_seq rq)) (Some (length body)),
        Body 0 body] st)"

definition took :: "server \<Rightarrow> bool" where
  "took st = (case snd (last (sent st)) of Stored n q g \<Rightarrow> True | EmptyChunk \<Rightarrow> True | _ \<Rightarrow> False)"

text \<open>
  A chunk is recorded; the attempt in flight is served and answered, served with the answer lost, or
  lost; the backoff ends. \<open>err\<close> is the error of a failed attempt.
\<close>

datatype rec_op =
    Recorded "chunk option"
  | Served int jstr
  | AckLost int jstr
  | PostLost jstr
  | Waited

fun rec_step :: "rec_env \<Rightarrow> rec_op \<Rightarrow> uploader \<times> server \<Rightarrow> uploader \<times> server" where
  "rec_step X (Recorded b) (u, st) = (up_step (e_up X, up_op.Chunk b) u, st)"
| "rec_step X (Served now err) (u, st) =
    (case drain_k u of
       AwaitAttempt it \<Rightarrow>
         (let st' = post_item X u it now st in
          (up_step (e_up X, if took st' then AttemptOk else AttemptFail err) u, st'))
     | _ \<Rightarrow> (u, st))"
| "rec_step X (AckLost now err) (u, st) =
    (case drain_k u of
       AwaitAttempt it \<Rightarrow> (up_step (e_up X, AttemptFail err) u, post_item X u it now st)
     | _ \<Rightarrow> (u, st))"
| "rec_step X (PostLost err) (u, st) = (up_step (e_up X, AttemptFail err) u, st)"
| "rec_step X Waited (u, st) = (up_step (e_up X, BackoffDone) u, st)"

fun loses_ack :: "rec_op \<Rightarrow> bool" where
  "loses_ack (AckLost now err) = True"
| "loses_ack _ = False"

section \<open>The uploader's sequence numbers\<close>

text \<open>The numbers that are still to come: in flight, pending, or not given yet.\<close>

definition to_come :: "uploader \<Rightarrow> nat set" where
  "to_come u = insert (seq u) (mySeq ` set (pending u)
     \<union> (case drain_k u of AwaitAttempt it \<Rightarrow> {mySeq it} | _ \<Rightarrow> {}))"

definition later :: "uploader \<Rightarrow> uploader \<Rightarrow> bool" where
  "later u u' \<longleftrightarrow> (\<forall>m' \<in> to_come u'. \<exists>m \<in> to_come u. m \<le> m')"

lemma laterI: "to_come u' \<subseteq> to_come u \<Longrightarrow> later u u'"
  unfolding later_def by blast

lemma to_come_drain_loop: "to_come (drain_loop E u) = insert (seq u) (mySeq ` set (pending u))"
  by (auto simp: to_come_def drain_loop_def split: list.split)

lemma set_item_image: "mySeq ` set (set_item it xs) = mySeq ` set xs"
  using set_item_seqs [of it xs] by (metis list.set_map)

lemma attempt_ok_later: "later u (attempt_ok E u)"
proof (rule laterI)
  show "to_come (attempt_ok E u) \<subseteq> to_come u"
    by (cases "pending u") (auto simp: attempt_ok_def to_come_drain_loop shift_def to_come_def [of u])
qed

lemma attempt_failed_later: "later u (attempt_failed E it err u)"
proof (rule laterI)
  have tl: "mySeq ` set (tl (set_item i xs)) \<subseteq> mySeq ` set xs" for i xs
  proof -
    have "mySeq ` set (tl ys) \<subseteq> mySeq ` set ys" for ys by (auto dest: in_set_tlD)
    then show ?thesis using set_item_image by metis
  qed
  show "to_come (attempt_failed E it err u) \<subseteq> to_come u"
    using tl set_item_image
    by (fastforce simp: attempt_failed_def Let_def to_come_drain_loop shift_def to_come_def [of u]
        to_come_def [of "u\<lparr>pending := q, drain_k := k\<rparr>" for q k] split: if_splits)
qed

lemma upload_later: "later u (upload E b u)"
proof -
  have "\<exists>m \<in> to_come u. m \<le> m'" if m': "m' \<in> to_come (upload E b u)" for m'
  proof -
    have room: "seq (make_room u) = seq u" "set (pending (make_room u)) \<subseteq> set (pending u)" "drain_k (make_room u) = drain_k u"
      by (auto simp: make_room_def shift_def dest: in_set_tlD)
    have "m' \<in> to_come u \<or> m' = seq u + 1"
      using m' room
      by (auto simp: upload_def drain_def to_come_drain_loop push_chunk_def to_come_def [of u]
          to_come_def [of "v\<lparr>pending := q, seq := k\<rparr>" for v q k] split: if_splits option.splits)
    then show ?thesis by (auto simp: to_come_def intro: bexI [of _ "seq u"])
  qed
  then show ?thesis unfolding later_def by blast
qed

lemma up_step_later: "later u (up_step (E, op) u)"
proof (cases op)
  case BackoffDone
  then show ?thesis
    by (auto intro!: laterI simp: to_come_drain_loop to_come_def [of u] split: drain_state.split)
qed (auto simp: upload_later attempt_ok_later attempt_failed_later intro: laterI split: drain_state.split)

lemma in_flight_least:
  assumes "up_inv u" "drain_k u = AwaitAttempt it"
  shows "\<forall>m \<in> to_come u. mySeq it \<le> m" "\<forall>m \<in> to_come (attempt_ok E u). mySeq it < m"
proof -
  obtain x xs where p: "pending u = x # xs" and x: "it = x \<or> mySeq it < mySeq x"
    using assms by (cases "pending u") (auto simp: up_inv_def)
  have xs: "\<forall>y \<in> set xs. mySeq x < mySeq y" "mySeq x < seq u" "\<forall>y \<in> set xs. mySeq y < seq u"
    using assms(1) p by (auto simp: up_inv_def)
  show "\<forall>m \<in> to_come u. mySeq it \<le> m"
    using p x xs assms(2) by (auto simp: to_come_def)
  show "\<forall>m \<in> to_come (attempt_ok E u). mySeq it < m"
    using p x xs by (fastforce simp: attempt_ok_def to_come_drain_loop shift_def)
qed

section \<open>The server's side of an attempt\<close>

text \<open>The segment that a session records, if it is registered.\<close>

definition segment_of :: "server \<Rightarrow> jstr \<Rightarrow> nat option" where
  "segment_of st sid = map_option s_segment (map_of (sessions st) sid)"

lemma segment_of_fields [simp]:
  "segment_of (st\<lparr>sent := a\<rparr>) sid = segment_of st sid" "segment_of (st\<lparr>opened := b\<rparr>) sid = segment_of st sid"
  "segment_of (st\<lparr>kinds_heap := h\<rparr>) sid = segment_of st sid"
  "segment_of (append_file sid' name body st) sid = segment_of st sid"
  by (simp_all add: segment_of_def)

lemma chunk_head_answers:
  assumes "chunk_head now c hdr sid kind sq declared st = (res, st1)"
  shows "res = Inl e \<Longrightarrow> (\<forall>n q g. e \<noteq> Stored n q g) \<and> e \<noteq> EmptyChunk"
    and "segment_of st1 sid' = segment_of st sid'"
    and "opened st1 = opened st \<and> sent st1 = sent st \<and> spool st1 = spool st"
proof -
  have tok: "check_session_token now hdr sid st = (Inl a, st) \<Longrightarrow> (\<forall>n q g. a \<noteq> Stored n q g) \<and> a \<noteq> EmptyChunk" for a
    by (auto simp: check_session_token_def Let_def split: if_splits option.splits)
  show "res = Inl e \<Longrightarrow> (\<forall>n q g. e \<noteq> Stored n q g) \<and> e \<noteq> EmptyChunk"
    using assms tok
    by (cases rule: check_session_token_cases [of now hdr sid st])
      (auto simp: chunk_head_def split: if_splits option.splits)
  show "segment_of st1 sid' = segment_of st sid'"
    using assms
    by (cases rule: check_session_token_cases [of now hdr sid st])
      (auto simp: chunk_head_def segment_of_def AList.update_conv' split: if_splits option.splits)
  obtain a where "st1 = st\<lparr>sessions := a\<rparr>" using chunk_head_frame (1) [OF assms] by blast
  then show "opened st1 = opened st \<and> sent st1 = sent st \<and> spool st1 = spool st" by simp
qed

text \<open>The file an attempt of the uploader writes to.\<close>

definition recording :: "rec_env \<Rightarrow> jstr \<Rightarrow> nat \<Rightarrow> server \<Rightarrow> bytes" where
  "recording X kind g st = file_of (num_str (up_sid (e_up X))) (spool_name kind g) st"

lemma post_item_result:
  assumes op: "opened st = []" and seg: "segment_of st (num_str (up_sid (e_up X))) = Some g"
    and st': "st' = post_item X u it now st"
  shows "opened st' = [] \<and> segment_of st' (num_str (up_sid (e_up X))) = Some g
    \<and> recording X (up_kind u) g st' = recording X (up_kind u) g st @ (if took st' then e_bytes X (item_blob it) else [])"
proof -
  let ?sid = "num_str (up_sid (e_up X))" and ?body = "e_bytes X (item_blob it)"
  obtain res st1 where h: "chunk_head now (e_conf X) (rq_auth (attempt_request (e_up X) u it)) ?sid (up_kind u)
      (nat_str (rq_seq (attempt_request (e_up X) u it))) (Some (length ?body)) st = (res, st1)"
    by fastforce
  note A = chunk_head_answers [OF h]
  have file1: "file_of i n st1 = file_of i n st" for i n
    using A(3) by (simp add: file_of_def dir_of_def)
  show ?thesis
  proof (cases res)
    case (Inl e)
    then have "st' = st1\<lparr>sent := sent st1 @ [(0, e)]\<rparr>"
      using h A(3) op by (simp add: st' post_item_def Let_def)
    moreover have "\<not> took (st1\<lparr>sent := sent st1 @ [(0, e)]\<rparr>)"
      using A(1) [OF Inl] by (auto simp: took_def split: answer.split)
    ultimately show ?thesis
      using A(2,3) op seg by (simp add: recording_def file1)
  next
    case (Inr x)
    obtain s where x: "x_sid x = ?sid" "x_kind x = up_kind u" "map_of (sessions st) ?sid = Some s" "x_segment x = s_segment s"
      using chunk_head_frame (2) [OF h Inr] by blast
    have g: "x_segment x = g" using seg x(3,4) by (simp add: segment_of_def)
    have o1: "AList.delete 0 [(0, x)] = []" by simp
    obtain a st2 where b: "chunk_body x ?body (st1\<lparr>opened := []\<rparr>) = (a, st2)" by fastforce
    have st'2: "st' = st2\<lparr>sent := sent st2 @ [(0, a)]\<rparr>"
      using h Inr A(3) op b by (simp add: st' post_item_def Let_def)
    show ?thesis
    proof (cases rule: chunk_body_cases [of x ?body "st1\<lparr>opened := []\<rparr>"])
      case (unstored a')
      have "took st' \<Longrightarrow> ?body = []"
        using unstored b st'2
        by (auto simp: took_def chunk_body_def Let_def split: if_splits)
      then show ?thesis
        using unstored b st'2 A(2) seg by (auto simp: recording_def file1)
    next
      case (stored k)
      then have "took st'" using b st'2 by (simp add: took_def)
      then show ?thesis
        using stored b st'2 A(2) seg x g by (auto simp: recording_def file1)
    qed
  qed
qed

section \<open>What is recorded\<close>

text \<open>
  \<open>got\<close> are the chunks the server has stored since the start, with their sequence numbers.
\<close>

definition rec_inv :: "rec_env \<Rightarrow> jstr \<Rightarrow> nat \<Rightarrow> bytes \<Rightarrow> bool \<Rightarrow> (nat \<times> bytes) list \<Rightarrow> uploader \<times> server \<Rightarrow> bool" where
  "rec_inv X kind g data exact got s \<longleftrightarrow>
    up_inv (fst s) \<and> up_kind (fst s) = kind \<and> opened (snd s) = []
    \<and> segment_of (snd s) (num_str (up_sid (e_up X))) = Some g
    \<and> recording X kind g (snd s) = data @ concat (map snd got)
    \<and> sorted (map fst got) \<and> (exact \<longrightarrow> distinct (map fst got))
    \<and> (\<forall>k \<in> fst ` set got. \<forall>m \<in> to_come (fst s). k \<le> m \<and> (exact \<longrightarrow> k < m))"

lemma up_kind_step [simp]: "up_kind (up_step op u) = up_kind u"
  by (induction op u rule: up_step.induct)
    (auto simp: upload_def drain_def drain_loop_def push_chunk_def make_room_def attempt_ok_def attempt_failed_def
      shift_def Let_def split: drain_state.split option.split list.split)

lemma later_bound:
  assumes "later u u'" "\<forall>m \<in> to_come u. k \<le> m \<and> (exact \<longrightarrow> k < (m::nat))"
  shows "\<forall>m \<in> to_come u'. k \<le> m \<and> (exact \<longrightarrow> k < m)"
  using assms unfolding later_def by (meson le_trans less_le_trans)

definition stored_now :: "rec_env \<Rightarrow> rec_op \<Rightarrow> uploader \<times> server \<Rightarrow> (nat \<times> bytes) list" where
  "stored_now X op s =
    (case (op, drain_k (fst s)) of
       (Served now err, AwaitAttempt it) \<Rightarrow>
         if took (post_item X (fst s) it now (snd s)) then [(mySeq it, e_bytes X (item_blob it))] else []
     | (AckLost now err, AwaitAttempt it) \<Rightarrow>
         if took (post_item X (fst s) it now (snd s)) then [(mySeq it, e_bytes X (item_blob it))] else []
     | _ \<Rightarrow> [])"

text \<open>One more chunk in the file: the one in flight.\<close>

lemma rec_inv_stored:
  assumes r: "rec_inv X kind g data exact got (u, st)" and k: "drain_k u = AwaitAttempt it"
    and st': "recording X kind g st' = recording X kind g st @ body" "opened st' = []"
      "segment_of st' (num_str (up_sid (e_up X))) = Some g"
    and u': "up_inv u'" "up_kind u' = kind" "later u u'"
    and ex: "exact' \<longrightarrow> exact \<and> (\<forall>m \<in> to_come u'. mySeq it < m)"
  shows "rec_inv X kind g data exact' (got @ [(mySeq it, body)]) (u', st')"
proof -
  have it: "mySeq it \<in> to_come u" using k by (simp add: to_come_def)
  have inv: "up_inv u" using r by (simp add: rec_inv_def)
  have old: "\<forall>m \<in> to_come u. i \<le> m \<and> (exact \<longrightarrow> i < m)" if "i \<in> fst ` set got" for i
    using r that by (auto simp: rec_inv_def)
  have le: "i \<le> mySeq it \<and> (exact \<longrightarrow> i < mySeq it)" if "i \<in> fst ` set got" for i
    using old [OF that] it by blast
  have new: "\<forall>m \<in> to_come u'. i \<le> m \<and> (exact \<longrightarrow> i < m)" if "i \<in> fst ` set got" for i
    by (rule later_bound [OF u'(3) old [OF that]])
  have least: "\<forall>m \<in> to_come u'. mySeq it \<le> m"
    using in_flight_least(1) [OF inv k] u'(3) unfolding later_def by (meson le_trans)
  have "sorted (map fst (got @ [(mySeq it, body)]))"
    using r le by (auto simp: rec_inv_def sorted_append)
  moreover have "exact' \<longrightarrow> distinct (map fst (got @ [(mySeq it, body)]))"
    using r le ex by (fastforce simp: rec_inv_def)
  moreover have "\<forall>i \<in> fst ` set (got @ [(mySeq it, body)]). \<forall>m \<in> to_come u'. i \<le> m \<and> (exact' \<longrightarrow> i < m)"
    using new least ex by auto
  ultimately show ?thesis
    using r st' u'(1,2) by (simp add: rec_inv_def)
qed

lemma rec_inv_same:
  assumes "rec_inv X kind g data exact got (u, st)" "exact' \<longrightarrow> exact"
    "recording X kind g st' = recording X kind g st" "opened st' = []"
    "segment_of st' (num_str (up_sid (e_up X))) = Some g"
    "up_inv u'" "up_kind u' = kind" "later u u'"
  shows "rec_inv X kind g data exact' got (u', st')"
proof -
  have old: "\<forall>m \<in> to_come u. i \<le> m \<and> (exact \<longrightarrow> i < m)" if "i \<in> fst ` set got" for i
    using assms(1) that by (auto simp: rec_inv_def)
  have "\<forall>i \<in> fst ` set got. \<forall>m \<in> to_come u'. i \<le> m \<and> (exact \<longrightarrow> i < m)"
    using later_bound [OF assms(8) old] by blast
  then show ?thesis using assms by (auto simp: rec_inv_def)
qed

lemma rec_inv_step:
  assumes r: "rec_inv X kind g data exact got (u, st)"
  shows "rec_inv X kind g data (exact \<and> \<not> loses_ack op) (got @ stored_now X op (u, st)) (rec_step X op (u, st))"
proof -
  have inv: "up_inv u" and kind: "up_kind u = kind" and op0: "opened st = []"
    and seg: "segment_of st (num_str (up_sid (e_up X))) = Some g"
    using r by (simp_all add: rec_inv_def)
  have page: "rec_inv X kind g data (exact \<and> e) got (up_step (e_up X, o1) u, st)" for o1 e
    by (rule rec_inv_same [OF r]) (use inv kind op0 seg up_step_inv up_step_later in \<open>simp_all del: up_step.simps\<close>)
  have idle: "rec_inv X kind g data (exact \<and> e) got (u, st)" for e
    by (rule rec_inv_same [OF r]) (use inv kind op0 seg laterI in auto)
  show ?thesis
  proof (cases op)
    case (Served now err)
    show ?thesis
    proof (cases "drain_k u")
      case (AwaitAttempt it)
      define st' where "st' = post_item X u it now st"
      note P = post_item_result [OF op0 seg st'_def, unfolded kind]
      have stepped: "up_inv (up_step (e_up X, o1) u)" "later u (up_step (e_up X, o1) u)" for o1
        by (rule up_step_inv [OF inv], rule up_step_later)
      show ?thesis
      proof (cases "took st'")
        case True
        have "rec_inv X kind g data exact (got @ [(mySeq it, e_bytes X (item_blob it))]) (up_step (e_up X, AttemptOk) u, st')"
        proof (rule rec_inv_stored [OF r AwaitAttempt])
          show "exact \<longrightarrow> exact \<and> (\<forall>m \<in> to_come (up_step (e_up X, AttemptOk) u). mySeq it < m)"
            using in_flight_least(2) [OF inv AwaitAttempt] AwaitAttempt by simp
        qed (use P True kind stepped in \<open>simp_all del: up_step.simps\<close>)
        then show ?thesis
          using Served AwaitAttempt True by (simp add: stored_now_def st'_def [symmetric] Let_def del: up_step.simps)
      next
        case False
        have "rec_inv X kind g data exact got (up_step (e_up X, AttemptFail err) u, st')"
          by (rule rec_inv_same [OF r]) (use P False kind stepped in \<open>simp_all del: up_step.simps\<close>)
        then show ?thesis
          using Served AwaitAttempt False by (simp add: stored_now_def st'_def [symmetric] Let_def del: up_step.simps)
      qed
    qed (use Served idle [of True] in \<open>simp_all add: stored_now_def\<close>)
  next
    case (AckLost now err)
    show ?thesis
    proof (cases "drain_k u")
      case (AwaitAttempt it)
      define st' where "st' = post_item X u it now st"
      note P = post_item_result [OF op0 seg st'_def, unfolded kind]
      have stepped: "up_inv (up_step (e_up X, AttemptFail err) u)" "later u (up_step (e_up X, AttemptFail err) u)"
        by (rule up_step_inv [OF inv], rule up_step_later)
      show ?thesis
      proof (cases "took st'")
        case True
        have "rec_inv X kind g data False (got @ [(mySeq it, e_bytes X (item_blob it))]) (up_step (e_up X, AttemptFail err) u, st')"
          by (rule rec_inv_stored [OF r AwaitAttempt]) (use P True kind stepped in \<open>simp_all del: up_step.simps\<close>)
        then show ?thesis
          using AckLost AwaitAttempt True by (simp add: stored_now_def st'_def [symmetric] del: up_step.simps)
      next
        case False
        have "rec_inv X kind g data False got (up_step (e_up X, AttemptFail err) u, st')"
          by (rule rec_inv_same [OF r]) (use P False kind stepped in \<open>simp_all del: up_step.simps\<close>)
        then show ?thesis
          using AckLost AwaitAttempt False by (simp add: stored_now_def st'_def [symmetric] del: up_step.simps)
      qed
    next
      case DrainIdle
      then show ?thesis using AckLost idle [of False] by (simp add: stored_now_def)
    next
      case (AwaitBackoff d)
      then show ?thesis using AckLost idle [of False] by (simp add: stored_now_def)
    qed
  qed (use page [where e = True] in \<open>simp_all add: stored_now_def del: up_step.simps\<close>)
qed

lemma rec_inv_run:
  "rec_inv X kind g data exact got s \<Longrightarrow>
    rec_inv X kind g data (exact \<and> (\<forall>op \<in> set ops. \<not> loses_ack op))
      (got @ released (rec_step X) (stored_now X) ops s) (fold (rec_step X) ops s)"
proof (induction ops arbitrary: s got exact)
  case (Cons op ops)
  obtain u st where s: "s = (u, st)" by fastforce
  from Cons.IH [OF rec_inv_step [OF Cons.prems [unfolded s], of op]]
  show ?case by (simp add: s conj_assoc)
qed simp

section \<open>Which chunks the sequence numbers name\<close>

text \<open>The chunks that enter the uploader.\<close>

fun recorded_now :: "rec_env \<Rightarrow> rec_op \<Rightarrow> chunk list" where
  "recorded_now X (Recorded (Some b)) = (if proctor_url (e_up X) = [] \<or> chunk_size b = 0 then [] else [b])"
| "recorded_now X _ = []"

definition recorded :: "rec_env \<Rightarrow> rec_op list \<Rightarrow> chunk list" where
  "recorded X ops = concat (map (recorded_now X) ops)"

definition items :: "uploader \<Rightarrow> item set" where
  "items u = set (pending u) \<union> (case drain_k u of AwaitAttempt it \<Rightarrow> {it} | _ \<Rightarrow> {})"

definition numbered :: "chunk list \<Rightarrow> uploader \<Rightarrow> bool" where
  "numbered cs u \<longleftrightarrow> seq u = length cs \<and> (\<forall>it \<in> items u. mySeq it < length cs \<and> item_blob it = cs ! mySeq it)"

lemma items_drain_loop: "items (drain_loop E u) = set (pending u)"
  by (auto simp: items_def drain_loop_def split: list.split)

lemma seq_drain_loop [simp]: "seq (drain_loop E u) = seq u" "pending (drain_loop E u) = pending u"
    "warnings (drain_loop E u) = warnings u"
  by (simp_all add: drain_loop_def split: list.split)

text \<open>The two attempts and the backoff only drop items, or update one of them.\<close>

lemma set_item_items:
  "x \<in> set (set_item it xs) \<Longrightarrow> \<exists>y \<in> set xs. x = (if mySeq y = mySeq it then it else y)"
  by (auto simp: set_item_def)

lemma attempt_failed_cases:
  obtains (given_up) w where "attempt_failed E it err u = drain_loop E (shift (u\<lparr>pending :=
        set_item (it\<lparr>lastError := Some err, attempt := attempt it + 1\<rparr>) (pending u), warnings := warnings u @ [w]\<rparr>))"
    | (again) d where "attempt_failed E it err u =
        u\<lparr>pending := set_item (it\<lparr>lastError := Some err, attempt := attempt it + 1\<rparr>) (pending u), drain_k := AwaitBackoff d\<rparr>"
  by (cases "attempt it + 1 \<ge> MAX_ATTEMPTS") (auto simp: attempt_failed_def Let_def)

lemma numbered_drain_loop:
  "seq u = length cs \<Longrightarrow> (\<And>it. it \<in> set (pending u) \<Longrightarrow> mySeq it < length cs \<and> item_blob it = cs ! mySeq it) \<Longrightarrow>
    numbered cs (drain_loop E u)"
  by (simp add: numbered_def items_drain_loop)

lemma numbered_drain: "numbered cs u \<Longrightarrow> numbered cs (drain E u)"
  by (cases "working u") (simp_all add: drain_def numbered_def items_drain_loop, simp add: items_def)

lemma items_shift: "items (shift u) \<subseteq> items u"
  by (auto simp: items_def shift_def dest: in_set_tlD)

lemma make_room_items: "items (make_room u) \<subseteq> items u" "seq (make_room u) = seq u"
proof -
  have "items (v\<lparr>warnings := w\<rparr>) = items v" for v w by (simp add: items_def)
  then show "items (make_room u) \<subseteq> items u" using items_shift [of u] by (simp add: make_room_def)
  show "seq (make_room u) = seq u" by (simp add: make_room_def shift_def)
qed

lemma numbered_step:
  assumes "numbered cs u"
  shows "numbered (cs @ (case op of up_op.Chunk b \<Rightarrow> recorded_now X (Recorded b) | _ \<Rightarrow> [])) (up_step (e_up X, op) u)"
proof (cases op)
  case (Chunk b)
  show ?thesis
  proof (cases "recorded_now X (Recorded b)")
    case Nil
    then show ?thesis using assms Chunk by (cases b) (auto simp: upload_def split: if_splits)
  next
    case (Cons c rest)
    then obtain b' where b: "b = Some b'" "proctor_url (e_up X) \<noteq> []" "chunk_size b' \<noteq> 0"
      by (cases b) (auto split: if_splits)
    have room: "numbered cs (make_room u)"
      using assms make_room_items [of u] by (auto simp: numbered_def)
    have "items (push_chunk b' v) = insert \<lparr>item_blob = b', attempt = 0, mySeq = seq v, lastError = None\<rparr> (items v)" for v
      by (auto simp: items_def push_chunk_def)
    moreover have "seq (push_chunk b' v) = seq v + 1" for v
      by (simp add: push_chunk_def)
    ultimately have "numbered (cs @ [b']) (push_chunk b' (make_room u))"
      using room unfolding numbered_def by (simp add: nth_append less_SucI)
    then show ?thesis using Chunk b numbered_drain by (simp add: upload_def)
  qed
next
  case (AttemptFail err)
  show ?thesis
  proof (cases "drain_k u")
    case (AwaitAttempt it)
    define it' where "it' = it\<lparr>lastError := Some err, attempt := attempt it + 1\<rparr>"
    have it': "mySeq it' = mySeq it" "mySeq it' < length cs" "item_blob it' = cs ! mySeq it'"
      using assms AwaitAttempt by (auto simp: numbered_def items_def it'_def)
    have mem: "mySeq x < length cs \<and> item_blob x = cs ! mySeq x" if "x \<in> set (set_item it' (pending u))" for x
      using set_item_items [OF that] it' assms by (auto simp: numbered_def items_def split: if_splits)
    have len: "seq u = length cs" using assms by (simp add: numbered_def)
    have "numbered cs (attempt_failed (e_up X) it err u)"
    proof (cases rule: attempt_failed_cases [of "e_up X" it err u])
      case (given_up w)
      have "numbered cs (drain_loop (e_up X) (shift (u\<lparr>pending := set_item it' (pending u), warnings := warnings u @ [w]\<rparr>)))"
        by (rule numbered_drain_loop) (use len mem in \<open>auto simp: shift_def dest: in_set_tlD\<close>)
      then show ?thesis by (simp only: given_up it'_def)
    next
      case (again d)
      have "numbered cs (u\<lparr>pending := set_item it' (pending u), drain_k := AwaitBackoff d\<rparr>)"
        using len mem by (simp add: numbered_def items_def)
      then show ?thesis by (simp only: again it'_def)
    qed
    then show ?thesis using AttemptFail AwaitAttempt by simp
  qed (use assms AttemptFail in simp_all)
next
  case AttemptOk
  have "numbered cs (attempt_ok (e_up X) u)"
    unfolding attempt_ok_def
    by (rule numbered_drain_loop) (use assms in \<open>auto simp: numbered_def items_def shift_def dest: in_set_tlD\<close>)
  then show ?thesis using assms AttemptOk by (simp split: drain_state.split)
next
  case BackoffDone
  have "numbered cs (drain_loop (e_up X) u)"
    by (rule numbered_drain_loop) (use assms in \<open>auto simp: numbered_def items_def\<close>)
  then show ?thesis using assms BackoffDone by (simp split: drain_state.split)
qed

section \<open>Which chunks are missing\<close>

text \<open>The chunks that are neither stored (\<open>K\<close>) nor waiting in the buffer.\<close>

definition missing :: "nat set \<Rightarrow> uploader \<Rightarrow> nat set" where
  "missing K u = {..<seq u} - K - mySeq ` set (pending u)"

lemma finite_missing [simp]: "finite (missing K u)"
  by (simp add: missing_def)

lemma missing_cong: "seq u' = seq u \<Longrightarrow> mySeq ` set (pending u') = mySeq ` set (pending u) \<Longrightarrow> missing K u' = missing K u"
  by (simp add: missing_def)

lemma missing_shift: "card (missing K (shift u)) \<le> card (missing K u) + 1"
proof -
  have "missing K (shift u) \<subseteq> insert (mySeq (hd (pending u))) (missing K u)"
    by (cases "pending u") (auto simp: missing_def shift_def)
  then have "card (missing K (shift u)) \<le> card (insert (mySeq (hd (pending u))) (missing K u))"
    by (rule card_mono [rotated]) simp
  also have "\<dots> \<le> card (missing K u) + 1" by (simp add: card_insert_if)
  finally show ?thesis .
qed

lemma missing_upload:
  assumes "card (missing K u) \<le> length (warnings u)"
  shows "card (missing K (upload E b u)) \<le> length (warnings (upload E b u))"
proof -
  have room: "card (missing K (make_room u)) \<le> length (warnings (make_room u))"
    using assms missing_shift [of K u] missing_cong [of "(shift u)\<lparr>warnings := w\<rparr>" "shift u" K for w]
    by (simp add: make_room_def)
  have push: "missing K (push_chunk c v) = missing K v" for c v
    by (auto simp: missing_def push_chunk_def)
  have pushed: "missing K (drain E (push_chunk c v)) = missing K v"
      "warnings (drain E (push_chunk c v)) = warnings v" for c v
    using missing_cong [of "drain E (push_chunk c v)" "push_chunk c v"] push
    by (simp_all add: drain_def push_chunk_def)
  show ?thesis using assms room by (cases b) (simp_all add: upload_def pushed)
qed

lemma missing_failed:
  assumes "card (missing K u) \<le> length (warnings u)"
  shows "card (missing K (attempt_failed E it err u)) \<le> length (warnings (attempt_failed E it err u))"
proof -
  have upd: "missing K (u\<lparr>pending := set_item i (pending u), warnings := w\<rparr>) = missing K u"
      "missing K (u\<lparr>pending := set_item i (pending u), drain_k := k\<rparr>) = missing K u" for i w k
    by (rule missing_cong; simp add: set_item_image)+
  show ?thesis
  proof (cases rule: attempt_failed_cases [of E it err u])
    case (given_up w)
    have "missing K (drain_loop E v) = missing K v" for v by (rule missing_cong) simp_all
    moreover note missing_shift [of K "u\<lparr>pending := set_item i (pending u), warnings := warnings u @ [w]\<rparr>" for i]
    ultimately show ?thesis
      using assms by (simp only: given_up upd) (auto simp: shift_def intro: order.trans)
  next
    case (again d)
    then show ?thesis using assms by (simp only: again upd) simp
  qed
qed

lemma missing_ok:
  assumes inv: "up_inv u" and k: "drain_k u = AwaitAttempt it" and it: "mySeq it < seq u" "mySeq it \<notin> K"
  shows "card (missing (insert (mySeq it) K) (attempt_ok E u)) \<le> card (missing K u)"
proof -
  obtain x xs where p: "pending u = x # xs" using inv k by (cases "pending u") (auto simp: up_inv_def)
  have m: "missing (insert (mySeq it) K) (attempt_ok E u) = {..<seq u} - insert (mySeq it) K - mySeq ` set xs"
    by (simp add: missing_def attempt_ok_def shift_def p)
  show ?thesis
  proof (cases "it = x")
    case True
    have "{..<seq u} - insert (mySeq it) K - mySeq ` set xs = missing K u"
      using True by (auto simp: missing_def p)
    then show ?thesis by (simp add: m)
  next
    case False
    then have lt: "mySeq it < mySeq x" using inv k p by (simp add: up_inv_def)
    then have here: "mySeq it \<in> missing K u"
      using inv it p by (auto simp: missing_def up_inv_def)
    have "{..<seq u} - insert (mySeq it) K - mySeq ` set xs \<subseteq> insert (mySeq x) (missing K u - {mySeq it})"
      by (auto simp: missing_def p)
    then have "card ({..<seq u} - insert (mySeq it) K - mySeq ` set xs) \<le> card (insert (mySeq x) (missing K u - {mySeq it}))"
      by (rule card_mono [rotated]) simp
    also have "\<dots> \<le> Suc (card (missing K u - {mySeq it}))" by (simp add: card_insert_if)
    also have "\<dots> = card (missing K u)"
      by (rule card_Suc_Diff1 [OF finite_missing here])
    finally show ?thesis by (simp add: m)
  qed
qed

section \<open>The file and the recorded chunks\<close>

definition file_inv :: "rec_env \<Rightarrow> jstr \<Rightarrow> nat \<Rightarrow> bytes \<Rightarrow> bool \<Rightarrow> chunk list \<Rightarrow> (nat \<times> bytes) list \<Rightarrow> uploader \<times> server \<Rightarrow> bool" where
  "file_inv X kind g data exact cs got s \<longleftrightarrow>
    rec_inv X kind g data exact got s \<and> numbered cs (fst s)
    \<and> (\<forall>(k, b) \<in> set got. k < length cs \<and> b = e_bytes X (cs ! k))
    \<and> (exact \<longrightarrow> card (missing (fst ` set got) (fst s)) \<le> length (warnings (fst s)))"

text \<open>The uploader's side of an operation.\<close>

definition page_op :: "rec_env \<Rightarrow> rec_op \<Rightarrow> uploader \<times> server \<Rightarrow> up_op option" where
  "page_op X op s =
    (case op of
       Recorded b \<Rightarrow> Some (up_op.Chunk b)
     | Served now err \<Rightarrow>
         (case drain_k (fst s) of
            AwaitAttempt it \<Rightarrow> Some (if took (post_item X (fst s) it now (snd s)) then AttemptOk else AttemptFail err)
          | _ \<Rightarrow> None)
     | AckLost now err \<Rightarrow> Some (AttemptFail err)
     | PostLost err \<Rightarrow> Some (AttemptFail err)
     | Waited \<Rightarrow> Some BackoffDone)"

lemma rec_step_page:
  "fst (rec_step X op s) = (case page_op X op s of None \<Rightarrow> fst s | Some o1 \<Rightarrow> up_step (e_up X, o1) (fst s))"
  by (cases s; cases op) (simp_all add: page_op_def Let_def split: drain_state.split)

lemma numbered_rec:
  assumes "numbered cs (fst s)"
  shows "numbered (cs @ recorded_now X op) (fst (rec_step X op s))"
  using numbered_step [OF assms, of X "case page_op X op s of Some o1 \<Rightarrow> o1 | None \<Rightarrow> BackoffDone"] assms
  by (cases op) (auto simp: rec_step_page page_op_def simp del: up_step.simps split: drain_state.splits if_splits)

text \<open>A stored chunk is the one in flight, and without lost answers it is then counted as a success.\<close>

lemma stored_now_cases:
  obtains (nothing) "stored_now X op s = []" "page_op X op s \<noteq> Some AttemptOk"
    | (stored) it where "drain_k (fst s) = AwaitAttempt it" "stored_now X op s = [(mySeq it, e_bytes X (item_blob it))]"
        "loses_ack op \<or> fst (rec_step X op s) = attempt_ok (e_up X) (fst s)"
proof (cases "stored_now X op s")
  case Nil
  show ?thesis
    by (rule nothing) (use Nil in \<open>auto simp: stored_now_def page_op_def split: rec_op.splits drain_state.splits if_splits\<close>)
next
  case (Cons x xs)
  then obtain it where "drain_k (fst s) = AwaitAttempt it" "stored_now X op s = [(mySeq it, e_bytes X (item_blob it))]"
      "loses_ack op \<or> page_op X op s = Some AttemptOk"
    by (auto simp: stored_now_def page_op_def split: rec_op.splits drain_state.splits if_splits)
  then show ?thesis using stored [of it] by (auto simp: rec_step_page)
qed

lemma missing_rec:
  assumes "card (missing K (fst s)) \<le> length (warnings (fst s))" "page_op X op s \<noteq> Some AttemptOk"
  shows "card (missing K (fst (rec_step X op s))) \<le> length (warnings (fst (rec_step X op s)))"
proof -
  have loop: "missing K (drain_loop E u) = missing K u" for E u by (rule missing_cong) simp_all
  have "card (missing K (up_step (e_up X, o1) (fst s))) \<le> length (warnings (up_step (e_up X, o1) (fst s)))"
    if "o1 \<noteq> AttemptOk" for o1
    using that assms(1) missing_upload missing_failed
    by (cases o1) (simp_all add: loop split: drain_state.split)
  then show ?thesis using assms by (cases "page_op X op s") (auto simp: rec_step_page simp del: up_step.simps)
qed

lemma file_inv_step:
  assumes r: "file_inv X kind g data exact cs got s"
  shows "file_inv X kind g data (exact \<and> \<not> loses_ack op) (cs @ recorded_now X op) (got @ stored_now X op s) (rec_step X op s)"
proof -
  obtain u st where s: "s = (u, st)" by fastforce
  have rec: "rec_inv X kind g data exact got (u, st)" and num: "numbered cs u"
    using r by (simp_all add: file_inv_def s)
  have named: "\<forall>(k, b) \<in> set (got @ stored_now X op s). k < length (cs @ recorded_now X op) \<and> b = e_bytes X ((cs @ recorded_now X op) ! k)"
  proof (cases rule: stored_now_cases [of X op s])
    case nothing
    then show ?thesis using r by (auto simp: file_inv_def nth_append)
  next
    case (stored it)
    then have "mySeq it < length cs \<and> item_blob it = cs ! mySeq it"
      using num by (auto simp: numbered_def items_def s)
    then show ?thesis using r stored by (auto simp: file_inv_def nth_append)
  qed
  have "card (missing (fst ` set (got @ stored_now X op s)) (fst (rec_step X op s))) \<le> length (warnings (fst (rec_step X op s)))"
    if exact: exact "\<not> loses_ack op"
  proof (cases rule: stored_now_cases [of X op s])
    case nothing
    then show ?thesis using r exact missing_rec [of "fst ` set got" s X op] by (simp add: file_inv_def)
  next
    case (stored it)
    have it: "mySeq it < seq u" using num stored by (auto simp: numbered_def items_def s)
    have new: "mySeq it \<notin> fst ` set got"
      using rec stored exact by (auto simp: rec_inv_def to_come_def s)
    have inv: "up_inv u" using rec by (simp add: rec_inv_def)
    have "card (missing (insert (mySeq it) (fst ` set got)) (attempt_ok (e_up X) u)) \<le> card (missing (fst ` set got) u)"
      by (rule missing_ok [OF inv _ it new]) (use stored s in simp)
    moreover have "card (missing (fst ` set got) u) \<le> length (warnings u)"
      using r exact by (simp add: file_inv_def s)
    ultimately show ?thesis using stored exact
      by (simp add: s attempt_ok_def shift_def)
  qed
  then show ?thesis
    using rec_inv_step [OF rec, of op] numbered_rec [of cs s X op] num named
    by (simp add: file_inv_def s del: up_step.simps rec_step.simps)
qed

lemma file_inv_run:
  "file_inv X kind g data exact cs got s \<Longrightarrow>
    \<exists>got'. file_inv X kind g data (exact \<and> (\<forall>op \<in> set ops. \<not> loses_ack op)) (cs @ recorded X ops) got' (fold (rec_step X) ops s)"
proof (induction ops arbitrary: s cs got exact)
  case (Cons op ops)
  from Cons.IH [OF file_inv_step [OF Cons.prems, of op]] show ?case
    by (simp add: conj_assoc recorded_def del: rec_step.simps)
qed (auto simp: recorded_def)

section \<open>An accepted attempt\<close>

text \<open>A session that accepts the uploader's chunks, and the room left in its directory.\<close>

definition takes_chunks :: "rec_env \<Rightarrow> uploader \<Rightarrow> nat \<Rightarrow> server \<Rightarrow> bool" where
  "takes_chunks X u g st \<longleftrightarrow>
    opened st = [] \<and> up_kind u \<in> set ALLOWED_KINDS \<and> ascii (up_token (e_up X))
    \<and> (\<exists>s. map_of (sessions st) (num_str (up_sid (e_up X))) = Some s \<and> s_token s = up_token (e_up X) \<and> s_segment s = g)"

lemma post_item_stored:
  assumes a: "takes_chunks X u g st" and q: "seq_ok (e_conf X) (nat_str (mySeq it)) q"
    and body: "body = e_bytes X (item_blob it)" "body \<noteq> []" "length body \<le> MAX_CHUNK_BYTES"
      "kind_bytes (num_str (up_sid (e_up X))) (up_kind u) st + length body \<le> MAX_SESSION_BYTES"
    and st': "st' = post_item X u it now st"
  shows "took st'" "takes_chunks X u g st'"
    "recording X (up_kind u) g st' = recording X (up_kind u) g st @ body"
    "kind_bytes (num_str (up_sid (e_up X))) (up_kind u) st' = kind_bytes (num_str (up_sid (e_up X))) (up_kind u) st + length body"
    "sent st' = sent st @ [(0, Stored (length body) q g)]"
proof -
  let ?sid = "num_str (up_sid (e_up X))"
  obtain s where s: "map_of (sessions st) ?sid = Some s" "s_token s = up_token (e_up X)" "s_segment s = g"
    and acc: "opened st = []" "up_kind u \<in> set ALLOWED_KINDS" "ascii (up_token (e_up X))"
    using a by (auto simp: takes_chunks_def)
  have rq: "rq_auth (attempt_request (e_up X) u it) = bearer @ s_token s" "rq_seq (attempt_request (e_up X) u it) = mySeq it"
    by (simp_all add: attempt_request_def bearer_def s(2))
  define st1 where "st1 = st\<lparr>sessions := AList.update ?sid (s\<lparr>s_last := now\<rparr>) (sessions st)\<rparr>"
  have h: "chunk_head now (e_conf X) (bearer @ s_token s) ?sid (up_kind u) (nat_str (mySeq it)) (Some (length body)) st =
      (Inr \<lparr>x_sid = ?sid, x_kind = up_kind u, x_seq = q, x_kinds = s_kinds s, x_segment = g\<rparr>, st1)"
    using s acc q body(3) by (simp add: chunk_head_def check_token_ok [OF s(1), unfolded s(2)] seq_ok_def st1_def)
  have kb: "kind_bytes ?sid (up_kind u) (st1\<lparr>opened := b\<rparr>) = kind_bytes ?sid (up_kind u) st" for b
    by (simp add: kind_bytes_def st1_def)
  obtain hp where cb: "chunk_body \<lparr>x_sid = ?sid, x_kind = up_kind u, x_seq = q, x_kinds = s_kinds s, x_segment = g\<rparr>
      body (st1\<lparr>opened := []\<rparr>) =
      (Stored (length body) q g, (append_file ?sid (spool_name (up_kind u) g) body (st1\<lparr>opened := []\<rparr>))\<lparr>kinds_heap := hp\<rparr>)"
    using body(2-4) kb [of "[]"] by (auto simp: chunk_body_def Let_def simp del: append_file_def)
  have op1: "opened st1 = []" using acc(1) by (simp add: st1_def)
  have st'2: "st' = (append_file ?sid (spool_name (up_kind u) g) body (st1\<lparr>opened := []\<rparr>))
      \<lparr>kinds_heap := hp, sent := sent st1 @ [(0, Stored (length body) q g)]\<rparr>"
    by (simp add: st' post_item_def Let_def rq body(1) [symmetric] h op1 cb)
  have sent1: "sent st1 = sent st" by (simp add: st1_def)
  show "took st'" by (simp add: st'2 took_def)
  show "takes_chunks X u g st'"
    using acc s by (simp add: takes_chunks_def st'2 st1_def AList.update_conv')
  show "recording X (up_kind u) g st' = recording X (up_kind u) g st @ body"
    by (simp add: recording_def st'2) (simp add: st1_def file_of_def dir_of_def)
  show "kind_bytes ?sid (up_kind u) st' = kind_bytes ?sid (up_kind u) st + length body"
  proof -
    have fields: "kind_bytes ?sid (up_kind u) (v\<lparr>kinds_heap := hp, sent := w\<rparr>) = kind_bytes ?sid (up_kind u) v" for v w
      by (simp add: kind_bytes_def)
    show ?thesis by (simp add: st'2 fields kind_bytes_append kb spool_name_of_kind)
  qed
  show "sent st' = sent st @ [(0, Stored (length body) q g)]"
    by (simp add: st'2 sent1)
qed

section \<open>Properties\<close>

text \<open>
  C1: However chunks, requests, answers and timeouts interleave, what the server appends to the file
  of the session's segment is recorded chunks in the order they were recorded. As long as no answer
  of the server is lost, no chunk is in the file twice, and every recorded chunk is in the file or
  still in the uploader's buffer, but for as many as there are warnings in the event log.
\<close>

theorem recording_in_order:
  assumes "opened st = []" "segment_of st (num_str (up_sid (e_up X))) = Some g"
    "fold (rec_step X) ops (up_init kind, st) = (u', st')" "cs = recorded X ops"
  shows "\<exists>ks. sorted ks \<and> set ks \<subseteq> {..<length cs}
    \<and> recording X kind g st' = recording X kind g st @ concat (map (\<lambda>k. e_bytes X (cs ! k)) ks)
    \<and> ((\<forall>op \<in> set ops. \<not> loses_ack op) \<longrightarrow>
        distinct ks \<and> card ({..<length cs} - set ks - mySeq ` set (pending u')) \<le> length (warnings u'))"
proof -
  have "file_inv X kind g (recording X kind g st) True [] [] (up_init kind, st)"
    using assms(1,2) by (simp add: file_inv_def rec_inv_def numbered_def items_def missing_def up_inv_def up_init_def)
  from file_inv_run [OF this, of ops] obtain got
    where "file_inv X kind g (recording X kind g st) (\<forall>op \<in> set ops. \<not> loses_ack op) cs got (u', st')"
    using assms(3,4) by auto
  moreover from this have "map snd got = map (\<lambda>k. e_bytes X (cs ! k)) (map fst got)"
    by (fastforce simp: file_inv_def)
  ultimately show ?thesis
    by (intro exI [of _ "map fst got"]) (auto simp: file_inv_def rec_inv_def missing_def numbered_def simp del: map_map)
qed

text \<open>
  The server stores a chunk whatever its sequence number: when the answer to a stored chunk is
  lost, the uploader posts it again after its backoff and its bytes are in the file twice.
\<close>

lemma lost_answer_stores_twice:
  assumes "up_inv u" "drain_k u = AwaitAttempt it" "pending u = it # rest" "attempt it = 0"
    "takes_chunks X u g st" "seq_ok (e_conf X) (nat_str (mySeq it)) q"
    "body = e_bytes X (item_blob it)" "body \<noteq> []" "length body \<le> MAX_CHUNK_BYTES"
    "kind_bytes (num_str (up_sid (e_up X))) (up_kind u) st + 2 * length body \<le> MAX_SESSION_BYTES"
    "fold (rec_step X) [AckLost now err, Waited, Served now' err'] (u, st) = (u', st')"
  shows "recording X (up_kind u) g st' = recording X (up_kind u) g st @ body @ body
    \<and> sent st' = sent st @ [(0, Stored (length body) q g), (0, Stored (length body) q g)]
    \<and> pending u' = rest \<and> warnings u' = warnings u"
proof -
  define it' where "it' = it\<lparr>lastError := Some err, attempt := 1\<rparr>"
  have same: "mySeq it' = mySeq it" "item_blob it' = item_blob it" by (simp_all add: it'_def)
  have head: "set_item it' (pending u) = it' # rest"
    by (rule set_item_head [OF up_inv_core [OF assms(1)] assms(3)]) (simp add: it'_def)
  define u1 where "u1 = u\<lparr>pending := it' # rest, drain_k := AwaitBackoff 1000\<rparr>"
  have u1: "up_step (e_up X, AttemptFail err) u = u1"
    using assms(2,4) head unfolding u1_def it'_def by (simp add: attempt_failed_def Let_def)
  define u2 where "u2 = u1\<lparr>drain_k := AwaitAttempt it', requests := requests u1 @ [attempt_request (e_up X) u1 it']\<rparr>"
  have u2: "up_step (e_up X, BackoffDone) u1 = u2"
    by (simp add: u1_def u2_def drain_loop_def)
  have k2: "drain_k u2 = AwaitAttempt it'" "up_kind u2 = up_kind u" "pending u2 = it' # rest" "warnings u2 = warnings u"
    by (simp_all add: u2_def u1_def)
  define st1 where "st1 = post_item X u it now st"
  note S1 = post_item_stored [OF assms(5,6,7,8,9) _ st1_def]
  have fits: "kind_bytes (num_str (up_sid (e_up X))) (up_kind u) st + length body \<le> MAX_SESSION_BYTES"
    using assms(10) by simp
  note S1 = S1 [OF fits]
  define st2 where "st2 = post_item X u2 it' now' st1"
  have "takes_chunks X u2 g st1" using S1(2) k2 by (simp add: takes_chunks_def)
  then have S2: "took st2" "recording X (up_kind u) g st2 = recording X (up_kind u) g st1 @ body"
      "sent st2 = sent st1 @ [(0, Stored (length body) q g)]"
    using post_item_stored [of X u2 g st1 it' q body st2 now'] assms(6-10) S1(4) k2 same
    by (simp_all add: st2_def)
  have "fold (rec_step X) [AckLost now err, Waited, Served now' err'] (u, st) = (attempt_ok (e_up X) u2, st2)"
    using S2(1) k2(1) by (simp add: assms(2) u1 u2 st1_def [symmetric] st2_def [symmetric] Let_def del: up_step.simps)
      (simp add: k2)
  then have "u' = attempt_ok (e_up X) u2" "st' = st2" using assms(11) by simp_all
  then show ?thesis
    using S1 S2 k2 by (simp add: attempt_ok_def shift_def)
qed

section \<open>Example runs\<close>

definition env0 :: rec_env where
  "env0 = \<lparr>e_conf = conf0, e_up = \<lparr>proctor_url = js ''u'', up_sid = 7, up_token = token0\<rparr>,
     e_bytes = (\<lambda>c. [word_of_nat (chunk_id c)])\<rparr>"

definition chunk0 :: chunk where
  "chunk0 = \<lparr>chunk_id = 2, chunk_size = 1\<rparr>"

lemma env0_simps: "e_conf env0 = conf0" "up_token (e_up env0) = token0" "e_bytes env0 chunk0 = [2]"
    "num_str (up_sid (e_up env0)) = [55]" "proctor_url (e_up env0) \<noteq> []" "chunk_size chunk0 \<noteq> 0"
  by (simp_all add: env0_def chunk0_def num_str_def nat_str_def digits_rev.simps [of 7])

lemma live0_accepts: "opened live0 = []" "segment_of live0 [55] = Some 0" "recording env0 cam0 0 live0 = [1]"
  by (simp_all add: live0_def empty_server_def segment_of_def recording_def env0_simps file_of_def dir_of_def)

lemma recording_in_order_witness:
  "let (u', st') = fold (rec_step env0) [Recorded (Some chunk0), Served 1 [], Recorded (Some chunk0), PostLost [], Waited] (up_init cam0, live0) in
     \<exists>ks. distinct ks \<and> recording env0 cam0 0 st' = [1] @ concat (map (\<lambda>k. e_bytes env0 ([chunk0, chunk0] ! k)) ks)"
proof -
  obtain u' st' where run: "fold (rec_step env0) [Recorded (Some chunk0), Served 1 [], Recorded (Some chunk0), PostLost [], Waited]
      (up_init cam0, live0) = (u', st')"
    by (cases "fold (rec_step env0) [Recorded (Some chunk0), Served 1 [], Recorded (Some chunk0), PostLost [], Waited]
      (up_init cam0, live0)")
  have "recorded env0 [Recorded (Some chunk0), Served 1 [], Recorded (Some chunk0), PostLost [], Waited] = [chunk0, chunk0]"
    by (simp add: recorded_def env0_simps)
  from recording_in_order [OF live0_accepts(1) _ run this [symmetric]] live0_accepts
  show ?thesis unfolding run by (simp only: env0_simps) auto
qed

definition sending0 :: uploader where
  "sending0 = upload (e_up env0) (Some chunk0) (up_init cam0)"

lemma sending0_state:
  "up_inv sending0" "up_kind sending0 = cam0"
  "pending sending0 = [\<lparr>item_blob = chunk0, attempt = 0, mySeq = 0, lastError = None\<rparr>]"
  "drain_k sending0 = AwaitAttempt \<lparr>item_blob = chunk0, attempt = 0, mySeq = 0, lastError = None\<rparr>"
  by (simp_all add: sending0_def upload_def env0_simps make_room_def drain_def drain_loop_def push_chunk_def up_init_def up_inv_def)

lemma lost_answer_stores_twice_witness:
  "let (u', st') = fold (rec_step env0) [AckLost 1 [], Waited, Served 2 []] (sending0, live0) in
     recording env0 cam0 0 st' = [1, 2, 2] \<and> pending u' = []"
proof -
  obtain u' st' where run: "fold (rec_step env0) [AckLost 1 [], Waited, Served 2 []] (sending0, live0) = (u', st')"
    by (cases "fold (rec_step env0) [AckLost 1 [], Waited, Served 2 []] (sending0, live0)")
  let ?it = "\<lparr>item_blob = chunk0, attempt = 0, mySeq = 0, lastError = None\<rparr>"
  have acc: "takes_chunks env0 sending0 0 live0"
    using live0_accepts(1) by (simp add: takes_chunks_def env0_simps sending0_state token0_ok live0_session)
  have kb: "kind_bytes [55] cam0 live0 = 1"
    using spool_name_of_kind [of cam0 0] by (simp add: kind_bytes_def dir_of_def live0_spool)
  have q: "seq_ok (e_conf env0) (nat_str (mySeq ?it)) 0"
    using seq0 by (simp add: env0_simps nat_str_def digits_rev.simps [of 0])
  have len: "length [2 :: 8 word] \<le> MAX_CHUNK_BYTES"
    "kind_bytes (num_str (up_sid (e_up env0))) (up_kind sending0) live0 + 2 * length [2 :: 8 word] \<le> MAX_SESSION_BYTES"
    by (simp_all add: env0_simps sending0_state kb MAX_CHUNK_BYTES_def MAX_SESSION_BYTES_def)
  have body: "[2] = e_bytes env0 (item_blob ?it)" by (simp add: env0_simps)
  from lost_answer_stores_twice [OF sending0_state(1,4,3) _ acc q body _ len run] live0_accepts
  show ?thesis unfolding run Let_def by (simp add: sending0_state)
qed

end
