(* ===== verification/JudgeExec.thy ===== *)
theory JudgeExec
  imports Complex_Main JSPrelude "HOL-Library.AList"
begin

text \<open>
  Running a judge plan: the loop of the scheduler (\<open>src/scheduler2/plan/execute.py\<close>, from
  \<open>remove_skipped_testpoints_from_task\<close> to \<open>synthesize_scores\<close>) and the order in which
  a runner judges the test points of one task (\<open>src/judger2/task.py\<close>).

  Texts are lists of code units as everywhere. What a test point is judged with (its input, limits and
  checker) plays no role in the loop and is the type parameter of a point. Scores are rational numbers;
  the rounding of floats is left out. \<open>None\<close> as a state stands for an exception that leaves
  the loop.
\<close>

section \<open>Results\<close>

datatype result_type =
    Accepted | CompileError | WrongAnswer | RuntimeError | TimeLimitExceeded | MemoryLimitExceeded
  | DiskLimitExceeded | MemoryLeak | SystemError | BadProblem | Skipped | Void | AbortedResult | Judging
  | Pending | UnknownError

record usage =
  us_time :: int
  us_memory :: int
  us_count :: int
  us_size :: int

text \<open>\<open>TestpointJudgeResult\<close>.\<close>

record verdict =
  vd_id :: jstr
  vd_result :: result_type
  vd_message :: jstr
  vd_score :: rat
  vd_usage :: "usage option"

definition plain_result :: "jstr \<Rightarrow> result_type \<Rightarrow> jstr \<Rightarrow> verdict" where
  "plain_result name res message =
    \<lparr>vd_id = name, vd_result = res, vd_message = message, vd_score = 0, vd_usage = None\<rparr>"

definition skipped_result :: "jstr \<Rightarrow> jstr \<Rightarrow> verdict" where
  "skipped_result name message = plain_result name Skipped message"

definition failed_message :: "jstr \<Rightarrow> jstr" where
  "failed_message d = js ''testpoint '' @ d @ js '' failed''"

section \<open>Tasks\<close>

text \<open>
  \<open>dependent_on\<close>: nothing, the name of a test point, or the mark
  \<open>DependencyNotSatisfied\<close> of a point that is about to be removed.
\<close>

datatype dep = NoDep | Dep jstr | Unsatisfied

record 'a point =
  pt_id :: jstr
  pt_dep :: dep
  pt_work :: 'a

text \<open>
  \<open>JudgeTaskRecord\<close>: the points that are left of the task, the names of all points of its plan,
  the tasks that depend on it, and its result.
\<close>

record 'a task_rec =
  tr_points :: "'a point list"
  tr_plan :: "jstr list"
  tr_dependents :: "nat list"
  tr_result :: "verdict option list option"

type_synonym result_map = "(jstr \<times> verdict) list"

text \<open>\<open>running\<close> are the tasks under way; a task that was started twice is there twice.\<close>

record 'a exec =
  recs :: "'a task_rec list"
  results :: result_map
  running :: "nat list"

definition dependencies_satisfied :: "'a task_rec \<Rightarrow> bool" where
  "dependencies_satisfied r \<longleftrightarrow>
    list_all (\<lambda>t. case pt_dep t of Dep d \<Rightarrow> d \<in> pt_id ` set (tr_points r) | _ \<Rightarrow> True) (tr_points r)"

section \<open>Skipping\<close>

text \<open>
  One pass over the points of a task: a point that depends on an accepted point is freed, one that
  depends on an unaccepted point is marked, gets its result and is unaccepted from then on. The
  result is the points as they are then, those marked, and the unaccepted names and results.
\<close>

definition mark1 :: "jstr list \<Rightarrow> 'a point \<Rightarrow> jstr list \<times> result_map
    \<Rightarrow> ('a point \<times> 'a point list) \<times> jstr list \<times> result_map" where
  "mark1 acc t ur =
    (case pt_dep t of
       Dep d \<Rightarrow>
         if d \<in> set acc then ((t\<lparr>pt_dep := NoDep\<rparr>, []), ur)
         else if d \<in> set (fst ur) then
           ((t\<lparr>pt_dep := Unsatisfied\<rparr>, [t\<lparr>pt_dep := Unsatisfied\<rparr>]), fst ur @ [pt_id t],
            AList.update (pt_id t) (skipped_result (pt_id t) (failed_message d)) (snd ur))
         else ((t, []), ur)
     | _ \<Rightarrow> ((t, []), ur))"

fun mark :: "jstr list \<Rightarrow> 'a point list \<Rightarrow> jstr list \<times> result_map
    \<Rightarrow> ('a point list \<times> 'a point list) \<times> jstr list \<times> result_map" where
  "mark acc [] ur = (([], []), ur)"
| "mark acc (t # ts) ur =
    (let ((t', rm1), ur1) = mark1 acc t ur; ((ps, rm), ur') = mark acc ts ur1
     in ((t' # ps, rm1 @ rm), ur'))"

text \<open>
  \<open>remove_skipped_testpoints_from_task\<close>. The stack holds the calls that are active: the
  dependents still to visit, and the accepted and unaccepted points of the call. The \<open>while\<close>
  loop of the code runs its body once, as nothing in it sets its flag again.
\<close>

type_synonym frame = "nat list \<times> jstr list \<times> jstr list"

definition points_left :: "'a task_rec list \<Rightarrow> nat" where
  "points_left rs = sum_list (map (\<lambda>r. length (tr_points r)) rs)"

definition cut_task :: "nat \<Rightarrow> jstr list \<Rightarrow> jstr list \<Rightarrow> 'a task_rec list \<times> result_map
    \<Rightarrow> ('a task_rec list \<times> result_map) \<times> 'a point list \<times> jstr list" where
  "cut_task d acc un s =
    (let ((ps, rm), un', res') = mark acc (tr_points (fst s ! d)) (un, snd s)
     in (((fst s)[d := (fst s ! d)\<lparr>tr_points := filter (\<lambda>t. t \<notin> set rm) ps\<rparr>], res'), rm, un'))"

lemma mark_Cons:
  assumes "mark acc (t # ts) ur = ((ps, rm), ur')"
  obtains t' rm1 ur1 ps1 rm2 where "mark1 acc t ur = ((t', rm1), ur1)" "mark acc ts ur1 = ((ps1, rm2), ur')"
    "ps = t' # ps1" "rm = rm1 @ rm2"
  using assms by (auto simp: Let_def split: prod.splits)

lemma mark1_cases:
  obtains (freed) d where "pt_dep t = Dep d" "d \<in> set acc" "mark1 acc t ur = ((t\<lparr>pt_dep := NoDep\<rparr>, []), ur)"
    | (marked) d where "pt_dep t = Dep d" "d \<notin> set acc" "d \<in> set (fst ur)"
        "mark1 acc t ur = ((t\<lparr>pt_dep := Unsatisfied\<rparr>, [t\<lparr>pt_dep := Unsatisfied\<rparr>]), fst ur @ [pt_id t],
          AList.update (pt_id t) (skipped_result (pt_id t) (failed_message d)) (snd ur))"
    | (kept) "mark1 acc t ur = ((t, []), ur)" "\<And>d. pt_dep t = Dep d \<Longrightarrow> d \<notin> set acc \<and> d \<notin> set (fst ur)"
proof (cases "pt_dep t")
  case (Dep d)
  then show ?thesis
    using freed [of d] marked [of d] kept
    by (cases "d \<in> set acc"; cases "d \<in> set (fst ur)") (simp_all add: mark1_def)
qed (use kept in \<open>simp_all add: mark1_def\<close>)

lemma mark_lengths:
  "mark acc ts ur = ((ps, rm), ur') \<Longrightarrow> length ps = length ts \<and> set rm \<subseteq> set ps"
proof (induction ts arbitrary: ur ps rm)
  case (Cons t ts)
  from Cons.prems obtain t' rm1 ur1 ps1 rm2 where m: "mark1 acc t ur = ((t', rm1), ur1)"
      "mark acc ts ur1 = ((ps1, rm2), ur')" "ps = t' # ps1" "rm = rm1 @ rm2"
    by (rule mark_Cons)
  have "set rm1 \<subseteq> {t'}"
    by (rule mark1_cases [of t acc ur]) (use m(1) in auto)
  then show ?case using m Cons.IH [OF m(2)] by auto
qed simp

lemma points_left_update:
  "d < length rs \<Longrightarrow> points_left (rs[d := r]) + length (tr_points (rs ! d)) = points_left rs + length (tr_points r)"
  by (induction rs arbitrary: d) (auto simp: points_left_def nth_Cons split: nat.split)

lemma cut_left:
  assumes "cut_task d acc un s = (s', rm, un')" "d < length (fst s)"
  shows "points_left (fst s') \<le> points_left (fst s)" "rm \<noteq> [] \<Longrightarrow> points_left (fst s') < points_left (fst s)"
proof -
  obtain ps res' where m: "mark acc (tr_points (fst s ! d)) (un, snd s) = ((ps, rm), un', res')"
    and s': "fst s' = (fst s)[d := (fst s ! d)\<lparr>tr_points := filter (\<lambda>t. t \<notin> set rm) ps\<rparr>]"
    using assms(1) by (auto simp: cut_task_def Let_def split: prod.splits)
  note len = mark_lengths [OF m]
  have le: "length (filter (\<lambda>t. t \<notin> set rm) ps) \<le> length (tr_points (fst s ! d))"
    using len by (metis length_filter_le)
  have lt: "length (filter (\<lambda>t. t \<notin> set rm) ps) < length (tr_points (fst s ! d))" if "rm \<noteq> []"
  proof -
    have "last rm \<in> set rm" using that by simp
    then show ?thesis using len length_filter_less [of "last rm" ps "\<lambda>t. t \<notin> set rm"] by auto
  qed
  note upd = points_left_update [OF assms(2), of "(fst s ! d)\<lparr>tr_points := filter (\<lambda>t. t \<notin> set rm) ps\<rparr>"]
  show "points_left (fst s') \<le> points_left (fst s)" using upd le by (simp add: s')
  show "rm \<noteq> [] \<Longrightarrow> points_left (fst s') < points_left (fst s)" using upd lt by (simp add: s')
qed

function cascade :: "frame list \<Rightarrow> 'a task_rec list \<times> result_map \<Rightarrow> ('a task_rec list \<times> result_map) option" where
  "cascade [] s = Some s"
| "cascade (([], acc, un) # st) s = cascade st s"
| "cascade ((d # ds, acc, un) # st) s =
    (if d \<ge> length (fst s) then None
     else case cut_task d acc un s of
       (s', rm, un') \<Rightarrow>
         if rm \<noteq> [] then cascade ((tr_dependents (fst s ! d), [], map pt_id rm) # (ds, acc, un') # st) s'
         else cascade ((ds, acc, un') # st) s')"
  by pat_completeness auto
termination
proof (relation "measures [\<lambda>(st, s). points_left (fst s), \<lambda>(st, s). sum_list (map (\<lambda>f. Suc (length (fst f))) st)]",
    simp_all, goal_cases)
  case (1 d acc un s s' y rm un')
  then have "cut_task d acc un s = (s', rm, un')" "d < length (fst s)" by simp_all
  from cut_left(2) [OF this 1(4)] show ?case .
next
  case (2 d acc un s s' y rm un')
  then have "cut_task d acc un s = (s', [], un')" "d < length (fst s)" by simp_all
  from cut_left(1) [OF this] show ?case by linarith
qed

section \<open>The loop\<close>

text \<open>
  How a task ends: with the runner's results, which lack those of points the runner did not get to
  when it was stopped, or with the exception of \<open>run_task\<close>.
\<close>

datatype outcome = Finished "verdict option list" | Failed jstr

definition outcome_results :: "outcome \<Rightarrow> 'a task_rec \<Rightarrow> verdict option list" where
  "outcome_results o1 r =
    (case o1 of Finished vs \<Rightarrow> vs | Failed m \<Rightarrow> map (\<lambda>i. Some (plain_result i SystemError m)) (tr_plan r))"

definition put_result :: "verdict option \<Rightarrow> result_map \<Rightarrow> result_map" where
  "put_result v m = (case v of None \<Rightarrow> m | Some x \<Rightarrow> AList.update (vd_id x) x m)"

definition fill_skipped :: "'a point \<Rightarrow> result_map \<Rightarrow> result_map" where
  "fill_skipped t m =
    (if map_of m (pt_id t) = None
     then AList.update (pt_id t) (skipped_result (pt_id t) (js ''Skipped'')) m else m)"

text \<open>A point is accepted when exactly one result bears its name and that one is accepted.\<close>

definition accepted_in :: "verdict option list \<Rightarrow> jstr \<Rightarrow> bool" where
  "accepted_in vs i \<longleftrightarrow>
    (case filter (\<lambda>v. vd_id v = i) (map the vs) of [v] \<Rightarrow> vd_result v = Accepted | _ \<Rightarrow> False)"

text \<open>
  What the loop does with one task that is done. A result that is missing has no \<open>id\<close>, so that
  looking for a point's result raises.
\<close>

definition complete_one :: "nat \<times> outcome \<Rightarrow> 'a exec \<Rightarrow> 'a exec option" where
  "complete_one io s =
    (let i = fst io; r = recs s ! i; vs = outcome_results (snd io) r;
         res = fold fill_skipped (tr_points r) (fold put_result vs (results s));
         ids = map pt_id (tr_points r)
     in if None \<in> set vs \<and> ids \<noteq> [] then None
        else case cascade [(tr_dependents r, filter (accepted_in vs) ids, filter (\<lambda>x. \<not> accepted_in vs x) ids)]
            ((recs s)[i := r\<lparr>tr_result := Some vs\<rparr>], res) of
          None \<Rightarrow> None
        | Some (rs, res') \<Rightarrow> Some (s\<lparr>recs := rs, results := res'\<rparr>))"

fun complete_all :: "(nat \<times> outcome) list \<Rightarrow> 'a exec \<Rightarrow> 'a exec option" where
  "complete_all [] s = Some s"
| "complete_all (d # ds) s = (case complete_one d s of None \<Rightarrow> None | Some s' \<Rightarrow> complete_all ds s')"

text \<open>The tasks that are started: those among \<open>is\<close> that are ready and have points left.\<close>

definition startable :: "'a task_rec list \<Rightarrow> nat list \<Rightarrow> nat list" where
  "startable rs is = filter (\<lambda>i. tr_points (rs ! i) \<noteq> [] \<and> dependencies_satisfied (rs ! i)) is"

definition begin_run :: "'a task_rec list \<Rightarrow> 'a exec" where
  "begin_run rs = \<lparr>recs = rs, results = [], running = startable rs [0..<length rs]\<rparr>"

text \<open>
  What happens while tasks run: a runner starts one, reports on one, or some are done (in the order
  in which the loop takes them from the set of done tasks). A report replaces no final result.
\<close>

datatype exec_op =
    Started nat
  | Progress nat "verdict option list"
  | Done "(nat \<times> outcome) list"

definition start_result :: "'a point \<Rightarrow> result_map \<Rightarrow> result_map" where
  "start_result t m =
    (if map_of m (pt_id t) = None
     then AList.update (pt_id t) (plain_result (pt_id t) Judging (js ''Judging'')) m else m)"

definition progress_result :: "verdict option \<Rightarrow> result_map \<Rightarrow> result_map" where
  "progress_result v m =
    (case v of
       None \<Rightarrow> m
     | Some x \<Rightarrow>
         (case map_of m (vd_id x) of
            None \<Rightarrow> AList.update (vd_id x) x m
          | Some y \<Rightarrow> if vd_result y \<in> {Pending, Judging} then AList.update (vd_id x) x m else m))"

fun exec_step :: "exec_op \<Rightarrow> 'a exec \<Rightarrow> 'a exec option" where
  "exec_step (Started i) s = Some (s\<lparr>results := fold start_result (tr_points (recs s ! i)) (results s)\<rparr>)"
| "exec_step (Progress i vs) s = Some (s\<lparr>results := fold progress_result vs (results s)\<rparr>)"
| "exec_step (Done ds) s =
    (case complete_all ds s of
       None \<Rightarrow> None
     | Some s' \<Rightarrow>
         (let next = remdups (concat (map (\<lambda>d. tr_dependents (recs s ! fst d)) ds))
          in Some (s'\<lparr>running := fold (\<lambda>d. remove1 (fst d)) ds (running s) @ startable (recs s') next\<rparr>)))"

fun exec_run :: "exec_op list \<Rightarrow> 'a exec \<Rightarrow> 'a exec option" where
  "exec_run [] s = Some s"
| "exec_run (op # ops) s = (case exec_step op s of None \<Rightarrow> None | Some s' \<Rightarrow> exec_run ops s')"

section \<open>The runner\<close>

text \<open>
  \<open>judge_task\<close> of the runner, without being stopped: the points in order, each unless the one
  it depends on failed. \<open>v\<close> is what compiling, running and checking a point gives.
\<close>

definition judge_testpoint :: "('a point \<Rightarrow> verdict) \<Rightarrow> 'a point \<Rightarrow> verdict list \<Rightarrow> verdict" where
  "judge_testpoint v t done =
    (let error = (\<lambda>m. plain_result (pt_id t) SystemError m);
         check = (\<lambda>d. case filter (\<lambda>r. vd_id r = d) done of
             [] \<Rightarrow> error (js ''system error: testpoint '' @ pt_id t @ js '' ran before dependency '' @ d)
           | [r] \<Rightarrow> if vd_result r \<noteq> Accepted then skipped_result (pt_id t) (failed_message d) else v t
           | _ \<Rightarrow> error (js ''system error: testpoint '' @ d @ js '' has multiple results''))
     in case pt_dep t of NoDep \<Rightarrow> v t | Dep d \<Rightarrow> check d | Unsatisfied \<Rightarrow> check [])"

fun judge_task :: "('a point \<Rightarrow> verdict) \<Rightarrow> 'a point list \<Rightarrow> verdict list \<Rightarrow> verdict list" where
  "judge_task v [] done = done"
| "judge_task v (t # ts) done = judge_task v ts (done @ [judge_testpoint v t done])"

section \<open>Scores\<close>

definition synthesize_results :: "result_type list \<Rightarrow> result_type" where
  "synthesize_results rs =
    (if SystemError \<in> set rs then SystemError
     else if BadProblem \<in> set rs then BadProblem
     else case find (\<lambda>r. r \<noteq> Accepted) rs of None \<Rightarrow> Accepted | Some r \<Rightarrow> r)"

definition synthesize_rusage :: "usage list \<Rightarrow> usage" where
  "synthesize_rusage us =
    \<lparr>us_time = sum_list (map us_time us),
     us_memory = (if us = [] then -1 else Max (us_memory ` set us)),
     us_count = (if us = [] then -1 else Max (us_count ` set us)),
     us_size = (if us = [] then -1 else Max (us_size ` set us))\<rparr>"

record group =
  gp_id :: jstr
  gp_name :: jval
  gp_points :: "jstr list"
  gp_score :: rat

record group_result =
  gj_id :: jstr
  gj_name :: jval
  gj_result :: result_type
  gj_points :: "verdict list"
  gj_score :: rat

record problem_result =
  pr_result :: result_type
  pr_message :: "jstr option"
  pr_score :: rat
  pr_usage :: "usage option"
  pr_groups :: "group_result list"

text \<open>
  The ways in which the scores are put together, and the errors: a point without a result, and the
  minimum over a group without points.
\<close>

datatype phase = Final | AbortedRun | InProgress

datatype exec_error = LoopDetected | EmptyGroup

definition fallback_result :: "phase \<Rightarrow> jstr \<Rightarrow> verdict option" where
  "fallback_result ph i =
    (case ph of
       Final \<Rightarrow> None
     | AbortedRun \<Rightarrow> Some (plain_result i AbortedResult (js ''Aborted''))
     | InProgress \<Rightarrow> Some (plain_result i Pending (js ''Pending'')))"

definition group_verdict :: "phase \<Rightarrow> result_map \<Rightarrow> jstr \<Rightarrow> verdict option" where
  "group_verdict ph m i =
    (case map_of m i of
       None \<Rightarrow> fallback_result ph i
     | Some v \<Rightarrow>
         if ph = AbortedRun \<and> vd_result v \<in> {Judging, Pending}
         then Some (plain_result (vd_id v) AbortedResult (js ''Aborted'')) else Some v)"

definition get_group_result :: "phase \<Rightarrow> result_map \<Rightarrow> group \<Rightarrow> exec_error + group_result" where
  "get_group_result ph m g =
    (let vs = map (group_verdict ph m) (gp_points g) in
     if None \<in> set vs then Inl LoopDetected
     else if vs = [] then Inl EmptyGroup
     else let ws = map the vs in
       Inr \<lparr>gj_id = gp_id g, gj_name = gp_name g, gj_result = synthesize_results (map vd_result ws),
            gj_points = ws, gj_score = Min (vd_score ` set ws) * gp_score g\<rparr>)"

fun all_groups :: "phase \<Rightarrow> result_map \<Rightarrow> group list \<Rightarrow> exec_error + group_result list" where
  "all_groups ph m [] = Inr []"
| "all_groups ph m (g # gs) =
    (case get_group_result ph m g of
       Inl e \<Rightarrow> Inl e
     | Inr r \<Rightarrow> (case all_groups ph m gs of Inl e \<Rightarrow> Inl e | Inr rs \<Rightarrow> Inr (r # rs)))"

definition synthesize_scores :: "phase \<Rightarrow> jstr option \<Rightarrow> result_map \<Rightarrow> group list \<Rightarrow> exec_error + problem_result" where
  "synthesize_scores ph compile_message m gs =
    (case all_groups ph m gs of
       Inl e \<Rightarrow> Inl e
     | Inr rs \<Rightarrow>
         Inr \<lparr>pr_result = (case ph of Final \<Rightarrow> synthesize_results (map gj_result rs) | AbortedRun \<Rightarrow> AbortedResult
                | InProgress \<Rightarrow> Judging),
              pr_message = (if compile_message = Some [] then None else compile_message),
              pr_score = (if ph = Final then sum_list (map gj_score rs) else 0),
              pr_usage = Some (synthesize_rusage (List.map_filter (\<lambda>p. vd_usage (snd p)) m)),
              pr_groups = rs\<rparr>)"

end
