(* ===== verification/JudgePlan.thy ===== *)
theory JudgePlan
  imports JudgeExec
begin

text \<open>
  From the configuration of a problem to its judge plan: \<open>src/scheduler2/plan/generate.py\<close>
  with the types of \<open>src/scheduler2/problem_typing.py\<close> and
  \<open>src/commons/task_typing.py\<close>, and what is read off a plan
  (\<open>languages.py\<close>, \<open>summary.py\<close>).

  The values of the configuration are JSON values as \<open>json.load\<close> gives them: a
  dictionary is an association list with different keys, and numbers are the integers. Python checks
  no types when a dataclass is built from a dictionary, so that most fields stay JSON values. The files
  of the problem's archive are parameters, as are \<open>repr\<close> of a list or dictionary, reading a
  number from a text, and what the runner says of a compilation. Signing a URL and copying files to the
  object store are left out.
\<close>

section \<open>Python's view of JSON values\<close>

text \<open>\<open>InvalidProblemException\<close>, and every other exception.\<close>

datatype plan_error = Invalid | Crashed

type_synonym 'a result = "plan_error + 'a"

definition and_then :: "'a result \<Rightarrow> ('a \<Rightarrow> 'b result) \<Rightarrow> 'b result" where
  "and_then r f = (case r of Inl e \<Rightarrow> Inl e | Inr x \<Rightarrow> f x)"

fun traverse :: "('a \<Rightarrow> 's \<Rightarrow> ('b \<times> 's) result) \<Rightarrow> 'a list \<Rightarrow> 's \<Rightarrow> ('b list \<times> 's) result" where
  "traverse f [] s = Inr ([], s)"
| "traverse f (x # xs) s =
    and_then (f x s) (\<lambda>ys. and_then (traverse f xs (snd ys)) (\<lambda>zs. Inr (fst ys # fst zs, snd zs)))"

definition require :: "plan_error \<Rightarrow> 'a option \<Rightarrow> 'a result" where
  "require e v = (case v of None \<Rightarrow> Inl e | Some x \<Rightarrow> Inr x)"

text \<open>A JSON value as an integer: truth values are integers.\<close>

fun int_of :: "jval \<Rightarrow> int option" where
  "int_of (JNum n) = Some n"
| "int_of (JBool b) = Some (if b then 1 else 0)"
| "int_of _ = None"

text \<open>\<open>str\<close>, with \<open>repr\<close> of lists and dictionaries.\<close>

fun py_str :: "(jval \<Rightarrow> jstr) \<Rightarrow> jval \<Rightarrow> jstr" where
  "py_str R JNull = js ''None''"
| "py_str R (JBool b) = (if b then js ''True'' else js ''False'')"
| "py_str R (JNum n) = num_str n"
| "py_str R (JStr s) = s"
| "py_str R v = R v"

text \<open>The items a \<open>for\<close> loop meets.\<close>

fun py_iter :: "jval \<Rightarrow> jval list option" where
  "py_iter (JArr xs) = Some xs"
| "py_iter (JObj kvs) = Some (map (\<lambda>p. JStr (fst p)) kvs)"
| "py_iter (JStr s) = Some (map (\<lambda>c. JStr [c]) s)"
| "py_iter _ = None"

text \<open>
  \<open>C(**x)\<close> for a dataclass with the given fields, of which some have no default: the
  dictionary, or \<open>TypeError\<close>.
\<close>

definition construct :: "jstr list \<Rightarrow> jstr list \<Rightarrow> jval \<Rightarrow> (jstr \<times> jval) list option" where
  "construct fs needed x =
    (case x of
       JObj kvs \<Rightarrow>
         if set (map fst kvs) \<subseteq> set fs \<and> set needed \<subseteq> set (map fst kvs) then Some kvs else None
     | _ \<Rightarrow> None)"

definition field_or :: "jval \<Rightarrow> string \<Rightarrow> (jstr \<times> jval) list \<Rightarrow> jval" where
  "field_or d k kvs = (case map_of kvs (js k) of None \<Rightarrow> d | Some v \<Rightarrow> v)"

section \<open>The configuration\<close>

record program =
  sp_Type :: jstr
  sp_Path :: jstr

record stages =
  sg_Compile :: jstr
  sg_Run :: jstr
  sg_Interactor :: "program option"
  sg_Check :: jstr
  sg_IgnoreWhitespace :: bool
  sg_Checker :: "program option"

record test_conf =
  tc_ID :: jval
  tc_Dependency :: jval
  tc_TimeLimit :: jval
  tc_MemoryLimit :: jval
  tc_DiskLimit :: jval
  tc_FileNumberLimit :: jval
  tc_ValgrindTestOn :: jval

record group_conf =
  gc_GroupID :: jval
  gc_GroupScore :: jval
  gc_TestPoints :: jval
  gc_GroupName :: jval

record quiz_problem =
  qz_id :: jval
  qz_type :: jval
  qz_title :: jval
  qz_answer :: jval
  qz_options :: "(jval \<times> jval) list option"

record problem_config =
  pc_Details :: "test_conf list"
  pc_Groups :: "group_conf list"
  pc_SPJ :: stages
  pc_CompileTimeLimit :: jval
  pc_Scorer :: jval
  pc_SupportedFiles :: jval
  pc_Verilog :: jval
  pc_RunnerGroup :: jval

text \<open>The archive of a problem and its surroundings.\<close>

record problem_zip =
  pz_problem :: jstr
  pz_names :: "jstr list"
  pz_config :: "jval option"
  pz_quiz :: "jval option"
  pz_repr :: "jval \<Rightarrow> jstr"
  pz_float :: "jstr \<Rightarrow> rat option"
  pz_compiles :: "jstr \<Rightarrow> bool"

definition test_conf_of :: "jval \<Rightarrow> test_conf option" where
  "test_conf_of x =
    map_option (\<lambda>kvs.
      \<lparr>tc_ID = field_or JNull ''ID'' kvs, tc_Dependency = field_or JNull ''Dependency'' kvs,
       tc_TimeLimit = field_or JNull ''TimeLimit'' kvs, tc_MemoryLimit = field_or JNull ''MemoryLimit'' kvs,
       tc_DiskLimit = field_or JNull ''DiskLimit'' kvs, tc_FileNumberLimit = field_or JNull ''FileNumberLimit'' kvs,
       tc_ValgrindTestOn = field_or (JBool False) ''ValgrindTestOn'' kvs\<rparr>)
    (construct (map js [''ID'', ''Dependency'', ''TimeLimit'', ''MemoryLimit'', ''DiskLimit'', ''FileNumberLimit'',
       ''ValgrindTestOn'']) [js ''ID''] x)"

definition group_conf_of :: "jval \<Rightarrow> group_conf option" where
  "group_conf_of x =
    map_option (\<lambda>kvs.
      \<lparr>gc_GroupID = field_or JNull ''GroupID'' kvs, gc_GroupScore = field_or JNull ''GroupScore'' kvs,
       gc_TestPoints = field_or JNull ''TestPoints'' kvs, gc_GroupName = field_or JNull ''GroupName'' kvs\<rparr>)
    (construct (map js [''GroupID'', ''GroupScore'', ''TestPoints'', ''GroupName''])
       (map js [''GroupID'', ''GroupScore'', ''TestPoints'']) x)"

text \<open>A list of dictionaries, all of which have to build.\<close>

definition all_of :: "(jval \<Rightarrow> 'a option) \<Rightarrow> jval \<Rightarrow> 'a list option" where
  "all_of f v =
    (case py_iter v of
       None \<Rightarrow> None
     | Some xs \<Rightarrow> if list_all (\<lambda>x. f x \<noteq> None) xs then Some (map (\<lambda>x. the (f x)) xs) else None)"

definition quiz_option_of :: "jval \<Rightarrow> (jval \<times> jval) option" where
  "quiz_option_of x =
    map_option (\<lambda>kvs. (field_or JNull ''value'' kvs, field_or JNull ''text'' kvs))
      (construct (map js [''value'', ''text'']) (map js [''value'', ''text'']) x)"

definition quiz_problem_of :: "jval \<Rightarrow> quiz_problem option" where
  "quiz_problem_of x =
    Option.bind (construct (map js [''id'', ''type'', ''title'', ''answer'', ''options'']) (map js [''id'', ''type'', ''title'']) x)
      (\<lambda>kvs. map_option (\<lambda>os.
          \<lparr>qz_id = field_or JNull ''id'' kvs, qz_type = field_or JNull ''type'' kvs, qz_title = field_or JNull ''title'' kvs,
           qz_answer = field_or JNull ''answer'' kvs, qz_options = os\<rparr>)
        (case map_of kvs (js ''options'') of
           None \<Rightarrow> Some None
         | Some v \<Rightarrow> map_option Some (all_of quiz_option_of v)))"

section \<open>Stages\<close>

text \<open>
  \<open>dataclass_from_json\<close> at the types the stages have. An optional program is a union whose
  second alternative is the type of \<open>None\<close>, which the function does not know: a null is
  refused.
\<close>

definition literal :: "string list \<Rightarrow> jval \<Rightarrow> jstr option" where
  "literal ts v = (case v of JStr s \<Rightarrow> if s \<in> js ` set ts then Some s else None | _ \<Rightarrow> None)"

definition program_of :: "(jval \<Rightarrow> jstr) \<Rightarrow> jval \<Rightarrow> program option" where
  "program_of R v =
    Option.bind (construct (map js [''Type'', ''Path'']) (map js [''Type'', ''Path'']) v)
      (\<lambda>kvs. map_option (\<lambda>t. \<lparr>sp_Type = t, sp_Path = py_str R (field_or JNull ''Path'' kvs)\<rparr>)
         (literal [''cpp'', ''binary''] (field_or JNull ''Type'' kvs)))"

definition optional_program :: "(jval \<Rightarrow> jstr) \<Rightarrow> string \<Rightarrow> (jstr \<times> jval) list \<Rightarrow> program option option" where
  "optional_program R k kvs =
    (case map_of kvs (js k) of None \<Rightarrow> Some None | Some v \<Rightarrow> map_option Some (program_of R v))"

text \<open>A stage: the name of its type, or a dictionary with further fields; absent, a default type.\<close>

definition stage_fields :: "string \<Rightarrow> string \<Rightarrow> string list \<Rightarrow> string list \<Rightarrow> (jstr \<times> jval) list
    \<Rightarrow> (jstr \<times> (jstr \<times> jval) list) option" where
  "stage_fields k dflt ts others kvs =
    (case map_of kvs (js k) of
       None \<Rightarrow> Some (js dflt, [])
     | Some v \<Rightarrow>
         (case literal ts v of
            Some t \<Rightarrow> Some (t, [])
          | None \<Rightarrow>
              Option.bind (construct (map js (''Type'' # others)) [js ''Type''] v)
                (\<lambda>fs. map_option (\<lambda>t. (t, fs)) (literal ts (field_or JNull ''Type'' fs)))))"

definition stages_of :: "(jval \<Rightarrow> jstr) \<Rightarrow> (jstr \<times> jval) list \<Rightarrow> stages option" where
  "stages_of R kvs =
    (if \<not> set (map fst kvs) \<subseteq> set (map js [''Compile'', ''Run'', ''Check'']) then None
     else Option.bind (stage_fields ''Compile'' ''classic'' [''skip'', ''classic'', ''hpp''] [] kvs) (\<lambda>c.
       Option.bind (stage_fields ''Run'' ''classic'' [''skip'', ''classic'', ''verilog'', ''interactive''] [''Interactor''] kvs) (\<lambda>r.
       Option.bind (stage_fields ''Check'' ''compare'' [''skip'', ''compare'', ''custom'']
           [''IgnoreInsignificantWhitespace'', ''Checker''] kvs) (\<lambda>k.
       Option.bind (optional_program R ''Interactor'' (snd r)) (\<lambda>i.
       map_option (\<lambda>p. \<lparr>sg_Compile = fst c, sg_Run = fst r, sg_Interactor = i, sg_Check = fst k,
           sg_IgnoreWhitespace = py_truthy (field_or (JBool True) ''IgnoreInsignificantWhitespace'' (snd k)), sg_Checker = p\<rparr>)
         (optional_program R ''Checker'' (snd k)))))))"

definition plain_stages :: "string \<Rightarrow> string \<Rightarrow> string \<Rightarrow> stages" where
  "plain_stages c r k = \<lparr>sg_Compile = js c, sg_Run = js r, sg_Interactor = None, sg_Check = js k,
     sg_IgnoreWhitespace = True, sg_Checker = None\<rparr>"

text \<open>\<open>spj_config_from_numeric\<close>.\<close>

definition numeric_stages :: "int \<Rightarrow> stages option" where
  "numeric_stages n =
    (if n = 0 then Some (plain_stages ''classic'' ''classic'' ''compare'')
     else if n = 1 then Some (plain_stages ''classic'' ''classic'' ''custom'')
     else if n = 2 then Some (plain_stages ''hpp'' ''classic'' ''skip'')
     else if n = 3 then Some (plain_stages ''hpp'' ''classic'' ''compare'')
     else if n = 4 then Some (plain_stages ''hpp'' ''classic'' ''custom'')
     else if n = 5 then Some (plain_stages ''skip'' ''skip'' ''custom'')
     else None)"

definition desugar_spj_config :: "(jval \<Rightarrow> jstr) \<Rightarrow> jval \<Rightarrow> stages option" where
  "desugar_spj_config R cfg =
    (case int_of cfg of
       Some n \<Rightarrow> numeric_stages n
     | None \<Rightarrow> (case cfg of JObj kvs \<Rightarrow> stages_of R kvs | _ \<Rightarrow> None))"

section \<open>Loading\<close>

definition load_quiz :: "problem_zip \<Rightarrow> (jstr \<times> jval) list \<Rightarrow> quiz_problem list option result" where
  "load_quiz z kvs =
    (if \<not> py_truthy (field_or JNull ''Quiz'' kvs) then Inr None
     else case pz_quiz z of
       Some (JObj qs) \<Rightarrow>
         map_sum id Some (require Invalid (Option.bind (map_of qs (js ''problems'')) (all_of quiz_problem_of)))
     | _ \<Rightarrow> Inl Invalid)"

definition config_fields :: "jstr list" where
  "config_fields = map js [''Details'', ''Groups'', ''SPJ'', ''CompileTimeLimit'', ''Scorer'', ''SupportedFiles'',
     ''Verilog'', ''Quiz'', ''RunnerGroup'']"

definition load_config :: "problem_zip \<Rightarrow> (problem_config \<times> quiz_problem list option) result" where
  "load_config z =
    (case pz_config z of
       Some (JObj kvs) \<Rightarrow>
         and_then (require Invalid (Option.bind (map_of kvs (js ''Groups'')) (all_of group_conf_of))) (\<lambda>gs.
         and_then (require Invalid (Option.bind (map_of kvs (js ''Details'')) (all_of test_conf_of))) (\<lambda>ds.
         and_then (load_quiz z kvs) (\<lambda>quiz.
         and_then (require Invalid (desugar_spj_config (pz_repr z) (field_or (JObj []) ''SPJ'' kvs))) (\<lambda>spj.
         if \<not> set (map fst kvs) \<subseteq> set (js ''$schema'' # config_fields) then Inl Invalid
         else if int_of (field_or (JNum 0) ''Scorer'' kvs) \<noteq> Some 0 then Inl Invalid
         else Inr (\<lparr>pc_Details = ds, pc_Groups = gs, pc_SPJ = spj,
              pc_CompileTimeLimit = field_or JNull ''CompileTimeLimit'' kvs, pc_Scorer = field_or (JNum 0) ''Scorer'' kvs,
              pc_SupportedFiles = field_or (JArr []) ''SupportedFiles'' kvs, pc_Verilog = field_or (JBool False) ''Verilog'' kvs,
              pc_RunnerGroup = field_or (JStr (js ''default'')) ''RunnerGroup'' kvs\<rparr>, quiz)))))
     | _ \<Rightarrow> Inl Invalid)"

section \<open>Plans\<close>

record limits =
  lm_time :: jval
  lm_memory :: jval
  lm_count :: jval
  lm_size :: jval

definition default_compile_limits :: limits where
  "default_compile_limits = \<lparr>lm_time = JNum (30 * 1000), lm_memory = JNum (1024 ^ 3), lm_count = JNum (-1), lm_size = JNum (-1)\<rparr>"

definition default_run_limits :: limits where
  "default_run_limits = \<lparr>lm_time = JNum 1000, lm_memory = JNum (512 * 1024 ^ 2), lm_count = JNum (-1), lm_size = JNum 0\<rparr>"

definition default_check_limits :: limits where
  "default_check_limits = \<lparr>lm_time = JNum (10 * 1000), lm_memory = JNum (1024 ^ 3), lm_count = JNum (-1), lm_size = JNum (-1)\<rparr>"

text \<open>A file of the user's submission, or one of the problem.\<close>

datatype problem_file = UserCode "jstr option" | FileUrl jstr

datatype compile_source = UserSource | CppSource jstr | VerilogSource jstr

record compile_plan =
  cp_source :: compile_source
  cp_files :: "problem_file list"
  cp_artifact :: bool
  cp_limits :: limits

text \<open>What a test point runs: the artifact of the submission, or what is compiled for it alone.\<close>

datatype tp_input = SubmittedCode | CompiledFor compile_plan

record run_args =
  ra_type :: jstr
  ra_limits :: limits
  ra_infile :: "jstr option"
  ra_interactor :: "(jstr \<times> limits) option"

datatype checker = CompareChecker bool jstr | DirectChecker | SpjChecker jstr "jstr option" limits

record work =
  wk_input :: tp_input
  wk_run :: "run_args option"
  wk_check :: checker

record task_plan =
  tk_points :: "work point list"
  tk_dependencies :: "nat list"
  tk_dependents :: "nat list"

record judge_plan =
  jp_group :: jval
  jp_compile :: "compile_plan option"
  jp_judge :: "task_plan list"
  jp_score :: "group list"
  jp_quiz :: "quiz_problem list option"

text \<open>
  The parse context: the files to copy to the object store, the compilations of checkers and
  interactors (source, further files, target and limits), and the artifacts by source.
\<close>

record parse_ctx =
  px_files :: "jval list"
  px_tasks :: "(jstr \<times> jstr list \<times> jstr \<times> limits) list"
  px_artifacts :: "(jstr \<times> jstr) list"
  px_supp :: "jstr list"
  px_limits :: limits
  px_per_point :: bool

definition file_key :: "problem_zip \<Rightarrow> jstr \<Rightarrow> jstr" where
  "file_key z f = pz_problem z @ [47] @ f"

definition file_link :: "problem_zip \<Rightarrow> jstr \<Rightarrow> jstr" where
  "file_link z f = js ''s3://'' @ file_key z f"

definition file_url :: "problem_zip \<Rightarrow> jval \<Rightarrow> parse_ctx \<Rightarrow> (jstr \<times> parse_ctx) result" where
  "file_url z f c =
    (case f of
       JArr _ \<Rightarrow> Inl Crashed
     | JObj _ \<Rightarrow> Inl Crashed
     | _ \<Rightarrow> Inr (file_link z (py_str (pz_repr z) f), c\<lparr>px_files := List.insert f (px_files c)\<rparr>))"

definition text_url :: "problem_zip \<Rightarrow> jstr \<Rightarrow> parse_ctx \<Rightarrow> jstr \<times> parse_ctx" where
  "text_url z f c = (file_link z f, c\<lparr>px_files := List.insert (JStr f) (px_files c)\<rparr>)"

text \<open>Every occurrence of a text that is not empty is dropped, from the left.\<close>

function drop_all :: "jstr \<Rightarrow> jstr \<Rightarrow> jstr" where
  "drop_all p s =
    (if s = [] then []
     else if p \<noteq> [] \<and> starts_with p s then drop_all p (drop (length p) s)
     else hd s # drop_all p (tl s))"
  by pat_completeness auto
termination
  by (relation "measure (\<lambda>(p, s). length s)") auto

declare drop_all.simps [simp del]

definition namelist :: "problem_zip \<Rightarrow> jstr list" where
  "namelist z =
    (let p = pz_problem z @ [47] in map (drop_all p) (filter (starts_with p) (pz_names z)))"

section \<open>Compilation\<close>

definition parse_compile :: "problem_zip \<Rightarrow> problem_config \<Rightarrow> parse_ctx \<Rightarrow> (compile_plan option \<times> parse_ctx) result" where
  "parse_compile z cfg c =
    (let lm0 = (if pc_CompileTimeLimit cfg = JNull then default_compile_limits
                else default_compile_limits\<lparr>lm_time := pc_CompileTimeLimit cfg\<rparr>)
     in and_then (require Crashed (py_iter (pc_SupportedFiles cfg))) (\<lambda>fs.
        and_then (traverse (file_url z) fs (c\<lparr>px_limits := lm0\<rparr>)) (\<lambda>uc.
          let urls = fst uc; c1 = (snd uc)\<lparr>px_supp := urls\<rparr>;
              plan = \<lparr>cp_source = UserSource, cp_files = map FileUrl urls, cp_artifact = True, cp_limits = lm0\<rparr>;
              stage = sg_Compile (pc_SPJ cfg)
          in if stage = js ''skip'' then Inr (None, c1)
             else if stage = js ''classic'' then Inr (Some plan, c1)
             else if stage \<noteq> js ''hpp'' then Inl Invalid
             else
               let src = (if py_truthy (pc_Verilog cfg) then js ''answer.v'' else js ''src.hpp'');
                   plan1 = plan\<lparr>cp_files := cp_files plan @ [UserCode (Some src)]\<rparr>
               in if js ''main.cpp'' \<in> set (namelist z)
                  then let (u, c2) = text_url z (js ''main.cpp'') c1 in Inr (Some (plan1\<lparr>cp_source := CppSource u\<rparr>), c2)
                  else Inr (Some (plan1\<lparr>cp_artifact := False\<rparr>), c1\<lparr>px_per_point := True\<rparr>))))"

definition generate_compile_task :: "problem_zip \<Rightarrow> jstr \<Rightarrow> jstr \<Rightarrow> parse_ctx \<Rightarrow> jstr \<times> parse_ctx" where
  "generate_compile_task z source target c =
    (case map_of (px_artifacts c) source of
       Some a \<Rightarrow> (a, c)
     | None \<Rightarrow>
         let (u, c1) = text_url z source c; a = file_link z target
         in (a, c1\<lparr>px_tasks := px_tasks c1 @ [(u, px_supp c1, file_key z target, px_limits c1)],
                   px_artifacts := (source, a) # px_artifacts c1\<rparr>))"

definition artifact_from_spj_program ::
  "problem_zip \<Rightarrow> program option \<Rightarrow> string \<Rightarrow> string \<Rightarrow> string \<Rightarrow> parse_ctx \<Rightarrow> (jstr \<times> parse_ctx) result" where
  "artifact_from_spj_program z cfg binary_name source_name exec_name c =
    (case cfg of
       None \<Rightarrow>
         let has_binary = js binary_name \<in> set (namelist z); has_source = js source_name \<in> set (namelist z)
         in if has_binary \<and> has_source then Inl Invalid
            else if has_binary then Inr (text_url z (js binary_name) c)
            else if has_source then Inr (generate_compile_task z (js source_name) (js exec_name) c)
            else Inl Invalid
     | Some p \<Rightarrow>
         if sp_Type p = js ''binary'' then Inr (text_url z (sp_Path p) c)
         else if sp_Type p = js ''cpp'' then Inr (generate_compile_task z (sp_Path p) (js exec_name) c)
         else Inl Invalid)"

section \<open>Test points\<close>

definition or_default :: "jval \<Rightarrow> jval \<Rightarrow> jval" where
  "or_default v d = (if v = JNull then d else v)"

text \<open>The limits of a run. The absolute value of what is no number raises.\<close>

definition run_limits :: "test_conf \<Rightarrow> limits result" where
  "run_limits conf =
    (let lm0 = \<lparr>lm_time = or_default (tc_TimeLimit conf) (lm_time default_run_limits),
        lm_memory = or_default (tc_MemoryLimit conf) (lm_memory default_run_limits),
        lm_count = or_default (tc_FileNumberLimit conf) (lm_count default_run_limits), lm_size = lm_size default_run_limits\<rparr>
     in if tc_DiskLimit conf = JNull then Inr lm0
        else and_then (require Crashed (int_of (tc_DiskLimit conf))) (\<lambda>n. Inr (lm0\<lparr>lm_size := JNum \<bar>n\<bar>\<rparr>)))"

definition run_type :: "problem_config \<Rightarrow> test_conf \<Rightarrow> jstr result" where
  "run_type cfg conf =
    (let r = sg_Run (pc_SPJ cfg); t0 = (if r = js ''classic'' \<or> r = js ''interactive'' then js ''elf'' else r)
     in if py_truthy (pc_Verilog cfg) \<and> t0 \<noteq> js ''elf'' then Inl Invalid
        else let t1 = (if py_truthy (pc_Verilog cfg) then js ''verilog'' else t0)
        in if py_truthy (tc_ValgrindTestOn conf) \<and> t1 \<noteq> js ''elf'' then Inl Invalid
           else Inr (if py_truthy (tc_ValgrindTestOn conf) then js ''valgrind'' else t1))"

definition run_of :: "problem_zip \<Rightarrow> problem_config \<Rightarrow> jstr \<Rightarrow> limits \<Rightarrow> jstr option \<Rightarrow> parse_ctx
    \<Rightarrow> (run_args option \<times> parse_ctx) result" where
  "run_of z cfg t lm0 infile c =
    (let run = \<lparr>ra_type = t, ra_limits = lm0, ra_infile = infile, ra_interactor = None\<rparr>
     in if t = js ''skip'' then Inr (None, c)
        else if sg_Run (pc_SPJ cfg) = js ''interactive'' then
          and_then (artifact_from_spj_program z (sg_Interactor (pc_SPJ cfg)) ''interactor'' ''interactor.cpp'' ''interactor'' c)
            (\<lambda>(a, c1). Inr (Some (run\<lparr>ra_interactor := Some (a, lm0)\<rparr>), c1))
        else Inr (Some run, c))"

definition answer_file :: "problem_zip \<Rightarrow> jstr \<Rightarrow> parse_ctx \<Rightarrow> jstr option \<times> parse_ctx" where
  "answer_file z i c =
    (let ans = i @ js ''.ans''; alt = i @ js ''.out''
     in if ans \<in> set (namelist z) then apfst Some (text_url z ans c)
        else if alt \<in> set (namelist z) then apfst Some (text_url z alt c)
        else (None, c))"

definition check_of :: "problem_zip \<Rightarrow> problem_config \<Rightarrow> jstr \<Rightarrow> parse_ctx \<Rightarrow> (checker \<times> parse_ctx) result" where
  "check_of z cfg i c =
    (let k = sg_Check (pc_SPJ cfg)
     in if k = js ''compare'' then
          (case answer_file z i c of
             (None, _) \<Rightarrow> Inl Invalid
           | (Some a, c1) \<Rightarrow> Inr (CompareChecker (sg_IgnoreWhitespace (pc_SPJ cfg)) a, c1))
        else if k = js ''skip'' then Inr (DirectChecker, c)
        else if k = js ''custom'' then
          and_then (artifact_from_spj_program z (sg_Checker (pc_SPJ cfg)) ''spj_bin'' ''spj.cpp'' ''checker'' c)
            (\<lambda>(a, c1). let (ans, c2) = answer_file z i c1 in Inr (SpjChecker a ans default_check_limits, c2))
        else Inl Crashed)"

text \<open>\<open>conf.Dependency == 0\<close>, which a false truth value is too; else its text, also of a null.\<close>

definition dependency_of :: "problem_zip \<Rightarrow> test_conf \<Rightarrow> dep" where
  "dependency_of z conf =
    (if int_of (tc_Dependency conf) = Some 0 then NoDep else Dep (py_str (pz_repr z) (tc_Dependency conf)))"

definition id_of :: "problem_zip \<Rightarrow> test_conf \<Rightarrow> jstr" where
  "id_of z conf = py_str (pz_repr z) (tc_ID conf)"

definition parse_testpoint :: "problem_zip \<Rightarrow> problem_config \<Rightarrow> compile_plan option \<Rightarrow> test_conf \<Rightarrow> parse_ctx
    \<Rightarrow> (work point \<times> parse_ctx) result" where
  "parse_testpoint z cfg template conf c =
    (let i = id_of z conf; infile_name = i @ js ''.in'';
         (infile, c1) = (if infile_name \<in> set (namelist z) then apfst Some (text_url z infile_name c) else (None, c))
     in and_then (run_limits conf) (\<lambda>lm0.
        and_then (run_type cfg conf) (\<lambda>t.
        and_then (run_of z cfg t lm0 infile c1) (\<lambda>(run, c2).
        and_then (check_of z cfg i c2) (\<lambda>(check, c3).
          let point = (\<lambda>input. \<lparr>pt_id = i, pt_dep = dependency_of z conf, pt_work = \<lparr>wk_input = input, wk_run = run, wk_check = check\<rparr>\<rparr>)
          in if px_per_point c3 then
               (case template of
                  None \<Rightarrow> Inl Crashed
                | Some p \<Rightarrow>
                    let verilog = py_truthy (pc_Verilog cfg);
                        (u, c4) = text_url z (i @ (if verilog then js ''.v'' else js ''.cpp'')) c3
                    in Inr (point (CompiledFor (p\<lparr>cp_source := if verilog then VerilogSource u else CppSource u\<rparr>)), c4))
             else Inr (point SubmittedCode, c3))))))"

section \<open>Tasks\<close>

text \<open>
  The test points by name: the last one that bears it. Points are referred to by their position, as the
  code compares them by identity.
\<close>

definition position_of :: "jstr \<Rightarrow> work point list \<Rightarrow> nat option" where
  "position_of i tps = (if i \<in> pt_id ` set tps then Some (length tps - 1 - length (takeWhile (\<lambda>t. pt_id t \<noteq> i) (rev tps))) else None)"

text \<open>The first point that equals the one at a position.\<close>

definition first_equal :: "work point list \<Rightarrow> nat \<Rightarrow> nat" where
  "first_equal tps k = length (takeWhile (\<lambda>t. t \<noteq> tps ! k) tps)"

text \<open>
  Disk sharing: a point starts a new task unless its disk limit is at least 0. The tasks so far are
  lists of positions with the tasks they depend on.
\<close>

definition place :: "work point list \<Rightarrow> int option list \<Rightarrow> nat \<Rightarrow> (nat list \<times> nat list) list
    \<Rightarrow> (nat list \<times> nat list) list result" where
  "place tps disks k gs =
    (let gs1 = (if gs = [] \<or> (case disks ! k of None \<Rightarrow> True | Some n \<Rightarrow> n < 0) then gs @ [([], [])] else gs);
         g = (fst (last gs1) @ [k], snd (last gs1)); gs2 = butlast gs1 @ [g]
     in case pt_dep (tps ! k) of
          Dep d \<Rightarrow>
            (case position_of d tps of
               None \<Rightarrow> Inl Invalid
             | Some q \<Rightarrow>
                 if q \<in> set (fst g) then Inr gs2
                 else if \<exists>i < length gs2. q \<in> set (fst (gs2 ! i))
                   then Inr (butlast gs2 @ [(fst g, snd g @ [length (takeWhile (\<lambda>h. q \<notin> set (fst h)) gs2)])])
                 else Inl Invalid)
        | _ \<Rightarrow> Inr gs2)"

fun place_all :: "work point list \<Rightarrow> int option list \<Rightarrow> nat list \<Rightarrow> (nat list \<times> nat list) list
    \<Rightarrow> (nat list \<times> nat list) list result" where
  "place_all tps disks [] gs = Inr gs"
| "place_all tps disks (k # ks) gs = and_then (place tps disks k gs) (place_all tps disks ks)"

definition single_task :: "work point list \<Rightarrow> work point \<Rightarrow> task_plan result" where
  "single_task tps t =
    (case pt_dep t of
       Dep d \<Rightarrow>
         (case position_of d tps of
            None \<Rightarrow> Inl Invalid
          | Some q \<Rightarrow> Inr \<lparr>tk_points = [t], tk_dependencies = [first_equal tps q], tk_dependents = []\<rparr>)
     | _ \<Rightarrow> Inr \<lparr>tk_points = [t], tk_dependencies = [], tk_dependents = []\<rparr>)"

text \<open>\<open>generate_dependents\<close>.\<close>

definition add_dependent :: "nat \<Rightarrow> nat \<Rightarrow> task_plan list \<Rightarrow> task_plan list" where
  "add_dependent i d plan = plan[d := (plan ! d)\<lparr>tk_dependents := tk_dependents (plan ! d) @ [i]\<rparr>]"

definition generate_dependents :: "task_plan list \<Rightarrow> task_plan list" where
  "generate_dependents plan =
    fold (\<lambda>i p. fold (add_dependent i) (tk_dependencies (p ! i)) p) [0..<length plan] plan"

definition shares_disk :: "test_conf \<Rightarrow> bool" where
  "shares_disk conf \<longleftrightarrow> (case int_of (tc_DiskLimit conf) of None \<Rightarrow> False | Some n \<Rightarrow> n > 0)"

text \<open>
  \<open>parse_testpoints\<close> after the points are parsed. Disk limits are numbers or null then.
\<close>

definition plan_tasks :: "test_conf list \<Rightarrow> work point list \<Rightarrow> task_plan list result" where
  "plan_tasks confs tps =
    map_sum id generate_dependents
      (if list_ex shares_disk confs then
         and_then (place_all tps (map (\<lambda>c. int_of (tc_DiskLimit c)) confs) [0..<length tps] [])
           (\<lambda>gs. Inr (map (\<lambda>g. \<lparr>tk_points = map ((!) tps) (fst g), tk_dependencies = snd g, tk_dependents = []\<rparr>) gs))
       else map_sum id fst (traverse (\<lambda>t s. map_sum id (\<lambda>p. (p, s)) (single_task tps t)) tps ()))"

section \<open>Groups and the plan\<close>

definition float_of :: "problem_zip \<Rightarrow> jval \<Rightarrow> rat option" where
  "float_of z v = (case v of JStr s \<Rightarrow> pz_float z s | _ \<Rightarrow> map_option of_int (int_of v))"

definition parse_group :: "problem_zip \<Rightarrow> group_conf \<Rightarrow> group result" where
  "parse_group z conf =
    and_then (require Crashed (py_iter (gc_TestPoints conf))) (\<lambda>xs.
    and_then (require Crashed (float_of z (gc_GroupScore conf))) (\<lambda>score.
      let i = py_str (pz_repr z) (gc_GroupID conf)
      in Inr \<lparr>gp_id = i, gp_name = (if gc_GroupName conf = JNull then JStr (js ''Task '' @ i) else gc_GroupName conf),
              gp_points = map (py_str (pz_repr z)) xs, gp_score = score\<rparr>))"

definition parse_groups :: "problem_zip \<Rightarrow> problem_config \<Rightarrow> group list result" where
  "parse_groups z cfg = map_sum id fst (traverse (\<lambda>g s. map_sum id (\<lambda>x. (x, s)) (parse_group z g)) (pc_Groups cfg) ())"

text \<open>
  \<open>upload_files\<close>: every file is in the archive, and can be opened. (The code walks a set; here
  the files come in the order in which they were first used, which decides only which of the two errors is
  met first.)
\<close>

definition open_file :: "problem_zip \<Rightarrow> jstr \<Rightarrow> plan_error option" where
  "open_file z f =
    (if starts_with (js ''/'') f \<or> starts_with (js ''../'') f \<or> contains_sub (js ''/../'') f
        \<or> starts_with (rev (js ''/..'')) (rev f) then Some Invalid
     else if file_key z f \<in> set (pz_names z) then None else Some Crashed)"

definition upload_files :: "problem_zip \<Rightarrow> jval list \<Rightarrow> unit result" where
  "upload_files z fs =
    (if list_ex (\<lambda>f. case f of JStr s \<Rightarrow> s \<notin> set (namelist z) | _ \<Rightarrow> True) fs then Inl Invalid
     else case List.map_filter (\<lambda>f. case f of JStr s \<Rightarrow> open_file z s | _ \<Rightarrow> None) fs of
       [] \<Rightarrow> Inr () | e # _ \<Rightarrow> Inl e)"

definition execute_compile_tasks :: "problem_zip \<Rightarrow> parse_ctx \<Rightarrow> unit result" where
  "execute_compile_tasks z c = (if list_all (\<lambda>t. pz_compiles z (fst t)) (px_tasks c) then Inr () else Inl Invalid)"

definition parse_start :: parse_ctx where
  "parse_start = \<lparr>px_files = [], px_tasks = [], px_artifacts = [], px_supp = [], px_limits = default_compile_limits,
     px_per_point = False\<rparr>"

definition generate_plan :: "problem_zip \<Rightarrow> judge_plan result" where
  "generate_plan z =
    and_then (load_config z) (\<lambda>(cfg, quiz).
      let plan = \<lparr>jp_group = pc_RunnerGroup cfg, jp_compile = None, jp_judge = [], jp_score = [], jp_quiz = quiz\<rparr>
      in if quiz \<noteq> None then Inr plan
         else
           and_then (parse_compile z cfg parse_start) (\<lambda>(template, c1).
           and_then (traverse (parse_testpoint z cfg template) (pc_Details cfg) c1) (\<lambda>(tps, c2).
           and_then (plan_tasks (pc_Details cfg) tps) (\<lambda>tasks.
           and_then (parse_groups z cfg) (\<lambda>groups.
           and_then (upload_files z (px_files c2)) (\<lambda>_.
           and_then (execute_compile_tasks z c2) (\<lambda>_.
             Inr (plan\<lparr>jp_compile := (if px_per_point c2 then None else template), jp_judge := tasks,
                       jp_score := groups\<rparr>))))))))"

section \<open>What is read off a plan\<close>

definition is_verilog_input :: "tp_input \<Rightarrow> bool option" where
  "is_verilog_input i =
    (case i of SubmittedCode \<Rightarrow> None | CompiledFor p \<Rightarrow> Some (case cp_source p of VerilogSource _ \<Rightarrow> True | _ \<Rightarrow> False))"

text \<open>\<open>languages_accepted\<close>: the languages, or no restriction.\<close>

fun languages_of_points :: "work point list \<Rightarrow> string list option \<Rightarrow> bool \<Rightarrow> string list option" where
  "languages_of_points [] langs runs = (if runs then langs else Some [''cpp''])"
| "languages_of_points (t # ts) langs runs =
    (case is_verilog_input (wk_input (pt_work t)) of
       Some verilog \<Rightarrow> Some [if verilog then ''verilog'' else ''cpp'']
     | None \<Rightarrow>
         (case wk_run (pt_work t) of
            None \<Rightarrow> languages_of_points ts langs runs
          | Some r \<Rightarrow>
              if ra_type r = js ''verilog'' then Some [''verilog'']
              else languages_of_points ts (if ra_type r = js ''valgrind'' then Some [''cpp'', ''git''] else langs) True))"

definition languages_accepted :: "judge_plan \<Rightarrow> string list option" where
  "languages_accepted plan =
    (if jp_quiz plan \<noteq> None then Some [''quiz'']
     else languages_of_points (concat (map tk_points (jp_judge plan))) None (jp_compile plan \<noteq> None))"

text \<open>\<open>summarize\<close>: of every group, its points with their limits. A name that no point has raises.\<close>

record subtask =
  sb_id :: jstr
  sb_name :: jval
  sb_points :: "(jstr \<times> limits option) list"
  sb_score :: rat

definition point_limits :: "judge_plan \<Rightarrow> (jstr \<times> limits option) list" where
  "point_limits plan =
    rev (map (\<lambda>t. (pt_id t, map_option ra_limits (wk_run (pt_work t)))) (concat (map tk_points (jp_judge plan))))"

definition summarize :: "judge_plan \<Rightarrow> subtask list option result" where
  "summarize plan =
    (if jp_quiz plan \<noteq> None then Inr None
     else if list_ex (\<lambda>g. list_ex (\<lambda>x. map_of (point_limits plan) x = None) (gp_points g)) (jp_score plan) then Inl Crashed
     else Inr (Some (map (\<lambda>g. \<lparr>sb_id = gp_id g, sb_name = gp_name g,
            sb_points = map (\<lambda>x. (x, the (map_of (point_limits plan) x))) (gp_points g), sb_score = gp_score g\<rparr>) (jp_score plan))))"

text \<open>The tasks of a plan as the loop starts with them.\<close>

definition plan_records :: "task_plan list \<Rightarrow> work task_rec list" where
  "plan_records tasks =
    map (\<lambda>k. \<lparr>tr_points = tk_points k, tr_plan = map pt_id (tk_points k), tr_dependents = tk_dependents k,
              tr_result = None\<rparr>) tasks"

end
