(* ===== verification/JudgeOrder.thy ===== *)
theory JudgeOrder
  imports JudgeExec
begin

text \<open>
  What the loop of the scheduler computes: when a plan is well formed, the results do not depend on the
  order in which the runners finish, every task is run at most once, and the loop ends with a result
  for every test point.
\<close>

section \<open>Lists of points\<close>

abbreviation ids :: "'a point list \<Rightarrow> jstr list" where
  "ids ts \<equiv> map pt_id ts"

text \<open>A point depends on no later point of its list, and not on itself.\<close>

fun ordered :: "'a point list \<Rightarrow> bool" where
  "ordered [] = True"
| "ordered (t # ts) \<longleftrightarrow> (\<forall>d. pt_dep t = Dep d \<longrightarrow> d \<notin> set (ids (t # ts))) \<and> ordered ts"

definition unmarked :: "'a point list \<Rightarrow> bool" where
  "unmarked ts \<longleftrightarrow> (\<forall>t \<in> set ts. pt_dep t \<noteq> Unsatisfied)"

abbreviation alive :: "'a point list \<Rightarrow> 'a point list" where
  "alive ps \<equiv> filter (\<lambda>t. pt_dep t \<noteq> Unsatisfied) ps"

lemma ordered_filter: "ordered ts \<Longrightarrow> ordered (filter P ts)"
  by (induction ts) auto

text \<open>What one pass does, for points that bear no mark yet.\<close>

lemma mark_shape:
  assumes "mark acc ts ur = ((ps, rm), ur')" "unmarked ts"
  shows "ids ps = ids ts" "rm = filter (\<lambda>t. pt_dep t = Unsatisfied) ps" "fst ur' = fst ur @ ids rm"
proof -
  have "ids ps = ids ts \<and> rm = filter (\<lambda>t. pt_dep t = Unsatisfied) ps \<and> fst ur' = fst ur @ ids rm"
    using assms
  proof (induction ts arbitrary: ur ps rm)
    case (Cons t ts)
    from Cons.prems(1) obtain t' rm1 ur1 ps1 rm2 where m: "mark1 acc t ur = ((t', rm1), ur1)"
        "mark acc ts ur1 = ((ps1, rm2), ur')" "ps = t' # ps1" "rm = rm1 @ rm2"
      by (rule mark_Cons)
    have IH: "ids ps1 = ids ts" "rm2 = filter (\<lambda>t. pt_dep t = Unsatisfied) ps1" "fst ur' = fst ur1 @ ids rm2"
      using Cons.IH [OF m(2)] Cons.prems(2) by (auto simp: unmarked_def)
    show ?case
      by (rule mark1_cases [of t acc ur]) (use m(1,3,4) IH Cons.prems(2) in \<open>auto simp: unmarked_def\<close>)
  qed simp
  then show "ids ps = ids ts" "rm = filter (\<lambda>t. pt_dep t = Unsatisfied) ps" "fst ur' = fst ur @ ids rm"
    by auto
qed

text \<open>The points that stay: as they were, with a dependency that is neither accepted nor known to have failed, or freed.\<close>

definition stays_as :: "jstr list \<Rightarrow> jstr set \<Rightarrow> 'a point \<Rightarrow> 'a point \<Rightarrow> bool" where
  "stays_as acc un t t' \<longleftrightarrow> t' = t \<and> (\<forall>d. pt_dep t = Dep d \<longrightarrow> d \<notin> set acc \<and> d \<notin> un)
     \<or> (\<exists>d. pt_dep t = Dep d \<and> d \<in> set acc \<and> t' = t\<lparr>pt_dep := NoDep\<rparr>)"

lemma mark_kept:
  assumes "mark acc ts ur = ((ps, rm), ur')" "unmarked ts" "ordered ts"
  shows "\<forall>t' \<in> set (alive ps). \<exists>t \<in> set ts. stays_as acc (set (fst ur')) t t'" "ordered (alive ps)"
proof -
  have "(\<forall>t' \<in> set (alive ps). \<exists>t \<in> set ts. stays_as acc (set (fst ur')) t t') \<and> ordered (alive ps)"
    using assms
  proof (induction ts arbitrary: ur ps rm)
    case (Cons t ts)
    from Cons.prems(1) obtain t' rm1 ur1 ps1 rm2 where m: "mark1 acc t ur = ((t', rm1), ur1)"
        "mark acc ts ur1 = ((ps1, rm2), ur')" "ps = t' # ps1" "rm = rm1 @ rm2"
      by (rule mark_Cons)
    have um: "unmarked ts" "pt_dep t \<noteq> Unsatisfied" and ord: "ordered ts"
      using Cons.prems(2,3) by (auto simp: unmarked_def)
    have IH: "\<forall>t' \<in> set (alive ps1). \<exists>t \<in> set ts. stays_as acc (set (fst ur')) t t'" "ordered (alive ps1)"
      using Cons.IH [OF m(2) um(1) ord] by auto
    note shape = mark_shape [OF m(2) um(1)]
    have later: "set (ids (alive ps1)) \<subseteq> set (ids ts)" "set (ids rm2) \<subseteq> set (ids ts)"
      unfolding shape(1) [symmetric] shape(2) by auto
    show ?case
    proof (cases rule: mark1_cases [of t acc ur])
      case (freed d)
      then have t': "t' = t\<lparr>pt_dep := NoDep\<rparr>" using m(1) by simp
      have "stays_as acc (set (fst ur')) t t'" using freed t' by (auto simp: stays_as_def)
      then show ?thesis using IH m(3) t' by auto
    next
      case (marked d)
      then show ?thesis using IH m(1,3) by auto
    next
      case kept
      then have t': "t' = t" "ur1 = ur" using m(1) by auto
      have dep: "d \<notin> set acc \<and> d \<notin> set (fst ur') \<and> d \<notin> set (ids (t # ts))" if "pt_dep t = Dep d" for d
        using kept(2) [OF that] Cons.prems(3) that later shape(3) t' by auto
      then have "stays_as acc (set (fst ur')) t t'" using t' by (auto simp: stays_as_def)
      moreover have "ordered (t # alive ps1)" using dep later IH(2) by auto
      ultimately show ?thesis using IH m(3) t' um(2) by auto
    qed
  qed simp
  then show "\<forall>t' \<in> set (alive ps). \<exists>t \<in> set ts. stays_as acc (set (fst ur')) t t'" "ordered (alive ps)"
    by auto
qed

text \<open>The points that are removed depend on an unaccepted one, and have a result that says so.\<close>

lemma mark_removed:
  assumes "mark acc ts ur = ((ps, rm), ur')" "unmarked ts" "distinct (ids ts)"
  shows "\<forall>x \<in> set (ids rm). \<exists>t \<in> set ts. \<exists>d. pt_id t = x \<and> pt_dep t = Dep d \<and> d \<in> set (fst ur')
      \<and> map_of (snd ur') x = Some (skipped_result x (failed_message d))"
    "\<forall>x. x \<notin> set (ids rm) \<longrightarrow> map_of (snd ur') x = map_of (snd ur) x"
proof -
  have "(\<forall>x \<in> set (ids rm). \<exists>t \<in> set ts. \<exists>d. pt_id t = x \<and> pt_dep t = Dep d \<and> d \<in> set (fst ur')
      \<and> map_of (snd ur') x = Some (skipped_result x (failed_message d)))
    \<and> (\<forall>x. x \<notin> set (ids rm) \<longrightarrow> map_of (snd ur') x = map_of (snd ur) x)"
    using assms
  proof (induction ts arbitrary: ur ps rm)
    case (Cons t ts)
    from Cons.prems(1) obtain t' rm1 ur1 ps1 rm2 where m: "mark1 acc t ur = ((t', rm1), ur1)"
        "mark acc ts ur1 = ((ps1, rm2), ur')" "ps = t' # ps1" "rm = rm1 @ rm2"
      by (rule mark_Cons)
    have um: "unmarked ts" and dis: "distinct (ids ts)" "pt_id t \<notin> set (ids ts)"
      using Cons.prems(2,3) by (auto simp: unmarked_def)
    note IH = Cons.IH [OF m(2) um dis(1)]
    note shape = mark_shape [OF m(2) um]
    have new: "pt_id t \<notin> set (ids rm2)"
      using dis(2) unfolding shape(1) [symmetric] shape(2) by auto
    show ?case
    proof (cases rule: mark1_cases [of t acc ur])
      case (freed d)
      then show ?thesis using IH m by fastforce
    next
      case (marked d)
      then have ur1: "rm1 = [t\<lparr>pt_dep := Unsatisfied\<rparr>]" "fst ur1 = fst ur @ [pt_id t]"
          "snd ur1 = AList.update (pt_id t) (skipped_result (pt_id t) (failed_message d)) (snd ur)"
        using m(1) by auto
      have "map_of (snd ur') (pt_id t) = Some (skipped_result (pt_id t) (failed_message d))"
        using IH new ur1(3) by (auto simp: AList.update_conv')
      then show ?thesis
        using IH m(4) ur1 marked(1,3) shape(3) new by (auto simp: AList.update_conv')
    next
      case kept
      then show ?thesis using IH m by fastforce
    qed
  qed simp
  then show "\<forall>x \<in> set (ids rm). \<exists>t \<in> set ts. \<exists>d. pt_id t = x \<and> pt_dep t = Dep d \<and> d \<in> set (fst ur')
      \<and> map_of (snd ur') x = Some (skipped_result x (failed_message d))"
    "\<forall>x. x \<notin> set (ids rm) \<longrightarrow> map_of (snd ur') x = map_of (snd ur) x"
    by auto
qed

lemma mark_failing:
  assumes "mark acc ts ur = ((ps, rm), ur')" "\<forall>d \<in> set (fst ur). Q d"
    "\<forall>t \<in> set ts. \<forall>d. pt_dep t = Dep d \<and> Q d \<longrightarrow> Q (pt_id t)"
  shows "\<forall>d \<in> set (fst ur'). Q d"
  using assms
proof (induction ts arbitrary: ur ps rm)
  case (Cons t ts)
  from Cons.prems(1) obtain t' rm1 ur1 ps1 rm2 where m: "mark1 acc t ur = ((t', rm1), ur1)"
      "mark acc ts ur1 = ((ps1, rm2), ur')"
    by (rule mark_Cons)
  have "\<forall>d \<in> set (fst ur1). Q d"
    by (rule mark1_cases [of t acc ur]) (use m(1) Cons.prems in auto)
  then show ?case using Cons.IH [OF m(2)] Cons.prems(3) by simp
qed simp

lemma mark_idle:
  "\<forall>t \<in> set ts. \<forall>d. pt_dep t = Dep d \<longrightarrow> d \<notin> set acc \<and> d \<notin> set (fst ur) \<Longrightarrow> mark acc ts ur = ((ts, []), ur)"
proof (induction ts)
  case (Cons t ts)
  have "mark1 acc t ur = ((t, []), ur)"
    by (rule mark1_cases [of t acc ur]) (use Cons.prems in auto)
  then show ?case using Cons by simp
qed simp

section \<open>What a plan means\<close>

abbreviation names :: "'a task_rec list \<Rightarrow> nat \<Rightarrow> jstr list" where
  "names P i \<equiv> ids (tr_points (P ! i))"

definition holds :: "'a task_rec list \<Rightarrow> nat \<Rightarrow> jstr \<Rightarrow> bool" where
  "holds P j d \<longleftrightarrow> j < length P \<and> d \<in> set (names P j)"

text \<open>
  The specification: a point passes when the point it depends on does, if any, and it is accepted when
  it is run. Its final result is that of its run, or that it was skipped.
\<close>

inductive passes :: "'a task_rec list \<Rightarrow> (jstr \<Rightarrow> 'a \<Rightarrow> verdict) \<Rightarrow> jstr \<Rightarrow> bool" for P v where
  free: "\<lbrakk>i < length P; t \<in> set (tr_points (P ! i)); pt_dep t = NoDep;
    vd_result (v (pt_id t) (pt_work t)) = Accepted\<rbrakk> \<Longrightarrow> passes P v (pt_id t)"
| after: "\<lbrakk>i < length P; t \<in> set (tr_points (P ! i)); pt_dep t = Dep d; passes P v d;
    vd_result (v (pt_id t) (pt_work t)) = Accepted\<rbrakk> \<Longrightarrow> passes P v (pt_id t)"

inductive_cases passesE: "passes P v d"

definition final :: "'a task_rec list \<Rightarrow> (jstr \<Rightarrow> 'a \<Rightarrow> verdict) \<Rightarrow> 'a point \<Rightarrow> verdict" where
  "final P v t =
    (case pt_dep t of
       Dep d \<Rightarrow> if passes P v d then v (pt_id t) (pt_work t) else skipped_result (pt_id t) (failed_message d)
     | _ \<Rightarrow> v (pt_id t) (pt_work t))"

text \<open>
  A plan whose points have different names, whose dependents are the tasks with a point that depends on
  one of the task's, and whose dependencies have no loops.
\<close>

definition well_formed :: "'a task_rec list \<Rightarrow> bool" where
  "well_formed P \<longleftrightarrow>
    distinct (concat (map (\<lambda>r. ids (tr_points r)) P))
    \<and> (\<forall>r \<in> set P. tr_plan r = ids (tr_points r) \<and> tr_result r = None \<and> unmarked (tr_points r) \<and> ordered (tr_points r))
    \<and> (\<forall>j < length P. \<forall>i \<in> set (tr_dependents (P ! j)).
         i < length P \<and> (\<exists>t \<in> set (tr_points (P ! i)). \<exists>d. pt_dep t = Dep d \<and> holds P j d))
    \<and> (\<forall>i < length P. \<forall>t \<in> set (tr_points (P ! i)). \<forall>d. pt_dep t = Dep d \<longrightarrow>
         (\<exists>j. holds P j d \<and> (j = i \<or> i \<in> set (tr_dependents (P ! j)))))
    \<and> (\<exists>rank :: nat \<Rightarrow> nat. \<forall>j < length P. \<forall>i \<in> set (tr_dependents (P ! j)). rank j < rank i)"

text \<open>Each task waits for one other task at most, and then with all its points.\<close>

definition one_source :: "'a task_rec list \<Rightarrow> bool" where
  "one_source P \<longleftrightarrow>
    (\<forall>j < length P. \<forall>i \<in> set (tr_dependents (P ! j)). \<forall>t \<in> set (tr_points (P ! i)).
       \<exists>d. pt_dep t = Dep d \<and> (holds P i d \<or> holds P j d))"

lemma distinct_concat_nth:
  "\<lbrakk>distinct (concat xss); i < length xss; j < length xss; x \<in> set (xss ! i); x \<in> set (xss ! j)\<rbrakk> \<Longrightarrow> i = j"
proof (induction xss arbitrary: i j)
  case (Cons xs xss)
  have out: "x \<notin> set xs" if "k < length xss" "x \<in> set (xss ! k)" for k
    using Cons.prems(1) that by (auto simp: disjoint_iff)
  show ?case
    using Cons.prems Cons.IH [of "i - 1" "j - 1"] out by (auto simp: nth_Cons split: nat.splits)
qed simp

lemma holds_unique: "well_formed P \<Longrightarrow> holds P i d \<Longrightarrow> holds P j d \<Longrightarrow> i = j"
  using distinct_concat_nth [of "map (\<lambda>r. ids (tr_points r)) P" i j d]
  by (simp add: well_formed_def holds_def)

lemma distinct_names: "well_formed P \<Longrightarrow> i < length P \<Longrightarrow> distinct (names P i)"
proof -
  assume "well_formed P" "i < length P"
  then have "distinct (concat (map (\<lambda>r. ids (tr_points r)) P))" "ids (tr_points (P ! i)) \<in> set (map (\<lambda>r. ids (tr_points r)) P)"
    by (auto simp: well_formed_def)
  then show ?thesis by (metis distinct_concat_iff)
qed

lemma point_unique:
  assumes "well_formed P" "i < length P" "t \<in> set (tr_points (P ! i))" "j < length P" "t' \<in> set (tr_points (P ! j))"
    "pt_id t = pt_id t'"
  shows "i = j \<and> t = t'"
proof -
  have "holds P i (pt_id t)" "holds P j (pt_id t')" using assms(2-5) by (auto simp: holds_def)
  with assms(6) have "holds P i (pt_id t)" "holds P j (pt_id t)" by simp_all
  then have "i = j" using holds_unique assms(1) by blast
  then show ?thesis
    using assms distinct_names [OF assms(1,2)] by (metis distinct_map inj_onD)
qed

lemma passes_iff:
  assumes "well_formed P" "i < length P" "t \<in> set (tr_points (P ! i))"
  shows "passes P v (pt_id t) \<longleftrightarrow>
    (\<forall>d. pt_dep t = Dep d \<longrightarrow> passes P v d) \<and> vd_result (v (pt_id t) (pt_work t)) = Accepted"
proof
  assume "passes P v (pt_id t)"
  then show "(\<forall>d. pt_dep t = Dep d \<longrightarrow> passes P v d) \<and> vd_result (v (pt_id t) (pt_work t)) = Accepted"
  proof (rule passesE)
    fix j t' assume "j < length P" "t' \<in> set (tr_points (P ! j))" "pt_id t = pt_id t'" "pt_dep t' = NoDep"
      "vd_result (v (pt_id t') (pt_work t')) = Accepted"
    then show ?thesis using point_unique [OF assms] by auto
  next
    fix j t' d assume "j < length P" "t' \<in> set (tr_points (P ! j))" "pt_id t = pt_id t'" "pt_dep t' = Dep d"
      "passes P v d" "vd_result (v (pt_id t') (pt_work t')) = Accepted"
    then show ?thesis using point_unique [OF assms] by auto
  qed
next
  assume r: "(\<forall>d. pt_dep t = Dep d \<longrightarrow> passes P v d) \<and> vd_result (v (pt_id t) (pt_work t)) = Accepted"
  have "pt_dep t \<noteq> Unsatisfied"
    using assms by (auto simp: well_formed_def unmarked_def)
  then show "passes P v (pt_id t)"
    using r assms passes.free [of i P t v] passes.after [of i P t _ v] by (cases "pt_dep t") auto
qed

lemma final_accepted:
  assumes "well_formed P" "i < length P" "t \<in> set (tr_points (P ! i))"
  shows "vd_result (final P v t) = Accepted \<longleftrightarrow> passes P v (pt_id t)"
  using passes_iff [OF assms, of v]
  by (auto simp: final_def skipped_result_def plain_result_def split: dep.split)

section \<open>The cascade\<close>

text \<open>
  What holds while points are removed: every point left descends from the plan, freed at most of a
  dependency that passed; what is settled has its final result; and a point that waits does so for a
  point of its own task, for one of a task that is not finished, or for a frame of the stack.
\<close>

definition descends :: "'a task_rec list \<Rightarrow> (jstr \<Rightarrow> 'a \<Rightarrow> verdict) \<Rightarrow> 'a task_rec list \<Rightarrow> 'a point \<Rightarrow> 'a point \<Rightarrow> bool" where
  "descends P v rs t0 t \<longleftrightarrow> pt_id t = pt_id t0 \<and> pt_work t = pt_work t0
     \<and> (pt_dep t = pt_dep t0
        \<or> (\<exists>d j. pt_dep t0 = Dep d \<and> pt_dep t = NoDep \<and> passes P v d \<and> holds P j d \<and> tr_result (rs ! j) \<noteq> None))"

definition sound_points :: "'a task_rec list \<Rightarrow> (jstr \<Rightarrow> 'a \<Rightarrow> verdict) \<Rightarrow> 'a task_rec list \<Rightarrow> nat \<Rightarrow> bool" where
  "sound_points P v rs i \<longleftrightarrow>
     unmarked (tr_points (rs ! i)) \<and> ordered (tr_points (rs ! i)) \<and> distinct (names rs i)
     \<and> (\<forall>t \<in> set (tr_points (rs ! i)). \<exists>t0 \<in> set (tr_points (P ! i)). descends P v rs t0 t)"

definition settled :: "'a task_rec list \<Rightarrow> (jstr \<Rightarrow> 'a \<Rightarrow> verdict) \<Rightarrow> 'a task_rec list \<Rightarrow> result_map \<Rightarrow> nat \<Rightarrow> bool" where
  "settled P v rs res i \<longleftrightarrow>
     (\<forall>t \<in> set (tr_points (P ! i)). pt_id t \<notin> set (names rs i) \<or> tr_result (rs ! i) \<noteq> None
        \<longrightarrow> map_of res (pt_id t) = Some (final P v t))"

definition tells :: "frame \<Rightarrow> nat \<Rightarrow> jstr \<Rightarrow> bool" where
  "tells f i d \<longleftrightarrow> i \<in> set (fst f) \<and> (d \<in> set (fst (snd f)) \<or> d \<in> set (snd (snd f)))"

definition covered :: "frame list \<Rightarrow> 'a task_rec list \<Rightarrow> nat \<Rightarrow> bool" where
  "covered st rs i \<longleftrightarrow>
     (\<forall>t \<in> set (tr_points (rs ! i)). \<forall>d. pt_dep t = Dep d \<longrightarrow> d \<in> set (names rs i)
        \<or> tr_result (rs ! i) = None
          \<and> ((\<exists>j. holds rs j d \<and> tr_result (rs ! j) = None) \<or> (\<exists>f \<in> set st. tells f i d)))"

definition frame_ok :: "'a task_rec list \<Rightarrow> (jstr \<Rightarrow> 'a \<Rightarrow> verdict) \<Rightarrow> 'a task_rec list \<Rightarrow> frame \<Rightarrow> bool" where
  "frame_ok P v rs f \<longleftrightarrow>
     (\<forall>d \<in> set (fst (snd f)). passes P v d \<and> (\<exists>j. holds P j d \<and> tr_result (rs ! j) \<noteq> None))
     \<and> (\<forall>d \<in> set (snd (snd f)). \<not> passes P v d)
     \<and> (\<forall>i \<in> set (fst f). i < length P \<and> (\<forall>d. tells f i d \<longrightarrow> d \<notin> set (names rs i)))"

definition same_plan :: "'a task_rec list \<Rightarrow> 'a task_rec list \<Rightarrow> bool" where
  "same_plan P rs \<longleftrightarrow> length rs = length P \<and> (\<forall>i < length P. tr_dependents (rs ! i) = tr_dependents (P ! i))"

definition casc :: "'a task_rec list \<Rightarrow> (jstr \<Rightarrow> 'a \<Rightarrow> verdict) \<Rightarrow> frame list \<Rightarrow> 'a task_rec list \<Rightarrow> result_map \<Rightarrow> bool" where
  "casc P v st rs res \<longleftrightarrow> same_plan P rs
     \<and> (\<forall>i < length P. sound_points P v rs i \<and> settled P v rs res i \<and> covered st rs i)
     \<and> (\<forall>f \<in> set st. frame_ok P v rs f)"

lemma descends_final: "descends P v rs t0 t \<Longrightarrow> final P v t = final P v t0"
  by (auto simp: descends_def final_def split: dep.split)

lemma left_in_plan: "sound_points P v rs i \<Longrightarrow> set (names rs i) \<subseteq> set (names P i)"
  by (fastforce simp: sound_points_def descends_def)

lemma ready_iff:
  "dependencies_satisfied r \<longleftrightarrow> (\<forall>t \<in> set (tr_points r). \<forall>e. pt_dep t = Dep e \<longrightarrow> e \<in> set (ids (tr_points r)))"
  unfolding dependencies_satisfied_def list_all_iff by (rule ball_cong) (simp_all split: dep.split)

text \<open>A task that is ready is left alone.\<close>

lemma cut_idle:
  assumes "frame_ok P v rs (d # ds, acc, un)" "dependencies_satisfied (rs ! d)" "d < length rs" "unmarked (tr_points (rs ! d))"
  shows "cut_task d acc un (rs, res) = ((rs, res), [], un)"
proof -
  have "\<forall>t \<in> set (tr_points (rs ! d)). \<forall>e. pt_dep t = Dep e \<longrightarrow> e \<in> set (names rs d)"
    using assms(2) unfolding ready_iff .
  then have "mark acc (tr_points (rs ! d)) (un, res) = ((tr_points (rs ! d), []), un, res)"
    using assms(1) by (intro mark_idle) (auto simp: frame_ok_def tells_def)
  then show ?thesis by (simp add: cut_task_def)
qed

lemma set_map_filter_not:
  "distinct (map f xs) \<Longrightarrow> set (map f (filter (\<lambda>x. \<not> Q x) xs)) = set (map f xs) - set (map f (filter Q xs))"
  by (induction xs) auto

text \<open>The parts of one cut, by what it leaves of the task and of the results.\<close>

definition cuts :: "nat \<Rightarrow> jstr list \<Rightarrow> jstr list \<Rightarrow> 'a task_rec list \<Rightarrow> result_map \<Rightarrow> 'a task_rec list \<Rightarrow> result_map
    \<Rightarrow> 'a point list \<Rightarrow> jstr list \<Rightarrow> bool" where
  "cuts d acc un rs res rs' res' rm un' \<longleftrightarrow>
     (\<exists>left. rs' = rs[d := (rs ! d)\<lparr>tr_points := left\<rparr>] \<and> ordered left \<and> distinct (ids left) \<and> unmarked left
       \<and> set (ids left) = set (names rs d) - set (ids rm)
       \<and> (\<forall>t' \<in> set left. \<exists>t \<in> set (tr_points (rs ! d)). stays_as acc (set un') t t'))
     \<and> un' = un @ ids rm
     \<and> (\<forall>x \<in> set (ids rm). \<exists>t \<in> set (tr_points (rs ! d)). \<exists>e. pt_id t = x \<and> pt_dep t = Dep e \<and> e \<in> set un'
          \<and> map_of res' x = Some (skipped_result x (failed_message e)))
     \<and> (\<forall>x. x \<notin> set (ids rm) \<longrightarrow> map_of res' x = map_of res x)"

lemma cut_task_cuts:
  assumes "cut_task d acc un (rs, res) = ((rs', res'), rm, un')" "unmarked (tr_points (rs ! d))"
    "ordered (tr_points (rs ! d))" "distinct (names rs d)"
  shows "cuts d acc un rs res rs' res' rm un'"
proof -
  obtain ps where m: "mark acc (tr_points (rs ! d)) (un, res) = ((ps, rm), un', res')"
    and rs': "rs' = rs[d := (rs ! d)\<lparr>tr_points := filter (\<lambda>t. t \<notin> set rm) ps\<rparr>]"
    using assms(1) by (auto simp: cut_task_def Let_def split: prod.splits)
  note shape = mark_shape [OF m assms(2)]
  note kept = mark_kept [OF m assms(2,3)]
  note removed = mark_removed [OF m assms(2,4)]
  have left: "filter (\<lambda>t. t \<notin> set rm) ps = alive ps"
    unfolding shape(2) by (rule filter_cong) auto
  have dis: "distinct (ids ps)" using shape(1) assms(4) by simp
  then have "distinct (ids (alive ps))" by (rule distinct_map_filter)
  moreover have "set (ids (alive ps)) = set (names rs d) - set (ids rm)"
    unfolding shape(2) shape(1) [symmetric] using set_map_filter_not [OF dis, of "\<lambda>t. pt_dep t = Unsatisfied"] by simp
  moreover have "unmarked (alive ps)" by (simp add: unmarked_def)
  ultimately show ?thesis
    unfolding cuts_def using kept removed shape(3) rs' left by (intro conjI exI [of _ "alive ps"]) simp_all
qed

lemma cuts_others:
  assumes "cuts d acc un rs res rs' res' rm un'" "d < length rs"
  shows "length rs' = length rs" "tr_result (rs' ! i) = tr_result (rs ! i)" "tr_dependents (rs' ! i) = tr_dependents (rs ! i)"
    "tr_plan (rs' ! i) = tr_plan (rs ! i)"
    "i \<noteq> d \<Longrightarrow> rs' ! i = rs ! i" "set (names rs' i) \<subseteq> set (names rs i)"
    "set (names rs' d) = set (names rs d) - set (ids rm)"
proof -
  from assms(1) obtain left where l: "rs' = rs[d := (rs ! d)\<lparr>tr_points := left\<rparr>]"
      "set (ids left) = set (names rs d) - set (ids rm)"
    unfolding cuts_def by blast
  show "length rs' = length rs" "tr_result (rs' ! i) = tr_result (rs ! i)" "tr_dependents (rs' ! i) = tr_dependents (rs ! i)"
    "tr_plan (rs' ! i) = tr_plan (rs ! i)" "i \<noteq> d \<Longrightarrow> rs' ! i = rs ! i"
    using l(1) assms(2) by (simp_all add: nth_list_update)
  show d: "set (names rs' d) = set (names rs d) - set (ids rm)" using l assms(2) by simp
  show "set (names rs' i) \<subseteq> set (names rs i)"
  proof (cases "i = d")
    case True
    then show ?thesis using d by blast
  qed (use l(1) assms(2) in simp)
qed

end
