(* ===== verification/JudgeRun.thy ===== *)
theory JudgeRun
  imports JudgeOrder
begin

text \<open>
  The loop of the scheduler, from the cascade of skipped points to the end of the run: the order in which
  runners finish does not matter.
\<close>

section \<open>One cut keeps the invariant\<close>

lemma cascD:
  assumes "casc P v st rs res" "i < length P"
  shows "sound_points P v rs i" "settled P v rs res i" "covered st rs i" "length rs = length P"
    "tr_dependents (rs ! i) = tr_dependents (P ! i)" "i < length rs"
  using assms by (auto simp: casc_def same_plan_def)

lemma origin:
  assumes "sound_points P v rs i" "t \<in> set (tr_points (rs ! i))"
  obtains t0 where "t0 \<in> set (tr_points (P ! i))" "descends P v rs t0 t"
  using assms unfolding sound_points_def by blast

lemma waiting_origin:
  assumes "sound_points P v rs i" "t \<in> set (tr_points (rs ! i))" "pt_dep t = Dep e"
  obtains t0 where "t0 \<in> set (tr_points (P ! i))" "descends P v rs t0 t" "pt_dep t0 = Dep e" "pt_id t0 = pt_id t"
  using origin [OF assms(1,2)] assms(3) unfolding descends_def by (metis dep.distinct(1))

lemma cut_fails:
  assumes "well_formed P" "sound_points P v rs d" "d < length P" "\<forall>e \<in> set un. \<not> passes P v e"
    "cut_task d acc un (rs, res) = ((rs', res'), rm, un')"
  shows "\<forall>e \<in> set un'. \<not> passes P v e"
proof -
  obtain ps where m: "mark acc (tr_points (rs ! d)) (un, res) = ((ps, rm), un', res')"
    using assms(5) by (auto simp: cut_task_def Let_def split: prod.splits)
  have "\<not> passes P v (pt_id t)" if t: "t \<in> set (tr_points (rs ! d))" "pt_dep t = Dep e" "\<not> passes P v e" for t e
  proof -
    obtain t0 where t0: "t0 \<in> set (tr_points (P ! d))" "pt_dep t0 = Dep e" "pt_id t0 = pt_id t"
      by (rule waiting_origin [OF assms(2) t(1,2)])
    show ?thesis using iffD1 [OF passes_iff [OF assms(1,3) t0(1), of v]] t0(2,3) t(3) by auto
  qed
  then have step: "\<forall>t \<in> set (tr_points (rs ! d)). \<forall>e. pt_dep t = Dep e \<and> \<not> passes P v e \<longrightarrow> \<not> passes P v (pt_id t)"
    by blast
  show ?thesis using mark_failing [OF m _ step] assms(4) unfolding fst_conv by blast
qed

lemma cut_sound:
  assumes "sound_points P v rs i" "frame_ok P v rs (d # ds, acc, un)" "cuts d acc un rs res rs' res' rm un'"
    "d < length rs"
  shows "sound_points P v rs' i"
proof -
  note o = cuts_others [OF assms(3,4)]
  have up: "descends P v rs' t0 t \<longleftrightarrow> descends P v rs t0 t" for t0 t by (simp add: descends_def o(2))
  show ?thesis
  proof (cases "i = d")
    case False
    then show ?thesis using assms(1) up by (simp add: sound_points_def o(5))
  next
    case True
    obtain left where l: "rs' = rs[d := (rs ! d)\<lparr>tr_points := left\<rparr>]" "ordered left" "distinct (ids left)" "unmarked left"
        "\<forall>t' \<in> set left. \<exists>t \<in> set (tr_points (rs ! d)). stays_as acc (set un') t t'"
      using assms(3) unfolding cuts_def by blast
    have "\<exists>t0 \<in> set (tr_points (P ! d)). descends P v rs t0 t'" if t': "t' \<in> set left" for t'
    proof -
      obtain t where t: "t \<in> set (tr_points (rs ! d))" "stays_as acc (set un') t t'" using l(5) t' by blast
      obtain t0 where t0: "t0 \<in> set (tr_points (P ! d))" "descends P v rs t0 t"
        using origin assms(1) t(1) True by blast
      have "descends P v rs t0 t'"
        using t(2) unfolding stays_as_def
      proof (elim disjE conjE exE)
        fix e assume e: "pt_dep t = Dep e" "e \<in> set acc" "t' = t\<lparr>pt_dep := NoDep\<rparr>"
        have "passes P v e" "\<exists>j. holds P j e \<and> tr_result (rs ! j) \<noteq> None" using assms(2) e(2) by (auto simp: frame_ok_def)
        then show ?thesis using t0(2) e(1,3) by (auto simp: descends_def)
      qed (use t0(2) in simp)
      then show ?thesis using t0(1) by blast
    qed
    then show ?thesis using l(2-4) True assms(4) up unfolding sound_points_def l(1) by simp
  qed
qed

lemma cut_settled:
  assumes "well_formed P" "sound_points P v rs d" "settled P v rs res i" "i < length P" "d < length P" "length rs = length P"
    "cuts d acc un rs res rs' res' rm un'" "\<forall>e \<in> set un'. \<not> passes P v e" "rm \<noteq> [] \<Longrightarrow> tr_result (rs ! d) = None"
  shows "settled P v rs' res' i"
  unfolding settled_def
proof (intro ballI impI)
  fix t assume t: "t \<in> set (tr_points (P ! i))" "pt_id t \<notin> set (names rs' i) \<or> tr_result (rs' ! i) \<noteq> None"
  have d: "d < length rs" using assms(5,6) by simp
  note o = cuts_others [OF assms(7) d]
  show "map_of res' (pt_id t) = Some (final P v t)"
  proof (cases "pt_id t \<in> set (ids rm)")
    case True
    then obtain t1 e where t1: "t1 \<in> set (tr_points (rs ! d))" "pt_id t1 = pt_id t" "pt_dep t1 = Dep e" "e \<in> set un'"
        "map_of res' (pt_id t) = Some (skipped_result (pt_id t) (failed_message e))"
      using assms(7) unfolding cuts_def by blast
    obtain t0 where t0: "t0 \<in> set (tr_points (P ! d))" "pt_dep t0 = Dep e" "pt_id t0 = pt_id t1"
      using waiting_origin [OF assms(2) t1(1,3)] by blast
    have "t0 = t" using point_unique [OF assms(1,5) t0(1) assms(4) t(1)] t0(3) t1(2) by simp
    then show ?thesis using t0(2) t1(4,5) assms(8) by (simp add: final_def)
  next
    case False
    then have same: "map_of res' (pt_id t) = map_of res (pt_id t)" using assms(7) unfolding cuts_def by blast
    have "pt_id t \<notin> set (names rs i) \<or> tr_result (rs ! i) \<noteq> None"
      using t(2) o(2) [of i] o(5) [of i] o(7) False by (cases "i = d") auto
    then show ?thesis using assms(3) t(1) same by (auto simp: settled_def)
  qed
qed

lemma holds_plan: "sound_points P v rs i \<Longrightarrow> i < length P \<Longrightarrow> e \<in> set (names rs i) \<Longrightarrow> holds P i e"
  using left_in_plan unfolding holds_def by blast

lemma plan_dependent:
  assumes "well_formed P" "i < length P" "t0 \<in> set (tr_points (P ! i))" "pt_dep t0 = Dep e" "holds P j e" "j \<noteq> i"
  shows "i \<in> set (tr_dependents (P ! j))"
proof -
  obtain k where k: "holds P k e" "k = i \<or> i \<in> set (tr_dependents (P ! k))"
    using assms(1-4) unfolding well_formed_def by blast
  then show ?thesis using holds_unique [OF assms(1) k(1) assms(5)] assms(6) by blast
qed

lemma cut_covered:
  assumes wf: "well_formed P" and i: "i < length P" "sound_points P v rs i" "covered ((d # ds, acc, un) # st) rs i"
    and d: "sound_points P v rs d" "d < length P" "same_plan P rs" and c: "cuts d acc un rs res rs' res' rm un'"
  shows "covered ((tr_dependents (rs ! d), [], ids rm) # (ds, acc, un') # st) rs' i" (is "covered ?st rs' i")
  unfolding covered_def
proof (intro ballI allI impI)
  fix t e assume t: "t \<in> set (tr_points (rs' ! i))" "pt_dep t = Dep e"
  have len: "d < length rs" "length rs = length P" using d(2,3) by (auto simp: same_plan_def)
  note o = cuts_others [OF c len(1)]
  have un': "un' = un @ ids rm" using c by (simp add: cuts_def)
  have old: "t \<in> set (tr_points (rs ! i)) \<and> (i = d \<longrightarrow> e \<notin> set acc \<and> e \<notin> set un')"
  proof (cases "i = d")
    case True
    obtain left where l: "rs' = rs[d := (rs ! d)\<lparr>tr_points := left\<rparr>]"
        "\<forall>t' \<in> set left. \<exists>t \<in> set (tr_points (rs ! d)). stays_as acc (set un') t t'"
      using c unfolding cuts_def by blast
    then obtain t1 where "t1 \<in> set (tr_points (rs ! d))" "stays_as acc (set un') t1 t" using t(1) True len(1) by auto
    then show ?thesis using t(2) True by (auto simp: stays_as_def)
  qed (use t(1) o(5) in simp)
  from waiting_origin [OF i(2) conjunct1 [OF old] t(2)]
  obtain t0 where t0: "t0 \<in> set (tr_points (P ! i))" "pt_dep t0 = Dep e" by blast
  consider (own) "e \<in> set (names rs i)" | (cross) j where "tr_result (rs ! i) = None" "holds rs j e" "tr_result (rs ! j) = None" "j \<noteq> i"
    | (told) f where "tr_result (rs ! i) = None" "f \<in> set ((d # ds, acc, un) # st)" "tells f i e"
    using i(3) old t(2) unfolding covered_def by (metis holds_def)
  then show "e \<in> set (names rs' i) \<or> tr_result (rs' ! i) = None
      \<and> ((\<exists>j. holds rs' j e \<and> tr_result (rs' ! j) = None) \<or> (\<exists>f \<in> set ?st. tells f i e))"
  proof cases
    case own
    then have "e \<in> set (names rs' i)" using old un' o(5,7) by (cases "i = d") auto
    then show ?thesis by blast
  next
    case (cross j)
    show ?thesis
    proof (cases "j = d \<and> e \<in> set (ids rm)")
      case True
      have "e \<in> set (names rs d)" using cross(2) True unfolding holds_def by blast
      then have "holds P d e" by (rule holds_plan [OF d(1,2)])
      then have "i \<in> set (tr_dependents (rs ! d))"
        using plan_dependent [OF wf i(1) t0] cross(4) True d(2,3) by (auto simp: same_plan_def)
      then have "tells (tr_dependents (rs ! d), [], ids rm) i e" using True by (simp add: tells_def)
      then show ?thesis using cross(1) o(2) by auto
    next
      case False
      have "set (names rs' j) = set (names rs j) - (if j = d then set (ids rm) else {})" using o(5,7) by (cases "j = d") simp_all
      then have "holds rs' j e" using cross(2) False o(1) by (auto simp: holds_def)
      then show ?thesis using cross(1,3) o(2) by auto
    qed
  next
    case (told f)
    have "\<exists>f \<in> set ((ds, acc, un') # st). tells f i e"
    proof (cases "f = (d # ds, acc, un)")
      case True
      then have "tells (ds, acc, un') i e" using told(3) old un' by (auto simp: tells_def)
      then show ?thesis by simp
    qed (use told(2,3) in auto)
    then show ?thesis using told(1) o(2) by auto
  qed
qed

lemma no_self_dependent: "well_formed P \<Longrightarrow> j < length P \<Longrightarrow> i \<in> set (tr_dependents (P ! j)) \<Longrightarrow> i < length P \<and> i \<noteq> j"
  unfolding well_formed_def by blast

lemma frame_ok_less:
  assumes "frame_ok P v rs f" "\<And>i. tr_result (rs' ! i) = tr_result (rs ! i)" "\<And>i. set (names rs' i) \<subseteq> set (names rs i)"
  shows "frame_ok P v rs' f"
proof -
  have "d \<notin> set (names rs' i)" if "i \<in> set (fst f)" "tells f i d" for i d
    using assms(1,3) that unfolding frame_ok_def by blast
  then show ?thesis using assms(1) unfolding frame_ok_def assms(2) by blast
qed

lemma cut_frames:
  assumes wf: "well_formed P" and d: "d < length P" "same_plan P rs" "\<forall>i < length P. sound_points P v rs i"
    and c: "cuts d acc un rs res rs' res' rm un'" and fails: "\<forall>e \<in> set un'. \<not> passes P v e"
    and f: "frame_ok P v rs (d # ds, acc, un)" "frame_ok P v rs g"
  shows "frame_ok P v rs' (tr_dependents (rs ! d), [], ids rm)" "frame_ok P v rs' (ds, acc, un')" "frame_ok P v rs' g"
proof -
  have len: "d < length rs" using d(1,2) by (auto simp: same_plan_def)
  note o = cuts_others [OF c len]
  have un': "un' = un @ ids rm" using c by (simp add: cuts_def)
  have rm: "set (ids rm) \<subseteq> set (names rs d)" using c unfolding cuts_def by fastforce
  have dead: "e \<notin> set (names rs' i)" if "e \<in> set (ids rm)" "i < length P" for e i
  proof (cases "i = d")
    case False
    have "e \<in> set (names rs d)" using rm that(1) by blast
    then have "holds P d e" using holds_plan d(1,3) by blast
    then have "\<not> holds P i e" using holds_unique [OF wf] False by blast
    then have "e \<notin> set (names rs i)" using holds_plan d(3) that(2) by blast
    then show ?thesis using o(6) by blast
  qed (use o(7) that(1) in simp)
  show "frame_ok P v rs' g" by (rule frame_ok_less [OF f(2) o(2,6)])
  show "frame_ok P v rs' (ds, acc, un')"
  proof -
    have "e \<notin> set (names rs' i)" if "i \<in> set ds" "e \<in> set acc \<or> e \<in> set un'" for i e
    proof (cases "e \<in> set (ids rm)")
      case True
      then show ?thesis using dead f(1) that(1) by (simp add: frame_ok_def)
    next
      case False
      then have "tells (d # ds, acc, un) i e" using that un' by (auto simp: tells_def)
      then have "e \<notin> set (names rs i)" using f(1) that(1) unfolding frame_ok_def by auto
      then show ?thesis using o(6) by blast
    qed
    then show ?thesis using f(1) fails o(2) by (auto simp: frame_ok_def tells_def)
  qed
  show "frame_ok P v rs' (tr_dependents (rs ! d), [], ids rm)"
  proof -
    have "i < length P" if "i \<in> set (tr_dependents (rs ! d))" for i
      using no_self_dependent [OF wf d(1)] that d(1,2) by (auto simp: same_plan_def)
    then show ?thesis using fails un' dead by (auto simp: frame_ok_def tells_def)
  qed
qed

section \<open>The cascade\<close>

lemma unready_cut:
  assumes "casc P v ((d # ds, acc, un) # st) rs res" "cut_task d acc un (rs, res) = ((rs', res'), rm, un')" "rm \<noteq> []"
    "d < length P"
  shows "\<not> dependencies_satisfied (rs ! d)" "tr_result (rs ! d) = None"
proof -
  note c = cascD [OF assms(1,4)]
  have um: "unmarked (tr_points (rs ! d))" using c(1) by (simp add: sound_points_def)
  have f: "frame_ok P v rs (d # ds, acc, un)" using assms(1) by (simp add: casc_def)
  show un: "\<not> dependencies_satisfied (rs ! d)" using cut_idle [OF f _ c(6) um] assms(2,3) by auto
  then obtain t e where "t \<in> set (tr_points (rs ! d))" "pt_dep t = Dep e" "e \<notin> set (names rs d)"
    unfolding ready_iff by blast
  then show "tr_result (rs ! d) = None" using c(3) unfolding covered_def by blast
qed

lemma cut_casc:
  assumes wf: "well_formed P" and c: "casc P v ((d # ds, acc, un) # st) rs res"
    and cut: "cut_task d acc un (rs, res) = ((rs', res'), rm, un')"
  shows "d < length P" "casc P v ((tr_dependents (rs ! d), [], ids rm) # (ds, acc, un') # st) rs' res'"
    "tr_result (rs' ! i) = tr_result (rs ! i)" "set (names rs' i) \<subseteq> set (names rs i)"
    "tr_plan (rs' ! i) = tr_plan (rs ! i)"
    "i < length P \<Longrightarrow> dependencies_satisfied (rs ! i) \<Longrightarrow> rs' ! i = rs ! i"
proof -
  have f: "frame_ok P v rs (d # ds, acc, un)" using c by (simp add: casc_def)
  then show d: "d < length P" by (simp add: frame_ok_def)
  note cd = cascD [OF c]
  have plan: "same_plan P rs" and snd_all: "\<forall>i < length P. sound_points P v rs i" using c by (auto simp: casc_def)
  have cc: "cuts d acc un rs res rs' res' rm un'"
    using cut_task_cuts [OF cut] cd(1) [OF d] by (simp add: sound_points_def)
  have fails: "\<forall>e \<in> set un'. \<not> passes P v e"
    by (rule cut_fails [OF wf cd(1) [OF d] d _ cut]) (use f in \<open>simp add: frame_ok_def\<close>)
  note o = cuts_others [OF cc cd(6) [OF d]]
  show "tr_result (rs' ! i) = tr_result (rs ! i)" "set (names rs' i) \<subseteq> set (names rs i)" "tr_plan (rs' ! i) = tr_plan (rs ! i)"
    by (fact o)+
  show "rs' ! i = rs ! i" if "i < length P" "dependencies_satisfied (rs ! i)"
  proof (cases "i = d")
    case True
    have "unmarked (tr_points (rs ! d))" using cd(1) [OF d] by (simp add: sound_points_def)
    from cut_idle [OF f _ cd(6) [OF d] this] that(2) True have "rs' = rs" using cut by simp
    then show ?thesis by simp
  qed (rule o(5))
  have "sound_points P v rs' k \<and> settled P v rs' res' k
      \<and> covered ((tr_dependents (rs ! d), [], ids rm) # (ds, acc, un') # st) rs' k" if k: "k < length P" for k
    using cut_sound [OF cd(1) [OF k] f cc cd(6) [OF d]]
      cut_settled [OF wf cd(1) [OF d] cd(2) [OF k] k d cd(4) [OF k] cc fails unready_cut(2) [OF c cut _ d]]
      cut_covered [OF wf k cd(1) [OF k] cd(3) [OF k] cd(1) [OF d] d plan cc] by blast
  moreover have "same_plan P rs'" using plan o(1,3) by (simp add: same_plan_def)
  moreover have "\<forall>g \<in> set ((tr_dependents (rs ! d), [], ids rm) # (ds, acc, un') # st). frame_ok P v rs' g"
    using cut_frames [OF wf d plan snd_all cc fails f] c f by (auto simp: casc_def)
  ultimately show "casc P v ((tr_dependents (rs ! d), [], ids rm) # (ds, acc, un') # st) rs' res'"
    unfolding casc_def by blast
qed

lemma casc_drop:
  assumes "casc P v (f # st) rs res" "\<And>i d. \<not> tells f i d"
  shows "casc P v st rs res"
  using assms unfolding casc_def covered_def by simp

theorem cascade_ok:
  assumes "well_formed P" "casc P v st (fst s) (snd s)"
  shows "\<exists>rs' res'. cascade st s = Some (rs', res') \<and> casc P v [] rs' res'
    \<and> (\<forall>i. tr_result (rs' ! i) = tr_result (fst s ! i) \<and> set (names rs' i) \<subseteq> set (names (fst s) i)
         \<and> tr_plan (rs' ! i) = tr_plan (fst s ! i)
         \<and> (i < length P \<and> dependencies_satisfied (fst s ! i) \<longrightarrow> rs' ! i = fst s ! i))"
  using assms(2)
proof (induction st s rule: cascade.induct)
  case (1 s)
  then show ?case by (intro exI [of _ "fst s"] exI [of _ "snd s"]) simp
next
  case (2 acc un st s)
  then show ?case using casc_drop [OF 2(2)] by (simp add: tells_def)
next
  case (3 d ds acc un st s)
  obtain rs' res' rm un' where cut: "cut_task d acc un s = ((rs', res'), rm, un')" by (metis surj_pair)
  have cut1: "cut_task d acc un (fst s, snd s) = ((rs', res'), rm, un')" using cut by simp
  note cc = cut_casc [OF assms(1) 3(3) cut1]
  have d: "\<not> d \<ge> length (fst s)" using cc(1) cascD(4) [OF 3(3) cc(1)] by simp
  let ?st = "if rm \<noteq> [] then (tr_dependents (fst s ! d), [], ids rm) # (ds, acc, un') # st else (ds, acc, un') # st"
  have step: "cascade ((d # ds, acc, un) # st) s = cascade ?st (rs', res')" using d cut by simp
  have "casc P v ?st rs' res'" using cc(2) casc_drop [OF cc(2)] by (auto simp: tells_def)
  then have "\<exists>rs2 res2. cascade ?st (rs', res') = Some (rs2, res2) \<and> casc P v [] rs2 res2
    \<and> (\<forall>i. tr_result (rs2 ! i) = tr_result (rs' ! i) \<and> set (names rs2 i) \<subseteq> set (names rs' i)
         \<and> tr_plan (rs2 ! i) = tr_plan (rs' ! i)
         \<and> (i < length P \<and> dependencies_satisfied (rs' ! i) \<longrightarrow> rs2 ! i = rs' ! i))"
    using 3(1,2) d cut by (cases "rm = []") simp_all
  then obtain rs2 res2 where r: "cascade ?st (rs', res') = Some (rs2, res2)" "casc P v [] rs2 res2"
      "\<And>i. tr_result (rs2 ! i) = tr_result (rs' ! i)" "\<And>i. set (names rs2 i) \<subseteq> set (names rs' i)"
      "\<And>i. tr_plan (rs2 ! i) = tr_plan (rs' ! i)"
      "\<And>i. i < length P \<Longrightarrow> dependencies_satisfied (rs' ! i) \<Longrightarrow> rs2 ! i = rs' ! i"
    by blast
  have "rs2 ! i = fst s ! i" if "i < length P" "dependencies_satisfied (fst s ! i)" for i
    using r(6) [of i] cc(6) [of i] that by simp
  moreover have "set (names rs2 i) \<subseteq> set (names (fst s) i)" for i using r(4) [of i] cc(4) [of i] by blast
  ultimately show ?case unfolding step using r(1,2,3,5) cc(3,5)
    by (intro exI [of _ rs2] exI [of _ res2] conjI allI impI) simp_all
qed

section \<open>A task that is done\<close>

abbreviation runner :: "(jstr \<Rightarrow> 'a \<Rightarrow> verdict) \<Rightarrow> 'a point \<Rightarrow> verdict" where
  "runner v \<equiv> \<lambda>t. v (pt_id t) (pt_work t)"

text \<open>
  The verdicts of the points bear their names, and a task ends with the results of the runner. (A task
  that fails with an exception is covered when it has one point, whose verdict is then the failure.)
\<close>

definition named :: "(jstr \<Rightarrow> 'a \<Rightarrow> verdict) \<Rightarrow> bool" where
  "named v \<longleftrightarrow> (\<forall>i w. vd_id (v i w) = i)"

definition runs :: "(jstr \<Rightarrow> 'a \<Rightarrow> verdict) \<Rightarrow> 'a task_rec \<Rightarrow> outcome \<Rightarrow> bool" where
  "runs v r o1 \<longleftrightarrow> outcome_results o1 r = map Some (judge_task (runner v) (tr_points r) [])"

lemma final_id: "named v \<Longrightarrow> vd_id (final P v t) = pt_id t"
  by (auto simp: named_def final_def skipped_result_def plain_result_def split: dep.split)

lemma filter_key: "distinct (map f xs) \<Longrightarrow> x \<in> set xs \<Longrightarrow> filter (\<lambda>y. f y = f x) xs = [x]"
proof (induction xs)
  case (Cons y xs)
  have "filter (\<lambda>z. f z = f y) xs = []" using Cons.prems(1) by (auto simp: filter_empty_conv image_iff)
  then show ?case using Cons by auto
qed simp

lemma finals_by_name:
  "named v \<Longrightarrow> distinct (ids ts) \<Longrightarrow> t \<in> set ts \<Longrightarrow> filter (\<lambda>r. vd_id r = pt_id t) (map (final P v) ts) = [final P v t]"
  using filter_key [of pt_id ts t] by (simp add: filter_map comp_def final_id)

lemma judge_testpoint_final:
  assumes "named v" "distinct (ids pre)" "\<forall>u \<in> set pre. vd_result (final P v u) = Accepted \<longleftrightarrow> passes P v (pt_id u)"
    "pt_dep t \<noteq> Unsatisfied" "\<And>e. pt_dep t = Dep e \<Longrightarrow> e \<in> set (ids pre)"
  shows "judge_testpoint (runner v) t (map (final P v) pre) = final P v t"
proof (cases "pt_dep t")
  case (Dep e)
  then obtain u where u: "u \<in> set pre" "pt_id u = e" using assms(5) by auto
  from finals_by_name [OF assms(1,2) u(1), of P] u(2)
  have "filter (\<lambda>r. vd_id r = e) (map (final P v) pre) = [final P v u]" by simp
  then show ?thesis using assms(3) u Dep by (simp add: judge_testpoint_def final_def [of _ _ t] Let_def)
qed (use assms(4) in \<open>simp_all add: judge_testpoint_def final_def\<close>)

lemma ordered_append: "ordered (xs @ ys) \<Longrightarrow> ordered ys"
  by (induction xs) auto

lemma judge_task_final:
  assumes "named v" "distinct (ids ts0)" "ordered ts0" "unmarked ts0"
    "\<forall>u \<in> set ts0. vd_result (final P v u) = Accepted \<longleftrightarrow> passes P v (pt_id u)"
    "\<forall>u \<in> set ts0. \<forall>e. pt_dep u = Dep e \<longrightarrow> e \<in> set (ids ts0)"
  shows "ts0 = pre @ ts \<Longrightarrow> judge_task (runner v) ts (map (final P v) pre) = map (final P v) ts0"
proof (induction ts arbitrary: pre)
  case (Cons t ts)
  have t: "t \<in> set ts0" and pre: "set pre \<subseteq> set ts0" using Cons.prems by auto
  have "ordered (t # ts)" using assms(3) Cons.prems ordered_append by blast
  then have "e \<in> set (ids pre)" if "pt_dep t = Dep e" for e
    using assms(6) t that Cons.prems by auto
  moreover have "distinct (ids pre)" using assms(2) Cons.prems by simp
  ultimately have "judge_testpoint (runner v) t (map (final P v) pre) = final P v t"
    using judge_testpoint_final [OF assms(1), of pre P t] assms(4,5) t pre by (auto simp: unmarked_def)
  then show ?case using Cons.IH [of "pre @ [t]"] Cons.prems by simp
qed simp

lemma put_results:
  assumes "distinct (map vd_id ws)"
  shows "w \<in> set ws \<Longrightarrow> map_of (fold put_result (map Some ws) m) (vd_id w) = Some w"
    "x \<notin> vd_id ` set ws \<Longrightarrow> map_of (fold put_result (map Some ws) m) x = map_of m x"
proof -
  have "(w \<in> set ws \<longrightarrow> map_of (fold put_result (map Some ws) m) (vd_id w) = Some w)
    \<and> (x \<notin> vd_id ` set ws \<longrightarrow> map_of (fold put_result (map Some ws) m) x = map_of m x)" for w x
    using assms
  proof (induction ws arbitrary: m w x)
    case (Cons u ws)
    have dis: "distinct (map vd_id ws)" "vd_id u \<notin> vd_id ` set ws" using Cons.prems by auto
    note IH = Cons.IH [OF dis(1), of _ "put_result (Some u) m"]
    have up: "map_of (put_result (Some u) m) = (map_of m)(vd_id u \<mapsto> u)" by (simp add: put_result_def update_conv')
    show ?case using IH [of w x] IH [of w "vd_id u"] dis(2) up by auto
  qed simp
  then show "w \<in> set ws \<Longrightarrow> map_of (fold put_result (map Some ws) m) (vd_id w) = Some w"
    "x \<notin> vd_id ` set ws \<Longrightarrow> map_of (fold put_result (map Some ws) m) x = map_of m x" by blast+
qed

lemma fill_nothing: "\<forall>t \<in> set ts. map_of m (pt_id t) \<noteq> None \<Longrightarrow> fold fill_skipped ts m = m"
  by (induction ts) (auto simp: fill_skipped_def)

text \<open>The points of a task that is ready, and their results.\<close>

lemma ready_points:
  assumes wf: "well_formed P" and n: "named v" and snd_i: "sound_points P v rs i" and i: "i < length P"
    and ready: "dependencies_satisfied (rs ! i)" and o: "runs v (rs ! i) o1"
  shows "\<forall>t \<in> set (tr_points (rs ! i)). vd_result (final P v t) = Accepted \<longleftrightarrow> passes P v (pt_id t)"
    "outcome_results o1 (rs ! i) = map Some (map (final P v) (tr_points (rs ! i)))"
    "x \<in> set (names rs i) \<Longrightarrow> accepted_in (outcome_results o1 (rs ! i)) x \<longleftrightarrow> passes P v x"
proof -
  let ?ts = "tr_points (rs ! i)"
  have s: "distinct (ids ?ts)" "ordered ?ts" "unmarked ?ts" using snd_i by (auto simp: sound_points_def)
  have fin: "vd_result (final P v t) = Accepted \<longleftrightarrow> passes P v (pt_id t)" if t: "t \<in> set ?ts" for t
  proof -
    obtain t0 where t0: "t0 \<in> set (tr_points (P ! i))" "descends P v rs t0 t" by (rule origin [OF snd_i t])
    show ?thesis using final_accepted [OF wf i t0(1), of v] descends_final [OF t0(2)] t0(2) by (simp add: descends_def)
  qed
  then show all: "\<forall>t \<in> set ?ts. vd_result (final P v t) = Accepted \<longleftrightarrow> passes P v (pt_id t)" by blast
  have "judge_task (runner v) ?ts (map (final P v) []) = map (final P v) ?ts"
    by (rule judge_task_final [OF n s all]) (use ready in \<open>auto simp: ready_iff\<close>)
  then show vs: "outcome_results o1 (rs ! i) = map Some (map (final P v) ?ts)" using o by (simp add: runs_def)
  assume "x \<in> set (names rs i)"
  then obtain t where t: "t \<in> set ?ts" "x = pt_id t" by auto
  have "accepted_in (outcome_results o1 (rs ! i)) x \<longleftrightarrow> vd_result (final P v t) = Accepted"
    using finals_by_name [OF n s(1) t(1), of P] t(2) unfolding vs by (simp add: accepted_in_def comp_def)
  then show "accepted_in (outcome_results o1 (rs ! i)) x \<longleftrightarrow> passes P v x" using fin t by simp
qed

text \<open>What the loop starts the cascade with, when a task is done.\<close>

lemma done_casc:
  assumes wf: "well_formed P" and n: "named v" and c: "casc P v [] rs res" and i: "i < length P"
    and ready: "dependencies_satisfied (rs ! i)" and open1: "tr_result (rs ! i) = None" and o: "runs v (rs ! i) o1"
    and acc: "set acc = {x \<in> set (names rs i). passes P v x}" "set un = {x \<in> set (names rs i). \<not> passes P v x}"
  defines "rs1 \<equiv> rs[i := (rs ! i)\<lparr>tr_result := Some (outcome_results o1 (rs ! i))\<rparr>]"
  defines "res1 \<equiv> fold put_result (outcome_results o1 (rs ! i)) res"
  shows "casc P v [(tr_dependents (rs ! i), acc, un)] rs1 res1"
    "\<forall>t \<in> set (tr_points (rs ! i)). map_of res1 (pt_id t) \<noteq> None"
proof -
  note ci = cascD [OF c i]
  note rp = ready_points [OF wf n ci(1) i ready o]
  have pts: "tr_points (rs1 ! k) = tr_points (rs ! k)" "tr_dependents (rs1 ! k) = tr_dependents (rs ! k)"
      "tr_result (rs1 ! k) \<noteq> None \<longleftrightarrow> k = i \<or> tr_result (rs ! k) \<noteq> None" "length rs1 = length rs" for k
    using ci(6) by (auto simp: rs1_def nth_list_update)
  have open_k: "tr_result (rs1 ! k) = None \<longleftrightarrow> k \<noteq> i \<and> tr_result (rs ! k) = None" for k using pts(3) [of k] by blast
  have dis: "distinct (map vd_id (map (final P v) (tr_points (rs ! i))))"
    using ci(1) final_id [OF n] by (simp add: sound_points_def comp_def)
  have ids_final: "vd_id ` set (map (final P v) (tr_points (rs ! i))) = set (names rs i)"
    by (simp add: image_image final_id [OF n])
  have own: "map_of res1 (pt_id t) = Some (final P v t)" if "t \<in> set (tr_points (rs ! i))" for t
    using put_results(1) [OF dis, of "final P v t" res] that unfolding res1_def rp(2) by (simp add: final_id [OF n])
  have other: "map_of res1 x = map_of res x" if "x \<notin> set (names rs i)" for x
    unfolding res1_def rp(2) by (rule put_results(2) [OF dis]) (use that ids_final in simp)
  show "\<forall>t \<in> set (tr_points (rs ! i)). map_of res1 (pt_id t) \<noteq> None" using own by simp
  have mono: "descends P v rs t0 t \<Longrightarrow> descends P v rs1 t0 t" for t0 t using pts(3) unfolding descends_def by blast
  have "sound_points P v rs1 k" if "k < length P" for k
    using cascD(1) [OF c that] mono pts(1) unfolding sound_points_def by metis
  moreover have "settled P v rs1 res1 k" if k: "k < length P" for k
    unfolding settled_def
  proof (intro ballI impI)
    fix t assume t: "t \<in> set (tr_points (P ! k))" "pt_id t \<notin> set (names rs1 k) \<or> tr_result (rs1 ! k) \<noteq> None"
    show "map_of res1 (pt_id t) = Some (final P v t)"
    proof (cases "pt_id t \<in> set (names rs i)")
      case True
      then obtain u where u: "u \<in> set (tr_points (rs ! i))" "pt_id u = pt_id t" by auto
      obtain u0 where u0: "u0 \<in> set (tr_points (P ! i))" "descends P v rs u0 u" by (rule origin [OF ci(1) u(1)])
      have "u0 = t" using point_unique [OF wf i u0(1) k t(1)] u0(2) u(2) by (simp add: descends_def)
      then show ?thesis using own [OF u(1)] u(2) descends_final [OF u0(2)] by simp
    next
      case False
      then have "pt_id t \<notin> set (names rs k) \<or> tr_result (rs ! k) \<noteq> None"
        using t(2) pts(1,3) by (cases "k = i") auto
      then show ?thesis using cascD(2) [OF c k] t(1) other [OF False] by (simp add: settled_def)
    qed
  qed
  moreover have "covered [(tr_dependents (rs ! i), acc, un)] rs1 k" if k: "k < length P" for k
    unfolding covered_def
  proof (intro ballI allI impI)
    fix t e assume t: "t \<in> set (tr_points (rs1 ! k))" "pt_dep t = Dep e"
    then have t1: "t \<in> set (tr_points (rs ! k))" using pts(1) by simp
    show "e \<in> set (names rs1 k) \<or> tr_result (rs1 ! k) = None
        \<and> ((\<exists>j. holds rs1 j e \<and> tr_result (rs1 ! j) = None) \<or> (\<exists>f \<in> set [(tr_dependents (rs ! i), acc, un)]. tells f k e))"
    proof (cases "e \<in> set (names rs k)")
      case False
      then have ki: "k \<noteq> i" using t1 t(2) ready unfolding ready_iff by blast
      obtain j where j: "holds rs j e" "tr_result (rs ! j) = None" "tr_result (rs ! k) = None"
        using cascD(3) [OF c k] False t1 t(2) unfolding covered_def list.set(1) bex_empty by blast
      show ?thesis
      proof (cases "j = i")
        case True
        then have e: "e \<in> set (names rs i)" using j(1) by (simp add: holds_def)
        obtain t0 where t0: "t0 \<in> set (tr_points (P ! k))" "pt_dep t0 = Dep e"
          using waiting_origin [OF cascD(1) [OF c k] t1 t(2)] by blast
        have "k \<in> set (tr_dependents (rs ! i))"
          using plan_dependent [OF wf k t0 holds_plan [OF ci(1) i e]] ki ci(5) by simp
        then have "tells (tr_dependents (rs ! i), acc, un) k e" using e acc by (auto simp: tells_def)
        then show ?thesis using open_k j(3) ki by simp
      next
        case False
        then show ?thesis using j open_k ki pts(1,4) by (auto simp: holds_def)
      qed
    qed (use pts(1) in simp)
  qed
  moreover have "frame_ok P v rs1 (tr_dependents (rs ! i), acc, un)"
  proof -
    have "k < length P \<and> (\<forall>d. d \<in> set (names rs i) \<longrightarrow> d \<notin> set (names rs1 k))" if "k \<in> set (tr_dependents (rs ! i))" for k
    proof -
      have k: "k < length P" "k \<noteq> i" using no_self_dependent [OF wf i] that ci(5) by auto
      have "d \<notin> set (names rs k)" if "d \<in> set (names rs i)" for d
        using holds_plan [OF ci(1) i that] holds_plan [OF cascD(1) [OF c k(1)] k(1)] holds_unique [OF wf] k(2) by blast
      then show ?thesis using k(1) pts(1) by simp
    qed
    moreover have "holds P i d" if "d \<in> set (names rs i)" for d by (rule holds_plan [OF ci(1) i that])
    ultimately show ?thesis using acc pts(3) unfolding frame_ok_def tells_def fst_conv snd_conv by blast
  qed
  moreover have "same_plan P rs1" using c pts(2,4) by (simp add: casc_def same_plan_def)
  ultimately show "casc P v [(tr_dependents (rs ! i), acc, un)] rs1 res1" unfolding casc_def by simp
qed

definition moved :: "'a task_rec list \<Rightarrow> nat set \<Rightarrow> 'a exec \<Rightarrow> 'a exec \<Rightarrow> bool" where
  "moved P D s s' \<longleftrightarrow> running s' = running s
    \<and> (\<forall>k. (tr_result (recs s' ! k) \<noteq> None \<longleftrightarrow> k \<in> D \<or> tr_result (recs s ! k) \<noteq> None)
          \<and> set (names (recs s') k) \<subseteq> set (names (recs s) k)
          \<and> (k < length P \<and> k \<notin> D \<and> dependencies_satisfied (recs s ! k) \<longrightarrow> recs s' ! k = recs s ! k))"

lemma movedD:
  assumes "moved P D s s'"
  shows "running s' = running s" "tr_result (recs s' ! k) \<noteq> None \<longleftrightarrow> k \<in> D \<or> tr_result (recs s ! k) \<noteq> None"
    "set (names (recs s') k) \<subseteq> set (names (recs s) k)"
    "k < length P \<Longrightarrow> k \<notin> D \<Longrightarrow> dependencies_satisfied (recs s ! k) \<Longrightarrow> recs s' ! k = recs s ! k"
  using assms unfolding moved_def by blast+

lemma moved_trans:
  assumes "moved P D s s1" "moved P E s1 s2"
  shows "moved P (D \<union> E) s s2"
  unfolding moved_def
proof (intro conjI allI)
  fix k
  note a = movedD [OF assms(1)] and b = movedD [OF assms(2)]
  show "running s2 = running s" using a(1) b(1) by simp
  show "tr_result (recs s2 ! k) \<noteq> None \<longleftrightarrow> k \<in> D \<union> E \<or> tr_result (recs s ! k) \<noteq> None" using a(2) [of k] b(2) [of k] by blast
  show "set (names (recs s2) k) \<subseteq> set (names (recs s) k)" using a(3) [of k] b(3) [of k] by blast
  show "k < length P \<and> k \<notin> D \<union> E \<and> dependencies_satisfied (recs s ! k) \<longrightarrow> recs s2 ! k = recs s ! k"
    using a(4) [of k] b(4) [of k] by auto
qed

lemma complete_one_ok:
  assumes wf: "well_formed P" and n: "named v" and c: "casc P v [] (recs s) (results s)" and i: "i < length P"
    and ready: "dependencies_satisfied (recs s ! i)" and open1: "tr_result (recs s ! i) = None" and o: "runs v (recs s ! i) o1"
  shows "\<exists>s'. complete_one (i, o1) s = Some s' \<and> casc P v [] (recs s') (results s') \<and> moved P {i} s s'"
proof -
  let ?vs = "outcome_results o1 (recs s ! i)"
  let ?rs = "(recs s)[i := (recs s ! i)\<lparr>tr_result := Some ?vs\<rparr>]"
  let ?res = "fold put_result ?vs (results s)"
  let ?acc = "filter (accepted_in ?vs) (names (recs s) i)"
  let ?un = "filter (\<lambda>x. \<not> accepted_in ?vs x) (names (recs s) i)"
  note ci = cascD [OF c i]
  note rp = ready_points [OF wf n ci(1) i ready o]
  have acc: "set ?acc = {x \<in> set (names (recs s) i). passes P v x}" "set ?un = {x \<in> set (names (recs s) i). \<not> passes P v x}"
    using rp(3) by (auto simp del: set_map)
  note dc = done_casc [OF wf n c i ready open1 o acc]
  have fill: "fold fill_skipped (tr_points (recs s ! i)) ?res = ?res" by (rule fill_nothing [OF dc(2)])
  have none: "None \<notin> set ?vs" using rp(2) by auto
  obtain rs' res' where r: "cascade [(tr_dependents (recs s ! i), ?acc, ?un)] (?rs, ?res) = Some (rs', res')"
      "casc P v [] rs' res'" "\<And>k. tr_result (rs' ! k) = tr_result (?rs ! k)" "\<And>k. set (names rs' k) \<subseteq> set (names ?rs k)"
      "\<And>k. tr_plan (rs' ! k) = tr_plan (?rs ! k)"
      "\<And>k. k < length P \<Longrightarrow> dependencies_satisfied (?rs ! k) \<Longrightarrow> rs' ! k = ?rs ! k"
    using cascade_ok [OF wf, of v "[(tr_dependents (recs s ! i), ?acc, ?un)]" "(?rs, ?res)"] dc(1) by auto
  have step: "complete_one (i, o1) s = Some (s\<lparr>recs := rs', results := res'\<rparr>)"
    unfolding complete_one_def fst_conv snd_conv Let_def fill r(1) using none by simp
  have k: "(tr_result (?rs ! k) \<noteq> None \<longleftrightarrow> k = i \<or> tr_result (recs s ! k) \<noteq> None)"
      "set (names ?rs k) = set (names (recs s) k)" "tr_plan (?rs ! k) = tr_plan (recs s ! k)" "k \<noteq> i \<Longrightarrow> ?rs ! k = recs s ! k" for k
    using ci(6) by (auto simp: nth_list_update)
  let ?s = "s\<lparr>recs := rs', results := res'\<rparr>"
  have "moved P {i} s ?s"
    unfolding moved_def
  proof (intro conjI allI)
    fix j
    show "tr_result (recs ?s ! j) \<noteq> None \<longleftrightarrow> j \<in> {i} \<or> tr_result (recs s ! j) \<noteq> None"
      using r(3) [of j] k(1) [of j] by simp
    show "set (names (recs ?s) j) \<subseteq> set (names (recs s) j)"
      using r(4) [of j] k(2) [of j] by (simp del: set_map)
    show "j < length P \<and> j \<notin> {i} \<and> dependencies_satisfied (recs s ! j) \<longrightarrow> recs ?s ! j = recs s ! j"
      using r(6) [of j] k(4) [of j] by simp
  qed simp
  then show ?thesis using step r(2) by (intro exI [of _ ?s]) simp
qed

text \<open>The tasks that are done at once, one after the other.\<close>

definition can_end :: "'a task_rec list \<Rightarrow> (jstr \<Rightarrow> 'a \<Rightarrow> verdict) \<Rightarrow> 'a exec \<Rightarrow> nat \<times> outcome \<Rightarrow> bool" where
  "can_end P v s d \<longleftrightarrow> fst d < length P \<and> dependencies_satisfied (recs s ! fst d)
     \<and> tr_result (recs s ! fst d) = None \<and> runs v (recs s ! fst d) (snd d)"

lemma complete_all_ok:
  assumes wf: "well_formed P" and n: "named v"
  shows "\<lbrakk>casc P v [] (recs s) (results s); distinct (map fst ds); \<forall>d \<in> set ds. can_end P v s d\<rbrakk>
   \<Longrightarrow> \<exists>s'. complete_all ds s = Some s' \<and> casc P v [] (recs s') (results s') \<and> moved P (fst ` set ds) s s'"
proof (induction ds arbitrary: s)
  case Nil
  then show ?case by (simp add: moved_def)
next
  case (Cons d ds)
  have d: "can_end P v s (fst d, snd d)" using Cons.prems(3) by simp
  then obtain s1 where s1: "complete_one (fst d, snd d) s = Some s1" "casc P v [] (recs s1) (results s1)" "moved P {fst d} s s1"
    using complete_one_ok [OF wf n Cons.prems(1), of "fst d" "snd d"] unfolding can_end_def fst_conv snd_conv by blast
  have "can_end P v s1 e" if e: "e \<in> set ds" for e
  proof -
    have "fst d \<notin> fst ` set ds" using Cons.prems(2) by simp
    then have "fst e \<noteq> fst d" using e by (metis imageI)
    moreover have "can_end P v s e" using Cons.prems(3) e by simp
    ultimately show ?thesis using movedD(4) [OF s1(3), of "fst e"] by (simp add: can_end_def)
  qed
  then obtain s2 where s2: "complete_all ds s1 = Some s2" "casc P v [] (recs s2) (results s2)" "moved P (fst ` set ds) s1 s2"
    using Cons.IH [OF s1(2)] Cons.prems(2) by auto
  have "complete_all (d # ds) s = Some s2" using s1(1) s2(1) by simp
  moreover have "moved P (fst ` set (d # ds)) s s2" using moved_trans [OF s1(3) s2(3)] by simp
  ultimately show ?case using s2(2) by blast
qed

section \<open>The run\<close>

definition parent :: "'a task_rec list \<Rightarrow> nat \<Rightarrow> nat \<Rightarrow> bool" where
  "parent P j i \<longleftrightarrow> j < length P \<and> i \<in> set (tr_dependents (P ! j))"

text \<open>A task is called for once the task it waits for has finished, or when it waits for none.\<close>

definition called :: "'a task_rec list \<Rightarrow> 'a task_rec list \<Rightarrow> nat \<Rightarrow> bool" where
  "called P rs i \<longleftrightarrow> (\<forall>j. parent P j i \<longrightarrow> tr_result (rs ! j) \<noteq> None)"

definition loop_ok :: "'a task_rec list \<Rightarrow> (jstr \<Rightarrow> 'a \<Rightarrow> verdict) \<Rightarrow> 'a exec \<Rightarrow> bool" where
  "loop_ok P v s \<longleftrightarrow> casc P v [] (recs s) (results s) \<and> distinct (running s) \<and> set (running s) \<subseteq> {..<length P}
     \<and> (\<forall>i < length P. (i \<in> set (running s) \<longleftrightarrow>
            tr_result (recs s ! i) = None \<and> tr_points (recs s ! i) \<noteq> [] \<and> called P (recs s) i)
          \<and> (tr_result (recs s ! i) \<noteq> None \<longrightarrow> called P (recs s) i))"

lemma child_waits:
  assumes "well_formed P" "one_source P" "parent P j i" "t \<in> set (tr_points (P ! i))"
  obtains d where "pt_dep t = Dep d" "holds P i d \<or> holds P j d"
  using assms unfolding one_source_def parent_def by blast

lemma child_first:
  assumes wf: "well_formed P" and "parent P j i"
  obtains t ts where "tr_points (P ! i) = t # ts" "i < length P" "i \<noteq> j"
proof -
  have "i < length P" "i \<noteq> j" "tr_points (P ! i) \<noteq> []"
    using assms no_self_dependent [OF wf] unfolding well_formed_def parent_def by fastforce+
  then show ?thesis using that by (cases "tr_points (P ! i)") auto
qed

lemma first_not_own:
  assumes "ordered (t # ts)" "pt_dep t = Dep d"
  shows "d \<notin> set (ids (t # ts))"
  using assms by simp

lemma one_parent:
  assumes wf: "well_formed P" and os: "one_source P" and p: "parent P j i" "parent P k i"
  shows "j = k"
proof -
  obtain t ts where t: "tr_points (P ! i) = t # ts" "i < length P" by (rule child_first [OF wf p(1)])
  have tin: "t \<in> set (tr_points (P ! i))" using t(1) by simp
  obtain d where d: "pt_dep t = Dep d" "holds P i d \<or> holds P j d" by (rule child_waits [OF wf os p(1) tin])
  obtain e where e: "pt_dep t = Dep e" "holds P i e \<or> holds P k e" by (rule child_waits [OF wf os p(2) tin])
  have "ordered (t # ts)" using wf nth_mem [OF t(2)] t(1) unfolding well_formed_def by metis
  from first_not_own [OF this d(1)] have "\<not> holds P i d" using t(1) by (simp add: holds_def)
  then show ?thesis using d e holds_unique [OF wf] by auto
qed

text \<open>Every waiting point of an open task waits for its own task, or for the task that is its parent.\<close>

lemma waits_for:
  assumes wf: "well_formed P" and os: "one_source P" and c: "casc P v [] rs res" and i: "i < length P"
    and t: "t \<in> set (tr_points (rs ! i))" "pt_dep t = Dep d" "d \<notin> set (names rs i)"
  obtains j where "parent P j i" "tr_result (rs ! j) = None" "tr_points (rs ! j) \<noteq> []" "tr_result (rs ! i) = None"
proof -
  obtain j where j: "holds rs j d" "tr_result (rs ! j) = None" "tr_result (rs ! i) = None"
    using cascD(3) [OF c i] t unfolding covered_def list.set(1) bex_empty by blast
  have jl: "j < length P" using j(1) cascD(4) [OF c i] by (simp add: holds_def)
  have "j \<noteq> i" using j(1) t(3) by (auto simp: holds_def)
  obtain t0 where t0: "t0 \<in> set (tr_points (P ! i))" "pt_dep t0 = Dep d"
    using waiting_origin [OF cascD(1) [OF c i] t(1,2)] by blast
  have "d \<in> set (names rs j)" using j(1) by (simp add: holds_def)
  from plan_dependent [OF wf i t0 holds_plan [OF cascD(1) [OF c jl] jl this] \<open>j \<noteq> i\<close>]
  have "parent P j i" using jl by (simp add: parent_def)
  moreover have "tr_points (rs ! j) \<noteq> []" using j(1) by (auto simp: holds_def)
  ultimately show ?thesis using that j(2,3) by blast
qed

lemma called_ready:
  assumes "well_formed P" "one_source P" "casc P v [] rs res" "i < length P" "called P rs i"
  shows "dependencies_satisfied (rs ! i)"
  unfolding ready_iff
proof (intro ballI allI impI)
  fix t d assume t: "t \<in> set (tr_points (rs ! i))" "pt_dep t = Dep d"
  show "d \<in> set (names rs i)"
  proof (rule ccontr)
    assume "d \<notin> set (names rs i)"
    from waits_for [OF assms(1-4) t this] obtain j where "parent P j i" "tr_result (rs ! j) = None" by blast
    then show False using assms(5) unfolding called_def by blast
  qed
qed

text \<open>A task with points left is not ready before its parent has finished.\<close>

lemma ready_called:
  assumes wf: "well_formed P" and os: "one_source P" and c: "casc P v [] rs res" and i: "i < length P"
    and ready: "dependencies_satisfied (rs ! i)" "tr_points (rs ! i) \<noteq> []" "tr_result (rs ! i) = None"
  shows "called P rs i"
  unfolding called_def
proof (intro allI impI)
  fix j assume p: "parent P j i"
  obtain t ts where t: "tr_points (rs ! i) = t # ts" using ready(2) by (cases "tr_points (rs ! i)") auto
  then have tin: "t \<in> set (tr_points (rs ! i))" by simp
  have snd_i: "sound_points P v rs i" by (rule cascD(1) [OF c i])
  then have ord: "ordered (t # ts)" "pt_dep t \<noteq> Unsatisfied" using t by (auto simp: sound_points_def unmarked_def)
  have "pt_dep t \<noteq> Dep d" for d using first_not_own [OF ord(1)] ready(1) t unfolding ready_iff by auto
  then have free: "pt_dep t = NoDep" using ord(2) by (cases "pt_dep t") auto
  obtain t0 where t0: "t0 \<in> set (tr_points (P ! i))" "descends P v rs t0 t" by (rule origin [OF snd_i tin])
  obtain d where d: "pt_dep t0 = Dep d" "holds P i d \<or> holds P j d" by (rule child_waits [OF wf os p t0(1)])
  then obtain k where k: "holds P k d" "tr_result (rs ! k) \<noteq> None" using t0(2) free by (auto simp: descends_def)
  then have "k \<noteq> i" using ready(3) by auto
  then have "k = j" using k(1) d(2) holds_unique [OF wf] by blast
  then show "tr_result (rs ! j) \<noteq> None" using k(2) by simp
qed

lemma loop_okD:
  assumes "loop_ok P v s"
  shows "casc P v [] (recs s) (results s)" "distinct (running s)" "set (running s) \<subseteq> {..<length P}"
    "i < length P \<Longrightarrow> i \<in> set (running s) \<longleftrightarrow>
       tr_result (recs s ! i) = None \<and> tr_points (recs s ! i) \<noteq> [] \<and> called P (recs s) i"
    "i < length P \<Longrightarrow> tr_result (recs s ! i) \<noteq> None \<Longrightarrow> called P (recs s) i"
  using assms unfolding loop_ok_def by blast+

lemma casc_begin:
  assumes wf: "well_formed P"
  shows "casc P v [] P []"
proof -
  have rec: "tr_result (P ! i) = None \<and> unmarked (tr_points (P ! i)) \<and> ordered (tr_points (P ! i))" if "i < length P" for i
    using wf nth_mem [OF that] unfolding well_formed_def by blast
  have "covered [] P i" if i: "i < length P" for i
    unfolding covered_def
  proof (intro ballI allI impI)
    fix t d assume t: "t \<in> set (tr_points (P ! i))" "pt_dep t = Dep d"
    then obtain j where "holds P j d" using wf i unfolding well_formed_def by blast
    then show "d \<in> set (names P i) \<or> tr_result (P ! i) = None
        \<and> ((\<exists>j. holds P j d \<and> tr_result (P ! j) = None) \<or> (\<exists>f \<in> set []. tells f i d))"
      using rec [OF i] rec [of j] by (auto simp: holds_def)
  qed
  moreover have "sound_points P v P i" if "i < length P" for i
    using rec [OF that] distinct_names [OF wf that] by (auto simp: sound_points_def descends_def)
  moreover have "settled P v P [] i" if "i < length P" for i
    using rec [OF that] by (simp add: settled_def)
  ultimately show ?thesis unfolding casc_def same_plan_def by simp
qed

lemma loop_ok_begin:
  assumes wf: "well_formed P" and os: "one_source P"
  shows "loop_ok P v (begin_run P)"
proof -
  note c = casc_begin [OF wf, of v]
  have open_i: "tr_result (P ! i) = None" if "i < length P" for i
    using wf nth_mem [OF that] unfolding well_formed_def by blast
  have "dependencies_satisfied (P ! i) \<longleftrightarrow> called P P i" if "i < length P" "tr_points (P ! i) \<noteq> []" for i
    using ready_called [OF wf os c that(1) _ that(2)] called_ready [OF wf os c that(1)] open_i [OF that(1)] by blast
  then show ?thesis using c open_i unfolding loop_ok_def by (auto simp: begin_run_def startable_def)
qed

text \<open>What may happen: reports of the tasks under way, on their points, and their ends.\<close>

fun may :: "(jstr \<Rightarrow> 'a \<Rightarrow> verdict) \<Rightarrow> 'a exec \<Rightarrow> exec_op \<Rightarrow> bool" where
  "may v s (Started i) \<longleftrightarrow> i \<in> set (running s)"
| "may v s (Progress i vs) \<longleftrightarrow>
    i \<in> set (running s) \<and> list_all (\<lambda>x. case x of None \<Rightarrow> True | Some w \<Rightarrow> vd_id w \<in> set (names (recs s) i)) vs"
| "may v s (Done ds) \<longleftrightarrow>
    distinct (map fst ds) \<and> list_all (\<lambda>d. fst d \<in> set (running s) \<and> runs v (recs s ! fst d) (snd d)) ds"

fun may_all :: "(jstr \<Rightarrow> 'a \<Rightarrow> verdict) \<Rightarrow> exec_op list \<Rightarrow> 'a exec \<Rightarrow> bool" where
  "may_all v [] s = True"
| "may_all v (op # ops) s \<longleftrightarrow>
    may v s op \<and> (case exec_step op s of None \<Rightarrow> True | Some s' \<Rightarrow> may_all v ops s')"

lemma settled_less:
  assumes "settled P v rs res i" "\<And>x. x \<in> set (names P i) \<Longrightarrow>
      x \<notin> set (names rs i) \<or> tr_result (rs ! i) \<noteq> None \<Longrightarrow> map_of res' x = map_of res x"
  shows "settled P v rs res' i"
  unfolding settled_def
proof (intro ballI impI)
  fix t assume t: "t \<in> set (tr_points (P ! i))" "pt_id t \<notin> set (names rs i) \<or> tr_result (rs ! i) \<noteq> None"
  have "map_of res' (pt_id t) = map_of res (pt_id t)" by (rule assms(2) [OF _ t(2)]) (use t(1) in simp)
  then show "map_of res' (pt_id t) = Some (final P v t)" using assms(1) t unfolding settled_def by metis
qed

lemma casc_results:
  assumes wf: "well_formed P" and c: "casc P v [] rs res" and i: "i < length P" "tr_result (rs ! i) = None"
    and same: "\<And>x. x \<notin> set (names rs i) \<Longrightarrow> map_of res' x = map_of res x"
  shows "casc P v [] rs res'"
proof -
  have "settled P v rs res' k" if k: "k < length P" for k
  proof (rule settled_less [OF cascD(2) [OF c k]])
    fix x assume x: "x \<in> set (names P k)" "x \<notin> set (names rs k) \<or> tr_result (rs ! k) \<noteq> None"
    have "x \<notin> set (names rs i)"
    proof
      assume xi: "x \<in> set (names rs i)"
      have "holds P k x" using x(1) k by (simp add: holds_def)
      then have "k = i" using holds_plan [OF cascD(1) [OF c i(1)] i(1) xi] holds_unique [OF wf] by blast
      then show False using x(2) xi i(2) by blast
    qed
    then show "map_of res' x = map_of res x" by (rule same)
  qed
  then show ?thesis using c unfolding casc_def by blast
qed

lemma started_results:
  "x \<notin> set (ids ts) \<Longrightarrow> map_of (fold start_result ts m) x = map_of m x"
  by (induction ts arbitrary: m) (auto simp: start_result_def update_conv')

lemma progress_results:
  "list_all (\<lambda>w. case w of None \<Rightarrow> True | Some w \<Rightarrow> vd_id w \<in> X) vs \<Longrightarrow> x \<notin> X
   \<Longrightarrow> map_of (fold progress_result vs m) x = map_of m x"
proof (induction vs arbitrary: m)
  case (Cons w vs)
  have "map_of (progress_result w m) x = map_of m x"
    using Cons.prems by (auto simp: progress_result_def update_conv' split: option.splits)
  then show ?case using Cons by simp
qed simp

text \<open>Tasks that end: those called for by them start, and no others.\<close>

definition ended :: "exec_op \<Rightarrow> nat list" where
  "ended op = (case op of Done ds \<Rightarrow> map fst ds | _ \<Rightarrow> [])"

lemma fold_remove1_set:
  "distinct xs \<Longrightarrow> set (fold (\<lambda>d. remove1 (f d)) ds xs) = set xs - f ` set ds \<and> distinct (fold (\<lambda>d. remove1 (f d)) ds xs)"
  by (induction ds arbitrary: xs) auto

lemma done_running:
  assumes wf: "well_formed P" and os: "one_source P" and k: "loop_ok P v s" and c: "casc P v [] (recs s') (results s')"
    and m: "moved P D s s'" and D: "D \<subseteq> set (running s)" and i: "i < length P"
  shows "i \<in> set (running s) - D \<or> tr_points (recs s' ! i) \<noteq> [] \<and> dependencies_satisfied (recs s' ! i) \<and> (\<exists>j \<in> D. parent P j i)
     \<longleftrightarrow> tr_result (recs s' ! i) = None \<and> tr_points (recs s' ! i) \<noteq> [] \<and> called P (recs s') i"
    "\<exists>j \<in> D. parent P j i \<Longrightarrow> i \<notin> set (running s)" "tr_result (recs s' ! i) \<noteq> None \<Longrightarrow> called P (recs s') i"
proof -
  note kd = loop_okD [OF k]
  note md = movedD [OF m]
  have D_open: "tr_result (recs s ! j) = None \<and> j < length P" if "j \<in> D" for j
    using kd(3,4) D that by blast
  have keeps: "called P (recs s') i" if "called P (recs s) i" using that md(2) unfolding called_def by blast
  have waits: "\<not> called P (recs s) i" if "j \<in> D" "parent P j i" for j
    using that D_open unfolding called_def by blast
  show "i \<notin> set (running s)" if "\<exists>j \<in> D. parent P j i" using waits that kd(4) [OF i] by blast
  show "called P (recs s') i" if "tr_result (recs s' ! i) \<noteq> None"
  proof (cases "i \<in> D")
    case True
    then show ?thesis using kd(4) [OF i] D keeps by blast
  next
    case False
    then show ?thesis using that md(2) [of i] kd(5) [OF i] keeps by blast
  qed
  have same: "recs s' ! i = recs s ! i" if "i \<in> set (running s)" "i \<notin> D"
    using md(4) [OF i that(2)] called_ready [OF wf os kd(1) i] kd(4) [OF i] that(1) by blast
  have was: "tr_points (recs s ! i) \<noteq> []" if "tr_points (recs s' ! i) \<noteq> []"
    using md(3) [of i] that by (cases "tr_points (recs s ! i)") auto
  have new: "called P (recs s') i" if "j \<in> D" "parent P j i" for j
    unfolding called_def using one_parent [OF wf os that(2)] md(2) that(1) by blast
  show "i \<in> set (running s) - D \<or> tr_points (recs s' ! i) \<noteq> [] \<and> dependencies_satisfied (recs s' ! i) \<and> (\<exists>j \<in> D. parent P j i)
     \<longleftrightarrow> tr_result (recs s' ! i) = None \<and> tr_points (recs s' ! i) \<noteq> [] \<and> called P (recs s') i" (is "?l \<longleftrightarrow> ?r")
  proof
    assume ?l
    then show ?r
    proof
      assume r: "i \<in> set (running s) - D"
      then show ?r using same kd(4) [OF i] keeps by auto
    next
      assume r: "tr_points (recs s' ! i) \<noteq> [] \<and> dependencies_satisfied (recs s' ! i) \<and> (\<exists>j \<in> D. parent P j i)"
      then have no: "\<not> called P (recs s) i" using waits by blast
      then have "i \<notin> D" using D kd(4) [OF i] by blast
      then have "tr_result (recs s' ! i) = None" using no kd(5) [OF i] md(2) [of i] by blast
      then show ?r using r new by blast
    qed
  next
    assume r: ?r
    then have i_open: "i \<notin> D" "tr_result (recs s ! i) = None" using md(2) [of i] by blast+
    show ?l
    proof (cases "called P (recs s) i")
      case True
      then show ?l using kd(4) [OF i] i_open was r by blast
    next
      case False
      then obtain j where "parent P j i" "j \<in> D" using r md(2) unfolding called_def by blast
      then show ?l using r called_ready [OF wf os c i] by blast
    qed
  qed
qed

lemma loop_ok_step:
  assumes wf: "well_formed P" and os: "one_source P" and n: "named v" and k: "loop_ok P v s" and m: "may v s op"
  shows "\<exists>s'. exec_step op s = Some s' \<and> loop_ok P v s'
    \<and> (\<forall>i. tr_result (recs s' ! i) \<noteq> None \<longleftrightarrow> i \<in> set (ended op) \<or> tr_result (recs s ! i) \<noteq> None)"
proof -
  note kd = loop_okD [OF k]
  have under_way: "i < length P \<and> tr_result (recs s ! i) = None \<and> dependencies_satisfied (recs s ! i)" if "i \<in> set (running s)" for i
    using kd(3,4) that called_ready [OF wf os kd(1), of i] by blast
  have report: "loop_ok P v (s\<lparr>results := res\<rparr>)"
    if "i \<in> set (running s)" "\<And>x. x \<notin> set (names (recs s) i) \<Longrightarrow> map_of res x = map_of (results s) x" for i res
    using casc_results [OF wf kd(1), of i res] under_way [OF that(1)] that(2) k unfolding loop_ok_def by simp
  show ?thesis
  proof (cases op)
    case (Started i)
    have "loop_ok P v (s\<lparr>results := fold start_result (tr_points (recs s ! i)) (results s)\<rparr>)"
      by (rule report [of i]) (use Started m started_results in simp_all)
    then show ?thesis using Started by (simp add: ended_def)
  next
    case (Progress i vs)
    have "loop_ok P v (s\<lparr>results := fold progress_result vs (results s)\<rparr>)"
    proof (rule report [of i])
      fix x assume "x \<notin> set (names (recs s) i)"
      then show "map_of (fold progress_result vs (results s)) x = map_of (results s) x"
        by (rule progress_results [rotated]) (use Progress m in \<open>simp del: set_map\<close>)
    qed (use Progress m in simp)
    then show ?thesis using Progress by (simp add: ended_def)
  next
    case (Done ds)
    have "\<forall>d \<in> set ds. can_end P v s d"
      using m Done under_way by (auto simp: can_end_def list_all_iff)
    then obtain s1 where s1: "complete_all ds s = Some s1" "casc P v [] (recs s1) (results s1)" "moved P (fst ` set ds) s s1"
      using complete_all_ok [OF wf n kd(1)] m Done by auto
    let ?next = "remdups (concat (map (\<lambda>d. tr_dependents (recs s ! fst d)) ds))"
    let ?s = "s1\<lparr>running := fold (\<lambda>d. remove1 (fst d)) ds (running s) @ startable (recs s1) ?next\<rparr>"
    have step: "exec_step op s = Some ?s" using Done s1(1) by (simp add: Let_def)
    have D: "fst ` set ds \<subseteq> set (running s)" using m Done by (auto simp: list_all_iff)
    note dr = done_running [OF wf os k s1(2,3) D]
    note rem = fold_remove1_set [OF kd(2), of fst ds]
    have deps: "tr_dependents (recs s ! fst d) = tr_dependents (P ! fst d)" if "d \<in> set ds" for d
      using cascD(5) [OF kd(1)] D kd(3) that by blast
    have in_plan: "fst d < length P" if "d \<in> set ds" for d
      using imageI [OF that, of fst] D kd(3) by blast
    have next_iff: "i \<in> set ?next \<longleftrightarrow> (\<exists>j \<in> fst ` set ds. parent P j i)" for i
      by (simp add: parent_def deps in_plan)
    have next_range: "i < length P" if "i \<in> set ?next" for i
      using that no_self_dependent [OF wf] unfolding next_iff parent_def by blast
    have new: "i \<in> set (startable (recs s1) ?next) \<longleftrightarrow> tr_points (recs s1 ! i) \<noteq> [] \<and> dependencies_satisfied (recs s1 ! i)
        \<and> (\<exists>j \<in> fst ` set ds. parent P j i)" for i
      unfolding startable_def set_filter next_iff [symmetric] by blast
    have "distinct (startable (recs s1) ?next)" unfolding startable_def by simp
    moreover have "set (startable (recs s1) ?next) \<inter> (set (running s) - fst ` set ds) = {}"
      using new dr(2) next_range next_iff by blast
    ultimately have "distinct (running ?s)" using rem by simp blast
    moreover have "set (running ?s) \<subseteq> {..<length P}"
      using rem kd(3) new next_range next_iff by fastforce
    moreover have "(i \<in> set (running ?s) \<longleftrightarrow> tr_result (recs s1 ! i) = None \<and> tr_points (recs s1 ! i) \<noteq> [] \<and> called P (recs s1) i)"
      if "i < length P" for i
      using dr(1) [OF that] new [of i] rem by simp
    ultimately have "loop_ok P v ?s" using s1(2) dr(3) unfolding loop_ok_def by simp
    moreover have "tr_result (recs ?s ! i) \<noteq> None \<longleftrightarrow> i \<in> set (ended op) \<or> tr_result (recs s ! i) \<noteq> None" for i
      using movedD(2) [OF s1(3), of i] Done by (simp add: ended_def)
    ultimately show ?thesis using step by blast
  qed
qed

lemma loop_ok_run:
  assumes wf: "well_formed P" and os: "one_source P" and n: "named v"
  shows "\<lbrakk>loop_ok P v s; may_all v ops s\<rbrakk> \<Longrightarrow> \<exists>s'. exec_run ops s = Some s' \<and> loop_ok P v s'
    \<and> distinct (concat (map ended ops)) \<and> (\<forall>i \<in> set (concat (map ended ops)). i < length P \<and> tr_result (recs s ! i) = None)"
proof (induction ops arbitrary: s)
  case (Cons op ops)
  have m: "may v s op" using Cons.prems(2) by simp
  obtain s1 where s1: "exec_step op s = Some s1" "loop_ok P v s1"
      "\<And>i. tr_result (recs s1 ! i) \<noteq> None \<longleftrightarrow> i \<in> set (ended op) \<or> tr_result (recs s ! i) \<noteq> None"
    using loop_ok_step [OF wf os n Cons.prems(1) m] by blast
  obtain s2 where s2: "exec_run ops s1 = Some s2" "loop_ok P v s2" "distinct (concat (map ended ops))"
      "\<And>i. i \<in> set (concat (map ended ops)) \<Longrightarrow> i < length P \<and> tr_result (recs s1 ! i) = None"
    using Cons.IH [OF s1(2)] Cons.prems(2) s1(1) by auto
  have here: "distinct (ended op)" "\<And>i. i \<in> set (ended op) \<Longrightarrow> i \<in> set (running s)"
    using m by (cases op; auto simp: ended_def list_all_iff)+
  have now: "i < length P \<and> tr_result (recs s ! i) = None" if "i \<in> set (ended op)" for i
    using loop_okD(3,4) [OF Cons.prems(1)] here(2) [OF that] by blast
  have later: "i < length P \<and> tr_result (recs s ! i) = None \<and> i \<notin> set (ended op)"
    if "i \<in> set (concat (map ended ops))" for i
    using s2(4) [OF that] s1(3) [of i] by blast
  have "\<forall>i \<in> set (concat (map ended (op # ops))). i < length P \<and> tr_result (recs s ! i) = None"
    using now later unfolding list.map concat.simps set_append by blast
  moreover have "distinct (concat (map ended (op # ops)))"
    using here(1) s2(3) later unfolding list.map concat.simps distinct_append by blast
  ultimately show ?case using s1(1) s2(1,2) by simp
qed simp

text \<open>When nothing runs any more, every task has finished or has no point left.\<close>

lemma nothing_left:
  assumes wf: "well_formed P" and os: "one_source P" and k: "loop_ok P v s" and idle: "running s = []" and i: "i < length P"
  shows "tr_result (recs s ! i) \<noteq> None \<or> tr_points (recs s ! i) = []"
proof -
  note kd = loop_okD [OF k]
  obtain rank :: "nat \<Rightarrow> nat" where rank: "\<forall>j < length P. \<forall>i \<in> set (tr_dependents (P ! j)). rank j < rank i"
    using wf unfolding well_formed_def by blast
  show ?thesis using i
  proof (induction "rank i" arbitrary: i rule: less_induct)
    case less
    show ?case
    proof (rule ccontr)
      assume "\<not> ?thesis"
      then have i_open: "tr_result (recs s ! i) = None" "tr_points (recs s ! i) \<noteq> []" by auto
      then have not_called: "\<not> called P (recs s) i" using kd(4) [OF less.prems] idle by simp
      then have "\<not> dependencies_satisfied (recs s ! i)"
        using ready_called [OF wf os kd(1) less.prems _ i_open(2,1)] by blast
      then obtain t d where "t \<in> set (tr_points (recs s ! i))" "pt_dep t = Dep d" "d \<notin> set (names (recs s) i)"
        unfolding ready_iff by blast
      from waits_for [OF wf os kd(1) less.prems this]
      obtain j where j: "parent P j i" "tr_result (recs s ! j) = None" "tr_points (recs s ! j) \<noteq> []" by blast
      then show False using less.hyps [of j] rank unfolding parent_def by blast
    qed
  qed
qed

lemma all_final:
  assumes wf: "well_formed P" and os: "one_source P" and k: "loop_ok P v s" and idle: "running s = []"
    and r: "r \<in> set P" "t \<in> set (tr_points r)"
  shows "map_of (results s) (pt_id t) = Some (final P v t)"
proof -
  obtain i where i: "i < length P" "r = P ! i" using r(1) by (metis in_set_conv_nth)
  show ?thesis
    using nothing_left [OF wf os k idle i(1)] cascD(2) [OF loop_okD(1) [OF k] i(1)] r(2) i(2)
    by (auto simp: settled_def)
qed

end
