(* ===== verification/JudgeScore.thy ===== *)
theory JudgeScore
  imports JudgeRun
begin

text \<open>
  From the results of the test points to the result of the submission: what \<open>synthesize_scores\<close>
  gives at the end of a run, bounds of the score, and a plan outside the shape of those results, in which
  a task is run twice.
\<close>

section \<open>The result of a submission\<close>

definition all_points :: "'a task_rec list \<Rightarrow> 'a point list" where
  "all_points P = concat (map tr_points P)"

text \<open>What a group is to get: the final results of its points.\<close>

definition expected_verdicts :: "'a task_rec list \<Rightarrow> (jstr \<Rightarrow> 'a \<Rightarrow> verdict) \<Rightarrow> jstr list \<Rightarrow> verdict list" where
  "expected_verdicts P v xs = concat (map (\<lambda>x. map (final P v) (filter (\<lambda>t. pt_id t = x) (all_points P))) xs)"

definition expected_group :: "'a task_rec list \<Rightarrow> (jstr \<Rightarrow> 'a \<Rightarrow> verdict) \<Rightarrow> group \<Rightarrow> group_result" where
  "expected_group P v g =
    (let ws = expected_verdicts P v (gp_points g) in
     \<lparr>gj_id = gp_id g, gj_name = gp_name g, gj_result = synthesize_results (map vd_result ws),
      gj_points = ws, gj_score = Min (vd_score ` set ws) * gp_score g\<rparr>)"

definition groups_ok :: "'a task_rec list \<Rightarrow> group list \<Rightarrow> bool" where
  "groups_ok P gs \<longleftrightarrow> (\<forall>g \<in> set gs. gp_points g \<noteq> [] \<and> set (gp_points g) \<subseteq> pt_id ` set (all_points P))"

lemma synthesize_accepted: "synthesize_results rs = Accepted \<longleftrightarrow> set rs \<subseteq> {Accepted}"
  by (auto simp: synthesize_results_def find_None_iff find_Some_iff split: option.splits dest!: nth_mem)

lemma all_points_distinct: "well_formed P \<Longrightarrow> distinct (ids (all_points P))"
  by (simp add: well_formed_def all_points_def map_concat comp_def)

lemma the_point:
  assumes "well_formed P" "t \<in> set (all_points P)"
  shows "filter (\<lambda>u. pt_id u = pt_id t) (all_points P) = [t]"
  using filter_key [OF all_points_distinct [OF assms(1)] assms(2)] .

lemma group_as_expected:
  assumes wf: "well_formed P" and m: "\<forall>t \<in> set (all_points P). map_of m (pt_id t) = Some (final P v t)"
    and g: "gp_points g \<noteq> []" "set (gp_points g) \<subseteq> pt_id ` set (all_points P)"
  shows "get_group_result Final m g = Inr (expected_group P v g)"
proof -
  have "map (group_verdict Final m) xs = map Some (expected_verdicts P v xs)"
    if "set xs \<subseteq> pt_id ` set (all_points P)" for xs
    using that
  proof (induction xs)
    case (Cons x xs)
    then obtain t where t: "t \<in> set (all_points P)" "x = pt_id t" by auto
    show ?case using Cons m t the_point [OF wf t(1)] by (simp add: expected_verdicts_def group_verdict_def)
  qed (simp add: expected_verdicts_def)
  from this [OF g(2)] have vs: "map (group_verdict Final m) (gp_points g) = map Some (expected_verdicts P v (gp_points g))" .
  have "map Some (expected_verdicts P v (gp_points g)) \<noteq> []" using g(1) unfolding vs [symmetric] by simp
  then show ?thesis unfolding get_group_result_def vs by (auto simp: expected_group_def Let_def comp_def)
qed

lemma all_groups_map:
  "\<forall>g \<in> set gs. get_group_result ph m g = Inr (f g) \<Longrightarrow> all_groups ph m gs = Inr (map f gs)"
  by (induction gs) simp_all

lemma expected_accepted:
  assumes wf: "well_formed P" and g: "set (gp_points g) \<subseteq> pt_id ` set (all_points P)"
  shows "gj_result (expected_group P v g) = Accepted \<longleftrightarrow> (\<forall>x \<in> set (gp_points g). passes P v x)"
proof -
  have "(\<forall>w \<in> set (expected_verdicts P v xs). vd_result w = Accepted) \<longleftrightarrow> (\<forall>x \<in> set xs. passes P v x)"
    if "set xs \<subseteq> pt_id ` set (all_points P)" for xs
    using that
  proof (induction xs)
    case (Cons x xs)
    then obtain t where t: "t \<in> set (all_points P)" "x = pt_id t" by auto
    obtain r where "r \<in> set P" "t \<in> set (tr_points r)" using t(1) by (auto simp: all_points_def)
    then obtain i where i: "i < length P" "t \<in> set (tr_points (P ! i))" by (metis in_set_conv_nth)
    show ?case
      using Cons t(2) the_point [OF wf t(1)] final_accepted [OF wf i, of v] by (simp add: expected_verdicts_def)
  qed (simp add: expected_verdicts_def)
  from this [OF g] show ?thesis by (auto simp: expected_group_def Let_def synthesize_accepted)
qed

text \<open>
  At the end of a run of a well-formed plan, putting the scores together meets no error; every group has
  the final results of its points, its score is the group's times the smallest of theirs, the score is the
  sum, and the result is accepted exactly when every point of every group passes.
\<close>

lemma result_of_run:
  assumes "well_formed P" "one_source P" "named v" "may_all v ops (begin_run P)"
    "exec_run ops (begin_run P) = Some s" "running s = []" "groups_ok P gs"
  shows "\<exists>r. synthesize_scores Final message (results s) gs = Inr r \<and> pr_groups r = map (expected_group P v) gs
    \<and> pr_score r = (\<Sum>g \<leftarrow> gs. Min (vd_score ` set (expected_verdicts P v (gp_points g))) * gp_score g)
    \<and> (pr_result r = Accepted \<longleftrightarrow> (\<forall>g \<in> set gs. \<forall>x \<in> set (gp_points g). passes P v x))"
proof -
  obtain s' where "exec_run ops (begin_run P) = Some s'" "loop_ok P v s'"
    using loop_ok_run [OF assms(1-3) loop_ok_begin [OF assms(1,2)] assms(4)] by blast
  then have k: "loop_ok P v s" using assms(5) by simp
  have m: "\<forall>t \<in> set (all_points P). map_of (results s) (pt_id t) = Some (final P v t)"
    using all_final [OF assms(1,2) k assms(6)] by (auto simp: all_points_def)
  have "\<forall>g \<in> set gs. get_group_result Final (results s) g = Inr (expected_group P v g)"
    using group_as_expected [OF assms(1) m] assms(7) by (auto simp: groups_ok_def)
  then have gs: "all_groups Final (results s) gs = Inr (map (expected_group P v) gs)" by (rule all_groups_map)
  have "(synthesize_results (map (\<lambda>g. gj_result (expected_group P v g)) gs) = Accepted)
     \<longleftrightarrow> (\<forall>g \<in> set gs. \<forall>x \<in> set (gp_points g). passes P v x)"
    using expected_accepted [OF assms(1)] assms(7) by (auto simp: synthesize_accepted groups_ok_def)
  moreover have "gj_score (expected_group P v g) = Min (vd_score ` set (expected_verdicts P v (gp_points g))) * gp_score g" for g
    by (simp add: expected_group_def Let_def)
  ultimately show ?thesis by (simp add: synthesize_scores_def gs comp_def)
qed

section \<open>Bounds\<close>

lemma group_score_bounds:
  assumes "get_group_result ph m g = Inr r" "\<forall>v \<in> snd ` set m. 0 \<le> vd_score v \<and> vd_score v \<le> 1" "0 \<le> gp_score g"
  shows "0 \<le> gj_score r \<and> gj_score r \<le> gp_score g"
proof -
  let ?vs = "map (group_verdict ph m) (gp_points g)"
  have r: "None \<notin> set ?vs" "?vs \<noteq> []" "gj_score r = Min (vd_score ` set (map the ?vs)) * gp_score g"
    using assms(1) by (auto simp: get_group_result_def Let_def split: if_splits)
  have "0 \<le> vd_score w \<and> vd_score w \<le> 1" if w: "Some w \<in> set ?vs" for w
  proof -
    obtain i where i: "group_verdict ph m i = Some w" using w by auto
    show ?thesis
    proof (cases "map_of m i")
      case None
      then show ?thesis using i by (auto simp: group_verdict_def fallback_result_def plain_result_def split: phase.splits)
    next
      case (Some u)
      then have "u \<in> snd ` set m" by (force dest: map_of_SomeD)
      then show ?thesis using i Some assms(2) by (auto simp: group_verdict_def plain_result_def split: if_splits)
    qed
  qed
  then have b: "\<forall>x \<in> vd_score ` set (map the ?vs). 0 \<le> x \<and> x \<le> 1"
    using r(1) by (auto simp: image_iff) (metis option.exhaust_sel)+
  have "Min (vd_score ` set (map the ?vs)) \<in> vd_score ` set (map the ?vs)" using r(2) by (intro Min_in) auto
  then have "0 \<le> Min (vd_score ` set (map the ?vs)) \<and> Min (vd_score ` set (map the ?vs)) \<le> 1" using b by blast
  then show ?thesis unfolding r(3) using assms(3) by (simp add: mult_left_le_one_le)
qed

text \<open>
  C38: Whatever the results, complete or not: when every point's score is between 0 and 1 and no group's
  is negative, the score of a submission is between 0 and the sum of the groups' scores, in the middle of
  the judging, after an abort and at the end.
\<close>

theorem score_bounds:
  assumes "synthesize_scores ph message m gs = Inr r" "\<forall>v \<in> snd ` set m. 0 \<le> vd_score v \<and> vd_score v \<le> 1"
    "\<forall>g \<in> set gs. 0 \<le> gp_score g"
  shows "0 \<le> pr_score r \<and> pr_score r \<le> (\<Sum>g \<leftarrow> gs. gp_score g)"
proof -
  have sums: "all_groups ph m gs = Inr rs \<Longrightarrow> \<forall>g \<in> set gs. 0 \<le> gp_score g
      \<Longrightarrow> 0 \<le> sum_list (map gj_score rs) \<and> sum_list (map gj_score rs) \<le> sum_list (map gp_score gs)" for rs
  proof (induction gs arbitrary: rs)
    case (Cons g gs)
    from Cons.prems(1) obtain r1 rs1 where r: "get_group_result ph m g = Inr r1" "all_groups ph m gs = Inr rs1" "rs = r1 # rs1"
      by (auto split: sum.splits)
    show ?case using Cons.IH [OF r(2)] Cons.prems(2) group_score_bounds [OF r(1) assms(2)] r(3) by force
  qed simp
  have pos: "0 \<le> sum_list (map gp_score gs)" using assms(3) by (induction gs) auto
  obtain rs where rs: "all_groups ph m gs = Inr rs" "pr_score r = (if ph = Final then sum_list (map gj_score rs) else 0)"
    using assms(1) by (auto simp: synthesize_scores_def split: sum.splits)
  show ?thesis using sums [OF rs(1) assms(3)] rs(2) pos by simp
qed

section \<open>Plans in which a task waits for only some of its points\<close>

definition pt :: "string \<Rightarrow> dep \<Rightarrow> unit point" where
  "pt i d = \<lparr>pt_id = js i, pt_dep = d, pt_work = ()\<rparr>"

definition task_of :: "unit point list \<Rightarrow> nat list \<Rightarrow> unit task_rec" where
  "task_of ts ds = \<lparr>tr_points = ts, tr_plan = map pt_id ts, tr_dependents = ds, tr_result = None\<rparr>"

text \<open>
  A task that waits for points of two tasks can become ready twice, and is then run twice: here when one
  of its points is skipped while the other is freed, and the task of the skipped point's dependency ends
  later.
\<close>

definition two_sources :: "unit task_rec list" where
  "two_sources = [task_of [pt ''1'' NoDep, pt ''2'' NoDep] [1, 2], task_of [pt ''3'' (Dep (js ''2'')), pt ''4'' NoDep] [2],
     task_of [pt ''5'' (Dep (js ''3'')), pt ''6'' (Dep (js ''1''))] []]"

definition ok_result :: "string \<Rightarrow> verdict option" where
  "ok_result i = Some (plain_result (js i) Accepted [])"

lemma task_started_twice:
  "map_option running (exec_run
     [Done [(0, Finished [ok_result ''1'', Some (plain_result (js ''2'') WrongAnswer [])])],
      Done [(1, Finished [ok_result ''4''])]] (begin_run two_sources)) = Some [2, 2]"
  by (simp add: two_sources_def task_of_def pt_def ok_result_def plain_result_def begin_run_def startable_def
      dependencies_satisfied_def complete_one_def outcome_results_def accepted_in_def Let_def cut_task_def mark1_def
      put_result_def fill_skipped_def upt_rec)

section \<open>A run\<close>

text \<open>Point 2 depends on 1 in another task, and 3 on 2 in its own.\<close>

definition small_plan :: "unit task_rec list" where
  "small_plan = [task_of [pt ''1'' NoDep] [1], task_of [pt ''2'' (Dep (js ''1'')), pt ''3'' (Dep (js ''2''))] []]"

definition small_verdict :: "jstr \<Rightarrow> unit \<Rightarrow> verdict" where
  "small_verdict i _ = plain_result i (if i = js ''2'' then WrongAnswer else Accepted) []"

definition small_run :: "exec_op list" where
  "small_run = [Started 0, Done [(0, Finished [ok_result ''1''])], Started 1,
     Progress 1 [Some (small_verdict (js ''2'') ()), None],
     Done [(1, Finished [Some (small_verdict (js ''2'') ()), Some (skipped_result (js ''3'') (failed_message (js ''2'')))])]]"

lemma small_well_formed: "well_formed small_plan" "one_source small_plan"
  by (auto simp: small_plan_def task_of_def pt_def well_formed_def one_source_def unmarked_def holds_def nth_Cons'
      less_Suc_eq_0_disj intro!: exI [of _ id])

lemma small_named: "named small_verdict"
  by (simp add: named_def small_verdict_def plain_result_def)

lemmas run_defs = small_plan_def task_of_def pt_def ok_result_def plain_result_def begin_run_def startable_def
  dependencies_satisfied_def complete_one_def outcome_results_def accepted_in_def Let_def cut_task_def mark1_def
  put_result_def fill_skipped_def start_result_def progress_result_def skipped_result_def upt_rec

lemma small_may: "may_all small_verdict small_run (begin_run small_plan)"
  by (simp add: small_run_def run_defs runs_def judge_testpoint_def small_verdict_def)





definition small_group :: group where
  "small_group = \<lparr>gp_id = js ''1'', gp_name = JNull, gp_points = [js ''1''], gp_score = 40\<rparr>"

theorem score_bounds_witness:
  "\<exists>r. synthesize_scores Final None [(js ''1'', plain_result (js ''1'') Accepted [])] [small_group] = Inr r
    \<and> 0 \<le> pr_score r \<and> pr_score r \<le> (\<Sum>g \<leftarrow> [small_group]. gp_score g)"
proof -
  let ?m = "[(js ''1'', plain_result (js ''1'') Accepted [])]"
  obtain r where r: "synthesize_scores Final None ?m [small_group] = Inr r"
    by (simp add: synthesize_scores_def get_group_result_def group_verdict_def small_group_def Let_def)
  have "0 \<le> pr_score r \<and> pr_score r \<le> (\<Sum>g \<leftarrow> [small_group]. gp_score g)"
    by (rule score_bounds [OF r]) (simp_all add: plain_result_def small_group_def)
  then show ?thesis using r by blast
qed

end
