(* ===== verification/JudgeSystem.thy ===== *)
theory JudgeSystem
  imports ConfigSchema JudgePlan JudgeScore
begin

text \<open>
  The plans the scheduler generates are plans its loop can run: from the configuration the problem
  editor makes, through the plan, to the results of a submission.
\<close>

section \<open>Parsing the test points\<close>

lemma and_then_Inr: "and_then r f = Inr y \<longleftrightarrow> (\<exists>x. r = Inr x \<and> f x = Inr y)"
  by (auto simp: and_then_def split: sum.splits)

lemma and_then_simps [simp]: "and_then (Inr x) f = f x" "and_then (Inl e) f = Inl e"
  by (simp_all add: and_then_def)

lemma traverse_each:
  "traverse f xs s = Inr (ys, s') \<Longrightarrow> list_all2 (\<lambda>x y. \<exists>s1 s2. f x s1 = Inr (y, s2)) xs ys"
proof (induction xs arbitrary: s ys)
  case (Cons x xs)
  then obtain y s1 zs where "f x s = Inr (y, s1)" "traverse f xs s1 = Inr (zs, s')" "ys = y # zs"
    by (auto simp: and_then_Inr)
  then show ?case using Cons.IH by auto
qed simp

lemma parse_testpoint_point:
  "parse_testpoint z cfg p conf c = Inr (t, c') \<Longrightarrow> pt_id t = id_of z conf \<and> pt_dep t = dependency_of z conf"
  unfolding parse_testpoint_def Let_def split_def and_then_Inr
  by (auto split: if_splits option.splits)

lemma dependency_marked [simp]: "dependency_of z conf \<noteq> Unsatisfied"
  by (simp add: dependency_of_def)

section \<open>Dependents\<close>

text \<open>What stays of a plan while dependents are added, and the dependents that are there then.\<close>

definition adds_to :: "task_plan list \<Rightarrow> task_plan list \<Rightarrow> (nat \<times> nat) set \<Rightarrow> bool" where
  "adds_to plan plan' E \<longleftrightarrow> length plan' = length plan
     \<and> (\<forall>k < length plan. tk_points (plan' ! k) = tk_points (plan ! k) \<and> tk_dependencies (plan' ! k) = tk_dependencies (plan ! k)
          \<and> set (tk_dependents (plan' ! k)) = set (tk_dependents (plan ! k)) \<union> {i. (i, k) \<in> E})"

lemma adds_to_trans: "adds_to p q E \<Longrightarrow> adds_to q r F \<Longrightarrow> adds_to p r (E \<union> F)"
  by (auto simp: adds_to_def)

lemma add_dependent_adds: "adds_to plan (add_dependent i d plan) {(i, d)}"
  by (cases "d < length plan") (auto simp: adds_to_def add_dependent_def nth_list_update)

lemma add_dependents_adds: "adds_to plan (fold (add_dependent i) ds plan) ({i} \<times> set ds)"
proof (induction ds arbitrary: plan)
  case (Cons d ds)
  have "{(i, d)} \<union> {i} \<times> set ds = {i} \<times> set (d # ds)" by auto
  with adds_to_trans [OF add_dependent_adds Cons.IH, of plan i d] show ?case by simp
qed (simp add: adds_to_def)

lemma generate_dependents_adds:
  "adds_to plan (generate_dependents plan) {(i, d). i < length plan \<and> d \<in> set (tk_dependencies (plan ! i))}"
proof -
  have "adds_to plan (fold (\<lambda>i p. fold (add_dependent i) (tk_dependencies (p ! i)) p) is plan)
      {(i, d). i \<in> set is \<and> d \<in> set (tk_dependencies (plan ! i))}" if "set is \<subseteq> {..<length plan}" for "is"
    using that
  proof (induction "is" rule: rev_induct)
    case (snoc i "is")
    let ?p = "fold (\<lambda>i p. fold (add_dependent i) (tk_dependencies (p ! i)) p) is plan"
    have IH: "adds_to plan ?p {(i, d). i \<in> set is \<and> d \<in> set (tk_dependencies (plan ! i))}" using snoc by simp
    then have "tk_dependencies (?p ! i) = tk_dependencies (plan ! i)" using snoc.prems by (simp add: adds_to_def)
    moreover have "{(i, d). i \<in> set is \<and> d \<in> set (tk_dependencies (plan ! i))} \<union> {i} \<times> set (tk_dependencies (plan ! i))
        = {(k, d). k \<in> set (is @ [i]) \<and> d \<in> set (tk_dependencies (plan ! k))}" by auto
    ultimately show ?case using adds_to_trans [OF IH add_dependents_adds [of ?p i "tk_dependencies (?p ! i)"]]
      by (simp del: set_append)
  qed (simp add: adds_to_def)
  from this [of "[0..<length plan]"] show ?thesis by (simp add: generate_dependents_def atLeast0LessThan)
qed

lemma generate_dependents_same:
  "map tk_points (generate_dependents plan) = map tk_points plan"
  using generate_dependents_adds [of plan] by (auto simp: adds_to_def intro: nth_equalityI)

section \<open>Positions\<close>

lemma position_of_split: "pt_id t \<notin> set (ids ys) \<Longrightarrow> position_of (pt_id t) (xs @ t # ys) = Some (length xs)"
proof -
  assume no: "pt_id t \<notin> set (ids ys)"
  have "pt_id u \<noteq> pt_id t" if "u \<in> set (rev ys)" for u
    using no that by (metis imageI set_map set_rev)
  then have "takeWhile (\<lambda>u. pt_id u \<noteq> pt_id t) (rev ys @ t # rev xs) = rev ys"
    by (subst takeWhile_append2) simp_all
  then have "takeWhile (\<lambda>u. pt_id u \<noteq> pt_id t) (rev (xs @ t # ys)) = rev ys" by simp
  then show ?thesis by (simp add: position_of_def)
qed

lemma position_of_Some:
  assumes "position_of i tps = Some q"
  shows "q < length tps" "pt_id (tps ! q) = i"
proof -
  have "i \<in> set (ids tps)" using assms by (auto simp: position_of_def split: if_splits)
  then obtain as bs where "ids tps = as @ i # bs" "i \<notin> set bs" by (meson split_list_last)
  then obtain xs t ys where tps: "tps = xs @ t # ys" "pt_id t = i" "i \<notin> set (ids ys)"
    by (auto simp: map_eq_append_conv map_eq_Cons_conv)
  then show "q < length tps" "pt_id (tps ! q) = i" using assms position_of_split [of t ys xs] by auto
qed

lemma position_of_nth:
  assumes "distinct (ids tps)" "j < length tps"
  shows "position_of (pt_id (tps ! j)) tps = Some j"
proof -
  have tps: "tps = take j tps @ tps ! j # drop (Suc j) tps" using assms(2) by (rule id_take_nth_drop)
  have "distinct (ids (take j tps @ tps ! j # drop (Suc j) tps))" using assms(1) unfolding tps [symmetric] .
  then have "pt_id (tps ! j) \<notin> set (ids (drop (Suc j) tps))" by auto
  from position_of_split [OF this, of "take j tps"] show ?thesis unfolding tps [symmetric] using assms(2) by simp
qed

lemma first_equal_nth:
  assumes "distinct (ids tps)" "j < length tps"
  shows "first_equal tps j = j"
proof -
  have tps: "tps = take j tps @ tps ! j # drop (Suc j) tps" using assms(2) by (rule id_take_nth_drop)
  have "distinct tps" using assms(1) distinct_map by blast
  then have "distinct (take j tps @ tps ! j # drop (Suc j) tps)" unfolding tps [symmetric] .
  then have "\<forall>t \<in> set (take j tps). t \<noteq> tps ! j" by auto
  then have "takeWhile (\<lambda>t. t \<noteq> tps ! j) (take j tps @ tps ! j # drop (Suc j) tps) = take j tps"
    by (subst takeWhile_append2) auto
  then show ?thesis unfolding tps [symmetric] first_equal_def using assms(2) by simp
qed

section \<open>A task for every test point\<close>

definition waits_earlier :: "work point list \<Rightarrow> bool" where
  "waits_earlier tps \<longleftrightarrow>
    (\<forall>k < length tps. \<forall>d. pt_dep (tps ! k) = Dep d \<longrightarrow> (\<exists>j < k. d = pt_id (tps ! j)))"

lemma single_task_nth:
  assumes "distinct (ids tps)" "waits_earlier tps" "k < length tps" "single_task tps (tps ! k) = Inr p"
  shows "tk_points p = [tps ! k]" "tk_dependents p = []"
    "j \<in> set (tk_dependencies p) \<longleftrightarrow> j < length tps \<and> pt_dep (tps ! k) = Dep (pt_id (tps ! j))"
proof -
  show "tk_points p = [tps ! k]" "tk_dependents p = []"
    using assms(4) by (auto simp: single_task_def split: dep.splits option.splits)
  show "j \<in> set (tk_dependencies p) \<longleftrightarrow> j < length tps \<and> pt_dep (tps ! k) = Dep (pt_id (tps ! j))"
  proof (cases "pt_dep (tps ! k)")
    case (Dep d)
    then obtain q where q: "q < k" "d = pt_id (tps ! q)" using assms(2,3) unfolding waits_earlier_def by blast
    have pos: "position_of d tps = Some q" using position_of_nth [OF assms(1), of q] q assms(3) by simp
    have eq: "j < length tps \<Longrightarrow> pt_id (tps ! j) = d \<longleftrightarrow> j = q"
      using nth_eq_iff_index_eq [OF assms(1), of j q] q assms(3) by simp
    have "tk_dependencies p = [q]"
      using assms(4) Dep pos first_equal_nth [OF assms(1), of q] q assms(3) by (auto simp: single_task_def)
    moreover have "q < length tps" using q(1) assms(3) by simp
    ultimately show ?thesis using eq unfolding Dep dep.inject by (metis list.set_intros(1) list.set_cases set_ConsD empty_iff empty_set)
  qed (use assms(4) in \<open>auto simp: single_task_def\<close>)
qed

lemma map_sum_Inr: "map_sum id f r = Inr y \<Longrightarrow> (\<And>x. r = Inr x \<Longrightarrow> y = f x \<Longrightarrow> thesis) \<Longrightarrow> thesis"
  by (cases r) auto

lemma single_tasks_each:
  assumes "map_sum id fst (traverse (\<lambda>t s. map_sum id (\<lambda>p. (p, s)) (single_task tps t)) ts ()) = Inr base"
  shows "list_all2 (\<lambda>t p. single_task tps t = Inr p) ts base"
proof -
  obtain u where "traverse (\<lambda>t s. map_sum id (\<lambda>p. (p, s)) (single_task tps t)) ts () = Inr (base, u)"
    using assms by (auto elim!: map_sum_Inr)
  from traverse_each [OF this] show ?thesis
    by (rule list_all2_mono) (auto elim!: map_sum_Inr)
qed

lemma single_plan_ok:
  assumes plan: "plan_tasks confs tps = Inr tasks" "\<not> list_ex shares_disk confs"
    and d: "distinct (ids tps)" and w: "waits_earlier tps" and um: "\<forall>t \<in> set tps. pt_dep t \<noteq> Unsatisfied"
  shows "well_formed (plan_records tasks)" "one_source (plan_records tasks)" "concat (map tk_points tasks) = tps"
proof -
  obtain base where base: "list_all2 (\<lambda>t p. single_task tps t = Inr p) tps base" and tasks: "tasks = generate_dependents base"
  proof -
    obtain b where "map_sum id fst (traverse (\<lambda>t s. map_sum id (\<lambda>p. (p, s)) (single_task tps t)) tps ()) = Inr b"
        "tasks = generate_dependents b"
      using plan unfolding plan_tasks_def by (auto simp del: traverse.simps elim!: map_sum_Inr)
    then show ?thesis using single_tasks_each [of tps tps b] that [of b] by blast
  qed
  have n: "length base = length tps" using list_all2_lengthD [OF base] by simp
  have each: "single_task tps (tps ! k) = Inr (base ! k)" if "k < length tps" for k
    using list_all2_nthD [OF base that] .
  note b = single_task_nth [OF d w _ each]
  note g = generate_dependents_adds [of base, folded tasks, unfolded adds_to_def]
  let ?P = "plan_records tasks"
  have len: "length ?P = length tps" using g n by (simp add: plan_records_def)
  have pts: "tr_points (?P ! k) = [tps ! k]" "tr_plan (?P ! k) = [pt_id (tps ! k)]" "tr_result (?P ! k) = None"
    if "k < length tps" for k
    using that g n b(1) [OF that that] by (simp_all add: plan_records_def)
  have deps: "i \<in> set (tr_dependents (?P ! k)) \<longleftrightarrow> i < length tps \<and> pt_dep (tps ! i) = Dep (pt_id (tps ! k))"
    if "k < length tps" for i k
  proof -
    have "set (tk_dependents (tasks ! k)) = {i. i < length base \<and> k \<in> set (tk_dependencies (base ! i))}"
      using g that n b(2) [OF that that] by simp
    moreover have "tr_dependents (?P ! k) = tk_dependents (tasks ! k)" using that g n by (simp add: plan_records_def)
    ultimately show ?thesis using b(3) [of i k] that n by auto
  qed
  have hold: "holds ?P j x \<longleftrightarrow> j < length tps \<and> x = pt_id (tps ! j)" for j x
    using pts len by (auto simp: holds_def)
  have ids_eq: "map (\<lambda>r. ids (tr_points r)) ?P = map (\<lambda>t. [pt_id t]) tps"
    using pts len by (auto intro!: nth_equalityI)
  have "concat (map (\<lambda>t. [pt_id t]) tps) = ids tps" by (induction tps) auto
  then have "distinct (concat (map (\<lambda>r. ids (tr_points r)) ?P))" using d ids_eq by simp
  moreover have "\<forall>r \<in> set ?P. tr_plan r = ids (tr_points r) \<and> tr_result r = None \<and> unmarked (tr_points r) \<and> ordered (tr_points r)"
  proof
    fix r assume "r \<in> set ?P"
    then obtain k where k: "k < length tps" "r = ?P ! k" using len by (metis in_set_conv_nth)
    have "e \<noteq> pt_id (tps ! k)" if e: "pt_dep (tps ! k) = Dep e" for e
    proof -
      obtain j where "j < k" "e = pt_id (tps ! j)" using w k(1) e unfolding waits_earlier_def by blast
      then show ?thesis using nth_eq_iff_index_eq [OF d, of j k] k(1) by simp
    qed
    then show "tr_plan r = ids (tr_points r) \<and> tr_result r = None \<and> unmarked (tr_points r) \<and> ordered (tr_points r)"
      using pts [OF k(1)] k um by (auto simp: unmarked_def)
  qed
  moreover have "\<forall>j < length ?P. \<forall>i \<in> set (tr_dependents (?P ! j)).
         i < length ?P \<and> (\<exists>t \<in> set (tr_points (?P ! i)). \<exists>e. pt_dep t = Dep e \<and> holds ?P j e)"
    using deps pts hold len by auto
  moreover have "\<forall>i < length ?P. \<forall>t \<in> set (tr_points (?P ! i)). \<forall>e. pt_dep t = Dep e \<longrightarrow>
         (\<exists>j. holds ?P j e \<and> (j = i \<or> i \<in> set (tr_dependents (?P ! j))))"
  proof (intro allI impI ballI)
    fix i t e assume i: "i < length ?P" "t \<in> set (tr_points (?P ! i))" "pt_dep t = Dep e"
    then have t: "pt_dep (tps ! i) = Dep e" "i < length tps" using pts len by auto
    then obtain j where "j < i" "e = pt_id (tps ! j)" using w unfolding waits_earlier_def by blast
    then show "\<exists>j. holds ?P j e \<and> (j = i \<or> i \<in> set (tr_dependents (?P ! j)))"
      using t deps [of j i] hold by (intro exI [of _ j]) auto
  qed
  moreover have "\<forall>j < length ?P. \<forall>i \<in> set (tr_dependents (?P ! j)). id j < id i"
  proof (intro allI impI ballI)
    fix j i assume j: "j < length ?P" "i \<in> set (tr_dependents (?P ! j))"
    then have i: "i < length tps" "pt_dep (tps ! i) = Dep (pt_id (tps ! j))" using deps len by auto
    then obtain q where "q < i" "pt_id (tps ! j) = pt_id (tps ! q)" using w unfolding waits_earlier_def by blast
    then show "id j < id i" using nth_eq_iff_index_eq [OF d, of j q] j(1) i(1) len by auto
  qed
  ultimately show "well_formed ?P" unfolding well_formed_def by blast
  show "one_source ?P" unfolding one_source_def using deps pts hold len by auto
  have "map tk_points tasks = map (\<lambda>t. [t]) tps"
    unfolding tasks generate_dependents_same using b(1) n by (auto intro!: nth_equalityI)
  then show "concat (map tk_points tasks) = tps" by simp
qed

section \<open>Plans of the configurations that the problem editor makes\<close>

lemma construct_JObj:
  "construct fs needed (JObj kvs) = (if set (map fst kvs) \<subseteq> set fs \<and> set needed \<subseteq> set (map fst kvs) then Some kvs else None)"
  by (simp add: construct_def)

lemma test_conf_of_detail:
  "test_conf_of (detail_json c) = Some
     \<lparr>tc_ID = cd_ID c, tc_Dependency = cd_Dependency c, tc_TimeLimit = cd_TimeLimit c, tc_MemoryLimit = cd_MemoryLimit c,
      tc_DiskLimit = cd_DiskLimit c, tc_FileNumberLimit = JNull, tc_ValgrindTestOn = JBool (cd_ValgrindTestOn c)\<rparr>"
  by (simp add: test_conf_of_def detail_json_def construct_JObj field_or_def)

lemma group_conf_of_group:
  "group_conf_of (group_json c) = Some
     \<lparr>gc_GroupID = cg_GroupID c, gc_GroupScore = cg_GroupScore c, gc_TestPoints = JArr (cg_TestPoints c),
      gc_GroupName = JStr (cg_GroupName c)\<rparr>"
  by (simp add: group_conf_of_def group_json_def construct_JObj field_or_def)

lemma all_of_map:
  "(\<And>x. x \<in> set xs \<Longrightarrow> f (g x) = Some (h x)) \<Longrightarrow> all_of f (JArr (map g xs)) = Some (map h xs)"
  by (auto simp: all_of_def list_all_iff)

text \<open>The configuration as the scheduler reads it.\<close>

lemma load_form_config:
  assumes "pz_config z = Some (config_json (generateConfig F d))" "load_config z = Inr (cfg, quiz)"
  shows "quiz = None" "pc_Details cfg = map (\<lambda>r. the (test_conf_of (detail_json (config_detail_of F r)))) (tableDetails d)"
    "pc_Groups cfg = map (\<lambda>r. the (group_conf_of (group_json (config_group_of F r)))) (tableGroups d)"
proof -
  define kvs where "kvs = [(js ''Groups'', JArr (map (\<lambda>r. group_json (config_group_of F r)) (tableGroups d))),
      (js ''Details'', JArr (map (\<lambda>r. detail_json (config_detail_of F r)) (tableDetails d))),
      (js ''CompileTimeLimit'', js_number F (iptCompileTime d)),
      (js ''SPJ'', spj_json (iptCompileType d) (iptRunType d) (iptCheckType d)),
      (js ''Scorer'', JNum 0)]"
  have cfg: "pz_config z = Some (JObj kvs)" using assms(1) by (simp add: config_json_eq kvs_def)
  have look: "map_of kvs (js ''Groups'') = Some (JArr (map (\<lambda>r. group_json (config_group_of F r)) (tableGroups d)))"
      "map_of kvs (js ''Details'') = Some (JArr (map (\<lambda>r. detail_json (config_detail_of F r)) (tableDetails d)))"
      "field_or JNull ''Quiz'' kvs = JNull"
    by (simp_all add: kvs_def field_or_def)
  have groups: "all_of group_conf_of (JArr (map (\<lambda>r. group_json (config_group_of F r)) (tableGroups d)))
      = Some (map (\<lambda>r. the (group_conf_of (group_json (config_group_of F r)))) (tableGroups d))"
    by (rule all_of_map) (simp add: group_conf_of_group)
  have details: "all_of test_conf_of (JArr (map (\<lambda>r. detail_json (config_detail_of F r)) (tableDetails d)))
      = Some (map (\<lambda>r. the (test_conf_of (detail_json (config_detail_of F r)))) (tableDetails d))"
    by (rule all_of_map) (simp add: test_conf_of_detail)
  have quiz: "load_quiz z kvs = Inr None" by (simp add: load_quiz_def look(3))
  have "quiz = None \<and> pc_Details cfg = map (\<lambda>r. the (test_conf_of (detail_json (config_detail_of F r)))) (tableDetails d)
     \<and> pc_Groups cfg = map (\<lambda>r. the (group_conf_of (group_json (config_group_of F r)))) (tableGroups d)"
    using assms(2) unfolding load_config_def cfg option.case jval.case look Option.bind_lunit groups details quiz
    by (auto simp: require_def and_then_Inr split: if_splits)
  then show "quiz = None" "pc_Details cfg = map (\<lambda>r. the (test_conf_of (detail_json (config_detail_of F r)))) (tableDetails d)"
    "pc_Groups cfg = map (\<lambda>r. the (group_conf_of (group_json (config_group_of F r)))) (tableGroups d)" by blast+
qed

lemma generate_plan_parts:
  assumes "generate_plan z = Inr plan"
  obtains cfg where "load_config z = Inr (cfg, jp_quiz plan)" "jp_quiz plan \<noteq> None"
  | cfg template c1 tps c2 where "load_config z = Inr (cfg, None)" "jp_quiz plan = None"
      "traverse (parse_testpoint z cfg template) (pc_Details cfg) c1 = Inr (tps, c2)"
      "plan_tasks (pc_Details cfg) tps = Inr (jp_judge plan)" "parse_groups z cfg = Inr (jp_score plan)"
proof -
  obtain cfg quiz where l: "load_config z = Inr (cfg, quiz)"
    using assms by (auto simp: generate_plan_def and_then_Inr)
  show ?thesis
  proof (cases quiz)
    case None
    then show ?thesis using assms l that(2) by (auto simp: generate_plan_def and_then_Inr split_def)
  next
    case (Some q)
    then show ?thesis using assms l that(1) by (auto simp: generate_plan_def)
  qed
qed

text \<open>No row of the table asks for a disk that is shared with the next.\<close>

definition own_disks :: "(jstr \<Rightarrow> jval) \<Rightarrow> data_form \<Rightarrow> bool" where
  "own_disks F d \<longleftrightarrow> list_all (\<lambda>r. case int_of (cell_num F (dr_disk r)) of None \<Rightarrow> True | Some n \<Rightarrow> n \<le> 0) (tableDetails d)"

lemma form_points:
  assumes "pz_config z = Some (config_json (generateConfig F d))" "details_ok d"
    "load_config z = Inr (cfg, quiz)" "traverse (parse_testpoint z cfg template) (pc_Details cfg) c1 = Inr (tps, c2)"
  shows "distinct (ids tps)" "waits_earlier tps" "\<forall>t \<in> set tps. pt_dep t \<noteq> Unsatisfied"
proof -
  note l = load_form_config [OF assms(1,3)]
  let ?n = "length (tableDetails d)"
  have each: "list_all2 (\<lambda>conf t. pt_id t = id_of z conf \<and> pt_dep t = dependency_of z conf) (pc_Details cfg) tps"
    using traverse_each [OF assms(4)] by (rule list_all2_mono) (use parse_testpoint_point in blast)
  have n: "length tps = ?n" using list_all2_lengthD [OF each] l(2) by simp
  have row: "pt_id (tps ! i) = num_str (int (Suc i))
      \<and> (\<exists>k \<le> i. pt_dep (tps ! i) = (if k = 0 then NoDep else Dep (num_str (int k))))" if i: "i < ?n" for i
  proof -
    have "detail_ok i (tableDetails d ! i)" using assms(2) i by (simp add: details_ok_def)
    then obtain k where k: "k \<le> i" "dr_id (tableDetails d ! i) = nat_str (Suc i)" "dr_dep (tableDetails d ! i) = nat_str k"
      by (auto simp: detail_ok_def)
    let ?conf = "pc_Details cfg ! i"
    have conf: "tc_ID ?conf = JNum (int (Suc i))" "tc_Dependency ?conf = JNum (int k)"
      using i k l(2) by (simp_all add: test_conf_of_detail config_detail_of_def cell_num_nat_str del: of_nat_Suc)
    have "pt_id (tps ! i) = id_of z ?conf \<and> pt_dep (tps ! i) = dependency_of z ?conf"
      using list_all2_nthD [OF each, of i] i l(2) by simp
    then show ?thesis using conf k(1) by (auto simp: id_of_def dependency_of_def simp del: of_nat_Suc intro!: exI [of _ k])
  qed
  show "distinct (ids tps)"
    unfolding distinct_conv_nth using row n by (auto dest!: num_str_inj)
  show "waits_earlier tps"
    unfolding waits_earlier_def
  proof (intro allI impI)
    fix k e assume k: "k < length tps" "pt_dep (tps ! k) = Dep e"
    then obtain m where m: "m \<le> k" "m \<noteq> 0" "e = num_str (int m)" using row [of k] n by (auto split: if_splits)
    then have "m - 1 < k" "e = pt_id (tps ! (m - 1))" using row [of "m - 1"] n k(1) by auto
    then show "\<exists>j < k. e = pt_id (tps ! j)" by blast
  qed
  show "\<forall>t \<in> set tps. pt_dep t \<noteq> Unsatisfied"
    using each by (auto simp: list_all2_conv_all_nth in_set_conv_nth)
qed

lemma form_plan_ok:
  assumes "pz_config z = Some (config_json (generateConfig F d))" "details_ok d" "own_disks F d" "generate_plan z = Inr plan"
  shows "well_formed (plan_records (jp_judge plan))" "one_source (plan_records (jp_judge plan))" "jp_quiz plan = None"
    "\<exists>cfg. load_config z = Inr (cfg, None) \<and> parse_groups z cfg = Inr (jp_score plan)"
proof -
  have "well_formed (plan_records (jp_judge plan)) \<and> one_source (plan_records (jp_judge plan)) \<and> jp_quiz plan = None
    \<and> (\<exists>cfg. load_config z = Inr (cfg, None) \<and> parse_groups z cfg = Inr (jp_score plan))"
    using assms(4)
  proof (cases rule: generate_plan_parts)
    case (1 cfg)
    show ?thesis using load_form_config(1) [OF assms(1) 1(1)] 1(2) by simp
  next
    case (2 cfg template c1 tps c2)
    note l = load_form_config [OF assms(1) 2(1)]
    have "\<not> list_ex shares_disk (pc_Details cfg)"
      using assms(3) unfolding l(2) own_disks_def
      by (auto simp: list_ex_iff list_all_iff shares_disk_def test_conf_of_detail config_detail_of_def split: option.splits)
    from single_plan_ok [OF 2(4) this form_points [OF assms(1,2) 2(1,3)]] show ?thesis using 2 by blast
  qed
  then show "well_formed (plan_records (jp_judge plan))" "one_source (plan_records (jp_judge plan))" "jp_quiz plan = None"
    "\<exists>cfg. load_config z = Inr (cfg, None) \<and> parse_groups z cfg = Inr (jp_score plan)" by blast+
qed

text \<open>The groups of such a configuration name a point each; those of a plan with a summary name points of the plan.\<close>

lemma form_groups:
  assumes "pz_config z = Some (config_json (generateConfig F d))" "load_config z = Inr (cfg, quiz)"
    "parse_groups z cfg = Inr gs"
  shows "\<forall>g \<in> set gs. gp_points g \<noteq> []"
proof -
  obtain u where "traverse (\<lambda>g s. map_sum id (\<lambda>x. (x, s)) (parse_group z g)) (pc_Groups cfg) () = Inr (gs, u)"
    using assms(3) unfolding parse_groups_def by (auto elim!: map_sum_Inr)
  from traverse_each [OF this]
  have each: "list_all2 (\<lambda>conf g. parse_group z conf = Inr g) (pc_Groups cfg) gs"
    by (rule list_all2_mono) (auto elim!: map_sum_Inr)
  have "gp_points g \<noteq> []" if g: "parse_group z conf = Inr g" "conf \<in> set (pc_Groups cfg)" for conf g
  proof -
    obtain r where "conf = the (group_conf_of (group_json (config_group_of F r)))"
      using g(2) load_form_config(3) [OF assms(1,2)] by auto
    then show ?thesis using g(1) split_on_not_Nil
      by (auto simp: group_conf_of_group parse_group_def and_then_Inr require_def config_group_of_def Let_def)
  qed
  then have each_group: "gp_points (gs ! i) \<noteq> []" if "i < length gs" for i
    using list_all2_nthD2 [OF each that] list_all2_lengthD [OF each] that by (metis nth_mem)
  show ?thesis
  proof
    fix g assume "g \<in> set gs"
    then obtain i where "i < length gs" "g = gs ! i" by (metis in_set_conv_nth)
    then show "gp_points g \<noteq> []" using each_group by simp
  qed
qed

lemma summarized_groups:
  assumes "summarize plan = Inr (Some sm)"
  shows "\<forall>g \<in> set (jp_score plan). set (gp_points g) \<subseteq> pt_id ` set (all_points (plan_records (jp_judge plan)))"
proof -
  have "map_of (point_limits plan) x \<noteq> None" if "g \<in> set (jp_score plan)" "x \<in> set (gp_points g)" for g x
    using assms that unfolding summarize_def by (auto simp: list_ex_iff split: if_splits)
  moreover have "x \<in> pt_id ` set (all_points (plan_records (jp_judge plan)))" if "map_of (point_limits plan) x \<noteq> None" for x
    using that unfolding map_of_eq_None_iff by (auto simp: point_limits_def all_points_def plan_records_def image_iff)
  ultimately show ?thesis by blast
qed

section \<open>From the problem editor to the result\<close>


section \<open>Shared disks\<close>

text \<open>Points 1, 2, 3 and 4: 2 depends on 1 and 3 on 2, and 4 shares the disk of 3.\<close>

definition disk_conf :: "int \<Rightarrow> int \<Rightarrow> jval \<Rightarrow> test_conf" where
  "disk_conf i k disk = \<lparr>tc_ID = JNum i, tc_Dependency = JNum k, tc_TimeLimit = JNull, tc_MemoryLimit = JNull,
     tc_DiskLimit = disk, tc_FileNumberLimit = JNull, tc_ValgrindTestOn = JBool False\<rparr>"

definition disk_confs :: "test_conf list" where
  "disk_confs = [disk_conf 1 0 JNull, disk_conf 2 1 JNull, disk_conf 3 2 JNull, disk_conf 4 0 (JNum 1024)]"

definition disk_points :: "problem_zip \<Rightarrow> (jstr \<Rightarrow> work) \<Rightarrow> work point list" where
  "disk_points z w = map (\<lambda>c. \<lparr>pt_id = id_of z c, pt_dep = dependency_of z c, pt_work = w (id_of z c)\<rparr>) disk_confs"

definition disk_point :: "(jstr \<Rightarrow> work) \<Rightarrow> string \<Rightarrow> dep \<Rightarrow> work point" where
  "disk_point w i k = \<lparr>pt_id = js i, pt_dep = k, pt_work = w (js i)\<rparr>"

lemma disk_points_eq:
  "disk_points z w = [disk_point w ''1'' NoDep, disk_point w ''2'' (Dep (js ''1'')), disk_point w ''3'' (Dep (js ''2'')),
     disk_point w ''4'' NoDep]"
  by (simp add: disk_points_def disk_confs_def disk_conf_def disk_point_def id_of_def dependency_of_def num_str_def nat_str_small)

lemma disk_positions:
  "position_of (js ''1'') (disk_points z w) = Some 0" "position_of (js ''2'') (disk_points z w) = Some 1"
  by (simp_all add: disk_points_eq disk_point_def position_of_def)

lemma place_free:
  "pt_dep (tps ! k) = NoDep \<Longrightarrow> place tps disks k gs =
    Inr (let gs1 = (if gs = [] \<or> (case disks ! k of None \<Rightarrow> True | Some n \<Rightarrow> n < 0) then gs @ [([], [])] else gs)
         in butlast gs1 @ [(fst (last gs1) @ [k], snd (last gs1))])"
  by (simp add: place_def Let_def)

lemma disk_groups:
  "place_all (disk_points z w) [None, None, None, Some 1024] [0, 1, 2, 3] [] = Inr [([0], []), ([1], [0]), ([2, 3], [1])]"
proof -
  let ?tps = "disk_points z w" and ?ds = "[None, None, None, Some 1024] :: int option list"
  have dep: "pt_dep (?tps ! 0) = NoDep" "pt_dep (?tps ! 1) = Dep (js ''1'')" "pt_dep (?tps ! 2) = Dep (js ''2'')"
      "pt_dep (?tps ! 3) = NoDep"
    by (simp_all add: disk_points_eq disk_point_def)
  have "place ?tps ?ds 0 [] = Inr [([0], [])]" using dep(1) by (simp add: place_free Let_def)
  moreover have "place ?tps ?ds 1 [([0], [])] = Inr [([0], []), ([1], [0])]"
    using dep(2) disk_positions(1) [of z w] by (auto simp: place_def Let_def less_Suc_eq intro!: exI [of _ 0] simp del: js_simps_list)
  moreover have "place ?tps ?ds 2 [([0], []), ([1], [0])] = Inr [([0], []), ([1], [0]), ([2], [1])]"
    using dep(3) disk_positions(2) [of z w] by (auto simp: place_def Let_def less_Suc_eq simp del: js_simps_list)
  moreover have "place ?tps ?ds 3 [([0], []), ([1], [0]), ([2], [1])] = Inr [([0], []), ([1], [0]), ([2, 3], [1])]"
    using dep(4) by (simp add: place_free Let_def)
  ultimately show ?thesis by simp
qed

lemma disk_tasks:
  "plan_tasks disk_confs (disk_points z w) = Inr
     [\<lparr>tk_points = [disk_point w ''1'' NoDep], tk_dependencies = [], tk_dependents = [1]\<rparr>,
      \<lparr>tk_points = [disk_point w ''2'' (Dep (js ''1''))], tk_dependencies = [0], tk_dependents = [2]\<rparr>,
      \<lparr>tk_points = [disk_point w ''3'' (Dep (js ''2'')), disk_point w ''4'' NoDep], tk_dependencies = [1], tk_dependents = []\<rparr>]"
proof -
  have shared: "list_ex shares_disk disk_confs" by (simp add: disk_confs_def disk_conf_def shares_disk_def)
  have disks: "map (\<lambda>c. int_of (tc_DiskLimit c)) disk_confs = [None, None, None, Some 1024]"
    by (simp add: disk_confs_def disk_conf_def)
  have n: "[0..<length (disk_points z w)] = [0, 1, 2, 3]" by (simp add: disk_points_eq upt_rec)
  show ?thesis
    unfolding plan_tasks_def disks n disk_groups using shared
    by (simp add: disk_points_eq generate_dependents_def add_dependent_def upt_rec)
qed

text \<open>
  C29: With point 1 failed, points 2 and 3 are skipped, which empties the second task; the third is a
  dependent of the second only, which never runs, so that point 4 is never judged although it depends on
  nothing: the loop stops without its result, and the submission is refused as if the problem's
  dependencies had a loop.
\<close>

theorem shared_disk_point_never_judged:
  assumes "vd_id x = js ''1''" "vd_result x \<noteq> Accepted" "js ''4'' \<in> set (gp_points g)"
  shows "\<exists>tasks s. plan_tasks disk_confs (disk_points z w) = Inr tasks
    \<and> exec_run [Started 0, Done [(0, Finished [Some x])]] (begin_run (plan_records tasks)) = Some s
    \<and> running s = [] \<and> map_of (results s) (js ''4'') = None
    \<and> synthesize_scores Final message (results s) [g] = Inl LoopDetected"
proof -
  obtain tasks where tasks: "plan_tasks disk_confs (disk_points z w) = Inr tasks"
    "plan_records tasks =
       [\<lparr>tr_points = [disk_point w ''1'' NoDep], tr_plan = [js ''1''], tr_dependents = [1], tr_result = None\<rparr>,
        \<lparr>tr_points = [disk_point w ''2'' (Dep (js ''1''))], tr_plan = [js ''2''], tr_dependents = [2], tr_result = None\<rparr>,
        \<lparr>tr_points = [disk_point w ''3'' (Dep (js ''2'')), disk_point w ''4'' NoDep], tr_plan = [js ''3'', js ''4''],
         tr_dependents = [], tr_result = None\<rparr>]"
    using disk_tasks [of z w] by (simp add: plan_records_def disk_point_def)
  let ?res = "[(js ''1'', x), (js ''2'', skipped_result (js ''2'') (failed_message (js ''1''))),
     (js ''3'', skipped_result (js ''3'') (failed_message (js ''2'')))]"
  have run: "\<exists>s. exec_run [Started 0, Done [(0, Finished [Some x])]] (begin_run (plan_records tasks)) = Some s
      \<and> running s = [] \<and> results s = ?res"
    using assms(1,2) unfolding tasks(2)
    by (simp add: disk_point_def begin_run_def startable_def dependencies_satisfied_def
        complete_one_def outcome_results_def accepted_in_def Let_def cut_task_def mark1_def put_result_def
        start_result_def fill_skipped_def upt_rec)
  have "group_verdict Final ?res (js ''4'') = None" by (simp add: group_verdict_def fallback_result_def)
  then have "None \<in> group_verdict Final ?res ` set (gp_points g)" using assms(3) by (metis imageI)
  then have "synthesize_scores Final message ?res [g] = Inl LoopDetected"
    by (simp add: synthesize_scores_def get_group_result_def Let_def)
  moreover have "map_of ?res (js ''4'') = None" by simp
  ultimately show ?thesis using run tasks(1) by metis
qed

theorem shared_disk_point_never_judged_witness:
  "\<exists>tasks s. plan_tasks disk_confs
      (disk_points \<lparr>pz_problem = [], pz_names = [], pz_config = None, pz_quiz = None, pz_repr = (\<lambda>_. []),
           pz_float = (\<lambda>_. None), pz_compiles = (\<lambda>_. True)\<rparr>
         (\<lambda>_. \<lparr>wk_input = SubmittedCode, wk_run = None, wk_check = DirectChecker\<rparr>)) = Inr tasks
    \<and> exec_run [Started 0, Done [(0, Finished [Some (plain_result (js ''1'') WrongAnswer [])])]]
        (begin_run (plan_records tasks)) = Some s
    \<and> running s = [] \<and> map_of (results s) (js ''4'') = None
    \<and> synthesize_scores Final None (results s)
        [\<lparr>gp_id = js ''1'', gp_name = JNull, gp_points = [js ''4''], gp_score = 100\<rparr>] = Inl LoopDetected"
  by (rule shared_disk_point_never_judged) (simp_all add: plain_result_def)

section \<open>What every plan has\<close>

lemma takeWhile_short: "x \<in> set xs \<Longrightarrow> Q x \<Longrightarrow> length (takeWhile (\<lambda>y. \<not> Q y) xs) < length xs"
  by (induction xs) auto

lemma place_positions:
  assumes "place tps disks k gs = Inr gs'"
  shows "concat (map fst gs') = concat (map fst gs) @ [k]" "gs' \<noteq> []"
proof -
  define gs1 where "gs1 = (if gs = [] \<or> (case disks ! k of None \<Rightarrow> True | Some n \<Rightarrow> n < 0) then gs @ [([], [])] else gs)"
  have ne: "gs1 \<noteq> []" and same: "concat (map fst gs1) = concat (map fst gs)" by (auto simp: gs1_def)
  have "concat (map fst (butlast gs1 @ [last gs1])) = concat (map fst gs)" using ne same by simp
  then have split: "concat (map fst gs) = concat (map fst (butlast gs1)) @ fst (last gs1)" by simp
  obtain ds where "gs' = butlast gs1 @ [(fst (last gs1) @ [k], ds)]"
    using assms unfolding place_def gs1_def [symmetric] Let_def
    by (auto split: dep.splits option.splits if_splits)
  then show "concat (map fst gs') = concat (map fst gs) @ [k]" "gs' \<noteq> []" using split by auto
qed

lemma place_all_positions:
  "place_all tps disks ks gs = Inr gs' \<Longrightarrow> concat (map fst gs') = concat (map fst gs) @ ks"
proof (induction ks arbitrary: gs)
  case (Cons k ks)
  then show ?case using place_positions(1) by (fastforce simp: and_then_Inr)
qed simp

lemma dependency_in_range:
  assumes "place tps disks k gs = Inr gs'" "\<forall>g \<in> set gs. \<forall>j \<in> set (snd g). j < length gs"
  shows "\<forall>g \<in> set gs'. \<forall>j \<in> set (snd g). j < length gs'" "length gs \<le> length gs'"
proof -
  define gs1 where "gs1 = (if gs = [] \<or> (case disks ! k of None \<Rightarrow> True | Some n \<Rightarrow> n < 0) then gs @ [([], [])] else gs)"
  define gs2 where "gs2 = butlast gs1 @ [(fst (last gs1) @ [k], snd (last gs1))]"
  have ne: "gs1 \<noteq> []" by (auto simp: gs1_def)
  have le: "length gs \<le> length gs1" "length gs2 = length gs1" using ne by (auto simp: gs1_def gs2_def)
  have r1: "\<forall>g \<in> set gs1. \<forall>j \<in> set (snd g). j < length gs1"
  proof (intro ballI)
    fix g j assume g: "g \<in> set gs1" "j \<in> set (snd g)"
    then have "g \<in> set gs" by (auto simp: gs1_def split: if_splits)
    then show "j < length gs1" using assms(2) g(2) le(1) by (meson less_le_trans)
  qed
  then have r2: "\<forall>g \<in> set gs2. \<forall>j \<in> set (snd g). j < length gs2"
    using ne le by (auto simp: gs2_def dest: in_set_butlastD)
  have cases: "gs' = gs2 \<or> (\<exists>q. (\<exists>i < length gs2. q \<in> set (fst (gs2 ! i)))
      \<and> gs' = butlast gs2 @ [(fst (last gs2), snd (last gs2) @ [length (takeWhile (\<lambda>h. q \<notin> set (fst h)) gs2)])])"
    using assms(1) unfolding place_def gs1_def [symmetric] Let_def gs2_def [symmetric]
    by (auto simp: gs2_def split: dep.splits option.splits if_splits)
  have lt: "length (takeWhile (\<lambda>h. q \<notin> set (fst h)) gs2) < length gs2" if "i < length gs2" "q \<in> set (fst (gs2 ! i))" for i q
    using takeWhile_short [of "gs2 ! i" gs2 "\<lambda>h. q \<in> set (fst h)"] that by simp
  show "\<forall>g \<in> set gs'. \<forall>j \<in> set (snd g). j < length gs'"
    using cases r2 lt le ne by (auto simp: gs2_def)
  show "length gs \<le> length gs'" using cases le by (auto simp: gs2_def)
qed

lemma dependencies_in_range:
  "\<lbrakk>place_all tps disks ks gs = Inr gs'; \<forall>g \<in> set gs. \<forall>j \<in> set (snd g). j < length gs\<rbrakk>
   \<Longrightarrow> \<forall>g \<in> set gs'. \<forall>j \<in> set (snd g). j < length gs'"
proof (induction ks arbitrary: gs)
  case (Cons k ks)
  from Cons.prems(1) obtain gs1 where g: "place tps disks k gs = Inr gs1" "place_all tps disks ks gs1 = Inr gs'"
    by (auto simp: and_then_Inr)
  show ?case by (rule Cons.IH [OF g(2) dependency_in_range(1) [OF g(1) Cons.prems(2)]])
qed simp

lemma single_task_plain:
  assumes "single_task tps t = Inr p"
  shows "tk_points p = [t]" "tk_dependents p = []" "\<forall>j \<in> set (tk_dependencies p). j < length tps"
proof -
  have "first_equal tps q < length tps" if "q < length tps" for q
    using takeWhile_short [of "tps ! q" tps "\<lambda>t. t = tps ! q"] that by (simp add: first_equal_def)
  then show "tk_points p = [t]" "tk_dependents p = []" "\<forall>j \<in> set (tk_dependencies p). j < length tps"
    using assms position_of_Some(1) by (auto simp: single_task_def split: dep.splits option.splits)
qed

lemma plan_tasks_base:
  assumes "plan_tasks confs tps = Inr tasks"
  obtains base where "tasks = generate_dependents base" "concat (map tk_points base) = tps"
    "\<forall>p \<in> set base. tk_dependents p = [] \<and> (\<forall>j \<in> set (tk_dependencies p). j < length base)"
proof (cases "list_ex shares_disk confs")
  case True
  then obtain gs where gs: "place_all tps (map (\<lambda>c. int_of (tc_DiskLimit c)) confs) [0..<length tps] [] = Inr gs"
      "tasks = generate_dependents
         (map (\<lambda>g. \<lparr>tk_points = map ((!) tps) (fst g), tk_dependencies = snd g, tk_dependents = []\<rparr>) gs)"
    using assms unfolding plan_tasks_def by (auto simp: and_then_Inr elim!: map_sum_Inr)
  let ?base = "map (\<lambda>g. \<lparr>tk_points = map ((!) tps) (fst g), tk_dependencies = snd g, tk_dependents = []\<rparr>) gs"
  have "concat (map tk_points ?base) = map ((!) tps) (concat (map fst gs))" by (simp add: map_concat comp_def)
  also have "\<dots> = tps" using place_all_positions [OF gs(1)] by (simp add: map_nth)
  finally show ?thesis using that [of ?base] gs(2) dependencies_in_range [OF gs(1)] by auto
next
  case False
  then obtain base where b: "map_sum id fst (traverse (\<lambda>t s. map_sum id (\<lambda>p. (p, s)) (single_task tps t)) tps ()) = Inr base"
      "tasks = generate_dependents base"
    using assms unfolding plan_tasks_def by (auto elim!: map_sum_Inr)
  note each = single_tasks_each [OF b(1)]
  have len: "length base = length tps" using list_all2_lengthD [OF each] by simp
  have nth: "single_task tps (tps ! k) = Inr (base ! k)" if "k < length tps" for k by (rule list_all2_nthD [OF each that])
  have "map tk_points base = map (\<lambda>t. [t]) tps" using single_task_plain(1) [OF nth] len by (auto intro: nth_equalityI)
  then have "concat (map tk_points base) = tps" by simp
  moreover have "tk_dependents p = [] \<and> (\<forall>j \<in> set (tk_dependencies p). j < length base)" if p: "p \<in> set base" for p
  proof -
    obtain k where "k < length base" "p = base ! k" using p by (metis in_set_conv_nth)
    then show ?thesis using single_task_plain(2,3) [OF nth] len by simp
  qed
  ultimately show ?thesis using that b(2) by blast
qed

text \<open>
  C28: In every plan that is generated, with shared disks or not, the tasks hold the problem's test
  points, each once and in order; every task a task depends on is one of the plan; and the dependents of a
  task are exactly the tasks that depend on it.
\<close>

theorem plan_is_closed:
  assumes "plan_tasks confs tps = Inr tasks"
  shows "concat (map tk_points tasks) = tps
    \<and> (\<forall>k < length tasks. set (tk_dependencies (tasks ! k)) \<subseteq> {..<length tasks}
         \<and> (\<forall>j < length tasks. k \<in> set (tk_dependents (tasks ! j)) \<longleftrightarrow> j \<in> set (tk_dependencies (tasks ! k))))"
proof -
  obtain base where b: "tasks = generate_dependents base" "concat (map tk_points base) = tps"
      "\<forall>p \<in> set base. tk_dependents p = [] \<and> (\<forall>j \<in> set (tk_dependencies p). j < length base)"
    by (rule plan_tasks_base [OF assms])
  note g = generate_dependents_adds [of base, folded b(1), unfolded adds_to_def]
  have "concat (map tk_points tasks) = tps" using b(1,2) generate_dependents_same by metis
  moreover have "set (tk_dependencies (tasks ! k)) \<subseteq> {..<length tasks}" if "k < length tasks" for k
    using g b(3) that by (auto dest: nth_mem)
  moreover have "k \<in> set (tk_dependents (tasks ! j)) \<longleftrightarrow> j \<in> set (tk_dependencies (tasks ! k))"
    if "k < length tasks" "j < length tasks" for j k
    using g b(3) that by auto
  ultimately show ?thesis by blast
qed

section \<open>Configurations the schema allows and the scheduler refuses\<close>

text \<open>A configuration with one test point, whose dependency is the given field if any.\<close>

definition one_point_config :: "(jstr \<times> jval) list \<Rightarrow> (jstr \<times> jval) list \<Rightarrow> jval" where
  "one_point_config dep stages =
    JObj [(js ''Groups'', JArr []), (js ''Details'', JArr [JObj ((js ''ID'', JNum 1) # dep)]),
      (js ''SPJ'', JObj ((js ''Check'', JStr (js ''skip'')) # stages))]"

definition zip_with :: "jval \<Rightarrow> problem_zip" where
  "zip_with cfg = \<lparr>pz_problem = js ''7'', pz_names = [js ''7/config.json''], pz_config = Some cfg, pz_quiz = None,
     pz_repr = (\<lambda>_. []), pz_float = (\<lambda>_. None), pz_compiles = (\<lambda>_. True)\<rparr>"

definition plain_work :: work where
  "plain_work = \<lparr>wk_input = SubmittedCode, wk_run = None, wk_check = DirectChecker\<rparr>"

theorem plan_is_closed_witness:
  "\<exists>tasks. plan_tasks disk_confs (disk_points (zip_with JNull) (\<lambda>_. plain_work)) = Inr tasks
    \<and> concat (map tk_points tasks) = disk_points (zip_with JNull) (\<lambda>_. plain_work)"
  using plan_is_closed [OF disk_tasks [of "zip_with JNull" "\<lambda>_. plain_work"]] disk_tasks [of "zip_with JNull" "\<lambda>_. plain_work"]
  by blast

definition no_dependency :: jval where
  "no_dependency = one_point_config [] []"

definition null_dependency :: jval where
  "null_dependency = one_point_config [(js ''Dependency'', JNull)] []"

definition null_interactor :: jval where
  "null_interactor = one_point_config [(js ''Dependency'', JNum 0)]
     [(js ''Run'', JObj [(js ''Type'', JStr (js ''interactive'')), (js ''Interactor'', JNull)])]"

definition zero_dependency :: jval where
  "zero_dependency = one_point_config [(js ''Dependency'', JNum 0)] []"

lemma one_namelist: "namelist (zip_with c) = [js ''config.json'']"
  by (simp add: namelist_def zip_with_def drop_all.simps starts_with_def)

definition small_config :: "test_conf \<Rightarrow> problem_config" where
  "small_config conf = \<lparr>pc_Details = [conf], pc_Groups = [],
     pc_SPJ = plain_stages ''classic'' ''classic'' ''skip'', pc_CompileTimeLimit = JNull, pc_Scorer = JNum 0,
     pc_SupportedFiles = JArr [], pc_Verilog = JBool False, pc_RunnerGroup = JStr (js ''default'')\<rparr>"

lemma one_point_load:
  assumes "test_conf_of (JObj ((js ''ID'', JNum 1) # dep)) = Some conf"
  shows "load_config (zip_with (one_point_config dep [])) = Inr (small_config conf, None)"
proof -
  have "all_of test_conf_of (JArr [JObj ((js ''ID'', JNum 1) # dep)]) = Some [conf]"
    using assms by (simp add: all_of_def del: js_simps_list)
  then show ?thesis
    by (simp add: load_config_def zip_with_def one_point_config_def load_quiz_def field_or_def require_def
      desugar_spj_config_def stages_of_def stage_fields_def literal_def optional_program_def config_fields_def
      plain_stages_def small_config_def all_of_def [of group_conf_of])
qed


section \<open>A problem as the editor starts with it\<close>

definition start_config :: jval where
  "start_config = config_json (generateConfig (\<lambda>_. JNull) form_init)"

definition start_zip :: problem_zip where
  "start_zip = (zip_with start_config)\<lparr>pz_names := map js [''7/1.in'', ''7/1.ans'', ''7/config.json'']\<rparr>"

abbreviation no_number :: "jstr \<Rightarrow> jval" where
  "no_number \<equiv> \<lambda>_. JNull"

definition start_conf :: test_conf where
  "start_conf = \<lparr>tc_ID = JNum 1, tc_Dependency = JNum 0, tc_TimeLimit = JNum 1000, tc_MemoryLimit = JNum 256000000,
     tc_DiskLimit = JNum 0, tc_FileNumberLimit = JNull, tc_ValgrindTestOn = JBool False\<rparr>"

definition start_group :: group_conf where
  "start_group = \<lparr>gc_GroupID = JNum 1, gc_GroupScore = JNum 10, gc_TestPoints = JArr [JNum 1], gc_GroupName = JStr (js ''1'')\<rparr>"

lemma start_namelist: "namelist start_zip = map js [''1.in'', ''1.ans'', ''config.json'']"
  by (simp add: namelist_def start_zip_def zip_with_def drop_all.simps starts_with_def)

lemma start_cells:
  "cell_num no_number (js ''256000000'') = JNum 256000000" "cell_num no_number (js ''1000'') = JNum 1000"
  "cell_num no_number (js ''10'') = JNum 10" "cell_num no_number (js ''0'') = JNum 0" "cell_num no_number (js ''1'') = JNum 1"
  "js_number no_number (js ''30000'') = JNum 30000" "js_number no_number (js ''1'') = JNum 1" "cell_text (js ''1'') = js ''1''"
  by (simp_all add: cell_num_def cell_text_def js_number_def js_trim_def split_sign_def signed_def digits_value_def
      is_digit_def trim_end_def js_ws_def starts_with_def)

lemma start_rows:
  "config_detail_of no_number (tableDetails form_init ! 0) = \<lparr>cd_ID = JNum 1, cd_Dependency = JNum 0, cd_TimeLimit = JNum 1000,
     cd_MemoryLimit = JNum 256000000, cd_DiskLimit = JNum 0, cd_ValgrindTestOn = False\<rparr>"
  "config_group_of no_number (tableGroups form_init ! 0) = \<lparr>cg_GroupID = JNum 1, cg_GroupName = js ''1'', cg_GroupScore = JNum 10,
     cg_TestPoints = [JNum 1]\<rparr>"
proof -
  have one_piece: "split_on 44 (js ''1'') = [js ''1'']" by simp
  show "config_detail_of no_number (tableDetails form_init ! 0) = \<lparr>cd_ID = JNum 1, cd_Dependency = JNum 0, cd_TimeLimit = JNum 1000,
     cd_MemoryLimit = JNum 256000000, cd_DiskLimit = JNum 0, cd_ValgrindTestOn = False\<rparr>"
    by (simp add: config_detail_of_def form_init_def start_cells del: js_simps_list)
  show "config_group_of no_number (tableGroups form_init ! 0) = \<lparr>cg_GroupID = JNum 1, cg_GroupName = js ''1'', cg_GroupScore = JNum 10,
     cg_TestPoints = [JNum 1]\<rparr>"
    by (simp add: config_group_of_def form_init_def start_cells one_piece del: js_simps_list)
qed

lemma start_config_eq:
  "start_config = JObj
     [(js ''Groups'', JArr [group_json \<lparr>cg_GroupID = JNum 1, cg_GroupName = js ''1'', cg_GroupScore = JNum 10, cg_TestPoints = [JNum 1]\<rparr>]),
      (js ''Details'', JArr [detail_json \<lparr>cd_ID = JNum 1, cd_Dependency = JNum 0, cd_TimeLimit = JNum 1000,
         cd_MemoryLimit = JNum 256000000, cd_DiskLimit = JNum 0, cd_ValgrindTestOn = False\<rparr>]),
      (js ''CompileTimeLimit'', JNum 30000), (js ''SPJ'', spj_json (js ''classic'') (js ''classic'') (js ''compare'')),
      (js ''Scorer'', JNum 0)]"
proof -
  have one: "map f (tableDetails form_init) = [f (tableDetails form_init ! 0)]"
      "map g (tableGroups form_init) = [g (tableGroups form_init ! 0)]" for f :: "detail_row \<Rightarrow> jval" and g :: "group_row \<Rightarrow> jval"
    by (simp_all add: form_init_def)
  have types: "iptCompileTime form_init = js ''30000''" "iptCompileType form_init = js ''classic''"
      "iptRunType form_init = js ''classic''" "iptCheckType form_init = js ''compare''"
    by (simp_all add: form_init_def)
  show ?thesis unfolding start_config_def config_json_eq one types start_rows start_cells ..
qed

definition start_cfg :: problem_config where
  "start_cfg = \<lparr>pc_Details = [start_conf], pc_Groups = [start_group], pc_SPJ = plain_stages ''classic'' ''classic'' ''compare'',
       pc_CompileTimeLimit = JNum 30000, pc_Scorer = JNum 0, pc_SupportedFiles = JArr [], pc_Verilog = JBool False,
       pc_RunnerGroup = JStr (js ''default'')\<rparr>"

lemma start_load: "load_config start_zip = Inr (start_cfg, None)"
  by (simp add: load_config_def start_zip_def zip_with_def start_config_eq all_of_def test_conf_of_detail group_conf_of_group
      start_conf_def start_group_def load_quiz_def field_or_def require_def desugar_spj_config_def spj_json_def stages_of_def
      stage_fields_def literal_def optional_program_def config_fields_def plain_stages_def start_cfg_def)

lemma start_zip_sel [simp]:
  "pz_problem start_zip = js ''7''" "pz_names start_zip = map js [''7/1.in'', ''7/1.ans'', ''7/config.json'']"
  "pz_repr start_zip v = []" "pz_float start_zip s = None" "pz_compiles start_zip s = True"
  by (simp_all add: start_zip_def zip_with_def)

lemma start_cfg_sel [simp]:
  "pc_Details start_cfg = [start_conf]" "pc_Groups start_cfg = [start_group]"
  "pc_SPJ start_cfg = plain_stages ''classic'' ''classic'' ''compare''" "pc_CompileTimeLimit start_cfg = JNum 30000"
  "pc_SupportedFiles start_cfg = JArr []" "pc_Verilog start_cfg = JBool False"
  "pc_RunnerGroup start_cfg = JStr (js ''default'')"
  by (simp_all add: start_cfg_def)

definition start_point :: "work point" where
  "start_point = \<lparr>pt_id = js ''1'', pt_dep = NoDep, pt_work =
     \<lparr>wk_input = SubmittedCode,
      wk_run = Some \<lparr>ra_type = js ''elf'',
        ra_limits = \<lparr>lm_time = JNum 1000, lm_memory = JNum 256000000, lm_count = JNum (-1), lm_size = JNum 0\<rparr>,
        ra_infile = Some (js ''s3://7/1.in''), ra_interactor = None\<rparr>,
      wk_check = CompareChecker True (js ''s3://7/1.ans'')\<rparr>\<rparr>"

definition start_plan :: judge_plan where
  "start_plan = \<lparr>jp_group = JStr (js ''default''),
     jp_compile = Some \<lparr>cp_source = UserSource, cp_files = [], cp_artifact = True,
       cp_limits = default_compile_limits\<lparr>lm_time := JNum 30000\<rparr>\<rparr>,
     jp_judge = [\<lparr>tk_points = [start_point], tk_dependencies = [], tk_dependents = []\<rparr>],
     jp_score = [\<lparr>gp_id = js ''1'', gp_name = JStr (js ''1''), gp_points = [js ''1''], gp_score = 10\<rparr>], jp_quiz = None\<rparr>"

lemma start_parse:
  "\<not> px_per_point c \<Longrightarrow> parse_testpoint start_zip start_cfg template start_conf c = Inr (start_point,
     c\<lparr>px_files := List.insert (JStr (js ''1.ans'')) (List.insert (JStr (js ''1.in'')) (px_files c))\<rparr>)"
  by (simp add: parse_testpoint_def start_conf_def id_of_def num_str_def nat_str_small start_namelist text_url_def file_link_def
      file_key_def run_limits_def or_default_def default_run_limits_def require_def run_type_def plain_stages_def run_of_def
      check_of_def answer_file_def dependency_of_def start_point_def Let_def)

lemma start_generates: "generate_plan start_zip = Inr start_plan"
proof -
  have tasks: "plan_tasks [start_conf] [start_point] = Inr [\<lparr>tk_points = [start_point], tk_dependencies = [], tk_dependents = []\<rparr>]"
    by (simp add: plan_tasks_def start_conf_def start_point_def shares_disk_def single_task_def generate_dependents_def)
  have groups: "parse_groups start_zip start_cfg = Inr (jp_score start_plan)"
    by (simp add: parse_groups_def start_group_def parse_group_def require_def float_of_def num_str_def nat_str_small start_plan_def)
  have files: "upload_files start_zip [JStr (js ''1.ans''), JStr (js ''1.in'')] = Inr ()"
    by (simp add: upload_files_def start_namelist open_file_def starts_with_def file_key_def map_filter_simps)
  show ?thesis
    using files
    by (simp add: generate_plan_def start_load parse_compile_def plain_stages_def parse_start_def require_def Let_def start_parse tasks groups
        execute_compile_tasks_def start_plan_def)
qed

definition all_accepted :: "jstr \<Rightarrow> work \<Rightarrow> verdict" where
  "all_accepted i _ = \<lparr>vd_id = i, vd_result = Accepted, vd_message = [], vd_score = 1, vd_usage = None\<rparr>"

definition start_run :: "exec_op list" where
  "start_run = [Started 0, Done [(0, Finished [Some (all_accepted (js ''1'') (pt_work start_point))])]]"

definition start_state :: "work exec" where
  "start_state = the (exec_run start_run (begin_run (plan_records (jp_judge start_plan))))"

lemma start_runs:
  "may_all all_accepted start_run (begin_run (plan_records (jp_judge start_plan)))"
  "exec_run start_run (begin_run (plan_records (jp_judge start_plan))) = Some start_state" "running start_state = []"
  by (simp_all add: start_state_def start_run_def start_plan_def plan_records_def start_point_def all_accepted_def run_defs runs_def
      judge_testpoint_def)


end
