(* ===== verification/JudgeDispatch.thy ===== *)
theory JudgeDispatch
  imports JSPrelude
begin

text \<open>
  Handing tasks to runners: \<open>run_task\<close> of \<open>src/scheduler2/dispatch.py\<close> with the
  rate limiter of \<open>src/scheduler2/util.py\<close>, for the tasks of one account. A call is a stack of
  attempts, the latest first, because a retry is a call made inside the \<open>async with\<close> of the
  attempt before it. What stands between the scheduler and the runners (the queues in Redis, the
  heartbeats) appears as the messages and events that reach a call.
\<close>

section \<open>State\<close>

text \<open>Where an attempt is: before the semaphore, queued, or started by a runner.\<close>

datatype stage = AtLimit | Queued | AtRunner

record attempt =
  at_stage :: stage
  at_left :: nat

text \<open>How a call ends: with a result, an exception, or cancelled.\<close>

datatype 'r call_end = Result 'r | Raised jstr | Cancelled

record 'r call =
  ca_stack :: "attempt list"
  ca_sleeping :: bool
  ca_end :: "'r call_end option"

record 'r limiter =
  li_free :: nat
  li_waiting :: int
  li_queued :: int
  li_started :: int
  li_calls :: "'r call list"

datatype 'r status = StatusStarted | StatusProgress | StatusDone 'r | StatusError jstr | StatusUnknown jstr

text \<open>
  The semaphore lets a call in, a status arrives, the wait for one runs out, the runner goes offline,
  the pause before a retry is over, or the call is cancelled; and new calls are made.
\<close>

datatype 'r dispatch_op =
    Enter nat | Status nat "'r status" | Timeout nat | Offline nat | Wake nat | Cancel nat | Call

definition task_retries :: nat where
  "task_retries = 3"

definition task_concurrency_per_account :: nat where
  "task_concurrency_per_account = 4"

definition new_limiter :: "'r limiter" where
  "new_limiter = \<lparr>li_free = task_concurrency_per_account, li_waiting = 0, li_queued = 0, li_started = 0, li_calls = []\<rparr>"

section \<open>Steps\<close>

text \<open>The end of an attempt gives its place back, if it has one, and takes it off its gauge.\<close>

definition leave_attempt :: "attempt \<Rightarrow> 'r limiter \<Rightarrow> 'r limiter" where
  "leave_attempt a d =
    (case at_stage a of
       AtLimit \<Rightarrow> d\<lparr>li_waiting := li_waiting d - 1\<rparr>
     | Queued \<Rightarrow> d\<lparr>li_free := Suc (li_free d), li_queued := li_queued d - 1\<rparr>
     | AtRunner \<Rightarrow> d\<lparr>li_free := Suc (li_free d), li_started := li_started d - 1\<rparr>)"

text \<open>The whole stack unwinds.\<close>

definition end_call :: "nat \<Rightarrow> 'r call_end \<Rightarrow> 'r limiter \<Rightarrow> 'r limiter" where
  "end_call i e d =
    (let c = li_calls d ! i; d1 = fold leave_attempt (ca_stack c) d
     in d1\<lparr>li_calls := (li_calls d1)[i := \<lparr>ca_stack = [], ca_sleeping = False, ca_end = Some e\<rparr>]\<rparr>)"

definition set_top :: "nat \<Rightarrow> stage \<Rightarrow> 'r limiter \<Rightarrow> 'r limiter" where
  "set_top i st d =
    (let c = li_calls d ! i
     in d\<lparr>li_calls := (li_calls d)[i := c\<lparr>ca_stack := (hd (ca_stack c))\<lparr>at_stage := st\<rparr> # tl (ca_stack c)\<rparr>]\<rparr>)"

definition push_attempt :: "nat \<Rightarrow> 'r call \<Rightarrow> 'r call" where
  "push_attempt left c = c\<lparr>ca_stack := \<lparr>at_stage = AtLimit, at_left = left\<rparr> # ca_stack c, ca_sleeping := False\<rparr>"

text \<open>\<open>retry\<close>: the last attempt raises, the others sleep while they keep their place.\<close>

definition retry :: "nat \<Rightarrow> jstr \<Rightarrow> 'r limiter \<Rightarrow> 'r limiter" where
  "retry i msg d =
    (let c = li_calls d ! i
     in if at_left (hd (ca_stack c)) = 0 then end_call i (Raised msg) d
        else d\<lparr>li_calls := (li_calls d)[i := c\<lparr>ca_sleeping := True\<rparr>]\<rparr>)"

text \<open>A call that waits for messages: not asleep, and past the semaphore.\<close>

definition awake :: "'r limiter \<Rightarrow> nat \<Rightarrow> bool" where
  "awake d i \<longleftrightarrow> i < length (li_calls d) \<and> ca_stack (li_calls d ! i) \<noteq> [] \<and> \<not> ca_sleeping (li_calls d ! i)"

definition top_stage :: "'r limiter \<Rightarrow> nat \<Rightarrow> stage" where
  "top_stage d i = at_stage (hd (ca_stack (li_calls d ! i)))"

definition enabled :: "'r limiter \<Rightarrow> 'r dispatch_op \<Rightarrow> bool" where
  "enabled d op =
    (case op of
       Enter i \<Rightarrow> awake d i \<and> top_stage d i = AtLimit \<and> li_free d > 0
     | Status i StatusStarted \<Rightarrow> awake d i \<and> top_stage d i = Queued
     | Status i _ \<Rightarrow> awake d i \<and> top_stage d i \<noteq> AtLimit
     | Timeout i \<Rightarrow> awake d i \<and> top_stage d i \<noteq> AtLimit
     | Offline i \<Rightarrow> awake d i \<and> top_stage d i = AtRunner
     | Wake i \<Rightarrow> i < length (li_calls d) \<and> ca_sleeping (li_calls d ! i)
     | Cancel i \<Rightarrow> i < length (li_calls d) \<and> ca_stack (li_calls d ! i) \<noteq> []
     | Call \<Rightarrow> True)"

fun dispatch_step :: "'r dispatch_op \<Rightarrow> 'r limiter \<Rightarrow> 'r limiter" where
  "dispatch_step (Enter i) d =
    set_top i Queued (d\<lparr>li_free := li_free d - 1, li_waiting := li_waiting d - 1, li_queued := li_queued d + 1\<rparr>)"
| "dispatch_step (Status i StatusStarted) d =
    set_top i AtRunner (d\<lparr>li_queued := li_queued d - 1, li_started := li_started d + 1\<rparr>)"
| "dispatch_step (Status i StatusProgress) d = d"
| "dispatch_step (Status i (StatusDone r)) d = end_call i (Result r) d"
| "dispatch_step (Status i (StatusError m)) d = retry i (js ''Runner error: '' @ m) d"
| "dispatch_step (Status i (StatusUnknown m)) d = end_call i (Raised (js ''Unknown message from runner: '' @ m)) d"
| "dispatch_step (Timeout i) d = retry i (js ''Task timed out'') d"
| "dispatch_step (Offline i) d = retry i (js ''Runner offline'') d"
| "dispatch_step (Wake i) d =
    (let c = li_calls d ! i
     in d\<lparr>li_calls := (li_calls d)[i := push_attempt (at_left (hd (ca_stack c)) - 1) c], li_waiting := li_waiting d + 1\<rparr>)"
| "dispatch_step (Cancel i) d = end_call i Cancelled d"
| "dispatch_step Call d =
    d\<lparr>li_calls := li_calls d @ [push_attempt task_retries \<lparr>ca_stack = [], ca_sleeping = False, ca_end = None\<rparr>],
      li_waiting := li_waiting d + 1\<rparr>"

section \<open>Places and gauges\<close>

definition all_attempts :: "'r limiter \<Rightarrow> attempt list" where
  "all_attempts d = concat (map ca_stack (li_calls d))"

definition in_stage :: "stage \<Rightarrow> attempt list \<Rightarrow> nat" where
  "in_stage st as = length (filter (\<lambda>a. at_stage a = st) as)"

text \<open>
  The places that are free and those that attempts hold are those of the account; the gauges count the
  attempts by stage; and a stack has as many attempts as were made, each with one retry less.
\<close>

definition stack_ok :: "'r call \<Rightarrow> bool" where
  "stack_ok c \<longleftrightarrow> map at_left (ca_stack c) = rev (map (\<lambda>k. task_retries - k) [0..<length (ca_stack c)])
     \<and> length (ca_stack c) \<le> Suc task_retries
     \<and> list_all (\<lambda>a. at_stage a \<noteq> AtLimit) (tl (ca_stack c))
     \<and> (ca_sleeping c \<longrightarrow> ca_stack c \<noteq> [] \<and> at_stage (hd (ca_stack c)) \<noteq> AtLimit \<and> at_left (hd (ca_stack c)) > 0)
     \<and> (ca_end c = None \<longleftrightarrow> ca_stack c \<noteq> [])"

definition limiter_ok :: "'r limiter \<Rightarrow> bool" where
  "limiter_ok d \<longleftrightarrow>
     li_free d + in_stage Queued (all_attempts d) + in_stage AtRunner (all_attempts d) = task_concurrency_per_account
     \<and> li_waiting d = int (in_stage AtLimit (all_attempts d)) \<and> li_queued d = int (in_stage Queued (all_attempts d))
     \<and> li_started d = int (in_stage AtRunner (all_attempts d)) \<and> (\<forall>c \<in> set (li_calls d). stack_ok c)"

definition total_in :: "stage \<Rightarrow> 'r call list \<Rightarrow> nat" where
  "total_in st cs = sum_list (map (\<lambda>c. in_stage st (ca_stack c)) cs)"

lemma in_stage_simps [simp]:
  "in_stage st [] = 0" "in_stage st (a # as) = (if at_stage a = st then Suc (in_stage st as) else in_stage st as)"
  "in_stage st (as @ bs) = in_stage st as + in_stage st bs"
  by (simp_all add: in_stage_def)

lemma all_attempts_total: "in_stage st (all_attempts d) = total_in st (li_calls d)"
proof -
  have "in_stage st (concat (map ca_stack cs)) = total_in st cs" for cs by (induction cs) (simp_all add: total_in_def)
  then show ?thesis by (simp add: all_attempts_def)
qed

lemma total_in_update:
  "i < length cs \<Longrightarrow> total_in st (cs[i := c]) + in_stage st (ca_stack (cs ! i)) = total_in st cs + in_stage st (ca_stack c)"
  by (induction cs arbitrary: i) (auto simp: total_in_def nth_Cons split: nat.split)

lemma total_in_snoc: "total_in st (cs @ [c]) = total_in st cs + in_stage st (ca_stack c)"
  by (simp add: total_in_def)

lemma leave_attempts:
  "li_free (fold leave_attempt as d) = li_free d + in_stage Queued as + in_stage AtRunner as"
  "li_waiting (fold leave_attempt as d) = li_waiting d - int (in_stage AtLimit as)"
  "li_queued (fold leave_attempt as d) = li_queued d - int (in_stage Queued as)"
  "li_started (fold leave_attempt as d) = li_started d - int (in_stage AtRunner as)"
  "li_calls (fold leave_attempt as d) = li_calls d"
  by (induction as arbitrary: d) (auto simp: leave_attempt_def split: stage.splits)

text \<open>A change of one call, with what it does to the places and gauges.\<close>

definition counts :: "nat \<Rightarrow> int \<Rightarrow> int \<Rightarrow> int \<Rightarrow> 'r call list \<Rightarrow> bool" where
  "counts f w q r cs \<longleftrightarrow> f + total_in Queued cs + total_in AtRunner cs = task_concurrency_per_account
     \<and> w = int (total_in AtLimit cs) \<and> q = int (total_in Queued cs) \<and> r = int (total_in AtRunner cs)
     \<and> (\<forall>c \<in> set cs. stack_ok c)"

lemma limiter_ok_counts: "limiter_ok d \<longleftrightarrow> counts (li_free d) (li_waiting d) (li_queued d) (li_started d) (li_calls d)"
  by (simp add: limiter_ok_def counts_def all_attempts_total)

lemma counts_update:
  assumes "counts f w q r cs" "i < length cs" "stack_ok c"
    "f' + in_stage Queued (ca_stack c) + in_stage AtRunner (ca_stack c)
       = f + in_stage Queued (ca_stack (cs ! i)) + in_stage AtRunner (ca_stack (cs ! i))"
    "w' + int (in_stage AtLimit (ca_stack (cs ! i))) = w + int (in_stage AtLimit (ca_stack c))"
    "q' + int (in_stage Queued (ca_stack (cs ! i))) = q + int (in_stage Queued (ca_stack c))"
    "r' + int (in_stage AtRunner (ca_stack (cs ! i))) = r + int (in_stage AtRunner (ca_stack c))"
  shows "counts f' w' q' r' (cs[i := c])"
proof -
  have t: "int (total_in st (cs[i := c])) = int (total_in st cs) + int (in_stage st (ca_stack c)) - int (in_stage st (ca_stack (cs ! i)))" for st
    using total_in_update [OF assms(2), of st c] by linarith
  have "int f' + int (total_in Queued (cs[i := c])) + int (total_in AtRunner (cs[i := c])) = int task_concurrency_per_account"
    using assms(1,4) t [of Queued] t [of AtRunner] unfolding counts_def by linarith
  then have "f' + total_in Queued (cs[i := c]) + total_in AtRunner (cs[i := c]) = task_concurrency_per_account" by linarith
  moreover have "\<forall>k \<in> set (cs[i := c]). stack_ok k"
    using assms(1,3) set_update_subset_insert [of cs i c] unfolding counts_def by blast
  ultimately show ?thesis using assms(1,5-7) t unfolding counts_def by auto
qed

lemma ended_ok: "stack_ok \<lparr>ca_stack = [], ca_sleeping = False, ca_end = Some e\<rparr>"
  by (simp add: stack_ok_def)

lemma end_call_ok:
  assumes "limiter_ok d" "i < length (li_calls d)"
  shows "limiter_ok (end_call i e d)"
proof -
  have "counts (li_free (end_call i e d)) (li_waiting (end_call i e d)) (li_queued (end_call i e d)) (li_started (end_call i e d))
     ((li_calls d)[i := \<lparr>ca_stack = [], ca_sleeping = False, ca_end = Some e\<rparr>])"
    by (rule counts_update [OF assms(1) [unfolded limiter_ok_counts] assms(2) ended_ok])
      (simp_all add: end_call_def leave_attempts Let_def)
  then show ?thesis by (simp add: limiter_ok_counts end_call_def leave_attempts Let_def)
qed

lemma call_ok:
  assumes "limiter_ok d" "awake d i"
  obtains a as where "ca_stack (li_calls d ! i) = a # as" "i < length (li_calls d)" "stack_ok (li_calls d ! i)"
    "ca_sleeping (li_calls d ! i) = False"
  using assms unfolding awake_def limiter_ok_def by (metis list.exhaust nth_mem)

lemma set_top_ok:
  assumes "limiter_ok d" "awake d i" "st \<noteq> AtLimit" "d' = d\<lparr>li_free := f, li_waiting := w, li_queued := q, li_started := r\<rparr>"
    "f + (if top_stage d i = AtLimit then 1 else 0) = li_free d" 
    "w = li_waiting d - (if top_stage d i = AtLimit then 1 else 0)"
    "q = li_queued d - (if top_stage d i = Queued then 1 else 0) + (if st = Queued then 1 else 0)"
    "r = li_started d - (if top_stage d i = AtRunner then 1 else 0) + (if st = AtRunner then 1 else 0)"
  shows "limiter_ok (set_top i st d')"
proof -
  obtain a as where a: "ca_stack (li_calls d ! i) = a # as" "i < length (li_calls d)" "stack_ok (li_calls d ! i)"
      "ca_sleeping (li_calls d ! i) = False"
    by (rule call_ok [OF assms(1,2)])
  let ?c = "(li_calls d ! i)\<lparr>ca_stack := a\<lparr>at_stage := st\<rparr> # as\<rparr>"
  have "stack_ok ?c" using a by (simp add: stack_ok_def)
  then have "counts f w q r ((li_calls d)[i := ?c])"
    by (rule counts_update [OF assms(1) [unfolded limiter_ok_counts] a(2)])
      (use a(1) assms(3,5-8) in \<open>cases "at_stage a"; cases st; simp add: top_stage_def\<close>)+
  then show ?thesis using a(1) assms(4) by (simp add: limiter_ok_counts set_top_def Let_def)
qed

lemma retry_ok:
  assumes "limiter_ok d" "awake d i" "top_stage d i \<noteq> AtLimit"
  shows "limiter_ok (retry i m d)"
proof -
  obtain a as where a: "ca_stack (li_calls d ! i) = a # as" "i < length (li_calls d)" "stack_ok (li_calls d ! i)"
    by (rule call_ok [OF assms(1,2)])
  show ?thesis
  proof (cases "at_left a = 0")
    case True
    then show ?thesis using end_call_ok [OF assms(1) a(2)] a(1) by (simp add: retry_def Let_def)
  next
    case False
    let ?c = "(li_calls d ! i)\<lparr>ca_sleeping := True\<rparr>"
    have "stack_ok ?c" using a assms(3) False by (simp add: stack_ok_def top_stage_def)
    then have "counts (li_free d) (li_waiting d) (li_queued d) (li_started d) ((li_calls d)[i := ?c])"
      by (rule counts_update [OF assms(1) [unfolded limiter_ok_counts] a(2)]) simp_all
    then show ?thesis using a(1) False by (simp add: retry_def Let_def limiter_ok_counts)
  qed
qed

lemma wake_ok:
  assumes "limiter_ok d" "i < length (li_calls d)" "ca_sleeping (li_calls d ! i)"
  shows "limiter_ok (dispatch_step (Wake i) d)"
proof -
  have so: "stack_ok (li_calls d ! i)" using assms(1,2) by (simp add: limiter_ok_def)
  then obtain a as where a: "ca_stack (li_calls d ! i) = a # as" "at_stage a \<noteq> AtLimit" "at_left a > 0"
    using assms(3) unfolding stack_ok_def by (cases "ca_stack (li_calls d ! i)") auto
  have lefts: "map at_left (a # as) = rev (map (\<lambda>k. task_retries - k) [0..<Suc (length as)])"
    using so a(1) by (simp add: stack_ok_def)
  then have left: "at_left a = task_retries - length as" by simp
  then have few: "length as < task_retries" using a(3) by simp
  let ?c = "push_attempt (at_left a - 1) (li_calls d ! i)"
  have "stack_ok ?c"
    using so a lefts left few by (auto simp: stack_ok_def push_attempt_def)
  then have "counts (li_free d) (li_waiting d + 1) (li_queued d) (li_started d) ((li_calls d)[i := ?c])"
    by (rule counts_update [OF assms(1) [unfolded limiter_ok_counts] assms(2)]) (simp_all add: push_attempt_def a(1))
  then show ?thesis using a(1) by (simp add: Let_def limiter_ok_counts)
qed

lemma dispatch_step_ok:
  assumes "limiter_ok d" "enabled d op"
  shows "limiter_ok (dispatch_step op d)"
proof (cases op)
  case (Enter i)
  then have e: "awake d i" "top_stage d i = AtLimit" "li_free d > 0" using assms(2) by (auto simp: enabled_def)
  have "limiter_ok (set_top i Queued (d\<lparr>li_free := li_free d - 1, li_waiting := li_waiting d - 1, li_queued := li_queued d + 1,
      li_started := li_started d\<rparr>))"
    by (rule set_top_ok [OF assms(1) e(1) _ refl]) (use e in \<open>simp_all\<close>)
  then show ?thesis unfolding Enter by simp
next
  case (Status i st)
  show ?thesis
  proof (cases st)
    case StatusStarted
    then have e: "awake d i" "top_stage d i = Queued" using assms(2) Status by (auto simp: enabled_def)
    have "limiter_ok (set_top i AtRunner (d\<lparr>li_free := li_free d, li_waiting := li_waiting d, li_queued := li_queued d - 1,
        li_started := li_started d + 1\<rparr>))"
      by (rule set_top_ok [OF assms(1) e(1) _ refl]) (use e in \<open>simp_all\<close>)
    then show ?thesis unfolding Status StatusStarted by simp
  qed (use assms Status end_call_ok [OF assms(1)] retry_ok [OF assms(1)] in \<open>auto simp: enabled_def awake_def\<close>)
next
  case (Timeout i)
  then show ?thesis using assms retry_ok by (auto simp: enabled_def)
next
  case (Offline i)
  then have "awake d i" "top_stage d i = AtRunner" using assms(2) by (auto simp: enabled_def)
  then show ?thesis unfolding Offline dispatch_step.simps by (intro retry_ok [OF assms(1)]) simp_all
next
  case (Wake i)
  then show ?thesis using assms wake_ok by (auto simp: enabled_def)
next
  case (Cancel i)
  then show ?thesis using assms end_call_ok by (auto simp: enabled_def)
next
  case Call
  let ?c = "push_attempt task_retries \<lparr>ca_stack = [], ca_sleeping = False, ca_end = None\<rparr>"
  have "stack_ok ?c" by (simp add: stack_ok_def push_attempt_def)
  then show ?thesis using assms(1) Call
    by (simp add: limiter_ok_counts counts_def total_in_snoc push_attempt_def)
qed

interpretation limiter: guarded_machine dispatch_step limiter_ok "\<lambda>op d. enabled d op"
  by unfold_locales (rule dispatch_step_ok)

lemma new_limiter_ok: "limiter_ok new_limiter"
  by (simp add: limiter_ok_def new_limiter_def all_attempts_def)

text \<open>
  C18: Whatever tasks an account has and however they go, at most four attempts are past its rate limit,
  a task is attempted at most four times, and the gauges count the attempts by their stage: when every
  call has ended, by a result, an exception or a cancellation, all four places are free again and the
  gauges are back at zero.
\<close>

theorem dispatch_places:
  assumes "run_ok dispatch_step (\<lambda>op d. enabled d op) ops (new_limiter :: 'r limiter)"
  defines "d \<equiv> fold dispatch_step ops (new_limiter :: 'r limiter)"
  shows "in_stage Queued (all_attempts d) + in_stage AtRunner (all_attempts d) \<le> 4
    \<and> list_all (\<lambda>c. length (ca_stack c) \<le> 4) (li_calls d)
    \<and> li_queued d = int (in_stage Queued (all_attempts d)) \<and> li_started d = int (in_stage AtRunner (all_attempts d))
    \<and> (list_all (\<lambda>c. ca_end c \<noteq> None) (li_calls d) \<longrightarrow>
         li_free d = 4 \<and> li_waiting d = 0 \<and> li_queued d = 0 \<and> li_started d = 0)"
proof -
  have ok: "limiter_ok d" unfolding d_def by (rule limiter.run_inv_ok [OF new_limiter_ok assms(1)])
  have "in_stage st (all_attempts d) = 0" if "list_all (\<lambda>c. ca_end c \<noteq> None) (li_calls d)" for st
  proof -
    have "\<forall>c \<in> set (li_calls d). ca_stack c = []"
    proof
      fix c assume c: "c \<in> set (li_calls d)"
      then have "stack_ok c" "ca_end c \<noteq> None" using that ok unfolding list_all_iff limiter_ok_def by blast+
      then show "ca_stack c = []" unfolding stack_ok_def by blast
    qed
    then have "all_attempts d = []" by (simp add: all_attempts_def)
    then show ?thesis by simp
  qed
  then show ?thesis using ok
    by (auto simp: limiter_ok_def stack_ok_def task_concurrency_per_account_def task_retries_def list_all_iff)
qed

section \<open>Retries that wait for each other\<close>

definition four_retries :: "'r dispatch_op list" where
  "four_retries = [Call, Call, Call, Call, Enter 0, Enter 1, Enter 2, Enter 3]
     @ concat (map (\<lambda>i. [Status i StatusStarted, Offline i, Wake i]) [0, 1, 2, 3])"

definition retrying_call :: "'r call" where
  "retrying_call = \<lparr>ca_stack = [\<lparr>at_stage = AtLimit, at_left = 2\<rparr>, \<lparr>at_stage = AtRunner, at_left = 3\<rparr>], ca_sleeping = False,
     ca_end = None\<rparr>"

lemma four_retries_state:
  "run_ok dispatch_step (\<lambda>op d. enabled d op) four_retries (new_limiter :: 'r limiter)"
  "fold dispatch_step four_retries (new_limiter :: 'r limiter)
     = \<lparr>li_free = 0, li_waiting = 4, li_queued = 0, li_started = 4, li_calls = replicate 4 retrying_call\<rparr>"
  by (simp_all add: four_retries_def new_limiter_def task_concurrency_per_account_def task_retries_def enabled_def awake_def
      top_stage_def set_top_def retry_def push_attempt_def retrying_call_def Let_def eval_nat_numeral)

text \<open>Calls that are made afterwards wait as well.\<close>

definition waiting_call :: "'r call" where
  "waiting_call = push_attempt task_retries \<lparr>ca_stack = [], ca_sleeping = False, ca_end = None\<rparr>"

lemma more_calls:
  "(dispatch_step Call ^^ n) d = d\<lparr>li_calls := li_calls d @ replicate n waiting_call, li_waiting := li_waiting d + int n\<rparr>"
  by (induction n) (simp_all add: waiting_call_def replicate_append_same)

lemma nothing_enabled:
  assumes "li_free d = 0" "\<forall>c \<in> set (li_calls d). \<not> ca_sleeping c \<and> (ca_stack c \<noteq> [] \<longrightarrow> at_stage (hd (ca_stack c)) = AtLimit)"
    "enabled d op"
  shows "op = Call \<or> (\<exists>i. op = Cancel i)"
proof -
  have "\<not> ca_sleeping (li_calls d ! i)" if "i < length (li_calls d)" for i using assms(2) that by simp
  moreover have "awake d i \<Longrightarrow> top_stage d i = AtLimit" for i using assms(2) by (auto simp: awake_def top_stage_def)
  ultimately show ?thesis
    using assms(1,3) by (auto simp: enabled_def split: dispatch_op.splits status.splits)
qed

text \<open>
  C14: A retry waits for a second place while its task keeps the first. When the runners of four tasks
  of an account go offline, all four places are held by tasks that wait for one: from then on no task of
  the account is handed to a runner and none ends, however many are added, until one is cancelled.
\<close>

theorem four_retries_block_account:
  "run_ok dispatch_step (\<lambda>op d. enabled d op) four_retries (new_limiter :: 'r limiter)
   \<and> (\<forall>n op. enabled (fold dispatch_step (four_retries @ replicate n Call) (new_limiter :: 'r limiter)) op
        \<longrightarrow> op = Call \<or> (\<exists>i. op = Cancel i))"
proof (intro conjI allI impI)
  show "run_ok dispatch_step (\<lambda>op d. enabled d op) four_retries (new_limiter :: 'r limiter)" by (rule four_retries_state)
  fix n op assume en: "enabled (fold dispatch_step (four_retries @ replicate n Call) (new_limiter :: 'r limiter)) op"
  show "op = Call \<or> (\<exists>i. op = Cancel i)"
  proof (rule nothing_enabled [OF _ _ en])
    show "li_free (fold dispatch_step (four_retries @ replicate n Call) (new_limiter :: 'r limiter)) = 0"
      by (simp add: four_retries_state more_calls)
    show "\<forall>c \<in> set (li_calls (fold dispatch_step (four_retries @ replicate n Call) (new_limiter :: 'r limiter))).
        \<not> ca_sleeping c \<and> (ca_stack c \<noteq> [] \<longrightarrow> at_stage (hd (ca_stack c)) = AtLimit)"
      by (auto simp: four_retries_state more_calls retrying_call_def waiting_call_def push_attempt_def)
  qed
qed

theorem four_retries_block_account_witness:
  "\<not> enabled (fold dispatch_step (four_retries @ replicate 1 Call) (new_limiter :: nat limiter)) (Enter 4)"
  using four_retries_block_account [where 'r = nat] by blast

theorem dispatch_places_witness:
  "in_stage Queued (all_attempts (fold dispatch_step four_retries (new_limiter :: nat limiter)))
     + in_stage AtRunner (all_attempts (fold dispatch_step four_retries (new_limiter :: nat limiter))) \<le> 4"
  using dispatch_places [OF four_retries_state(1) [where 'r = nat]] by simp

end
