(* ===== verification/JudgeQueue.thy ===== *)
theory JudgeQueue
  imports JSPrelude
begin

text \<open>
  The judges that the scheduler has under way: \<open>register_judge_task\<close>,
  \<open>update_problem\<close> and \<open>abort_judge\<close> of \<open>src/scheduler2/main.py\<close>. The
  three dictionaries hold the judges that have not ended, by problem, by submission and with their
  arguments; here they are one list of judges, of which those that have not ended are the entries. An update
  has two steps, as the plan is generated in between; a cancelled judge ends some time after it was
  cancelled, when its result has been sent.
\<close>

section \<open>State\<close>

record judge_args =
  ja_problem :: jstr
  ja_submission :: jstr
  ja_language :: jstr
  ja_source :: jstr
  ja_limit_group :: jstr

record judge =
  jd_args :: judge_args
  jd_cancelled :: bool
  jd_ended :: bool

text \<open>The judges ever made, the updates under way with what they will judge again, and the results sent.\<close>

record 'r judges =
  js_judges :: "judge list"
  js_updates :: "judge_args list list"
  js_sent :: "(jstr \<times> 'r) list"

definition no_judges :: "'r judges" where
  "no_judges = \<lparr>js_judges = [], js_updates = [], js_sent = []\<rparr>"

definition live :: "judge list \<Rightarrow> judge list" where
  "live jds = filter (\<lambda>j. \<not> jd_ended j) jds"

definition judged_now :: "'r judges \<Rightarrow> jstr \<Rightarrow> bool" where
  "judged_now s sub \<longleftrightarrow> sub \<in> (\<lambda>j. ja_submission (jd_args j)) ` set (live (js_judges s))"

section \<open>Operations\<close>

definition register_judge_task :: "judge_args \<Rightarrow> 'r judges \<Rightarrow> 'r judges" where
  "register_judge_task a s =
    (if judged_now s (ja_submission a) then s
     else s\<lparr>js_judges := js_judges s @ [\<lparr>jd_args = a, jd_cancelled = False, jd_ended = False\<rparr>]\<rparr>)"

definition cancel_where :: "(judge \<Rightarrow> bool) \<Rightarrow> 'r judges \<Rightarrow> 'r judges" where
  "cancel_where q s =
    s\<lparr>js_judges := map (\<lambda>j. if \<not> jd_ended j \<and> q j then j\<lparr>jd_cancelled := True\<rparr> else j) (js_judges s)\<rparr>"

definition update_begins :: "jstr \<Rightarrow> 'r judges \<Rightarrow> 'r judges" where
  "update_begins p s =
    (let q = (\<lambda>j. ja_problem (jd_args j) = p); s1 = cancel_where q s
     in s1\<lparr>js_updates := js_updates s1 @ [map jd_args (filter q (live (js_judges s)))]\<rparr>)"

text \<open>The end of an update, whether the plan was generated or not.\<close>

definition update_ends :: "nat \<Rightarrow> 'r judges \<Rightarrow> 'r judges" where
  "update_ends k s =
    (let s1 = fold register_judge_task (js_updates s ! k) s in s1\<lparr>js_updates := (js_updates s1)[k := []]\<rparr>)"

definition judge_ends :: "nat \<Rightarrow> 'r \<Rightarrow> 'r judges \<Rightarrow> 'r judges" where
  "judge_ends i r s =
    (if i < length (js_judges s) \<and> \<not> jd_ended (js_judges s ! i)
     then s\<lparr>js_judges := (js_judges s)[i := (js_judges s ! i)\<lparr>jd_ended := True\<rparr>],
            js_sent := js_sent s @ [(ja_submission (jd_args (js_judges s ! i)), r)]\<rparr>
     else s)"

datatype 'r judge_op =
    Judge judge_args | Abort jstr | UpdateBegins jstr | UpdateEnds nat | JudgeEnds nat 'r

fun judges_step :: "'r judge_op \<Rightarrow> 'r judges \<Rightarrow> 'r judges" where
  "judges_step (Judge a) s = register_judge_task a s"
| "judges_step (Abort sub) s = cancel_where (\<lambda>j. ja_submission (jd_args j) = sub) s"
| "judges_step (UpdateBegins p) s = update_begins p s"
| "judges_step (UpdateEnds k) s = (if k < length (js_updates s) then update_ends k s else s)"
| "judges_step (JudgeEnds i r) s = judge_ends i r s"

section \<open>One judge for a submission\<close>

definition subs :: "judge list \<Rightarrow> jstr list" where
  "subs jds = map (\<lambda>j. ja_submission (jd_args j)) (live jds)"

definition judges_ok :: "'r judges \<Rightarrow> bool" where
  "judges_ok s \<longleftrightarrow> distinct (subs (js_judges s))"

lemma judged_now_subs: "judged_now s sub \<longleftrightarrow> sub \<in> set (subs (js_judges s))"
  by (simp add: judged_now_def subs_def)

lemma register_subs:
  "subs (js_judges (register_judge_task a s)) =
     (if judged_now s (ja_submission a) then subs (js_judges s) else subs (js_judges s) @ [ja_submission a])"
  by (simp add: register_judge_task_def subs_def live_def)

lemma register_ok: "judges_ok s \<Longrightarrow> judges_ok (register_judge_task a s)"
  by (simp add: judges_ok_def register_subs judged_now_subs)

lemma registers_ok: "judges_ok s \<Longrightarrow> judges_ok (fold register_judge_task as s)"
  by (induction as arbitrary: s) (simp_all add: register_ok)

lemma cancel_subs: "subs (js_judges (cancel_where q s)) = subs (js_judges s)"
proof -
  have "map (\<lambda>j. ja_submission (jd_args j)) (filter (\<lambda>j. \<not> jd_ended j)
      (map (\<lambda>j. if \<not> jd_ended j \<and> q j then j\<lparr>jd_cancelled := True\<rparr> else j) jds))
    = map (\<lambda>j. ja_submission (jd_args j)) (filter (\<lambda>j. \<not> jd_ended j) jds)" for jds
    by (induction jds) auto
  then show ?thesis by (simp add: subs_def live_def cancel_where_def)
qed

lemma end_subs: "distinct (subs jds) \<Longrightarrow> distinct (subs (jds[i := (jds ! i)\<lparr>jd_ended := True\<rparr>]))"
proof -
  have "set (subs (jds[i := (jds ! i)\<lparr>jd_ended := True\<rparr>])) \<subseteq> set (subs jds) \<and>
    (distinct (subs jds) \<longrightarrow> distinct (subs (jds[i := (jds ! i)\<lparr>jd_ended := True\<rparr>])))"
    by (induction jds arbitrary: i) (auto simp: subs_def live_def split: nat.split)
  then show "distinct (subs jds) \<Longrightarrow> distinct (subs (jds[i := (jds ! i)\<lparr>jd_ended := True\<rparr>]))" by blast
qed

lemma judges_step_ok: "judges_ok s \<Longrightarrow> judges_ok (judges_step op s)"
proof (induction op)
  case (Judge a)
  then show ?case by (simp add: register_ok)
next
  case (UpdateBegins p)
  then show ?case using cancel_subs [of _ s] by (simp add: judges_ok_def update_begins_def Let_def)
next
  case (UpdateEnds k)
  then show ?case using registers_ok [of s "js_updates s ! k"] by (simp add: judges_ok_def update_ends_def Let_def)
qed (simp_all add: judges_ok_def cancel_subs judge_ends_def end_subs)

interpretation judging: inv_machine judges_step judges_ok
  by unfold_locales (rule judges_step_ok)

lemma no_judges_ok: "judges_ok no_judges"
  by (simp add: judges_ok_def no_judges_def subs_def live_def)

section \<open>Updates\<close>

text \<open>Registering several: those whose submission is not being judged are.\<close>

lemma registers_subs:
  "set (subs (js_judges (fold register_judge_task as s))) = set (subs (js_judges s)) \<union> ja_submission ` set as"
  by (induction as arbitrary: s) (auto simp: register_subs judged_now_subs)

text \<open>
  C19: No submission is judged twice at a time: whatever requests to judge, abort and update arrive and
  however judges end, the judges that have not ended are of different submissions. And at the end of an
  update every submission that it interrupted is among them.
\<close>

theorem one_judge_per_submission:
  "distinct (subs (js_judges (fold judges_step ops no_judges)))
   \<and> (\<forall>k a. k < length (js_updates (fold judges_step ops no_judges)) \<longrightarrow> a \<in> set (js_updates (fold judges_step ops no_judges) ! k)
        \<longrightarrow> ja_submission a \<in> set (subs (js_judges (judges_step (UpdateEnds k) (fold judges_step ops no_judges)))))"
proof -
  let ?s = "fold judges_step ops no_judges"
  have "judges_ok ?s" by (rule judging.run_inv [OF no_judges_ok])
  moreover have "ja_submission a \<in> set (subs (js_judges (judges_step (UpdateEnds k) ?s)))"
    if "k < length (js_updates ?s)" "a \<in> set (js_updates ?s ! k)" for k a
    using that registers_subs [of "js_updates ?s ! k" ?s] by (simp add: update_ends_def Let_def)
  ultimately show ?thesis by (simp add: judges_ok_def)
qed

definition some_args :: judge_args where
  "some_args = \<lparr>ja_problem = [49], ja_submission = [50], ja_language = [], ja_source = [], ja_limit_group = []\<rparr>"

definition updating :: "nat judges" where
  "updating = fold judges_step [Judge some_args, UpdateBegins (ja_problem some_args)] no_judges"

theorem one_judge_per_submission_witness:
  "distinct (subs (js_judges updating))
   \<and> ja_submission some_args \<in> set (subs (js_judges (judges_step (UpdateEnds 0) updating)))"
proof -
  have "js_updates updating = [[some_args]]"
    by (simp add: updating_def no_judges_def register_judge_task_def judged_now_subs subs_def live_def update_begins_def
        cancel_where_def Let_def)
  then show ?thesis
    using one_judge_per_submission [of "[Judge some_args, UpdateBegins (ja_problem some_args)] :: nat judge_op list"]
    unfolding updating_def [symmetric] by simp
qed


text \<open>With the other order the submission is judged again.\<close>

lemma slow_update_restarts:
  "let s = fold judges_step [Judge a, UpdateBegins (ja_problem a), JudgeEnds 0 r, UpdateEnds 0] (no_judges :: 'r judges)
   in live (js_judges s) = [\<lparr>jd_args = a, jd_cancelled = False, jd_ended = False\<rparr>]"
  by (simp add: no_judges_def register_judge_task_def judged_now_subs subs_def live_def update_begins_def cancel_where_def
      update_ends_def judge_ends_def Let_def)

end
