(* ===== verification/JudgeSubmission.thy ===== *)
theory JudgeSubmission
  imports JudgePlan
begin

text \<open>
  Judging one submission: \<open>execute_plan\<close> and what it calls to prepare compilation and tasks
  (\<open>src/scheduler2/plan/execute.py\<close>), \<open>judge_quiz\<close>, \<open>run_judge\<close> with the errors it
  turns into results (\<open>src/scheduler2/main.py\<close>), and the request that reports a result
  (\<open>make_request\<close> of \<open>src/scheduler2/util.py\<close>).

  The answers of what is awaited are the record \<open>answers\<close>: a value or an exception, of which being
  cancelled is one. An exception leaves the state as it is then, because the clean-up needs it: an
  action returns its value or exception together with the state. Signed addresses come from the object
  store's library and are the parameter \<open>S\<close>.
\<close>

section \<open>State and errors\<close>

datatype bucket = Problems | Artifacts

record signer =
  sn_get :: "bucket \<Rightarrow> jstr \<Rightarrow> jstr"
  sn_put :: "bucket \<Rightarrow> jstr \<Rightarrow> jstr"

datatype language = Cpp | Python | Git | Verilog | Quiz

text \<open>
  \<open>InvalidProblemException\<close>, \<open>InvalidCodeException\<close>, an error of the object store's client,
  any other exception, and \<open>CancelledError\<close>.
\<close>

datatype failure = BadPlan jstr | BadCode jstr | ClientFailure jstr | OtherFailure | Stopped

text \<open>
  \<open>ExecutionContext\<close>, with the number of times the code of the submission was read. The last field
  collects what may have been written to the object store: the copies made and the addresses for
  writing that were handed out.
\<close>

record submission =
  su_plan :: judge_plan
  su_id :: jstr
  su_lang :: language
  su_message :: "jstr option"
  su_code_key :: "jstr option"
  su_artifact :: "jstr option"
  su_clean :: "(bucket \<times> jstr) list"
  su_results :: result_map
  su_reads :: nat
  su_written :: "(bucket \<times> jstr) list"

definition new_submission :: "judge_plan \<Rightarrow> jstr \<Rightarrow> language \<Rightarrow> submission" where
  "new_submission plan i lang =
    \<lparr>su_plan = plan, su_id = i, su_lang = lang, su_message = None, su_code_key = None, su_artifact = None, su_clean = [],
     su_results = [], su_reads = 0, su_written = []\<rparr>"

text \<open>
  What is awaited: the code of the submission as often as it is read, the plan, copying the code, the result and
  message of the compilation, telling that judging starts, what happens while tasks run and whether the
  judge is cancelled then, whether it is cancelled again in the second it waits, and after how many removals
  the clean-up is cancelled. \<open>json.loads\<close>, the position of a syntax error and the text of
  an exception's trace are parameters as well.
\<close>

record answers =
  an_read :: "nat \<Rightarrow> failure + jstr"
  an_plan :: "failure + judge_plan"
  an_copy :: "failure + unit"
  an_compile :: "failure + (jstr \<times> jstr)"
  an_judging :: "failure + unit"
  an_ops :: "exec_op list"
  an_cancelled :: bool
  an_again :: bool
  an_stop :: "nat option"
  an_json :: "jstr \<Rightarrow> jstr + jval"
  an_trace :: jstr

type_synonym 'a act = "submission \<Rightarrow> (failure + 'a) \<times> submission"

definition yields :: "'a \<Rightarrow> 'a act" where
  "yields x c = (Inr x, c)"

definition fails :: "failure \<Rightarrow> 'a act" where
  "fails e c = (Inl e, c)"

definition given :: "failure + 'a \<Rightarrow> 'a act" where
  "given r c = (r, c)"

definition chain :: "'a act \<Rightarrow> ('a \<Rightarrow> 'b act) \<Rightarrow> 'b act" where
  "chain m f c = (case m c of (Inl e, c1) \<Rightarrow> (Inl e, c1) | (Inr x, c1) \<Rightarrow> f x c1)"

fun each_of :: "('a \<Rightarrow> 'b act) \<Rightarrow> 'a list \<Rightarrow> 'b list act" where
  "each_of f [] = yields []"
| "each_of f (x # xs) = chain (f x) (\<lambda>y. chain (each_of f xs) (\<lambda>ys. yields (y # ys)))"

section \<open>Addresses\<close>

definition sign_url :: "signer \<Rightarrow> jstr \<Rightarrow> failure + jstr" where
  "sign_url S u =
    (if starts_with (js ''s3://'') u then Inr (sn_get S Problems (drop 5 u))
     else Inl (BadPlan (js ''Invalid object url '' @ u)))"

text \<open>\<open>file_url\<close> for the code, whose name may be missing, and for the artifact.\<close>

definition code_url :: "signer \<Rightarrow> jstr option \<Rightarrow> jstr act" where
  "code_url S f c =
    (let k = su_id c @ [47] @ (case f of None \<Rightarrow> js ''None'' | Some n \<Rightarrow> n)
     in if su_code_key c \<noteq> None \<and> su_code_key c \<noteq> Some k
        then fails (BadPlan (js ''Trying to use user code as different files'')) c
        else yields (sn_get S Artifacts k) (c\<lparr>su_code_key := Some k\<rparr>))"

definition artifact_url :: "signer \<Rightarrow> jstr \<Rightarrow> jstr act" where
  "artifact_url S f c =
    (let k = (Artifacts, su_id c @ [47] @ f)
     in if su_artifact c \<noteq> None then fails (BadPlan (js ''Duplicate compile artifact'')) c
        else yields (sn_put S Artifacts (snd k))
          (c\<lparr>su_clean := List.insert k (su_clean c), su_artifact := Some (sn_get S Artifacts (snd k)),
             su_written := List.insert k (su_written c)\<rparr>))"

definition read_code :: "answers \<Rightarrow> jstr act" where
  "read_code E c = (an_read E (su_reads c), c\<lparr>su_reads := Suc (su_reads c)\<rparr>)"

section \<open>Compilation\<close>

datatype source = SourceCpp jstr | SourceGit jstr | SourceVerilog jstr

record compile_task =
  ct_source :: source
  ct_files :: "jstr list"
  ct_artifact :: "jstr option"
  ct_limits :: limits

text \<open>What is compiled, or an artifact that is there already.\<close>

datatype prepared = CompileInput compile_task | ArtifactInput jstr

text \<open>\<open>get_compile_source\<close>: a source, or the artifact that a script is.\<close>

definition get_compile_source :: "signer \<Rightarrow> answers \<Rightarrow> jstr option \<Rightarrow> (source + jstr) act" where
  "get_compile_source S E f c =
    (case su_lang c of
       Cpp \<Rightarrow> chain (code_url S f) (\<lambda>u. yields (Inl (SourceCpp u))) c
     | Git \<Rightarrow> chain (read_code E) (\<lambda>t.
         if starts_with (js ''/'') (py_strip t) then fails (BadCode (js ''Local clone not allowed''))
         else yields (Inl (SourceGit (py_strip t)))) c
     | Python \<Rightarrow> chain (code_url S (Some (js ''main.py''))) (\<lambda>u. yields (Inr u)) c
     | Verilog \<Rightarrow> chain (code_url S f) (\<lambda>u. yields (Inl (SourceVerilog u))) c
     | Quiz \<Rightarrow> fails (BadCode (js ''Unknown language'')) c)"

definition user_codes :: "compile_plan \<Rightarrow> jstr option list" where
  "user_codes p =
    (if cp_source p = UserSource then [None] else [])
     @ List.map_filter (\<lambda>f. case f of UserCode n \<Rightarrow> Some n | FileUrl _ \<Rightarrow> None) (cp_files p)"

definition fallback_filename :: "language \<Rightarrow> jstr option" where
  "fallback_filename lang =
    (case lang of Cpp \<Rightarrow> Some (js ''main.cpp'') | Verilog \<Rightarrow> Some (js ''main.v'') | _ \<Rightarrow> None)"

definition supplementary :: "signer \<Rightarrow> jstr option \<Rightarrow> problem_file \<Rightarrow> jstr act" where
  "supplementary S f x = (case x of UserCode _ \<Rightarrow> code_url S f | FileUrl u \<Rightarrow> given (sign_url S u))"

text \<open>The rest of \<open>prepare_compile\<close>, once the source is known.\<close>

definition finish_compile :: "signer \<Rightarrow> jstr option \<Rightarrow> compile_plan \<Rightarrow> source \<Rightarrow> prepared act" where
  "finish_compile S f p src =
    chain (each_of (supplementary S f) (cp_files p)) (\<lambda>us.
    chain (if cp_artifact p then chain (artifact_url S (js ''main'')) (\<lambda>u. yields (Some u)) else yields None) (\<lambda>a.
      yields (CompileInput \<lparr>ct_source = src, ct_files = us, ct_artifact = a, ct_limits = cp_limits p\<rparr>)))"

definition set_artifact :: "jstr \<Rightarrow> unit act" where
  "set_artifact u c = yields () (c\<lparr>su_artifact := Some u\<rparr>)"

definition prepare_compile :: "signer \<Rightarrow> answers \<Rightarrow> compile_plan \<Rightarrow> prepared act" where
  "prepare_compile S E p c =
    (case user_codes p of
       [] \<Rightarrow> fails (BadPlan (js ''Compile task with no user input'')) c
     | [n] \<Rightarrow>
         let f = (case n of None \<Rightarrow> fallback_filename (su_lang c) | Some _ \<Rightarrow> n)
         in (case cp_source p of
               UserSource \<Rightarrow>
                 chain (get_compile_source S E f) (\<lambda>r. case r of
                     Inr u \<Rightarrow> chain (set_artifact u) (\<lambda>_. yields (ArtifactInput u))
                   | Inl src \<Rightarrow> finish_compile S f p src) c
             | CppSource u \<Rightarrow> chain (given (sign_url S u)) (\<lambda>a. finish_compile S f p (SourceCpp a)) c
             | VerilogSource u \<Rightarrow> chain (given (sign_url S u)) (\<lambda>a. finish_compile S f p (SourceVerilog a)) c)
     | _ \<Rightarrow> fails (BadCode (js ''Compile task with multiple files as user input'')) c)"

section \<open>Tasks\<close>

text \<open>The work of a test point as it is sent to a runner.\<close>

record ready_work =
  rw_input :: prepared
  rw_run :: "run_args option"
  rw_check :: checker

definition ready_input :: "signer \<Rightarrow> answers \<Rightarrow> tp_input \<Rightarrow> prepared act" where
  "ready_input S E i c =
    (case i of
       SubmittedCode \<Rightarrow>
         (case su_artifact c of
            None \<Rightarrow> chain (code_url S (Some (js ''code''))) (\<lambda>u. chain (set_artifact u) (\<lambda>_. yields (ArtifactInput u))) c
          | Some u \<Rightarrow> yields (ArtifactInput u) c)
     | CompiledFor p \<Rightarrow> prepare_compile S E p c)"

definition signed_file :: "signer \<Rightarrow> jstr option \<Rightarrow> jstr option act" where
  "signed_file S f =
    (case f of None \<Rightarrow> yields None | Some u \<Rightarrow> chain (given (sign_url S u)) (\<lambda>a. yields (Some a)))"

definition ready_run :: "signer \<Rightarrow> run_args option \<Rightarrow> run_args option act" where
  "ready_run S r c =
    (case r of
       None \<Rightarrow> yields None c
     | Some a \<Rightarrow>
         let t = (if ra_type a = js ''elf'' \<and> su_lang c = Python then js ''python'' else ra_type a)
         in chain (case ra_interactor a of
                     None \<Rightarrow> yields None
                   | Some (u, l) \<Rightarrow> chain (given (sign_url S u)) (\<lambda>b. yields (Some (b, l)))) (\<lambda>i.
            chain (signed_file S (ra_infile a)) (\<lambda>f.
              yields (Some \<lparr>ra_type = t, ra_limits = ra_limits a, ra_infile = f, ra_interactor = i\<rparr>))) c)"

definition ready_check :: "signer \<Rightarrow> checker \<Rightarrow> checker act" where
  "ready_check S k =
    (case k of
       CompareChecker w u \<Rightarrow> chain (given (sign_url S u)) (\<lambda>a. yields (CompareChecker w a))
     | DirectChecker \<Rightarrow> yields DirectChecker
     | SpjChecker x a l \<Rightarrow>
         chain (signed_file S a) (\<lambda>b. chain (given (sign_url S x)) (\<lambda>y. yields (SpjChecker y b l))))"

definition ready_point :: "signer \<Rightarrow> answers \<Rightarrow> work point \<Rightarrow> ready_work point act" where
  "ready_point S E t =
    chain (ready_input S E (wk_input (pt_work t))) (\<lambda>i.
    chain (ready_run S (wk_run (pt_work t))) (\<lambda>r.
    chain (ready_check S (wk_check (pt_work t))) (\<lambda>k.
      yields \<lparr>pt_id = pt_id t, pt_dep = pt_dep t, pt_work = \<lparr>rw_input = i, rw_run = r, rw_check = k\<rparr>\<rparr>)))"

definition get_judge_task :: "signer \<Rightarrow> answers \<Rightarrow> task_plan \<Rightarrow> ready_work task_rec act" where
  "get_judge_task S E k =
    chain (each_of (ready_point S E) (tk_points k)) (\<lambda>ps.
      yields \<lparr>tr_points = ps, tr_plan = map pt_id (tk_points k), tr_dependents = tk_dependents k, tr_result = None\<rparr>)"

definition upload_code :: "answers \<Rightarrow> unit act" where
  "upload_code E c =
    (case su_code_key c of
       None \<Rightarrow> yields () c
     | Some k \<Rightarrow> given (an_copy E) (c\<lparr>su_clean := List.insert (Artifacts, k) (su_clean c),
                                       su_written := List.insert (Artifacts, k) (su_written c)\<rparr>))"

definition prepare_all :: "signer \<Rightarrow> answers \<Rightarrow> (prepared option \<times> ready_work task_rec list) act" where
  "prepare_all S E c =
    chain (case jp_compile (su_plan c) of
             None \<Rightarrow> yields None
           | Some p \<Rightarrow> chain (prepare_compile S E p) (\<lambda>x. yields (Some x))) (\<lambda>prep.
    chain (each_of (get_judge_task S E) (jp_judge (su_plan c))) (\<lambda>ts.
    chain (upload_code E) (\<lambda>_. yields (prep, ts)))) c"

section \<open>Compiling and judging\<close>

text \<open>\<open>run_compile_task\<close>; and what is reported when the compilation fails.\<close>

definition run_compile_task :: "answers \<Rightarrow> prepared option \<Rightarrow> failure + (jstr \<times> jstr) option" where
  "run_compile_task E prep = (case prep of Some (CompileInput _) \<Rightarrow> map_sum id Some (an_compile E) | _ \<Rightarrow> Inr None)"

definition plain_problem_result :: "result_type \<Rightarrow> jstr option \<Rightarrow> problem_result" where
  "plain_problem_result res message =
    \<lparr>pr_result = res, pr_message = message, pr_score = 0, pr_usage = None, pr_groups = []\<rparr>"

definition gcc_error :: jstr where
  "gcc_error = js ''runtime error: Program exited with status 1: ''"

definition compile_failed :: "jstr \<Rightarrow> jstr \<Rightarrow> problem_result" where
  "compile_failed res message =
    (let status = (if res = js ''system_error'' then SystemError else if res = js ''aborted'' then AbortedResult else CompileError);
         prefix = map (\<lambda>x. if x = 95 then 32 else x) res;
         m1 = (if status \<noteq> CompileError then message
               else if message \<noteq> [] then prefix @ js '': '' @ message else prefix);
         m2 = (if starts_with gcc_error m1 then drop (length gcc_error) m1 else m1)
     in plain_problem_result status (Some m2))"

definition scores :: "phase \<Rightarrow> submission \<Rightarrow> failure + problem_result" where
  "scores ph c =
    (case synthesize_scores ph (su_message c) (su_results c) (jp_score (su_plan c)) of
       Inl LoopDetected \<Rightarrow> Inl (BadPlan (js ''Loop detected in dependent_on relations''))
     | Inl EmptyGroup \<Rightarrow> Inl OtherFailure
     | Inr r \<Rightarrow> Inr r)"

text \<open>\<open>run_judge_tasks\<close>; \<open>None\<close> while tasks are under way.\<close>

definition run_judge_tasks :: "answers \<Rightarrow> ready_work task_rec list \<Rightarrow> submission \<Rightarrow> (failure + unit) option \<times> submission" where
  "run_judge_tasks E ts c =
    (case an_judging E of
       Inl e \<Rightarrow> (Some (Inl e), c)
     | Inr _ \<Rightarrow>
         (case exec_run (an_ops E) (begin_run ts) of
            None \<Rightarrow> (Some (Inl OtherFailure), c)
          | Some s \<Rightarrow>
              (if running s = [] then Some (Inr ()) else if an_cancelled E then Some (Inl Stopped) else None,
               c\<lparr>su_results := results s\<rparr>)))"

definition judge_compiled :: "answers \<Rightarrow> ready_work task_rec list \<Rightarrow> submission
    \<Rightarrow> ((failure + problem_result) option \<times> bool) \<times> submission" where
  "judge_compiled E ts c =
    (case run_judge_tasks E ts c of
       (None, c1) \<Rightarrow> ((None, True), c1)
     | (Some (Inl e), c1) \<Rightarrow> ((Some (Inl e), True), c1)
     | (Some (Inr _), c1) \<Rightarrow> ((Some (scores Final c1), True), c1))"

text \<open>The body of the \<open>try\<close> block, with its flag \<open>compiled\<close>.\<close>

definition judge_submission :: "signer \<Rightarrow> answers \<Rightarrow> submission
    \<Rightarrow> ((failure + problem_result) option \<times> bool) \<times> submission" where
  "judge_submission S E c =
    (case prepare_all S E c of
       (Inl e, c1) \<Rightarrow> ((Some (Inl e), False), c1)
     | (Inr (prep, ts), c1) \<Rightarrow>
         (case run_compile_task E prep of
            Inl e \<Rightarrow> ((Some (Inl e), False), c1)
          | Inr (Some (res, message)) \<Rightarrow>
              if res \<noteq> js ''compiled'' then ((Some (Inr (compile_failed res message)), False), c1)
              else judge_compiled E ts (c1\<lparr>su_message := Some message\<rparr>)
          | Inr None \<Rightarrow> judge_compiled E ts c1))"

text \<open>\<open>except CancelledError\<close>: after a second the results so far are reported as aborted.\<close>

definition after_cancel :: "answers \<Rightarrow> bool \<Rightarrow> submission \<Rightarrow> failure + problem_result \<Rightarrow> failure + problem_result" where
  "after_cancel E compiled c r =
    (if r \<noteq> Inl Stopped then r
     else if an_again E then Inl Stopped
     else if compiled then scores AbortedRun c else Inr (plain_problem_result AbortedResult None))"

text \<open>
  \<open>finally\<close>: every file is removed, and an error while one is removed only logged; but the loop ends
  when it is cancelled. (The files are a set in the code; which are left when the loop is cancelled is not said.)
\<close>

definition clean_up :: "answers \<Rightarrow> submission \<Rightarrow> failure + 'r \<Rightarrow> (failure + 'r) \<times> (bucket \<times> jstr) list" where
  "clean_up E c r =
    (case an_stop E of
       None \<Rightarrow> (r, su_clean c)
     | Some n \<Rightarrow> if n < length (su_clean c) then (Inl Stopped, take n (su_clean c)) else (r, su_clean c))"

section \<open>Quizzes\<close>

text \<open>Equality of JSON values in Python: truth values are numbers, and the order of a dictionary plays no role.\<close>

lemma zip_size: "(a, b) \<in> set (zip xs ys) \<Longrightarrow> size a < Suc (size_list size xs)"
  by (drule set_zip_leftD) (simp add: less_Suc_eq_le size_list_estimation')

function py_eq :: "jval \<Rightarrow> jval \<Rightarrow> bool" where
  "py_eq (JArr xs) b =
    (case b of
       JArr ys \<Rightarrow> length xs = length ys \<and> list_all (\<lambda>p. py_eq (fst p) (snd p)) (zip xs ys)
     | _ \<Rightarrow> False)"
| "py_eq (JObj kvs) b =
    (case b of
       JObj kws \<Rightarrow> set (map fst kvs) = set (map fst kws)
         \<and> list_all (\<lambda>p. case map_of kws (fst p) of None \<Rightarrow> False | Some w \<Rightarrow> py_eq (snd p) w) kvs
     | _ \<Rightarrow> False)"
| "py_eq JUndef b = (b = JUndef)"
| "py_eq JNull b = (b = JNull)"
| "py_eq (JStr s) b = (b = JStr s)"
| "py_eq (JBool x) b = (int_of b = Some (if x then 1 else 0))"
| "py_eq (JNum n) b = (int_of b = Some n)"
  by pat_completeness auto
termination
  by (relation "measure (\<lambda>p. size (fst p))") (auto simp: less_Suc_eq_le size_list_estimation' dest: zip_size)

text \<open>
  A problem is answered right when it is one of selection and its answer equals that of the submission; a
  missing answer is \<open>None\<close>. The submission has to be a dictionary then, and the identifier a value
  that can be a key.
\<close>

definition quiz_right :: "jval \<Rightarrow> quiz_problem \<Rightarrow> failure + bool" where
  "quiz_right a q =
    (if qz_type q \<noteq> JStr (js ''SELECT'') then Inr False
     else case (a, qz_id q) of
       (JObj kvs, JStr i) \<Rightarrow> Inr (py_eq (qz_answer q) (case map_of kvs i of None \<Rightarrow> JNull | Some v \<Rightarrow> v))
     | (JObj kvs, JArr _) \<Rightarrow> Inl OtherFailure
     | (JObj kvs, JObj _) \<Rightarrow> Inl OtherFailure
     | (JObj kvs, _) \<Rightarrow> Inr (py_eq (qz_answer q) JNull)
     | _ \<Rightarrow> Inl OtherFailure)"

text \<open>The dictionary of the answers by identifier: the first key stays, the last value counts.\<close>

definition put_answer :: "jval \<Rightarrow> bool \<Rightarrow> (jval \<times> bool) list \<Rightarrow> (jval \<times> bool) list" where
  "put_answer k v m =
    (if list_ex (\<lambda>p. py_eq (fst p) k) m then map (\<lambda>p. if py_eq (fst p) k then (fst p, v) else p) m else m @ [(k, v)])"

fun quiz_answers :: "jval \<Rightarrow> quiz_problem list \<Rightarrow> (jval \<times> bool) list \<Rightarrow> failure + (jval \<times> bool) list" where
  "quiz_answers a [] m = Inr m"
| "quiz_answers a (q # qs) m =
    (case quiz_right a q of
       Inl e \<Rightarrow> Inl e
     | Inr v \<Rightarrow> (case qz_id q of
           JArr _ \<Rightarrow> Inl OtherFailure
         | JObj _ \<Rightarrow> Inl OtherFailure
         | k \<Rightarrow> quiz_answers a qs (put_answer k v m)))"

text \<open>The result of a quiz has one group, whose test points bear the identifiers of the problems.\<close>

record quiz_result =
  qr_result :: result_type
  qr_score :: rat
  qr_points :: "(jval \<times> result_type \<times> jstr \<times> rat) list"

definition judge_quiz :: "quiz_problem list \<Rightarrow> jval \<Rightarrow> failure + quiz_result" where
  "judge_quiz qs a =
    map_sum id (\<lambda>m.
      \<lparr>qr_result = (if list_all snd m then Accepted else WrongAnswer), qr_score = of_nat (length (filter snd m)),
       qr_points = map (\<lambda>p. if snd p then (fst p, Accepted, js ''Accepted'', 1) else (fst p, WrongAnswer, js ''Wrong Answer'', 0)) m\<rparr>)
      (quiz_answers a qs [])"

section \<open>A submission from its start to its end\<close>

datatype judged = ProblemJudged problem_result | QuizJudged quiz_result

text \<open>
  What \<open>execute_plan\<close> leaves: its result or exception, none while tasks are under way; the
  contexts by submission that the status request looks at; the files removed; and the files that may
  have been written.
\<close>

record execution =
  ex_result :: "(failure + judged) option"
  ex_table :: "jstr \<Rightarrow> submission option"
  ex_removed :: "(bucket \<times> jstr) list"
  ex_written :: "(bucket \<times> jstr) list"

definition execute_quiz :: "answers \<Rightarrow> quiz_problem list option \<Rightarrow> failure + judged" where
  "execute_quiz E quiz =
    (case quiz of
       None \<Rightarrow> Inl (BadCode (js ''This problem is not a quiz.''))
     | Some qs \<Rightarrow>
         (case an_read E 0 of
            Inl e \<Rightarrow> Inl e
          | Inr t \<Rightarrow>
              (case an_json E t of
                 Inl m \<Rightarrow> Inl (BadCode (js ''Answer is invalid JSON: '' @ m))
               | Inr a \<Rightarrow> map_sum id QuizJudged (judge_quiz qs a))))"

definition execute_plan :: "signer \<Rightarrow> answers \<Rightarrow> judge_plan \<Rightarrow> jstr \<Rightarrow> language \<Rightarrow> (jstr \<Rightarrow> submission option) \<Rightarrow> execution" where
  "execute_plan S E plan i lang table =
    (let c = new_submission plan i lang; table1 = table(i \<mapsto> c);
         early = (\<lambda>r. \<lparr>ex_result = Some r, ex_table = table1, ex_removed = [], ex_written = []\<rparr>)
     in if lang = Quiz then early (execute_quiz E (jp_quiz plan))
        else if jp_quiz plan \<noteq> None then early (Inl (BadCode (js ''This problem is a quiz. Do not submit code.'')))
        else case judge_submission S E c of
          ((None, _), c1) \<Rightarrow> \<lparr>ex_result = None, ex_table = table(i \<mapsto> c1), ex_removed = [], ex_written = su_written c1\<rparr>
        | ((Some r, compiled), c1) \<Rightarrow>
            (let (r1, removed) = clean_up E c1 (map_sum id ProblemJudged (after_cancel E compiled c1 r))
             in \<lparr>ex_result = Some r1, ex_table = table1(i := None), ex_removed = removed, ex_written = su_written c1\<rparr>))"

text \<open>\<open>get_partial_result\<close>; the status request answers that there is none with an error.\<close>

definition get_partial_result :: "(jstr \<Rightarrow> submission option) \<Rightarrow> jstr \<Rightarrow> (failure + problem_result) option" where
  "get_partial_result table i = map_option (scores InProgress) (table i)"

text \<open>\<open>run_judge\<close>: every exception becomes a result.\<close>

definition result_of_failure :: "answers \<Rightarrow> failure \<Rightarrow> problem_result" where
  "result_of_failure E e =
    (case e of
       Stopped \<Rightarrow> plain_problem_result AbortedResult (Some (js ''Aborted''))
     | ClientFailure m \<Rightarrow> plain_problem_result SystemError (Some (js ''Unknown error: '' @ m))
     | BadPlan m \<Rightarrow> plain_problem_result BadProblem (Some (js ''Invalid problem: '' @ m))
     | BadCode m \<Rightarrow> plain_problem_result CompileError (Some (js ''Invalid code: '' @ m))
     | OtherFailure \<Rightarrow> plain_problem_result SystemError (Some (js ''Internal error: '' @ an_trace E)))"

definition run_judge :: "signer \<Rightarrow> answers \<Rightarrow> jstr \<Rightarrow> language \<Rightarrow> (jstr \<Rightarrow> submission option)
    \<Rightarrow> judged option \<times> (jstr \<Rightarrow> submission option)" where
  "run_judge S E i lang table =
    (case an_plan E of
       Inl (ClientFailure _) \<Rightarrow>
         (Some (ProblemJudged (plain_problem_result BadProblem (Some (js ''Cannot get judge plan'')))), table)
     | Inl e \<Rightarrow> (Some (ProblemJudged (result_of_failure E e)), table)
     | Inr plan \<Rightarrow>
         (let x = execute_plan S E plan i lang table
          in (map_option (case_sum (\<lambda>e. ProblemJudged (result_of_failure E e)) id) (ex_result x), ex_table x)))"

section \<open>Reporting\<close>

text \<open>
  \<open>make_request\<close>: ten attempts, each with the keyword arguments in \<open>args\<close>. The closure
  that sends and the handler of its exceptions share that variable. \<open>rq k names\<close> says whether the
  attempt \<open>k\<close> with arguments of these names is answered with status 200; the result, whether the
  function returns.
\<close>

definition request_retries :: nat where
  "request_retries = 10"

fun request_loop :: "(nat \<Rightarrow> string list \<Rightarrow> bool) \<Rightarrow> nat \<Rightarrow> nat \<Rightarrow> string list \<Rightarrow> bool" where
  "request_loop rq 0 k args = True"
| "request_loop rq (Suc n) k args =
    (if rq k args then True
     else if n = 0 then False
     else request_loop rq n (Suc k) [''path'', ''error'', ''interval''])"

definition make_request :: "(nat \<Rightarrow> string list \<Rightarrow> bool) \<Rightarrow> bool \<Rightarrow> bool" where
  "make_request rq is_text = request_loop rq request_retries 0 [if is_text then ''data'' else ''json'']"

end
