(* ===== verification/JudgePrepared.thy ===== *)
theory JudgePrepared
  imports JudgeSubmission JudgeSystem
begin

text \<open>
  What judging a submission does with the object store, with plans, with quizzes and with the report of its result.
\<close>

section \<open>Files\<close>

text \<open>
  Whatever may have been written is on the list of files to remove, and these files, the code's
  among them, lie below the name of the submission.
\<close>

definition own_key :: "jstr \<Rightarrow> jstr \<Rightarrow> bool" where
  "own_key i k \<longleftrightarrow> starts_with (i @ [47]) k"

definition tidy :: "jstr \<Rightarrow> submission \<Rightarrow> bool" where
  "tidy i c \<longleftrightarrow> su_id c = i \<and> set (su_written c) \<subseteq> set (su_clean c)
     \<and> (\<forall>k \<in> set (su_clean c). fst k = Artifacts \<and> own_key i (snd k)) \<and> (\<forall>k. su_code_key c = Some k \<longrightarrow> own_key i k)"

definition keeps_tidy :: "jstr \<Rightarrow> 'a act \<Rightarrow> bool" where
  "keeps_tidy i m \<longleftrightarrow> (\<forall>c. tidy i c \<longrightarrow> tidy i (snd (m c)))"

named_theorems keeps_intros

lemma keeps_tidyI: "(\<And>c. tidy i c \<Longrightarrow> tidy i (snd (m c))) \<Longrightarrow> keeps_tidy i m"
  by (simp add: keeps_tidy_def)

lemma keeps_tidyD: "keeps_tidy i m \<Longrightarrow> tidy i c \<Longrightarrow> tidy i (snd (m c))"
  by (simp add: keeps_tidy_def)

lemma keeps_basic [keeps_intros]: "keeps_tidy i (yields x)" "keeps_tidy i (fails e)" "keeps_tidy i (given r)"
  by (simp_all add: keeps_tidy_def yields_def fails_def given_def)

lemma keeps_chain [keeps_intros]: "keeps_tidy i m \<Longrightarrow> (\<And>x. keeps_tidy i (f x)) \<Longrightarrow> keeps_tidy i (chain m f)"
proof (rule keeps_tidyI)
  fix c assume m: "keeps_tidy i m" and f: "\<And>x. keeps_tidy i (f x)" and t: "tidy i c"
  obtain r c1 where r: "m c = (r, c1)" by (cases "m c")
  then have "tidy i c1" using keeps_tidyD [OF m t] by simp
  then show "tidy i (snd (chain m f c))" using r keeps_tidyD [OF f] by (cases r) (simp_all add: chain_def)
qed

lemma keeps_each [keeps_intros]: "(\<And>x. keeps_tidy i (f x)) \<Longrightarrow> keeps_tidy i (each_of f xs)"
  by (induction xs) (auto intro!: keeps_intros)

lemma own_key_own [simp]: "own_key i (i @ 47 # f)"
  by (simp add: own_key_def starts_with_def)

lemma keeps_code_url [keeps_intros]: "keeps_tidy i (code_url S f)"
proof (rule keeps_tidyI)
  fix c assume "tidy i c"
  then show "tidy i (snd (code_url S f c))"
    unfolding code_url_def Let_def by (simp add: tidy_def yields_def fails_def)
qed

lemma keeps_artifact_url [keeps_intros]: "keeps_tidy i (artifact_url S f)"
proof (rule keeps_tidyI)
  fix c assume "tidy i c"
  then show "tidy i (snd (artifact_url S f c))"
    unfolding artifact_url_def Let_def by (auto simp: tidy_def yields_def fails_def)
qed

lemma keeps_small [keeps_intros]: "keeps_tidy i (read_code E)" "keeps_tidy i (set_artifact u)"
  by (simp_all add: keeps_tidy_def tidy_def read_code_def set_artifact_def yields_def)

lemma keeps_upload [keeps_intros]: "keeps_tidy i (upload_code E)"
proof (rule keeps_tidyI)
  fix c assume t: "tidy i c"
  show "tidy i (snd (upload_code E c))"
  proof (cases "su_code_key c")
    case (Some k)
    then have "own_key i k" using t by (simp add: tidy_def)
    then show ?thesis using t Some by (auto simp: tidy_def upload_code_def given_def)
  qed (use t in \<open>simp add: upload_code_def yields_def\<close>)
qed

lemma keeps_get_compile_source [keeps_intros]: "keeps_tidy i (get_compile_source S E f)"
proof (rule keeps_tidyI)
  fix c assume t: "tidy i c"
  show "tidy i (snd (get_compile_source S E f c))"
    by (cases "su_lang c") (simp_all add: get_compile_source_def keeps_tidyD [OF _ t] keeps_intros)
qed

lemma keeps_finish [keeps_intros]: "keeps_tidy i (finish_compile S f p src)"
  unfolding finish_compile_def supplementary_def
  by (auto intro!: keeps_intros split: problem_file.split)

lemma two_or_less:
  obtains "xs = []" | n where "xs = [n]" | a b ys where "xs = a # b # ys"
  by (cases xs rule: remdups_adj.cases) auto

lemma keeps_prepare [keeps_intros]: "keeps_tidy i (prepare_compile S E p)"
proof (rule keeps_tidyI)
  fix c assume t: "tidy i c"
  have s: "keeps_tidy i (case r of Inl src \<Rightarrow> finish_compile S f p src | Inr u \<Rightarrow> chain (set_artifact u) (\<lambda>_. yields (ArtifactInput u)))" for f r
    by (cases r) (simp_all add: keeps_intros)
  show "tidy i (snd (prepare_compile S E p c))"
    unfolding prepare_compile_def Let_def
    by (cases "user_codes p" rule: two_or_less; cases "cp_source p"; simp add: keeps_tidyD [OF _ t] keeps_intros s)
qed

lemma keeps_point [keeps_intros]: "keeps_tidy i (ready_point S E t)"
proof -
  have "keeps_tidy i (ready_input S E x)" for x
  proof (rule keeps_tidyI)
    fix c assume t: "tidy i c"
    show "tidy i (snd (ready_input S E x c))"
      by (cases x; cases "su_artifact c") (simp_all add: ready_input_def keeps_tidyD [OF _ t] keeps_intros)
  qed
  moreover have fl: "keeps_tidy i (signed_file S f)" for f
    by (cases f) (simp_all add: signed_file_def keeps_intros)
  moreover have "keeps_tidy i (ready_run S r)" for r
  proof (cases r)
    case (Some a)
    have x: "keeps_tidy i (case ra_interactor a of None \<Rightarrow> yields None
        | Some (u, l) \<Rightarrow> chain (given (sign_url S u)) (\<lambda>b. yields (Some (b, l))))"
      by (auto intro!: keeps_intros split: option.split)
    show ?thesis
      by (rule keeps_tidyI) (simp add: Some ready_run_def Let_def keeps_tidyD keeps_intros x fl)
  qed (simp add: keeps_tidy_def ready_run_def yields_def)
  moreover have "keeps_tidy i (ready_check S k)" for k
    by (cases k) (simp_all add: ready_check_def keeps_intros fl)
  ultimately show ?thesis unfolding ready_point_def by (intro keeps_intros)
qed

lemma keeps_prepare_all: "keeps_tidy i (prepare_all S E)"
proof (rule keeps_tidyI)
  fix c assume t: "tidy i c"
  have "keeps_tidy i (case jp_compile (su_plan c) of None \<Rightarrow> yields None
      | Some p \<Rightarrow> chain (prepare_compile S E p) (\<lambda>x. yields (Some x)))"
    by (auto intro!: keeps_intros split: option.split)
  then show "tidy i (snd (prepare_all S E c))"
    unfolding prepare_all_def get_judge_task_def by (simp add: keeps_tidyD [OF _ t] keeps_intros)
qed

lemma judge_submission_tidy: "tidy i c \<Longrightarrow> tidy i (snd (judge_submission S E c))"
proof -
  assume t: "tidy i c"
  have same: "tidy i (c1\<lparr>su_message := m\<rparr>) = tidy i c1" "tidy i (c1\<lparr>su_results := rs\<rparr>) = tidy i c1" for c1 m rs
    by (simp_all add: tidy_def)
  have run: "tidy i (snd (judge_compiled E ts c1))" if "tidy i c1" for c1 ts
    using that by (simp add: judge_compiled_def run_judge_tasks_def same split: sum.splits option.splits)
  obtain r c1 where r: "prepare_all S E c = (r, c1)" by (cases "prepare_all S E c")
  then have "tidy i c1" using keeps_tidyD [OF keeps_prepare_all t, of S E] by simp
  then show ?thesis
    using run same(1) unfolding judge_submission_def r
    by (simp split: sum.splits prod.splits option.splits)
qed


section \<open>Reports\<close>

text \<open>
  C31: A report to the web server is never delivered by a retry. The handler of a failed attempt
  puts what it logs into the variable that holds the arguments of the request, so that every further
  attempt is made with arguments that the library refuses (the hypothesis): the report arrives
  exactly if the first attempt succeeds.
\<close>

theorem retry_never_delivers:
  assumes "\<forall>k args. ''path'' \<in> set args \<longrightarrow> \<not> rq k args"
  shows "make_request rq is_text = rq 0 [if is_text then ''data'' else ''json'']"
proof -
  have "\<not> request_loop rq (Suc n) k [''path'', ''error'', ''interval'']" for n k
    using assms by (induction n arbitrary: k) auto
  from this [of 8] have "request_loop rq 10 0 args = rq 0 args" for args by (simp add: eval_nat_numeral)
  then show ?thesis by (simp add: make_request_def request_retries_def)
qed

text \<open>A server that fails once and would then accept anything well formed.\<close>

lemma retry_never_delivers_witness:
  "\<not> make_request (\<lambda>k args. 0 < k \<and> set args \<subseteq> {''data'', ''json'', ''params''}) False"
  using retry_never_delivers [of "\<lambda>k args. 0 < k \<and> set args \<subseteq> {''data'', ''json'', ''params''}" False] by auto

section \<open>Quizzes\<close>

text \<open>What the answer to a problem of a quiz should be worth.\<close>

definition answered_right :: "(jstr \<times> jval) list \<Rightarrow> quiz_problem \<Rightarrow> bool" where
  "answered_right kvs q \<longleftrightarrow> qz_type q = JStr (js ''SELECT'')
     \<and> (\<exists>i. qz_id q = JStr i \<and> py_eq (qz_answer q) (case map_of kvs i of None \<Rightarrow> JNull | Some v \<Rightarrow> v))"

lemma quiz_answers_distinct:
  "\<lbrakk>\<forall>q \<in> set qs. \<exists>i. qz_id q = JStr i; distinct (map fst m @ map qz_id qs); \<forall>k \<in> set (map fst m). \<exists>i. k = JStr i\<rbrakk>
   \<Longrightarrow> quiz_answers (JObj kvs) qs m = Inr (m @ map (\<lambda>q. (qz_id q, answered_right kvs q)) qs)"
proof (induction qs arbitrary: m)
  case (Cons q qs)
  obtain i where i: "qz_id q = JStr i" using Cons.prems(1) by auto
  have right: "quiz_right (JObj kvs) q = Inr (answered_right kvs q)"
    by (simp add: quiz_right_def answered_right_def i)
  have "\<not> py_eq (fst p) (JStr i)" if "p \<in> set m" for p
    using that Cons.prems(2,3) i by (force simp: image_iff)
  then have "put_answer (JStr i) v m = m @ [(JStr i, v)]" for v by (auto simp: put_answer_def list_ex_iff)
  then show ?case
    using Cons.IH [of "m @ [(JStr i, answered_right kvs q)]"] Cons.prems by (auto simp: right i)
qed simp

text \<open>
  A quiz is worth a point for every problem of selection whose answer is that of the problem, and
  is accepted when all its problems are: the dictionaries of the code compute just that when identifiers are
  texts and different. A problem to fill in is never right.
\<close>

lemma quiz_scored:
  assumes "\<forall>q \<in> set qs. \<exists>i. qz_id q = JStr i" "distinct (map qz_id qs)"
  shows "\<exists>r. judge_quiz qs (JObj kvs) = Inr r \<and> qr_score r = of_nat (length (filter (answered_right kvs) qs))
    \<and> (qr_result r = Accepted \<longleftrightarrow> list_all (answered_right kvs) qs)
    \<and> map fst (qr_points r) = map qz_id qs"
proof -
  have "quiz_answers (JObj kvs) qs [] = Inr (map (\<lambda>q. (qz_id q, answered_right kvs q)) qs)"
    using quiz_answers_distinct [of qs "[]" kvs] assms by simp
  then show ?thesis
    by (auto simp: judge_quiz_def filter_map comp_def list_all_iff split: if_splits)
qed

text \<open>
  C32: After a submission to a quiz has its result, the status request goes on to say that it is
  being judged: the context is registered before the branch for quizzes and removed only after the other
  one. That holds for every submission to a quiz that the scheduler generated, of any language.
\<close>

theorem quiz_stays_judging:
  assumes "generate_plan z = Inr plan" "jp_quiz plan \<noteq> None"
  shows "ex_result (execute_plan S E plan i lang table) \<noteq> None
    \<and> (\<exists>r. get_partial_result (ex_table (execute_plan S E plan i lang table)) i = Some (Inr r) \<and> pr_result r = Judging)"
proof -
  have "jp_score plan = []"
    using assms by (auto simp: generate_plan_def and_then_Inr Let_def split_def split: if_splits)
  then show ?thesis using assms(2)
    by (simp add: execute_plan_def get_partial_result_def scores_def synthesize_scores_def new_submission_def Let_def)
qed

section \<open>Plans can be prepared\<close>

text \<open>
  The addresses of a generated plan are those of the object store, and a context of the parser
  keeps such addresses.
\<close>

definition s3 :: "jstr \<Rightarrow> bool" where
  "s3 u \<longleftrightarrow> starts_with (js ''s3://'') u"

definition links_ok :: "bool \<Rightarrow> parse_ctx \<Rightarrow> bool" where
  "links_ok b c \<longleftrightarrow> px_per_point c = b \<and> (\<forall>p \<in> set (px_artifacts c). s3 (snd p))"

definition run_fine :: "run_args option \<Rightarrow> bool" where
  "run_fine r \<longleftrightarrow> (case r of None \<Rightarrow> True
     | Some a \<Rightarrow> (\<forall>u. ra_infile a = Some u \<longrightarrow> s3 u) \<and> (\<forall>u l. ra_interactor a = Some (u, l) \<longrightarrow> s3 u))"

definition check_fine :: "checker \<Rightarrow> bool" where
  "check_fine k \<longleftrightarrow> (case k of CompareChecker _ u \<Rightarrow> s3 u | DirectChecker \<Rightarrow> True
     | SpjChecker x a _ \<Rightarrow> s3 x \<and> (\<forall>u. a = Some u \<longrightarrow> s3 u))"

lemma and_thenE:
  assumes "and_then r f = Inr y"
  obtains x where "r = Inr x" "f x = Inr y"
  using assms by (auto simp: and_then_Inr)

lemma s3_file_link [simp]: "s3 (file_link z f)"
  by (simp add: s3_def file_link_def starts_with_def)

lemma text_url_fine: "text_url z f c = (u, c1) \<Longrightarrow> links_ok b c \<Longrightarrow> s3 u \<and> links_ok b c1"
  by (auto simp: text_url_def links_ok_def)

lemma compile_task_fine:
  "generate_compile_task z s t c = (u, c1) \<Longrightarrow> links_ok b c \<Longrightarrow> s3 u \<and> links_ok b c1"
  by (auto simp: generate_compile_task_def text_url_def links_ok_def Let_def split: option.splits dest!: map_of_SomeD)

lemma artifact_fine:
  assumes "artifact_from_spj_program z p b1 b2 b3 c = Inr (u, c1)" "links_ok b c"
  shows "s3 u \<and> links_ok b c1"
  using assms unfolding artifact_from_spj_program_def Let_def
  by (auto split: option.splits if_splits dest: text_url_fine compile_task_fine)

lemma run_of_fine:
  assumes "run_of z cfg t lm0 infile c = Inr (r, c1)" "links_ok b c" "\<forall>u. infile = Some u \<longrightarrow> s3 u"
  shows "run_fine r \<and> links_ok b c1"
  using assms unfolding run_of_def Let_def
  by (auto simp: and_then_Inr run_fine_def split: if_splits dest: artifact_fine)

lemma answer_file_fine:
  assumes "answer_file z i c = (a, c1)" "links_ok b c"
  shows "(\<forall>u. a = Some u \<longrightarrow> s3 u) \<and> links_ok b c1"
  using assms unfolding answer_file_def Let_def
  by (auto simp: text_url_def links_ok_def split: if_splits)

lemma check_of_fine:
  assumes "check_of z cfg i c = Inr (k, c1)" "links_ok b c"
  shows "check_fine k \<and> links_ok b c1"
proof -
  consider "sg_Check (pc_SPJ cfg) = js ''compare''" | "sg_Check (pc_SPJ cfg) = js ''skip''" | "sg_Check (pc_SPJ cfg) = js ''custom''"
    using assms(1) unfolding check_of_def Let_def by (auto split: if_splits)
  then show ?thesis
  proof cases
    case 1
    obtain a c2 where a: "answer_file z i c = (a, c2)" by (cases "answer_file z i c")
    show ?thesis using assms 1 answer_file_fine [OF a assms(2)] unfolding check_of_def Let_def 1 a
      by (auto simp: check_fine_def split: option.splits)
  next
    case 2
    then show ?thesis using assms unfolding check_of_def Let_def by (simp add: check_fine_def)
  next
    case 3
    then have start: "and_then (artifact_from_spj_program z (sg_Checker (pc_SPJ cfg)) ''spj_bin'' ''spj.cpp'' ''checker'' c)
        (\<lambda>(a, c1). let (ans, c2) = answer_file z i c1 in Inr (SpjChecker a ans default_check_limits, c2)) = Inr (k, c1)"
      using assms(1) unfolding check_of_def Let_def by simp
    from start obtain r where r: "artifact_from_spj_program z (sg_Checker (pc_SPJ cfg)) ''spj_bin'' ''spj.cpp'' ''checker'' c = Inr r"
      by (rule and_thenE)
    obtain x c2 ans c3 where "r = (x, c2)" "answer_file z i c2 = (ans, c3)" by (metis prod.exhaust)
    then have x: "artifact_from_spj_program z (sg_Checker (pc_SPJ cfg)) ''spj_bin'' ''spj.cpp'' ''checker'' c = Inr (x, c2)"
        "answer_file z i c2 = (ans, c1)" "k = SpjChecker x ans default_check_limits"
      using r start by simp_all
    have "s3 x \<and> links_ok b c2" by (rule artifact_fine [OF x(1) assms(2)])
    then show ?thesis using answer_file_fine [OF x(2)] x(3) by (auto simp: check_fine_def)
  qed
qed

text \<open>The work of the test points of a plan, by whether they are compiled one by one.\<close>

definition work_fine :: "bool \<Rightarrow> compile_plan option \<Rightarrow> work \<Rightarrow> bool" where
  "work_fine b template w \<longleftrightarrow> run_fine (wk_run w) \<and> check_fine (wk_check w)
     \<and> (if b then \<exists>p src. template = Some p \<and> wk_input w = CompiledFor (p\<lparr>cp_source := src\<rparr>)
                \<and> (\<exists>u. s3 u \<and> (src = CppSource u \<or> src = VerilogSource u))
        else wk_input w = SubmittedCode)"

lemma parse_testpoint_fine:
  assumes "parse_testpoint z cfg template conf c = Inr (t, c1)" "links_ok b c"
  shows "work_fine b template (pt_work t) \<and> links_ok b c1"
proof -
  let ?i = "id_of z conf"
  obtain infile c2 where i: "(if ?i @ js ''.in'' \<in> set (namelist z) then apfst Some (text_url z (?i @ js ''.in'') c) else (None, c))
      = (infile, c2)" by (metis prod.exhaust)
  then have c2: "links_ok b c2" "\<forall>u. infile = Some u \<longrightarrow> s3 u"
    using assms(2) by (auto simp: text_url_def links_ok_def split: if_splits)
  note start = assms(1) [unfolded parse_testpoint_def Let_def i prod.case]
  from start obtain lm0 where 1: "run_limits conf = Inr lm0" by (rule and_thenE)
  from start obtain ty where 2: "run_type cfg conf = Inr ty" unfolding 1 and_then_simps by (rule and_thenE)
  from start obtain rc where 3: "run_of z cfg ty lm0 infile c2 = Inr rc" unfolding 1 2 and_then_simps by (rule and_thenE)
  obtain run c3 where rc: "rc = (run, c3)" by (cases rc)
  from start obtain kc where 4: "check_of z cfg ?i c3 = Inr kc"
    unfolding 1 2 3 and_then_simps rc prod.case by (rule and_thenE)
  obtain check c4 where kc: "kc = (check, c4)" by (cases kc)
  note t = start [unfolded 1 2 3 4 and_then_simps rc kc prod.case]
  have f3: "run_fine run \<and> links_ok b c3" by (rule run_of_fine [OF 3 [unfolded rc] c2])
  then have f4: "check_fine check \<and> links_ok b c4" using check_of_fine [OF 4 [unfolded kc]] by blast
  then have b: "px_per_point c4 = b" by (simp add: links_ok_def)
  show ?thesis
  proof (cases b)
    case True
    then obtain p where p: "template = Some p" using t b by (auto split: option.splits)
    obtain u c5 where u: "text_url z (?i @ (if py_truthy (pc_Verilog cfg) then js ''.v'' else js ''.cpp'')) c4 = (u, c5)"
      by (metis prod.exhaust)
    have "s3 u \<and> links_ok b c5" using text_url_fine [OF u] f4 by blast
    moreover have "t = \<lparr>pt_id = ?i, pt_dep = dependency_of z conf, pt_work = \<lparr>wk_input = CompiledFor (p\<lparr>cp_source :=
        if py_truthy (pc_Verilog cfg) then VerilogSource u else CppSource u\<rparr>), wk_run = run, wk_check = check\<rparr>\<rparr>" "c1 = c5"
      using t True b unfolding p option.case u prod.case by simp_all
    ultimately show ?thesis using True f3 f4 p by (auto simp: work_fine_def)
  next
    case False
    then show ?thesis using t b f3 f4 by (auto simp: work_fine_def)
  qed
qed

lemma traverse_keeps:
  assumes "\<And>x s y s'. f x s = Inr (y, s') \<Longrightarrow> P s \<Longrightarrow> Q y \<and> P s'"
  shows "traverse f xs s = Inr (ys, s') \<Longrightarrow> P s \<Longrightarrow> (\<forall>y \<in> set ys. Q y) \<and> P s'"
proof (induction xs arbitrary: s ys)
  case (Cons x xs)
  then obtain y s1 zs where t: "f x s = Inr (y, s1)" "traverse f xs s1 = Inr (zs, s')" "ys = y # zs"
    by (auto simp: and_then_Inr)
  have "Q y \<and> P s1" by (rule assms [OF t(1) Cons.prems(2)])
  then show ?case using Cons.IH [OF t(2)] t(3) by auto
qed simp

text \<open>The forms a compilation has.\<close>

definition template_fine :: "bool \<Rightarrow> compile_plan option \<Rightarrow> bool" where
  "template_fine b template \<longleftrightarrow>
    (case template of
       None \<Rightarrow> \<not> b
     | Some p \<Rightarrow> \<exists>us src l. (\<forall>u \<in> set us. s3 u) \<and> cp_limits p = l
         \<and> (\<not> b \<and> cp_source p = UserSource \<and> cp_files p = map FileUrl us \<and> cp_artifact p
            \<or> \<not> b \<and> (\<exists>u. s3 u \<and> cp_source p = CppSource u) \<and> cp_files p = map FileUrl us @ [UserCode (Some src)] \<and> cp_artifact p
            \<or> b \<and> cp_files p = map FileUrl us @ [UserCode (Some src)] \<and> \<not> cp_artifact p))"

lemma parse_compile_fine:
  assumes "parse_compile z cfg parse_start = Inr (template, c1)"
  shows "\<exists>b. template_fine b template \<and> links_ok b c1"
proof -
  define lm0 where "lm0 = (if pc_CompileTimeLimit cfg = JNull then default_compile_limits
                else default_compile_limits\<lparr>lm_time := pc_CompileTimeLimit cfg\<rparr>)"
  note start = assms [unfolded parse_compile_def Let_def lm0_def [symmetric]]
  from start obtain fs where 1: "require Crashed (py_iter (pc_SupportedFiles cfg)) = Inr fs" by (rule and_thenE)
  from start obtain uc where 2: "traverse (file_url z) fs (parse_start\<lparr>px_limits := lm0\<rparr>) = Inr uc"
    unfolding 1 and_then_simps by (rule and_thenE)
  obtain us c2 where uc: "uc = (us, c2)" by (cases uc)
  note f = 2 [unfolded uc]
  note rest = start [unfolded 1 2 and_then_simps uc fst_conv snd_conv]
  have "(\<forall>u \<in> set us. s3 u) \<and> px_per_point c2 = False \<and> px_artifacts c2 = []"
  proof (rule traverse_keeps [OF _ f, where P = "\<lambda>c. px_per_point c = False \<and> px_artifacts c = []"])
    show "s3 y \<and> px_per_point s' = False \<and> px_artifacts s' = []"
      if "file_url z x s = Inr (y, s')" "px_per_point s = False \<and> px_artifacts s = []" for x s y s'
      using that by (auto simp: file_url_def split: jval.splits)
  qed (simp add: parse_start_def)
  then show ?thesis
    using rest by (auto simp: template_fine_def links_ok_def text_url_def simp del: js_simps_list split: if_splits
        intro: exI [of _ us])
qed

text \<open>What a generated plan is made of.\<close>

lemma generated_plan_fine:
  assumes "generate_plan z = Inr plan" "jp_quiz plan = None"
  obtains b template where "template_fine b template" "jp_compile plan = (if b then None else template)"
    "\<forall>k \<in> set (jp_judge plan). \<forall>t \<in> set (tk_points k). work_fine b template (pt_work t)"
proof -
  from assms obtain cfg template c1 tps c2 where g: "parse_compile z cfg parse_start = Inr (template, c1)"
      "traverse (parse_testpoint z cfg template) (pc_Details cfg) c1 = Inr (tps, c2)"
      "plan_tasks (pc_Details cfg) tps = Inr (jp_judge plan)" "jp_compile plan = (if px_per_point c2 then None else template)"
    by (auto simp: generate_plan_def and_then_Inr Let_def split_def split: if_splits)
  obtain b where b: "template_fine b template" "links_ok b c1" using parse_compile_fine [OF g(1)] by blast
  have tps: "(\<forall>t \<in> set tps. work_fine b template (pt_work t)) \<and> links_ok b c2"
    by (rule traverse_keeps [where P = "links_ok b" and Q = "\<lambda>t. work_fine b template (pt_work t)", OF _ g(2) b(2)])
      (rule parse_testpoint_fine)
  then have per: "px_per_point c2 = b" by (simp add: links_ok_def)
  obtain base where base: "jp_judge plan = generate_dependents base" "concat (map tk_points base) = tps"
    by (rule plan_tasks_base [OF g(3)])
  have "concat (map tk_points (jp_judge plan)) = tps" using base generate_dependents_same by metis
  then have "set (tk_points k) \<subseteq> set tps" if "k \<in> set (jp_judge plan)" for k using that by auto
  then show ?thesis using that [OF b(1)] g(4) per tps by (metis subsetD)
qed

section \<open>Actions that return\<close>

text \<open>Started where \<open>P\<close> holds, an action returns a value and leaves a state as \<open>Q\<close> says.\<close>

definition returns :: "(submission \<Rightarrow> bool) \<Rightarrow> 'a act \<Rightarrow> ('a \<Rightarrow> submission \<Rightarrow> bool) \<Rightarrow> bool" where
  "returns P m Q \<longleftrightarrow> (\<forall>c. P c \<longrightarrow> (\<exists>x c1. m c = (Inr x, c1) \<and> Q x c1))"

lemma returnsI: "(\<And>c. P c \<Longrightarrow> \<exists>x c1. m c = (Inr x, c1) \<and> Q x c1) \<Longrightarrow> returns P m Q"
  by (simp add: returns_def)

lemma returnsD: "returns P m Q \<Longrightarrow> P c \<Longrightarrow> \<exists>x c1. m c = (Inr x, c1) \<and> Q x c1"
  by (simp add: returns_def)

lemma returns_weaken: "returns P m Q \<Longrightarrow> (\<And>c. P' c \<Longrightarrow> P c) \<Longrightarrow> (\<And>x c. Q x c \<Longrightarrow> Q' x c) \<Longrightarrow> returns P' m Q'"
  unfolding returns_def by blast

lemma returns_yields: "(\<And>c. P c \<Longrightarrow> Q x c) \<Longrightarrow> returns P (yields x) Q"
  by (simp add: returns_def yields_def)

lemma returns_chain: "returns P m Q \<Longrightarrow> (\<And>x. returns (Q x) (f x) R) \<Longrightarrow> returns P (chain m f) R"
  unfolding returns_def chain_def by fastforce

lemma returns_each:
  "(\<And>x. x \<in> set xs \<Longrightarrow> returns P (f x) (\<lambda>y c. P c \<and> Q x y)) \<Longrightarrow> returns P (each_of f xs) (\<lambda>ys c. P c \<and> list_all2 Q xs ys)"
proof (induction xs)
  case (Cons x xs)
  have head: "returns P (f x) (\<lambda>y c. P c \<and> Q x y)" and tail: "returns P (each_of f xs) (\<lambda>ys c. P c \<and> list_all2 Q xs ys)"
    using Cons by simp_all
  show ?case unfolding each_of.simps
  proof (rule returns_chain [OF head], rule returns_chain)
    show "returns (\<lambda>c. P c \<and> Q x y) (each_of f xs) (\<lambda>ys c. P c \<and> Q x y \<and> list_all2 Q xs ys)" for y
      using tail unfolding returns_def by blast
  qed (rule returns_yields, simp)
qed (simp add: returns_yields)

lemma returns_signed: "s3 u \<Longrightarrow> returns P (given (sign_url S u)) (\<lambda>_. P)"
  by (simp add: returns_def given_def sign_url_def s3_def)

lemma returns_file: "\<forall>u. f = Some u \<longrightarrow> s3 u \<Longrightarrow> returns P (signed_file S f) (\<lambda>_. P)"
  by (cases f) (auto simp: signed_file_def intro!: returns_yields returns_chain [OF returns_signed])

lemma returns_run: "run_fine r \<Longrightarrow> returns P (ready_run S r) (\<lambda>_. P)"
proof (cases r)
  case (Some a)
  assume fine: "run_fine r"
  have i: "returns P (case ra_interactor a of None \<Rightarrow> yields None
      | Some (u, l) \<Rightarrow> chain (given (sign_url S u)) (\<lambda>b. yields (Some (b, l)))) (\<lambda>_. P)"
    using fine Some by (auto simp: run_fine_def intro!: returns_yields returns_chain [OF returns_signed] split: option.split)
  have f: "returns P (signed_file S (ra_infile a)) (\<lambda>_. P)" using fine Some by (simp add: run_fine_def returns_file)
  show ?thesis
  proof (rule returnsI)
    fix c assume "P c"
    let ?t = "if ra_type a = js ''elf'' \<and> su_lang c = Python then js ''python'' else ra_type a"
    have "returns P (chain (case ra_interactor a of None \<Rightarrow> yields None
        | Some (u, l) \<Rightarrow> chain (given (sign_url S u)) (\<lambda>b. yields (Some (b, l)))) (\<lambda>i. chain (signed_file S (ra_infile a)) (\<lambda>f.
            yields (Some \<lparr>ra_type = ?t, ra_limits = ra_limits a, ra_infile = f, ra_interactor = i\<rparr>)))) (\<lambda>_. P)"
      by (rule returns_chain [OF i], rule returns_chain [OF f], rule returns_yields)
    from returnsD [OF this \<open>P c\<close>] show "\<exists>x c1. ready_run S r c = (Inr x, c1) \<and> P c1"
      unfolding ready_run_def Some Let_def option.case .
  qed
qed (simp add: ready_run_def returns_def yields_def)

lemma returns_check: "check_fine k \<Longrightarrow> returns P (ready_check S k) (\<lambda>_. P)"
  by (cases k) (auto simp: ready_check_def check_fine_def intro!: returns_yields returns_chain [OF returns_signed]
      returns_chain [OF returns_file])

section \<open>Preparing a compilation\<close>

text \<open>The code goes by the name \<open>g\<close> if by any, and the artifact is \<open>a\<close>.\<close>

definition stands :: "language \<Rightarrow> jstr \<Rightarrow> jstr \<Rightarrow> jstr option \<Rightarrow> submission \<Rightarrow> bool" where
  "stands lang i g a c \<longleftrightarrow> su_lang c = lang \<and> su_id c = i \<and> (su_code_key c = None \<or> su_code_key c = Some (i @ 47 # g))
     \<and> su_artifact c = a"

lemma returns_code_url: "returns (stands lang i g a) (code_url S (Some g)) (\<lambda>_. stands lang i g a)"
  by (auto simp: returns_def code_url_def stands_def yields_def Let_def)

definition file_fine :: "jstr option \<Rightarrow> jstr \<Rightarrow> problem_file \<Rightarrow> bool" where
  "file_fine f g x \<longleftrightarrow> (case x of FileUrl u \<Rightarrow> s3 u | UserCode _ \<Rightarrow> f = Some g)"

lemma returns_finish:
  assumes "list_all (file_fine f g) (cp_files p)" "cp_artifact p \<Longrightarrow> a = None"
  shows "returns (stands lang i g a) (finish_compile S f p src)
    (\<lambda>_. stands lang i g (if cp_artifact p then Some (sn_get S Artifacts (i @ 47 # js ''main'')) else a))"
proof -
  have each: "returns (stands lang i g a) (supplementary S f x) (\<lambda>y c. stands lang i g a c \<and> True)" if "x \<in> set (cp_files p)" for x
  proof -
    have "file_fine f g x" using that assms(1) by (simp add: list_all_iff)
    then show ?thesis by (cases x) (simp_all add: supplementary_def file_fine_def returns_code_url returns_signed)
  qed
  have art: "returns (stands lang i g None) (artifact_url S (js ''main''))
      (\<lambda>_. stands lang i g (Some (sn_get S Artifacts (i @ 47 # js ''main''))))"
    by (auto simp: returns_def artifact_url_def stands_def yields_def Let_def simp del: js_simps_list)
  have files: "returns (stands lang i g a) (each_of (supplementary S f) (cp_files p)) (\<lambda>_. stands lang i g a)"
    by (rule returns_weaken [OF returns_each [OF each]]) simp_all
  have rest: "returns (stands lang i g a) (chain (if cp_artifact p then chain (artifact_url S (js ''main'')) (\<lambda>u. yields (Some u))
        else yields None) (\<lambda>aa. yields (CompileInput \<lparr>ct_source = src, ct_files = us, ct_artifact = aa, ct_limits = cp_limits p\<rparr>)))
      (\<lambda>_. stands lang i g (if cp_artifact p then Some (sn_get S Artifacts (i @ 47 # js ''main'')) else a))" for us
  proof (cases "cp_artifact p")
    case True
    have "returns (stands lang i g None) (chain (artifact_url S (js ''main'')) (\<lambda>u. yields (Some u)))
          (\<lambda>_. stands lang i g (Some (sn_get S Artifacts (i @ 47 # js ''main''))))"
      by (rule returns_chain [OF art]) (rule returns_yields)
    from returns_chain [OF this returns_yields] show ?thesis using assms(2) [OF True] True by (simp del: js_simps_list)
  next
    case False
    then show ?thesis by (simp add: returns_def chain_def yields_def)
  qed
  show ?thesis unfolding finish_compile_def by (rule returns_chain [OF files rest])
qed

lemma user_codes_files:
  "List.map_filter (\<lambda>f. case f of UserCode n \<Rightarrow> Some n | FileUrl _ \<Rightarrow> None) (map FileUrl us @ fs)
   = List.map_filter (\<lambda>f. case f of UserCode n \<Rightarrow> Some n | FileUrl _ \<Rightarrow> None) fs"
  by (induction us) (simp_all add: map_filter_simps)

text \<open>A compilation whose source is the problem's and one of whose files is the code.\<close>

lemma returns_prepare_with:
  assumes "cp_source p = CppSource u \<or> cp_source p = VerilogSource u" "s3 u" "\<forall>v \<in> set us. s3 v"
    "cp_files p = map FileUrl us @ [UserCode (Some g)]" "cp_artifact p \<Longrightarrow> a = None"
  shows "returns (stands lang i g a) (prepare_compile S E p)
    (\<lambda>_. stands lang i g (if cp_artifact p then Some (sn_get S Artifacts (i @ 47 # js ''main'')) else a))"
proof -
  have codes: "user_codes p = [Some g]"
    using assms(1,4) by (auto simp: user_codes_def user_codes_files map_filter_simps)
  have "list_all (file_fine (Some g) g) (cp_files p)" using assms(3,4) by (auto simp: file_fine_def list_all_iff)
  note f = returns_chain [OF returns_signed [OF assms(2)] returns_finish [OF this assms(5)]]
  show ?thesis
    using assms(1) returnsD [OF f]
    by (intro returnsI) (auto simp: prepare_compile_def codes simp del: js_simps_list)
qed

definition readable :: "answers \<Rightarrow> bool" where
  "readable E \<longleftrightarrow> (\<forall>k. \<exists>t. an_read E k = Inr t \<and> \<not> starts_with (js ''/'') (py_strip t))"

text \<open>The compilation of a plan, at the start.\<close>

lemma returns_prepare:
  assumes "template_fine False (Some p)" "lang \<noteq> Quiz" "readable E"
  shows "returns (\<lambda>c. su_lang c = lang \<and> su_code_key c = None \<and> su_artifact c = None) (prepare_compile S E p)
    (\<lambda>_ c. su_lang c = lang \<and> su_artifact c \<noteq> None)"
proof (rule returnsI)
  fix c :: submission
  assume c: "su_lang c = lang \<and> su_code_key c = None \<and> su_artifact c = None"
  obtain us src where us: "\<forall>u \<in> set us. s3 u" "cp_artifact p"
    "cp_source p = UserSource \<and> cp_files p = map FileUrl us
     \<or> (\<exists>u. s3 u \<and> cp_source p = CppSource u) \<and> cp_files p = map FileUrl us @ [UserCode (Some src)]"
    using assms(1) unfolding template_fine_def option.case by blast
  have st: "stands lang (su_id c) g None c" for g using c by (simp add: stands_def)
  from us(3) show "\<exists>x c1. prepare_compile S E p c = (Inr x, c1) \<and> su_lang c1 = lang \<and> su_artifact c1 \<noteq> None"
  proof (elim disjE conjE exE)
    fix u assume "s3 u" "cp_source p = CppSource u" "cp_files p = map FileUrl us @ [UserCode (Some src)]"
    then show ?thesis
      using returnsD [OF returns_prepare_with [where p = p and u = u and us = us and g = src and a = None and S = S and E = E,
          OF _ _ us(1)] st] us(2)
      by (auto simp: stands_def simp del: js_simps_list)
  next
    assume p: "cp_source p = UserSource" "cp_files p = map FileUrl us"
    have codes: "user_codes p = [None]" using p user_codes_files [of us "[]"] by (simp add: user_codes_def map_filter_simps)
    have files: "list_all (file_fine f g) (cp_files p)" for f g using p(2) us(1) by (auto simp: file_fine_def list_all_iff)
    have fin: "\<exists>x c1. finish_compile S f p s c2 = (Inr x, c1) \<and> su_lang c1 = lang \<and> su_artifact c1 \<noteq> None"
      if "stands lang (su_id c) g None c2" for f s c2 g
      using returnsD [OF returns_finish [where f = f and g = g and p = p and a = None and S = S and src = s, OF files] that] us(2)
      by (auto simp: stands_def simp del: js_simps_list)
    obtain t where t: "an_read E (su_reads c) = Inr t" "\<not> starts_with (js ''/'') (py_strip t)"
      using assms(3) unfolding readable_def by blast
    have code: "\<exists>u c1. code_url S (Some g) c = (Inr u, c1) \<and> stands lang (su_id c) g None c1" for g
      by (rule returnsD [OF returns_code_url st])
    show ?thesis
    proof (cases lang)
      case Cpp
      obtain u c1 where u: "code_url S (Some (js ''main.cpp'')) c = (Inr u, c1)" "stands lang (su_id c) (js ''main.cpp'') None c1"
        using code by blast
      show ?thesis using fin [OF u(2)] c Cpp
        by (simp add: prepare_compile_def codes p(1) Let_def fallback_filename_def get_compile_source_def chain_def u(1) yields_def
            del: js_simps_list)
    next
      case Verilog
      obtain u c1 where u: "code_url S (Some (js ''main.v'')) c = (Inr u, c1)" "stands lang (su_id c) (js ''main.v'') None c1"
        using code by blast
      show ?thesis using fin [OF u(2)] c Verilog
        by (simp add: prepare_compile_def codes p(1) Let_def fallback_filename_def get_compile_source_def chain_def u(1) yields_def
            del: js_simps_list)
    next
      case Python
      obtain u c1 where u: "code_url S (Some (js ''main.py'')) c = (Inr u, c1)" "stands lang (su_id c) (js ''main.py'') None c1"
        using code by blast
      show ?thesis using u(2) c Python
        by (simp add: prepare_compile_def codes p(1) Let_def get_compile_source_def chain_def u(1) yields_def set_artifact_def
            stands_def del: js_simps_list)
    next
      case Git
      have "stands lang (su_id c) [] None (c\<lparr>su_reads := Suc (su_reads c)\<rparr>)" using c by (simp add: stands_def)
      from fin [OF this] show ?thesis using c Git t
        by (simp add: prepare_compile_def codes p(1) Let_def get_compile_source_def chain_def read_code_def yields_def
            del: js_simps_list)
    qed (use assms(2) in simp)
  qed
qed

section \<open>Preparing the tasks\<close>

text \<open>A record of a task without the work of its points: what the loop and its specification read.\<close>

definition outline :: "'a task_rec \<Rightarrow> (jstr \<times> dep) list \<times> jstr list \<times> nat list \<times> verdict option list option" where
  "outline r = (map (\<lambda>t. (pt_id t, pt_dep t)) (tr_points r), tr_plan r, tr_dependents r, tr_result r)"

lemma returns_point:
  assumes "run_fine (wk_run (pt_work t))" "check_fine (wk_check (pt_work t))"
    "returns P (ready_input S E (wk_input (pt_work t))) (\<lambda>_. P)"
  shows "returns P (ready_point S E t) (\<lambda>p c. P c \<and> (pt_id p = pt_id t \<and> pt_dep p = pt_dep t))"
  unfolding ready_point_def
  by (rule returns_chain [OF assms(3)], rule returns_chain [OF returns_run [OF assms(1)]],
      rule returns_chain [OF returns_check [OF assms(2)]], rule returns_yields) simp

lemma returns_tasks:
  assumes "\<forall>k \<in> set ks. \<forall>t \<in> set (tk_points k). returns P (ready_point S E t) (\<lambda>p c. P c \<and> (pt_id p = pt_id t \<and> pt_dep p = pt_dep t))"
  shows "returns P (each_of (get_judge_task S E) ks) (\<lambda>rs c. P c \<and> map outline rs = map outline (plan_records ks))"
proof -
  have task: "returns P (get_judge_task S E k) (\<lambda>r c. P c \<and> [outline r] = map outline (plan_records [k]))" if k: "k \<in> set ks" for k
  proof -
    have points: "returns P (each_of (ready_point S E) (tk_points k))
        (\<lambda>ps c. P c \<and> list_all2 (\<lambda>t p. pt_id p = pt_id t \<and> pt_dep p = pt_dep t) (tk_points k) ps)"
      by (rule returns_each) (use assms k in blast)
    have same: "map (\<lambda>t. (pt_id t, pt_dep t)) ps = map (\<lambda>t. (pt_id t, pt_dep t)) ts"
      if "list_all2 (\<lambda>t p. pt_id p = pt_id t \<and> pt_dep p = pt_dep t) ts ps" for ts :: "work point list" and ps :: "ready_work point list"
      using that by induction auto
    show ?thesis unfolding get_judge_task_def
      by (rule returns_chain [OF points], rule returns_yields) (auto simp: outline_def plan_records_def same)
  qed
  have records: "map outline rs = map outline (plan_records xs)"
    if "list_all2 (\<lambda>k r. [outline r] = map outline (plan_records [k])) xs rs" for xs and rs :: "ready_work task_rec list"
    using that by induction (auto simp: plan_records_def)
  show ?thesis by (rule returns_weaken [OF returns_each [OF task]]) (auto intro: records)
qed

text \<open>Test points that run the artifact of the submission, and test points that are compiled one by one.\<close>

lemma returns_submitted:
  "returns (\<lambda>c. su_artifact c \<noteq> None \<or> su_code_key c = None) (ready_input S E SubmittedCode)
     (\<lambda>_ c. su_artifact c \<noteq> None \<or> su_code_key c = None)"
  by (auto simp: returns_def ready_input_def code_url_def set_artifact_def chain_def yields_def Let_def split: option.split)

lemma returns_compiled:
  assumes "template_fine True (Some p)"
  shows "\<exists>g. \<forall>u src. s3 u \<longrightarrow> src = CppSource u \<or> src = VerilogSource u
    \<longrightarrow> returns (stands lang i g None) (ready_input S E (CompiledFor (p\<lparr>cp_source := src\<rparr>))) (\<lambda>_. stands lang i g None)"
proof -
  obtain us g where p: "\<forall>v \<in> set us. s3 v" "cp_files p = map FileUrl us @ [UserCode (Some g)]" "\<not> cp_artifact p"
    using assms unfolding template_fine_def by auto
  have "returns (stands lang i g None) (prepare_compile S E (p\<lparr>cp_source := src\<rparr>)) (\<lambda>_. stands lang i g None)"
    if "s3 u" "src = CppSource u \<or> src = VerilogSource u" for u src
    using returns_prepare_with [where p = "p\<lparr>cp_source := src\<rparr>" and u = u and us = us and g = g and a = None and S = S and E = E
        and lang = lang and i = i] that p by auto
  then show ?thesis by (intro exI [of _ g]) (auto simp: returns_def ready_input_def)
qed

lemma returns_judge_tasks:
  assumes "template_fine b template" "\<forall>k \<in> set ks. \<forall>t \<in> set (tk_points k). work_fine b template (pt_work t)"
    "if b then stands lang i [] None c \<and> su_code_key c = None else su_artifact c \<noteq> None \<or> su_code_key c = None"
  shows "\<exists>rs c1. each_of (get_judge_task S E) ks c = (Inr rs, c1) \<and> map outline rs = map outline (plan_records ks)"
proof (cases b)
  case False
  let ?P = "\<lambda>c. su_artifact c \<noteq> None \<or> su_code_key c = None"
  have fine: "\<forall>k \<in> set ks. \<forall>t \<in> set (tk_points k). work_fine False template (pt_work t)" using assms(2) False by simp
  have "returns ?P (each_of (get_judge_task S E) ks) (\<lambda>rs c. ?P c \<and> map outline rs = map outline (plan_records ks))"
  proof (intro returns_tasks ballI returns_point)
    fix k t assume "k \<in> set ks" "t \<in> set (tk_points k)"
    then have w: "work_fine False template (pt_work t)" using fine by blast
    then show "run_fine (wk_run (pt_work t))" "check_fine (wk_check (pt_work t))" by (simp_all add: work_fine_def)
    show "returns ?P (ready_input S E (wk_input (pt_work t))) (\<lambda>_. ?P)" using w returns_submitted by (simp add: work_fine_def)
  qed
  moreover have "?P c" using assms(3) False by simp
  ultimately show ?thesis using returnsD by blast
next
  case True
  show ?thesis
  proof (cases template)
    case None
    then show ?thesis using assms(1) True by (simp add: template_fine_def)
  next
    case (Some p)
    then have fine: "template_fine True (Some p)" "\<forall>k \<in> set ks. \<forall>t \<in> set (tk_points k). work_fine True (Some p) (pt_work t)"
      using assms(1,2) True by simp_all
    obtain g where g: "\<forall>u src. s3 u \<longrightarrow> src = CppSource u \<or> src = VerilogSource u
        \<longrightarrow> returns (stands lang i g None) (ready_input S E (CompiledFor (p\<lparr>cp_source := src\<rparr>))) (\<lambda>_. stands lang i g None)"
      using returns_compiled [where lang = lang and i = i and S = S and E = E, OF fine(1)] by blast
    have "returns (stands lang i g None) (each_of (get_judge_task S E) ks)
        (\<lambda>rs c. stands lang i g None c \<and> map outline rs = map outline (plan_records ks))"
    proof (intro returns_tasks ballI returns_point)
      fix k t assume "k \<in> set ks" "t \<in> set (tk_points k)"
      then have w: "work_fine True (Some p) (pt_work t)" using fine(2) by blast
      then show "run_fine (wk_run (pt_work t))" "check_fine (wk_check (pt_work t))" by (simp_all add: work_fine_def)
      obtain u src where i: "wk_input (pt_work t) = CompiledFor (p\<lparr>cp_source := src\<rparr>)" "s3 u" "src = CppSource u \<or> src = VerilogSource u"
        using w by (auto simp: work_fine_def)
      then show "returns (stands lang i g None) (ready_input S E (wk_input (pt_work t))) (\<lambda>_. stands lang i g None)"
        unfolding i(1) using g by blast
    qed
    moreover have "stands lang i g None c" using assms(3) True by (simp add: stands_def)
    ultimately show ?thesis using returnsD by blast
  qed
qed

text \<open>
  C12: Every plan the scheduler generates, unless it is a quiz, can be judged for code in any language: while the
  compilation and the tasks are prepared no exception is raised, neither for an address that is none of
  the object store, nor for a second artifact, nor for code that would be two files or none; and the loop
  starts with the tasks of the plan. (The code is read and copied without an error, and an address to
  clone from is none of the local machine, which the code refuses.)
\<close>

theorem generated_plan_prepared:
  assumes "generate_plan z = Inr plan" "jp_quiz plan = None" "lang \<noteq> Quiz" "readable E" "an_copy E = Inr ()"
  shows "\<exists>prep ts c. prepare_all S E (new_submission plan i lang) = (Inr (prep, ts), c)
    \<and> map outline ts = map outline (plan_records (jp_judge plan))"
proof -
  obtain b template where t: "template_fine b template" "jp_compile plan = (if b then None else template)"
      "\<forall>k \<in> set (jp_judge plan). \<forall>t \<in> set (tk_points k). work_fine b template (pt_work t)"
    by (rule generated_plan_fine [OF assms(1,2)])
  let ?c = "new_submission plan i lang"
  have c: "su_lang ?c = lang" "su_id ?c = i" "su_code_key ?c = None" "su_artifact ?c = None" "su_plan ?c = plan"
    by (simp_all add: new_submission_def)
  have "\<exists>prep c1. (case jp_compile plan of None \<Rightarrow> yields None | Some p \<Rightarrow> chain (prepare_compile S E p) (\<lambda>x. yields (Some x))) ?c
      = (Inr prep, c1) \<and> (if b then stands lang i [] None c1 \<and> su_code_key c1 = None else su_artifact c1 \<noteq> None \<or> su_code_key c1 = None)"
  proof (cases "jp_compile plan")
    case None
    then show ?thesis using c by (simp add: yields_def stands_def)
  next
    case (Some p)
    then have p: "\<not> b" "template_fine False (Some p)" using t(1,2) by (auto split: if_splits)
    obtain x c1 where "prepare_compile S E p ?c = (Inr x, c1)" "su_artifact c1 \<noteq> None"
      using returnsD [OF returns_prepare [OF p(2) assms(3,4)], of ?c S] c by auto
    then show ?thesis using Some p(1) by (simp add: chain_def yields_def)
  qed
  then obtain prep c1 where p: "(case jp_compile plan of None \<Rightarrow> yields None
        | Some p \<Rightarrow> chain (prepare_compile S E p) (\<lambda>x. yields (Some x))) ?c = (Inr prep, c1)"
      "if b then stands lang i [] None c1 \<and> su_code_key c1 = None else su_artifact c1 \<noteq> None \<or> su_code_key c1 = None" by blast
  obtain ts c2 where ts: "each_of (get_judge_task S E) (jp_judge plan) c1 = (Inr ts, c2)"
      "map outline ts = map outline (plan_records (jp_judge plan))"
    using returns_judge_tasks [OF t(1,3) p(2)] by blast
  obtain c3 where "upload_code E c2 = (Inr (), c3)"
    by (cases "su_code_key c2") (simp_all add: upload_code_def yields_def given_def assms(5))
  then have "prepare_all S E ?c = (Inr (prep, ts), c3)"
    unfolding prepare_all_def c(5) chain_def p(1) by (simp add: ts(1) yields_def)
  then show ?thesis using ts(2) by blast
qed

section \<open>Examples\<close>

definition plain_signer :: signer where
  "plain_signer = \<lparr>sn_get = (\<lambda>_ k. k), sn_put = (\<lambda>_ k. k)\<rparr>"

definition calm :: answers where
  "calm = \<lparr>an_read = (\<lambda>_. Inr (js ''https://host/code.git'')), an_plan = Inr start_plan, an_copy = Inr (),
     an_compile = Inr (js ''compiled'', []), an_judging = Inr (), an_ops = [], an_cancelled = True, an_again = False, an_stop = None,
     an_json = (\<lambda>_. Inr (JObj [])), an_trace = []\<rparr>"

lemma calm_readable: "readable calm" "an_copy calm = Inr ()" "an_stop calm = None"
  by (simp_all add: readable_def calm_def py_strip_def py_space_def starts_with_def)

lemma start_plan_code: "jp_quiz start_plan = None"
  by (simp add: start_plan_def)

theorem generated_plan_prepared_witness:
  "\<exists>prep ts c. prepare_all plain_signer calm (new_submission start_plan (js ''7'') Git) = (Inr (prep, ts), c)
    \<and> map outline ts = map outline (plan_records (jp_judge start_plan))"
  by (rule generated_plan_prepared [OF start_generates start_plan_code _ calm_readable(1,2)]) simp

lemma cancelled_run:
  "ex_result (execute_plan plain_signer calm start_plan (js ''7'') Python Map.empty) \<noteq> None"
proof -
  obtain r compiled c where "judge_submission plain_signer calm (new_submission start_plan (js ''7'') Python) = ((Some r, compiled), c)"
  proof -
    obtain p c1 where "prepare_all plain_signer calm (new_submission start_plan (js ''7'') Python) = (p, c1)"
      by (metis prod.exhaust)
    then have "fst (fst (judge_submission plain_signer calm (new_submission start_plan (js ''7'') Python))) \<noteq> None"
      by (auto simp: judge_submission_def judge_compiled_def run_judge_tasks_def calm_def split: sum.split option.split)
    then show thesis using that by (metis option.exhaust prod.collapse)
  qed
  then show ?thesis by (simp add: execute_plan_def Let_def start_plan_code split_def)
qed


definition small_quiz :: "quiz_problem list" where
  "small_quiz = [\<lparr>qz_id = JStr (js ''q1''), qz_type = JStr (js ''SELECT''), qz_title = JStr [], qz_answer = JStr (js ''B''), qz_options = None\<rparr>,
     \<lparr>qz_id = JStr (js ''q2''), qz_type = JStr (js ''FILL''), qz_title = JStr [], qz_answer = JStr (js ''4''), qz_options = None\<rparr>]"

lemma quiz_scored_witness:
  "\<exists>r. judge_quiz small_quiz (JObj [(js ''q1'', JStr (js ''B'')), (js ''q2'', JStr (js ''4''))]) = Inr r
    \<and> qr_score r = 1 \<and> qr_result r \<noteq> Accepted"
  using quiz_scored [of small_quiz "[(js ''q1'', JStr (js ''B'')), (js ''q2'', JStr (js ''4''))]"]
  by (auto simp: small_quiz_def answered_right_def)

definition quiz_config :: jval where
  "quiz_config = JObj [(js ''Groups'', JArr []), (js ''Details'', JArr []), (js ''Quiz'', JBool True)]"

definition quiz_zip :: problem_zip where
  "quiz_zip = (zip_with quiz_config)\<lparr>pz_quiz := Some (JObj [(js ''problems'', JArr [])])\<rparr>"

lemma quiz_generates: "\<exists>plan. generate_plan quiz_zip = Inr plan \<and> jp_quiz plan \<noteq> None"
  by (simp add: generate_plan_def load_config_def quiz_zip_def zip_with_def quiz_config_def all_of_def load_quiz_def field_or_def
      require_def desugar_spj_config_def stages_of_def stage_fields_def optional_program_def config_fields_def)

theorem quiz_stays_judging_witness:
  "\<exists>plan r. generate_plan quiz_zip = Inr plan
    \<and> get_partial_result (ex_table (execute_plan plain_signer calm plan (js ''7'') Quiz Map.empty)) (js ''7'') = Some (Inr r)
    \<and> pr_result r = Judging"
proof -
  obtain plan where p: "generate_plan quiz_zip = Inr plan" "jp_quiz plan \<noteq> None" using quiz_generates by blast
  show ?thesis using quiz_stays_judging [OF p, of plain_signer calm "js ''7''" Quiz Map.empty] p(1) by blast
qed

end
