(* ===== verification/Spec2Isabelle.thy ===== *)
theory Spec2Isabelle
  imports ProctorMonitor ProctorUploader EnvCheck ProctorSession ClangdWorker Ide
    IdeComplete IdePanel MdImport Attachments DataConfig AdminUpload DescForm ProctorLive Pages ConfigSchema
    DescPage WorkerInput ChunkRecordings ProctorServer ProctorSystem RecordingSystem
    JudgeSystem JudgeDispatch JudgeQueue JudgePrepared
begin

text \<open>
  The repository is an online judge: a Flask server with a scheduler, judgers and a server for
  exam recordings, all in Python, and the scripts its pages run in the browser, in JavaScript
  under \<open>src/web/static/js\<close> and, for the clangd worker,
  \<open>src/web/static/lib/clangd/clangd-worker.js\<close>. This development models the scripts, the
  servers that the scripts of an exam talk to, the core of the scheduler
  (\<open>src/scheduler2\<close>), and how they work together. The scripts
  keep state of their own across events, timers and network answers, and are what an exam
  or a problem setter's work depends on: the runtime of a proctored exam, the problem IDE with its
  language servers, the problem editor of the administration, and a few small scripts.

  How the parts interact. During an exam, \<open>proctor.js\<close> checks the machine
  (\<open>proctor-envcheck.js\<close>), asks for camera and screen, records both through one uploader
  per track, reports what it observes through one event buffer, and answers the signals of a live
  viewer. The uploader reports the chunks it gives up through the event buffer. The events go to the
  web server (\<open>src/web/web.py\<close>, \<open>src/web/manager/proctor.py\<close>), which keeps the
  sessions and the event log and registers and finalizes sessions with the chunk server
  (\<open>src/proctor2/main.py\<close>); the chunks go to that server, which collects them in files and
  uploads these to the object store when a session ends. The IDE
  (\<open>problem_ide.js\<close>) keeps one editor, the code saved in \<open>localStorage\<close>, and a
  language client per language (\<open>lsp-monaco.js\<close>); the client of C++ talks to the worker
  that runs clangd, which turns messages into bytes and bytes into messages. The problem editor
  (\<open>problem_admin.js\<close>) holds the description with its examples, the attachments, the data
  configuration and the uploads. Its data configuration is what the scheduler reads: from it the
  scheduler makes the plan of a problem, by the plan it judges each submission, task by task, and each
  task is dispatched to one of the runners.

  Conventions (theories \<open>JSPrelude\<close> and \<open>JSNumbers\<close>). A JavaScript string is the
  list of its UTF-16 code units, a value as \<open>JSON.stringify\<close> sees it is a
  \<open>jval\<close>, a number is an \<open>int\<close> (\<open>is_nan\<close> marks the texts that
  are none), \<open>undefined\<close> and \<open>null\<close> are \<open>None\<close>. A promise that
  settles is a \<open>reply\<close>: \<open>Resolves\<close> or \<open>Rejects\<close>. An asynchronous
  function is cut at its \<open>await\<close>s: the state has a field that says where it is suspended,
  and each answer, timer or event is one operation on the state, so that an ordering of events is a
  list of operations and a run is a \<open>fold\<close>. Where a function is run as one step, its
  answers are arguments and the text of the theory says so. Five interfaces are locales of
  \<open>JSPrelude\<close>: a guarded state machine with an invariant, an unguarded one, a sink that
  keeps what it is given in order, a state machine whose contents come out in the order they went
  in, and a key-value store. Each is interpreted on the models of the components that provide it,
  and the properties of runs follow from the lemmas proved in the locale.

  The exam runtime.
  \<open>ProctorEvents\<close> models the event buffer (\<open>queueEvent\<close>,
  \<open>flushEvents\<close>, \<open>sendHeartbeat\<close>, the beacon of \<open>pagehide\<close>):
  nothing queued is lost, batches carry the events in order, no wake-up is lost.
  \<open>ProctorMonitor\<close> adds the handlers that observe visibility, focus, full screen, keys and
  the clipboard, the overlay and the limit of tab switches, and lifts the buffer's laws to runs of
  the whole page.
  \<open>ProctorUploader\<close> models \<open>makeUploader\<close>: the buffer of 16 chunks, four attempts
  per chunk, waits of 1, 2 and 4 seconds between them. A run of answers ends the loop after at most
  130 answers: at most 16 buffered chunks and one evicted chunk under way, each with at most four
  attempts and three waits, are fewer. The theorem on termination has that bound, and the one on
  losses shows the case the full buffer adds.
  \<open>EnvCheck\<close> models \<open>proctor-envcheck.js\<close>, every browser call of which may throw;
  its verdict is characterised by the patterns and flags.
  \<open>ProctorSession\<close> models entering the exam and losing a device
  (\<open>bootMediaAndEnterExam\<close>, \<open>ensureSession\<close>, \<open>startRecorders\<close>,
  \<open>reconnectStreams\<close>) as actions over an environment of answers that emit effects, with
  rules that compose what an action can emit and whether it can return.
  \<open>ProctorLive\<close> models snapshots (scaled to 1280 pixels), the environment report, the
  signaling with its interleaved handlers, and publishing to LiveKit. Its one hypothesis is what
  WebRTC promises of \<open>setLocalDescription\<close>: it rejects an answer that another connection
  made (\<open>own_answers\<close>).

  The servers of an exam, and the whole.
  \<open>ChunkServer\<close> models the chunk server: its registry with the file it is saved in, the spool
  directory as a map from sessions to files, registration, chunks (whose head and body are two steps,
  as other requests may come between), finalization with its queue of retries, the idle sweep, abort,
  restart, and the preview with byte ranges; \<open>int\<close> and \<open>isdigit\<close> of characters
  beyond ASCII, the object store's verdicts and the chunks that arrive during an upload are
  parameters. \<open>ChunkRecordings\<close> proves what becomes of recordings: the cap of 12 GiB, that
  a finalization keeps what was recorded before it, and the three ways in which later recordings are
  lost; which segment a chunk goes to; what a preview sends; what a restart restores; when retries
  end.
  \<open>ProctorServer\<close> models the handlers of sessions, events, snapshots and settings with the
  database rows as state and an abort as a value of the reply, and the check of cross-site requests:
  one session per student, counters that agree with the log, the conditions of entry, and limits that
  never refuse. \<open>ProctorSystem\<close> runs the monitor against these handlers over a network that
  loses requests and answers, \<open>RecordingSystem\<close> runs the uploader against the chunk server in
  the same way; their theorems relate what the page reported or recorded to what the server holds.

  The IDE.
  \<open>ClangdWorker\<close> models the scanner of clangd's output (\<open>json_insert\<close>), the
  framing of its input with its escapes, the workspace files, the download and the boot;
  \<open>WorkerInput\<close> adds a reader of the protocol and shows that a server which reads by the
  announced lengths has every message, once as many reads were made as there are bytes and marks.
  \<open>LspConvert\<close> models the conversions between the protocol and Monaco,
  \<open>LspClient\<close> the JSON-RPC client with document synchronisation and boot; a server is what
  replaying the messages sent to it gives, and the client keeps that equal to the document it was
  told, settles every request at most once and never leaves its final state.
  \<open>IdeStore\<close> models the saved code and the starters over a store that may refuse access,
  \<open>Ide\<close> the editor with the language switch and both clients: each server's document is the
  editor's text whenever its language is shown, and switching away and back changes nothing.
  \<open>IdeComplete\<close> models the built-in completion with its regular expressions,
  \<open>IdePanel\<close> the controls around the editor.

  The problem editor.
  \<open>MdImport\<close> models \<open>importFromMarkdown\<close> and \<open>exportToMarkdown\<close>: what
  is exported is imported again unchanged, for the contents that \<open>exportable\<close> describes.
  \<open>DescForm\<close> models the form around it with its delayed editors, saving and reloading; there
  the lines of \<open>src/web/web.py\<close> that store the form are modelled too, for the round trip
  through the server. \<open>DescPage\<close> models the registry of Markdown editors, whose texts are
  copied to the text areas that are submitted (making an editor and setting its text are the
  parameters \<open>mk\<close> and \<open>setv\<close>), the import from a file and the export link.
  \<open>Attachments\<close> models the attachments tab (the normal form NFKC is the
  parameter \<open>N\<close>), \<open>DataConfig\<close> the graphical data configuration
  (\<open>Number\<close> on texts that are no plain decimal is the parameter \<open>F\<close>),
  \<open>ConfigSchema\<close> the published JSON schema, to which what it generates conforms,
  \<open>AdminUpload\<close> the uploads and their announcements (\<open>JSON.parse\<close> is the parameter
  \<open>P\<close>). \<open>Pages\<close> models the scripts of the smaller pages: the roster of a course,
  the switches of a contest, the language guess on submission, the header that \<open>fetch\<close> adds,
  the page width, the rendered texts with their links to attachments, and the judging buttons. Lookups in plain objects may find
  inherited properties; what is inherited is a parameter there.

  The judging of submissions.
  \<open>JudgeExec\<close> models the heart of \<open>src/scheduler2/plan/execute.py\<close>: the records of
  the test points, the task of a group, what a completed task changes (the results, the tasks
  that wait for it, the points skipped because a point they depend on failed), the loop that ends when
  no task is left, and the scores; with it the function of \<open>src/judger2/task.py\<close> that turns
  the outcome of one test point into a result. \<open>JudgeOrder\<close> states what judging is to
  compute, a function of the plan and of the verdict that each point would get, with no task
  in it. \<open>JudgeRun\<close> shows that the loop computes it: a cascade of skips stops because every
  step takes a point off those it may reach, a task ends at most once, so that the
  loop makes at most one step for each task of the plan, and the state of a finished run is that
  of the specification. \<open>JudgeScore\<close> draws the conclusions: the result does not depend on the
  order in which the tasks end, judging always ends, and the score has bounds. The verdict of
  a point is a function of its name there, the parameter \<open>v\<close>.
  \<open>JudgePlan\<close> models \<open>plan/generate.py\<close> with \<open>problem_typing.py\<close>, the table
  of languages and the summary: how a configuration and the names in the archive
  become groups, tasks and dependencies, with every refusal. The names in the archive, the
  texts Python prints for a value and the reading of real numbers are parameters.
  \<open>JudgeSubmission\<close> models what surrounds the loop: preparing the compilation and the tasks, cancelling at
  every \<open>await\<close>, the clean-up, quizzes, the status request (\<open>execute.py\<close>), the results that
  exceptions become (\<open>main.py\<close>) and the attempts to report a result (\<open>util.py\<close>); its actions
  return a value or an exception with the state, and the answers of what is awaited are a record.
  \<open>JudgePrepared\<close> shows that every generated plan can be prepared, that what was written is removed, and
  what goes wrong with quizzes and reports.
  \<open>JudgeSystem\<close> joins the problem editor, the plan and the loop: a configuration made with the
  form is accepted, and judging it ends with the specified result; what every accepted plan has; and the
  configurations that pass the published schema and are refused, or are judged never to the end.
  \<open>JudgeDispatch\<close> models the queues of the runners (\<open>dispatch.py\<close>) with their
  retries, \<open>JudgeQueue\<close> the tasks of submissions in \<open>main.py\<close>, each coroutine
  cut at its \<open>await\<close>s.

  Not modelled. Of the scheduler, the object store with its signed addresses, the heartbeats of the
  runners, the metrics and the messages that stop a cancelled task at its runner are left
  out. Of the other Python programs, the judgers but for the function named
  above (their sandbox, compilers and checkers), the models of the database and the
  rest of the web server (its pages, the interface for programs, the relay of signals, the LiveKit
  tokens, the dashboard) are left out, as are the templates and the style sheets; where the scripts
  talk to them, their requests and answers are inputs and outputs here. The libraries under \<open>src/web/static/lib\<close> and \<open>src/web/static/api\<close>
  (Monaco, CodeMirror, jQuery, JSZip, marked, KaTeX, Swagger UI, the compiled clangd and Pyright) are
  third-party code: the scripts' use of them is an effect or an input. Within the modelled scripts,
  what is left out is markup and options that are constants handed to those libraries (the toolbar
  and themes of the editors, the colours of the IDE, the delimiters of KaTeX), the capabilities
  object of the client, and the texts that only style the page.
\<close>

end
